(* ===== verification/Utf8.thy ===== *)
theory Utf8
  imports Prelude
begin

text \<open>
  The part of Rust's standard library that decides UTF-8 well-formedness
  (\<open>core::str::from_utf8\<close> with \<open>Utf8Error::valid_up_to\<close> and \<open>error_len\<close>), and
  \<open>String::from_utf8_lossy\<close> as the specification of lossy decoding. The classification
  follows the table of well-formed byte sequences (Unicode, table 3-7): overlong forms,
  surrogates and values above U+10FFFF are rejected at the second byte.
\<close>

subsection \<open>Classifying the first code point of a byte sequence\<close>

datatype head_class =
    Whole nat    \<comment> \<open>a complete code point of that many bytes\<close>
  | Broken nat   \<comment> \<open>a maximal invalid subpart of that many bytes\<close>
  | Partial      \<comment> \<open>valid so far, the input ends inside the code point\<close>

definition is_cont :: "u8 \<Rightarrow> bool" where
  "is_cont b \<longleftrightarrow> 0x80 \<le> b \<and> b \<le> 0xBF"

definition utf8_width :: "u8 \<Rightarrow> nat" where
  "utf8_width b =
     (if b < 0x80 then 1
      else if 0xC2 \<le> b \<and> b \<le> 0xDF then 2
      else if 0xE0 \<le> b \<and> b \<le> 0xEF then 3
      else if 0xF0 \<le> b \<and> b \<le> 0xF4 then 4
      else 0)"

definition second_ok :: "u8 \<Rightarrow> u8 \<Rightarrow> bool" where
  "second_ok a b =
     (if a = 0xE0 then 0xA0 \<le> b \<and> b \<le> 0xBF
      else if a = 0xED then 0x80 \<le> b \<and> b \<le> 0x9F
      else if a = 0xF0 then 0x90 \<le> b \<and> b \<le> 0xBF
      else if a = 0xF4 then 0x80 \<le> b \<and> b \<le> 0x8F
      else is_cont b)"

fun utf8_head :: "u8 list \<Rightarrow> head_class" where
  "utf8_head [] = Partial"
| "utf8_head (a # r) =
     (let w = utf8_width a in
      if w = 0 then Broken 1
      else if w = 1 then Whole 1
      else case r of
        [] \<Rightarrow> Partial
      | b # r \<Rightarrow>
          if \<not> second_ok a b then Broken 1
          else if w = 2 then Whole 2
          else case r of
            [] \<Rightarrow> Partial
          | c # r \<Rightarrow>
              if \<not> is_cont c then Broken 2
              else if w = 3 then Whole 3
              else case r of
                [] \<Rightarrow> Partial
              | d # r \<Rightarrow> if \<not> is_cont d then Broken 3 else Whole 4)"

lemma utf8_head_Whole [utf8_simps]:
  "utf8_head bs = Whole n \<Longrightarrow> 0 < n \<and> n \<le> length bs"
  by (cases bs) (auto simp: Let_def split: if_splits list.splits)

lemma utf8_head_Broken [utf8_simps]:
  "utf8_head bs = Broken n \<Longrightarrow> 0 < n \<and> n \<le> length bs"
  by (cases bs) (auto simp: Let_def split: if_splits list.splits)

lemma utf8_head_append:
  "utf8_head bs \<noteq> Partial \<Longrightarrow> utf8_head (bs @ cs) = utf8_head bs"
  by (cases bs rule: list4_cases) (auto simp: Let_def split: if_splits)

lemma utf8_head_take_Whole:
  assumes "utf8_head bs = Whole n"
  shows "utf8_head (take n bs) = Whole n"
  using assms
  by (cases bs rule: list4_cases)
     (auto simp: Let_def numeral_eq_Suc eq_commute [of "Suc _" "utf8_width _"] split: if_splits)

lemma utf8_head_Partial_length: "utf8_head bs = Partial \<Longrightarrow> length bs \<le> 3"
  by (cases bs) (auto simp: Let_def split: if_splits list.splits)

lemma utf8_head_Partial_prefix:
  "utf8_head (bs @ cs) = Partial \<Longrightarrow> utf8_head bs = Partial"
  using utf8_head_append by fastforce

subsection \<open>from_utf8\<close>

text \<open>\<open>None\<close> when valid; otherwise \<open>valid_up_to\<close> and \<open>error_len\<close> of the \<open>Utf8Error\<close>.\<close>

function utf8_error :: "u8 list \<Rightarrow> (nat \<times> nat option) option" where
  "utf8_error bs =
     (if bs = [] then None
      else case utf8_head bs of
        Whole n \<Rightarrow> map_option (\<lambda>(v, e). (n + v, e)) (utf8_error (drop n bs))
      | Broken n \<Rightarrow> Some (0, Some n)
      | Partial \<Rightarrow> Some (0, None))"
  by pat_completeness auto
termination
  by (relation "measure length") (auto dest: utf8_head_Whole)

declare utf8_error.simps [simp del]

definition utf8_valid :: "u8 list \<Rightarrow> bool" where
  "utf8_valid bs \<longleftrightarrow> utf8_error bs = None"

definition from_utf8 :: "u8 list \<Rightarrow> string option" where
  "from_utf8 bs = (if utf8_valid bs then Some (str_of_bytes bs) else None)"

lemma utf8_error_Nil [simp]: "utf8_error [] = None"
  by (simp add: utf8_error.simps)

lemma utf8_valid_Nil [simp]: "utf8_valid []"
  by (simp add: utf8_valid_def)

lemma utf8_error_Whole:
  "utf8_head bs = Whole n \<Longrightarrow>
   utf8_error bs = map_option (\<lambda>(v, e). (n + v, e)) (utf8_error (drop n bs))"
  by (auto simp: utf8_error.simps [of bs] dest: utf8_head_Whole)

lemma utf8_error_Broken: "utf8_head bs = Broken n \<Longrightarrow> utf8_error bs = Some (0, Some n)"
  by (auto simp: utf8_error.simps [of bs] dest: utf8_head_Broken)

lemma utf8_error_Partial:
  "utf8_head bs = Partial \<Longrightarrow> bs \<noteq> [] \<Longrightarrow> utf8_error bs = Some (0, None)"
  by (simp add: utf8_error.simps [of bs])

lemma utf8_error_bounds:
  "utf8_error bs = Some (v, e) \<Longrightarrow>
   v \<le> length bs \<and> (\<forall>n. e = Some n \<longrightarrow> 0 < n \<and> v + n \<le> length bs)"
proof (induction bs arbitrary: v rule: utf8_error.induct)
  case (1 bs)
  show ?case
  proof (cases "bs = []")
    case True
    with 1(2) show ?thesis by simp
  next
    case False
    show ?thesis
    proof (cases "utf8_head bs")
      case (Whole n)
      then obtain v' where v': "utf8_error (drop n bs) = Some (v', e)" "v = n + v'"
        using 1(2) by (auto simp: utf8_error_Whole)
      from 1(1) [OF False Whole v'(1)] v'(2) utf8_head_Whole [OF Whole]
      show ?thesis by auto
    next
      case (Broken n)
      with 1(2) utf8_head_Broken [OF Broken] show ?thesis
        by (auto simp: utf8_error_Broken)
    next
      case Partial
      with 1(2) False show ?thesis by (simp add: utf8_error_Partial)
    qed
  qed
qed

text \<open>
  Decomposition at the reported error: the prefix of length \<open>valid_up_to\<close> is valid and what
  follows starts with the reported broken or partial sequence.
\<close>

lemma utf8_error_split:
  assumes "utf8_error bs = Some (v, e)"
  shows "utf8_valid (take v bs)"
    and "utf8_head (drop v bs) = (case e of Some n \<Rightarrow> Broken n | None \<Rightarrow> Partial)"
    and "drop v bs \<noteq> []"
proof -
  have "utf8_valid (take v bs) \<and>
        utf8_head (drop v bs) = (case e of Some n \<Rightarrow> Broken n | None \<Rightarrow> Partial) \<and>
        drop v bs \<noteq> []"
    using assms
  proof (induction bs arbitrary: v rule: utf8_error.induct)
    case (1 bs)
    have ne: "bs \<noteq> []" using 1(2) by auto
    show ?case
    proof (cases "utf8_head bs")
      case (Whole n)
      then obtain v' where v': "utf8_error (drop n bs) = Some (v', e)" "v = n + v'"
        using 1(2) by (auto simp: utf8_error_Whole)
      note IH = 1(1) [OF ne Whole v'(1)]
      have n: "0 < n" "n \<le> length bs" using utf8_head_Whole [OF Whole] by auto
      have hd: "utf8_head (take (n + v') bs) = Whole n"
        using utf8_head_take_Whole [OF Whole] utf8_head_append [of "take n bs" "take v' (drop n bs)"]
        by (simp add: take_append_take_drop)
      have "drop n (take (n + v') bs) = take v' (drop n bs)"
        by (simp add: drop_take)
      then have "utf8_valid (take v bs)"
        using IH v'(2) hd by (simp add: utf8_valid_def utf8_error_Whole)
      then show ?thesis
        using IH v'(2) by (simp add: add.commute)
    next
      case (Broken n)
      with 1(2) ne show ?thesis by (auto simp: utf8_error_Broken)
    next
      case Partial
      with 1(2) ne show ?thesis by (auto simp: utf8_error_Partial)
    qed
  qed
  then show "utf8_valid (take v bs)"
    and "utf8_head (drop v bs) = (case e of Some n \<Rightarrow> Broken n | None \<Rightarrow> Partial)"
    and "drop v bs \<noteq> []"
    by auto
qed

lemma utf8_valid_Whole:
  "utf8_head bs = Whole n \<Longrightarrow> utf8_valid bs \<longleftrightarrow> utf8_valid (drop n bs)"
  by (simp add: utf8_valid_def utf8_error_Whole)

lemma utf8_valid_cases:
  assumes "utf8_valid bs"
  obtains "bs = []"
  | n where "bs \<noteq> []" "utf8_head bs = Whole n" "utf8_valid (drop n bs)"
  using assms
  by (cases "utf8_head bs")
     (auto simp: utf8_valid_def utf8_error_Whole utf8_error_Broken dest: utf8_error_Partial)

text \<open>Induction over a valid byte sequence, one code point at a time.\<close>

lemma utf8_valid_induct [consumes 1, case_names Nil Char]:
  assumes "utf8_valid bs"
    and "P []"
    and "\<And>bs n. utf8_head bs = Whole n \<Longrightarrow> utf8_valid (drop n bs) \<Longrightarrow> P (drop n bs) \<Longrightarrow> P bs"
  shows "P bs"
  using assms(1)
proof (induction bs rule: measure_induct_rule [where f = length])
  case (less bs)
  from less.prems show ?case
  proof (cases rule: utf8_valid_cases)
    case 1
    then show ?thesis using assms(2) by simp
  next
    case (2 n)
    have "length (drop n bs) < length bs"
      using utf8_head_Whole [OF 2(2)] by auto
    then show ?thesis
      using less.IH 2(3) assms(3) [OF 2(2) 2(3)] by blast
  qed
qed

lemma utf8_valid_append:
  "utf8_valid as \<Longrightarrow> utf8_valid (as @ bs) \<longleftrightarrow> utf8_valid bs"
proof (induction rule: utf8_valid_induct)
  case Nil
  then show ?case by simp
next
  case (Char as n)
  have n: "n \<le> length as" using utf8_head_Whole [OF Char(1)] by simp
  have "utf8_head (as @ bs) = Whole n"
    using Char(1) by (simp add: utf8_head_append)
  then show ?case
    using Char(3) n by (simp add: utf8_valid_Whole)
qed

lemma utf8_valid_ascii: "\<forall>b \<in> set bs. b < 0x80 \<Longrightarrow> utf8_valid bs"
proof (induction bs)
  case (Cons b bs)
  then have "utf8_head (b # bs) = Whole 1"
    by (simp add: utf8_width_def)
  then show ?case using Cons by (simp add: utf8_valid_Whole)
qed simp

subsection \<open>Lossy decoding\<close>

text \<open>U+FFFD in UTF-8.\<close>

definition fffd_bytes :: "u8 list" where
  "fffd_bytes = [0xEF, 0xBF, 0xBD]"

function lossy :: "u8 list \<Rightarrow> u8 list" where
  "lossy bs =
     (if bs = [] then []
      else case utf8_head bs of
        Whole n \<Rightarrow> take n bs @ lossy (drop n bs)
      | Broken n \<Rightarrow> fffd_bytes @ lossy (drop n bs)
      | Partial \<Rightarrow> fffd_bytes)"
  by pat_completeness auto
termination
  by (relation "measure length") (auto dest: utf8_head_Whole utf8_head_Broken)

declare lossy.simps [simp del]

lemma lossy_Nil [simp]: "lossy [] = []"
  by (simp add: lossy.simps)

lemma lossy_Whole: "utf8_head bs = Whole n \<Longrightarrow> lossy bs = take n bs @ lossy (drop n bs)"
  by (auto simp: lossy.simps [of bs] dest: utf8_head_Whole)

lemma lossy_Broken: "utf8_head bs = Broken n \<Longrightarrow> lossy bs = fffd_bytes @ lossy (drop n bs)"
  by (auto simp: lossy.simps [of bs] dest: utf8_head_Broken)

lemma lossy_Partial: "utf8_head bs = Partial \<Longrightarrow> bs \<noteq> [] \<Longrightarrow> lossy bs = fffd_bytes"
  by (simp add: lossy.simps [of bs])

lemma lossy_valid_append: "utf8_valid as \<Longrightarrow> lossy (as @ bs) = as @ lossy bs"
proof (induction rule: utf8_valid_induct)
  case Nil
  then show ?case by simp
next
  case (Char as n)
  have n: "n \<le> length as" using utf8_head_Whole [OF Char(1)] by simp
  have "utf8_head (as @ bs) = Whole n"
    using Char(1) by (simp add: utf8_head_append)
  then show ?case
    using Char(3) n by (simp add: lossy_Whole flip: append_assoc)
qed

lemma lossy_valid: "utf8_valid bs \<Longrightarrow> lossy bs = bs"
  using lossy_valid_append [of bs "[]"] by simp

lemma utf8_valid_fffd: "utf8_valid fffd_bytes"
  by (simp add: utf8_valid_def fffd_bytes_def utf8_error.simps utf8_width_def second_ok_def is_cont_def)

lemma utf8_valid_take_Whole:
  assumes "utf8_head bs = Whole n"
  shows "utf8_valid (take n bs)"
proof -
  have "utf8_head (take n bs) = Whole n"
    using assms by (rule utf8_head_take_Whole)
  then show ?thesis by (simp add: utf8_valid_Whole)
qed

lemma lossy_is_valid: "utf8_valid (lossy bs)"
proof (induction bs rule: lossy.induct)
  case (1 bs)
  show ?case
  proof (cases "bs = []")
    case False
    show ?thesis
    proof (cases "utf8_head bs")
      case (Whole n)
      with 1(1) [OF False Whole] show ?thesis
        by (simp add: lossy_Whole utf8_valid_append utf8_valid_take_Whole)
    next
      case (Broken n)
      with 1(2) [OF False Broken] show ?thesis
        by (simp add: lossy_Broken utf8_valid_append utf8_valid_fffd)
    next
      case Partial
      with False show ?thesis by (simp add: lossy_Partial utf8_valid_fffd)
    qed
  qed simp
qed

end
