(* ===== verification/Meta.thy ===== *)
theory Meta
  imports Prelude
begin

text \<open>
  \<open>crates/sg-gguf/src/meta.rs\<close>: GGUF metadata values, their lenient integer views, and the
  insertion-ordered key/value table with its typed accessors. An \<open>f32\<close> or \<open>f64\<close> is kept as
  its bit pattern. The table's contract (what a lookup returns after an insert) is the locale
  \<open>keyed_table\<close>; the parser's tensor index satisfies the same contract.
\<close>

subsection \<open>Values\<close>

type_synonym f32 = u32
type_synonym f64 = u64

datatype meta_array =
    ArrU8 "u8 list"
  | ArrI8 "8 word list"
  | ArrU16 "u16 list"
  | ArrI16 "16 word list"
  | ArrU32 "u32 list"
  | ArrI32 "32 word list"
  | ArrF32 "f32 list"
  | ArrBool "bool list"
  | ArrString "string list"
  | ArrU64 "u64 list"
  | ArrI64 "64 word list"
  | ArrF64 "f64 list"
  | ArrNested "meta_array list"

datatype meta_value =
    MU8 u8
  | MI8 "8 word"
  | MU16 u16
  | MI16 "16 word"
  | MU32 u32
  | MI32 "32 word"
  | MF32 f32
  | MBool bool
  | MString string
  | MArray meta_array
  | MU64 u64
  | MI64 "64 word"
  | MF64 f64

fun array_type_name :: "meta_array \<Rightarrow> string" where
  "array_type_name (ArrU8 _) = ''array of u8''"
| "array_type_name (ArrI8 _) = ''array of i8''"
| "array_type_name (ArrU16 _) = ''array of u16''"
| "array_type_name (ArrI16 _) = ''array of i16''"
| "array_type_name (ArrU32 _) = ''array of u32''"
| "array_type_name (ArrI32 _) = ''array of i32''"
| "array_type_name (ArrF32 _) = ''array of f32''"
| "array_type_name (ArrBool _) = ''array of bool''"
| "array_type_name (ArrString _) = ''array of string''"
| "array_type_name (ArrU64 _) = ''array of u64''"
| "array_type_name (ArrI64 _) = ''array of i64''"
| "array_type_name (ArrF64 _) = ''array of f64''"
| "array_type_name (ArrNested _) = ''array of array''"

fun array_len :: "meta_array \<Rightarrow> nat" where
  "array_len (ArrU8 v) = length v"
| "array_len (ArrI8 v) = length v"
| "array_len (ArrU16 v) = length v"
| "array_len (ArrI16 v) = length v"
| "array_len (ArrU32 v) = length v"
| "array_len (ArrI32 v) = length v"
| "array_len (ArrF32 v) = length v"
| "array_len (ArrBool v) = length v"
| "array_len (ArrString v) = length v"
| "array_len (ArrU64 v) = length v"
| "array_len (ArrI64 v) = length v"
| "array_len (ArrF64 v) = length v"
| "array_len (ArrNested v) = length v"

fun type_name :: "meta_value \<Rightarrow> string" where
  "type_name (MU8 _) = ''u8''"
| "type_name (MI8 _) = ''i8''"
| "type_name (MU16 _) = ''u16''"
| "type_name (MI16 _) = ''i16''"
| "type_name (MU32 _) = ''u32''"
| "type_name (MI32 _) = ''i32''"
| "type_name (MF32 _) = ''f32''"
| "type_name (MBool _) = ''bool''"
| "type_name (MString _) = ''string''"
| "type_name (MArray a) = array_type_name a"
| "type_name (MU64 _) = ''u64''"
| "type_name (MI64 _) = ''i64''"
| "type_name (MF64 _) = ''f64''"

fun as_uint :: "meta_value \<Rightarrow> u64 option" where
  "as_uint (MU8 v) = Some (ucast v)"
| "as_uint (MU16 v) = Some (ucast v)"
| "as_uint (MU32 v) = Some (ucast v)"
| "as_uint (MU64 v) = Some v"
| "as_uint _ = None"

text \<open>\<open>as_int\<close> sign-extends the signed widths; an unsigned value must fit in \<open>i64\<close>.\<close>

fun as_int :: "meta_value \<Rightarrow> 64 word option" where
  "as_int (MI8 v) = Some (scast v)"
| "as_int (MI16 v) = Some (scast v)"
| "as_int (MI32 v) = Some (scast v)"
| "as_int (MI64 v) = Some v"
| "as_int v = (case as_uint v of None \<Rightarrow> None | Some u \<Rightarrow> if unat u < 2 ^ 63 then Some u else None)"

fun as_f32 :: "meta_value \<Rightarrow> f32 option" where
  "as_f32 (MF32 v) = Some v"
| "as_f32 _ = None"

fun as_bool :: "meta_value \<Rightarrow> bool option" where
  "as_bool (MBool v) = Some v"
| "as_bool _ = None"

fun as_str :: "meta_value \<Rightarrow> string option" where
  "as_str (MString s) = Some s"
| "as_str _ = None"

fun as_array :: "meta_value \<Rightarrow> meta_array option" where
  "as_array (MArray a) = Some a"
| "as_array _ = None"

fun as_str_array :: "meta_value \<Rightarrow> string list option" where
  "as_str_array (MArray (ArrString s)) = Some s"
| "as_str_array _ = None"

fun as_f32_array :: "meta_value \<Rightarrow> f32 list option" where
  "as_f32_array (MArray (ArrF32 s)) = Some s"
| "as_f32_array _ = None"

fun as_i32_array :: "meta_value \<Rightarrow> 32 word list option" where
  "as_i32_array (MArray (ArrI32 s)) = Some s"
| "as_i32_array _ = None"

fun as_bool_array :: "meta_value \<Rightarrow> bool list option" where
  "as_bool_array (MArray (ArrBool s)) = Some s"
| "as_bool_array _ = None"

datatype meta_error =
    Missing string
  | WrongType string string string   \<comment> \<open>key, expected, found\<close>

subsection \<open>The contract of an insert-once table\<close>

text \<open>
  \<open>insert\<close> answers whether the key was new; a rejected insert changes nothing. \<open>keys\<close> lists
  the keys in insertion order.
\<close>

locale keyed_table =
  fixes inv :: "'t \<Rightarrow> bool"
    and empty :: "'t"
    and insert :: "'t \<Rightarrow> 'k \<Rightarrow> 'v \<Rightarrow> 't \<times> bool"
    and get :: "'t \<Rightarrow> 'k \<Rightarrow> 'v option"
    and items :: "'t \<Rightarrow> ('k \<times> 'v) list"
  assumes inv_empty: "inv empty"
    and items_empty: "items empty = []"
    and inv_insert: "inv t \<Longrightarrow> inv (fst (insert t k v))"
    and get_items: "inv t \<Longrightarrow> get t k = map_of (items t) k"
    and insert_new: "inv t \<Longrightarrow> get t k = None \<Longrightarrow>
          snd (insert t k v) \<and> items (fst (insert t k v)) = items t @ [(k, v)]"
    and insert_dup: "inv t \<Longrightarrow> get t k \<noteq> None \<Longrightarrow> insert t k v = (t, False)"
    and inv_distinct: "inv t \<Longrightarrow> distinct (map fst (items t))"
begin

lemma get_empty: "get empty k = None"
  by (simp add: get_items inv_empty items_empty)

lemma get_insert:
  assumes "inv t"
  shows "get (fst (insert t k v)) k' =
    (if k' = k \<and> get t k = None then Some v else get t k')"
proof (cases "get t k")
  case None
  then have "items (fst (insert t k v)) = items t @ [(k, v)]"
    using insert_new [OF assms] by blast
  then show ?thesis
    using None by (auto simp: get_items inv_insert assms map_add_def split: option.split)
next
  case (Some w)
  then show ?thesis using insert_dup [OF assms, of k v] by simp
qed

lemma snd_insert: "inv t \<Longrightarrow> snd (insert t k v) \<longleftrightarrow> get t k = None"
  using insert_new insert_dup by fastforce

lemma get_in_items: "inv t \<Longrightarrow> (get t k = Some v) \<longleftrightarrow> (k, v) \<in> set (items t)"
  by (simp add: get_items inv_distinct)

end

subsection \<open>Metadata\<close>

record metadata =
  entries :: "(string \<times> meta_value) list"
  index :: "string \<Rightarrow> nat option"

definition metadata_default :: metadata where
  "metadata_default = \<lparr>entries = [], index = Map.empty\<rparr>"

definition meta_insert :: "metadata \<Rightarrow> string \<Rightarrow> meta_value \<Rightarrow> metadata \<times> bool" where
  "meta_insert m key value =
     (if index m key \<noteq> None then (m, False)
      else (m\<lparr>index := (index m)(key \<mapsto> length (entries m)), entries := entries m @ [(key, value)]\<rparr>,
            True))"

definition meta_get :: "metadata \<Rightarrow> string \<Rightarrow> meta_value option" where
  "meta_get m key = map_option (\<lambda>i. snd (entries m ! i)) (index m key)"

definition meta_require :: "metadata \<Rightarrow> string \<Rightarrow> meta_error + meta_value" where
  "meta_require m key = ok_or (meta_get m key) (Missing key)"

definition meta_typed ::
  "metadata \<Rightarrow> string \<Rightarrow> string \<Rightarrow> (meta_value \<Rightarrow> 'a option) \<Rightarrow> meta_error + 'a option" where
  "meta_typed m key expected view =
     (case meta_get m key of
        None \<Rightarrow> Inr None
      | Some value \<Rightarrow>
          (case view value of
             Some v \<Rightarrow> Inr (Some v)
           | None \<Rightarrow> Inl (WrongType key expected (type_name value))))"

definition meta_required :: "string \<Rightarrow> meta_error + 'a option \<Rightarrow> meta_error + 'a" where
  "meta_required key got = bind_res got (\<lambda>v. ok_or v (Missing key))"

definition get_uint :: "metadata \<Rightarrow> string \<Rightarrow> meta_error + u64 option" where
  "get_uint m key = meta_typed m key ''unsigned integer'' as_uint"

definition require_uint :: "metadata \<Rightarrow> string \<Rightarrow> meta_error + u64" where
  "require_uint m key = meta_required key (get_uint m key)"

definition get_int :: "metadata \<Rightarrow> string \<Rightarrow> meta_error + 64 word option" where
  "get_int m key = meta_typed m key ''integer'' as_int"

definition get_f32 :: "metadata \<Rightarrow> string \<Rightarrow> meta_error + f32 option" where
  "get_f32 m key = meta_typed m key ''f32'' as_f32"

definition require_f32 :: "metadata \<Rightarrow> string \<Rightarrow> meta_error + f32" where
  "require_f32 m key = meta_required key (get_f32 m key)"

definition get_bool :: "metadata \<Rightarrow> string \<Rightarrow> meta_error + bool option" where
  "get_bool m key = meta_typed m key ''bool'' as_bool"

definition get_str :: "metadata \<Rightarrow> string \<Rightarrow> meta_error + string option" where
  "get_str m key = meta_typed m key ''string'' as_str"

definition require_str :: "metadata \<Rightarrow> string \<Rightarrow> meta_error + string" where
  "require_str m key = meta_required key (get_str m key)"

definition require_str_array :: "metadata \<Rightarrow> string \<Rightarrow> meta_error + string list" where
  "require_str_array m key = meta_required key (meta_typed m key ''array of string'' as_str_array)"

definition require_f32_array :: "metadata \<Rightarrow> string \<Rightarrow> meta_error + f32 list" where
  "require_f32_array m key = meta_required key (meta_typed m key ''array of f32'' as_f32_array)"

definition require_i32_array :: "metadata \<Rightarrow> string \<Rightarrow> meta_error + 32 word list" where
  "require_i32_array m key = meta_required key (meta_typed m key ''array of i32'' as_i32_array)"

definition require_bool_array :: "metadata \<Rightarrow> string \<Rightarrow> meta_error + bool list" where
  "require_bool_array m key = meta_required key (meta_typed m key ''array of bool'' as_bool_array)"

lemmas accessor_defs = get_uint_def require_uint_def get_int_def get_f32_def require_f32_def
  get_bool_def get_str_def require_str_def require_str_array_def require_f32_array_def
  require_i32_array_def require_bool_array_def

subsection \<open>The index agrees with the entries\<close>

text \<open>The generic shape of an index into a list of keys, shared with the parser's tensor table.\<close>

definition index_of_keys :: "'k list \<Rightarrow> ('k \<Rightarrow> nat option) \<Rightarrow> bool" where
  "index_of_keys ks ix \<longleftrightarrow> distinct ks \<and> (\<forall>k i. ix k = Some i \<longleftrightarrow> i < length ks \<and> ks ! i = k)"

lemma index_of_keys_Nil [simp]: "index_of_keys [] Map.empty"
  by (simp add: index_of_keys_def)

lemma index_of_keys_None: "index_of_keys ks ix \<Longrightarrow> ix k = None \<longleftrightarrow> k \<notin> set ks"
  unfolding index_of_keys_def in_set_conv_nth
  by (metis not_None_eq)

lemma index_of_keys_snoc:
  assumes "index_of_keys ks ix" and "ix k = None"
  shows "index_of_keys (ks @ [k]) (ix(k \<mapsto> length ks))"
proof -
  have "k \<notin> set ks" using index_of_keys_None [OF assms(1), of k] assms(2) by simp
  then show ?thesis
    using assms(1) by (auto simp: index_of_keys_def nth_append less_Suc_eq)
qed

lemma index_of_keys_lookup:
  assumes "index_of_keys (map f xs) ix"
  shows "map_option (\<lambda>i. xs ! i) (ix k) = find (\<lambda>x. f x = k) xs"
proof (cases "ix k")
  case None
  then have "k \<notin> f ` set xs" using index_of_keys_None [OF assms] by simp
  then show ?thesis using None by (auto simp: find_None_iff intro!: sym [of _ None])
next
  case (Some i)
  then have i: "i < length xs" "f (xs ! i) = k"
    using assms by (auto simp: index_of_keys_def)
  have "\<And>j. j < i \<Longrightarrow> f (xs ! j) \<noteq> k"
    using assms i by (metis (mono_tags, lifting) index_of_keys_def distinct_conv_nth
      length_map nth_map order.strict_trans order_less_irrefl)
  then have "find (\<lambda>x. f x = k) xs = Some (xs ! i)"
    using i by (auto simp: find_Some_iff)
  with Some show ?thesis by simp
qed

definition metadata_inv :: "metadata \<Rightarrow> bool" where
  "metadata_inv m \<longleftrightarrow> index_of_keys (map fst (entries m)) (index m)"

lemma find_fst_map_of:
  "map_option snd (find (\<lambda>x. fst x = k) xs) = map_of xs k"
  by (induction xs) auto

interpretation md: keyed_table metadata_inv metadata_default meta_insert meta_get entries
proof unfold_locales
  fix t k assume i: "metadata_inv t"
  show "meta_get t k = map_of (entries t) k"
    using index_of_keys_lookup [OF i [unfolded metadata_inv_def], of k]
    by (simp add: meta_get_def option.map_comp comp_def flip: find_fst_map_of)
       (metis (no_types, lifting) option.map_comp comp_def option.map_cong)
next
  fix t k v assume i: "metadata_inv t"
  show "metadata_inv (fst (meta_insert t k v))"
    using index_of_keys_snoc [OF i [unfolded metadata_inv_def], of k] i
    by (auto simp: metadata_inv_def meta_insert_def)
qed (auto simp: metadata_inv_def metadata_default_def meta_insert_def meta_get_def index_of_keys_def)

subsection \<open>What the accessors promise\<close>

lemma meta_typed_cases:
  "meta_typed m key ex view = Inr (Some x) \<longleftrightarrow> (\<exists>v. meta_get m key = Some v \<and> view v = Some x)"
  "meta_typed m key ex view = Inr None \<longleftrightarrow> meta_get m key = None"
  "meta_typed m key ex view = Inl e \<longleftrightarrow>
     (\<exists>v. meta_get m key = Some v \<and> view v = None \<and> e = WrongType key ex (type_name v))"
  by (auto simp: meta_typed_def split: option.splits)

lemma meta_required_typed:
  "meta_required key (meta_typed m key ex view) = Inr x \<longleftrightarrow>
     (\<exists>v. meta_get m key = Some v \<and> view v = Some x)"
  "meta_required key (meta_typed m key ex view) = Inl e \<longleftrightarrow>
     (meta_get m key = None \<and> e = Missing key) \<or>
     (\<exists>v. meta_get m key = Some v \<and> view v = None \<and> e = WrongType key ex (type_name v))"
  by (auto simp: meta_required_def res_simps meta_typed_cases)

lemma as_uint_value:
  "as_uint v = Some u \<Longrightarrow>
   unat u = (case v of MU8 x \<Rightarrow> unat x | MU16 x \<Rightarrow> unat x | MU32 x \<Rightarrow> unat x | MU64 x \<Rightarrow> unat x)"
  by (cases v) (auto simp: unat_ucast_up)

end
