(* ===== verification/Tensor_Table.thy ===== *)
theory Tensor_Table
  imports Prelude
begin

text \<open>
  \<open>crates/sg-gguf/src/tensor.rs\<close>: the tensor dtypes the model ships, their block geometry
  and serialized size, and one entry of the tensor table.
\<close>

datatype ggml_type = F32 | F16 | Q4_0 | Q8_0 | Q6_K

definition from_raw :: "u32 \<Rightarrow> ggml_type option" where
  "from_raw raw =
     (if raw = 0 then Some F32
      else if raw = 1 then Some F16
      else if raw = 2 then Some Q4_0
      else if raw = 8 then Some Q8_0
      else if raw = 14 then Some Q6_K
      else None)"

fun block_elems :: "ggml_type \<Rightarrow> u64" where
  "block_elems F32 = 1"
| "block_elems F16 = 1"
| "block_elems Q4_0 = 32"
| "block_elems Q8_0 = 32"
| "block_elems Q6_K = 256"

fun block_bytes :: "ggml_type \<Rightarrow> u64" where
  "block_bytes F32 = 4"
| "block_bytes F16 = 2"
| "block_bytes Q4_0 = 18"
| "block_bytes Q8_0 = 34"
| "block_bytes Q6_K = 210"

fun dtype_display :: "ggml_type \<Rightarrow> string" where
  "dtype_display F32 = ''F32''"
| "dtype_display F16 = ''F16''"
| "dtype_display Q4_0 = ''Q4_0''"
| "dtype_display Q8_0 = ''Q8_0''"
| "dtype_display Q6_K = ''Q6_K''"

definition is_multiple_of :: "u64 \<Rightarrow> u64 \<Rightarrow> bool" where
  "is_multiple_of a b \<longleftrightarrow> (if b = 0 then a = 0 else a mod b = 0)"

definition byte_len :: "ggml_type \<Rightarrow> u64 \<Rightarrow> u64 option" where
  "byte_len ty elems =
     (if \<not> is_multiple_of elems (block_elems ty) then None
      else checked_mul (elems div block_elems ty) (block_bytes ty))"

record tensor_info =
  tname :: string
  dims :: "u64 list"
  dtype :: ggml_type
  toffset :: u64
  tbyte_len :: u64

text \<open>\<open>dims.iter().product()\<close>; a release build wraps on overflow (which parsing rejects).\<close>

definition elem_count :: "tensor_info \<Rightarrow> u64" where
  "elem_count t = fold (\<lambda>d acc. acc * d) (dims t) 1"

subsection \<open>Size of a tensor\<close>

lemma is_multiple_of_dvd: "is_multiple_of a b \<longleftrightarrow> unat b dvd unat a"
proof -
  have "a mod b = 0 \<longleftrightarrow> unat (a mod b) = 0"
    by (simp only: unat_eq_zero)
  also have "\<dots> \<longleftrightarrow> unat b dvd unat a"
    by (simp only: unat_mod_distrib dvd_eq_mod_eq_0)
  finally show ?thesis
    by (simp add: is_multiple_of_def unat_0_iff)
qed

lemma block_elems_pos [simp]: "0 < unat (block_elems ty)" "block_elems ty \<noteq> 0"
  by (cases ty; simp)+

lemma block_bytes_pos [simp]: "0 < unat (block_bytes ty)"
  by (cases ty) simp_all

lemma byte_len_Some:
  "byte_len ty elems = Some n \<longleftrightarrow>
     unat (block_elems ty) dvd unat elems \<and>
     unat elems div unat (block_elems ty) * unat (block_bytes ty) < 2 ^ 64 \<and>
     unat n = unat elems div unat (block_elems ty) * unat (block_bytes ty)"
  by (auto simp: byte_len_def checked_mul_Some is_multiple_of_dvd unat_div_distrib)

lemma byte_len_None:
  "byte_len ty elems = None \<longleftrightarrow>
     \<not> unat (block_elems ty) dvd unat elems \<or>
     2 ^ 64 \<le> unat elems div unat (block_elems ty) * unat (block_bytes ty)"
  by (auto simp: byte_len_def checked_mul_def is_multiple_of_dvd unat_div_distrib not_less)

lemma from_raw_inj: "from_raw r = Some t \<Longrightarrow> from_raw r' = Some t \<Longrightarrow> r = r'"
  by (auto simp: from_raw_def split: if_splits)

end
