(* ===== verification/Gguf_Parse.thy ===== *)
theory Gguf_Parse
  imports Utf8 Meta Tensor_Table
begin

text \<open>
  \<open>crates/sg-gguf/src/parse.rs\<close>: the GGUF v3 parser, a bounds-checked little-endian cursor
  over the file's bytes. Every \<open>Err\<close> of the source is an \<open>Inl\<close>, in the order of the
  source's checks. A cursor position is a \<open>usize\<close> kept as a \<open>nat\<close> (the file is a slice, so
  its length is below \<open>2^63\<close>); counts and offsets read from the file are \<open>u64\<close> words.
\<close>

definition gguf_magic :: u32 where "gguf_magic = 0x46554747"
definition gguf_version :: u32 where "gguf_version = 3"
definition default_alignment :: nat where "default_alignment = 32"
definition max_dims :: u32 where "max_dims = 4"
definition max_array_depth :: nat where "max_array_depth = 8"

datatype gguf_error =
    BadMagic u32
  | UnsupportedVersion u32
  | Truncated string nat u64 nat          \<comment> \<open>what, offset, needed, available\<close>
  | InvalidUtf8 string nat                \<comment> \<open>what, offset\<close>
  | UnknownValueType string u32           \<comment> \<open>key, raw\<close>
  | InvalidBool string u8                 \<comment> \<open>key, value\<close>
  | ArrayTooDeep string
  | DuplicateKey string
  | BadAlignment u64
  | UnsupportedTensorType string u32      \<comment> \<open>name, raw\<close>
  | TooManyDims string u32                \<comment> \<open>name, n_dims\<close>
  | DimOverflow string
  | BadBlockCount string u64 ggml_type u64 \<comment> \<open>name, elems, dtype, block\<close>
  | DuplicateTensor string
  | MisalignedTensor string u64 nat       \<comment> \<open>name, offset, alignment\<close>
  | TensorOutOfBounds string u64 u64 nat  \<comment> \<open>name, offset, byte_len, data_len\<close>
  | MetaErr meta_error

subsection \<open>Little-endian integers\<close>

fun le_nat :: "u8 list \<Rightarrow> nat" where
  "le_nat [] = 0"
| "le_nat (b # bs) = unat b + 256 * le_nat bs"

definition from_le_bytes :: "u8 list \<Rightarrow> 'a::len word" where
  "from_le_bytes bs = of_nat (le_nat bs)"

subsection \<open>The cursor\<close>

record cur =
  buf :: "u8 list"
  pos :: nat

definition cur_take :: "u64 \<Rightarrow> string \<Rightarrow> cur \<Rightarrow> gguf_error + (u8 list \<times> cur)" where
  "cur_take n what c =
     (let available = length (buf c) - pos c in
      if unat n > available then Inl (Truncated what (pos c) n available)
      else Inr (take (unat n) (drop (pos c) (buf c)), c\<lparr>pos := pos c + unat n\<rparr>))"

definition cur_take_n :: "u64 \<Rightarrow> u64 \<Rightarrow> string \<Rightarrow> cur \<Rightarrow> gguf_error + (u8 list \<times> cur)" where
  "cur_take_n count elem_size what c =
     bind_res
       (ok_or (checked_mul count elem_size)
         (Truncated what (pos c) (- 1) (length (buf c) - pos c)))
       (\<lambda>n. cur_take n what c)"

definition read_prim :: "u64 \<Rightarrow> string \<Rightarrow> cur \<Rightarrow> gguf_error + ('a::len word \<times> cur)" where
  "read_prim width what c = bind_res (cur_take width what c) (\<lambda>(bs, c'). Inr (from_le_bytes bs, c'))"

definition read_u8 :: "string \<Rightarrow> cur \<Rightarrow> gguf_error + (u8 \<times> cur)" where
  "read_u8 = read_prim 1"
definition read_u16 :: "string \<Rightarrow> cur \<Rightarrow> gguf_error + (u16 \<times> cur)" where
  "read_u16 = read_prim 2"
definition read_u32 :: "string \<Rightarrow> cur \<Rightarrow> gguf_error + (u32 \<times> cur)" where
  "read_u32 = read_prim 4"
definition read_u64 :: "string \<Rightarrow> cur \<Rightarrow> gguf_error + (u64 \<times> cur)" where
  "read_u64 = read_prim 8"

definition read_string :: "string \<Rightarrow> cur \<Rightarrow> gguf_error + (string \<times> cur)" where
  "read_string what c =
     bind_res (read_u64 what c) (\<lambda>(len, c1).
     bind_res (cur_take len what c1) (\<lambda>(bytes, c2).
     case from_utf8 bytes of
       None \<Rightarrow> Inl (InvalidUtf8 what (pos c))
     | Some s \<Rightarrow> Inr (s, c2)))"

subsection \<open>Metadata values\<close>

definition read_bool :: "string \<Rightarrow> cur \<Rightarrow> gguf_error + (bool \<times> cur)" where
  "read_bool key c =
     bind_res (read_u8 ''bool value'' c) (\<lambda>(v, c').
       if v = 0 then Inr (False, c')
       else if v = 1 then Inr (True, c')
       else Inl (InvalidBool key v))"

function chunks_exact :: "nat \<Rightarrow> 'a list \<Rightarrow> 'a list list" where
  "chunks_exact n xs =
     (if n = 0 \<or> length xs < n then [] else take n xs # chunks_exact n (drop n xs))"
  by pat_completeness auto
termination
  by (relation "measure (\<lambda>(n, xs). length xs)") auto

declare chunks_exact.simps [simp del]

definition vec_from_le :: "nat \<Rightarrow> u8 list \<Rightarrow> 'a::len word list" where
  "vec_from_le n bytes = map from_le_bytes (chunks_exact n bytes)"

text \<open>\<open>collect::<Result<_, _>>()\<close> over the bool bytes: the first invalid byte is the error.\<close>

fun bools_of_bytes :: "string \<Rightarrow> u8 list \<Rightarrow> gguf_error + bool list" where
  "bools_of_bytes key [] = Inr []"
| "bools_of_bytes key (b # bs) =
     (if b = 0 then bind_res (bools_of_bytes key bs) (\<lambda>r. Inr (False # r))
      else if b = 1 then bind_res (bools_of_bytes key bs) (\<lambda>r. Inr (True # r))
      else Inl (InvalidBool key b))"

fun read_strings :: "nat \<Rightarrow> cur \<Rightarrow> gguf_error + (string list \<times> cur)" where
  "read_strings 0 c = Inr ([], c)"
| "read_strings (Suc n) c =
     bind_res (read_string ''array string'' c) (\<lambda>(s, c1).
     bind_res (read_strings n c1) (\<lambda>(ss, c2). Inr (s # ss, c2)))"

text \<open>One arm of \<open>read_array\<close> for a fixed-width element type.\<close>

definition take_elems :: "u64 \<Rightarrow> nat \<Rightarrow> (u8 list \<Rightarrow> meta_array) \<Rightarrow> cur \<Rightarrow> gguf_error + (meta_array \<times> cur)" where
  "take_elems count width mk c =
     bind_res (cur_take_n count (of_nat width) ''array elements'' c) (\<lambda>(bs, c'). Inr (mk bs, c'))"

text \<open>
  \<open>read_array\<close> and its loop over nested arrays. \<open>read_arrays\<close> is the body of
  \<open>for _ in 0..count\<close>, called with the depth of the elements.
\<close>

function (sequential)
  read_array :: "string \<Rightarrow> nat \<Rightarrow> cur \<Rightarrow> gguf_error + (meta_array \<times> cur)" and
  read_arrays :: "string \<Rightarrow> nat \<Rightarrow> nat \<Rightarrow> cur \<Rightarrow> gguf_error + (meta_array list \<times> cur)" where
  "read_array key depth c =
     (if depth \<ge> max_array_depth then Inl (ArrayTooDeep key)
      else
        bind_res (read_u32 ''array element type'' c) (\<lambda>(elem_ty, c1).
        bind_res (read_u64 ''array length'' c1) (\<lambda>(count, c2).
        if elem_ty = 0 then take_elems count 1 ArrU8 c2
        else if elem_ty = 1 then take_elems count 1 (\<lambda>bs. ArrI8 (vec_from_le 1 bs)) c2
        else if elem_ty = 2 then take_elems count 2 (\<lambda>bs. ArrU16 (vec_from_le 2 bs)) c2
        else if elem_ty = 3 then take_elems count 2 (\<lambda>bs. ArrI16 (vec_from_le 2 bs)) c2
        else if elem_ty = 4 then take_elems count 4 (\<lambda>bs. ArrU32 (vec_from_le 4 bs)) c2
        else if elem_ty = 5 then take_elems count 4 (\<lambda>bs. ArrI32 (vec_from_le 4 bs)) c2
        else if elem_ty = 6 then take_elems count 4 (\<lambda>bs. ArrF32 (vec_from_le 4 bs)) c2
        else if elem_ty = 7 then
          bind_res (cur_take_n count 1 ''array elements'' c2) (\<lambda>(bs, c3).
          bind_res (bools_of_bytes key bs) (\<lambda>v. Inr (ArrBool v, c3)))
        else if elem_ty = 8 then
          bind_res (read_strings (unat count) c2) (\<lambda>(v, c3). Inr (ArrString v, c3))
        else if elem_ty = 9 then
          bind_res (read_arrays key (Suc depth) (unat count) c2) (\<lambda>(v, c3). Inr (ArrNested v, c3))
        else if elem_ty = 10 then take_elems count 8 (\<lambda>bs. ArrU64 (vec_from_le 8 bs)) c2
        else if elem_ty = 11 then take_elems count 8 (\<lambda>bs. ArrI64 (vec_from_le 8 bs)) c2
        else if elem_ty = 12 then take_elems count 8 (\<lambda>bs. ArrF64 (vec_from_le 8 bs)) c2
        else Inl (UnknownValueType key elem_ty))))"
| "read_arrays key depth 0 c = Inr ([], c)"
| "read_arrays key depth (Suc n) c =
     bind_res (read_array key depth c) (\<lambda>(a, c1).
     bind_res (read_arrays key depth n c1) (\<lambda>(as, c2). Inr (a # as, c2)))"
  by pat_completeness auto
termination
  by (relation "inv_image (less_than <*lex*> less_than <*lex*> less_than)
        (\<lambda>x. case x of Inl (key, d, c) \<Rightarrow> (max_array_depth - d, 0, 0)
                     | Inr (key, d, n, c) \<Rightarrow> (max_array_depth - d, 1, n))")
     (auto simp: max_array_depth_def)

declare read_array.simps [simp del]

definition map_fst_res :: "('a \<Rightarrow> 'b) \<Rightarrow> gguf_error + ('a \<times> cur) \<Rightarrow> gguf_error + ('b \<times> cur)" where
  "map_fst_res f r = bind_res r (\<lambda>(x, c). Inr (f x, c))"

definition read_value :: "u32 \<Rightarrow> string \<Rightarrow> cur \<Rightarrow> gguf_error + (meta_value \<times> cur)" where
  "read_value raw_ty key c =
     (let what = ''metadata value'' in
      if raw_ty = 0 then map_fst_res MU8 (read_u8 what c)
      else if raw_ty = 1 then map_fst_res MI8 (read_u8 what c)
      else if raw_ty = 2 then map_fst_res MU16 (read_u16 what c)
      else if raw_ty = 3 then map_fst_res MI16 (read_u16 what c)
      else if raw_ty = 4 then map_fst_res MU32 (read_u32 what c)
      else if raw_ty = 5 then map_fst_res MI32 (read_u32 what c)
      else if raw_ty = 6 then map_fst_res MF32 (read_u32 what c)
      else if raw_ty = 7 then map_fst_res MBool (read_bool key c)
      else if raw_ty = 8 then map_fst_res MString (read_string what c)
      else if raw_ty = 9 then map_fst_res MArray (read_array key 0 c)
      else if raw_ty = 10 then map_fst_res MU64 (read_u64 what c)
      else if raw_ty = 11 then map_fst_res MI64 (read_u64 what c)
      else if raw_ty = 12 then map_fst_res MF64 (read_u64 what c)
      else Inl (UnknownValueType key raw_ty))"

subsection \<open>The tensor table\<close>

fun read_dims :: "nat \<Rightarrow> cur \<Rightarrow> gguf_error + (u64 list \<times> cur)" where
  "read_dims 0 c = Inr ([], c)"
| "read_dims (Suc n) c =
     bind_res (read_u64 ''tensor dimension'' c) (\<lambda>(d, c1).
     bind_res (read_dims n c1) (\<lambda>(ds, c2). Inr (d # ds, c2)))"

fun try_product :: "u64 \<Rightarrow> u64 list \<Rightarrow> u64 option" where
  "try_product acc [] = Some acc"
| "try_product acc (d # ds) =
     (case checked_mul acc d of None \<Rightarrow> None | Some acc' \<Rightarrow> try_product acc' ds)"

definition read_tensor_info :: "cur \<Rightarrow> gguf_error + (tensor_info \<times> cur)" where
  "read_tensor_info c =
     bind_res (read_string ''tensor name'' c) (\<lambda>(name, c1).
     bind_res (read_u32 ''tensor dimension count'' c1) (\<lambda>(n_dims, c2).
     if n_dims > max_dims then Inl (TooManyDims name n_dims)
     else
       bind_res (read_dims (unat n_dims) c2) (\<lambda>(ds, c3).
       bind_res (read_u32 ''tensor type'' c3) (\<lambda>(raw_ty, c4).
       bind_res (read_u64 ''tensor offset'' c4) (\<lambda>(off, c5).
       bind_res (ok_or (from_raw raw_ty) (UnsupportedTensorType name raw_ty)) (\<lambda>ty.
       bind_res (ok_or (try_product 1 ds) (DimOverflow name)) (\<lambda>elems.
       bind_res (ok_or (byte_len ty elems) (BadBlockCount name elems ty (block_elems ty))) (\<lambda>len.
       Inr (\<lparr>tname = name, dims = ds, dtype = ty, toffset = off, tbyte_len = len\<rparr>, c5)))))))))"

subsection \<open>Gguf::parse\<close>

record gguf =
  version :: u32
  alignment :: nat
  metadata_of :: metadata
  tensors :: "tensor_info list"
  tindex :: "string \<Rightarrow> nat option"
  data_start :: nat
  data :: "u8 list"

fun read_kvs :: "nat \<Rightarrow> cur \<Rightarrow> metadata \<Rightarrow> gguf_error + (metadata \<times> cur)" where
  "read_kvs 0 c m = Inr (m, c)"
| "read_kvs (Suc n) c m =
     bind_res (read_string ''metadata key'' c) (\<lambda>(key, c1).
     bind_res (read_u32 ''metadata value type'' c1) (\<lambda>(raw_ty, c2).
     bind_res (read_value raw_ty key c2) (\<lambda>(value, c3).
     case meta_insert m key value of
       (m', True) \<Rightarrow> read_kvs n c3 m'
     | (_, False) \<Rightarrow> Inl (DuplicateKey key))))"

definition is_power_of_two :: "u64 \<Rightarrow> bool" where
  "is_power_of_two a \<longleftrightarrow> list_ex (\<lambda>k. unat a = 2 ^ k) [0..<64]"

definition alignment_from :: "metadata \<Rightarrow> gguf_error + nat" where
  "alignment_from m =
     (case meta_get m ''general.alignment'' of
        None \<Rightarrow> Inr default_alignment
      | Some v \<Rightarrow>
          (case as_uint v of
             None \<Rightarrow> Inl (MetaErr (WrongType ''general.alignment'' ''unsigned integer'' (type_name v)))
           | Some a \<Rightarrow>
               if a = 0 \<or> \<not> is_power_of_two a then Inl (BadAlignment a) else Inr (unat a)))"

fun read_tensors ::
  "nat \<Rightarrow> cur \<Rightarrow> tensor_info list \<Rightarrow> (string \<Rightarrow> nat option) \<Rightarrow>
   gguf_error + (tensor_info list \<times> (string \<Rightarrow> nat option) \<times> cur)" where
  "read_tensors 0 c ts ix = Inr (ts, ix, c)"
| "read_tensors (Suc n) c ts ix =
     bind_res (read_tensor_info c) (\<lambda>(info, c1).
     if ix (tname info) \<noteq> None then Inl (DuplicateTensor (tname info))
     else read_tensors n c1 (ts @ [info]) (ix(tname info \<mapsto> length ts)))"

definition check_tensor :: "nat \<Rightarrow> nat \<Rightarrow> tensor_info \<Rightarrow> unit \<Rightarrow> gguf_error + unit" where
  "check_tensor align data_len t u =
     (if \<not> is_multiple_of (toffset t) (of_nat align) then
        Inl (MisalignedTensor (tname t) (toffset t) align)
      else case checked_add (toffset t) (tbyte_len t) of
        Some e \<Rightarrow>
          if unat e \<le> data_len then Inr ()
          else Inl (TensorOutOfBounds (tname t) (toffset t) (tbyte_len t) data_len)
      | None \<Rightarrow> Inl (TensorOutOfBounds (tname t) (toffset t) (tbyte_len t) data_len))"

definition data_start_of :: "nat \<Rightarrow> nat \<Rightarrow> gguf_error + nat" where
  "data_start_of p align =
     (if p + (align - 1) < 2 ^ 64 then Inr ((p + (align - 1)) div align * align)
      else Inl (BadAlignment (of_nat align)))"

definition parse :: "u8 list \<Rightarrow> gguf_error + gguf" where
  "parse bytes =
     bind_res (read_u32 ''magic'' \<lparr>buf = bytes, pos = 0\<rparr>) (\<lambda>(magic, c1).
     if magic \<noteq> gguf_magic then Inl (BadMagic magic) else
     bind_res (read_u32 ''version'' c1) (\<lambda>(ver, c2).
     if ver \<noteq> gguf_version then Inl (UnsupportedVersion ver) else
     bind_res (read_u64 ''tensor count'' c2) (\<lambda>(tensor_count, c3).
     bind_res (read_u64 ''metadata KV count'' c3) (\<lambda>(kv_count, c4).
     bind_res (read_kvs (unat kv_count) c4 metadata_default) (\<lambda>(meta, c5).
     bind_res (alignment_from meta) (\<lambda>align.
     bind_res (read_tensors (unat tensor_count) c5 [] Map.empty) (\<lambda>(ts, ix, c6).
     bind_res (data_start_of (pos c6) align) (\<lambda>start.
     if start > length bytes \<and> ts \<noteq> [] then
       Inl (Truncated ''tensor data section'' (pos c6) (of_nat (start - length bytes)) 0)
     else
       let data_sec = drop (min start (length bytes)) bytes in
       bind_res (fold_res (check_tensor align (length data_sec)) ts ()) (\<lambda>_.
       Inr \<lparr>version = ver, alignment = align, metadata_of = meta, tensors = ts, tindex = ix,
             data_start = min start (length bytes), data = data_sec\<rparr>)))))))))"

definition tensor :: "gguf \<Rightarrow> string \<Rightarrow> tensor_info option" where
  "tensor g name = map_option (\<lambda>i. tensors g ! i) (tindex g name)"

text \<open>
  \<open>&self.data[info.offset as usize..][..info.byte_len as usize]\<close>; \<open>None\<close> is the slice panic.
\<close>

definition data_of :: "gguf \<Rightarrow> tensor_info \<Rightarrow> u8 list option" where
  "data_of g info =
     (if unat (toffset info) \<le> length (data g) \<and>
         unat (tbyte_len info) \<le> length (drop (unat (toffset info)) (data g))
      then Some (take (unat (tbyte_len info)) (drop (unat (toffset info)) (data g)))
      else None)"

definition tensor_data :: "gguf \<Rightarrow> string \<Rightarrow> u8 list option option" where
  "tensor_data g name = map_option (data_of g) (tensor g name)"

end
