(* ===== verification/Gguf_Correct.thy ===== *)
theory Gguf_Correct
  imports Gguf_Parse
begin

text \<open>
  What a successful \<open>Gguf::parse\<close> promises its clients: the cursor stays inside the file,
  the tables are indexed consistently, every tensor range is aligned and inside the data
  section, and the sizes recorded for a tensor are those of its dimensions.
\<close>

subsection \<open>Readers stay inside the file\<close>

definition cur_ok :: "cur \<Rightarrow> bool" where
  "cur_ok c \<longleftrightarrow> pos c \<le> length (buf c)"

text \<open>\<open>k\<close> is a lower bound on the bytes a successful read consumes.\<close>

definition reads :: "nat \<Rightarrow> (cur \<Rightarrow> gguf_error + ('a \<times> cur)) \<Rightarrow> bool" where
  "reads k r \<longleftrightarrow> (\<forall>c x c'. cur_ok c \<longrightarrow> r c = Inr (x, c') \<longrightarrow>
     buf c' = buf c \<and> pos c + k \<le> pos c' \<and> cur_ok c')"

lemma readsD:
  "reads k r \<Longrightarrow> r c = Inr (x, c') \<Longrightarrow> cur_ok c \<Longrightarrow>
   buf c' = buf c \<and> pos c + k \<le> pos c' \<and> cur_ok c'"
  unfolding reads_def by blast

lemma readsI:
  assumes "\<And>c x c'. cur_ok c \<Longrightarrow> r c = Inr (x, c') \<Longrightarrow>
    buf c' = buf c \<and> pos c + k \<le> pos c' \<and> cur_ok c'"
  shows "reads k r"
  unfolding reads_def using assms by blast

lemma reads_mono:
  assumes "reads k r" "j \<le> k"
  shows "reads j r"
proof (rule readsI)
  fix c x c' assume "cur_ok c" "r c = Inr (x, c')"
  then show "buf c' = buf c \<and> pos c + j \<le> pos c' \<and> cur_ok c'"
    using readsD [OF assms(1), of c x c'] assms(2) by linarith
qed

lemma reads_bind:
  assumes "reads j r" and "\<And>x. reads k (f x)"
  shows "reads (j + k) (\<lambda>c. bind_res (r c) (\<lambda>(x, c1). f x c1))"
proof (rule readsI)
  fix c y c'
  assume c: "cur_ok c" and r: "bind_res (r c) (\<lambda>(x, c1). f x c1) = Inr (y, c')"
  then obtain x c1 where "r c = Inr (x, c1)" "f x c1 = Inr (y, c')"
    by (auto simp: res_simps)
  with c readsD [OF assms(1), of c x c1] readsD [OF assms(2), of x c1 y c']
  show "buf c' = buf c \<and> pos c + (j + k) \<le> pos c' \<and> cur_ok c'"
    by simp
qed

lemma reads_return: "reads 0 (\<lambda>c. Inr (x, c))"
  by (simp add: reads_def)

lemma reads_error: "reads k (\<lambda>c. Inl e)"
  by (simp add: reads_def)

lemma reads_if: "(b \<Longrightarrow> reads k r) \<Longrightarrow> (\<not> b \<Longrightarrow> reads k s) \<Longrightarrow> reads k (\<lambda>c. if b then r c else s c)"
  by (cases b) simp_all

lemma reads_ok_or: "(\<And>x. v = Some x \<Longrightarrow> reads k (f x)) \<Longrightarrow> reads k (\<lambda>c. bind_res (ok_or v e) (\<lambda>x. f x c))"
  by (cases v) (simp_all add: reads_error)

lemma reads_take: "reads (unat n) (cur_take n what)"
  by (auto simp: reads_def cur_take_def cur_ok_def Let_def split: if_splits)

lemma reads_take_n: "reads 0 (cur_take_n n w what)"
proof (rule readsI)
  fix c x c' assume c: "cur_ok c" and "cur_take_n n w what c = Inr (x, c')"
  then obtain m where "cur_take m what c = Inr (x, c')"
    by (auto simp: cur_take_n_def res_simps)
  from readsD [OF reads_take this c] show "buf c' = buf c \<and> pos c + 0 \<le> pos c' \<and> cur_ok c'"
    by simp
qed

lemma reads_prim: "reads (unat w) (read_prim w what)"
  using reads_bind [OF reads_take, of 0 "\<lambda>bs c'. Inr (from_le_bytes bs, c')"]
  by (simp add: read_prim_def [abs_def] reads_return)

lemma reads_u8: "reads 1 (read_u8 what)"
  using reads_prim [of 1] by (simp add: read_u8_def)

lemma reads_u16: "reads 2 (read_u16 what)"
  using reads_prim [of 2] by (simp add: read_u16_def)

lemma reads_u32: "reads 4 (read_u32 what)"
  using reads_prim [of 4] by (simp add: read_u32_def)

lemma reads_u64: "reads 8 (read_u64 what)"
  using reads_prim [of 8] by (simp add: read_u64_def)

lemma reads_string: "reads 8 (read_string what)"
proof (rule readsI)
  fix c x c'
  assume c: "cur_ok c" and r: "read_string what c = Inr (x, c')"
  then obtain len c1 bytes where 1: "read_u64 what c = Inr (len, c1)"
    and 2: "cur_take len what c1 = Inr (bytes, c')"
    by (auto simp: read_string_def res_simps split: option.splits)
  from readsD [OF reads_u64 1 c] readsD [OF reads_take 2]
  show "buf c' = buf c \<and> pos c + 8 \<le> pos c' \<and> cur_ok c'"
    by auto
qed

text \<open>A string read from the file is well-formed UTF-8.\<close>

lemma read_string_valid:
  "read_string what c = Inr (s, c') \<Longrightarrow> utf8_valid (bytes_of_str s)"
  by (auto simp: read_string_def from_utf8_def res_simps split: option.splits if_splits)

lemma reads_bool: "reads 1 (read_bool key)"
proof (rule readsI)
  fix c x c'
  assume c: "cur_ok c" and "read_bool key c = Inr (x, c')"
  then obtain v where "read_u8 ''bool value'' c = Inr (v, c')"
    by (auto simp: read_bool_def res_simps split: if_splits)
  from readsD [OF reads_u8 this c]
  show "buf c' = buf c \<and> pos c + 1 \<le> pos c' \<and> cur_ok c'"
    by auto
qed

lemma reads_strings: "reads (8 * n) (read_strings n)"
proof (induction n)
  case 0
  then show ?case by (simp add: reads_def)
next
  case (Suc n)
  have "reads (8 + (8 * n + 0)) (\<lambda>c. read_strings (Suc n) c)"
    unfolding read_strings.simps
    by (intro reads_bind reads_string Suc.IH reads_return)
  then show ?case by (simp only: add_0_right mult_Suc_right)
qed

subsection \<open>Arrays: bounded depth, bounded size\<close>

fun array_depth :: "meta_array \<Rightarrow> nat" where
  "array_depth (ArrNested as) = Suc (fold max (map array_depth as) 0)"
| "array_depth _ = 1"

text \<open>The number of elements the parsed value owns, nested vectors included.\<close>

fun array_elems :: "meta_array \<Rightarrow> nat" where
  "array_elems (ArrNested as) = length as + sum_list (map array_elems as)"
| "array_elems a = array_len a"

lemma fold_max_le: "fold max xs a \<le> b \<longleftrightarrow> a \<le> (b :: nat) \<and> (\<forall>x \<in> set xs. x \<le> b)"
  by (induction xs arbitrary: a) auto

lemma length_chunks_exact: "0 < n \<Longrightarrow> length (chunks_exact n xs) * n \<le> length xs"
proof (induction n xs rule: chunks_exact.induct)
  case (1 n xs)
  then show ?case by (cases "length xs < n") (auto simp: chunks_exact.simps [of n xs])
qed

lemma length_vec_from_le: "0 < n \<Longrightarrow> length (vec_from_le n bs) \<le> length bs"
proof -
  assume n: "0 < n"
  have "length (chunks_exact n bs) \<le> length (chunks_exact n bs) * n"
    using n by (cases n) simp_all
  also have "\<dots> \<le> length bs"
    by (rule length_chunks_exact [OF n])
  finally show ?thesis by (simp add: vec_from_le_def)
qed

lemma cur_take_n_length:
  assumes "cur_take_n n w what c = Inr (bs, c')" and "cur_ok c"
  shows "length bs = pos c' - pos c" "buf c' = buf c" "pos c \<le> pos c'" "cur_ok c'"
  using assms by (auto simp: cur_take_n_def cur_take_def cur_ok_def Let_def res_simps split: if_splits)

lemma take_elems_bound:
  assumes "take_elems n w mk c = Inr (a, c')" and "cur_ok c"
    and "\<And>bs. array_depth (mk bs) = 1" and "\<And>bs. array_elems (mk bs) \<le> length bs"
  shows "buf c' = buf c \<and> pos c \<le> pos c' \<and> cur_ok c' \<and> array_depth a = 1 \<and>
    array_elems a \<le> pos c' - pos c"
proof -
  obtain bs where bs: "cur_take_n n (of_nat w) ''array elements'' c = Inr (bs, c')" "a = mk bs"
    using assms(1) by (auto simp: take_elems_def res_simps)
  from cur_take_n_length [OF bs(1) assms(2)] assms(3,4) bs(2) show ?thesis
    by metis
qed

lemma length_read_strings: "read_strings n c = Inr (v, c') \<Longrightarrow> length v = n"
  by (induction n arbitrary: c v) (auto simp: res_simps)

lemma length_bools: "bools_of_bytes key bs = Inr v \<Longrightarrow> length v = length bs"
  by (induction bs arbitrary: v) (auto simp: res_simps split: if_splits)


lemma sum_list_bound: "(\<And>x. x \<in> set xs \<Longrightarrow> f x \<le> b) \<Longrightarrow> sum_list (map f xs) \<le> length xs * (b::nat)"
  by (induction xs) (auto intro: add_mono)

text \<open>
  The two loops together: a value read at nesting depth \<open>d\<close> nests at most \<open>8 - d\<close> deep, and the
  number of elements it owns is bounded by the bytes consumed.
\<close>

lemma read_array_bounds:
  "read_array key d c = Inr (a, c') \<Longrightarrow> cur_ok c \<Longrightarrow>
     buf c' = buf c \<and> pos c + 12 \<le> pos c' \<and> cur_ok c' \<and>
     array_depth a + d \<le> max_array_depth \<and> array_elems a + 12 \<le> pos c' - pos c"
  "read_arrays key d n c = Inr (as, c') \<Longrightarrow> cur_ok c \<Longrightarrow>
     buf c' = buf c \<and> pos c + 12 * n \<le> pos c' \<and> cur_ok c' \<and> length as = n \<and>
     (\<forall>a \<in> set as. array_depth a + d \<le> max_array_depth) \<and>
     length as + sum_list (map array_elems as) \<le> pos c' - pos c"
proof (induction key d c and key d n c arbitrary: a c' and as c' rule: read_array_read_arrays.induct)
  case (1 key d c)
  from 1(2) have d: "d < max_array_depth"
    by (auto simp: read_array.simps [of key d c] split: if_splits)
  from 1(2) d obtain ty c1 count c2 where
    ty: "read_u32 ''array element type'' c = Inr (ty, c1)" and
    cnt: "read_u64 ''array length'' c1 = Inr (count, c2)"
    by (auto simp: read_array.simps [of key d c] res_simps)
  have c2: "buf c2 = buf c" "pos c + 12 \<le> pos c2" "cur_ok c2"
    using readsD [OF reads_u32 ty 1(3)] readsD [OF reads_u64 cnt] by auto
  note eq = 1(2) [unfolded read_array.simps [of key d c]]
  consider (flat) w mk where "take_elems count w mk c2 = Inr (a, c')"
      "\<And>bs. array_depth (mk bs) = 1" "\<And>bs. array_elems (mk bs) \<le> length bs"
    | (bools) bs v where "cur_take_n count 1 ''array elements'' c2 = Inr (bs, c')"
        "bools_of_bytes key bs = Inr v" "a = ArrBool v"
    | (strings) v where "read_strings (unat count) c2 = Inr (v, c')" "a = ArrString v"
    | (nested) v where "ty = 9" "read_arrays key (Suc d) (unat count) c2 = Inr (v, c')" "a = ArrNested v"
    using eq d ty cnt
    by (fastforce simp: res_simps length_vec_from_le split: if_splits)
  then show ?case
  proof cases
    case flat
    from take_elems_bound [OF flat(1) c2(3) flat(2,3)] c2 d show ?thesis by auto
  next
    case bools
    from cur_take_n_length [OF bools(1) c2(3)] length_bools [OF bools(2)] bools(3) c2 d
    show ?thesis by auto
  next
    case strings
    from readsD [OF reads_strings strings(1) c2(3)] length_read_strings [OF strings(1)] strings(2) c2 d
    show ?thesis by auto
  next
    case nested
    have IH: "buf c' = buf c2 \<and> pos c2 + 12 * unat count \<le> pos c' \<and> cur_ok c' \<and>
        length v = unat count \<and> (\<forall>a \<in> set v. array_depth a + Suc d \<le> max_array_depth) \<and>
        length v + sum_list (map array_elems v) \<le> pos c' - pos c2"
      using d nested(1) by (intro 1(1) [OF _ ty refl cnt refl _ _ _ _ _ _ _ _ _ _ nested(2) c2(3)]) auto
    have "fold max (map array_depth v) 0 \<le> max_array_depth - Suc d"
      using IH d by (auto simp: fold_max_le)
    then have "array_depth (ArrNested v) + d \<le> max_array_depth"
      using d by simp
    then show ?thesis
      using IH c2 nested(3) by auto
  qed
next
  case (2 key d c)
  then show ?case by simp
next
  case (3 key d n c)
  from 3(3) obtain a c1 as' where
    a: "read_array key d c = Inr (a, c1)" and
    as': "read_arrays key d n c1 = Inr (as', c')" "as = a # as'"
    by (auto simp: res_simps)
  note A = 3(1) [OF a 3(4)]
  note B = 3(2) [OF a refl as'(1)]
  from A B as'(2) show ?case by auto
qed

lemma reads_array: "reads 12 (read_array key d)"
  by (rule readsI) (use read_array_bounds(1) in fastforce)

lemma map_fst_res_Inr: "map_fst_res f r = Inr (y, c) \<longleftrightarrow> (\<exists>x. r = Inr (x, c) \<and> y = f x)"
  by (auto simp: map_fst_res_def res_simps)

lemma reads_map_fst: "reads k r \<Longrightarrow> reads k (\<lambda>c. map_fst_res f (r c))"
  by (rule readsI) (auto simp: map_fst_res_Inr dest: readsD)

lemma reads_value: "reads 1 (read_value ty key)"
proof (rule readsI)
  fix c v c'
  assume c: "cur_ok c" and v: "read_value ty key c = Inr (v, c')"
  have "reads 1 (read_u8 w)" "reads 1 (read_u16 w)" "reads 1 (read_u32 w)" "reads 1 (read_u64 w)"
    "reads 1 (read_string w)" "reads 1 (read_array key d)" "reads 1 (read_bool key)" for w d
    by (rule reads_u8, rule reads_mono [OF reads_u16], simp, rule reads_mono [OF reads_u32], simp,
        rule reads_mono [OF reads_u64], simp, rule reads_mono [OF reads_string], simp,
        rule reads_mono [OF reads_array], simp, rule reads_bool)
  note D = this [THEN readsD, OF _ c]
  show "buf c' = buf c \<and> pos c + 1 \<le> pos c' \<and> cur_ok c'"
    using v unfolding read_value_def Let_def
    by (auto simp only: map_fst_res_Inr split: if_splits dest!: D)
qed

lemma reads_dims: "reads (8 * n) (read_dims n)"
proof (induction n)
  case 0
  then show ?case by (simp add: reads_def)
next
  case (Suc n)
  have "reads (8 + (8 * n + 0)) (\<lambda>c. read_dims (Suc n) c)"
    unfolding read_dims.simps
    by (intro reads_bind reads_u64 Suc.IH reads_return)
  then show ?case by (simp only: add_0_right mult_Suc_right)
qed

subsection \<open>Tensor entries\<close>

lemma length_read_dims: "read_dims n c = Inr (ds, c') \<Longrightarrow> length ds = n"
  by (induction n arbitrary: c ds) (auto simp: res_simps)

lemma try_product_Some:
  "try_product acc ds = Some e \<Longrightarrow>
   unat e = unat acc * prod_list (map unat ds) \<and> e = fold (\<lambda>d a. a * d) ds acc"
proof (induction ds arbitrary: acc)
  case Nil
  then show ?case by simp
next
  case (Cons d ds)
  then obtain acc' where a: "checked_mul acc d = Some acc'" "try_product acc' ds = Some e"
    by (auto split: option.splits)
  then have "acc' = acc * d"
    by (auto simp: checked_mul_def split: if_splits)
  moreover have "unat acc' = unat acc * unat d"
    using a(1) by (simp add: checked_mul_Some)
  ultimately show ?case
    using Cons.IH [OF a(2)] by (metis fold_simps(2) list.simps(9) mult.assoc prod_list.Cons)
qed

text \<open>What \<open>read_tensor_info\<close> guarantees for an entry, before the range check.\<close>

definition info_ok :: "tensor_info \<Rightarrow> bool" where
  "info_ok t \<longleftrightarrow> length (dims t) \<le> 4 \<and> utf8_valid (bytes_of_str (tname t)) \<and>
     unat (elem_count t) = prod_list (map unat (dims t)) \<and>
     byte_len (dtype t) (elem_count t) = Some (tbyte_len t)"

lemma read_tensor_info_ok:
  assumes "read_tensor_info c = Inr (t, c')" and "cur_ok c"
  shows "buf c' = buf c \<and> pos c + 24 \<le> pos c' \<and> cur_ok c' \<and> info_ok t"
proof -
  obtain name c1 nd c2 ds c3 ty c4 off dt elems len where
    s: "read_string ''tensor name'' c = Inr (name, c1)" and
    n: "read_u32 ''tensor dimension count'' c1 = Inr (nd, c2)" "\<not> nd > max_dims" and
    d: "read_dims (unat nd) c2 = Inr (ds, c3)" and
    r: "read_u32 ''tensor type'' c3 = Inr (ty, c4)" and
    o: "read_u64 ''tensor offset'' c4 = Inr (off, c')" and
    k: "from_raw ty = Some dt" "try_product 1 ds = Some elems" "byte_len dt elems = Some len" and
    t: "t = \<lparr>tname = name, dims = ds, dtype = dt, toffset = off, tbyte_len = len\<rparr>"
    using assms(1) by (auto simp: read_tensor_info_def res_simps split: if_splits)
  have "unat nd \<le> 4"
    using n(2) by (simp add: max_dims_def not_less word_le_nat_alt)
  moreover have "elem_count t = elems" "unat elems = prod_list (map unat ds)"
    using try_product_Some [OF k(2), THEN conjunct2] try_product_Some [OF k(2), THEN conjunct1]
    by (simp_all only: t elem_count_def tensor_info.simps unsigned_1 mult_1)
  ultimately have "info_ok t"
    using length_read_dims [OF d] read_string_valid [OF s] k(3) by (simp add: info_ok_def t)
  moreover have "buf c' = buf c \<and> pos c + 24 \<le> pos c' \<and> cur_ok c'"
    using readsD [OF reads_string s assms(2)] readsD [OF reads_u32 n(1)] readsD [OF reads_dims d]
      readsD [OF reads_u32 r] readsD [OF reads_u64 o] by simp
  ultimately show ?thesis by simp
qed

lemma read_tensors_ok:
  assumes "read_tensors n c ts ix = Inr (ts', ix', c')"
    and "cur_ok c" and "index_of_keys (map tname ts) ix" and "\<forall>t \<in> set ts. info_ok t"
  shows "buf c' = buf c \<and> pos c + 24 * n \<le> pos c' \<and> cur_ok c' \<and>
    index_of_keys (map tname ts') ix' \<and> (\<forall>t \<in> set ts'. info_ok t) \<and>
    length ts' = length ts + n"
  using assms
proof (induction n arbitrary: c ts ix)
  case 0
  then show ?case by simp
next
  case (Suc n)
  obtain info c1 where i: "read_tensor_info c = Inr (info, c1)" "ix (tname info) = None"
    "read_tensors n c1 (ts @ [info]) (ix(tname info \<mapsto> length ts)) = Inr (ts', ix', c')"
    using Suc.prems(1) by (auto simp: res_simps split: if_splits)
  note ok = read_tensor_info_ok [OF i(1) Suc.prems(2)]
  have ix: "index_of_keys (map tname (ts @ [info])) (ix(tname info \<mapsto> length ts))"
    using index_of_keys_snoc [OF Suc.prems(3) i(2)] by (simp del: fun_upd_apply)
  have c1: "cur_ok c1" and all: "\<forall>t \<in> set (ts @ [info]). info_ok t"
    using ok Suc.prems(4) by auto
  from Suc.IH [OF i(3) c1 ix all] ok show ?case by simp
qed

lemma inserted_Inr_iff:
  "(case p of (m', True) \<Rightarrow> f m' | (_, False) \<Rightarrow> Inl e) = Inr y \<longleftrightarrow>
   (\<exists>m'. p = (m', True) \<and> f m' = Inr y)"
  by (cases p) (auto split: bool.splits)

lemma read_kvs_ok:
  assumes "read_kvs n c m = Inr (m', c')" and "cur_ok c" and "metadata_inv m"
  shows "buf c' = buf c \<and> pos c + 13 * n \<le> pos c' \<and> cur_ok c' \<and> metadata_inv m' \<and>
    length (entries m') = length (entries m) + n"
  using assms
proof (induction n arbitrary: c m)
  case 0
  then show ?case by simp
next
  case (Suc n)
  obtain key c1 ty c2 v c3 m1 where
    k: "read_string ''metadata key'' c = Inr (key, c1)" and
    t: "read_u32 ''metadata value type'' c1 = Inr (ty, c2)" and
    v: "read_value ty key c2 = Inr (v, c3)" and
    m: "meta_insert m key v = (m1, True)" and
    r: "read_kvs n c3 m1 = Inr (m', c')"
    using Suc.prems(1) by (auto simp: res_simps inserted_Inr_iff)
  have c3: "buf c3 = buf c \<and> pos c + 13 \<le> pos c3 \<and> cur_ok c3"
    using readsD [OF reads_string k Suc.prems(2)] readsD [OF reads_u32 t] readsD [OF reads_value v]
    by simp
  have m1: "metadata_inv m1" "length (entries m1) = Suc (length (entries m))"
    using md.inv_insert [OF Suc.prems(3), of key v] md.insert_new [OF Suc.prems(3), of key v]
      md.snd_insert [OF Suc.prems(3), of key v] m by auto
  from Suc.IH [OF r _ m1(1)] c3 m1(2) show ?case by simp
qed

lemma check_tensors_ok:
  "fold_res (check_tensor align n) ts () = Inr () \<Longrightarrow> t \<in> set ts \<Longrightarrow>
   is_multiple_of (toffset t) (of_nat align) \<and> unat (toffset t) + unat (tbyte_len t) \<le> n"
proof (induction ts)
  case (Cons a ts)
  have a: "check_tensor align n a () = Inr ()" "fold_res (check_tensor align n) ts () = Inr ()"
    using Cons.prems(1) by (auto simp: res_simps)
  show ?case
  proof (cases "t = a")
    case True
    with a(1) show ?thesis
      by (auto simp: check_tensor_def checked_add_Some split: if_splits option.splits)
  next
    case False
    with Cons a(2) show ?thesis by simp
  qed
qed simp

text \<open>Everything a successful parse establishes, in one place.\<close>

lemma is_power_of_two_iff: "is_power_of_two a \<longleftrightarrow> (\<exists>k < 64. unat a = 2 ^ k)"
  by (auto simp: is_power_of_two_def list_ex_iff)

lemma alignment_from_ok: "alignment_from m = Inr a \<Longrightarrow> \<exists>k < 64. a = 2 ^ k"
proof -
  assume "alignment_from m = Inr a"
  then have "a = 32 \<or> (\<exists>k < 64. a = 2 ^ k)"
    by (auto simp: alignment_from_def default_alignment_def is_power_of_two_iff
        split: option.splits if_splits)
  moreover have "(32 :: nat) = 2 ^ 5" by simp
  ultimately show ?thesis by (metis numeral_less_iff semiring_norm(76) semiring_norm(78) semiring_norm(81))
qed

lemma parse_ok:
  assumes "parse bytes = Inr g"
  shows "version g = 3"
    and "\<exists>k < 64. alignment g = 2 ^ k"
    and "metadata_inv (metadata_of g)"
    and "index_of_keys (map tname (tensors g)) (tindex g)"
    and "\<forall>t \<in> set (tensors g). info_ok t"
    and "data g = drop (data_start g) bytes" and "data_start g \<le> length bytes"
    and "tensors g \<noteq> [] \<Longrightarrow> alignment g dvd data_start g"
    and "fold_res (check_tensor (alignment g) (length (data g))) (tensors g) () = Inr ()"
    and "24 * length (tensors g) + 13 * length (entries (metadata_of g)) + 24 \<le> length bytes"
proof -
  obtain magic c1 ver c2 tc c3 kc c4 m c5 al ts ix c6 start where
    r: "read_u32 ''magic'' \<lparr>buf = bytes, pos = 0\<rparr> = Inr (magic, c1)"
       "read_u32 ''version'' c1 = Inr (ver, c2)" "ver = gguf_version"
       "read_u64 ''tensor count'' c2 = Inr (tc, c3)"
       "read_u64 ''metadata KV count'' c3 = Inr (kc, c4)"
       "read_kvs (unat kc) c4 metadata_default = Inr (m, c5)"
       "alignment_from m = Inr al"
       "read_tensors (unat tc) c5 [] Map.empty = Inr (ts, ix, c6)"
       "data_start_of (pos c6) al = Inr start"
       "\<not> (start > length bytes \<and> ts \<noteq> [])"
       "fold_res (check_tensor al (length (drop (min start (length bytes)) bytes))) ts () = Inr ()" and
    g: "g = \<lparr>version = ver, alignment = al, metadata_of = m, tensors = ts, tindex = ix,
             data_start = min start (length bytes), data = drop (min start (length bytes)) bytes\<rparr>"
    using assms by (auto simp: parse_def res_simps Let_def split: if_splits)
  have c4: "buf c4 = bytes \<and> pos c4 \<ge> 24 \<and> cur_ok c4"
    using readsD [OF reads_u32 r(1)] readsD [OF reads_u32 r(2)] readsD [OF reads_u64 r(4)]
      readsD [OF reads_u64 r(5)] by (auto simp: cur_ok_def)
  have kv: "buf c5 = bytes \<and> 24 + 13 * unat kc \<le> pos c5 \<and> cur_ok c5 \<and> metadata_inv m \<and>
      length (entries m) = unat kc"
    using read_kvs_ok [OF r(6) _ md.inv_empty] c4 by (auto simp: metadata_default_def)
  have tn: "pos c5 + 24 * unat tc \<le> pos c6 \<and> pos c6 \<le> length bytes \<and>
      index_of_keys (map tname ts) ix \<and> (\<forall>t \<in> set ts. info_ok t) \<and> length ts = unat tc"
    using read_tensors_ok [OF r(8)] kv by (auto simp: cur_ok_def)
  show "version g = 3" by (simp add: g r(3) gguf_version_def)
  show "\<exists>k < 64. alignment g = 2 ^ k" using alignment_from_ok [OF r(7)] by (simp add: g)
  show "metadata_inv (metadata_of g)" using kv by (simp add: g)
  show "index_of_keys (map tname (tensors g)) (tindex g)" "\<forall>t \<in> set (tensors g). info_ok t"
    using tn by (simp_all add: g)
  show "data g = drop (data_start g) bytes" "data_start g \<le> length bytes" by (simp_all add: g)
  show "tensors g \<noteq> [] \<Longrightarrow> alignment g dvd data_start g"
    using r(9,10) by (auto simp: g data_start_of_def min_def split: if_splits)
  show "fold_res (check_tensor (alignment g) (length (data g))) (tensors g) () = Inr ()"
    using r(11) by (simp add: g)
  show "24 * length (tensors g) + 13 * length (entries (metadata_of g)) + 24 \<le> length bytes"
    using tn kv by (simp add: g)
qed

text \<open>Every array the parser stores is shallow and no longer than the file.\<close>

definition array_bounded :: "nat \<Rightarrow> meta_value \<Rightarrow> bool" where
  "array_bounded n v \<longleftrightarrow>
     (case v of MArray a \<Rightarrow> array_depth a \<le> max_array_depth \<and> array_elems a \<le> n | _ \<Rightarrow> True)"

lemma read_value_bounded:
  assumes "read_value ty key c = Inr (v, c')" and "cur_ok c"
  shows "array_bounded (length (buf c)) v"
proof (cases v)
  case (MArray a)
  have "read_array key 0 c = Inr (a, c')"
    using assms(1) unfolding MArray
    by (auto simp: read_value_def map_fst_res_def Let_def res_simps split: if_splits)
  from read_array_bounds(1) [OF this assms(2)] show ?thesis
    by (auto simp: array_bounded_def MArray cur_ok_def)
qed (simp_all add: array_bounded_def)

lemma read_kvs_bounded:
  assumes "read_kvs n c m = Inr (m', c')" and "cur_ok c"
    and "\<forall>e \<in> set (entries m). array_bounded (length (buf c)) (snd e)"
  shows "\<forall>e \<in> set (entries m'). array_bounded (length (buf c)) (snd e)"
  using assms
proof (induction n arbitrary: c m)
  case 0
  then show ?case by simp
next
  case (Suc n)
  obtain key c1 ty c2 v c3 m1 where
    k: "read_string ''metadata key'' c = Inr (key, c1)" and
    t: "read_u32 ''metadata value type'' c1 = Inr (ty, c2)" and
    v: "read_value ty key c2 = Inr (v, c3)" and
    m: "meta_insert m key v = (m1, True)" and
    r: "read_kvs n c3 m1 = Inr (m', c')"
    using Suc.prems(1) by (auto simp: res_simps inserted_Inr_iff)
  have c2: "buf c2 = buf c \<and> cur_ok c2" and c3: "buf c3 = buf c \<and> cur_ok c3"
    using readsD [OF reads_string k Suc.prems(2)] readsD [OF reads_u32 t] readsD [OF reads_value v]
    by simp_all
  have "entries m1 = entries m @ [(key, v)]"
    using m by (auto simp: meta_insert_def split: if_splits)
  then have "\<forall>e \<in> set (entries m1). array_bounded (length (buf c3)) (snd e)"
    using Suc.prems(3) read_value_bounded [OF v] c2 c3 by auto
  from Suc.IH [OF r _ this] c3 show ?case by simp
qed

lemma parse_bounded:
  assumes "parse bytes = Inr g"
  shows "\<forall>e \<in> set (entries (metadata_of g)). array_bounded (length bytes) (snd e)"
proof -
  obtain magic c1 c2 tc c3 kc c4 c5 where
    r: "read_u32 ''magic'' \<lparr>buf = bytes, pos = 0\<rparr> = Inr (magic, c1)"
       "read_u32 ''version'' c1 = Inr (gguf_version, c2)"
       "read_u64 ''tensor count'' c2 = Inr (tc, c3)"
       "read_u64 ''metadata KV count'' c3 = Inr (kc, c4)"
       "read_kvs (unat kc) c4 metadata_default = Inr (metadata_of g, c5)"
    using assms by (auto simp: parse_def res_simps Let_def split: if_splits)
  have "buf c4 = bytes \<and> cur_ok c4"
    using readsD [OF reads_u32 r(1)] readsD [OF reads_u32 r(2)] readsD [OF reads_u64 r(3)]
      readsD [OF reads_u64 r(4)] by (auto simp: cur_ok_def)
  then show ?thesis
    using read_kvs_bounded [OF r(5)] by (simp add: metadata_default_def)
qed

lemma parse_tensor_range:
  assumes "parse bytes = Inr g" and "t \<in> set (tensors g)"
  shows "alignment g dvd unat (toffset t)"
    and "data_start g + unat (toffset t) + unat (tbyte_len t) \<le> length bytes"
proof -
  note ok = parse_ok [OF assms(1)]
  have c: "is_multiple_of (toffset t) (of_nat (alignment g))"
    "unat (toffset t) + unat (tbyte_len t) \<le> length (data g)"
    using check_tensors_ok [OF ok(9) assms(2)] by auto
  obtain k where k: "k < 64" "alignment g = 2 ^ k" using ok(2) by blast
  have "(2::nat) ^ k < 2 ^ 64" using k(1) by (intro power_strict_increasing) auto
  then have "unat (of_nat (alignment g) :: u64) = alignment g"
    unfolding k(2) by (rule unat_of_nat_u64)
  then show "alignment g dvd unat (toffset t)"
    using c(1) by (simp add: is_multiple_of_dvd)
  show "data_start g + unat (toffset t) + unat (tbyte_len t) \<le> length bytes"
    using c(2) ok(6,7) by simp
qed

end
