(* ===== verification/Gguf_Write.thy ===== *)
theory Gguf_Write
  imports Gguf_Correct
begin

text \<open>
  A reference serializer for GGUF v3, and the proof that the parser inverts it: whatever well
  formed metadata, tensor table and data section are written, \<open>Gguf::parse\<close> gives back exactly
  these. The serializer is the specification of the format; it models no code.
\<close>

subsection \<open>The serializer\<close>

fun le_bytes :: "nat \<Rightarrow> nat \<Rightarrow> u8 list" where
  "le_bytes 0 x = []"
| "le_bytes (Suc k) x = of_nat (x mod 256) # le_bytes k (x div 256)"

definition put_word :: "nat \<Rightarrow> 'a::len word \<Rightarrow> u8 list" where
  "put_word k w = le_bytes k (unat w)"

definition put_u32 :: "u32 \<Rightarrow> u8 list" where "put_u32 = put_word 4"
definition put_u64 :: "u64 \<Rightarrow> u8 list" where "put_u64 = put_word 8"

definition put_string :: "string \<Rightarrow> u8 list" where
  "put_string s = put_u64 (of_nat (length s)) @ bytes_of_str s"

definition put_words :: "nat \<Rightarrow> 'a::len word list \<Rightarrow> u8 list" where
  "put_words k v = concat (map (put_word k) v)"

definition put_head :: "u32 \<Rightarrow> 'a list \<Rightarrow> u8 list" where
  "put_head tag v = put_u32 tag @ put_u64 (of_nat (length v))"

definition bool_byte :: "bool \<Rightarrow> u8" where
  "bool_byte b = (if b then 1 else 0)"

fun put_array :: "meta_array \<Rightarrow> u8 list" where
  "put_array (ArrU8 v) = put_head 0 v @ v"
| "put_array (ArrI8 v) = put_head 1 v @ put_words 1 v"
| "put_array (ArrU16 v) = put_head 2 v @ put_words 2 v"
| "put_array (ArrI16 v) = put_head 3 v @ put_words 2 v"
| "put_array (ArrU32 v) = put_head 4 v @ put_words 4 v"
| "put_array (ArrI32 v) = put_head 5 v @ put_words 4 v"
| "put_array (ArrF32 v) = put_head 6 v @ put_words 4 v"
| "put_array (ArrBool v) = put_head 7 v @ map bool_byte v"
| "put_array (ArrString v) = put_head 8 v @ concat (map put_string v)"
| "put_array (ArrNested v) = put_head 9 v @ concat (map put_array v)"
| "put_array (ArrU64 v) = put_head 10 v @ put_words 8 v"
| "put_array (ArrI64 v) = put_head 11 v @ put_words 8 v"
| "put_array (ArrF64 v) = put_head 12 v @ put_words 8 v"

fun value_tag :: "meta_value \<Rightarrow> u32" where
  "value_tag (MU8 _) = 0"
| "value_tag (MI8 _) = 1"
| "value_tag (MU16 _) = 2"
| "value_tag (MI16 _) = 3"
| "value_tag (MU32 _) = 4"
| "value_tag (MI32 _) = 5"
| "value_tag (MF32 _) = 6"
| "value_tag (MBool _) = 7"
| "value_tag (MString _) = 8"
| "value_tag (MArray _) = 9"
| "value_tag (MU64 _) = 10"
| "value_tag (MI64 _) = 11"
| "value_tag (MF64 _) = 12"

fun put_value :: "meta_value \<Rightarrow> u8 list" where
  "put_value (MU8 x) = put_word 1 x"
| "put_value (MI8 x) = put_word 1 x"
| "put_value (MU16 x) = put_word 2 x"
| "put_value (MI16 x) = put_word 2 x"
| "put_value (MU32 x) = put_word 4 x"
| "put_value (MI32 x) = put_word 4 x"
| "put_value (MF32 x) = put_word 4 x"
| "put_value (MBool b) = [bool_byte b]"
| "put_value (MString s) = put_string s"
| "put_value (MArray a) = put_array a"
| "put_value (MU64 x) = put_word 8 x"
| "put_value (MI64 x) = put_word 8 x"
| "put_value (MF64 x) = put_word 8 x"

definition put_kv :: "string \<times> meta_value \<Rightarrow> u8 list" where
  "put_kv = (\<lambda>(k, v). put_string k @ put_u32 (value_tag v) @ put_value v)"

fun raw_of :: "ggml_type \<Rightarrow> u32" where
  "raw_of F32 = 0"
| "raw_of F16 = 1"
| "raw_of Q4_0 = 2"
| "raw_of Q8_0 = 8"
| "raw_of Q6_K = 14"

definition put_info :: "tensor_info \<Rightarrow> u8 list" where
  "put_info t =
     put_string (tname t) @ put_u32 (of_nat (length (dims t))) @ concat (map put_u64 (dims t)) @
     put_u32 (raw_of (dtype t)) @ put_u64 (toffset t)"

definition put_tables :: "(string \<times> meta_value) list \<Rightarrow> tensor_info list \<Rightarrow> u8 list" where
  "put_tables kvs ts =
     put_u32 gguf_magic @ put_u32 gguf_version @ put_u64 (of_nat (length ts)) @
     put_u64 (of_nat (length kvs)) @ concat (map put_kv kvs) @ concat (map put_info ts)"

definition padding :: "nat \<Rightarrow> nat \<Rightarrow> u8 list" where
  "padding n align = replicate ((n + (align - 1)) div align * align - n) 0"

definition put_gguf :: "(string \<times> meta_value) list \<Rightarrow> tensor_info list \<Rightarrow> nat \<Rightarrow> u8 list \<Rightarrow> u8 list" where
  "put_gguf kvs ts align dat =
     (let tables = put_tables kvs ts in tables @ padding (length tables) align @ dat)"

subsection \<open>Well-formed contents\<close>

definition str_ok :: "string \<Rightarrow> bool" where
  "str_ok s \<longleftrightarrow> utf8_valid (bytes_of_str s) \<and> length s < 2 ^ 64"

fun array_ok :: "meta_array \<Rightarrow> bool" where
  "array_ok (ArrString v) \<longleftrightarrow> length v < 2 ^ 64 \<and> list_all str_ok v"
| "array_ok (ArrNested v) \<longleftrightarrow> length v < 2 ^ 64 \<and> list_all array_ok v"
| "array_ok a \<longleftrightarrow> array_len a * 8 < 2 ^ 64"

fun value_ok :: "meta_value \<Rightarrow> bool" where
  "value_ok (MString s) \<longleftrightarrow> str_ok s"
| "value_ok (MArray a) \<longleftrightarrow> array_ok a \<and> array_depth a \<le> max_array_depth"
| "value_ok _ \<longleftrightarrow> True"

definition entry_ok :: "tensor_info \<Rightarrow> bool" where
  "entry_ok t \<longleftrightarrow> str_ok (tname t) \<and> length (dims t) \<le> 4 \<and>
     try_product 1 (dims t) = Some (elem_count t) \<and>
     byte_len (dtype t) (elem_count t) = Some (tbyte_len t)"

subsection \<open>Decoding what was encoded\<close>

text \<open>
  \<open>decodes r bs x\<close>: wherever the bytes \<open>bs\<close> lie in the file, the reader positioned at their
  start returns \<open>x\<close> and stops right after them.
\<close>

definition decodes :: "(cur \<Rightarrow> gguf_error + ('a \<times> cur)) \<Rightarrow> u8 list \<Rightarrow> 'a \<Rightarrow> bool" where
  "decodes r bs x \<longleftrightarrow> (\<forall>pre post.
     r \<lparr>buf = pre @ bs @ post, pos = length pre\<rparr> =
       Inr (x, \<lparr>buf = pre @ bs @ post, pos = length pre + length bs\<rparr>))"

lemma decodesD:
  "decodes r bs x \<Longrightarrow> r \<lparr>buf = pre @ bs @ post, pos = length pre\<rparr> =
     Inr (x, \<lparr>buf = pre @ bs @ post, pos = length pre + length bs\<rparr>)"
  unfolding decodes_def by blast

lemma decodes_bind:
  assumes "decodes r bs x" and "decodes (f x) bs' y"
  shows "decodes (\<lambda>c. bind_res (r c) (\<lambda>(x, c1). f x c1)) (bs @ bs') y"
  unfolding decodes_def
proof (intro allI)
  fix pre post
  have "r \<lparr>buf = pre @ (bs @ bs') @ post, pos = length pre\<rparr> =
      Inr (x, \<lparr>buf = pre @ (bs @ bs') @ post, pos = length (pre @ bs)\<rparr>)"
    using decodesD [OF assms(1), of pre "bs' @ post"] by simp
  moreover have "f x \<lparr>buf = pre @ (bs @ bs') @ post, pos = length (pre @ bs)\<rparr> =
      Inr (y, \<lparr>buf = pre @ (bs @ bs') @ post, pos = length pre + length (bs @ bs')\<rparr>)"
    using decodesD [OF assms(2), of "pre @ bs" post] by simp
  ultimately show "bind_res (r \<lparr>buf = pre @ (bs @ bs') @ post, pos = length pre\<rparr>) (\<lambda>(x, c1). f x c1) =
      Inr (y, \<lparr>buf = pre @ (bs @ bs') @ post, pos = length pre + length (bs @ bs')\<rparr>)"
    by simp
qed

lemma decodes_return: "decodes (\<lambda>c. Inr (x, c)) [] x"
  by (simp add: decodes_def)

lemma decodes_last:
  "decodes r bs x \<Longrightarrow> decodes (\<lambda>c. bind_res (r c) (\<lambda>(x, c1). Inr (f x, c1))) bs (f x)"
  using decodes_bind [OF _ decodes_return, of r bs x f] by simp

lemma decodes_map_fst: "decodes r bs x \<Longrightarrow> decodes (\<lambda>c. map_fst_res f (r c)) bs (f x)"
  unfolding map_fst_res_def by (rule decodes_last)

lemma decodes_take: "length bs < 2 ^ 64 \<Longrightarrow> decodes (cur_take (of_nat (length bs)) what) bs bs"
  by (simp add: decodes_def cur_take_def unat_of_nat_u64)

lemma decodes_take': "unat n = length bs \<Longrightarrow> decodes (cur_take n what) bs bs"
  by (simp add: decodes_def cur_take_def)

lemma length_le_bytes [simp]: "length (le_bytes k x) = k"
  by (induction k arbitrary: x) auto

lemma le_nat_le_bytes: "le_nat (le_bytes k x) = x mod 256 ^ k"
proof (induction k arbitrary: x)
  case 0
  then show ?case by simp
next
  case (Suc k)
  have "unat (of_nat (x mod 256) :: u8) = x mod 256"
    by (simp add: unat_of_nat)
  then have "le_nat (le_bytes (Suc k) x) = x mod 256 + 256 * (x div 256 mod 256 ^ k)"
    using Suc.IH [of "x div 256"] by simp
  also have "\<dots> = x mod 256 ^ Suc k"
    using mod_mult2_eq [of x 256 "256 ^ k"] by simp
  finally show ?case .
qed

lemma from_le_put_word:
  assumes "LENGTH('a::len) = 8 * k"
  shows "from_le_bytes (put_word k w) = (w :: 'a word)"
proof -
  have "(256::nat) ^ k = 2 ^ LENGTH('a)"
    by (simp add: assms power_mult)
  moreover have "unat w < 2 ^ LENGTH('a)"
    using unsigned_less [of w] by simp
  ultimately show ?thesis
    by (simp add: from_le_bytes_def put_word_def le_nat_le_bytes)
qed

lemma length_put_word [simp]: "length (put_word k w) = k"
  by (simp add: put_word_def)

lemma decodes_prim:
  assumes "LENGTH('a::len) = 8 * k" and "unat n = k"
  shows "decodes (read_prim n what) (put_word k w) (w :: 'a word)"
proof -
  have "decodes (cur_take n what) (put_word k w) (put_word k w)"
    by (rule decodes_take') (simp add: assms(2))
  from decodes_last [OF this, where f = "from_le_bytes :: u8 list \<Rightarrow> 'a word"] show ?thesis
    by (simp add: read_prim_def [abs_def] from_le_put_word [OF assms(1)])
qed

lemma decodes_u8: "decodes (read_u8 what) (put_word 1 w) w"
  unfolding read_u8_def by (rule decodes_prim) simp_all

lemma decodes_u16: "decodes (read_u16 what) (put_word 2 w) w"
  unfolding read_u16_def by (rule decodes_prim) simp_all

lemma decodes_u32: "decodes (read_u32 what) (put_word 4 w) w"
  unfolding read_u32_def by (rule decodes_prim) simp_all

lemma decodes_u64: "decodes (read_u64 what) (put_word 8 w) w"
  unfolding read_u64_def by (rule decodes_prim) simp_all

lemma decodes_string:
  assumes "str_ok s"
  shows "decodes (read_string what) (put_string s) s"
proof -
  have take: "decodes (cur_take (of_nat (length s)) what) (bytes_of_str s) (bytes_of_str s)"
    by (rule decodes_take') (use assms in \<open>simp add: str_ok_def unat_of_nat_u64\<close>)
  show ?thesis
    unfolding decodes_def
  proof (intro allI)
    fix pre post
    show "read_string what \<lparr>buf = pre @ put_string s @ post, pos = length pre\<rparr> =
        Inr (s, \<lparr>buf = pre @ put_string s @ post, pos = length pre + length (put_string s)\<rparr>)"
      using decodesD [OF decodes_u64, of what pre "of_nat (length s)" "bytes_of_str s @ post"]
        decodesD [OF take, of "pre @ put_word 8 (of_nat (length s) :: u64)" post] assms
      by (simp add: read_string_def put_string_def put_u64_def from_utf8_def str_ok_def)
  qed
qed

lemma decodes_bool: "decodes (read_bool key) [bool_byte b] b"
proof -
  have "put_word 1 (bool_byte b) = [bool_byte b]"
    by (simp add: put_word_def bool_byte_def)
  then show ?thesis
    using decodesD [OF decodes_u8, of "''bool value''" _ "bool_byte b"]
    by (simp add: decodes_def read_bool_def bool_byte_def)
qed

subsection \<open>Arrays\<close>

lemma put_words_Cons: "put_words k (w # v) = put_word k w @ put_words k v"
  by (simp add: put_words_def)

lemma length_put_words: "length (put_words k v) = length v * k"
  by (induction v) (simp_all add: put_words_def)

lemma vec_from_le_put_words:
  assumes "LENGTH('a::len) = 8 * k"
  shows "vec_from_le k (put_words k v) = (v :: 'a word list)"
proof -
  have k: "0 < k" using len_gt_0 [where ?'a = 'a] by (simp add: assms)
  show ?thesis
  proof (induction v)
    case Nil
    then show ?case using k by (simp add: vec_from_le_def put_words_def chunks_exact.simps)
  next
    case (Cons w v)
    have "chunks_exact k (put_words k (w # v)) = put_word k w # chunks_exact k (put_words k v)"
      unfolding put_words_Cons
      using k by (subst chunks_exact.simps) simp
    then show ?case using Cons from_le_put_word [OF assms, of w] by (simp add: vec_from_le_def)
  qed
qed

lemma decodes_take_n:
  assumes "unat n * unat w = length bs" and "length bs < 2 ^ 64"
  shows "decodes (cur_take_n n w what) bs bs"
proof -
  obtain m where m: "checked_mul n w = Some m" "unat m = length bs"
    using assms checked_mul_Some [of n w "n * w"] by (auto simp: checked_mul_def unat_word_ariths)
  show ?thesis
    using decodes_take' [OF m(2), of what] by (simp add: cur_take_n_def [abs_def] m(1))
qed

lemma decodes_count:
  assumes "length bs = n * w" and "n * w < 2 ^ 64" and "0 < w" and "w \<le> 8"
  shows "decodes (cur_take_n (of_nat n) (of_nat w) what) bs bs"
proof (rule decodes_take_n)
  have "n \<le> n * w" using assms(3) by (cases w) simp_all
  then have "n < 2 ^ 64" using assms(2) by (rule le_less_trans)
  then have n: "unat (of_nat n :: u64) = n" by (rule unat_of_nat_u64)
  have "w < 2 ^ 64" using assms(4) by (rule le_less_trans) simp
  then have "unat (of_nat w :: u64) = w" by (rule unat_of_nat_u64)
  with n show "unat (of_nat n :: u64) * unat (of_nat w :: u64) = length bs"
    using assms(1) by simp
  show "length bs < 2 ^ 64" unfolding assms(1) by (rule assms(2))
qed

lemma decodes_elems:
  assumes "length bs = n * w" and "n * w < 2 ^ 64" and "0 < w" and "w \<le> 8" and "mk bs = a"
  shows "decodes (take_elems (of_nat n) w mk) bs a"
  using decodes_last [OF decodes_count [OF assms(1-4)], where f = mk]
  by (simp add: take_elems_def [abs_def] assms(5))

lemma decodes_strings:
  "list_all str_ok v \<Longrightarrow> decodes (read_strings (length v)) (concat (map put_string v)) v"
proof (induction v)
  case Nil
  then show ?case by (simp add: decodes_def)
next
  case (Cons s v)
  then have "decodes (\<lambda>c. bind_res (read_string ''array string'' c) (\<lambda>(s, c1).
      bind_res (read_strings (length v) c1) (\<lambda>(ss, c2). Inr (s # ss, c2))))
      (put_string s @ concat (map put_string v)) (s # v)"
    by (intro decodes_bind [where x = s] decodes_string decodes_last [where f = "(#) s"]) simp_all
  then show ?case by simp
qed

lemma bools_of_bool_bytes: "bools_of_bytes key (map bool_byte v) = Inr v"
  by (induction v) (simp_all add: bool_byte_def)

text \<open>The header of an array, followed by the arm its element type selects.\<close>

lemma decodes_array_arm:
  assumes "decodes arm payload a"
    and "\<And>c c1 c2. read_u32 ''array element type'' c = Inr (tag, c1) \<Longrightarrow>
      read_u64 ''array length'' c1 = Inr (of_nat (length v), c2) \<Longrightarrow> read_array key d c = arm c2"
  shows "decodes (read_array key d) (put_head tag v @ payload) a"
  unfolding decodes_def
proof (intro allI)
  fix pre post
  let ?n = "put_word 8 (of_nat (length v) :: u64)"
  let ?b = "pre @ (put_head tag v @ payload) @ post"
  have ty: "read_u32 ''array element type'' \<lparr>buf = ?b, pos = length pre\<rparr> =
      Inr (tag, \<lparr>buf = ?b, pos = length pre + 4\<rparr>)"
    using decodesD [OF decodes_u32, of "''array element type''" pre tag "?n @ payload @ post"]
    by (simp add: put_head_def put_u32_def put_u64_def)
  have n: "read_u64 ''array length'' \<lparr>buf = ?b, pos = length pre + 4\<rparr> =
      Inr (of_nat (length v), \<lparr>buf = ?b, pos = length pre + 12\<rparr>)"
    using decodesD [OF decodes_u64, of "''array length''" "pre @ put_word 4 tag" "of_nat (length v)"
        "payload @ post"]
    by (simp add: put_head_def put_u32_def put_u64_def)
  show "read_array key d \<lparr>buf = ?b, pos = length pre\<rparr> =
      Inr (a, \<lparr>buf = ?b, pos = length pre + length (put_head tag v @ payload)\<rparr>)"
    using assms(2) [OF ty n] decodesD [OF assms(1), of "pre @ put_head tag v" post]
    by (simp add: put_head_def put_u32_def put_u64_def)
qed

text \<open>The arms for the fixed-width element types, one instance of the next lemma each.\<close>

lemma decodes_words_array:
  assumes "length v * 8 < 2 ^ 64" and "LENGTH('a::len) = 8 * w" and "w \<le> 8"
    and "mk (v :: 'a word list) = a"
    and "\<And>c c1 c2. read_u32 ''array element type'' c = Inr (tag, c1) \<Longrightarrow>
      read_u64 ''array length'' c1 = Inr (of_nat (length v), c2) \<Longrightarrow>
      read_array key d c = take_elems (of_nat (length v)) w (\<lambda>bs. mk (vec_from_le w bs)) c2"
  shows "decodes (read_array key d) (put_head tag v @ put_words w v) a"
proof (rule decodes_array_arm)
  have "length v * w \<le> length v * 8" using assms(3) by simp
  then have "length v * w < 2 ^ 64" using assms(1) by (rule le_less_trans)
  moreover have "0 < w" using len_gt_0 [where ?'a = 'a] by (simp add: assms(2))
  ultimately show "decodes (take_elems (of_nat (length v)) w (\<lambda>bs. mk (vec_from_le w bs)))
      (put_words w v) a"
    by (intro decodes_elems)
      (simp_all add: length_put_words vec_from_le_put_words [OF assms(2)] assms(3,4))
qed (rule assms(5))

lemma decodes_arrays:
  "list_all (\<lambda>a. decodes (read_array key d) (put_array a) a) v \<Longrightarrow>
     decodes (read_arrays key d (length v)) (concat (map put_array v)) v"
proof (induction v)
  case Nil
  then show ?case by (simp add: decodes_def)
next
  case (Cons a v)
  then have "decodes (\<lambda>c. bind_res (read_array key d c) (\<lambda>(a, c1).
      bind_res (read_arrays key d (length v) c1) (\<lambda>(as, c2). Inr (a # as, c2))))
      (put_array a @ concat (map put_array v)) (a # v)"
    by (intro decodes_bind [where x = a] decodes_last [where f = "(#) a"]) simp_all
  then show ?case by simp
qed

lemma decodes_bools_array:
  assumes "length v * 8 < 2 ^ 64" and "d < max_array_depth"
  shows "decodes (read_array key d) (put_array (ArrBool v)) (ArrBool v)"
  unfolding put_array.simps
proof (rule decodes_array_arm [where arm = "\<lambda>c2.
    bind_res (cur_take_n (of_nat (length v)) 1 ''array elements'' c2) (\<lambda>(bs, c3).
    bind_res (bools_of_bytes key bs) (\<lambda>v. Inr (ArrBool v, c3)))"])
  have "length v < 2 ^ 64" using assms(1) by simp
  then have "decodes (cur_take_n (of_nat (length v)) 1 ''array elements'') (map bool_byte v) (map bool_byte v)"
    using decodes_count [of "map bool_byte v" "length v" 1] by simp
  from decodes_bind [OF this, where y = "ArrBool v" and bs' = "[]" and
      f = "\<lambda>bs c3. bind_res (bools_of_bytes key bs) (\<lambda>v. Inr (ArrBool v, c3))"]
  show "decodes (\<lambda>c2. bind_res (cur_take_n (of_nat (length v)) 1 ''array elements'' c2) (\<lambda>(bs, c3).
      bind_res (bools_of_bytes key bs) (\<lambda>v. Inr (ArrBool v, c3)))) (map bool_byte v) (ArrBool v)"
    by (simp add: bools_of_bool_bytes decodes_return)
qed (use assms(2) in \<open>simp add: read_array.simps\<close>)

lemma decodes_strings_array:
  assumes "array_ok (ArrString v)" and "d < max_array_depth"
  shows "decodes (read_array key d) (put_array (ArrString v)) (ArrString v)"
  unfolding put_array.simps
proof (rule decodes_array_arm [OF decodes_last [where f = ArrString, OF decodes_strings]])
  show "list_all str_ok v" using assms(1) by simp
  have "unat (of_nat (length v) :: u64) = length v"
    using assms(1) by (intro unat_of_nat_u64) simp
  then show "read_array key d c = bind_res (read_strings (length v) c2) (\<lambda>(v, c3). Inr (ArrString v, c3))"
    if "read_u32 ''array element type'' c = Inr (8, c1)"
      "read_u64 ''array length'' c1 = Inr (of_nat (length v), c2)" for c c1 c2
    using assms(2) that by (simp add: read_array.simps)
qed

lemma decodes_nested_array:
  assumes "length v < 2 ^ 64" and "d < max_array_depth"
    and "list_all (\<lambda>a. decodes (read_array key (Suc d)) (put_array a) a) v"
  shows "decodes (read_array key d) (put_array (ArrNested v)) (ArrNested v)"
  unfolding put_array.simps
proof (rule decodes_array_arm [OF decodes_last [where f = ArrNested, OF decodes_arrays [OF assms(3)]]])
  have "unat (of_nat (length v) :: u64) = length v"
    by (rule unat_of_nat_u64) (rule assms(1))
  then show "read_array key d c =
      bind_res (read_arrays key (Suc d) (length v) c2) (\<lambda>(v, c3). Inr (ArrNested v, c3))"
    if "read_u32 ''array element type'' c = Inr (9, c1)"
      "read_u64 ''array length'' c1 = Inr (of_nat (length v), c2)" for c c1 c2
    using assms(2) that by (simp add: read_array.simps)
qed

lemma take_elems_u8: "decodes (take_elems (of_nat n) 1 ArrU8) v (ArrU8 v)"
  if "length v = n" and "n * 8 < 2 ^ 64"
  using that by (intro decodes_elems) auto

lemma decodes_array:
  "array_ok a \<Longrightarrow> d + array_depth a \<le> max_array_depth \<Longrightarrow>
     decodes (read_array key d) (put_array a) a"
proof (induction a arbitrary: d)
  case (ArrNested v)
  have depth: "Suc d + array_depth a \<le> max_array_depth" if "a \<in> set v" for a
  proof -
    have "array_depth a \<le> fold max (map array_depth v) 0"
      using that fold_max_le [of "map array_depth v" 0 "fold max (map array_depth v) 0"] by auto
    then show ?thesis using ArrNested.prems(2) by simp
  qed
  show ?case
  proof (rule decodes_nested_array)
    show "length v < 2 ^ 64" "d < max_array_depth"
      using ArrNested.prems by simp_all
    show "list_all (\<lambda>a. decodes (read_array key (Suc d)) (put_array a) a) v"
      unfolding list_all_iff
      using ArrNested.IH depth ArrNested.prems(1) by (auto simp: list_all_iff)
  qed
next
  case (ArrU8 v)
  show ?case unfolding put_array.simps
    by (rule decodes_array_arm [OF take_elems_u8 [OF refl]])
      (use ArrU8 in \<open>simp_all add: read_array.simps\<close>)
next
  case (ArrBool v)
  then show ?case using decodes_bools_array [of v d key] by simp
next
  case (ArrString v)
  then show ?case using decodes_strings_array [of v d key] by simp
qed (unfold put_array.simps, (rule decodes_words_array; simp add: read_array.simps)+)

subsection \<open>Values, entries and the two tables\<close>

lemma decodes_value:
  "value_ok v \<Longrightarrow> decodes (read_value (value_tag v) key) (put_value v) v"
  by (cases v)
    (simp_all add: read_value_def [abs_def] decodes_map_fst decodes_u8 [unfolded One_nat_def] decodes_u16 decodes_u32
      decodes_u64 decodes_bool decodes_string decodes_array)

lemma decodes_entry:
  assumes "str_ok k" and "value_ok v" and "decodes (f k v) bs x"
  shows "decodes (\<lambda>c. bind_res (read_string ''metadata key'' c) (\<lambda>(key, c1).
      bind_res (read_u32 ''metadata value type'' c1) (\<lambda>(raw_ty, c2).
      bind_res (read_value raw_ty key c2) (\<lambda>(value, c3). f key value c3))))
    (put_kv (k, v) @ bs) x"
  unfolding put_kv_def put_u32_def split append_assoc
  apply (rule decodes_bind [where x = k], rule decodes_string [OF assms(1)])
  apply (rule decodes_bind [where x = "value_tag v"], rule decodes_u32)
  apply (rule decodes_bind [where x = v], rule decodes_value [OF assms(2)])
  by (rule assms(3))

lemma decodes_kvs:
  assumes "distinct (map fst (entries m) @ map fst kvs)" and "metadata_inv m"
    and "\<forall>(k, v) \<in> set kvs. str_ok k \<and> value_ok v"
  obtains m' where "decodes (\<lambda>c. read_kvs (length kvs) c m) (concat (map put_kv kvs)) m'"
    "entries m' = entries m @ kvs" "metadata_inv m'"
  using assms
proof (induction kvs arbitrary: m thesis)
  case Nil
  then show ?case by (simp add: decodes_def)
next
  case (Cons kv kvs)
  obtain k v where kv: "kv = (k, v)" by (cases kv)
  have "k \<notin> set (map fst (entries m))" using Cons.prems(2) kv by auto
  then have "index m k = None"
    using index_of_keys_None Cons.prems(3) unfolding metadata_inv_def by metis
  then obtain m1 where m1: "meta_insert m k v = (m1, True)" "entries m1 = entries m @ [(k, v)]"
    by (simp add: meta_insert_def)
  have inv: "metadata_inv m1" using md.inv_insert [OF Cons.prems(3), of k v] m1(1) by simp
  obtain m' where m': "decodes (\<lambda>c. read_kvs (length kvs) c m1) (concat (map put_kv kvs)) m'"
    "entries m' = entries m1 @ kvs" "metadata_inv m'"
    by (rule Cons.IH [OF _ _ inv]) (use Cons.prems(2,4) kv m1(2) in auto)
  have "decodes (\<lambda>c. read_kvs (length (kv # kvs)) c m) (put_kv (k, v) @ concat (map put_kv kvs)) m'"
    unfolding list.size(4) Nat.add_0_right add_Suc_right read_kvs.simps
    by (rule decodes_entry) (use Cons.prems(4) kv m1(1) m'(1) in auto)
  then show ?case
    using Cons.prems(1) [of m'] m' m1(2) kv by simp
qed

lemma decodes_dims: "decodes (read_dims (length ds)) (concat (map put_u64 ds)) ds"
proof (induction ds)
  case Nil
  then show ?case by (simp add: decodes_def)
next
  case (Cons d ds)
  then have "decodes (\<lambda>c. bind_res (read_u64 ''tensor dimension'' c) (\<lambda>(d, c1).
      bind_res (read_dims (length ds) c1) (\<lambda>(ds, c2). Inr (d # ds, c2))))
      (put_word 8 d @ concat (map put_u64 ds)) (d # ds)"
    by (intro decodes_bind [where x = d] decodes_last [where f = "(#) d"] decodes_u64)
  then show ?case by (simp add: put_u64_def)
qed

lemma from_raw_of: "from_raw (raw_of t) = Some t"
  by (cases t) (simp_all add: from_raw_def)

lemma decodes_info:
  assumes "entry_ok t"
  shows "decodes read_tensor_info (put_info t) t"
proof -
  have n: "length (dims t) \<le> 4" and name: "str_ok (tname t)"
    using assms by (simp_all add: entry_ok_def)
  have u: "unat (of_nat (length (dims t)) :: u32) = length (dims t)"
    using n by (simp add: unat_of_nat)
  then have small: "\<not> (of_nat (length (dims t)) :: u32) > max_dims"
    using n by (simp add: max_dims_def word_less_nat_alt)
  have dims: "decodes (read_dims (unat (of_nat (length (dims t)) :: u32))) (concat (map put_u64 (dims t))) (dims t)"
    using decodes_dims [of "dims t"] by (simp add: u)
  show ?thesis
    unfolding read_tensor_info_def [abs_def] put_info_def put_u32_def put_u64_def [abs_def]
    apply (rule decodes_bind [where x = "tname t"], rule decodes_string [OF name])
    apply (rule decodes_bind [where x = "of_nat (length (dims t))"], rule decodes_u32)
    apply (unfold if_not_P [OF small])
    apply (rule decodes_bind [where x = "dims t"], rule dims [unfolded put_u64_def [abs_def]])
    apply (rule decodes_bind [where x = "raw_of (dtype t)"], rule decodes_u32)
    using decodes_last [OF decodes_u64 [of "''tensor offset''" "toffset t"],
        where f = "\<lambda>off. \<lparr>tname = tname t, dims = dims t, dtype = dtype t, toffset = off,
          tbyte_len = tbyte_len t\<rparr>"] assms
    by (cases t) (simp add: from_raw_of entry_ok_def)
qed

lemma decodes_infos:
  assumes "distinct (map tname (ts0 @ ts))" and "index_of_keys (map tname ts0) ix"
    and "list_all entry_ok ts"
  obtains ix' where "\<And>pre post. read_tensors (length ts)
      \<lparr>buf = pre @ concat (map put_info ts) @ post, pos = length pre\<rparr> ts0 ix =
      Inr (ts0 @ ts, ix', \<lparr>buf = pre @ concat (map put_info ts) @ post,
        pos = length pre + length (concat (map put_info ts))\<rparr>)"
  using assms
proof (induction ts arbitrary: ts0 ix thesis)
  case Nil
  then show ?case by simp
next
  case (Cons t ts)
  have "tname t \<notin> set (map tname ts0)" using Cons.prems(2) by auto
  then have new: "ix (tname t) = None"
    using index_of_keys_None Cons.prems(3) by metis
  have ix: "index_of_keys (map tname (ts0 @ [t])) (ix(tname t \<mapsto> length ts0))"
    using index_of_keys_snoc [OF Cons.prems(3) new] by (simp del: fun_upd_apply)
  obtain ix' where IH: "\<And>pre post. read_tensors (length ts)
      \<lparr>buf = pre @ concat (map put_info ts) @ post, pos = length pre\<rparr> (ts0 @ [t])
      (ix(tname t \<mapsto> length ts0)) =
      Inr (ts0 @ [t] @ ts, ix', \<lparr>buf = pre @ concat (map put_info ts) @ post,
        pos = length pre + length (concat (map put_info ts))\<rparr>)"
    by (rule Cons.IH [OF _ _ ix]) (use Cons.prems(2,4) in auto)
  have info: "decodes read_tensor_info (put_info t) t"
    using Cons.prems(4) by (intro decodes_info) simp
  show ?case
  proof (rule Cons.prems(1) [of ix'])
    fix pre post
    show "read_tensors (length (t # ts))
        \<lparr>buf = pre @ concat (map put_info (t # ts)) @ post, pos = length pre\<rparr> ts0 ix =
        Inr (ts0 @ t # ts, ix', \<lparr>buf = pre @ concat (map put_info (t # ts)) @ post,
          pos = length pre + length (concat (map put_info (t # ts)))\<rparr>)"
      using decodesD [OF info, of pre "concat (map put_info ts) @ post"]
        IH [of "pre @ put_info t" post] new by (simp del: fun_upd_apply)
  qed
qed

subsection \<open>The whole file\<close>

definition declares_alignment :: "(string \<times> meta_value) list \<Rightarrow> nat \<Rightarrow> bool" where
  "declares_alignment kvs align \<longleftrightarrow>
     (case map_of kvs ''general.alignment'' of
        None \<Rightarrow> align = 32
      | Some v \<Rightarrow> (case as_uint v of None \<Rightarrow> False | Some a \<Rightarrow> unat a = align \<and> is_power_of_two a))"

lemma alignment_from_declared:
  assumes "metadata_inv m" and "declares_alignment (entries m) align"
  shows "alignment_from m = Inr align" and "0 < align"
  using assms md.get_items [OF assms(1), of "''general.alignment''"]
  by (auto simp: declares_alignment_def alignment_from_def default_alignment_def is_power_of_two_iff
      split: option.splits)

definition range_ok :: "nat \<Rightarrow> nat \<Rightarrow> tensor_info \<Rightarrow> bool" where
  "range_ok align n t \<longleftrightarrow> align dvd unat (toffset t) \<and> unat (toffset t) + unat (tbyte_len t) \<le> n"

lemma check_tensors_pass:
  "list_all (range_ok align n) ts \<Longrightarrow> align < 2 ^ 64 \<Longrightarrow> n < 2 ^ 64 \<Longrightarrow>
     fold_res (check_tensor align n) ts () = Inr ()"
proof (induction ts)
  case (Cons t ts)
  have "unat (of_nat align :: u64) = align" using Cons.prems(2) by (rule unat_of_nat_u64)
  then have "is_multiple_of (toffset t) (of_nat align)"
    using Cons.prems(1) by (simp add: is_multiple_of_dvd range_ok_def)
  moreover have "unat (toffset t) + unat (tbyte_len t) < 2 ^ 64"
    using Cons.prems(1,3) by (simp add: range_ok_def)
  ultimately have "check_tensor align n t () = Inr ()"
    using Cons.prems(1) by (auto simp: check_tensor_def checked_add_def range_ok_def unat_word_ariths)
  then show ?case using Cons by simp
qed simp

definition file_ok :: "(string \<times> meta_value) list \<Rightarrow> tensor_info list \<Rightarrow> nat \<Rightarrow> u8 list \<Rightarrow> bool" where
  "file_ok kvs ts align dat \<longleftrightarrow>
     distinct (map fst kvs) \<and> list_all (\<lambda>(k, v). str_ok k \<and> value_ok v) kvs \<and>
     distinct (map tname ts) \<and> list_all entry_ok ts \<and> declares_alignment kvs align \<and>
     list_all (range_ok align (length dat)) ts \<and>
     length kvs < 2 ^ 64 \<and> length ts < 2 ^ 64 \<and> length dat < 2 ^ 64 \<and>
     length (put_tables kvs ts) + align < 2 ^ 64"

lemma round_up: "0 < a \<Longrightarrow> n \<le> (n + (a - 1)) div a * (a :: nat)"
  using dividend_less_times_div [of a "n + (a - 1)"] by (simp add: mult.commute)

lemma length_padding:
  "0 < a \<Longrightarrow> n + length (padding n a) = (n + (a - 1)) div a * a"
  using round_up [of a n] by (simp add: padding_def)

lemma parse_written:
  assumes "file_ok kvs ts align dat"
  shows "\<exists>g. parse (put_gguf kvs ts align dat) = Inr g \<and> version g = 3 \<and> alignment g = align \<and>
    entries (metadata_of g) = kvs \<and> tensors g = ts \<and> data g = dat"
proof -
  note ok = assms [unfolded file_ok_def]
  let ?nt = "put_word 8 (of_nat (length ts) :: u64)" and ?nk = "put_word 8 (of_nat (length kvs) :: u64)"
  let ?k = "concat (map put_kv kvs)" and ?i = "concat (map put_info ts)"
  let ?h = "put_word 4 gguf_magic @ put_word 4 gguf_version @ ?nt @ ?nk"
  let ?p = "padding (length (put_tables kvs ts)) align @ dat"
  let ?b = "put_gguf kvs ts align dat"
  have b: "?b = ?h @ ?k @ ?i @ ?p"
    by (simp add: put_gguf_def put_tables_def put_u32_def put_u64_def Let_def)
  have n: "unat (of_nat (length ts) :: u64) = length ts" "unat (of_nat (length kvs) :: u64) = length kvs"
    using ok by (simp_all add: unat_of_nat_u64)
  have magic: "read_u32 ''magic'' \<lparr>buf = ?b, pos = 0\<rparr> = Inr (gguf_magic, \<lparr>buf = ?b, pos = 4\<rparr>)"
    using decodesD [OF decodes_u32, of _ "[]" gguf_magic] by (simp add: b)
  have ver: "read_u32 ''version'' \<lparr>buf = ?b, pos = 4\<rparr> = Inr (gguf_version, \<lparr>buf = ?b, pos = 8\<rparr>)"
    using decodesD [OF decodes_u32, of _ "put_word 4 gguf_magic" gguf_version] by (simp add: b)
  have nt: "read_u64 ''tensor count'' \<lparr>buf = ?b, pos = 8\<rparr> =
      Inr (of_nat (length ts), \<lparr>buf = ?b, pos = 16\<rparr>)"
    using decodesD [OF decodes_u64, of _ "put_word 4 gguf_magic @ put_word 4 gguf_version" "of_nat (length ts)"]
    by (simp add: b)
  have nk: "read_u64 ''metadata KV count'' \<lparr>buf = ?b, pos = 16\<rparr> =
      Inr (of_nat (length kvs), \<lparr>buf = ?b, pos = 24\<rparr>)"
    using decodesD [OF decodes_u64, of _ "put_word 4 gguf_magic @ put_word 4 gguf_version @ ?nt" "of_nat (length kvs)"]
    by (simp add: b)
  obtain m where m: "decodes (\<lambda>c. read_kvs (length kvs) c metadata_default) ?k m"
    "entries m = kvs" "metadata_inv m"
    using decodes_kvs [OF _ md.inv_empty, of kvs] ok
    by (auto simp: metadata_default_def list_all_iff)
  have kvs: "read_kvs (length kvs) \<lparr>buf = ?b, pos = 24\<rparr> metadata_default =
      Inr (m, \<lparr>buf = ?b, pos = 24 + length ?k\<rparr>)"
    using decodesD [OF m(1), of ?h "?i @ ?p"] by (simp add: b)
  have al: "alignment_from m = Inr align" "0 < align"
    using alignment_from_declared [OF m(3), of align] ok m(2) by simp_all
  obtain ix where ix: "read_tensors (length ts) \<lparr>buf = ?b, pos = 24 + length ?k\<rparr> [] Map.empty =
      Inr (ts, ix, \<lparr>buf = ?b, pos = 24 + length ?k + length ?i\<rparr>)"
  proof (rule decodes_infos [of "[]" ts Map.empty])
    fix ix assume *: "\<And>pre post. read_tensors (length ts)
      \<lparr>buf = pre @ concat (map put_info ts) @ post, pos = length pre\<rparr> [] Map.empty =
      Inr ([] @ ts, ix, \<lparr>buf = pre @ concat (map put_info ts) @ post,
        pos = length pre + length (concat (map put_info ts))\<rparr>)"
    show thesis using that [of ix] * [of "?h @ ?k" ?p] by (simp add: b)
  qed (use ok in auto)
  let ?e = "24 + length ?k + length ?i"
  have e: "length (put_tables kvs ts) = ?e"
    by (simp add: put_tables_def put_u32_def put_u64_def)
  have start: "data_start_of ?e align = Inr (length (?h @ ?k @ ?i @ padding ?e align))"
    using ok e length_padding [OF al(2), of ?e] by (auto simp: data_start_of_def)
  have check: "fold_res (check_tensor align (length dat)) ts () = Inr ()"
    using check_tensors_pass [of align "length dat" ts] ok by simp
  show ?thesis
    using magic ver nt nk kvs al(1) ix start check n m(2)
    by (simp add: parse_def gguf_version_def Let_def b e)
qed

definition sample_kvs :: "(string \<times> meta_value) list" where
  "sample_kvs = [(''general.alignment'', MU32 16), (''s'', MString ''ab''),
     (''n'', MArray (ArrNested [ArrI16 [1, 0xFFFF], ArrString [''x'', []], ArrBool [True]]))]"

definition sample_tensors :: "tensor_info list" where
  "sample_tensors =
     [\<lparr>tname = ''t'', dims = [32, 1], dtype = Q4_0, toffset = 0, tbyte_len = 18\<rparr>,
      \<lparr>tname = ''u'', dims = [], dtype = F32, toffset = 32, tbyte_len = 4\<rparr>]"

lemma sample_file_ok: "file_ok sample_kvs sample_tensors 16 (replicate 36 7)"
  by code_simp

definition sample_file :: "u8 list" where
  "sample_file = put_gguf sample_kvs sample_tensors 16 (replicate 36 7)"

definition sample_gguf :: gguf where
  "sample_gguf = projr (parse sample_file)"

lemma sample_parse:
  "parse sample_file = Inr sample_gguf" "tensors sample_gguf = sample_tensors"
  "entries (metadata_of sample_gguf) = sample_kvs" "data sample_gguf = replicate 36 7"
  using parse_written [OF sample_file_ok] by (auto simp: sample_gguf_def sample_file_def)

end
