(* ===== verification/Gguf_Props.thy ===== *)
theory Gguf_Props
  imports Gguf_Write
begin

text \<open>
  The properties of the GGUF parser (\<open>crates/sg-gguf/src/parse.rs\<close>), drawn from the readers'
  postconditions in \<open>Gguf_Correct\<close> and from the serializer of \<open>Gguf_Write\<close>. The witnesses
  parse \<open>sample_file\<close>, a two-tensor file with three metadata entries.
\<close>

text \<open>
  C11: After a successful parse, no tensor view can panic or leave the file: for every entry of
  the table \<open>data_of\<close> returns the bytes of the file at \<open>data_start + offset\<close>, exactly as many
  as recorded, and that absolute position is a multiple of the file's alignment.
\<close>

theorem parsed_tensor_in_file:
  assumes "parse bytes = Inr g" and "t \<in> set (tensors g)"
  shows "data_of g t =
      Some (take (unat (tbyte_len t)) (drop (data_start g + unat (toffset t)) bytes)) \<and>
    data_start g + unat (toffset t) + unat (tbyte_len t) \<le> length bytes \<and>
    alignment g dvd data_start g + unat (toffset t)"
proof (intro conjI)
  note r = parse_tensor_range [OF assms] and ok = parse_ok [OF assms(1)]
  show "data_start g + unat (toffset t) + unat (tbyte_len t) \<le> length bytes"
    by (rule r(2))
  have "tensors g \<noteq> []" using assms(2) by auto
  then show "alignment g dvd data_start g + unat (toffset t)"
    using ok(8) r(1) by simp
  show "data_of g t =
      Some (take (unat (tbyte_len t)) (drop (data_start g + unat (toffset t)) bytes))"
  proof -
    have "unat (toffset t) \<le> length (data g)"
      "unat (tbyte_len t) \<le> length (drop (unat (toffset t)) (data g))"
      using r(2) ok(6,7) by simp_all
    then show ?thesis
      by (simp add: data_of_def ok(6) add.commute del: length_drop)
  qed
qed

theorem parsed_tensor_in_file_witness:
  "data_of sample_gguf (sample_tensors ! 1) =
      Some (take 4 (drop (data_start sample_gguf + 32) sample_file)) \<and>
    data_start sample_gguf + 36 \<le> length sample_file"
  using parsed_tensor_in_file [OF sample_parse(1), of "sample_tensors ! 1"]
  by (simp add: sample_parse(2)) (simp add: sample_tensors_def)

text \<open>
  The size recorded for a parsed tensor is the size of its shape: it has at most four
  dimensions, the product of the dimensions fits in 64 bits (so the wrapping \<open>elem_count\<close> is
  the mathematical product), it is a whole number of blocks, and the byte length is the
  number of blocks times the block size.
\<close>

theorem parsed_tensor_size:
  assumes "parse bytes = Inr g" and "t \<in> set (tensors g)"
  shows "length (dims t) \<le> 4 \<and>
    unat (elem_count t) = prod_list (map unat (dims t)) \<and>
    unat (block_elems (dtype t)) dvd prod_list (map unat (dims t)) \<and>
    unat (tbyte_len t) =
      prod_list (map unat (dims t)) div unat (block_elems (dtype t)) * unat (block_bytes (dtype t))"
  using parse_ok(5) [OF assms(1)] assms(2) by (auto simp: info_ok_def byte_len_Some)

theorem parsed_tensor_size_witness:
  "unat (tbyte_len (sample_tensors ! 0)) = prod_list (map unat (dims (sample_tensors ! 0))) div 32 * 18"
  using parsed_tensor_size [OF sample_parse(1), of "sample_tensors ! 0"]
  by (simp add: sample_parse(2)) (simp add: sample_tensors_def)

text \<open>
  Lookup by name agrees with the tables: \<open>tensor\<close> finds the unique entry of that name,
  if there is one, and \<open>Metadata::get\<close> finds the unique value stored under the key.
\<close>

theorem parsed_lookup:
  assumes "parse bytes = Inr g"
  shows "tensor g name = find (\<lambda>t. tname t = name) (tensors g) \<and>
    distinct (map tname (tensors g)) \<and>
    meta_get (metadata_of g) key = map_of (entries (metadata_of g)) key \<and>
    distinct (map fst (entries (metadata_of g)))"
  using index_of_keys_lookup [OF parse_ok(4) [OF assms], of name] parse_ok(3,4) [OF assms]
    md.get_items [of "metadata_of g" key]
  by (simp add: tensor_def index_of_keys_def metadata_inv_def)

theorem parsed_lookup_witness:
  "tensor sample_gguf ''u'' = Some (sample_tensors ! 1) \<and> meta_get (metadata_of sample_gguf) ''b'' = None"
  using parsed_lookup [OF sample_parse(1), of "''u''" "''b''"]
  by (simp add: sample_parse(2,3) sample_tensors_def sample_kvs_def)

text \<open>
  C15: Lengths read from the file never outgrow the file: every array a successful parse
  stores nests at most eight deep, and owns (nested vectors included) at most as many
  elements as the file has bytes.
\<close>

theorem parsed_arrays_bounded:
  assumes "parse bytes = Inr g" and "(key, MArray a) \<in> set (entries (metadata_of g))"
  shows "array_depth a \<le> 8 \<and> array_elems a \<le> length bytes"
  using parse_bounded [OF assms(1)] assms(2)
  by (auto simp: array_bounded_def max_array_depth_def)

theorem parsed_arrays_bounded_witness:
  "array_depth (ArrNested [ArrI16 [1, 0xFFFF], ArrString [''x'', []], ArrBool [True]]) \<le> 8 \<and>
    array_elems (ArrNested [ArrI16 [1, 0xFFFF], ArrString [''x'', []], ArrBool [True]])
      \<le> length sample_file"
  using parsed_arrays_bounded [OF sample_parse(1), of "''n''"]
  by (simp add: sample_parse(3) sample_kvs_def)


text \<open>
  C3: The parser inverts the serializer: for any well-formed metadata table, tensor table
  and data section (distinct names, valid strings, arrays at most eight deep, sizes that match
  the shapes, aligned offsets inside the data), parsing the written file succeeds and yields
  exactly these tables, this alignment and this data section.
\<close>

theorem parse_put_gguf:
  assumes "file_ok kvs ts align dat"
  shows "\<exists>g. parse (put_gguf kvs ts align dat) = Inr g \<and> version g = 3 \<and> alignment g = align \<and>
    entries (metadata_of g) = kvs \<and> tensors g = ts \<and> data g = dat"
  by (rule parse_written [OF assms])

theorem parse_put_gguf_witness:
  "\<exists>g. parse (put_gguf sample_kvs sample_tensors 16 (replicate 36 7)) = Inr g \<and> version g = 3 \<and>
    alignment g = 16 \<and> entries (metadata_of g) = sample_kvs \<and> tensors g = sample_tensors \<and>
    data g = replicate 36 7"
  by (rule parse_put_gguf [OF sample_file_ok])

end
