(* ===== verification/Vocab.thy ===== *)
theory Vocab
  imports Meta Utf8
begin

text \<open>
  \<open>crates/sg-tokenizer/src/vocab.rs\<close>: the tokenizer's tables, built and validated from the
  file's metadata. A \<open>HashMap\<close> is a map, \<open>[u32; 256]\<close> a list of that length; \<open>id as u32\<close>
  truncates. The main fact is \<open>from_metadata_inv\<close>: whatever passes validation satisfies
  \<open>vocab_inv\<close>, which is all that the encoder and decoder rely on.
\<close>

datatype token_type = Undefined | Normal | Unknown | Control | UserDefined | Unused | Byte

definition token_type_from_raw :: "32 word \<Rightarrow> token_type option" where
  "token_type_from_raw raw =
     (if raw = 0 then Some Undefined
      else if raw = 1 then Some Normal
      else if raw = 2 then Some Unknown
      else if raw = 3 then Some Control
      else if raw = 4 then Some UserDefined
      else if raw = 5 then Some Unused
      else if raw = 6 then Some Byte
      else None)"

datatype vocab_error =
    VocabMeta meta_error
  | WrongModel string
  | ArrayLengths nat nat nat
  | DuplicatePiece string
  | BadTokenType u32 "32 word"
  | BadByteToken string
  | IncompleteByteTable nat
  | BadMergeFormat nat string
  | MergePieceMissing nat string
  | SpecialIdMismatch string u32 string string   \<comment> \<open>key, id, piece, expected\<close>
  | UnsupportedFlag string
  | VocabIdOutOfRange u64

definition lift_meta :: "meta_error + 'a \<Rightarrow> vocab_error + 'a" where
  "lift_meta r = (case r of Inl e \<Rightarrow> Inl (VocabMeta e) | Inr x \<Rightarrow> Inr x)"

lemma lift_meta_simps [simp, res_simps]:
  "lift_meta (Inr x) = Inr x"
  "lift_meta (Inl e) = Inl (VocabMeta e)"
  "lift_meta r = Inr x \<longleftrightarrow> r = Inr x"
  by (simp_all add: lift_meta_def split: sum.splits)

record vocab =
  pieces :: "string list"
  types :: "token_type list"
  piece_to_id :: "string \<Rightarrow> u32 option"
  merges :: "u32 \<times> u32 \<Rightarrow> (u32 \<times> u32) option"
  byte_to_id :: "u32 list"
  id_to_byte :: "u32 \<Rightarrow> u8 option"
  specials :: "(string \<times> u32) list"
  bos :: u32
  eos :: u32
  pad :: u32
  unk :: u32
  eot :: u32

subsection \<open>Byte pieces\<close>

fun strip_prefix :: "string \<Rightarrow> string \<Rightarrow> string option" where
  "strip_prefix [] s = Some s"
| "strip_prefix (p # ps) [] = None"
| "strip_prefix (p # ps) (c # cs) = (if p = c then strip_prefix ps cs else None)"

definition strip_suffix :: "string \<Rightarrow> string \<Rightarrow> string option" where
  "strip_suffix suffix s = map_option rev (strip_prefix (rev suffix) (rev s))"

definition hex_digit :: "char \<Rightarrow> nat option" where
  "hex_digit c =
     (let n = of_char c in
      if 48 \<le> n \<and> n \<le> 57 then Some (n - 48)
      else if 65 \<le> n \<and> n \<le> 70 then Some (n - 55)
      else if 97 \<le> n \<and> n \<le> 102 then Some (n - 87)
      else None)"

fun hex_digits :: "nat \<Rightarrow> string \<Rightarrow> nat option" where
  "hex_digits acc [] = Some acc"
| "hex_digits acc (c # cs) =
     (case hex_digit c of
        None \<Rightarrow> None
      | Some d \<Rightarrow> if acc * 16 + d < 256 then hex_digits (acc * 16 + d) cs else None)"

text \<open>\<open>u8::from_str_radix(_, 16).ok()\<close>; the standard library accepts one leading plus sign.\<close>

definition u8_from_hex :: "string \<Rightarrow> u8 option" where
  "u8_from_hex s =
     map_option of_nat
       (case s of
          [] \<Rightarrow> None
        | c # cs \<Rightarrow> if c = CHR ''+'' then (if cs = [] then None else hex_digits 0 cs) else hex_digits 0 s)"

definition parse_byte_piece :: "string \<Rightarrow> u8 option" where
  "parse_byte_piece piece =
     Option.bind (strip_prefix ''<0x'' piece) (\<lambda>r.
     Option.bind (strip_suffix ''>'' r) (\<lambda>hex.
     if length hex \<noteq> 2 then None else u8_from_hex hex))"

subsection \<open>The token loop\<close>

record build =
  b_pieces :: "string list"
  b_types :: "token_type list"
  b_piece_to_id :: "string \<Rightarrow> u32 option"
  b_byte_to_id :: "u32 list"
  b_id_to_byte :: "u32 \<Rightarrow> u8 option"
  b_specials :: "(string \<times> u32) list"
  b_byte_count :: nat

definition build_new :: build where
  "build_new = \<lparr>b_pieces = [], b_types = [], b_piece_to_id = Map.empty,
     b_byte_to_id = replicate 256 (- 1), b_id_to_byte = Map.empty, b_specials = [], b_byte_count = 0\<rparr>"

text \<open>The \<open>match ty\<close> of the loop, then the final two pushes.\<close>

definition classify_token :: "u32 \<Rightarrow> string \<Rightarrow> token_type \<Rightarrow> build \<Rightarrow> vocab_error + build" where
  "classify_token tid piece ty b =
     (if ty = Byte then
        bind_res (ok_or (parse_byte_piece piece) (BadByteToken piece)) (\<lambda>byte.
        Inr (b\<lparr>b_byte_to_id := (b_byte_to_id b)[unat byte := tid],
               b_id_to_byte := (b_id_to_byte b)(tid \<mapsto> byte),
               b_byte_count := b_byte_count b + 1\<rparr>))
      else if ty = Control \<or> ty = UserDefined then
        Inr (b\<lparr>b_specials := b_specials b @ [(piece, tid)]\<rparr>)
      else Inr b)"

definition token_step :: "nat \<times> string \<times> 32 word \<Rightarrow> build \<Rightarrow> vocab_error + build" where
  "token_step = (\<lambda>(i, piece, raw_ty) b.
     let tid = of_nat i in
     bind_res (ok_or (token_type_from_raw raw_ty) (BadTokenType tid raw_ty)) (\<lambda>ty.
     if b_piece_to_id b piece \<noteq> None then Inl (DuplicatePiece piece)
     else
       bind_res (classify_token tid piece ty (b\<lparr>b_piece_to_id := (b_piece_to_id b)(piece \<mapsto> tid)\<rparr>))
         (\<lambda>b'. Inr (b'\<lparr>b_pieces := b_pieces b' @ [piece], b_types := b_types b' @ [ty]\<rparr>))))"

definition read_tokens :: "string list \<Rightarrow> 32 word list \<Rightarrow> vocab_error + build" where
  "read_tokens tokens raw_types =
     fold_res token_step (enumerate 0 (zip tokens raw_types)) build_new"

subsection \<open>Merges\<close>

fun split_once_space :: "string \<Rightarrow> (string \<times> string) option" where
  "split_once_space [] = None"
| "split_once_space (c # cs) =
     (if c = CHR '' '' then Some ([], cs)
      else map_option (\<lambda>(l, r). (c # l, r)) (split_once_space cs))"

definition split_merge :: "string \<Rightarrow> (string \<times> string) option" where
  "split_merge merge =
     Option.bind (split_once_space merge) (\<lambda>(l, r).
       if l \<noteq> [] \<and> r \<noteq> [] \<and> CHR '' '' \<notin> set r then Some (l, r) else None)"

definition merge_step :: "(string \<Rightarrow> u32 option) \<Rightarrow> nat \<times> string \<Rightarrow>
    (u32 \<times> u32 \<Rightarrow> (u32 \<times> u32) option) \<Rightarrow> vocab_error + (u32 \<times> u32 \<Rightarrow> (u32 \<times> u32) option)" where
  "merge_step p2i = (\<lambda>(i, merge) tab.
     bind_res (ok_or (split_merge merge) (BadMergeFormat i merge)) (\<lambda>(left, right).
     bind_res (ok_or (p2i left) (MergePieceMissing i merge)) (\<lambda>l.
     bind_res (ok_or (p2i right) (MergePieceMissing i merge)) (\<lambda>r.
     bind_res (ok_or (p2i (left @ right)) (MergePieceMissing i merge)) (\<lambda>merged.
     Inr (tab((l, r) \<mapsto> (of_nat i, merged))))))))"

definition read_merges :: "(string \<Rightarrow> u32 option) \<Rightarrow> string list \<Rightarrow>
    vocab_error + (u32 \<times> u32 \<Rightarrow> (u32 \<times> u32) option)" where
  "read_merges p2i merge_strs =
     fold_res (merge_step p2i) (enumerate 0 merge_strs) Map.empty"

subsection \<open>Vocab::from_metadata\<close>

definition special_id :: "metadata \<Rightarrow> string list \<Rightarrow> string \<Rightarrow> string \<Rightarrow> vocab_error + u32" where
  "special_id m ps key expected =
     bind_res (lift_meta (require_uint m key)) (\<lambda>tid.
     if unat tid \<ge> 2 ^ 32 then Inl (VocabIdOutOfRange tid)
     else if unat tid < length ps then
       (if ps ! unat tid = expected then Inr (ucast tid)
        else Inl (SpecialIdMismatch key (ucast tid) (ps ! unat tid) expected))
     else Inl (VocabIdOutOfRange tid))"

definition refuse_flag :: "metadata \<Rightarrow> string \<Rightarrow> unit \<Rightarrow> vocab_error + unit" where
  "refuse_flag m key u =
     bind_res (lift_meta (get_bool m key)) (\<lambda>f.
     if f = Some True then Inl (UnsupportedFlag key) else Inr ())"

definition turn_end_piece :: string where "turn_end_piece = ''<turn|>''"

definition from_metadata :: "metadata \<Rightarrow> vocab_error + vocab" where
  "from_metadata m =
     bind_res (lift_meta (require_str m ''tokenizer.ggml.model'')) (\<lambda>model.
     if model \<noteq> ''gemma4'' then Inl (WrongModel model) else
     bind_res (fold_res (refuse_flag m)
       [''tokenizer.ggml.add_bos_token'', ''tokenizer.ggml.add_space_prefix''] ()) (\<lambda>_.
     bind_res (lift_meta (require_str_array m ''tokenizer.ggml.tokens'')) (\<lambda>tokens.
     bind_res (lift_meta (require_f32_array m ''tokenizer.ggml.scores'')) (\<lambda>scores.
     bind_res (lift_meta (require_i32_array m ''tokenizer.ggml.token_type'')) (\<lambda>raw_types.
     if length tokens \<noteq> length scores \<or> length tokens \<noteq> length raw_types then
       Inl (ArrayLengths (length tokens) (length scores) (length raw_types)) else
     bind_res (read_tokens tokens raw_types) (\<lambda>b.
     if b_byte_count b \<noteq> 256 \<or> - 1 \<in> set (b_byte_to_id b) then
       Inl (IncompleteByteTable (b_byte_count b)) else
     bind_res (lift_meta (require_str_array m ''tokenizer.ggml.merges'')) (\<lambda>merge_strs.
     bind_res (read_merges (b_piece_to_id b) merge_strs) (\<lambda>mtab.
     bind_res (special_id m (b_pieces b) ''tokenizer.ggml.bos_token_id'' ''<bos>'') (\<lambda>bos_id.
     bind_res (special_id m (b_pieces b) ''tokenizer.ggml.eos_token_id'' ''<eos>'') (\<lambda>eos_id.
     bind_res (special_id m (b_pieces b) ''tokenizer.ggml.padding_token_id'' ''<pad>'') (\<lambda>pad_id.
     bind_res (special_id m (b_pieces b) ''tokenizer.ggml.unknown_token_id'' ''<unk>'') (\<lambda>unk_id.
     bind_res (ok_or (b_piece_to_id b turn_end_piece)
       (SpecialIdMismatch ''<turn|> lookup'' 0 [] turn_end_piece)) (\<lambda>eot_id.
     Inr \<lparr>pieces = b_pieces b, types = b_types b, piece_to_id = b_piece_to_id b, merges = mtab,
          byte_to_id = b_byte_to_id b, id_to_byte = b_id_to_byte b,
          specials = sort_key (\<lambda>(p, _). - int (length p)) (b_specials b),
          bos = bos_id, eos = eos_id, pad = pad_id, unk = unk_id, eot = eot_id\<rparr>)))))))))))))"

subsection \<open>Accessors\<close>

definition vocab_len :: "vocab \<Rightarrow> nat" where "vocab_len v = length (pieces v)"
definition vocab_is_empty :: "vocab \<Rightarrow> bool" where "vocab_is_empty v \<longleftrightarrow> pieces v = []"

definition piece_of :: "vocab \<Rightarrow> u32 \<Rightarrow> string option" where
  "piece_of v tid = (if unat tid < length (pieces v) then Some (pieces v ! unat tid) else None)"

definition token_type_of :: "vocab \<Rightarrow> u32 \<Rightarrow> token_type option" where
  "token_type_of v tid = (if unat tid < length (types v) then Some (types v ! unat tid) else None)"

definition id_of :: "vocab \<Rightarrow> string \<Rightarrow> u32 option" where
  "id_of v piece = piece_to_id v piece"

definition merge_of :: "vocab \<Rightarrow> u32 \<Rightarrow> u32 \<Rightarrow> (u32 \<times> u32) option" where
  "merge_of v l r = merges v (l, r)"

definition byte_id :: "vocab \<Rightarrow> u8 \<Rightarrow> u32" where
  "byte_id v b = byte_to_id v ! unat b"

definition byte_of :: "vocab \<Rightarrow> u32 \<Rightarrow> u8 option" where
  "byte_of v tid = id_to_byte v tid"

subsection \<open>What construction establishes\<close>

definition special_type :: "token_type \<Rightarrow> bool" where
  "special_type ty \<longleftrightarrow> ty = Control \<or> ty = UserDefined"

text \<open>\<open>piece_index ps ix\<close>: the map from pieces to ids inverts the list of pieces.\<close>

definition piece_index :: "string list \<Rightarrow> (string \<Rightarrow> u32 option) \<Rightarrow> bool" where
  "piece_index ps ix \<longleftrightarrow> (\<forall>p i. ix p = Some i \<longleftrightarrow> unat i < length ps \<and> ps ! unat i = p)"

definition byte_tables :: "string list \<Rightarrow> token_type list \<Rightarrow> u32 list \<Rightarrow> (u32 \<Rightarrow> u8 option) \<Rightarrow> bool" where
  "byte_tables ps tys b2i i2b \<longleftrightarrow> length b2i = 256 \<and>
     (\<forall>x. b2i ! unat x \<noteq> - 1 \<longrightarrow> i2b (b2i ! unat x) = Some (x :: u8)) \<and>
     (\<forall>i x. i2b i = Some x \<longleftrightarrow>
        unat i < length ps \<and> tys ! unat i = Byte \<and> parse_byte_piece (ps ! unat i) = Some x) \<and>
     (\<forall>k < length ps. tys ! k = Byte \<longrightarrow> parse_byte_piece (ps ! k) \<noteq> None)"

definition special_table :: "string list \<Rightarrow> token_type list \<Rightarrow> (string \<times> u32) list \<Rightarrow> bool" where
  "special_table ps tys sp \<longleftrightarrow>
     (\<forall>p i. (p, i) \<in> set sp \<longleftrightarrow> unat i < length ps \<and> special_type (tys ! unat i) \<and> ps ! unat i = p)"

definition build_inv :: "nat \<Rightarrow> build \<Rightarrow> bool" where
  "build_inv n b \<longleftrightarrow> length (b_pieces b) = n \<and> length (b_types b) = n \<and>
     piece_index (b_pieces b) (b_piece_to_id b) \<and>
     byte_tables (b_pieces b) (b_types b) (b_byte_to_id b) (b_id_to_byte b) \<and>
     special_table (b_pieces b) (b_types b) (b_specials b)"

lemma unat_u8_less: "unat (x :: u8) < 256"
  using unsigned_less [of x] by simp

lemma build_inv_new: "build_inv 0 build_new"
  by (auto simp: build_inv_def build_new_def piece_index_def byte_tables_def special_table_def
      unat_u8_less)

lemma unat_of_nat_u32: "n < 2 ^ 32 \<Longrightarrow> unat (of_nat n :: u32) = n"
  by (simp add: unat_of_nat)

lemma piece_index_snoc:
  assumes "piece_index ps ix" and "ix p = None" and "unat w = length ps"
  shows "piece_index (ps @ [p]) (ix(p \<mapsto> w))"
  unfolding piece_index_def
proof (intro allI)
  fix q i
  note ix = assms(1) [unfolded piece_index_def, rule_format]
  have i: "i = w \<longleftrightarrow> unat i = length ps" using word_unat_eq_iff [of i w] assms(3) by simp
  show "(ix(p \<mapsto> w)) q = Some i \<longleftrightarrow> unat i < length (ps @ [p]) \<and> (ps @ [p]) ! unat i = q"
  proof (cases "unat i < length ps")
    case True
    then have "ps ! unat i \<noteq> p" using ix [of p i] assms(2) by simp
    then show ?thesis using True ix [of q i] i by (auto simp: nth_append)
  next
    case False
    then have "ix q \<noteq> Some i" using ix [of q i] by simp
    then show ?thesis using False i by (auto simp: nth_append less_Suc_eq)
  qed
qed

lemma byte_tables_snoc_byte:
  assumes "byte_tables ps tys b2i i2b" and "length tys = length ps" and "unat w = length ps"
    and "parse_byte_piece p = Some x"
  shows "byte_tables (ps @ [p]) (tys @ [Byte]) (b2i[unat x := w]) (i2b(w \<mapsto> x))"
proof -
  have new: "b2i ! unat y \<noteq> w" if "b2i ! unat y \<noteq> - 1" for y :: u8
    using assms(1) that assms(3) unfolding byte_tables_def by (metis order_less_irrefl)
  have len: "length b2i = 256" using assms(1) by (simp add: byte_tables_def)
  show ?thesis
    unfolding byte_tables_def
  proof (intro conjI allI impI)
    fix y :: u8
    assume "b2i[unat x := w] ! unat y \<noteq> - 1"
    then show "(i2b(w \<mapsto> x)) (b2i[unat x := w] ! unat y) = Some y"
      using assms(1) new [of y] unat_u8_less [of y]
      by (cases "x = y") (auto simp: byte_tables_def len nth_list_update word_unat_eq_iff [where 'a = 8])
  next
    fix i y
    show "((i2b(w \<mapsto> x)) i = Some y) \<longleftrightarrow> unat i < length (ps @ [p]) \<and> (tys @ [Byte]) ! unat i = Byte \<and>
        parse_byte_piece ((ps @ [p]) ! unat i) = Some y"
      using assms(1,2,4) word_unat_eq_iff [of i w]
      by (auto simp: byte_tables_def nth_append less_Suc_eq assms(3))
  next
    fix k
    assume "k < length (ps @ [p])" "(tys @ [Byte]) ! k = Byte"
    then show "parse_byte_piece ((ps @ [p]) ! k) \<noteq> None"
      using assms(1,2,4) by (auto simp: byte_tables_def nth_append less_Suc_eq)
  qed (simp add: len)
qed

lemma byte_tables_snoc_other:
  assumes "byte_tables ps tys b2i i2b" and "length tys = length ps" and "ty \<noteq> Byte"
  shows "byte_tables (ps @ [p]) (tys @ [ty]) b2i i2b"
  using assms by (auto simp: byte_tables_def nth_append less_Suc_eq)

lemma special_table_snoc:
  assumes "special_table ps tys sp" and "length tys = length ps" and "unat w = length ps"
  shows "special_table (ps @ [p]) (tys @ [ty]) (if special_type ty then sp @ [(p, w)] else sp)"
  using assms(1,2) word_unat_eq_iff [of _ w]
  by (auto simp: special_table_def nth_append less_Suc_eq assms(3))

lemma token_step_ok:
  assumes "token_step (k, piece, raw) b = Inr b'" and "build_inv k b" and "k < 2 ^ 32"
  shows "build_inv (Suc k) b' \<and> b_pieces b' = b_pieces b @ [piece]"
proof -
  obtain ty b1 where ty: "token_type_from_raw raw = Some ty" "b_piece_to_id b piece = None" and
    c: "classify_token (of_nat k) piece ty
      (b\<lparr>b_piece_to_id := (b_piece_to_id b)(piece \<mapsto> of_nat k)\<rparr>) = Inr b1" and
    b': "b' = b1\<lparr>b_pieces := b_pieces b1 @ [piece], b_types := b_types b1 @ [ty]\<rparr>"
    using assms(1) by (auto simp: token_step_def res_simps Let_def split: if_splits)
  note inv = assms(2) [unfolded build_inv_def]
  have w: "unat (of_nat k :: u32) = length (b_pieces b)"
    using inv unat_of_nat_u32 [OF assms(3)] by simp
  have ix: "piece_index (b_pieces b @ [piece]) ((b_piece_to_id b)(piece \<mapsto> of_nat k))"
    by (rule piece_index_snoc) (use inv ty(2) w in simp_all)
  have sp: "special_table (b_pieces b @ [piece]) (b_types b @ [ty])
      (if special_type ty then b_specials b @ [(piece, of_nat k)] else b_specials b)"
    by (rule special_table_snoc) (use inv w in simp_all)
  show ?thesis
  proof (cases "ty = Byte")
    case True
    then obtain x where x: "parse_byte_piece piece = Some x" and
      b1: "b1 = b\<lparr>b_piece_to_id := (b_piece_to_id b)(piece \<mapsto> of_nat k),
        b_byte_to_id := (b_byte_to_id b)[unat x := of_nat k],
        b_id_to_byte := (b_id_to_byte b)(of_nat k \<mapsto> x), b_byte_count := b_byte_count b + 1\<rparr>"
      using c by (auto simp: classify_token_def res_simps)
    have "byte_tables (b_pieces b @ [piece]) (b_types b @ [Byte])
        ((b_byte_to_id b)[unat x := of_nat k]) ((b_id_to_byte b)(of_nat k \<mapsto> x))"
      by (rule byte_tables_snoc_byte) (use inv w x in simp_all)
    then show ?thesis
      using inv ix sp True by (simp add: build_inv_def b' b1 special_type_def)
  next
    case False
    then have "byte_tables (b_pieces b @ [piece]) (b_types b @ [ty]) (b_byte_to_id b) (b_id_to_byte b)"
      by (intro byte_tables_snoc_other) (use inv in simp_all)
    then show ?thesis
      using inv ix sp False c
      by (auto simp: build_inv_def b' classify_token_def special_type_def split: if_splits)
  qed
qed

lemma token_loop_ok:
  "fold_res token_step (enumerate k ts) b = Inr b' \<Longrightarrow> build_inv k b \<Longrightarrow>
     k + length ts \<le> 2 ^ 32 \<Longrightarrow>
     build_inv (k + length ts) b' \<and> b_pieces b' = b_pieces b @ map fst ts"
proof (induction ts arbitrary: k b)
  case Nil
  then show ?case by simp
next
  case (Cons t ts)
  obtain piece raw where t: "t = (piece, raw)" by (cases t)
  obtain b1 where b1: "token_step (k, piece, raw) b = Inr b1"
    "fold_res token_step (enumerate (Suc k) ts) b1 = Inr b'"
    using Cons.prems(1) unfolding t by (auto simp: res_simps)
  have "k < 2 ^ 32" using Cons.prems(3) by simp
  note step = token_step_ok [OF b1(1) Cons.prems(2) this]
  from Cons.IH [OF b1(2)] step Cons.prems(3) show ?case by (auto simp: t)
qed

lemma token_loop_pieces:
  "fold_res token_step (enumerate k ts) b = Inr b' \<Longrightarrow> b_pieces b' = b_pieces b @ map fst ts"
proof (induction ts arbitrary: k b)
  case Nil
  then show ?case by simp
next
  case (Cons t ts)
  obtain piece raw where t: "t = (piece, raw)" by (cases t)
  obtain b1 where b1: "token_step (k, piece, raw) b = Inr b1"
    "fold_res token_step (enumerate (Suc k) ts) b1 = Inr b'"
    using Cons.prems(1) unfolding t by (auto simp: res_simps)
  have "b_pieces b1 = b_pieces b @ [piece]"
    using b1(1) by (auto simp: token_step_def classify_token_def res_simps Let_def split: if_splits)
  then show ?case using Cons.IH [OF b1(2)] by (simp add: t)
qed

lemma read_tokens_ok:
  assumes "read_tokens tokens raws = Inr b" and "length raws = length tokens"
    and "length tokens \<le> 2 ^ 32"
  shows "build_inv (length tokens) b \<and> b_pieces b = tokens"
  using token_loop_ok [of 0 "zip tokens raws" build_new b] assms build_inv_new
  by (simp add: read_tokens_def build_new_def)


text \<open>Every merge concatenates two non-empty pieces of the table into a third.\<close>

definition merge_table :: "string list \<Rightarrow> (u32 \<times> u32 \<Rightarrow> (u32 \<times> u32) option) \<Rightarrow> bool" where
  "merge_table ps tab \<longleftrightarrow> (\<forall>l r k m. tab (l, r) = Some (k, m) \<longrightarrow>
     unat l < length ps \<and> unat r < length ps \<and> unat m < length ps \<and>
     ps ! unat l \<noteq> [] \<and> ps ! unat r \<noteq> [] \<and> ps ! unat m = ps ! unat l @ ps ! unat r)"

lemma read_merges_ok:
  assumes "read_merges ix merge_strs = Inr tab" and "piece_index ps ix"
  shows "merge_table ps tab"
  using assms(1) unfolding read_merges_def
proof (rule fold_res_invariant [where P = "merge_table ps"])
  show "merge_table ps Map.empty" by (simp add: merge_table_def)
  fix e t u
  assume t: "merge_table ps t" and s: "merge_step ix e t = Inr u"
  obtain i merge where e: "e = (i, merge)" by (cases e)
  obtain left right l r m where sp: "split_merge merge = Some (left, right)" and
    p: "ix left = Some l" "ix right = Some r" "ix (left @ right) = Some m" and
    u: "u = t((l, r) \<mapsto> (of_nat i, m))"
    using s by (auto simp: merge_step_def e res_simps)
  have "left \<noteq> []" "right \<noteq> []"
    using sp by (auto simp: split_merge_def bind_eq_Some_conv split: if_splits)
  moreover have "unat l < length ps" "ps ! unat l = left" "unat r < length ps" "ps ! unat r = right"
    "unat m < length ps" "ps ! unat m = left @ right"
    using p assms(2) by (simp_all add: piece_index_def)
  ultimately show "merge_table ps u"
    using t unfolding merge_table_def u by (auto split: if_splits)
qed

definition vocab_inv :: "vocab \<Rightarrow> bool" where
  "vocab_inv v \<longleftrightarrow>
     length (types v) = length (pieces v) \<and> piece_index (pieces v) (piece_to_id v) \<and>
     byte_tables (pieces v) (types v) (byte_to_id v) (id_to_byte v) \<and> - 1 \<notin> set (byte_to_id v) \<and>
     special_table (pieces v) (types v) (specials v) \<and>
     sorted_wrt (\<lambda>p q. length (fst p) \<ge> length (fst q)) (specials v) \<and>
     merge_table (pieces v) (merges v)"

definition named_ids_ok :: "vocab \<Rightarrow> bool" where
  "named_ids_ok v \<longleftrightarrow>
     piece_of v (bos v) = Some ''<bos>'' \<and> piece_of v (eos v) = Some ''<eos>'' \<and>
     piece_of v (pad v) = Some ''<pad>'' \<and> piece_of v (unk v) = Some ''<unk>'' \<and>
     piece_of v (eot v) = Some ''<turn|>''"

lemma special_id_ok:
  assumes "special_id m ps key expected = Inr i"
  shows "unat i < length ps \<and> ps ! unat i = expected"
proof -
  obtain x :: u64 where x: "unat x < 2 ^ 32" "unat x < length ps" "ps ! unat x = expected" "i = ucast x"
    using assms by (auto simp: special_id_def res_simps not_le split: if_splits)
  have "unat i = unat x"
    using x(1) by (simp add: x(4) unsigned_ucast_eq take_bit_nat_eq_self)
  then show ?thesis using x by simp
qed

lemma sorted_longest_first:
  "sorted_wrt (\<lambda>p q. length (fst p) \<ge> length (fst q)) (sort_key (\<lambda>(p, _). - int (length p)) xs)"
proof -
  have "sorted_wrt (\<lambda>x y. x \<le> y) (map (\<lambda>(p, _). - int (length p)) (sort_key (\<lambda>(p, _). - int (length p)) xs))"
    using sorted_sort_key [of "\<lambda>(p, _). - int (length p)" xs] by simp
  then show ?thesis
    by (simp add: sorted_wrt_map case_prod_beta)
qed

lemma from_metadata_ok:
  assumes "from_metadata m = Inr v" and "length (pieces v) \<le> 2 ^ 32"
  shows "vocab_inv v \<and> named_ids_ok v"
proof -
  obtain tokens raws b ms tab i1 i2 i3 i4 i5 where
    b: "read_tokens tokens raws = Inr b" "length raws = length tokens" "- 1 \<notin> set (b_byte_to_id b)" and
    tab: "read_merges (b_piece_to_id b) ms = Inr tab" and
    ids: "special_id m (b_pieces b) ''tokenizer.ggml.bos_token_id'' ''<bos>'' = Inr i1"
      "special_id m (b_pieces b) ''tokenizer.ggml.eos_token_id'' ''<eos>'' = Inr i2"
      "special_id m (b_pieces b) ''tokenizer.ggml.padding_token_id'' ''<pad>'' = Inr i3"
      "special_id m (b_pieces b) ''tokenizer.ggml.unknown_token_id'' ''<unk>'' = Inr i4"
      "b_piece_to_id b turn_end_piece = Some i5" and
    v: "v = \<lparr>pieces = b_pieces b, types = b_types b, piece_to_id = b_piece_to_id b, merges = tab,
          byte_to_id = b_byte_to_id b, id_to_byte = b_id_to_byte b,
          specials = sort_key (\<lambda>(p, _). - int (length p)) (b_specials b),
          bos = i1, eos = i2, pad = i3, unk = i4, eot = i5\<rparr>"
    using assms(1) by (auto simp: from_metadata_def res_simps simp del: fold_res.simps split: if_splits)
  have "length tokens \<le> 2 ^ 32"
    using token_loop_pieces [OF b(1) [unfolded read_tokens_def]] assms(2) b(2)
    by (simp add: v build_new_def)
  then have inv: "build_inv (length tokens) b" "b_pieces b = tokens"
    using read_tokens_ok [OF b(1,2)] by simp_all
  have "merge_table (pieces v) (merges v)"
    using read_merges_ok [OF tab] inv by (simp add: v build_inv_def)
  moreover have "special_table (pieces v) (types v) (specials v)"
    using inv by (simp add: v build_inv_def special_table_def)
  ultimately have "vocab_inv v"
    using inv b(3) sorted_longest_first [of "b_specials b"] by (simp add: vocab_inv_def v build_inv_def)
  moreover have "unat i5 < length (b_pieces b) \<and> b_pieces b ! unat i5 = turn_end_piece"
    using ids(5) inv(1) by (simp add: build_inv_def piece_index_def)
  then have "named_ids_ok v"
    using ids(1-4) [THEN special_id_ok]
    by (simp add: named_ids_ok_def piece_of_def v turn_end_piece_def)
  ultimately show ?thesis by simp
qed

subsection \<open>What construction accepts\<close>

definition token_ok :: "string \<times> 32 word \<Rightarrow> bool" where
  "token_ok = (\<lambda>(p, raw). case token_type_from_raw raw of
     None \<Rightarrow> False | Some ty \<Rightarrow> ty = Byte \<longrightarrow> parse_byte_piece p \<noteq> None)"

definition byte_tokens :: "(string \<times> 32 word) list \<Rightarrow> u8 list" where
  "byte_tokens ts = List.map_filter (\<lambda>(p, raw). if raw = 6 then parse_byte_piece p else None) ts"

lemma byte_type: "token_type_from_raw raw = Some Byte \<longleftrightarrow> raw = 6"
  by (simp add: token_type_from_raw_def)

lemma token_step_accepts:
  assumes "build_inv k b" and "p \<notin> set (b_pieces b)" and "token_ok (p, raw)" and "k < 2 ^ 32 - 1"
  shows "\<exists>b'. token_step (k, p, raw) b = Inr b' \<and> build_inv (Suc k) b' \<and>
    b_pieces b' = b_pieces b @ [p] \<and> b_types b' = b_types b @ [the (token_type_from_raw raw)] \<and>
    b_byte_count b' = b_byte_count b + length (byte_tokens [(p, raw)]) \<and>
    (\<forall>x. x \<in> set (byte_tokens [(p, raw)]) \<or> b_byte_to_id b ! unat x \<noteq> - 1 \<longrightarrow>
       b_byte_to_id b' ! unat x \<noteq> - 1)"
proof -
  obtain ty where ty: "token_type_from_raw raw = Some ty" "ty = Byte \<Longrightarrow> parse_byte_piece p \<noteq> None"
    using assms(3) by (auto simp: token_ok_def split: option.splits)
  have k: "k < 2 ^ 32" using assms(4) by simp
  have "b_piece_to_id b p = None"
  proof (rule ccontr)
    assume "b_piece_to_id b p \<noteq> None"
    then obtain i where "b_piece_to_id b p = Some i" by blast
    then have "unat i < length (b_pieces b) \<and> b_pieces b ! unat i = p"
      using assms(1) by (simp add: build_inv_def piece_index_def)
    then show False using assms(2) nth_mem by blast
  qed
  then obtain b' where b': "token_step (k, p, raw) b = Inr b'"
    using ty by (cases "ty = Byte"; cases "ty = Control \<or> ty = UserDefined")
      (auto simp: token_step_def classify_token_def Let_def)
  have new: "(of_nat k :: u32) \<noteq> - 1"
  proof
    assume "(of_nat k :: u32) = - 1"
    then have "unat (of_nat k :: u32) = unat (- 1 :: u32)" by simp
    then show False using assms(4) unat_of_nat_u32 [OF k] by (simp add: unsigned_minus_1_eq_mask mask_eq_exp_minus_1)
  qed
  have len: "length (b_byte_to_id b) = 256"
    using assms(1) by (simp add: build_inv_def byte_tables_def)
  show ?thesis
  proof (cases "ty = Byte")
    case True
    then have r: "raw = 6" using ty(1) byte_type by simp
    obtain x where x: "parse_byte_piece p = Some x" using ty(2) True by blast
    have bt: "byte_tokens [(p, raw)] = [x]" by (simp add: byte_tokens_def map_filter_def r x)
    have "b_byte_to_id b' = (b_byte_to_id b)[unat x := of_nat k]"
      "b_byte_count b' = b_byte_count b + 1" "b_types b' = b_types b @ [Byte]"
      using b' ty(1) x True by (auto simp: token_step_def classify_token_def Let_def split: if_splits)
    then show ?thesis
      using b' token_step_ok [OF b' assms(1) k] new ty(1) True
      by (auto simp: bt len nth_list_update unat_u8_less)
  next
    case False
    then have "raw \<noteq> 6" using ty(1) byte_type [of raw] False by auto
    then have bt: "byte_tokens [(p, raw)] = []" by (simp add: byte_tokens_def map_filter_def)
    have "b_byte_to_id b' = b_byte_to_id b" "b_byte_count b' = b_byte_count b"
      "b_types b' = b_types b @ [ty]"
      using b' ty(1) False by (auto simp: token_step_def classify_token_def Let_def split: if_splits)
    then show ?thesis
      using b' token_step_ok [OF b' assms(1) k] ty(1) by (simp add: bt)
  qed
qed

lemma byte_tokens_Cons: "byte_tokens (t # ts) = byte_tokens [t] @ byte_tokens ts"
  by (simp add: byte_tokens_def map_filter_def)

lemma token_loop_accepts:
  assumes "build_inv k b" and "distinct (b_pieces b @ map fst ts)" and "list_all token_ok ts"
    and "k + length ts < 2 ^ 32"
  shows "\<exists>b'. fold_res token_step (enumerate k ts) b = Inr b' \<and>
    b_types b' = b_types b @ map (\<lambda>t. the (token_type_from_raw (snd t))) ts \<and>
    b_byte_count b' = b_byte_count b + length (byte_tokens ts) \<and>
    (\<forall>x. x \<in> set (byte_tokens ts) \<or> b_byte_to_id b ! unat x \<noteq> - 1 \<longrightarrow>
       b_byte_to_id b' ! unat x \<noteq> - 1)"
  using assms
proof (induction ts arbitrary: k b)
  case Nil
  then show ?case by (simp add: byte_tokens_def map_filter_def)
next
  case (Cons t ts)
  obtain p raw where t: "t = (p, raw)" by (cases t)
  have k: "k < 2 ^ 32 - 1" using Cons.prems(4) by simp
  have "p \<notin> set (b_pieces b)" "token_ok (p, raw)" using Cons.prems(2,3) t by auto
  from token_step_accepts [OF Cons.prems(1) this k] obtain b1 where
    b1: "token_step (k, p, raw) b = Inr b1" "build_inv (Suc k) b1"
      "b_pieces b1 = b_pieces b @ [p]" "b_types b1 = b_types b @ [the (token_type_from_raw raw)]"
      "b_byte_count b1 = b_byte_count b + length (byte_tokens [(p, raw)])"
      "\<forall>x. x \<in> set (byte_tokens [(p, raw)]) \<or> b_byte_to_id b ! unat x \<noteq> - 1 \<longrightarrow>
         b_byte_to_id b1 ! unat x \<noteq> - 1"
    by blast
  have "distinct (b_pieces b1 @ map fst ts)" using Cons.prems(2) b1(3) t by simp
  from Cons.IH [OF b1(2) this] Cons.prems(3,4) obtain b' where
    "fold_res token_step (enumerate (Suc k) ts) b1 = Inr b'"
    "b_types b' = b_types b1 @ map (\<lambda>t. the (token_type_from_raw (snd t))) ts"
    "b_byte_count b' = b_byte_count b1 + length (byte_tokens ts)"
    "\<forall>x. x \<in> set (byte_tokens ts) \<or> b_byte_to_id b1 ! unat x \<noteq> - 1 \<longrightarrow>
       b_byte_to_id b' ! unat x \<noteq> - 1"
    by auto
  then show ?case
    using b1(1,4,5,6) by (intro exI [of _ b']) (simp add: t byte_tokens_Cons [of "(p, raw)" ts])
qed


definition merge_ok :: "string list \<Rightarrow> string \<Rightarrow> bool" where
  "merge_ok tokens merge = (case split_merge merge of
     None \<Rightarrow> False
   | Some (l, r) \<Rightarrow> l \<in> set tokens \<and> r \<in> set tokens \<and> (l @ r) \<in> set tokens)"

lemma piece_index_member: "piece_index ps ix \<Longrightarrow> length ps \<le> 2 ^ 32 \<Longrightarrow> p \<in> set ps \<Longrightarrow> \<exists>i. ix p = Some i"
proof -
  assume ix: "piece_index ps ix" and l: "length ps \<le> 2 ^ 32" and "p \<in> set ps"
  then obtain k where k: "k < length ps" "ps ! k = p" by (auto simp: in_set_conv_nth)
  then have "unat (of_nat k :: u32) = k" using l by (intro unat_of_nat_u32) simp
  then show ?thesis using ix k unfolding piece_index_def by metis
qed

lemma read_merges_accepts:
  assumes "piece_index ps ix" and "length ps \<le> 2 ^ 32" and "list_all (merge_ok ps) ms"
  shows "\<exists>tab. read_merges ix ms = Inr tab"
proof -
  have "\<exists>tab. fold_res (merge_step ix) (enumerate k ms) t = Inr tab" for k t
    using assms(3)
  proof (induction ms arbitrary: k t)
    case (Cons m ms)
    obtain l r where s: "split_merge m = Some (l, r)" "l \<in> set ps" "r \<in> set ps" "l @ r \<in> set ps"
      using Cons.prems by (auto simp: merge_ok_def split: option.splits)
    obtain i j n where "ix l = Some i" "ix r = Some j" "ix (l @ r) = Some n"
      using piece_index_member [OF assms(1,2)] s(2-4) by metis
    then have "merge_step ix (k, m) t = Inr (t((i, j) \<mapsto> (of_nat k, n)))"
      by (simp add: merge_step_def s(1))
    then show ?case using Cons by simp
  qed simp
  then show ?thesis by (simp add: read_merges_def)
qed

definition names_piece :: "metadata \<Rightarrow> string list \<Rightarrow> string \<Rightarrow> string \<Rightarrow> bool" where
  "names_piece m tokens key p = (case require_uint m key of
     Inl _ \<Rightarrow> False
   | Inr i \<Rightarrow> unat i < length tokens \<and> unat i < 2 ^ 32 \<and> tokens ! unat i = p)"

text \<open>A metadata table that describes a tokenizer with these tokens, types and merges.\<close>

definition describes :: "metadata \<Rightarrow> string list \<Rightarrow> 32 word list \<Rightarrow> string list \<Rightarrow> bool" where
  "describes m tokens raws ms \<longleftrightarrow>
     require_str m ''tokenizer.ggml.model'' = Inr ''gemma4'' \<and>
     get_bool m ''tokenizer.ggml.add_bos_token'' \<in> {Inr None, Inr (Some False)} \<and>
     get_bool m ''tokenizer.ggml.add_space_prefix'' \<in> {Inr None, Inr (Some False)} \<and>
     require_str_array m ''tokenizer.ggml.tokens'' = Inr tokens \<and>
     map_sum (\<lambda>_. ()) length (require_f32_array m ''tokenizer.ggml.scores'') = Inr (length tokens) \<and>
     require_i32_array m ''tokenizer.ggml.token_type'' = Inr raws \<and> length raws = length tokens \<and>
     length tokens < 2 ^ 32 \<and> distinct tokens \<and> list_all token_ok (zip tokens raws) \<and>
     length (byte_tokens (zip tokens raws)) = 256 \<and> distinct (byte_tokens (zip tokens raws)) \<and>
     require_str_array m ''tokenizer.ggml.merges'' = Inr ms \<and> list_all (merge_ok tokens) ms \<and>
     names_piece m tokens ''tokenizer.ggml.bos_token_id'' ''<bos>'' \<and>
     names_piece m tokens ''tokenizer.ggml.eos_token_id'' ''<eos>'' \<and>
     names_piece m tokens ''tokenizer.ggml.padding_token_id'' ''<pad>'' \<and>
     names_piece m tokens ''tokenizer.ggml.unknown_token_id'' ''<unk>'' \<and>
     turn_end_piece \<in> set tokens"

lemma all_bytes: "distinct (xs :: u8 list) \<Longrightarrow> length xs = 256 \<Longrightarrow> x \<in> set xs"
proof -
  assume "distinct xs" "length xs = 256"
  then have "card (set xs) = card (UNIV :: u8 set)" by (simp add: distinct_card card_word)
  then have "set xs = UNIV" by (simp add: card_subset_eq)
  then show ?thesis by simp
qed

lemma special_id_accepts: "names_piece m tokens key p \<Longrightarrow> \<exists>i. special_id m tokens key p = Inr i"
  by (auto simp: names_piece_def special_id_def not_le split: sum.splits)

lemma from_metadata_accepts:
  assumes "describes m tokens raws ms"
  shows "\<exists>v. from_metadata m = Inr v \<and> pieces v = tokens \<and>
    types v = map (\<lambda>r. the (token_type_from_raw r)) raws \<and>
    read_merges (piece_to_id v) ms = Inr (merges v)"
proof -
  note d = assms [unfolded describes_def]
  let ?ts = "zip tokens raws"
  have fst: "map fst ?ts = tokens" and snd: "map (\<lambda>t. the (token_type_from_raw (snd t))) ?ts =
      map (\<lambda>r. the (token_type_from_raw r)) raws"
    using d map_snd_zip [of tokens raws]
    by (simp_all add: list_eq_iff_nth_eq)
  obtain b where b: "read_tokens tokens raws = Inr b"
    "b_types b = map (\<lambda>r. the (token_type_from_raw r)) raws" "b_byte_count b = 256"
    "\<forall>x. b_byte_to_id b ! unat (x :: u8) \<noteq> - 1"
    using token_loop_accepts [OF build_inv_new, of ?ts] d fst snd all_bytes
    by (auto simp: read_tokens_def build_new_def)
  have inv: "build_inv (length tokens) b" "b_pieces b = tokens"
    using read_tokens_ok [OF b(1)] d by simp_all
  have full: "- 1 \<notin> set (b_byte_to_id b)"
  proof
    assume "- 1 \<in> set (b_byte_to_id b)"
    then obtain k where k: "k < 256" "b_byte_to_id b ! k = - 1"
      using inv(1) by (auto simp: build_inv_def byte_tables_def in_set_conv_nth)
    then have "unat (of_nat k :: u8) = k" by (simp add: unat_of_nat)
    then show False using b(4) k(2) by metis
  qed
  have ix: "piece_index tokens (b_piece_to_id b)"
    using inv by (simp add: build_inv_def)
  obtain tab where tab: "read_merges (b_piece_to_id b) ms = Inr tab"
    using read_merges_accepts [OF ix] d by auto
  obtain e where e: "b_piece_to_id b turn_end_piece = Some e"
    using piece_index_member [OF ix] d by auto
  obtain i1 i2 i3 i4 where
    "special_id m tokens ''tokenizer.ggml.bos_token_id'' ''<bos>'' = Inr i1"
    "special_id m tokens ''tokenizer.ggml.eos_token_id'' ''<eos>'' = Inr i2"
    "special_id m tokens ''tokenizer.ggml.padding_token_id'' ''<pad>'' = Inr i3"
    "special_id m tokens ''tokenizer.ggml.unknown_token_id'' ''<unk>'' = Inr i4"
    using d special_id_accepts by metis
  moreover obtain scores where "require_f32_array m ''tokenizer.ggml.scores'' = Inr scores"
    "length scores = length tokens"
    using d by (cases "require_f32_array m ''tokenizer.ggml.scores''") auto
  moreover have "fold_res (refuse_flag m)
      [''tokenizer.ggml.add_bos_token'', ''tokenizer.ggml.add_space_prefix''] () = Inr ()"
    using d by (auto simp: refuse_flag_def)
  ultimately show ?thesis
    using d b full tab e inv(2) by (simp add: from_metadata_def del: fold_res.simps)
qed


end
