(* ===== verification/Bpe.thy ===== *)
theory Bpe
  imports Vocab "HOL-Library.Multiset" "HOL-Library.Product_Lexorder"
begin

text \<open>
  \<open>crates/sg-tokenizer/src/bpe.rs\<close>: the merge engine, a doubly linked list of symbols in a
  vector and a min-heap of candidate pairs with lazy deletion. It is shown to compute the
  plain definition of BPE (\<open>bpe_spec\<close>): as long as some adjacent pair has a merge, replace
  the leftmost pair of least rank. The \<open>usize::MAX\<close> sentinel is \<open>None\<close>, an index out of
  range (a panic) is \<open>None\<close> of the operation.
\<close>

subsection \<open>The interface of a min-priority queue\<close>

locale min_queue =
  fixes elems :: "'q \<Rightarrow> ('a :: linorder) multiset"
    and empty :: "'q"
    and push :: "'a \<Rightarrow> 'q \<Rightarrow> 'q"
    and pop :: "'q \<Rightarrow> ('a \<times> 'q) option"
  assumes elems_empty: "elems empty = {#}"
    and elems_push: "elems (push x q) = add_mset x (elems q)"
    and pop_None: "pop q = None \<Longrightarrow> elems q = {#}"
    and pop_elems: "pop q = Some (x, q') \<Longrightarrow> elems q = add_mset x (elems q')"
    and pop_least: "pop q = Some (x, q') \<Longrightarrow> y \<in># elems q' \<Longrightarrow> x \<le> y"
begin

lemma pop_in: "pop q = Some (x, q') \<Longrightarrow> y \<in># elems q \<Longrightarrow> y = x \<or> y \<in># elems q'"
  by (simp add: pop_elems)

lemma pop_min: "pop q = Some (x, q') \<Longrightarrow> y \<in># elems q \<Longrightarrow> x \<le> y"
  using pop_in pop_least by blast

lemma pop_size: "pop q = Some (x, q') \<Longrightarrow> size (elems q') < size (elems q)"
  by (simp add: pop_elems)

lemma in_push: "y \<in># elems (push x q) \<longleftrightarrow> y = x \<or> y \<in># elems q"
  by (simp add: elems_push)

lemma size_push: "size (elems (push x q)) = Suc (size (elems q))"
  by (simp add: elems_push)

end

text \<open>
  \<open>BinaryHeap<Reverse<_>>\<close> of the standard library: only the multiset of its elements and the
  order of their removal are observable. It is kept as a sorted list.
\<close>

typedef (overloaded) 'a heap = "{xs :: ('a :: linorder) list. sorted xs}"
  morphisms list_of_heap Heap
  by (rule exI [of _ "[]"]) simp

setup_lifting type_definition_heap

lift_definition heap_new :: "('a :: linorder) heap" is "[]" by simp

lift_definition heap_push :: "'a :: linorder \<Rightarrow> 'a heap \<Rightarrow> 'a heap" is insort
  by (rule sorted_insort [THEN iffD2])

lift_definition heap_tail :: "('a :: linorder) heap \<Rightarrow> 'a heap" is tl
  by (rule sorted_tl)

definition heap_pop :: "('a :: linorder) heap \<Rightarrow> ('a \<times> 'a heap) option" where
  "heap_pop h = (case list_of_heap h of [] \<Rightarrow> None | x # _ \<Rightarrow> Some (x, heap_tail h))"

definition heap_elems :: "('a :: linorder) heap \<Rightarrow> 'a multiset" where
  "heap_elems h = mset (list_of_heap h)"

interpretation hp: min_queue heap_elems heap_new heap_push heap_pop
proof unfold_locales
  show "heap_elems (heap_new :: 'a heap) = {#}"
    by (simp add: heap_elems_def heap_new.rep_eq)
next
  fix x :: 'a and q
  show "heap_elems (heap_push x q) = add_mset x (heap_elems q)"
    by (simp add: heap_elems_def heap_push.rep_eq)
next
  fix q :: "'a heap"
  assume "heap_pop q = None"
  then show "heap_elems q = {#}"
    by (simp add: heap_pop_def heap_elems_def split: list.splits)
next
  fix q q' :: "'a heap" and x
  assume "heap_pop q = Some (x, q')"
  then show "heap_elems q = add_mset x (heap_elems q')"
    by (auto simp: heap_pop_def heap_elems_def heap_tail.rep_eq split: list.splits)
next
  fix q q' :: "'a heap" and x y
  assume "heap_pop q = Some (x, q')" "y \<in># heap_elems q'"
  then show "x \<le> y"
    using list_of_heap [of q]
    by (auto simp: heap_pop_def heap_elems_def heap_tail.rep_eq split: list.splits)
qed

subsection \<open>Symbols\<close>

record sym =
  sid :: u32
  sprev :: "nat option"
  snext :: "nat option"
  salive :: bool

type_synonym heap_entry = "u32 \<times> nat \<times> u32 \<times> u32"

definition push_sym :: "sym list \<Rightarrow> u32 \<Rightarrow> sym list" where
  "push_sym syms i =
     (let p = length syms;
          linked = (if syms = [] then [] else butlast syms @ [(last syms)\<lparr>snext := Some p\<rparr>])
      in linked @ [\<lparr>sid = i, sprev = (if p = 0 then None else Some (p - 1)), snext = None, salive = True\<rparr>])"

text \<open>U+2581, the character that stands for a space in pieces.\<close>

definition ws_mark :: string where "ws_mark = str_of_bytes [0xE2, 0x96, 0x81]"

text \<open>\<open>str::chars\<close>, each character as its UTF-8 encoding.\<close>

function chars_of :: "string \<Rightarrow> string list" where
  "chars_of s =
     (case utf8_head (bytes_of_str s) of
        Whole n \<Rightarrow> take n s # chars_of (drop n s)
      | _ \<Rightarrow> [])"
  by pat_completeness auto
termination
  by (relation "measure length") (auto dest: utf8_head_Whole)

declare chars_of.simps [simp del]

definition normalize_char :: "string \<Rightarrow> string" where
  "normalize_char ch = (if ch = '' '' then ws_mark else ch)"

definition push_char :: "vocab \<Rightarrow> string \<Rightarrow> sym list \<Rightarrow> sym list" where
  "push_char v ch syms =
     (let piece = normalize_char ch in
      case id_of v piece of
        Some i \<Rightarrow> push_sym syms i
      | None \<Rightarrow> fold (\<lambda>b s. push_sym s (byte_id v b)) (bytes_of_str piece) syms)"

definition initial_syms :: "vocab \<Rightarrow> string \<Rightarrow> sym list" where
  "initial_syms v text = fold (push_char v) (chars_of text) []"

subsection \<open>The merge loop\<close>

definition push_pair :: "vocab \<Rightarrow> sym list \<Rightarrow> nat \<Rightarrow> heap_entry heap \<Rightarrow> heap_entry heap option" where
  "push_pair v syms left heap =
     (if left < length syms then
        (case snext (syms ! left) of
           None \<Rightarrow> Some heap
         | Some right \<Rightarrow>
             if right < length syms then
               (let l = sid (syms ! left); r = sid (syms ! right) in
                case merge_of v l r of
                  Some (rank, _) \<Rightarrow> Some (heap_push (rank, left, l, r) heap)
                | None \<Rightarrow> Some heap)
             else None)
      else None)"

fun push_pairs :: "vocab \<Rightarrow> sym list \<Rightarrow> nat list \<Rightarrow> heap_entry heap \<Rightarrow> heap_entry heap option" where
  "push_pairs v syms [] heap = Some heap"
| "push_pairs v syms (i # is) heap = Option.bind (push_pair v syms i heap) (push_pairs v syms is)"

text \<open>The five statements that merge \<open>right\<close> into \<open>pos\<close>.\<close>

definition unlink :: "sym list \<Rightarrow> nat \<Rightarrow> nat \<Rightarrow> u32 \<Rightarrow> sym list option" where
  "unlink syms p right merged =
     (let after = snext (syms ! right);
          s1 = syms[p := (syms ! p)\<lparr>sid := merged\<rparr>];
          s2 = s1[right := (s1 ! right)\<lparr>salive := False\<rparr>];
          s3 = s2[p := (s2 ! p)\<lparr>snext := after\<rparr>]
      in case after of
           None \<Rightarrow> Some s3
         | Some a \<Rightarrow> if a < length s3 then Some (s3[a := (s3 ! a)\<lparr>sprev := Some p\<rparr>]) else None)"

text \<open>One iteration, on the popped entry: the stale-entry checks, then the merge.\<close>

definition merge_iter :: "vocab \<Rightarrow> heap_entry \<Rightarrow> sym list \<Rightarrow> heap_entry heap \<Rightarrow>
    (sym list \<times> heap_entry heap) option" where
  "merge_iter v = (\<lambda>(rank, p, l, r) syms heap.
     if p \<ge> length syms then None
     else if \<not> salive (syms ! p) \<or> sid (syms ! p) \<noteq> l then Some (syms, heap)
     else case snext (syms ! p) of
       None \<Rightarrow> Some (syms, heap)
     | Some right \<Rightarrow>
         if right \<ge> length syms then None
         else if sid (syms ! right) \<noteq> r then Some (syms, heap)
         else case merge_of v l r of
           None \<Rightarrow> Some (syms, heap)
         | Some (cur_rank, merged) \<Rightarrow>
             if cur_rank \<noteq> rank then Some (syms, heap)
             else
               Option.bind (unlink syms p right merged) (\<lambda>syms'.
               Option.bind
                 (case sprev (syms' ! p) of
                    None \<Rightarrow> Some heap
                  | Some q \<Rightarrow> push_pair v syms' q heap) (\<lambda>heap1.
               Option.bind (push_pair v syms' p heap1) (\<lambda>heap2.
               Some (syms', heap2)))))"

text \<open>\<open>None\<close> would mean that the loop panics or does not end.\<close>

partial_function (option) merge_loop :: "vocab \<Rightarrow> sym list \<Rightarrow> heap_entry heap \<Rightarrow> sym list option" where
  "merge_loop v syms heap =
     (case heap_pop heap of
        None \<Rightarrow> Some syms
      | Some (e, heap') \<Rightarrow>
          Option.bind (merge_iter v e syms heap') (\<lambda>(syms', heap''). merge_loop v syms' heap''))"

definition encode_segment :: "vocab \<Rightarrow> string \<Rightarrow> u32 list \<Rightarrow> u32 list option" where
  "encode_segment v text out =
     (if text = [] then Some out
      else
        let syms = initial_syms v text in
        Option.bind (push_pairs v syms [0..<length syms - 1] heap_new) (\<lambda>heap.
        Option.bind (merge_loop v syms heap) (\<lambda>syms'.
        Some (out @ map sid (filter salive syms')))))"

subsection \<open>Specification\<close>

definition candidates :: "vocab \<Rightarrow> u32 list \<Rightarrow> (u32 \<times> nat \<times> u32) list" where
  "candidates v ids = List.map_filter
     (\<lambda>k. map_option (\<lambda>(rank, m). (rank, k, m)) (merge_of v (ids ! k) (ids ! Suc k)))
     [0..<length ids - 1]"

text \<open>The pair of least rank, the leftmost of them, with its merged id.\<close>

definition best_pair :: "vocab \<Rightarrow> u32 list \<Rightarrow> (u32 \<times> nat \<times> u32) option" where
  "best_pair v ids = (case candidates v ids of [] \<Rightarrow> None | cs \<Rightarrow> Some (Min (set cs)))"

lemma in_candidates:
  "(rank, k, m) \<in> set (candidates v ids) \<longleftrightarrow>
     Suc k < length ids \<and> merge_of v (ids ! k) (ids ! Suc k) = Some (rank, m)"
  by (auto simp: candidates_def map_filter_def image_iff) force

lemma best_pair_alt:
  "best_pair v ids = (if candidates v ids = [] then None else Some (Min (set (candidates v ids))))"
  by (cases "candidates v ids") (simp_all add: best_pair_def)

lemma best_pair_in: "best_pair v ids = Some c \<Longrightarrow> c \<in> set (candidates v ids)"
  using Min_in [of "set (candidates v ids)"] by (auto simp: best_pair_alt split: if_splits)

lemma best_pair_eqI:
  assumes "(rank, k, m) \<in> set (candidates v ids)"
    and "\<And>rank' k' m'. (rank', k', m') \<in> set (candidates v ids) \<Longrightarrow> rank < rank' \<or> rank = rank' \<and> k \<le> k'"
  shows "best_pair v ids = Some (rank, k, m)"
proof -
  have "Min (set (candidates v ids)) = (rank, k, m)"
  proof (rule Min_eqI)
    fix y assume y: "y \<in> set (candidates v ids)"
    obtain rank' k' m' where e: "y = (rank', k', m')" by (cases y)
    have "m' = m" if "rank' = rank" "k' = k"
      using y assms(1) that by (simp add: e in_candidates)
    then show "(rank, k, m) \<le> y"
      using assms(2) [OF y [unfolded e]] by (auto simp: e less_eq_prod_def)
  qed (use assms(1) in simp_all)
  then show ?thesis using assms(1) by (auto simp: best_pair_def split: list.splits)
qed

lemma best_pair_None: "best_pair v ids = None \<longleftrightarrow> candidates v ids = []"
  by (simp add: best_pair_def split: list.splits)

function bpe_spec :: "vocab \<Rightarrow> u32 list \<Rightarrow> u32 list" where
  "bpe_spec v ids =
     (case best_pair v ids of
        None \<Rightarrow> ids
      | Some (rank, k, m) \<Rightarrow> bpe_spec v (take k ids @ m # drop (Suc (Suc k)) ids))"
  by pat_completeness auto
termination
  by (relation "measure (\<lambda>(v, ids). length ids)") (auto dest!: best_pair_in simp: in_candidates)

declare bpe_spec.simps [simp del]

definition initial_ids :: "vocab \<Rightarrow> string \<Rightarrow> u32 list" where
  "initial_ids v text = concat (map
     (\<lambda>ch. case id_of v (normalize_char ch) of
        Some i \<Rightarrow> [i]
      | None \<Rightarrow> map (byte_id v) (bytes_of_str (normalize_char ch)))
     (chars_of text))"

subsection \<open>The linked list\<close>

text \<open>\<open>ps\<close> are the positions of the live symbols, in order; the links follow it both ways.\<close>

definition linked :: "sym list \<Rightarrow> nat list \<Rightarrow> bool" where
  "linked syms ps \<longleftrightarrow> sorted_wrt (<) ps \<and>
     (\<forall>i. i \<in> set ps \<longleftrightarrow> i < length syms \<and> salive (syms ! i)) \<and>
     (\<forall>k < length ps.
        snext (syms ! (ps ! k)) = (if Suc k < length ps then Some (ps ! Suc k) else None) \<and>
        sprev (syms ! (ps ! k)) = (if k = 0 then None else Some (ps ! (k - 1))))"

abbreviation ids_at :: "sym list \<Rightarrow> nat list \<Rightarrow> u32 list" where
  "ids_at syms ps \<equiv> map (\<lambda>i. sid (syms ! i)) ps"

lemma linked_alive: "linked syms ps \<Longrightarrow> filter (\<lambda>i. salive (syms ! i)) [0..<length syms] = ps"
proof (rule sorted_distinct_set_unique)
  assume l: "linked syms ps"
  then show "sorted ps" "distinct ps"
    by (auto simp: linked_def strict_sorted_iff)
  show "set (filter (\<lambda>i. salive (syms ! i)) [0..<length syms]) = set ps"
    using l by (auto simp: linked_def)
qed (simp_all add: sorted_wrt_filter)

lemma filter_alive: "map sid (filter salive syms) =
    ids_at syms (filter (\<lambda>i. salive (syms ! i)) [0..<length syms])"
proof -
  have "filter salive syms = filter salive (map ((!) syms) [0..<length syms])"
    by (simp only: map_nth)
  then show ?thesis by (simp add: filter_map comp_def)
qed

lemma length_push_sym [simp]: "length (push_sym syms i) = Suc (length syms)"
  by (cases syms rule: rev_cases) (simp_all add: push_sym_def)

lemma nth_push_sym:
  "k < length syms \<Longrightarrow> push_sym syms i ! k =
     (if Suc k = length syms then (syms ! k)\<lparr>snext := Some (length syms)\<rparr> else syms ! k)"
  "push_sym syms i ! length syms =
     \<lparr>sid = i, sprev = (if syms = [] then None else Some (length syms - 1)), snext = None, salive = True\<rparr>"
  by (cases syms rule: rev_cases; auto simp: push_sym_def nth_append)+

text \<open>A freshly built list: every symbol alive, linked to its neighbours.\<close>

definition fresh :: "sym list \<Rightarrow> bool" where
  "fresh syms \<longleftrightarrow> (\<forall>k < length syms. salive (syms ! k) \<and>
     snext (syms ! k) = (if Suc k < length syms then Some (Suc k) else None) \<and>
     sprev (syms ! k) = (if k = 0 then None else Some (k - 1)))"

lemma fresh_linked: "fresh syms \<Longrightarrow> linked syms [0..<length syms]"
  by (auto simp: fresh_def linked_def sorted_wrt_upt)

lemma fresh_push_sym: "fresh syms \<Longrightarrow> fresh (push_sym syms i)"
  unfolding fresh_def
proof (intro allI impI)
  fix k
  assume fr: "\<forall>k < length syms. salive (syms ! k) \<and>
     snext (syms ! k) = (if Suc k < length syms then Some (Suc k) else None) \<and>
     sprev (syms ! k) = (if k = 0 then None else Some (k - 1))"
    and k: "k < length (push_sym syms i)"
  show "salive (push_sym syms i ! k) \<and>
     snext (push_sym syms i ! k) = (if Suc k < length (push_sym syms i) then Some (Suc k) else None) \<and>
     sprev (push_sym syms i ! k) = (if k = 0 then None else Some (k - 1))"
  proof (cases "k = length syms")
    case True
    then show ?thesis by (auto simp: nth_push_sym(2))
  next
    case False
    then have "k < length syms" using k by simp
    then show ?thesis using fr by (auto simp: nth_push_sym(1))
  qed
qed

lemma sids_push_sym: "map sid (push_sym syms i) = map sid syms @ [i]"
  by (cases syms rule: rev_cases) (simp_all add: push_sym_def)

lemma push_char_ids:
  "fresh syms \<Longrightarrow> fresh (push_char v ch syms) \<and> map sid (push_char v ch syms) = map sid syms @
     (case id_of v (normalize_char ch) of
        Some i \<Rightarrow> [i]
      | None \<Rightarrow> map (byte_id v) (bytes_of_str (normalize_char ch)))"
proof -
  have bytes: "fresh syms \<Longrightarrow> fresh (fold (\<lambda>b s. push_sym s (byte_id v b)) bs syms) \<and>
      map sid (fold (\<lambda>b s. push_sym s (byte_id v b)) bs syms) = map sid syms @ map (byte_id v) bs" for bs syms
    by (induction bs arbitrary: syms) (simp_all add: fresh_push_sym sids_push_sym)
  assume "fresh syms"
  then show ?thesis
    using bytes [of syms "bytes_of_str (normalize_char ch)"]
    by (simp add: push_char_def Let_def fresh_push_sym sids_push_sym split: option.splits)
qed

lemma initial_syms_ok: "fresh (initial_syms v text)" "map sid (initial_syms v text) = initial_ids v text"
proof -
  have "fresh syms \<Longrightarrow> fresh (fold (push_char v) cs syms) \<and>
      map sid (fold (push_char v) cs syms) = map sid syms @ concat (map
        (\<lambda>ch. case id_of v (normalize_char ch) of
            Some i \<Rightarrow> [i]
          | None \<Rightarrow> map (byte_id v) (bytes_of_str (normalize_char ch))) cs)" for cs syms
    by (induction cs arbitrary: syms) (simp_all add: push_char_ids)
  from this [of "[]" "chars_of text"]
  show "fresh (initial_syms v text)" "map sid (initial_syms v text) = initial_ids v text"
    by (simp_all add: initial_syms_def initial_ids_def fresh_def)
qed

subsection \<open>One merge\<close>

lemma linkedD:
  assumes "linked syms ps" and "k < length ps"
  shows "ps ! k < length syms" "salive (syms ! (ps ! k))"
    and "snext (syms ! (ps ! k)) = (if Suc k < length ps then Some (ps ! Suc k) else None)"
    and "sprev (syms ! (ps ! k)) = (if k = 0 then None else Some (ps ! (k - 1)))"
  using assms unfolding linked_def by (metis nth_mem)+

lemma linked_distinct: "linked syms ps \<Longrightarrow> distinct ps"
  by (simp add: linked_def strict_sorted_iff)

lemma linked_mono:
  "linked syms ps \<Longrightarrow> i < length ps \<Longrightarrow> j < length ps \<Longrightarrow> ps ! i \<le> ps ! j \<longleftrightarrow> i \<le> j"
  by (metis linked_def linorder_not_le order.order_iff_strict sorted_wrt_nth_less not_le_imp_less)

lemma nth_drop_one:
  "i < length ps - 1 \<Longrightarrow> Suc k < length ps \<Longrightarrow>
     (take (Suc k) ps @ drop (Suc (Suc k)) ps) ! i = (if i \<le> k then ps ! i else ps ! Suc i)"
  by (auto simp: nth_append min_def)

lemma unlink_nth:
  assumes "p < length syms" and "r < length syms" and "p \<noteq> r"
    and "\<And>a. snext (syms ! r) = Some a \<Longrightarrow> a < length syms \<and> a \<noteq> p \<and> a \<noteq> r"
  obtains syms' where "unlink syms p r m = Some syms'" "length syms' = length syms"
    "\<And>i. i < length syms \<Longrightarrow> sid (syms' ! i) = (if i = p then m else sid (syms ! i))"
    "\<And>i. i < length syms \<Longrightarrow> salive (syms' ! i) = (i \<noteq> r \<and> salive (syms ! i))"
    "\<And>i. i < length syms \<Longrightarrow> snext (syms' ! i) = (if i = p then snext (syms ! r) else snext (syms ! i))"
    "\<And>i. i < length syms \<Longrightarrow>
       sprev (syms' ! i) = (if snext (syms ! r) = Some i then Some p else sprev (syms ! i))"
proof (cases "snext (syms ! r)")
  case None
  show ?thesis
    by (rule that [of "the (unlink syms p r m)"])
      (use None assms in \<open>auto simp: unlink_def Let_def nth_list_update\<close>)
next
  case (Some a)
  then have a: "a < length syms" "a \<noteq> p" "a \<noteq> r" using assms(4) by simp_all
  show ?thesis
    by (rule that [of "the (unlink syms p r m)"])
      (use Some a assms in \<open>auto simp: unlink_def Let_def nth_list_update\<close>)
qed

lemma unlink_linked:
  assumes l: "linked syms ps" and k: "Suc k < length ps"
  obtains syms' where "unlink syms (ps ! k) (ps ! Suc k) m = Some syms'" "length syms' = length syms"
    "linked syms' (take (Suc k) ps @ drop (Suc (Suc k)) ps)"
    "ids_at syms' (take (Suc k) ps @ drop (Suc (Suc k)) ps) =
       take k (ids_at syms ps) @ m # drop (Suc (Suc k)) (ids_at syms ps)"
proof -
  let ?p = "ps ! k" and ?r = "ps ! Suc k" and ?ps = "take (Suc k) ps @ drop (Suc (Suc k)) ps"
  have ne0: "ps \<noteq> []" using k by auto
  note d = linkedD [OF l] and eq = nth_eq_iff_index_eq [OF linked_distinct [OF l]]
  have nx: "snext (syms ! ?r) = (if Suc (Suc k) < length ps then Some (ps ! Suc (Suc k)) else None)"
    by (rule d(3) [OF k])
  have ne: "?p < length syms" "?r < length syms" "?p \<noteq> ?r"
    using k d(1) [of k] d(1) [OF k] eq [of k "Suc k"] by auto
  have af: "a < length syms \<and> a \<noteq> ?p \<and> a \<noteq> ?r" if "snext (syms ! ?r) = Some a" for a
    using that k d(1) [of "Suc (Suc k)"] eq [of "Suc (Suc k)" k] eq [of "Suc (Suc k)" "Suc k"] nx
    by (auto split: if_splits)
  obtain syms' where u: "unlink syms ?p ?r m = Some syms'" "length syms' = length syms"
    "\<And>i. i < length syms \<Longrightarrow> sid (syms' ! i) = (if i = ?p then m else sid (syms ! i))"
    "\<And>i. i < length syms \<Longrightarrow> salive (syms' ! i) = (i \<noteq> ?r \<and> salive (syms ! i))"
    "\<And>i. i < length syms \<Longrightarrow> snext (syms' ! i) = (if i = ?p then snext (syms ! ?r) else snext (syms ! i))"
    "\<And>i. i < length syms \<Longrightarrow>
       sprev (syms' ! i) = (if snext (syms ! ?r) = Some i then Some ?p else sprev (syms ! i))"
    using unlink_nth [OF ne af] by blast
  have len: "length ?ps = length ps - 1" using k by simp
  have nth: "?ps ! i = (if i \<le> k then ps ! i else ps ! Suc i)" if "i < length ps - 1" for i
    by (rule nth_drop_one [OF that k])
  have set: "set ?ps = set ps - {?r}"
  proof -
    have "ps = take (Suc k) ps @ ?r # drop (Suc (Suc k)) ps" using k by (rule id_take_nth_drop)
    moreover have "distinct ps" by (rule linked_distinct [OF l])
    ultimately have "set ps = insert ?r (set ?ps)" "?r \<notin> set ?ps"
      by (metis Un_insert_right list.simps(15) set_append)
        (metis \<open>ps = _\<close> \<open>distinct ps\<close> not_distinct_conv_prefix distinct_append disjoint_insert(1) list.simps(15) Un_iff set_append distinct.simps(2))
    then show ?thesis by auto
  qed
  have f: "sid (syms' ! (ps ! j)) = (if j = k then m else sid (syms ! (ps ! j)))"
    "snext (syms' ! (ps ! j)) = (if j = k then snext (syms ! ?r) else snext (syms ! (ps ! j)))"
    "sprev (syms' ! (ps ! j)) = (if j = Suc (Suc k) then Some ?p else sprev (syms ! (ps ! j)))"
    if "j < length ps" for j
    using that k u(3,5,6) [OF d(1) [OF that]] eq [of j k] eq [of "Suc (Suc k)" j] nx by auto
  have "linked syms' ?ps"
    unfolding linked_def
  proof (intro conjI allI impI)
    have "ps = take (Suc k) ps @ ?r # drop (Suc (Suc k)) ps" using k by (rule id_take_nth_drop)
    then show "sorted_wrt (<) ?ps"
      using l unfolding linked_def by (metis (no_types, lifting) sorted_wrt_append list.set_intros(2) sorted_wrt.simps(2))
  next
    fix i
    show "i \<in> set ?ps \<longleftrightarrow> i < length syms' \<and> salive (syms' ! i)"
      using l unfolding set u(2) linked_def by (auto simp: u(4))
  next
    fix i assume i: "i < length ?ps"
    then have i': "i < length ps - 1" using len by simp
    show "snext (syms' ! (?ps ! i)) = (if Suc i < length ?ps then Some (?ps ! Suc i) else None)"
      using i' k nx d(3) [of i] d(3) [of "Suc i"]
      by (cases "i = k") (auto simp: f(2) nth len)
    show "sprev (syms' ! (?ps ! i)) = (if i = 0 then None else Some (?ps ! (i - 1)))"
      using i' k ne0 d(4) [of i] d(4) [of "Suc i"]
      by (cases "i = 0") (auto simp: f(3) nth len le_Suc_eq not_le)
  qed
  moreover have "ids_at syms' ?ps = take k (ids_at syms ps) @ m # drop (Suc (Suc k)) (ids_at syms ps)"
    (is "_ = ?ids")
  proof (rule nth_equalityI)
    show "length (ids_at syms' ?ps) = length ?ids" using k by simp
    fix i assume "i < length (ids_at syms' ?ps)"
    then have i: "i < length ps - 1" using len by simp
    have "ids_at syms' ?ps ! i = sid (syms' ! (?ps ! i))" using i len by (simp only: nth_map length_map)
    also have "\<dots> = ?ids ! i"
      using i k by (auto simp: f(1) nth nth_append nth_Cons' min_def)
    finally show "ids_at syms' ?ps ! i = ?ids ! i" .
  qed
  ultimately show thesis using that u(1,2) by blast
qed


subsection \<open>The heap covers every mergeable pair\<close>

definition covers :: "vocab \<Rightarrow> sym list \<Rightarrow> nat list \<Rightarrow> heap_entry heap \<Rightarrow> bool" where
  "covers v syms ps q \<longleftrightarrow>
     (\<forall>e. e \<in># heap_elems q \<longrightarrow> fst (snd e) < length syms) \<and>
     (\<forall>k rank m. Suc k < length ps \<longrightarrow>
        merge_of v (sid (syms ! (ps ! k))) (sid (syms ! (ps ! Suc k))) = Some (rank, m) \<longrightarrow>
        (rank, ps ! k, sid (syms ! (ps ! k)), sid (syms ! (ps ! Suc k))) \<in># heap_elems q)"

text \<open>What \<open>push_pair\<close> does to the heap at the \<open>k\<close>-th live position.\<close>

definition pushed :: "vocab \<Rightarrow> sym list \<Rightarrow> nat list \<Rightarrow> nat \<Rightarrow> heap_entry heap \<Rightarrow> heap_entry heap \<Rightarrow> bool" where
  "pushed v syms ps k q q' \<longleftrightarrow>
     size (heap_elems q') \<le> Suc (size (heap_elems q)) \<and>
     (\<forall>e. e \<in># heap_elems q \<longrightarrow> e \<in># heap_elems q') \<and>
     (\<forall>e. e \<in># heap_elems q' \<longrightarrow> e \<in># heap_elems q \<or> fst (snd e) = ps ! k) \<and>
     (\<forall>rank m. Suc k < length ps \<longrightarrow>
        merge_of v (sid (syms ! (ps ! k))) (sid (syms ! (ps ! Suc k))) = Some (rank, m) \<longrightarrow>
        (rank, ps ! k, sid (syms ! (ps ! k)), sid (syms ! (ps ! Suc k))) \<in># heap_elems q')"

lemma push_pair_ok:
  assumes "linked syms ps" and "k < length ps"
  shows "\<exists>q'. push_pair v syms (ps ! k) q = Some q' \<and> pushed v syms ps k q q'"
proof (cases "Suc k < length ps \<and> merge_of v (sid (syms ! (ps ! k))) (sid (syms ! (ps ! Suc k))) \<noteq> None")
  case True
  then obtain rank m where m: "merge_of v (sid (syms ! (ps ! k))) (sid (syms ! (ps ! Suc k))) = Some (rank, m)"
    by auto
  show ?thesis
    by (rule exI [of _ "heap_push (rank, ps ! k, sid (syms ! (ps ! k)), sid (syms ! (ps ! Suc k))) q"])
      (use True m assms linkedD [OF assms] linkedD(1) [OF assms(1), of "Suc k"] in
        \<open>auto simp: push_pair_def pushed_def Let_def hp.in_push hp.size_push\<close>)
next
  case False
  show ?thesis
    by (rule exI [of _ q])
      (use False assms linkedD [OF assms] linkedD(1) [OF assms(1), of "Suc k"] in
        \<open>auto simp: push_pair_def pushed_def Let_def split: option.splits\<close>)
qed

lemma seed_ok:
  assumes "linked syms [0..<length syms]" and "a + n = length syms - 1"
    and "\<forall>e. e \<in># heap_elems q \<longrightarrow> fst (snd e) < length syms"
    and "\<forall>k < a. \<forall>rank m. merge_of v (sid (syms ! k)) (sid (syms ! Suc k)) = Some (rank, m) \<longrightarrow>
       (rank, k, sid (syms ! k), sid (syms ! Suc k)) \<in># heap_elems q"
  shows "\<exists>q'. push_pairs v syms [a..<a + n] q = Some q' \<and> covers v syms [0..<length syms] q'"
  using assms(2-4)
proof (induction n arbitrary: a q)
  case 0
  then show ?case by (auto simp: covers_def)
next
  case (Suc n)
  have a: "a < length [0..<length syms]" "Suc a < length syms" using Suc.prems(1) by auto
  then have nth: "[0..<length syms] ! a = a" "[0..<length syms] ! Suc a = Suc a" by simp_all
  obtain q1 where p: "push_pair v syms a q = Some q1" "pushed v syms [0..<length syms] a q q1"
    using push_pair_ok [OF assms(1) a(1), of v q] unfolding nth by blast
  have q1: "\<And>e. e \<in># heap_elems q \<Longrightarrow> e \<in># heap_elems q1"
    "\<And>e. e \<in># heap_elems q1 \<Longrightarrow> e \<in># heap_elems q \<or> fst (snd e) = a"
    "\<And>rank m. merge_of v (sid (syms ! a)) (sid (syms ! Suc a)) = Some (rank, m) \<Longrightarrow>
       (rank, a, sid (syms ! a), sid (syms ! Suc a)) \<in># heap_elems q1"
    using p(2) a(2) unfolding pushed_def nth by (simp_all del: split_paired_All)
  have "\<exists>q'. push_pairs v syms [Suc a..<Suc a + n] q1 = Some q' \<and> covers v syms [0..<length syms] q'"
  proof (rule Suc.IH)
    show "Suc a + n = length syms - 1" using Suc.prems(1) by simp
    show "\<forall>e. e \<in># heap_elems q1 \<longrightarrow> fst (snd e) < length syms"
      using q1(2) Suc.prems(2) a(2) by (metis Suc_lessD)
    show "\<forall>k < Suc a. \<forall>rank m. merge_of v (sid (syms ! k)) (sid (syms ! Suc k)) = Some (rank, m) \<longrightarrow>
       (rank, k, sid (syms ! k), sid (syms ! Suc k)) \<in># heap_elems q1"
      using q1(1,3) Suc.prems(3) by (auto simp: less_Suc_eq)
  qed
  moreover have "[a..<a + Suc n] = a # [Suc a..<Suc a + n]" by (simp add: upt_conv_Cons del: upt_Suc)
  ultimately show ?case using p(1) by (simp del: upt_Suc)
qed

text \<open>The popped entry, if it is still valid, is the pair the specification merges next.\<close>

lemma popped_is_best:
  assumes l: "linked syms ps" and c: "covers v syms ps q" and pop: "heap_pop q = Some (e, q')"
    and k: "Suc k < length ps"
    and m: "merge_of v (sid (syms ! (ps ! k))) (sid (syms ! (ps ! Suc k))) = Some (rank, m)"
    and e: "e = (rank, ps ! k, sid (syms ! (ps ! k)), sid (syms ! (ps ! Suc k)))"
  shows "best_pair v (ids_at syms ps) = Some (rank, k, m)"
proof (rule best_pair_eqI)
  show "(rank, k, m) \<in> set (candidates v (ids_at syms ps))"
    using k m by (simp add: in_candidates)
  fix rank' k' m'
  assume "(rank', k', m') \<in> set (candidates v (ids_at syms ps))"
  then have k': "Suc k' < length ps"
    "merge_of v (sid (syms ! (ps ! k'))) (sid (syms ! (ps ! Suc k'))) = Some (rank', m')"
    by (auto simp: in_candidates)
  then have "(rank', ps ! k', sid (syms ! (ps ! k')), sid (syms ! (ps ! Suc k'))) \<in># heap_elems q"
    using c unfolding covers_def by blast
  then have "e \<le> (rank', ps ! k', sid (syms ! (ps ! k')), sid (syms ! (ps ! Suc k')))"
    by (rule hp.pop_min [OF pop])
  then have "rank < rank' \<or> rank = rank' \<and> ps ! k \<le> ps ! k'"
    by (auto simp: e less_eq_prod_def split: if_splits)
  then show "rank < rank' \<or> rank = rank' \<and> k \<le> k'"
    using linked_mono [OF l, of k k'] k k' by auto
qed

text \<open>A stale entry can be dropped.\<close>

lemma covers_drop:
  assumes "covers v syms ps q" and "heap_pop q = Some (e, q')"
    and "\<And>k rank m. Suc k < length ps \<Longrightarrow>
      merge_of v (sid (syms ! (ps ! k))) (sid (syms ! (ps ! Suc k))) = Some (rank, m) \<Longrightarrow>
      e \<noteq> (rank, ps ! k, sid (syms ! (ps ! k)), sid (syms ! (ps ! Suc k)))"
  shows "covers v syms ps q'"
  unfolding covers_def
proof (intro conjI allI impI)
  fix x assume "x \<in># heap_elems q'"
  then have "x \<in># heap_elems q" using hp.pop_elems [OF assms(2)] by simp
  then show "fst (snd x) < length syms"
    using assms(1) unfolding covers_def by blast
next
  fix k rank m
  assume k: "Suc k < length ps"
    and m: "merge_of v (sid (syms ! (ps ! k))) (sid (syms ! (ps ! Suc k))) = Some (rank, m)"
  then have "(rank, ps ! k, sid (syms ! (ps ! k)), sid (syms ! (ps ! Suc k))) \<in># heap_elems q"
    using assms(1) unfolding covers_def by blast
  then show "(rank, ps ! k, sid (syms ! (ps ! k)), sid (syms ! (ps ! Suc k))) \<in># heap_elems q'"
    using hp.pop_in [OF assms(2)] assms(3) [OF k m] by blast
qed

lemma linked_index: "linked syms ps \<Longrightarrow> i < length syms \<Longrightarrow> salive (syms ! i) \<Longrightarrow> \<exists>k < length ps. ps ! k = i"
  unfolding linked_def by (metis in_set_conv_nth)

text \<open>One iteration either drops a stale entry or performs the merge of the specification.\<close>

lemma merge_step_ok:
  assumes l: "linked syms ps" and c: "covers v syms ps q" and pop: "heap_pop q = Some (e, q')"
    and k: "Suc k < length ps"
    and m: "merge_of v (sid (syms ! (ps ! k))) (sid (syms ! (ps ! Suc k))) = Some (rank, m)"
    and e: "e = (rank, ps ! k, sid (syms ! (ps ! k)), sid (syms ! (ps ! Suc k)))"
  obtains syms' ps' q'' where "merge_iter v e syms q' = Some (syms', q'')"
    "linked syms' ps'" "covers v syms' ps' q''" "length ps' < length ps"
    "ids_at syms' ps' = take k (ids_at syms ps) @ m # drop (Suc (Suc k)) (ids_at syms ps)"
    "size (heap_elems q'') \<le> size (heap_elems q') + 2"
proof -
  let ?ps = "take (Suc k) ps @ drop (Suc (Suc k)) ps"
  obtain s where s: "unlink syms (ps ! k) (ps ! Suc k) m = Some s" "length s = length syms"
    "linked s ?ps" "ids_at s ?ps = take k (ids_at syms ps) @ m # drop (Suc (Suc k)) (ids_at syms ps)"
    by (rule unlink_linked [OF l k])
  have len: "length ?ps = length ps - 1" using k by simp
  have nth: "?ps ! i = (if i \<le> k then ps ! i else ps ! Suc i)" if "i < length ps - 1" for i
    by (rule nth_drop_one [OF that k])
  have pk: "?ps ! k = ps ! k" "k < length ?ps" using k nth [of k] by simp_all
  have sid: "sid (s ! (?ps ! i)) = (if i < k then sid (syms ! (ps ! i)) else if i = k then m
      else sid (syms ! (ps ! Suc i)))" if "i < length ps - 1" for i
  proof -
    have "sid (s ! (?ps ! i)) = ids_at s ?ps ! i" using that len by (simp only: nth_map)
    then show ?thesis using that k unfolding s(4) by (auto simp: nth_append nth_Cons' min_def)
  qed
  obtain q1 where q1: "(case sprev (s ! (ps ! k)) of None \<Rightarrow> Some q' | Some j \<Rightarrow> push_pair v s j q') = Some q1"
    "size (heap_elems q1) \<le> Suc (size (heap_elems q'))"
    "\<And>e. e \<in># heap_elems q' \<Longrightarrow> e \<in># heap_elems q1"
    "\<And>e. e \<in># heap_elems q1 \<Longrightarrow> e \<in># heap_elems q' \<or> fst (snd e) < length s"
    "\<And>rank m'. k \<noteq> 0 \<Longrightarrow> merge_of v (sid (s ! (?ps ! (k - 1)))) (sid (s ! (?ps ! k))) = Some (rank, m') \<Longrightarrow>
       (rank, ?ps ! (k - 1), sid (s ! (?ps ! (k - 1))), sid (s ! (?ps ! k))) \<in># heap_elems q1"
  proof (cases k)
    case 0
    then have "sprev (s ! (ps ! k)) = None" using linkedD(4) [OF s(3) pk(2)] pk(1) by simp
    then show thesis using that [of q'] 0 by simp
  next
    case (Suc j)
    then have j: "j < length ?ps" "Suc j < length ?ps" using k len by auto
    have "sprev (s ! (ps ! k)) = Some (?ps ! j)" using linkedD(4) [OF s(3) pk(2)] pk(1) Suc by simp
    moreover obtain q1 where "push_pair v s (?ps ! j) q' = Some q1" "pushed v s ?ps j q' q1"
      using push_pair_ok [OF s(3) j(1), of v q'] by blast
    ultimately show thesis
      using that [of q1] linkedD(1) [OF s(3) j(1)] j(2) Suc
      unfolding pushed_def by (simp del: split_paired_All) (metis Suc)
  qed
  obtain q2 where p2: "push_pair v s (?ps ! k) q1 = Some q2" "pushed v s ?ps k q1 q2"
    using push_pair_ok [OF s(3) pk(2), of v q1] by blast
  note q2 = p2(1) p2(2) [unfolded pushed_def, THEN conjunct1]
    p2(2) [unfolded pushed_def, THEN conjunct2, THEN conjunct1, rule_format]
    p2(2) [unfolded pushed_def, THEN conjunct2, THEN conjunct2, THEN conjunct1, rule_format]
    p2(2) [unfolded pushed_def, THEN conjunct2, THEN conjunct2, THEN conjunct2, rule_format]
  have "merge_iter v e syms q' = Some (s, q2)"
    using linkedD [OF l, of k] linkedD(1) [OF l k] k m s(1) q1(1) q2(1) pk(1)
    by (simp add: merge_iter_def e)
  moreover have "covers v s ?ps q2"
    unfolding covers_def
  proof (intro conjI allI impI)
    fix x assume "x \<in># heap_elems q2"
    then have "x \<in># heap_elems q' \<or> fst (snd x) < length s"
      using q2(4) [of x] q1(4) [of x] linkedD(1) [OF s(3) pk(2)] by auto
    moreover have "fst (snd x) < length syms" if "x \<in># heap_elems q'"
      using c that hp.pop_elems [OF pop] unfolding covers_def by (metis union_iff add_mset_add_single)
    ultimately show "fst (snd x) < length s" using s(2) by auto
  next
    fix i rank' m'
    assume i: "Suc i < length ?ps"
      and m': "merge_of v (sid (s ! (?ps ! i))) (sid (s ! (?ps ! Suc i))) = Some (rank', m')"
    have il: "i < length ps - 1" "Suc i < length ps - 1" using i len by auto
    show "(rank', ?ps ! i, sid (s ! (?ps ! i)), sid (s ! (?ps ! Suc i))) \<in># heap_elems q2"
    proof (cases "i = k \<or> Suc i = k")
      case True
      then show ?thesis using q2(3,5) q1(5) i m' by auto
    next
      case False
      define j where "j = (if i < k then i else Suc i)"
      have j: "?ps ! i = ps ! j" "?ps ! Suc i = ps ! Suc j" "Suc j < length ps"
        using False il k by (auto simp: j_def nth)
      have js: "sid (s ! (?ps ! i)) = sid (syms ! (ps ! j))" "sid (s ! (?ps ! Suc i)) = sid (syms ! (ps ! Suc j))"
        unfolding sid [OF il(1)] sid [OF il(2)] using False by (auto simp: j_def)
      have "(rank', ps ! j, sid (syms ! (ps ! j)), sid (syms ! (ps ! Suc j))) \<in># heap_elems q"
        using c m' j js unfolding covers_def by metis
      moreover have "ps ! j \<noteq> ps ! k"
        using nth_eq_iff_index_eq [OF linked_distinct [OF l], of j k] j(3) k False by (auto simp: j_def)
      ultimately have "(rank', ps ! j, sid (syms ! (ps ! j)), sid (syms ! (ps ! Suc j))) \<in># heap_elems q'"
        using hp.pop_in [OF pop] e by blast
      then show ?thesis using q1(3) q2(3) j js by simp
    qed
  qed
  ultimately show thesis
    using that [of s q2 ?ps] s(3,4) len k q1(2) q2(2) by simp
qed


lemma merge_iter_stale:
  assumes l: "linked syms ps" and c: "covers v syms ps q" and pop: "heap_pop q = Some (e, q')"
    and stale: "\<And>k rank m. Suc k < length ps \<Longrightarrow>
      merge_of v (sid (syms ! (ps ! k))) (sid (syms ! (ps ! Suc k))) = Some (rank, m) \<Longrightarrow>
      e \<noteq> (rank, ps ! k, sid (syms ! (ps ! k)), sid (syms ! (ps ! Suc k)))"
  shows "merge_iter v e syms q' = Some (syms, q')"
proof -
  obtain rank p a b where e: "e = (rank, p, a, b)" by (cases e)
  have p: "p < length syms"
    using c hp.pop_elems [OF pop] e unfolding covers_def by force
  show ?thesis
  proof (cases "salive (syms ! p) \<and> sid (syms ! p) = a")
    case False
    then show ?thesis using p by (auto simp: merge_iter_def e)
  next
    case True
    then obtain k where k: "k < length ps" "ps ! k = p" using linked_index [OF l p] by blast
    note nx = linkedD(3) [OF l k(1), unfolded k(2)]
    show ?thesis
    proof (cases "Suc k < length ps")
      case False
      then show ?thesis using p nx True by (simp add: merge_iter_def e)
    next
      case True': True
      have "\<not> (sid (syms ! (ps ! Suc k)) = b \<and> (\<exists>m. merge_of v a b = Some (rank, m)))"
        using stale [OF True'] k(2) True e by blast
      then show ?thesis
        using p nx True True' linkedD(1) [OF l True']
        by (auto simp: merge_iter_def e split: option.splits)
    qed
  qed
qed

text \<open>The loop terminates and computes the specification: lexicographically, \<open>size\<close> of the heap
  plus twice the number of live symbols decreases in every iteration.\<close>

lemma merge_loop_ok:
  "linked syms ps \<Longrightarrow> covers v syms ps q \<Longrightarrow>
     \<exists>syms' ps'. merge_loop v syms q = Some syms' \<and> linked syms' ps' \<and>
       ids_at syms' ps' = bpe_spec v (ids_at syms ps)"
proof (induction "size (heap_elems q) + 2 * length ps" arbitrary: syms ps q rule: less_induct)
  case less
  note l = less.prems(1) and c = less.prems(2)
  show ?case
  proof (cases "heap_pop q")
    case None
    then have "heap_elems q = {#}" by (rule hp.pop_None)
    then have none: "\<And>k rank m. \<not> (Suc k < length ps \<and>
        merge_of v (sid (syms ! (ps ! k))) (sid (syms ! (ps ! Suc k))) = Some (rank, m))"
      using c unfolding covers_def by (metis empty_iff set_mset_empty)
    have "candidates v (ids_at syms ps) = []"
    proof (rule ccontr)
      assume "candidates v (ids_at syms ps) \<noteq> []"
      then obtain rank k m where "(rank, k, m) \<in> set (candidates v (ids_at syms ps))"
        by (metis list.set_intros(1) neq_Nil_conv prod_cases3)
      then show False using none [of k rank m] by (auto simp: in_candidates)
    qed
    then have "bpe_spec v (ids_at syms ps) = ids_at syms ps"
      by (simp add: bpe_spec.simps [of v "ids_at syms ps"] best_pair_alt)
    moreover have "merge_loop v syms q = Some syms"
      by (subst merge_loop.simps) (simp add: None)
    ultimately show ?thesis using l by auto
  next
    case (Some x)
    obtain e q' where pop: "heap_pop q = Some (e, q')" using Some by (cases x) simp
    have step: "merge_loop v syms q =
        Option.bind (merge_iter v e syms q') (\<lambda>(syms', heap''). merge_loop v syms' heap'')"
      by (subst merge_loop.simps) (simp add: pop)
    show ?thesis
    proof (cases "\<exists>k rank m. Suc k < length ps \<and>
        merge_of v (sid (syms ! (ps ! k))) (sid (syms ! (ps ! Suc k))) = Some (rank, m) \<and>
        e = (rank, ps ! k, sid (syms ! (ps ! k)), sid (syms ! (ps ! Suc k)))")
      case True
      then obtain k rank m where k: "Suc k < length ps"
        "merge_of v (sid (syms ! (ps ! k))) (sid (syms ! (ps ! Suc k))) = Some (rank, m)"
        "e = (rank, ps ! k, sid (syms ! (ps ! k)), sid (syms ! (ps ! Suc k)))"
        by blast
      obtain s ps' q'' where s: "merge_iter v e syms q' = Some (s, q'')" "linked s ps'"
        "covers v s ps' q''" "length ps' < length ps"
        "ids_at s ps' = take k (ids_at syms ps) @ m # drop (Suc (Suc k)) (ids_at syms ps)"
        "size (heap_elems q'') \<le> size (heap_elems q') + 2"
        by (rule merge_step_ok [OF l c pop k])
      have "bpe_spec v (ids_at syms ps) = bpe_spec v (ids_at s ps')"
        using popped_is_best [OF l c pop k]
        by (subst bpe_spec.simps [of v "ids_at syms ps"]) (simp add: s(5))
      moreover have "size (heap_elems q'') + 2 * length ps' < size (heap_elems q) + 2 * length ps"
        using s(4,6) hp.pop_size [OF pop] by simp
      ultimately show ?thesis using less.hyps [OF _ s(2,3)] step s(1) by simp
    next
      case False
      then have stale: "\<And>k rank m. Suc k < length ps \<Longrightarrow>
        merge_of v (sid (syms ! (ps ! k))) (sid (syms ! (ps ! Suc k))) = Some (rank, m) \<Longrightarrow>
        e \<noteq> (rank, ps ! k, sid (syms ! (ps ! k)), sid (syms ! (ps ! Suc k)))" by blast
      have "size (heap_elems q') + 2 * length ps < size (heap_elems q) + 2 * length ps"
        using hp.pop_size [OF pop] by simp
      then show ?thesis
        using less.hyps [OF _ l covers_drop [OF c pop stale]] step merge_iter_stale [OF l c pop stale]
        by simp
    qed
  qed
qed

lemma initial_ids_Nil: "initial_ids v [] = []"
  by (simp add: initial_ids_def chars_of.simps)

lemma bpe_spec_Nil: "bpe_spec v [] = []"
  by (simp add: bpe_spec.simps best_pair_alt candidates_def map_filter_def)

lemma encode_segment_spec:
  "encode_segment v text out = Some (out @ bpe_spec v (initial_ids v text))"
proof (cases "text = []")
  case True
  then show ?thesis by (simp add: encode_segment_def initial_ids_Nil bpe_spec_Nil)
next
  case False
  let ?s = "initial_syms v text"
  have l: "linked ?s [0..<length ?s]" by (rule fresh_linked [OF initial_syms_ok(1)])
  obtain q where q: "push_pairs v ?s [0..<length ?s - 1] heap_new = Some q"
    "covers v ?s [0..<length ?s] q"
    using seed_ok [OF l, of 0 "length ?s - 1" heap_new v] by (auto simp: hp.elems_empty)
  obtain s ps where s: "merge_loop v ?s q = Some s" "linked s ps"
    "ids_at s ps = bpe_spec v (ids_at ?s [0..<length ?s])"
    using merge_loop_ok [OF l q(2)] by blast
  have "map sid (map ((!) ?s) [0..<length ?s]) = map sid ?s"
    by (simp only: map_nth)
  then have "ids_at ?s [0..<length ?s] = map sid ?s"
    by (simp add: comp_def)
  then show ?thesis
    using s(3) q(1) s(1) False
    by (simp add: encode_segment_def Let_def filter_alive linked_alive [OF s(2)] initial_syms_ok(2))
qed


end
