(* ===== verification/Detok.thy ===== *)
theory Detok
  imports Utf8
begin

text \<open>
  \<open>crates/sg-tokenizer/src/detok.rs\<close>: the buffer that withholds incomplete UTF-8 sequences
  while byte tokens stream in, and the interface of an incremental sink that its clients
  (the streaming decoder) rely on. The main fact is that pushing a byte sequence one byte at
  a time and flushing emits exactly its lossy decoding.
\<close>

subsection \<open>The interface of an incremental sink\<close>

text \<open>
  A sink takes items one at a time and appends to an output. \<open>rest s xs\<close> is what remains to
  be emitted in state \<open>s\<close> when the items \<open>xs\<close> are still to come; \<open>feed\<close> is \<open>None\<close> when the
  code panics or rejects the item, which it must not do for an acceptable item.
\<close>

locale sink =
  fixes inv :: "'s \<Rightarrow> bool"
    and ok :: "'a \<Rightarrow> bool"
    and feed :: "'s \<Rightarrow> 'a \<Rightarrow> 'o list \<Rightarrow> ('s \<times> 'o list) option"
    and close :: "'s \<Rightarrow> 'o list \<Rightarrow> 's \<times> 'o list"
    and rest :: "'s \<Rightarrow> 'a list \<Rightarrow> 'o list"
  assumes feed_total: "inv s \<Longrightarrow> ok x \<Longrightarrow> \<exists>s' out'. feed s x out = Some (s', out')"
    and feed_inv: "inv s \<Longrightarrow> feed s x out = Some (s', out') \<Longrightarrow> inv s'"
    and feed_rest: "inv s \<Longrightarrow> feed s x out = Some (s', out') \<Longrightarrow>
          out @ rest s (x # xs) = out' @ rest s' xs"
    and close_rest: "inv s \<Longrightarrow> snd (close s out) = out @ rest s []"
begin

lemma feed_prefix: "inv s \<Longrightarrow> feed s x out = Some (s', out') \<Longrightarrow> rest s' xs = [] \<Longrightarrow>
    out' = out @ rest s (x # xs)"
  using feed_rest by fastforce

end

fun feed_all :: "('s \<Rightarrow> 'a \<Rightarrow> 'o list \<Rightarrow> ('s \<times> 'o list) option) \<Rightarrow> 's \<Rightarrow> 'a list \<Rightarrow> 'o list \<Rightarrow>
    ('s \<times> 'o list) option" where
  "feed_all feed s [] out = Some (s, out)"
| "feed_all feed s (x # xs) out =
     (case feed s x out of None \<Rightarrow> None | Some (s', out') \<Rightarrow> feed_all feed s' xs out')"

context sink
begin

lemma feed_all_correct:
  assumes "inv s" and "list_all ok xs"
  shows "\<exists>s' out'. feed_all feed s xs out = Some (s', out') \<and> inv s' \<and>
    (\<forall>ys. out @ rest s (xs @ ys) = out' @ rest s' ys)"
  using assms
proof (induction xs arbitrary: s out)
  case Nil
  then show ?case by simp
next
  case (Cons x xs)
  have "ok x" using Cons.prems(2) by simp
  from feed_total [OF Cons.prems(1) this] obtain t o' where f: "feed s x out = Some (t, o')"
    by blast
  have t: "inv t" by (rule feed_inv [OF Cons.prems(1) f])
  from Cons.IH [OF t, of o'] Cons.prems(2) feed_rest [OF Cons.prems(1) f] f show ?case
    by auto
qed

lemma feed_all_close:
  assumes "inv s" and "list_all ok xs" and "feed_all feed s xs out = Some (s', out')"
  shows "snd (close s' out') = out @ rest s xs"
proof -
  from feed_all_correct [OF assms(1,2), of out] assms(3)
  have inv: "inv s'" and r: "\<forall>ys. out @ rest s (xs @ ys) = out' @ rest s' ys"
    by auto
  from r [rule_format, of "[]"] show ?thesis
    by (simp add: close_rest [OF inv])
qed

end

subsection \<open>DetokBuffer\<close>

record detok_buffer =
  pending :: "u8 list"

definition detok_new :: detok_buffer where
  "detok_new = \<lparr>pending = []\<rparr>"

definition has_pending :: "detok_buffer \<Rightarrow> bool" where
  "has_pending b \<longleftrightarrow> pending b \<noteq> []"

definition replacement_char :: string where
  "replacement_char = str_of_bytes fffd_bytes"

text \<open>
  The loop of \<open>push_byte\<close> over the pending bytes; \<open>None\<close> is the panic of
  \<open>expect("valid prefix")\<close>.
\<close>

function push_loop :: "u8 list \<Rightarrow> string \<Rightarrow> (u8 list \<times> string) option" where
  "push_loop p out =
     (case utf8_error p of
        None \<Rightarrow> Some ([], out @ str_of_bytes p)
      | Some (valid, error_len) \<Rightarrow>
          (case from_utf8 (take valid p) of
             None \<Rightarrow> None
           | Some s \<Rightarrow>
               (case error_len of
                  Some n \<Rightarrow> push_loop (drop (valid + n) p) (out @ s @ replacement_char)
                | None \<Rightarrow> Some (drop valid p, out @ s))))"
  by pat_completeness auto
termination
  by (relation "measure (\<lambda>(p, out). length p)") (auto dest!: utf8_error_bounds)

declare push_loop.simps [simp del]

definition push_byte :: "detok_buffer \<Rightarrow> u8 \<Rightarrow> string \<Rightarrow> (detok_buffer \<times> string) option" where
  "push_byte buf b out =
     map_option (\<lambda>(p, out'). (buf\<lparr>pending := p\<rparr>, out')) (push_loop (pending buf @ [b]) out)"

definition detok_flush :: "detok_buffer \<Rightarrow> string \<Rightarrow> detok_buffer \<times> string" where
  "detok_flush buf out =
     (if pending buf \<noteq> [] then (buf\<lparr>pending := []\<rparr>, out @ replacement_char) else (buf, out))"

subsection \<open>Correctness\<close>

text \<open>What is withheld is always the beginning of a code point, valid so far.\<close>

definition detok_inv :: "detok_buffer \<Rightarrow> bool" where
  "detok_inv buf \<longleftrightarrow> pending buf = [] \<or> utf8_head (pending buf) = Partial"

definition detok_rest :: "detok_buffer \<Rightarrow> u8 list \<Rightarrow> string" where
  "detok_rest buf bs = str_of_bytes (lossy (pending buf @ bs))"

lemma push_loop_correct:
  "\<exists>p' out'. push_loop p out = Some (p', out') \<and> (p' = [] \<or> utf8_head p' = Partial) \<and>
     (\<forall>bs. out @ str_of_bytes (lossy (p @ bs)) = out' @ str_of_bytes (lossy (p' @ bs)))"
proof (induction p out rule: push_loop.induct)
  case (1 p out)
  show ?case
  proof (cases "utf8_error p")
    case None
    then have "utf8_valid p" by (simp add: utf8_valid_def)
    with None show ?thesis
      by (simp add: push_loop.simps [of p out] lossy_valid_append)
  next
    case (Some ve)
    obtain v e where ve: "ve = (v, e)" by (cases ve)
    note err = Some [unfolded ve]
    note sp = utf8_error_split [OF err]
    have pre: "from_utf8 (take v p) = Some (str_of_bytes (take v p))"
      using sp(1) by (simp add: from_utf8_def)
    have split: "lossy (p @ bs) = take v p @ lossy (drop v p @ bs)" for bs
      using lossy_valid_append [OF sp(1), of "drop v p @ bs"]
      by (simp del: append_take_drop_id flip: append_assoc) simp
    show ?thesis
    proof (cases e)
      case None
      then show ?thesis
        using err pre sp(2) by (simp add: push_loop.simps [of p out] split)
    next
      case (Some n)
      have hd: "utf8_head (drop v p @ bs) = Broken n" for bs
        using sp(2) Some by (simp add: utf8_head_append)
      have n: "n \<le> length (drop v p)"
        using utf8_head_Broken [of "drop v p" n] hd [of "[]"] by simp
      have l: "lossy (p @ bs) = take v p @ fffd_bytes @ lossy (drop (v + n) p @ bs)" for bs
        using split [of bs] lossy_Broken [OF hd [of bs]] n by (simp add: add.commute)
      have eq: "push_loop p out = push_loop (drop (v + n) p) (out @ str_of_bytes (take v p) @ replacement_char)"
        using err pre Some by (simp add: push_loop.simps [of p out])
      from 1 [OF err refl pre Some] show ?thesis
        by (simp add: eq l replacement_char_def)
    qed
  qed
qed

interpretation detok: sink detok_inv "\<lambda>_. True" push_byte detok_flush detok_rest
proof unfold_locales
  fix s x out
  show "\<exists>s' out'. push_byte s x out = Some (s', out')"
    using push_loop_correct [of "pending s @ [x]" out] by (auto simp: push_byte_def)
next
  fix s x out s' out'
  assume "push_byte s x out = Some (s', out')"
  then show "detok_inv s'"
    using push_loop_correct [of "pending s @ [x]" out] by (auto simp: push_byte_def detok_inv_def)
next
  fix s x out s' out' xs
  assume "push_byte s x out = Some (s', out')"
  then show "out @ detok_rest s (x # xs) = out' @ detok_rest s' xs"
    using push_loop_correct [of "pending s @ [x]" out]
    by (fastforce simp: push_byte_def detok_rest_def)
next
  fix s out
  assume "detok_inv s"
  then show "snd (detok_flush s out) = out @ detok_rest s []"
    by (auto simp: detok_inv_def detok_flush_def detok_rest_def lossy_Partial replacement_char_def)
qed

lemma detok_inv_new [simp]: "detok_inv detok_new"
  by (simp add: detok_inv_def detok_new_def)

lemma detok_inv_flush [simp]: "detok_inv (fst (detok_flush b out))"
  by (auto simp: detok_inv_def detok_flush_def)

lemma detok_inv_pending_bound: "detok_inv b \<Longrightarrow> length (pending b) \<le> 3"
  by (auto simp: detok_inv_def dest: utf8_head_Partial_length)

text \<open>Everything emitted is well-formed UTF-8, whatever the output held before.\<close>

lemma push_loop_valid:
  "push_loop p out = Some (p', out') \<Longrightarrow> utf8_valid (bytes_of_str out) \<Longrightarrow>
   utf8_valid (bytes_of_str out')"
proof (induction p out rule: push_loop.induct)
  case (1 p out)
  show ?case
  proof (cases "utf8_error p")
    case None
    with 1(2,3) show ?thesis
      by (auto simp: push_loop.simps [of p out] utf8_valid_append simp flip: utf8_valid_def)
  next
    case (Some ve)
    obtain v e where ve: "ve = (v, e)" by (cases ve)
    note err = Some [unfolded ve]
    note sp = utf8_error_split [OF err]
    have pre: "from_utf8 (take v p) = Some (str_of_bytes (take v p))"
      using sp(1) by (simp add: from_utf8_def)
    have "utf8_valid (bytes_of_str out @ take v p)"
      "utf8_valid (bytes_of_str out @ take v p @ fffd_bytes)"
      using 1(3) sp(1) by (simp_all add: utf8_valid_append utf8_valid_fffd)
    then show ?thesis
      using 1(1) [OF err refl pre] 1(2) err pre
      by (cases e) (auto simp add: push_loop.simps [of p out] replacement_char_def)
  qed
qed

lemma feed_all_push_valid:
  "feed_all push_byte buf bs out = Some (buf', out') \<Longrightarrow> utf8_valid (bytes_of_str out) \<Longrightarrow>
   utf8_valid (bytes_of_str out')"
  by (induction bs arbitrary: buf out)
     (auto simp: push_byte_def split: option.splits dest: push_loop_valid)

text \<open>
  C13: Streaming a byte sequence through the buffer one byte at a time never panics, and
  flushing at the end leaves exactly \<open>from_utf8_lossy\<close> of the whole sequence in the output:
  splitting the run into single pushes neither loses, duplicates nor reorders anything, and
  invalid bytes degrade with the maximal-subpart rule.
\<close>

theorem stream_is_lossy:
  "\<exists>buf out. feed_all push_byte detok_new bs [] = Some (buf, out) \<and>
     snd (detok_flush buf out) = str_of_bytes (lossy bs)"
proof -
  obtain buf out where f: "feed_all push_byte detok_new bs [] = Some (buf, out)"
    using detok.feed_all_correct [OF detok_inv_new, of bs "[]"] by (auto simp: list_all_iff)
  moreover have "snd (detok_flush buf out) = str_of_bytes (lossy bs)"
    using detok.feed_all_close [OF detok_inv_new _ f] by (simp add: detok_rest_def detok_new_def list_all_iff)
  ultimately show ?thesis by blast
qed

text \<open>
  C14: After any prefix of the stream, what has already been emitted is valid UTF-8 (an SSE
  delta never splits a code point), at most three bytes are withheld, and they are empty or
  a beginning of one code point that is valid so far.
\<close>

theorem stream_emits_whole_code_points:
  "\<exists>buf out. feed_all push_byte detok_new bs [] = Some (buf, out) \<and>
     utf8_valid (bytes_of_str out) \<and> length (pending buf) \<le> 3 \<and>
     (pending buf = [] \<or> utf8_head (pending buf) = Partial)"
proof -
  obtain buf out where f: "feed_all push_byte detok_new bs [] = Some (buf, out)" "detok_inv buf"
    using detok.feed_all_correct [OF detok_inv_new, of bs "[]"] by (auto simp: list_all_iff)
  then show ?thesis
    using feed_all_push_valid [OF f(1)] detok_inv_pending_bound [of buf]
    by (auto simp: detok_inv_def)
qed

end
