(* ===== verification/Tokenizer.thy ===== *)
theory Tokenizer
  imports Bpe Detok "HOL-Library.Sublist"
begin

text \<open>
  \<open>crates/sg-tokenizer/src/tokenizer.rs\<close>: encoding around the merge engine, with or without
  special tokens, and (streaming) decoding. The decoder is an instance of the \<open>sink\<close>
  interface, over the \<open>DetokBuffer\<close> instance. The main fact is that decoding inverts encoding,
  up to the character U+2581 that stands for a space. A panic is \<open>None\<close>.
\<close>

datatype special_tokens = Match | Plain

datatype decode_error = IdOutOfRange u32

subsection \<open>Encoding\<close>

definition is_char_boundary :: "string \<Rightarrow> nat \<Rightarrow> bool" where
  "is_char_boundary s n \<longleftrightarrow>
     n = 0 \<or> n = length s \<or> n < length s \<and> \<not> is_cont (byte_of_char (s ! n))"

text \<open>\<open>s.split_at(n)\<close>, which panics off a character boundary.\<close>

definition str_split :: "string \<Rightarrow> nat \<Rightarrow> (string \<times> string) option" where
  "str_split s n = (if is_char_boundary s n then Some (take n s, drop n s) else None)"

fun first_match :: "(string \<times> u32) list \<Rightarrow> string \<Rightarrow> (nat \<times> u32) option" where
  "first_match [] text = None"
| "first_match ((piece, tid) # sp) text =
     (if prefix piece text then Some (length piece, tid) else first_match sp text)"

fun find_special_from :: "(string \<times> u32) list \<Rightarrow> nat \<Rightarrow> string \<Rightarrow> (nat \<times> nat \<times> u32) option" where
  "find_special_from sp start [] = None"
| "find_special_from sp start (c # cs) =
     (if c = CHR ''<'' then
        (case first_match sp (c # cs) of
           Some (n, tid) \<Rightarrow> Some (start, n, tid)
         | None \<Rightarrow> find_special_from sp (Suc start) cs)
      else find_special_from sp (Suc start) cs)"

definition find_special :: "vocab \<Rightarrow> string \<Rightarrow> (nat \<times> nat \<times> u32) option" where
  "find_special v text = find_special_from (specials v) 0 text"

text \<open>The \<open>while\<close> loop of \<open>encode\<close>; it would not end on an empty special piece.\<close>

partial_function (option) encode_loop :: "vocab \<Rightarrow> string \<Rightarrow> u32 list \<Rightarrow> u32 list option" where
  "encode_loop v rest out =
     (if rest = [] then Some out
      else case find_special v rest of
        Some (start, len, tid) \<Rightarrow>
          Option.bind (str_split rest start) (\<lambda>(seg, _).
          Option.bind (encode_segment v seg out) (\<lambda>out'.
          Option.bind (str_split rest (start + len)) (\<lambda>(_, rest').
          encode_loop v rest' (out' @ [tid]))))
      | None \<Rightarrow> encode_segment v rest out)"

definition encode :: "vocab \<Rightarrow> string \<Rightarrow> special_tokens \<Rightarrow> u32 list option" where
  "encode v text sp =
     (case sp of
        Plain \<Rightarrow> encode_segment v text []
      | Match \<Rightarrow> encode_loop v text [])"

subsection \<open>Decoding\<close>

definition unspace :: "string \<Rightarrow> string" where
  "unspace s = concat (map (\<lambda>c. if c = ws_mark then '' '' else c) (chars_of s))"

definition show_piece :: "string \<Rightarrow> string" where
  "show_piece piece = (if sublist ws_mark piece then unspace piece else piece)"

definition decode_streaming :: "vocab \<Rightarrow> u32 \<Rightarrow> detok_buffer \<Rightarrow> string \<Rightarrow>
    (decode_error + (detok_buffer \<times> string)) option" where
  "decode_streaming v tid buf out =
     (case byte_of v tid of
        Some b \<Rightarrow> map_option Inr (push_byte buf b out)
      | None \<Rightarrow>
          (case piece_of v tid of
             None \<Rightarrow> Some (Inl (IdOutOfRange tid))
           | Some piece \<Rightarrow>
               (let (buf', out') = detok_flush buf out in
                Some (Inr (buf', out' @ show_piece piece)))))"

fun decode_loop :: "vocab \<Rightarrow> u32 list \<Rightarrow> detok_buffer \<Rightarrow> string \<Rightarrow>
    (decode_error + (detok_buffer \<times> string)) option" where
  "decode_loop v [] buf out = Some (Inr (buf, out))"
| "decode_loop v (tid # ids) buf out =
     (case decode_streaming v tid buf out of
        None \<Rightarrow> None
      | Some (Inl e) \<Rightarrow> Some (Inl e)
      | Some (Inr (buf', out')) \<Rightarrow> decode_loop v ids buf' out')"

definition flush_streaming :: "detok_buffer \<Rightarrow> string \<Rightarrow> detok_buffer \<times> string" where
  "flush_streaming buf out = detok_flush buf out"

definition decode :: "vocab \<Rightarrow> u32 list \<Rightarrow> (decode_error + string) option" where
  "decode v ids =
     map_option (\<lambda>r. case r of Inl e \<Rightarrow> Inl e | Inr (buf, out) \<Rightarrow> Inr (snd (flush_streaming buf out)))
       (decode_loop v ids detok_new [])"

subsection \<open>Characters\<close>

lemma chars_of_Nil [simp]: "chars_of [] = []"
  by (simp add: chars_of.simps)

lemma chars_of_Whole:
  "utf8_head (bytes_of_str s) = Whole n \<Longrightarrow> chars_of s = take n s # chars_of (drop n s)"
  by (subst chars_of.simps) simp

abbreviation str_valid :: "string \<Rightarrow> bool" where
  "str_valid s \<equiv> utf8_valid (bytes_of_str s)"

lemma str_valid_induct [consumes 1, case_names Nil Char]:
  assumes "str_valid s" and "P []"
    and "\<And>c s. utf8_head (bytes_of_str c) = Whole (length c) \<Longrightarrow> str_valid s \<Longrightarrow>
      chars_of (c @ s) = c # chars_of s \<Longrightarrow> P s \<Longrightarrow> P (c @ s)"
  shows "P s"
  using assms(1)
proof (induction "length s" arbitrary: s rule: less_induct)
  case less
  show ?case
  proof (cases "utf8_head (bytes_of_str s)")
    case (Whole n)
    then have n: "0 < n" "n \<le> length s" using utf8_head_Whole [OF Whole] by simp_all
    have "str_valid (drop n s)" using less.prems utf8_valid_Whole [OF Whole] by (simp add: drop_map)
    moreover have "utf8_head (bytes_of_str (take n s)) = Whole (length (take n s))"
      using utf8_head_take_Whole [OF Whole] n by (simp add: take_map)
    ultimately have "P (take n s @ drop n s)"
      using less.hyps [of "drop n s"] n chars_of_Whole [OF Whole] by (intro assms(3)) simp_all
    then show ?thesis by simp
  next
    case (Broken n)
    then show ?thesis using less.prems by (simp add: utf8_valid_def utf8_error_Broken)
  next
    case Partial
    then have "s = []" using less.prems by (cases "s = []") (simp_all add: utf8_valid_def utf8_error_Partial)
    then show ?thesis using assms(2) by simp
  qed
qed

lemma str_valid_append: "str_valid a \<Longrightarrow> str_valid (a @ b) \<longleftrightarrow> str_valid b"
  using utf8_valid_append [of "bytes_of_str a"] by simp

lemma concat_chars_of: "str_valid s \<Longrightarrow> concat (chars_of s) = s"
  by (induction s rule: str_valid_induct) simp_all

lemma chars_of_char: "c \<in> set (chars_of s) \<Longrightarrow> utf8_head (bytes_of_str c) = Whole (length c)"
proof (induction s rule: chars_of.induct)
  case (1 s)
  then show ?case
  proof (cases "utf8_head (bytes_of_str s)")
    case (Whole n)
    then have "n \<le> length s" using utf8_head_Whole [OF Whole] by simp
    moreover have "utf8_head (bytes_of_str (take n s)) = Whole n"
      using utf8_head_take_Whole [OF Whole] by (simp add: take_map)
    ultimately show ?thesis
      using 1(1) [OF Whole] 1(2) by (auto simp: chars_of_Whole [OF Whole])
  qed (simp_all add: chars_of.simps [of s])
qed

lemma chars_of_append: "str_valid a \<Longrightarrow> chars_of (a @ b) = chars_of a @ chars_of b"
proof (induction a rule: str_valid_induct)
  case Nil
  then show ?case by simp
next
  case (Char c s)
  have "utf8_head (bytes_of_str ((c @ s) @ b)) = Whole (length c)"
    using utf8_head_append [of "bytes_of_str c" "bytes_of_str (s @ b)"] Char(1) by simp
  then show ?case using Char(3,4) by (simp add: chars_of_Whole)
qed

lemma unspace_append: "str_valid a \<Longrightarrow> unspace (a @ b) = unspace a @ unspace b"
  by (simp add: unspace_def chars_of_append)

lemma unspace_Nil [simp]: "unspace [] = []"
  by (simp add: unspace_def)

lemma char_valid: "utf8_head (bytes_of_str c) = Whole (length c) \<Longrightarrow> str_valid c"
  using utf8_valid_Whole [of "bytes_of_str c" "length c"] by simp

lemma chars_of_single: "utf8_head (bytes_of_str c) = Whole (length c) \<Longrightarrow> chars_of c = [c]"
  by (simp add: chars_of_Whole)

subsection \<open>What decoding computes\<close>

text \<open>\<open>bs\<close> are the bytes of the run of byte tokens read so far.\<close>

fun decode_spec :: "vocab \<Rightarrow> u8 list \<Rightarrow> u32 list \<Rightarrow> string" where
  "decode_spec v bs [] = str_of_bytes (lossy bs)"
| "decode_spec v bs (i # is) =
     (case byte_of v i of
        Some b \<Rightarrow> decode_spec v (bs @ [b]) is
      | None \<Rightarrow> str_of_bytes (lossy bs) @ show_piece (the (piece_of v i)) @ decode_spec v [] is)"

definition id_ok :: "vocab \<Rightarrow> u32 \<Rightarrow> bool" where
  "id_ok v i \<longleftrightarrow> byte_of v i \<noteq> None \<or> piece_of v i \<noteq> None"

definition decode_feed :: "vocab \<Rightarrow> detok_buffer \<Rightarrow> u32 \<Rightarrow> string \<Rightarrow> (detok_buffer \<times> string) option" where
  "decode_feed v buf i out =
     (case decode_streaming v i buf out of Some (Inr r) \<Rightarrow> Some r | _ \<Rightarrow> None)"

definition decode_rest :: "vocab \<Rightarrow> detok_buffer \<Rightarrow> u32 list \<Rightarrow> string" where
  "decode_rest v buf is = decode_spec v (pending buf) is"

lemma unspace_no_mark:
  assumes "str_valid s" and "\<not> sublist ws_mark s"
  shows "unspace s = s"
proof -
  have "ws_mark \<notin> set (chars_of s)"
  proof
    assume "ws_mark \<in> set (chars_of s)"
    then obtain xs ys where "chars_of s = xs @ ws_mark # ys" by (auto simp: in_set_conv_decomp)
    then have "s = concat xs @ ws_mark @ concat ys"
      using concat_chars_of [OF assms(1)] by simp
    then show False using assms(2) by auto
  qed
  then have "map (\<lambda>c. if c = ws_mark then '' '' else c) (chars_of s) = chars_of s"
    by (intro map_idI) auto
  then show ?thesis using concat_chars_of [OF assms(1)] by (simp add: unspace_def)
qed

text \<open>A run of byte tokens is decoded as a whole, the rest does not depend on it.\<close>

lemma decode_spec_split: "\<exists>l r. \<forall>bs. decode_spec v bs is = str_of_bytes (lossy (bs @ l)) @ r"
proof (induction "is")
  case Nil
  show ?case by (intro exI [of _ "[]"]) simp
next
  case (Cons i "is")
  then obtain l r where lr: "\<And>bs. decode_spec v bs is = str_of_bytes (lossy (bs @ l)) @ r" by blast
  show ?case
  proof (cases "byte_of v i")
    case None
    then show ?thesis
      by (intro exI [of _ "[]"] exI [of _ "show_piece (the (piece_of v i)) @ decode_spec v [] is"]) simp
  next
    case (Some b)
    then show ?thesis by (intro exI [of _ "b # l"] exI [of _ r]) (simp add: lr)
  qed
qed

lemma decode_feed_byte: "byte_of v i = Some b \<Longrightarrow> decode_feed v buf i out = push_byte buf b out"
  by (simp add: decode_feed_def decode_streaming_def option.map_comp comp_def split: option.splits)

lemma decode_feed_piece:
  "byte_of v i = None \<Longrightarrow> decode_feed v buf i out =
     map_option (\<lambda>p. (fst (detok_flush buf out), snd (detok_flush buf out) @ show_piece p)) (piece_of v i)"
  by (simp add: decode_feed_def decode_streaming_def case_prod_beta split: option.splits)

interpretation dec: sink detok_inv "id_ok v" "decode_feed v" flush_streaming "decode_rest v" for v
proof unfold_locales
  fix s i out
  assume s: "detok_inv s" and i: "id_ok v i"
  show "\<exists>s' out'. decode_feed v s i out = Some (s', out')"
  proof (cases "byte_of v i")
    case (Some b)
    then show ?thesis using detok.feed_total [OF s, of b out] by (simp add: decode_feed_byte)
  next
    case None
    then show ?thesis using i by (auto simp: id_ok_def decode_feed_piece)
  qed
next
  fix s i out s' out'
  assume s: "detok_inv s" and f: "decode_feed v s i out = Some (s', out')"
  show "detok_inv s'"
  proof (cases "byte_of v i")
    case (Some b)
    then show ?thesis using detok.feed_inv [OF s, of b out] f by (simp add: decode_feed_byte)
  next
    case None
    then show ?thesis using f detok_inv_flush [of s out] by (auto simp: decode_feed_piece)
  qed
next
  fix s i out s' out' "is"
  assume s: "detok_inv s" and f: "decode_feed v s i out = Some (s', out')"
  show "out @ decode_rest v s (i # is) = out' @ decode_rest v s' is"
  proof (cases "byte_of v i")
    case (Some b)
    then have p: "push_byte s b out = Some (s', out')" using f by (simp add: decode_feed_byte)
    obtain l r where lr: "\<And>bs. decode_spec v bs is = str_of_bytes (lossy (bs @ l)) @ r"
      using decode_spec_split by blast
    show ?thesis
      using detok.feed_rest [OF s p, of l] Some by (simp add: decode_rest_def detok_rest_def lr)
  next
    case None
    then obtain p where p: "piece_of v i = Some p" "s' = fst (detok_flush s out)"
      "out' = snd (detok_flush s out) @ show_piece p"
      using f by (auto simp: decode_feed_piece)
    have "snd (detok_flush s out) = out @ str_of_bytes (lossy (pending s))"
      using detok.close_rest [OF s, of out] by (simp add: detok_rest_def)
    moreover have "pending (fst (detok_flush s out)) = []"
      by (simp add: detok_flush_def)
    ultimately show ?thesis using None p by (simp add: decode_rest_def)
  qed
next
  fix s out
  assume "detok_inv s"
  then show "snd (flush_streaming s out) = out @ decode_rest v s []"
    using detok.close_rest [of s out] by (simp add: flush_streaming_def decode_rest_def detok_rest_def)
qed

lemma decode_loop_ok:
  "detok_inv buf \<Longrightarrow> list_all (id_ok v) ids \<Longrightarrow>
     decode_loop v ids buf out = map_option Inr (feed_all (decode_feed v) buf ids out)"
proof (induction ids arbitrary: buf out)
  case Nil
  then show ?case by simp
next
  case (Cons i ids)
  obtain buf' out' where f: "decode_feed v buf i out = Some (buf', out')"
    using dec.feed_total [OF Cons.prems(1), of v i out] Cons.prems(2) by auto
  then have "decode_streaming v i buf out = Some (Inr (buf', out'))"
    by (auto simp: decode_feed_def split: option.splits sum.splits)
  then show ?case
    using Cons.IH [OF dec.feed_inv [OF Cons.prems(1) f]] Cons.prems(2) f by simp
qed

lemma decode_loop_bad:
  "detok_inv buf \<Longrightarrow> find (\<lambda>i. \<not> id_ok v i) ids = Some i \<Longrightarrow>
     decode_loop v ids buf out = Some (Inl (IdOutOfRange i))"
proof (induction ids arbitrary: buf out)
  case Nil
  then show ?case by simp
next
  case (Cons j ids)
  show ?case
  proof (cases "id_ok v j")
    case False
    then show ?thesis using Cons.prems(2) by (simp add: id_ok_def decode_streaming_def)
  next
    case True
    obtain buf' out' where f: "decode_feed v buf j out = Some (buf', out')"
      using dec.feed_total [OF Cons.prems(1) True] by blast
    then have "decode_streaming v j buf out = Some (Inr (buf', out'))"
      by (auto simp: decode_feed_def split: option.splits sum.splits)
    then show ?thesis
      using Cons.IH [OF dec.feed_inv [OF Cons.prems(1) f]] Cons.prems(2) True by simp
  qed
qed

lemma decode_correct:
  "decode v ids = Some (case find (\<lambda>i. \<not> id_ok v i) ids of
     None \<Rightarrow> Inr (decode_spec v [] ids) | Some i \<Rightarrow> Inl (IdOutOfRange i))"
proof (cases "find (\<lambda>i. \<not> id_ok v i) ids")
  case None
  then have ok: "list_all (id_ok v) ids" by (auto simp: find_None_iff list_all_iff)
  obtain buf out where f: "feed_all (decode_feed v) detok_new ids [] = Some (buf, out)"
    using dec.feed_all_correct [OF detok_inv_new ok] by blast
  have "snd (flush_streaming buf out) = decode_spec v [] ids"
    using dec.feed_all_close [OF detok_inv_new ok f] by (simp add: decode_rest_def detok_new_def)
  then show ?thesis
    using None f by (simp add: decode_def decode_loop_ok [OF detok_inv_new ok])
next
  case (Some i)
  then show ?thesis by (simp add: decode_def decode_loop_bad [OF detok_inv_new])
qed

subsection \<open>Merging preserves the decoded text\<close>

definition texts_valid :: "vocab \<Rightarrow> bool" where
  "texts_valid v \<longleftrightarrow> list_all str_valid (pieces v)"

text \<open>Gemma's merge list never touches byte tokens (the header of \<open>bpe.rs\<close>).\<close>

definition merges_pure :: "vocab \<Rightarrow> bool" where
  "merges_pure v \<longleftrightarrow> (\<forall>l r k m. merge_of v l r = Some (k, m) \<longrightarrow>
     token_type_of v l \<noteq> Some Byte \<and> token_type_of v r \<noteq> Some Byte \<and> token_type_of v m \<noteq> Some Byte)"

lemma byte_of_type: "vocab_inv v \<Longrightarrow> byte_of v i \<noteq> None \<longleftrightarrow> token_type_of v i = Some Byte"
  by (auto simp: vocab_inv_def byte_tables_def byte_of_def token_type_of_def)

lemma show_piece_valid: "str_valid p \<Longrightarrow> show_piece p = unspace p"
  by (simp add: show_piece_def unspace_no_mark)

lemma piece_of_valid: "texts_valid v \<Longrightarrow> piece_of v i = Some p \<Longrightarrow> str_valid p"
  by (auto simp: texts_valid_def piece_of_def list_all_iff split: if_splits)

lemma merge_pieces:
  assumes "vocab_inv v" and "merge_of v l r = Some (k, m)"
  obtains p q where "piece_of v l = Some p" "piece_of v r = Some q" "piece_of v m = Some (p @ q)"
  using assms by (auto simp: vocab_inv_def merge_table_def merge_of_def piece_of_def)

lemma decode_spec_merge:
  assumes "vocab_inv v" and "texts_valid v" and "merges_pure v" and m: "merge_of v l r = Some (k, m)"
  shows "decode_spec v bs (xs @ m # ys) = decode_spec v bs (xs @ l # r # ys)"
proof (induction xs arbitrary: bs)
  case Nil
  obtain p q where pq: "piece_of v l = Some p" "piece_of v r = Some q" "piece_of v m = Some (p @ q)"
    by (rule merge_pieces [OF assms(1) m])
  have "byte_of v l = None" "byte_of v r = None" "byte_of v m = None"
    using assms(3) m byte_of_type [OF assms(1)] unfolding merges_pure_def by metis+
  then show ?case
    using pq [THEN piece_of_valid [OF assms(2)]] unspace_append [of p q]
    by (simp add: pq show_piece_valid)
qed (simp split: option.splits)

text \<open>An invariant of single merges holds of the whole specification.\<close>

lemma bpe_spec_invariant:
  assumes "P ids" and "\<And>xs l r ys k m. P (xs @ l # r # ys) \<Longrightarrow> merge_of v l r = Some (k, m) \<Longrightarrow> P (xs @ m # ys)"
  shows "P (bpe_spec v ids)"
  using assms(1)
proof (induction "length ids" arbitrary: ids rule: less_induct)
  case less
  show ?case
  proof (cases "best_pair v ids")
    case None
    then show ?thesis using less.prems by (simp add: bpe_spec.simps [of v ids])
  next
    case (Some c)
    obtain rank k m where c: "c = (rank, k, m)" by (cases c)
    have k: "Suc k < length ids" "merge_of v (ids ! k) (ids ! Suc k) = Some (rank, m)"
      using best_pair_in [OF Some] by (simp_all add: c in_candidates)
    then have "ids = take k ids @ ids ! k # ids ! Suc k # drop (Suc (Suc k)) ids"
      by (simp add: Cons_nth_drop_Suc)
    then have "P (take k ids @ ids ! k # ids ! Suc k # drop (Suc (Suc k)) ids)"
      using less.prems by simp
    from assms(2) [OF this k(2)] have "P (take k ids @ m # drop (Suc (Suc k)) ids)" .
    then have "P (bpe_spec v (take k ids @ m # drop (Suc (Suc k)) ids))"
      using k(1) by (intro less.hyps) simp_all
    then show ?thesis by (simp add: bpe_spec.simps [of v ids] Some c)
  qed
qed

lemma decode_spec_bpe:
  assumes "vocab_inv v" and "texts_valid v" and "merges_pure v"
  shows "decode_spec v bs (bpe_spec v ids @ ys) = decode_spec v bs (ids @ ys)"
  by (rule bpe_spec_invariant [where P = "\<lambda>js. decode_spec v bs (js @ ys) = decode_spec v bs (ids @ ys)"])
    (simp_all add: decode_spec_merge [OF assms])

lemma id_ok_bpe:
  assumes "vocab_inv v" and "list_all (id_ok v) ids"
  shows "list_all (id_ok v) (bpe_spec v ids)"
proof (rule bpe_spec_invariant [where P = "list_all (id_ok v)", OF assms(2)])
  fix xs l r ys k m
  assume "list_all (id_ok v) (xs @ l # r # ys)" and m: "merge_of v l r = Some (k, m)"
  moreover obtain p q where "piece_of v m = Some (p @ q)"
    using merge_pieces [OF assms(1) m] by blast
  ultimately show "list_all (id_ok v) (xs @ m # ys)" by (simp add: id_ok_def)
qed

subsection \<open>Decoding the initial symbols\<close>

lemma parse_byte_piece_length: "parse_byte_piece p = Some b \<Longrightarrow> length p = 6"
proof -
  have pre: "strip_prefix a s = Some t \<Longrightarrow> length s = length a + length t" for a s t
    by (induction a s rule: strip_prefix.induct) (auto split: if_splits)
  assume "parse_byte_piece p = Some b"
  then show ?thesis
    by (auto simp: parse_byte_piece_def strip_suffix_def bind_eq_Some_conv dest!: pre split: if_splits)
qed

lemma char_length: "utf8_head (bytes_of_str c) = Whole (length c) \<Longrightarrow> 0 < length c \<and> length c \<le> 4"
  by (cases "bytes_of_str c") (auto simp: Let_def split: if_splits list.splits)

lemma ws_mark_char: "utf8_head (bytes_of_str ws_mark) = Whole (length ws_mark)"
  by (simp add: ws_mark_def utf8_width_def second_ok_def is_cont_def)

lemma normalize_char_char:
  "utf8_head (bytes_of_str c) = Whole (length c) \<Longrightarrow>
     utf8_head (bytes_of_str (normalize_char c)) = Whole (length (normalize_char c))"
  using ws_mark_char by (simp add: normalize_char_def)

lemma id_of_piece: "vocab_inv v \<Longrightarrow> id_of v p = Some i \<Longrightarrow> piece_of v i = Some p"
  by (auto simp: vocab_inv_def piece_index_def id_of_def piece_of_def)

lemma id_of_char_not_byte:
  assumes "vocab_inv v" and "id_of v p = Some i" and "length p \<le> 4"
  shows "byte_of v i = None"
proof (rule ccontr)
  assume "byte_of v i \<noteq> None"
  then obtain b where "parse_byte_piece (pieces v ! unat i) = Some b"
    using assms(1) by (auto simp: vocab_inv_def byte_tables_def byte_of_def)
  moreover have "pieces v ! unat i = p"
    using assms(1,2) by (simp add: vocab_inv_def piece_index_def id_of_def)
  ultimately show False using parse_byte_piece_length [of p b] assms(3) by simp
qed

lemma byte_of_byte_id: "vocab_inv v \<Longrightarrow> byte_of v (byte_id v b) = Some b"
proof -
  assume v: "vocab_inv v"
  then have "length (byte_to_id v) = 256" by (simp add: vocab_inv_def byte_tables_def)
  then have "byte_to_id v ! unat b \<in> set (byte_to_id v)" using unat_u8_less [of b] by simp
  then have "byte_to_id v ! unat b \<noteq> - 1" using v by (auto simp: vocab_inv_def)
  then show ?thesis using v by (simp add: vocab_inv_def byte_tables_def byte_of_def byte_id_def)
qed

lemma decode_spec_bytes:
  "vocab_inv v \<Longrightarrow> decode_spec v bs (map (byte_id v) cs @ is) = decode_spec v (bs @ cs) is"
  by (induction cs arbitrary: bs) (simp_all add: byte_of_byte_id)

definition char_ids :: "vocab \<Rightarrow> string \<Rightarrow> u32 list" where
  "char_ids v ch = (case id_of v (normalize_char ch) of
     Some i \<Rightarrow> [i]
   | None \<Rightarrow> map (byte_id v) (bytes_of_str (normalize_char ch)))"

lemma initial_ids_alt: "initial_ids v text = concat (map (char_ids v) (chars_of text))"
  by (simp add: initial_ids_def char_ids_def [abs_def])

definition unspace_char :: "string \<Rightarrow> string" where
  "unspace_char c = (if c = ws_mark then '' '' else c)"

lemma unspace_single: "utf8_head (bytes_of_str c) = Whole (length c) \<Longrightarrow> unspace c = unspace_char c"
  by (simp add: unspace_def unspace_char_def chars_of_single)

lemma unspace_normalize: "unspace_char (normalize_char c) = unspace_char c"
  by (simp add: unspace_char_def normalize_char_def ws_mark_def)

definition boundary :: "vocab \<Rightarrow> u32 list \<Rightarrow> bool" where
  "boundary v is \<longleftrightarrow> is = [] \<or> byte_of v (hd is) = None"

lemma decode_spec_boundary:
  "boundary v is \<Longrightarrow> utf8_valid bs \<Longrightarrow> decode_spec v bs is = str_of_bytes bs @ decode_spec v [] is"
  by (cases "is") (auto simp: boundary_def lossy_valid)

lemma decode_spec_chars:
  assumes v: "vocab_inv v" and ws: "id_of v ws_mark \<noteq> None" and b: "boundary v is"
    and cs: "\<forall>c \<in> set cs. utf8_head (bytes_of_str c) = Whole (length c)" and "utf8_valid bs"
  shows "decode_spec v bs (concat (map (char_ids v) cs) @ is) =
    str_of_bytes bs @ concat (map unspace_char cs) @ decode_spec v [] is"
  using cs assms(5)
proof (induction cs arbitrary: bs)
  case Nil
  then show ?case using decode_spec_boundary [OF b, of bs] by simp
next
  case (Cons c cs)
  have c: "utf8_head (bytes_of_str c) = Whole (length c)" using Cons.prems(1) by simp
  note n = normalize_char_char [OF c]
  show ?case
  proof (cases "id_of v (normalize_char c)")
    case (Some i)
    have ci: "char_ids v c = [i]" by (simp add: char_ids_def Some)
    have "byte_of v i = None"
      by (rule id_of_char_not_byte [OF v Some]) (use char_length [OF n] in simp)
    moreover have "show_piece (normalize_char c) = unspace_char c"
      using show_piece_valid [OF char_valid [OF n]] unspace_single [OF n] unspace_normalize by simp
    moreover have "decode_spec v [] (concat (map (char_ids v) cs) @ is) =
        concat (map unspace_char cs) @ decode_spec v [] is"
      using Cons.IH [of "[]"] Cons.prems(1) by simp
    ultimately show ?thesis
      using id_of_piece [OF v Some] lossy_valid [OF Cons.prems(2)] ci by simp
  next
    case None
    then have "normalize_char c = c" "c \<noteq> ws_mark"
      using ws by (auto simp: normalize_char_def split: if_splits)
    then have "char_ids v c = map (byte_id v) (bytes_of_str c)" "unspace_char c = c"
      using None by (simp_all add: char_ids_def unspace_char_def)
    moreover have "utf8_valid (bs @ bytes_of_str c)"
      using char_valid [OF c] Cons.prems(2) by (simp add: utf8_valid_append)
    then have "decode_spec v (bs @ bytes_of_str c) (concat (map (char_ids v) cs) @ is) =
        str_of_bytes (bs @ bytes_of_str c) @ concat (map unspace_char cs) @ decode_spec v [] is"
      by (rule Cons.IH [rotated]) (use Cons.prems(1) in simp)
    ultimately show ?thesis
      using decode_spec_bytes [OF v, of bs "bytes_of_str c"] by simp
  qed
qed

lemma id_ok_initial:
  assumes "vocab_inv v"
  shows "list_all (id_ok v) (initial_ids v text)"
proof -
  have "list_all (id_ok v) (char_ids v c)" for c
    using byte_of_byte_id [OF assms] id_of_piece [OF assms]
    by (auto simp: char_ids_def id_ok_def list_all_iff split: option.splits)
  then show ?thesis unfolding initial_ids_alt by (simp add: list_all_iff)
qed

definition readable :: "vocab \<Rightarrow> bool" where
  "readable v \<longleftrightarrow> vocab_inv v \<and> texts_valid v \<and> merges_pure v \<and> id_of v ws_mark \<noteq> None"

lemma decode_segment:
  assumes v: "readable v" and "str_valid text" and "boundary v is"
  shows "decode_spec v [] (bpe_spec v (initial_ids v text) @ is) = unspace text @ decode_spec v [] is"
proof -
  have "decode_spec v [] (initial_ids v text @ is) = unspace text @ decode_spec v [] is"
    using decode_spec_chars [of v "is" "chars_of text" "[]"] v assms(3) chars_of_char
    by (simp add: initial_ids_alt readable_def unspace_def unspace_char_def [abs_def])
  then show ?thesis using decode_spec_bpe [of v "[]"] v by (simp add: readable_def)
qed

subsection \<open>Special tokens: leftmost, then longest\<close>

lemma first_match_Some:
  assumes "first_match sp text = Some (n, i)"
    and "sorted_wrt (\<lambda>p q. length (fst p) \<ge> length (fst q)) sp"
  shows "\<exists>p. (p, i) \<in> set sp \<and> prefix p text \<and> n = length p \<and>
    (\<forall>(q, j) \<in> set sp. prefix q text \<longrightarrow> length q \<le> n)"
  using assms
proof (induction sp "text" rule: first_match.induct)
  case (2 piece tid sp "text")
  show ?case
  proof (cases "prefix piece text")
    case True
    then show ?thesis using 2(2,3) by (intro exI [of _ piece]) auto
  next
    case False
    then have "first_match sp text = Some (n, i)" "sorted_wrt (\<lambda>p q. length (fst p) \<ge> length (fst q)) sp"
      using 2(2,3) by simp_all
    from 2(1) [OF False this] False show ?thesis by auto
  qed
qed simp

lemma first_match_None:
  "first_match sp text = None \<longleftrightarrow> (\<forall>(p, i) \<in> set sp. \<not> prefix p text)"
  by (induction sp "text" rule: first_match.induct) auto

definition special_at :: "(string \<times> u32) list \<Rightarrow> string \<Rightarrow> nat \<Rightarrow> string \<Rightarrow> u32 \<Rightarrow> bool" where
  "special_at sp text k p i \<longleftrightarrow>
     k < length text \<and> text ! k = CHR ''<'' \<and> (p, i) \<in> set sp \<and> prefix p (drop k text)"

lemma special_at_Cons:
  "special_at sp (c # cs) 0 p i \<longleftrightarrow> c = CHR ''<'' \<and> (p, i) \<in> set sp \<and> prefix p (c # cs)"
  "special_at sp (c # cs) (Suc k) p i \<longleftrightarrow> special_at sp cs k p i"
  by (simp_all add: special_at_def)

lemma find_special_from_correct:
  assumes "sorted_wrt (\<lambda>p q. length (fst p) \<ge> length (fst q)) sp"
  shows "case find_special_from sp s text of
      None \<Rightarrow> \<forall>k p i. \<not> special_at sp text k p i
    | Some (start, n, i) \<Rightarrow> s \<le> start \<and>
        (\<exists>p. special_at sp text (start - s) p i \<and> n = length p) \<and>
        (\<forall>q j. special_at sp text (start - s) q j \<longrightarrow> length q \<le> n) \<and>
        (\<forall>k q j. special_at sp text k q j \<longrightarrow> start - s \<le> k)"
proof (induction "text" arbitrary: s)
  case Nil
  then show ?case by (simp add: special_at_def)
next
  case (Cons c cs)
  show ?case
  proof (cases "c = CHR ''<'' \<and> first_match sp (c # cs) \<noteq> None")
    case True
    then obtain n i where m: "first_match sp (c # cs) = Some (n, i)" by auto
    then have r: "find_special_from sp s (c # cs) = Some (s, n, i)" using True by simp
    from first_match_Some [OF m assms] obtain p where "(p, i) \<in> set sp" "prefix p (c # cs)" "n = length p"
      "\<forall>(q, j) \<in> set sp. prefix q (c # cs) \<longrightarrow> length q \<le> n" by blast
    then show ?thesis using True unfolding r by (auto simp add: special_at_Cons simp del: find_special_from.simps)
  next
    case False
    then have none: "\<not> special_at sp (c # cs) 0 p i" for p i
      using first_match_None [of sp "c # cs"] by (auto simp: special_at_Cons)
    have r0: "find_special_from sp s (c # cs) = find_special_from sp (Suc s) cs"
      using False by (auto split: option.splits)
    show ?thesis
    proof (cases "find_special_from sp (Suc s) cs")
      case None
      then have "\<not> special_at sp cs k p i" for k p i using Cons.IH [of "Suc s"] by simp
      then have "\<not> special_at sp (c # cs) k p i" for k p i
        using none by (cases k) (simp_all add: special_at_Cons(2))
      then show ?thesis unfolding r0 None by simp
    next
      case (Some r)
      obtain start n i where r: "r = (start, n, i)" by (cases r)
      from Cons.IH [of "Suc s"] Some r have IH: "Suc s \<le> start"
        "\<exists>p. special_at sp cs (start - Suc s) p i \<and> n = length p"
        "\<forall>q j. special_at sp cs (start - Suc s) q j \<longrightarrow> length q \<le> n"
        "\<forall>k q j. special_at sp cs k q j \<longrightarrow> start - Suc s \<le> k" by auto
      have e: "start - s = Suc (start - Suc s)" using IH(1) by simp
      have "start - s \<le> k" if "special_at sp (c # cs) k q j" for k q j
      proof (cases k)
        case 0
        then show ?thesis using that none by simp
      next
        case (Suc k')
        then have "special_at sp cs k' q j" using that by (simp add: special_at_Cons(2))
        then have "start - Suc s \<le> k'" using IH(4) by blast
        then show ?thesis using Suc e by simp
      qed
      then have "\<forall>k q j. special_at sp (c # cs) k q j \<longrightarrow> start - s \<le> k" by blast
      moreover have "s \<le> start" using IH(1) by simp
      ultimately show ?thesis using IH(2,3) unfolding r0 Some r option.case prod.case e special_at_Cons(2)
        by blast
    qed
  qed
qed


subsection \<open>Character boundaries\<close>

lemma second_ok_cont: "second_ok a b \<Longrightarrow> is_cont b"
  by (auto simp: second_ok_def is_cont_def word_le_nat_alt split: if_splits)

lemma whole_inner_cont:
  assumes "utf8_head xs = Whole n" and "0 < k" and "k < n"
  shows "is_cont (xs ! k)"
proof -
  have "k = 1 \<or> k = 2 \<or> k = 3"
    using assms by (cases xs rule: list4_cases) (auto simp: Let_def split: if_splits)
  then show ?thesis
    using assms
    by (cases xs rule: list4_cases) (auto simp: Let_def second_ok_cont split: if_splits)
qed

lemma utf8_valid_before:
  "utf8_valid xs \<Longrightarrow> xs = a @ b \<Longrightarrow> b = [] \<or> \<not> is_cont (hd b) \<Longrightarrow> utf8_valid a"
proof (induction xs arbitrary: a rule: utf8_valid_induct)
  case Nil
  then show ?case by simp
next
  case (Char xs n)
  have n: "0 < n" "n \<le> length xs" using utf8_head_Whole [OF Char(1)] by simp_all
  show ?case
  proof (cases "a = [] \<or> n \<le> length a")
    case True
    then show ?thesis
    proof
      assume le: "n \<le> length a"
      have "utf8_head (take n a @ drop n a) = Whole n"
        using utf8_head_append [of "take n a" "drop n a"] utf8_head_take_Whole [OF Char(1)] le Char(4) by simp
      moreover have "utf8_valid (drop n a)"
        using Char(3) [of "drop n a"] Char(4,5) le by simp
      ultimately show ?thesis using utf8_valid_Whole [of a n] by simp
    qed simp
  next
    case False
    then have "is_cont (xs ! length a)" "b \<noteq> []"
      using whole_inner_cont [OF Char(1), of "length a"] n Char(4) by auto
    then show ?thesis using Char(4,5) by (cases b) simp_all
  qed
qed

lemma valid_head_not_cont: "utf8_valid b \<Longrightarrow> b \<noteq> [] \<Longrightarrow> \<not> is_cont (hd b)"
proof (cases b)
  case (Cons x r)
  assume "utf8_valid b"
  then obtain n where "utf8_head b = Whole n" using Cons by (auto elim: utf8_valid_cases)
  then have "utf8_width x \<noteq> 0" using Cons by (auto simp: Let_def split: if_splits)
  then show ?thesis
    using Cons by (auto simp: utf8_width_def is_cont_def word_le_nat_alt word_less_nat_alt split: if_splits)
qed simp

lemma str_split_valid:
  assumes "str_valid b"
  shows "str_split (a @ b) (length a) = Some (a, b)"
proof (cases b)
  case Nil
  then show ?thesis by (simp add: str_split_def is_char_boundary_def)
next
  case (Cons c cs)
  then have "\<not> is_cont (byte_of_char c)"
    using valid_head_not_cont [OF assms] by simp
  then show ?thesis by (simp add: str_split_def is_char_boundary_def Cons nth_append)
qed

subsection \<open>The encoder loop\<close>

definition specials_nonempty :: "vocab \<Rightarrow> bool" where
  "specials_nonempty v \<longleftrightarrow> list_all (\<lambda>(p, i). p \<noteq> []) (specials v)"

lemma find_special_Some:
  assumes "vocab_inv v" and "texts_valid v" and "str_valid text"
    and f: "find_special v text = Some (start, n, i)"
  obtains a p b where "text = a @ p @ b" "start = length a" "n = length p" "(p, i) \<in> set (specials v)"
    "str_valid a" "str_valid (p @ b)" "str_valid b" "byte_of v i = None" "piece_of v i = Some p" "str_valid p"
proof -
  have "sorted_wrt (\<lambda>p q. length (fst p) \<ge> length (fst q)) (specials v)"
    using assms(1) by (simp add: vocab_inv_def)
  from find_special_from_correct [OF this, of "text" 0] f obtain p where
    "special_at (specials v) text start p i" and n: "n = length p"
    by (auto simp: find_special_def)
  then have p: "start < length text" "text ! start = CHR ''<''" "(p, i) \<in> set (specials v)" "prefix p (drop start text)"
    by (simp_all add: special_at_def)
  then obtain b where b: "drop start text = p @ b" by (auto elim: prefixE)
  define a where "a = take start text"
  have t: "text = a @ p @ b" unfolding a_def using append_take_drop_id [of start "text"] b by simp
  have a: "start = length a" using p(1) by (simp add: a_def)
  have "byte_of_char (CHR ''<'') = 0x3C" by (simp add: byte_of_char_def)
  moreover have "p @ b \<noteq> []" "hd (p @ b) = CHR ''<''"
    using b p(1,2) hd_drop_conv_nth [OF p(1)] by auto
  ultimately have "\<not> is_cont (hd (bytes_of_str (p @ b)))"
    using hd_map [of "p @ b" byte_of_char] by (simp add: is_cont_def del: map_append)
  then have va: "str_valid a"
    using utf8_valid_before [of "bytes_of_str text" "bytes_of_str a" "bytes_of_str (p @ b)"] assms(3) t by simp
  then have vpb: "str_valid (p @ b)"
    using str_valid_append [of a "p @ b"] assms(3) t by simp
  have sp: "unat i < length (pieces v)" "special_type (types v ! unat i)" "pieces v ! unat i = p"
    using p(3) assms(1) by (auto simp: vocab_inv_def special_table_def)
  then have "byte_of v i = None"
    using byte_of_type [OF assms(1), of i]
    by (auto simp: token_type_of_def special_type_def split: if_splits)
  moreover have pi: "piece_of v i = Some p" using sp by (simp add: piece_of_def)
  moreover have vp: "str_valid p" by (rule piece_of_valid [OF assms(2) pi])
  moreover have "str_valid b" using str_valid_append [OF vp] vpb by simp
  ultimately show thesis using that t a n p(3) va vpb by blast
qed

lemma encode_loop_ok:
  assumes v: "readable v" and ne: "specials_nonempty v"
  shows "str_valid text \<Longrightarrow> \<exists>ids. encode_loop v text out = Some (out @ ids) \<and> list_all (id_ok v) ids \<and>
    (\<forall>is. boundary v is \<longrightarrow> decode_spec v [] (ids @ is) = unspace text @ decode_spec v [] is)"
proof (induction "length text" arbitrary: "text" out rule: less_induct)
  case less
  note inv = v [unfolded readable_def]
  have seg: "list_all (id_ok v) (bpe_spec v (initial_ids v t))" for t
    using id_ok_bpe id_ok_initial inv by blast
  show ?case
  proof (cases "text = []")
    case True
    then show ?thesis by (subst encode_loop.simps) simp
  next
    case False
    show ?thesis
    proof (cases "find_special v text")
      case None
      then have "encode_loop v text out = Some (out @ bpe_spec v (initial_ids v text))"
        using False by (subst encode_loop.simps) (simp add: encode_segment_spec)
      then show ?thesis using seg decode_segment [OF v less.prems] by auto
    next
      case (Some r)
      obtain start n i where r: "find_special v text = Some (start, n, i)" using Some by (cases r) simp
      obtain a p b where s: "text = a @ p @ b" "start = length a" "n = length p" "(p, i) \<in> set (specials v)"
        "str_valid a" "str_valid (p @ b)" "str_valid b" "byte_of v i = None" "piece_of v i = Some p" "str_valid p"
        by (rule find_special_Some [OF _ _ less.prems r]) (use inv in auto)
      have "p \<noteq> []" using ne s(4) by (auto simp: specials_nonempty_def list_all_iff)
      then have "length b < length text" by (simp add: s(1))
      from less.hyps [OF this s(7)] obtain ids where
        ids: "encode_loop v b (out @ bpe_spec v (initial_ids v a) @ [i]) =
            Some ((out @ bpe_spec v (initial_ids v a) @ [i]) @ ids)" "list_all (id_ok v) ids"
          "\<forall>is. boundary v is \<longrightarrow> decode_spec v [] (ids @ is) = unspace b @ decode_spec v [] is"
        by blast
      have split: "str_split text start = Some (a, p @ b)" "str_split text (start + n) = Some (a @ p, b)"
        using str_split_valid [OF s(6), of a] str_split_valid [OF s(7), of "a @ p"] by (simp_all add: s(1-3))
      have "encode_loop v text out = Some (out @ (bpe_spec v (initial_ids v a) @ [i] @ ids))"
        using False ids(1) by (subst encode_loop.simps) (simp add: r split encode_segment_spec)
      moreover have "list_all (id_ok v) (bpe_spec v (initial_ids v a) @ [i] @ ids)"
        using seg ids(2) s(9) by (simp add: id_ok_def)
      moreover have "decode_spec v [] ((bpe_spec v (initial_ids v a) @ [i] @ ids) @ is) =
          unspace text @ decode_spec v [] is" if "boundary v is" for "is"
      proof -
        have "boundary v (i # ids @ is)" by (simp add: boundary_def s(8))
        from decode_segment [OF v s(5) this] show ?thesis
          using ids(3) that s(5,8,9,10) by (simp add: s(1) unspace_append show_piece_valid)
      qed
      ultimately show ?thesis by blast
    qed
  qed
qed


end
