(* ===== verification/Vocab_Sample.thy ===== *)
theory Vocab_Sample
  imports Vocab
begin

text \<open>
  A small tokenizer description (five named tokens, four characters and merges, the 256 byte
  tokens) that passes validation. It instantiates the hypotheses about vocabularies.
\<close>

definition hex_char :: "nat \<Rightarrow> char" where
  "hex_char d = char_of (if d < 10 then 48 + d else 55 + d)"

definition byte_piece :: "nat \<Rightarrow> string" where
  "byte_piece b = ''<0x'' @ [hex_char (b div 16), hex_char (b mod 16)] @ ''>''"

definition sample_plain :: "string list" where
  "sample_plain = [''<pad>'', ''<eos>'', ''<bos>'', ''<unk>'', ''<turn|>'', ''a'', ''b'', ''ab'',
     str_of_bytes [0xE2, 0x96, 0x81]]"

definition sample_tokens :: "string list" where
  "sample_tokens = sample_plain @ map byte_piece [0..<256]"

definition sample_raws :: "32 word list" where
  "sample_raws = [3, 3, 3, 2, 3, 1, 1, 1, 1] @ replicate 256 6"

lemma sample_lengths [simp]: "length sample_tokens = 265" "length sample_raws = 265"
  by (simp_all add: sample_tokens_def sample_plain_def sample_raws_def)

definition sample_vocab_entries :: "(string \<times> meta_value) list" where
  "sample_vocab_entries =
     [(''tokenizer.ggml.model'', MString ''gemma4''),
      (''tokenizer.ggml.tokens'', MArray (ArrString sample_tokens)),
      (''tokenizer.ggml.scores'', MArray (ArrF32 (replicate 265 0))),
      (''tokenizer.ggml.token_type'', MArray (ArrI32 sample_raws)),
      (''tokenizer.ggml.merges'', MArray (ArrString [''a b''])),
      (''tokenizer.ggml.bos_token_id'', MU32 2),
      (''tokenizer.ggml.eos_token_id'', MU32 1),
      (''tokenizer.ggml.padding_token_id'', MU32 0),
      (''tokenizer.ggml.unknown_token_id'', MU32 3),
      (''tokenizer.ggml.add_bos_token'', MBool False)]"

definition meta_of_list :: "(string \<times> meta_value) list \<Rightarrow> metadata" where
  "meta_of_list es = fold (\<lambda>(k, v) m. fst (meta_insert m k v)) es metadata_default"

lemma fold_insert:
  "metadata_inv m \<Longrightarrow> distinct (map fst (entries m @ es)) \<Longrightarrow>
     metadata_inv (fold (\<lambda>(k, v) m. fst (meta_insert m k v)) es m) \<and>
     entries (fold (\<lambda>(k, v) m. fst (meta_insert m k v)) es m) = entries m @ es"
proof (induction es arbitrary: m)
  case Nil
  then show ?case by simp
next
  case (Cons e es)
  obtain k v where e: "e = (k, v)" by (cases e)
  have "meta_get m k = None"
    using Cons.prems(2) e by (auto simp: md.get_items [OF Cons.prems(1)] map_of_eq_None_iff)
  then have "entries (fst (meta_insert m k v)) = entries m @ [(k, v)]"
    using md.insert_new [OF Cons.prems(1)] by blast
  then show ?case
    using Cons.IH [OF md.inv_insert [OF Cons.prems(1)], of k v] Cons.prems(2) e by auto
qed

lemma meta_get_of_list:
  "distinct (map fst es) \<Longrightarrow> meta_get (meta_of_list es) k = map_of es k"
  using fold_insert [OF md.inv_empty, of es] md.get_items [of "meta_of_list es" k]
  by (simp add: meta_of_list_def metadata_default_def)

definition sample_meta :: metadata where
  "sample_meta = meta_of_list sample_vocab_entries"

lemma sample_meta_get: "meta_get sample_meta k = map_of sample_vocab_entries k"
  unfolding sample_meta_def by (rule meta_get_of_list) (simp add: sample_vocab_entries_def)

lemma hex_digit_char: "d < 16 \<Longrightarrow> hex_digit (hex_char d) = Some d"
  by (auto simp: hex_digit_def hex_char_def Let_def)

lemma hex_char_plus: "d < 16 \<Longrightarrow> hex_char d \<noteq> CHR ''+''"
proof
  assume "d < 16" "hex_char d = CHR ''+''"
  then have "hex_digit (CHR ''+'') = Some d" using hex_digit_char by metis
  then show False by (simp add: hex_digit_def)
qed

lemma parse_byte_pieces: "b < 256 \<Longrightarrow> parse_byte_piece (byte_piece b) = Some (of_nat b)"
proof -
  assume b: "b < 256"
  then have h: "b div 16 < 16" by simp
  have "b div 16 * 16 + b mod 16 = b" by simp
  with b show ?thesis
    by (simp add: parse_byte_piece_def byte_piece_def strip_suffix_def u8_from_hex_def
        hex_digit_char [OF h] hex_digit_char hex_char_plus [OF h])
qed

lemma byte_tokens_append: "byte_tokens (xs @ ys) = byte_tokens xs @ byte_tokens ys"
  by (simp add: byte_tokens_def map_filter_def)

lemma zip_replicate_bytes: "byte_tokens (zip ps (replicate (length ps) 6)) = List.map_filter parse_byte_piece ps"
  by (induction ps) (simp_all add: byte_tokens_def map_filter_def)

lemma map_filter_byte_pieces:
  "\<forall>b \<in> set bs. b < 256 \<Longrightarrow> List.map_filter parse_byte_piece (map byte_piece bs) = map of_nat bs"
  by (induction bs) (simp_all add: map_filter_def parse_byte_pieces)

lemma sample_zip:
  "zip sample_tokens sample_raws = zip sample_plain [3, 3, 3, 2, 3, 1, 1, 1, 1] @
     zip (map byte_piece [0..<256]) (replicate (length (map byte_piece [0..<256])) 6)"
  unfolding sample_tokens_def sample_raws_def by (subst zip_append) (simp_all add: sample_plain_def)

lemma sample_bytes: "byte_tokens (zip sample_tokens sample_raws) = map of_nat [0..<256]"
  unfolding sample_zip byte_tokens_append zip_replicate_bytes
  by (subst map_filter_byte_pieces) (simp_all add: byte_tokens_def map_filter_def sample_plain_def)

lemma sample_tokens_ok: "list_all token_ok (zip sample_tokens sample_raws)"
  unfolding sample_zip list_all_append
proof
  show "list_all token_ok (zip sample_plain [3, 3, 3, 2, 3, 1, 1, 1, 1])"
    by (simp add: sample_plain_def token_ok_def token_type_from_raw_def)
  show "list_all token_ok (zip (map byte_piece [0..<256]) (replicate (length (map byte_piece [0..<256])) 6))"
    by (auto simp: list_all_iff token_ok_def set_zip token_type_from_raw_def parse_byte_pieces
        simp del: upt_conv_Cons)
qed

lemma distinct_all_bytes: "distinct (map of_nat [0..<256] :: u8 list)"
proof -
  have "inj_on (of_nat :: nat \<Rightarrow> u8) {0..<256}"
  proof (rule inj_onI)
    fix x y assume "x \<in> {0..<256}" "y \<in> {0..<256}" "(of_nat x :: u8) = of_nat y"
    then have "unat (of_nat x :: u8) = unat (of_nat y :: u8)" "x < 256" "y < 256" by simp_all
    then show "x = y" by (simp add: unat_of_nat)
  qed
  then show ?thesis by (simp only: distinct_map distinct_upt set_upt simp_thms)
qed

lemma parse_sample_plain: "p \<in> set sample_plain \<Longrightarrow> parse_byte_piece p = None"
  by (auto simp: sample_plain_def parse_byte_piece_def char_of_byte_def strip_suffix_def)

lemma distinct_sample_tokens: "distinct sample_tokens"
proof -
  have "inj_on byte_piece {0..<256}"
  proof (rule inj_onI)
    fix x y assume xy: "x \<in> {0..<256}" "y \<in> {0..<256}" "byte_piece x = byte_piece y"
    then have "(of_nat x :: u8) = of_nat y"
      using parse_byte_pieces [of x] parse_byte_pieces [of y] by simp
    then have "unat (of_nat x :: u8) = unat (of_nat y :: u8)" by simp
    then show "x = y" using xy by (simp add: unat_of_nat)
  qed
  then have "distinct (map byte_piece [0..<256])"
    by (simp only: distinct_map distinct_upt set_upt simp_thms)
  moreover have "parse_byte_piece p \<noteq> None" if "p \<in> set (map byte_piece [0..<256])" for p
    using that by (auto simp: parse_byte_pieces)
  then have "set sample_plain \<inter> set (map byte_piece [0..<256]) = {}"
    using parse_sample_plain by fastforce
  moreover have "distinct sample_plain" by (simp add: sample_plain_def)
  ultimately show ?thesis unfolding sample_tokens_def by (simp only: distinct_append)
qed

lemma sample_describes: "describes sample_meta sample_tokens sample_raws [''a b'']"
proof -
  have "list_all (merge_ok sample_tokens) [''a b'']"
    by (simp add: merge_ok_def split_merge_def sample_tokens_def sample_plain_def)
  moreover have "names_piece sample_meta sample_tokens ''tokenizer.ggml.bos_token_id'' ''<bos>''"
    "names_piece sample_meta sample_tokens ''tokenizer.ggml.eos_token_id'' ''<eos>''"
    "names_piece sample_meta sample_tokens ''tokenizer.ggml.padding_token_id'' ''<pad>''"
    "names_piece sample_meta sample_tokens ''tokenizer.ggml.unknown_token_id'' ''<unk>''"
    by (simp_all add: names_piece_def accessor_defs meta_required_def meta_typed_def sample_meta_get
        sample_vocab_entries_def) (simp_all add: sample_tokens_def sample_plain_def)
  ultimately show ?thesis
    using distinct_sample_tokens distinct_all_bytes sample_tokens_ok
    by (simp add: describes_def sample_bytes accessor_defs meta_required_def meta_typed_def sample_meta_get
        sample_vocab_entries_def) (simp add: sample_tokens_def sample_plain_def turn_end_piece_def)
qed

definition sample_vocab :: vocab where
  "sample_vocab = projr (from_metadata sample_meta)"

lemma sample_vocab:
  "from_metadata sample_meta = Inr sample_vocab" "pieces sample_vocab = sample_tokens"
  "types sample_vocab = map (\<lambda>r. the (token_type_from_raw r)) sample_raws"
  "read_merges (piece_to_id sample_vocab) [''a b''] = Inr (merges sample_vocab)"
  using from_metadata_accepts [OF sample_describes] by (auto simp: sample_vocab_def)

lemma sample_vocab_inv: "vocab_inv sample_vocab"
  using from_metadata_ok [OF sample_vocab(1)]
  by (simp add: sample_vocab(2) sample_tokens_def sample_plain_def)

end
