(* ===== verification/Tokenizer_Props.thy ===== *)
theory Tokenizer_Props
  imports Tokenizer Vocab_Sample
begin

text \<open>
  The properties of the tokenizer (\<open>vocab.rs\<close>, \<open>bpe.rs\<close>, \<open>tokenizer.rs\<close> of
  \<open>crates/sg-tokenizer/src\<close>), with witnesses on the vocabulary of \<open>Vocab_Sample\<close>.
\<close>

subsection \<open>The sample vocabulary is readable\<close>

lemma sample_index: "k < 265 \<Longrightarrow> piece_to_id sample_vocab (sample_tokens ! k) = Some (of_nat k)"
proof -
  assume k: "k < 265"
  then have "unat (of_nat k :: u32) = k" by (intro unat_of_nat_u32) simp
  then show ?thesis
    using sample_vocab_inv k
    by (simp add: vocab_inv_def piece_index_def sample_vocab(2))
qed

lemma sample_ids:
  "piece_to_id sample_vocab ''a'' = Some 5" "piece_to_id sample_vocab ''b'' = Some 6"
  "piece_to_id sample_vocab ''ab'' = Some 7" "piece_to_id sample_vocab ws_mark = Some 8"
  using sample_index [of 5] sample_index [of 6] sample_index [of 7] sample_index [of 8]
  by (simp_all add: sample_tokens_def sample_plain_def ws_mark_def)

lemma sample_merges: "merges sample_vocab = [(5, 6) \<mapsto> (0, 7)]"
  using sample_vocab(4) by (simp add: read_merges_def merge_step_def split_merge_def sample_ids)

lemma sample_type:
  "token_type_of sample_vocab i = (if unat i < 265 then
     Some (the (token_type_from_raw (sample_raws ! unat i))) else None)"
  by (simp add: token_type_of_def sample_vocab(3))

lemma sample_texts_valid: "texts_valid sample_vocab"
proof -
  have "str_valid p" if "p \<in> set (map byte_piece [0..<256])" for p
  proof -
    have "byte_of_char (hex_char d) < 0x80" if "d < 16" for d
      using that by (simp add: hex_char_def byte_of_char_def word_less_nat_alt unat_of_nat)
    then show ?thesis
      using that by (auto simp: byte_piece_def byte_of_char_def intro!: utf8_valid_ascii)
  qed
  moreover have "list_all str_valid sample_plain" by code_simp
  ultimately show ?thesis
    by (auto simp: texts_valid_def sample_vocab(2) sample_tokens_def list_all_iff)
qed

lemma sample_readable: "readable sample_vocab"
  using sample_vocab_inv sample_texts_valid
  by (auto simp: readable_def merges_pure_def merge_of_def sample_merges sample_type sample_raws_def
      id_of_def sample_ids token_type_from_raw_def split: if_splits)

lemma sample_specials: "(p, i) \<in> set (specials sample_vocab) \<longleftrightarrow>
    unat i < 265 \<and> special_type (the (token_type_from_raw (sample_raws ! unat i))) \<and> sample_tokens ! unat i = p"
  using sample_vocab_inv
  by (auto simp add: vocab_inv_def special_table_def sample_vocab(2,3))

lemma sample_specials_nonempty: "specials_nonempty sample_vocab"
proof -
  have "[] \<notin> set sample_tokens"
    by (auto simp: sample_tokens_def sample_plain_def byte_piece_def)
  then show ?thesis
    by (auto simp: specials_nonempty_def list_all_iff sample_specials) (metis nth_mem sample_lengths(1))
qed

subsection \<open>Vocabulary\<close>

text \<open>
  C16: Every vocabulary that passes validation has consistent tables: pieces and ids are in
  one-to-one correspondence, each of the 256 byte values has a byte token that maps back to
  it, the special tokens are exactly the control and user-defined ones and are listed longest
  first, every merge concatenates two non-empty pieces into a piece of the table, and the named
  ids are the ids of their pieces.
\<close>

theorem vocab_consistent:
  assumes "from_metadata m = Inr v" and "vocab_len v \<le> 2 ^ 32"
  shows "vocab_inv v \<and> named_ids_ok v \<and> (\<forall>b. byte_of v (byte_id v b) = Some b)"
  using from_metadata_ok [OF assms(1)] assms(2) byte_of_byte_id by (simp add: vocab_len_def)

theorem vocab_consistent_witness:
  "vocab_inv sample_vocab \<and> named_ids_ok sample_vocab \<and>
    (\<forall>b. byte_of sample_vocab (byte_id sample_vocab b) = Some b)"
  by (rule vocab_consistent [OF sample_vocab(1)]) (simp add: vocab_len_def sample_vocab(2))

text \<open>
  C17: Validation refuses no well-formed description: if the metadata has the expected model,
  flags, arrays of equal length, distinct pieces, valid types, one byte token for each of
  the 256 bytes, merges over the pieces and the five named tokens, a vocabulary with exactly
  these tokens and types is built.
\<close>

theorem vocab_accepted:
  assumes "describes m tokens raws ms"
  shows "\<exists>v. from_metadata m = Inr v \<and> pieces v = tokens \<and>
    types v = map (\<lambda>r. the (token_type_from_raw r)) raws"
  using from_metadata_accepts [OF assms] by blast

theorem vocab_accepted_witness:
  "\<exists>v. from_metadata sample_meta = Inr v \<and> pieces v = sample_tokens \<and>
    types v = map (\<lambda>r. the (token_type_from_raw r)) sample_raws"
  by (rule vocab_accepted [OF sample_describes])

subsection \<open>The merge engine\<close>

text \<open>
  C1: The heap-driven engine computes BPE: on any text and any merge table, \<open>encode_segment\<close>
  terminates without a panic and appends the fixed point of \<open>replace the leftmost adjacent pair
  of least rank\<close>, started from one id per character or its byte tokens. Stale heap entries
  never change the result.
\<close>

theorem encode_segment_is_bpe:
  "encode_segment v text out = Some (out @ bpe_spec v (initial_ids v text))"
  by (rule encode_segment_spec)

subsection \<open>Special tokens\<close>

text \<open>
  C19: The special token found is the leftmost, and among those at that position a longest one;
  none is found only if none occurs at a \<open><\<close> of the text.
\<close>

theorem find_special_leftmost_longest:
  assumes "vocab_inv v"
  shows "case find_special v text of
      None \<Rightarrow> \<forall>k p i. \<not> special_at (specials v) text k p i
    | Some (start, n, i) \<Rightarrow>
        (\<exists>p. special_at (specials v) text start p i \<and> n = length p) \<and>
        (\<forall>q j. special_at (specials v) text start q j \<longrightarrow> length q \<le> n) \<and>
        (\<forall>k q j. special_at (specials v) text k q j \<longrightarrow> start \<le> k)"
  using find_special_from_correct [of "specials v" "text" 0] assms
  by (auto simp: vocab_inv_def find_special_def split: option.splits)

theorem find_special_leftmost_longest_witness:
  "case find_special sample_vocab ''a<bos>'' of
      None \<Rightarrow> \<forall>k p i. \<not> special_at (specials sample_vocab) ''a<bos>'' k p i
    | Some (start, n, i) \<Rightarrow>
        (\<exists>p. special_at (specials sample_vocab) ''a<bos>'' start p i \<and> n = length p) \<and>
        (\<forall>q j. special_at (specials sample_vocab) ''a<bos>'' start q j \<longrightarrow> length q \<le> n) \<and>
        (\<forall>k q j. special_at (specials sample_vocab) ''a<bos>'' k q j \<longrightarrow> start \<le> k)"
  by (rule find_special_leftmost_longest [OF sample_vocab_inv])

definition is_special :: "vocab \<Rightarrow> u32 \<Rightarrow> bool" where
  "is_special v i \<longleftrightarrow> (case token_type_of v i of None \<Rightarrow> False | Some ty \<Rightarrow> special_type ty)"

text \<open>No merge produces a special token, and no special piece is a single character.\<close>

definition plain_table :: "vocab \<Rightarrow> bool" where
  "plain_table v \<longleftrightarrow>
     (\<forall>l r k m. merge_of v l r = Some (k, m) \<longrightarrow> \<not> is_special v m) \<and>
     (\<forall>p i. id_of v p = Some i \<longrightarrow> length p \<le> 4 \<longrightarrow> \<not> is_special v i)"

lemma plain_initial:
  assumes "vocab_inv v" and "plain_table v"
  shows "list_all (\<lambda>i. \<not> is_special v i) (initial_ids v text)"
proof -
  have "\<not> is_special v i" if c: "c \<in> set (chars_of text)" and i: "i \<in> set (char_ids v c)" for c i
  proof (cases "id_of v (normalize_char c)")
    case (Some j)
    then show ?thesis
      using i assms(2) char_length [OF normalize_char_char [OF chars_of_char [OF c]]]
      by (auto simp: char_ids_def plain_table_def)
  next
    case None
    then obtain b where "i = byte_id v b" using i by (auto simp: char_ids_def)
    then have "token_type_of v i = Some Byte"
      using byte_of_byte_id [OF assms(1), of b] byte_of_type [OF assms(1), of i] by simp
    then show ?thesis by (simp add: is_special_def special_type_def)
  qed
  then show ?thesis by (auto simp: initial_ids_alt list_all_iff)
qed

lemma plain_bpe:
  assumes "plain_table v" and "list_all (\<lambda>i. \<not> is_special v i) ids"
  shows "list_all (\<lambda>i. \<not> is_special v i) (bpe_spec v ids)"
proof (rule bpe_spec_invariant [where P = "list_all (\<lambda>i. \<not> is_special v i)", OF assms(2)])
  fix xs l r ys k m
  assume "list_all (\<lambda>i. \<not> is_special v i) (xs @ l # r # ys)" "merge_of v l r = Some (k, m)"
  then show "list_all (\<lambda>i. \<not> is_special v i) (xs @ m # ys)"
    using assms(1) by (simp add: plain_table_def)
qed

text \<open>
  C18: Text encoded as plain content cannot inject a control token: whatever it spells,
  no special id is in the result, for vocabularies whose merges do not produce special pieces.
\<close>

theorem plain_no_injection:
  assumes "vocab_inv v" and "plain_table v"
  shows "\<exists>ids. encode v text Plain = Some ids \<and> list_all (\<lambda>i. \<not> is_special v i) ids"
  using plain_bpe [OF assms(2) plain_initial [OF assms]]
  by (simp add: encode_def encode_segment_spec)

lemma sample_plain_table: "plain_table sample_vocab"
proof -
  have "\<not> is_special sample_vocab i" if "id_of sample_vocab p = Some i" "length p \<le> 4" for p i
  proof
    assume "is_special sample_vocab i"
    then have i: "unat i < 265" "special_type (the (token_type_from_raw (sample_raws ! unat i)))"
      by (auto simp: is_special_def sample_type split: if_splits)
    have "unat i < 5"
    proof (rule ccontr)
      assume "\<not> unat i < 5"
      then have "\<not> special_type (the (token_type_from_raw (sample_raws ! unat i)))"
        using i(1) by (cases "unat i < 9")
          (auto simp: sample_raws_def nth_append special_type_def token_type_from_raw_def nth_Cons')
      then show False using i(2) by simp
    qed
    moreover have "sample_tokens ! unat i = p"
      using that(1) sample_vocab_inv by (simp add: id_of_def vocab_inv_def piece_index_def sample_vocab(2))
    ultimately show False
      using that(2) by (auto simp: sample_tokens_def sample_plain_def nth_Cons' split: if_splits)
  qed
  then show ?thesis
    by (auto simp: plain_table_def merge_of_def sample_merges is_special_def sample_type sample_raws_def
        token_type_from_raw_def special_type_def split: if_splits)
qed

theorem plain_no_injection_witness:
  "\<exists>ids. encode sample_vocab ''a<bos> b'' Plain = Some ids \<and>
    list_all (\<lambda>i. \<not> is_special sample_vocab i) ids"
  by (rule plain_no_injection [OF sample_vocab_inv sample_plain_table])

subsection \<open>Decoding\<close>

text \<open>
  C20: \<open>decode\<close> never panics. It fails exactly if some id is out of range, with the first such
  id; otherwise maximal runs of byte tokens decode lossily as a whole and every other piece
  is shown with U+2581 turned into a space.
\<close>

theorem decode_total:
  "decode v ids = Some (case find (\<lambda>i. \<not> id_ok v i) ids of
     None \<Rightarrow> Inr (decode_spec v [] ids) | Some i \<Rightarrow> Inl (IdOutOfRange i))"
  by (rule decode_correct)

text \<open>
  C2: Decoding inverts encoding, in both modes: for a vocabulary in which U+2581 is a piece
  and byte tokens take no part in merges, encoding any text terminates without a panic, and
  decoding the ids gives the text back with U+2581 turned into a space; a text without that
  character comes back unchanged, whatever bytes, unknown characters or special tokens
  it contains.
\<close>

theorem decode_encode:
  assumes "readable v" and "specials_nonempty v" and "str_valid text"
  shows "\<exists>ids. encode v text sp = Some ids \<and> decode v ids = Some (Inr (unspace text)) \<and>
    (\<not> sublist ws_mark text \<longrightarrow> decode v ids = Some (Inr text))"
proof -
  have "\<exists>ids. encode v text sp = Some ids \<and> list_all (id_ok v) ids \<and> decode_spec v [] ids = unspace text"
  proof (cases sp)
    case Plain
    have "list_all (id_ok v) (bpe_spec v (initial_ids v text))"
      using id_ok_bpe id_ok_initial assms(1) by (simp add: readable_def)
    then show ?thesis
      using decode_segment [OF assms(1,3), of "[]"]
      by (simp add: Plain encode_def encode_segment_spec boundary_def lossy_valid)
  next
    case Match
    then show ?thesis
      using encode_loop_ok [OF assms, of "[]"] by (auto simp: encode_def boundary_def lossy_valid)
  qed
  then obtain ids where ids: "encode v text sp = Some ids" "list_all (id_ok v) ids"
    "decode_spec v [] ids = unspace text" by blast
  have "find (\<lambda>i. \<not> id_ok v i) ids = None"
    using ids(2) by (auto simp: find_None_iff list_all_iff)
  then have "decode v ids = Some (Inr (unspace text))" by (simp add: decode_correct ids(3))
  then show ?thesis using ids(1) unspace_no_mark [OF assms(3)] by auto
qed

theorem decode_encode_witness:
  "\<exists>ids. encode sample_vocab ''<bos> ab!'' Match = Some ids \<and>
    decode sample_vocab ids = Some (Inr (unspace ''<bos> ab!'')) \<and>
    (\<not> sublist ws_mark ''<bos> ab!'' \<longrightarrow> decode sample_vocab ids = Some (Inr ''<bos> ab!''))"
  by (rule decode_encode [OF sample_readable sample_specials_nonempty])
    (rule utf8_valid_ascii, simp add: byte_of_char_def)


end
