(* ===== verification/Json.thy ===== *)
theory Json
  imports Utf8 "HOL-Library.Sublist" "HOL-Library.List_Lexorder" "HOL-Library.Char_ord"
begin

text \<open>
  JSON values as \<open>serde_json\<close> (with \<open>preserve_order\<close>) keeps them, and the string operations of
  the standard library that the chat template and the tool-call parser use. Numbers belong to
  \<open>serde_json\<close>: they are a type parameter with the operations of \<open>num_ops\<close>. The Unicode case
  mappings are a parameter (\<open>casing\<close>) as well; Unicode white space is modelled exactly.
\<close>

datatype 'n json =
    JNull
  | JBool bool
  | JNum 'n
  | JStr string
  | JArr "'n json list"
  | JObj "(string \<times> 'n json) list"

record 'n num_ops =
  num_of_i64 :: "64 word \<Rightarrow> 'n"                 \<comment> \<open>\<open>Number::from(i64)\<close>\<close>
  num_of_float_text :: "string \<Rightarrow> 'n option"    \<comment> \<open>\<open>parse::<f64>\<close>, then \<open>Number::from_f64\<close>\<close>
  num_text :: "'n \<Rightarrow> string"                     \<comment> \<open>\<open>Number::to_string\<close>\<close>
  num_is_zero :: "'n \<Rightarrow> bool"                    \<comment> \<open>\<open>n.as_f64() == Some(0.0)\<close>\<close>

record casing =
  to_lower :: "string \<Rightarrow> string"
  to_upper :: "string \<Rightarrow> string"

text \<open>\<open>Map::insert\<close>: an existing key keeps its place and gets the new value.\<close>

fun map_insert :: "string \<Rightarrow> 'n json \<Rightarrow> (string \<times> 'n json) list \<Rightarrow> (string \<times> 'n json) list" where
  "map_insert k v [] = [(k, v)]"
| "map_insert k v ((k', v') # m) = (if k' = k then (k, v) # m else (k', v') # map_insert k v m)"

fun json_get :: "'n json \<Rightarrow> string \<Rightarrow> 'n json option" where
  "json_get (JObj m) key = map_of m key"
| "json_get _ key = None"

lemma map_insert_new: "k \<notin> set (map fst m) \<Longrightarrow> map_insert k v m = m @ [(k, v)]"
  by (induction m) auto

lemma map_of_insert: "map_of (map_insert k v m) = (map_of m)(k \<mapsto> v)"
  by (induction k v m rule: map_insert.induct) (auto simp: fun_eq_iff)

lemma map_insert_keys: "fst ` set (map_insert k v m) = insert k (fst ` set m)"
  by (induction k v m rule: map_insert.induct) auto

lemma map_insert_distinct: "distinct (map fst m) \<Longrightarrow> distinct (map fst (map_insert k v m))"
  by (induction k v m rule: map_insert.induct) (auto simp: map_insert_keys simp flip: image_set)

subsection \<open>White space\<close>

text \<open>The encodings of the characters with the property \<open>White_Space\<close>.\<close>

definition ws_chars :: "string list" where
  "ws_chars = map str_of_bytes
     ([[0x09], [0x0A], [0x0B], [0x0C], [0x0D], [0x20], [0xC2, 0x85], [0xC2, 0xA0], [0xE1, 0x9A, 0x80]] @
      map (\<lambda>b. [0xE2, 0x80, b]) [0x80, 0x81, 0x82, 0x83, 0x84, 0x85, 0x86, 0x87, 0x88, 0x89, 0x8A, 0xA8, 0xA9, 0xAF] @
      [[0xE2, 0x81, 0x9F], [0xE3, 0x80, 0x80]])"

definition ws_prefix :: "string \<Rightarrow> nat" where
  "ws_prefix s = (case find (\<lambda>w. prefix w s) ws_chars of None \<Rightarrow> 0 | Some w \<Rightarrow> length w)"

lemma ws_chars_nonempty: "w \<in> set ws_chars \<Longrightarrow> w \<noteq> []"
  by (auto simp: ws_chars_def)

lemma ws_prefix_le: "ws_prefix s \<le> length s"
  by (auto simp: ws_prefix_def find_Some_iff dest: prefix_length_le split: option.splits)

function trim_start :: "string \<Rightarrow> string" where
  "trim_start s = (if ws_prefix s = 0 then s else trim_start (drop (ws_prefix s) s))"
  by pat_completeness auto
termination
proof (relation "measure length")
  fix s assume "ws_prefix s \<noteq> 0"
  then show "(drop (ws_prefix s) s, s) \<in> measure length"
    using ws_prefix_le [of s] by (cases s) auto
qed simp

declare trim_start.simps [simp del]

definition ws_suffix :: "string \<Rightarrow> nat" where
  "ws_suffix s = (case find (\<lambda>w. suffix w s) ws_chars of None \<Rightarrow> 0 | Some w \<Rightarrow> length w)"

lemma ws_suffix_le: "ws_suffix s \<le> length s"
  by (auto simp: ws_suffix_def find_Some_iff dest: suffix_length_le split: option.splits)

function trim_end :: "string \<Rightarrow> string" where
  "trim_end s = (if ws_suffix s = 0 then s else trim_end (take (length s - ws_suffix s) s))"
  by pat_completeness auto
termination
proof (relation "measure length")
  fix s assume "ws_suffix s \<noteq> 0"
  then show "(take (length s - ws_suffix s) s, s) \<in> measure length"
    using ws_suffix_le [of s] by (cases s) auto
qed simp

declare trim_end.simps [simp del]

definition trim :: "string \<Rightarrow> string" where
  "trim s = trim_end (trim_start s)"

lemma length_trim_start: "length (trim_start s) \<le> length s"
proof (induction s rule: trim_start.induct)
  case (1 s)
  then show ?case by (cases "ws_prefix s = 0") (auto simp: trim_start.simps [of s])
qed

subsection \<open>Searching\<close>

fun find_any :: "char list \<Rightarrow> string \<Rightarrow> nat option" where
  "find_any cs [] = None"
| "find_any cs (x # xs) = (if x \<in> set cs then Some 0 else map_option Suc (find_any cs xs))"

fun find_str :: "string \<Rightarrow> string \<Rightarrow> nat option" where
  "find_str pat [] = (if pat = [] then Some 0 else None)"
| "find_str pat (x # xs) =
     (if prefix pat (x # xs) then Some 0 else map_option Suc (find_str pat xs))"

lemma find_any_Some:
  "find_any cs s = Some n \<Longrightarrow> n < length s \<and> s ! n \<in> set cs \<and> set (take n s) \<inter> set cs = {}"
  by (induction cs s arbitrary: n rule: find_any.induct) (auto split: if_splits)

lemma find_any_None: "find_any cs s = None \<longleftrightarrow> set s \<inter> set cs = {}"
  by (induction cs s rule: find_any.induct) auto

lemma find_any_append: "set a \<inter> set cs = {} \<Longrightarrow> c \<in> set cs \<Longrightarrow> find_any cs (a @ c # b) = Some (length a)"
  by (induction a) auto

lemma find_str_Some: "find_str pat s = Some n \<Longrightarrow> n + length pat \<le> length s \<and> prefix pat (drop n s)"
proof (induction pat s arbitrary: n rule: find_str.induct)
  case (2 pat x xs)
  then show ?case by (fastforce split: if_splits dest: prefix_length_le)
qed (simp split: if_splits)

text \<open>\<open>str::split\<close> and \<open>str::split_once\<close> with a non-empty pattern.\<close>

definition split_once_str :: "string \<Rightarrow> string \<Rightarrow> (string \<times> string) option" where
  "split_once_str pat s = map_option (\<lambda>n. (take n s, drop (n + length pat) s)) (find_str pat s)"

function split_str :: "string \<Rightarrow> string \<Rightarrow> string list" where
  "split_str pat s =
     (if pat = [] then [s]
      else case find_str pat s of
        None \<Rightarrow> [s]
      | Some n \<Rightarrow> take n s # split_str pat (drop (n + length pat) s))"
  by pat_completeness auto
termination
proof (relation "measure (\<lambda>(pat, s). length s)")
  fix pat s :: string and n
  assume "pat \<noteq> []" "find_str pat s = Some n"
  then show "((pat, drop (n + length pat) s), pat, s) \<in> measure (\<lambda>(pat, s). length s)"
    using find_str_Some [of pat s n] by (cases pat) auto
qed simp

declare split_str.simps [simp del]

end
