(* ===== verification/Template.thy ===== *)
theory Template
  imports Json
begin

text \<open>
  \<open>crates/sg-tokenizer/src/template.rs\<close>: the port of the Gemma 4 chat template. The functions of
  the source append to an output string; here they return what they append. \<open>comma\<close> with its
  flag \<open>add_comma\<close>, and the \<open>if i > 0\<close> of the loops, put a comma between the parts: \<open>join\<close>.
\<close>

definition quote_mark :: string where "quote_mark = ''<|\"|>''"

fun join :: "string \<Rightarrow> string list \<Rightarrow> string" where
  "join sep [] = []"
| "join sep [x] = x"
| "join sep (x # y # xs) = x @ sep @ join sep (y # xs)"

subsection \<open>Messages\<close>

datatype chat_role = System | User | Assistant | Tool

record 'n tool_call_msg =
  tc_id :: "string option"
  tc_name :: string
  tc_arguments :: "'n json"

record 'n chat_message =
  role :: chat_role
  content :: string
  reasoning :: "string option"
  tool_calls :: "'n tool_call_msg list"
  tool_call_id :: "string option"
  tool_name :: "string option"

definition chat_text :: "chat_role \<Rightarrow> string \<Rightarrow> 'n chat_message" where
  "chat_text r s = \<lparr>role = r, content = s, reasoning = None, tool_calls = [], tool_call_id = None,
     tool_name = None\<rparr>"

record 'n tool_decl =
  td_name :: string
  td_description :: string
  td_parameters :: "'n json"
  td_response :: "'n json option"

record prompt_options =
  add_generation_prompt :: bool
  enable_thinking :: bool

datatype prev_type = PrevNone | PrevThink | PrevTool | PrevToolCall | PrevToolResponse

subsection \<open>Values\<close>

definition dictsort :: "casing \<Rightarrow> (string \<times> 'n json) list \<Rightarrow> (string \<times> 'n json) list" where
  "dictsort c m = sort_key (\<lambda>(k, v). to_lower c k) m"

lemma set_dictsort [simp]: "set (dictsort c m) = set m"
  by (simp add: dictsort_def)

lemma size_in_map [termination_simp]: "(k, v) \<in> set m \<Longrightarrow> size v < Suc (size_list (size_prod (\<lambda>_. 0) size) m)"
  by (induction m) auto

lemma size_in_list [termination_simp]: "v \<in> set m \<Longrightarrow> size v < Suc (size_list size m)"
  by (induction m) auto

function format_argument :: "'n num_ops \<Rightarrow> casing \<Rightarrow> 'n json \<Rightarrow> bool \<Rightarrow> string" where
  "format_argument n c (JStr s) escape_keys = quote_mark @ s @ quote_mark"
| "format_argument n c (JBool b) escape_keys = (if b then ''true'' else ''false'')"
| "format_argument n c (JObj m) escape_keys =
     ''{'' @ join '','' (map (\<lambda>(key, v).
       (if escape_keys then quote_mark @ key @ quote_mark else key) @ '':'' @
       format_argument n c v escape_keys) (dictsort c m)) @ ''}''"
| "format_argument n c (JArr items) escape_keys =
     ''['' @ join '','' (map (\<lambda>v. format_argument n c v escape_keys) items) @ '']''"
| "format_argument n c JNull escape_keys = ''None''"
| "format_argument n c (JNum x) escape_keys = num_text n x"
  by pat_completeness auto
termination
  by (relation "measure (\<lambda>(n, c, v, e). size v)") (auto simp: size_in_map size_in_list)

definition push_quoted_list :: "'n num_ops \<Rightarrow> casing \<Rightarrow> 'n json list \<Rightarrow> string" where
  "push_quoted_list n c items = join '','' (map (\<lambda>item.
     quote_mark @ (case item of JStr s \<Rightarrow> s | other \<Rightarrow> format_argument n c other True) @ quote_mark) items)"

fun truthy :: "'n num_ops \<Rightarrow> 'n json \<Rightarrow> bool" where
  "truthy n JNull = False"
| "truthy n (JBool b) = b"
| "truthy n (JNum x) = (\<not> num_is_zero n x)"
| "truthy n (JStr s) = (s \<noteq> [])"
| "truthy n (JArr a) = (a \<noteq> [])"
| "truthy n (JObj m) = (m \<noteq> [])"

fun upper :: "'n num_ops \<Rightarrow> casing \<Rightarrow> 'n json \<Rightarrow> string" where
  "upper n c (JStr s) = to_upper c s"
| "upper n c other = to_upper c (format_argument n c other True)"

text \<open>\<open>value.get(key).filter(truthy)\<close>\<close>

definition get_truthy :: "'n num_ops \<Rightarrow> 'n json \<Rightarrow> string \<Rightarrow> 'n json option" where
  "get_truthy n v key =
     (case json_get v key of None \<Rightarrow> None | Some x \<Rightarrow> if truthy n x then Some x else None)"

subsection \<open>Schemas\<close>

definition standard_keys :: "string list" where
  "standard_keys = [''description'', ''type'', ''properties'', ''required'', ''nullable'']"

lemma json_get_size: "json_get v key = Some x \<Longrightarrow> size x < size v"
  by (cases v) (auto dest!: map_of_SomeD size_in_map)

lemma get_truthy_get: "get_truthy n v key = Some x \<Longrightarrow> json_get v key = Some x"
  by (auto simp: get_truthy_def split: option.splits if_splits)

abbreviation map_size :: "(string \<times> 'n json) list \<Rightarrow> nat" where
  "map_size m \<equiv> size_list (size_prod (\<lambda>_. 0) size) m"

lemma map_size_member: "(k, JObj m) \<in> set props \<Longrightarrow> map_size m < map_size props"
  using size_in_map [of k "JObj m" props] by simp

lemma map_size_get: "(k, v) \<in> set props \<Longrightarrow> json_get v key = Some (JObj m) \<Longrightarrow> map_size m < map_size props"
  using size_in_map [of k v props] json_get_size [of v key "JObj m"] by simp

lemma map_size_items:
  "(k, v) \<in> set props \<Longrightarrow> json_get v key = Some (JObj items) \<Longrightarrow> (k', JObj m) \<in> set items \<Longrightarrow>
     map_size m < map_size props"
  using map_size_get [of k v props key items] map_size_member [of k' m items] by simp

text \<open>The parts of one property that need no recursion.\<close>

definition description_part :: "'n num_ops \<Rightarrow> 'n json \<Rightarrow> string list" where
  "description_part n v =
     (case get_truthy n v ''description'' of
        Some (JStr desc) \<Rightarrow> [''description:'' @ quote_mark @ desc @ quote_mark]
      | _ \<Rightarrow> [])"

definition enum_part :: "'n num_ops \<Rightarrow> casing \<Rightarrow> 'n json \<Rightarrow> string list" where
  "enum_part n c v =
     (case get_truthy n v ''enum'' of
        Some en \<Rightarrow> [''enum:'' @ format_argument n c en True]
      | None \<Rightarrow> [])"

definition nullable_part :: "'n num_ops \<Rightarrow> 'n json \<Rightarrow> string list" where
  "nullable_part n v =
     (case json_get v ''nullable'' of
        Some x \<Rightarrow> if truthy n x then [''nullable:true''] else []
      | None \<Rightarrow> [])"

definition required_part :: "'n num_ops \<Rightarrow> casing \<Rightarrow> 'n json \<Rightarrow> string list" where
  "required_part n c v =
     (case get_truthy n v ''required'' of
        Some (JArr req) \<Rightarrow> [''required:['' @ push_quoted_list n c req @ '']'']
      | _ \<Rightarrow> [])"

definition item_type :: "'n num_ops \<Rightarrow> casing \<Rightarrow> 'n json \<Rightarrow> string" where
  "item_type n c v = ''type:'' @
     (case v of
        JStr _ \<Rightarrow> format_argument n c (JStr (upper n c v)) True
      | JArr types \<Rightarrow> format_argument n c (JArr (map (\<lambda>t. JStr (upper n c t)) types)) True
      | other \<Rightarrow> format_argument n c other True)"

definition type_of :: "'n num_ops \<Rightarrow> casing \<Rightarrow> 'n json \<Rightarrow> string" where
  "type_of n c v = (case json_get v ''type'' of None \<Rightarrow> [] | Some t \<Rightarrow> upper n c t)"

function format_parameters :: "'n num_ops \<Rightarrow> casing \<Rightarrow> (string \<times> 'n json) list \<Rightarrow> bool \<Rightarrow> string" where
  "format_parameters n c props filter_keys =
     join '','' (map (\<lambda>(key, v).
       key @ '':{'' @ join '',''
         (description_part n v @
          (if type_of n c v = ''STRING'' then enum_part n c v
           else if type_of n c v = ''ARRAY'' then
             (case get_truthy n v ''items'' of
                Some (JObj items) \<Rightarrow>
                  [''items:{'' @ join '','' (map (\<lambda>(ikey, ivalue).
                     if ikey = ''properties'' then
                       ''properties:{'' @
                       (case ivalue of JObj m \<Rightarrow> format_parameters n c m False | _ \<Rightarrow> []) @ ''}''
                     else if ikey = ''required'' then
                       ''required:['' @ (case ivalue of JArr req \<Rightarrow> push_quoted_list n c req | _ \<Rightarrow> []) @ '']''
                     else if ikey = ''type'' then item_type n c ivalue
                     else ikey @ '':'' @ format_argument n c ivalue True)
                    (filter (\<lambda>(_, ivalue). ivalue \<noteq> JNull) (dictsort c items))) @ ''}'']
              | _ \<Rightarrow> [])
           else []) @
          nullable_part n v @
          (if type_of n c v = ''OBJECT'' then
             (case json_get v ''properties'' of
                Some (JObj m) \<Rightarrow> [''properties:{'' @ format_parameters n c m False @ ''}'']
              | _ \<Rightarrow>
                  (case v of
                     JObj m \<Rightarrow> [''properties:{'' @ format_parameters n c m True @ ''}'']
                   | _ \<Rightarrow> [])) @
             required_part n c v
           else []) @
          [''type:'' @ quote_mark @ type_of n c v @ quote_mark]) @ ''}'')
      (filter (\<lambda>(key, _). \<not> (filter_keys \<and> key \<in> set standard_keys)) (dictsort c props)))"
  by pat_completeness auto
termination
  by (relation "measure (\<lambda>(n, c, m, f). map_size m)")
    (auto dest: map_size_member map_size_get map_size_items dest!: get_truthy_get simp del: json_get.simps)

declare format_parameters.simps [simp del]

definition render_declaration :: "'n num_ops \<Rightarrow> casing \<Rightarrow> 'n tool_decl \<Rightarrow> string" where
  "render_declaration n c tool =
     (let params = td_parameters tool in
      ''declaration:'' @ td_name tool @ ''{description:'' @ quote_mark @ td_description tool @ quote_mark @
      (if truthy n params then
         '',parameters:{'' @
         (case get_truthy n params ''properties'' of
            Some props \<Rightarrow>
              ''properties:{'' @
              (case props of JObj m \<Rightarrow> format_parameters n c m False | _ \<Rightarrow> []) @ ''},''
          | None \<Rightarrow> []) @
         (case get_truthy n params ''required'' of
            Some (JArr required) \<Rightarrow> ''required:['' @ push_quoted_list n c required @ ''],''
          | _ \<Rightarrow> []) @
         (case get_truthy n params ''type'' of
            Some ty \<Rightarrow> ''type:'' @ quote_mark @ upper n c ty @ quote_mark @ ''}''
          | None \<Rightarrow> [])
       else []) @
      (case td_response tool of
         None \<Rightarrow> []
       | Some resp \<Rightarrow>
           '',response:{'' @
           (case get_truthy n resp ''description'' of
              Some (JStr desc) \<Rightarrow> ''description:'' @ quote_mark @ desc @ quote_mark @ '',''
            | _ \<Rightarrow> []) @
           (case json_get resp ''type'' of
              Some t \<Rightarrow>
                if upper n c t = ''OBJECT'' then ''type:'' @ quote_mark @ ''OBJECT'' @ quote_mark @ ''}'' else []
            | None \<Rightarrow> [])) @
      ''}'')"

subsection \<open>The prompt\<close>

definition strip_thinking :: "string \<Rightarrow> string" where
  "strip_thinking text =
     trim (concat (map
       (\<lambda>part. case split_once_str ''<|channel>'' part of
          Some (before, _) \<Rightarrow> before
        | None \<Rightarrow> part)
       (split_str ''<channel|>'' text)))"

fun role_name :: "chat_role \<Rightarrow> string" where
  "role_name Assistant = ''model''"
| "role_name User = ''user''"
| "role_name System = ''system''"
| "role_name Tool = undefined"   \<comment> \<open>\<open>unreachable!()\<close>: tool results are skipped before\<close>

text \<open>\<open>msgs.iter().rposition(..).map_or(-1, ..)\<close>\<close>

definition last_user_idx :: "'n chat_message list \<Rightarrow> int" where
  "last_user_idx msgs =
     (case find (\<lambda>i. role (msgs ! i) = User) (rev [0..<length msgs]) of
        None \<Rightarrow> - 1
      | Some i \<Rightarrow> int i)"

definition continues_turn :: "'n chat_message list \<Rightarrow> nat \<Rightarrow> 'n chat_message \<Rightarrow> bool" where
  "continues_turn msgs idx message \<longleftrightarrow>
     role message = Assistant \<and>
     (case find (\<lambda>m. role m \<noteq> Tool) (rev (take idx msgs)) of
        None \<Rightarrow> False
      | Some m \<Rightarrow> role m = Assistant)"

definition render_call :: "'n num_ops \<Rightarrow> casing \<Rightarrow> 'n tool_call_msg \<Rightarrow> string" where
  "render_call n c tc =
     ''<|tool_call>call:'' @ tc_name tc @ ''{'' @
     (case tc_arguments tc of
        JObj m \<Rightarrow> join '','' (map (\<lambda>(key, v). key @ '':'' @ format_argument n c v False) (dictsort c m))
      | JStr raw \<Rightarrow> raw
      | _ \<Rightarrow> []) @
     ''}<tool_call|>''"

definition response_name :: "'n chat_message \<Rightarrow> 'n chat_message \<Rightarrow> string" where
  "response_name message follow =
     (let name = (case tool_name follow of None \<Rightarrow> ''unknown'' | Some s \<Rightarrow> s) in
      case tool_call_id follow of
        None \<Rightarrow> name
      | Some i \<Rightarrow>
          (case find (\<lambda>tc. tc_id tc = Some i) (tool_calls message) of
             None \<Rightarrow> name
           | Some tc \<Rightarrow> tc_name tc))"

definition render_response :: "'n num_ops \<Rightarrow> casing \<Rightarrow> 'n chat_message \<Rightarrow> 'n chat_message \<Rightarrow> string" where
  "render_response n c message follow =
     ''<|tool_response>response:'' @ response_name message follow @ ''{value:'' @
     format_argument n c (JStr (content follow)) False @ ''}<tool_response|>''"

text \<open>One iteration of the message loop, for a message that is not a tool result.\<close>

definition render_message :: "'n num_ops \<Rightarrow> casing \<Rightarrow> 'n chat_message list \<Rightarrow> nat \<Rightarrow> 'n chat_message \<Rightarrow>
    string \<times> prev_type" where
  "render_message n c msgs idx message =
     (let header = (if continues_turn msgs idx message then []
                    else ''<|turn>'' @ role_name (role message) @ [CHR 0x0A]);
          think = (case reasoning message of
                     None \<Rightarrow> []
                   | Some r \<Rightarrow>
                       if int idx > last_user_idx msgs \<and> tool_calls message \<noteq> [] then
                         ''<|channel>thought'' @ [CHR 0x0A] @ r @ [CHR 0x0A] @ ''<channel|>''
                       else []);
          calls = concat (map (render_call n c) (tool_calls message));
          follows = (if tool_calls message \<noteq> [] then takeWhile (\<lambda>m. role m = Tool) (drop (idx + 1) msgs)
                     else []);
          responses = concat (map (render_response n c message) follows);
          rendered_response = (follows \<noteq> []);
          prev = (if rendered_response then PrevToolResponse
                  else if tool_calls message \<noteq> [] then PrevToolCall else PrevNone);
          captured = (if role message = Assistant then strip_thinking (content message)
                      else trim (content message));
          has_content = (trim captured \<noteq> []);
          ending = (if prev = PrevToolCall \<and> \<not> rendered_response then ''<|tool_response>''
                    else if \<not> rendered_response \<or> has_content then ''<turn|>'' @ [CHR 0x0A]
                    else [])
      in (header @ think @ calls @ responses @ captured @ ending, prev))"

definition message_step :: "'n num_ops \<Rightarrow> casing \<Rightarrow> 'n chat_message list \<Rightarrow> nat \<times> 'n chat_message \<Rightarrow>
    string \<times> prev_type \<Rightarrow> string \<times> prev_type" where
  "message_step n c msgs = (\<lambda>(idx, message) (out, prev).
     if role message = Tool then (out, prev)
     else let (s, prev') = render_message n c msgs idx message in (out @ s, prev'))"

definition render_prompt :: "'n num_ops \<Rightarrow> casing \<Rightarrow> 'n chat_message list \<Rightarrow> 'n tool_decl list \<Rightarrow>
    prompt_options \<Rightarrow> string" where
  "render_prompt n c messages tools opts =
     (let first_is_system = (case messages of [] \<Rightarrow> False | m # _ \<Rightarrow> role m = System);
          (system, prev0, msgs) =
            (if enable_thinking opts \<or> tools \<noteq> [] \<or> first_is_system then
               (''<|turn>system'' @ [CHR 0x0A] @
                (if enable_thinking opts then ''<|think|>'' @ [CHR 0x0A] else []) @
                (if first_is_system then trim (content (hd messages)) else []) @
                concat (map (\<lambda>t. ''<|tool>'' @ trim (render_declaration n c t) @ ''<tool|>'') tools) @
                ''<turn|>'' @ [CHR 0x0A],
                (if tools \<noteq> [] then PrevTool else if enable_thinking opts then PrevThink else PrevNone),
                (if first_is_system then tl messages else messages))
             else ([], PrevNone, messages));
          (out, prev) = fold (message_step n c msgs) (enumerate 0 msgs) (''<bos>'' @ system, prev0)
      in if add_generation_prompt opts \<and> prev \<noteq> PrevToolResponse \<and> prev \<noteq> PrevToolCall then
           out @ ''<|turn>model'' @ [CHR 0x0A] @
           (if enable_thinking opts then []
            else ''<|channel>thought'' @ [CHR 0x0A] @ ''<channel|>'')
         else out)"


end
