(* ===== verification/Tool_Call.thy ===== *)
theory Tool_Call
  imports Template Tokenizer
begin

text \<open>
  \<open>crates/sg-tokenizer/src/toolcall.rs\<close>: the recursive-descent parser for the arguments of a
  tool call, and the streaming parser that splits a turn into events. The messages of a parse
  error are constructors with the position they mention. Recursion of the argument parser is
  bounded by fuel; \<open>parse_fuel\<close> of it always suffices (\<open>parse_total\<close>), and \<open>None\<close> would
  mean that it does not.
\<close>

subsection \<open>The argument parser\<close>

datatype arg_error =
    MissingCall
  | MissingBrace
  | EmptyName
  | TrailingInput nat
  | ExpectedBrace nat
  | ExpectedColon string nat
  | ExpectedCommaBrace nat
  | ExpectedCommaBracket nat
  | UnterminatedKey nat
  | EmptyKey nat
  | EmptyValue nat
  | UnterminatedString nat
  | UnterminatedCall

record arg_parser =
  input :: string
  ppos :: nat

definition rest :: "arg_parser \<Rightarrow> string" where
  "rest p = drop (ppos p) (input p)"

definition skip_ws :: "arg_parser \<Rightarrow> arg_parser" where
  "skip_ws p = p\<lparr>ppos := ppos p + (length (rest p) - length (trim_start (rest p)))\<rparr>"

definition eat :: "string \<Rightarrow> arg_parser \<Rightarrow> arg_parser option" where
  "eat s p = (if prefix s (rest p) then Some (p\<lparr>ppos := ppos p + length s\<rparr>) else None)"

definition quoted :: "arg_parser \<Rightarrow> arg_error + (string \<times> arg_parser)" where
  "quoted p =
     (let p1 = p\<lparr>ppos := ppos p + length quote_mark\<rparr> in
      case find_str quote_mark (rest p1) of
        None \<Rightarrow> Inl (UnterminatedString (ppos p1))
      | Some e \<Rightarrow> Inr (take e (rest p1), p1\<lparr>ppos := ppos p1 + e + length quote_mark\<rparr>))"

definition parse_key :: "arg_parser \<Rightarrow> arg_error + (string \<times> arg_parser)" where
  "parse_key p =
     (if prefix quote_mark (rest p) then quoted p
      else case find_any [CHR '':'', CHR '','', CHR ''{'', CHR ''}''] (rest p) of
        None \<Rightarrow> Inl (UnterminatedKey (ppos p))
      | Some e \<Rightarrow>
          (let key = trim (take e (rest p)) in
           if key = [] then Inl (EmptyKey (ppos p))
           else Inr (key, p\<lparr>ppos := ppos p + e\<rparr>)))"

text \<open>\<open>str::parse::<i64>\<close>: an optional sign, then decimal digits, in range.\<close>

definition dec_digit :: "char \<Rightarrow> nat option" where
  "dec_digit c = (let n = of_char c in if 48 \<le> n \<and> n \<le> 57 then Some (n - 48) else None)"

fun dec_digits :: "nat \<Rightarrow> string \<Rightarrow> nat option" where
  "dec_digits acc [] = Some acc"
| "dec_digits acc (c # cs) =
     (case dec_digit c of None \<Rightarrow> None | Some d \<Rightarrow> dec_digits (acc * 10 + d) cs)"

definition parse_i64 :: "string \<Rightarrow> 64 word option" where
  "parse_i64 s =
     (let (neg, ds) =
        (case s of
           [] \<Rightarrow> (False, [])
         | c # cs \<Rightarrow> if c = CHR ''-'' then (True, cs) else if c = CHR ''+'' then (False, cs) else (False, s))
      in if ds = [] then None
         else case dec_digits 0 ds of
           None \<Rightarrow> None
         | Some n \<Rightarrow>
             if neg then (if n \<le> 2 ^ 63 then Some (- of_nat n) else None)
             else (if n < 2 ^ 63 then Some (of_nat n) else None))"

definition parse_word :: "'n num_ops \<Rightarrow> string \<Rightarrow> nat \<Rightarrow> arg_error + 'n json" where
  "parse_word ops w p =
     (if w = ''true'' then Inr (JBool True)
      else if w = ''false'' then Inr (JBool False)
      else if w = ''None'' \<or> w = ''null'' then Inr JNull
      else if w = [] then Inl (EmptyValue p)
      else case parse_i64 w of
        Some i \<Rightarrow> Inr (JNum (num_of_i64 ops i))
      | None \<Rightarrow>
          (case num_of_float_text ops w of
             Some x \<Rightarrow> Inr (JNum x)
           | None \<Rightarrow> Inr (JStr w)))"

text \<open>The bare scalar at the end of \<open>value\<close>.\<close>

definition parse_bare :: "'n num_ops \<Rightarrow> arg_parser \<Rightarrow> arg_error + ('n json \<times> arg_parser)" where
  "parse_bare ops p =
     (let e = (case find_any [CHR '','', CHR ''}'', CHR '']''] (rest p) of
                 None \<Rightarrow> length (rest p) | Some e \<Rightarrow> e);
          word = trim (take e (rest p));
          p1 = p\<lparr>ppos := ppos p + e\<rparr>
      in bind_res (parse_word ops word (ppos p1)) (\<lambda>v. Inr (v, p1)))"

text \<open>\<open>?\<close> under fuel.\<close>

definition bind_fuel :: "('e + 'a) option \<Rightarrow> ('a \<Rightarrow> ('e + 'b) option) \<Rightarrow> ('e + 'b) option" where
  "bind_fuel r f = (case r of None \<Rightarrow> None | Some (Inl e) \<Rightarrow> Some (Inl e) | Some (Inr x) \<Rightarrow> f x)"

lemma bind_fuel_simps [simp]:
  "bind_fuel None f = None" "bind_fuel (Some (Inl e)) f = Some (Inl e)"
  "bind_fuel (Some (Inr x)) f = f x"
  by (simp_all add: bind_fuel_def)

fun parse_object :: "'n num_ops \<Rightarrow> nat \<Rightarrow> arg_parser \<Rightarrow> (arg_error + ('n json \<times> arg_parser)) option"
  and object_loop :: "'n num_ops \<Rightarrow> nat \<Rightarrow> (string \<times> 'n json) list \<Rightarrow> arg_parser \<Rightarrow>
    (arg_error + ('n json \<times> arg_parser)) option"
  and parse_value :: "'n num_ops \<Rightarrow> nat \<Rightarrow> arg_parser \<Rightarrow> (arg_error + ('n json \<times> arg_parser)) option"
  and array_loop :: "'n num_ops \<Rightarrow> nat \<Rightarrow> 'n json list \<Rightarrow> arg_parser \<Rightarrow>
    (arg_error + ('n json \<times> arg_parser)) option"
where
  "parse_object ops 0 p = None"
| "parse_object ops (Suc fuel) p =
     (case eat ''{'' p of
        None \<Rightarrow> Some (Inl (ExpectedBrace (ppos p)))
      | Some p1 \<Rightarrow>
          (let p2 = skip_ws p1 in
           case eat ''}'' p2 of
             Some p3 \<Rightarrow> Some (Inr (JObj [], p3))
           | None \<Rightarrow> object_loop ops fuel [] p2))"
| "object_loop ops 0 m p = None"
| "object_loop ops (Suc fuel) m p =
     bind_fuel (Some (parse_key (skip_ws p))) (\<lambda>(key, p1).
       (let p2 = skip_ws p1 in
        case eat '':'' p2 of
          None \<Rightarrow> Some (Inl (ExpectedColon key (ppos p2)))
        | Some p3 \<Rightarrow>
            bind_fuel (parse_value ops fuel p3) (\<lambda>(v, p4).
              (let m' = map_insert key v m; p5 = skip_ws p4 in
               case eat '','' p5 of
                 Some p6 \<Rightarrow> object_loop ops fuel m' p6
               | None \<Rightarrow>
                   (case eat ''}'' p5 of
                      Some p6 \<Rightarrow> Some (Inr (JObj m', p6))
                    | None \<Rightarrow> Some (Inl (ExpectedCommaBrace (ppos p5))))))))"
| "parse_value ops 0 p = None"
| "parse_value ops (Suc fuel) p =
     (let p1 = skip_ws p in
      if prefix quote_mark (rest p1) then
        Some (bind_res (quoted p1) (\<lambda>(s, p2). Inr (JStr s, p2)))
      else if prefix ''{'' (rest p1) then parse_object ops fuel p1
      else case eat ''['' p1 of
        Some p2 \<Rightarrow>
          (let p3 = skip_ws p2 in
           case eat '']'' p3 of
             Some p4 \<Rightarrow> Some (Inr (JArr [], p4))
           | None \<Rightarrow> array_loop ops fuel [] p3)
      | None \<Rightarrow> Some (parse_bare ops p1))"
| "array_loop ops 0 items p = None"
| "array_loop ops (Suc fuel) items p =
     bind_fuel (parse_value ops fuel p) (\<lambda>(v, p1).
       (let items' = items @ [v]; p2 = skip_ws p1 in
        case eat '','' p2 of
          Some p3 \<Rightarrow> array_loop ops fuel items' p3
        | None \<Rightarrow>
            (case eat '']'' p2 of
               Some p3 \<Rightarrow> Some (Inr (JArr items', p3))
             | None \<Rightarrow> Some (Inl (ExpectedCommaBracket (ppos p2))))))"

definition parse_fuel :: "string \<Rightarrow> nat" where
  "parse_fuel s = 3 * length s + 4"

definition try_parse_tool_call :: "'n num_ops \<Rightarrow> string \<Rightarrow> (arg_error + (string \<times> 'n json)) option" where
  "try_parse_tool_call ops raw =
     (case strip_prefix ''call:'' raw of
        None \<Rightarrow> Some (Inl MissingCall)
      | Some r \<Rightarrow>
          (case find_any [CHR ''{''] r of
             None \<Rightarrow> Some (Inl MissingBrace)
           | Some brace \<Rightarrow>
               (let name = trim (take brace r) in
                if name = [] then Some (Inl EmptyName)
                else
                  bind_fuel (parse_object ops (parse_fuel raw) \<lparr>input = drop brace r, ppos = 0\<rparr>)
                    (\<lambda>(args, p).
                      (let p' = skip_ws p in
                       if ppos p' \<noteq> length (input p') then Some (Inl (TrailingInput (ppos p')))
                       else Some (Inr (name, args)))))))"

subsection \<open>Progress and enough fuel\<close>

abbreviation rem :: "arg_parser \<Rightarrow> nat" where
  "rem p \<equiv> length (rest p)"

lemma trim_start_suffix: "trim_start s = drop (length s - length (trim_start s)) s"
proof (induction s rule: trim_start.induct)
  case (1 s)
  show ?case
  proof (cases "ws_prefix s = 0")
    case False
    define n where "n = ws_prefix s"
    have t: "trim_start s = trim_start (drop n s)"
      using False by (simp add: trim_start.simps [of s] n_def)
    have IH: "trim_start (drop n s) = drop (length (drop n s) - length (trim_start (drop n s))) (drop n s)"
      using 1 [OF False] by (simp only: n_def)
    have "length (trim_start (drop n s)) \<le> length (drop n s)" by (rule length_trim_start)
    moreover have "n \<le> length s" using ws_prefix_le by (simp add: n_def)
    ultimately have "length (drop n s) - length (trim_start (drop n s)) + n = length s - length (trim_start (drop n s))"
      by simp
    then show ?thesis using IH unfolding t by (simp add: add.commute)
  qed (simp add: trim_start.simps [of s])
qed

lemma rest_skip_ws: "rest (skip_ws p) = trim_start (rest p)"
  using trim_start_suffix [of "rest p"] by (simp add: rest_def skip_ws_def add.commute)

lemma rem_skip_ws: "rem (skip_ws p) \<le> rem p"
  by (simp add: rest_skip_ws length_trim_start)

lemma rest_eat: "eat s p = Some p' \<Longrightarrow> rest p = s @ rest p'"
  by (auto simp: eat_def rest_def elim!: prefixE split: if_splits) (metis add.commute append_eq_conv_conj drop_drop)

lemma rem_eat: "eat s p = Some p' \<Longrightarrow> rem p = length s + rem p'"
  by (drule rest_eat) simp

lemma rem_quoted:
  assumes "quoted p = Inr (s, p')" and "prefix quote_mark (rest p)"
  shows "rem p' < rem p"
proof -
  obtain e where "p' = p\<lparr>ppos := ppos p + length quote_mark + e + length quote_mark\<rparr>"
    using assms(1) by (auto simp: quoted_def Let_def split: option.splits)
  then have "rem p' = length (input p) - (ppos p + length quote_mark + e + length quote_mark)"
    by (simp add: rest_def)
  moreover have "rem p = length (input p) - ppos p" "5 \<le> rem p"
    using prefix_length_le [OF assms(2)] by (simp_all add: rest_def quote_mark_def)
  ultimately show ?thesis by (simp add: quote_mark_def)
qed

lemma rem_key: "parse_key p = Inr (s, p') \<Longrightarrow> rem p' \<le> rem p"
  using rem_quoted [of p s p']
  by (auto simp: parse_key_def Let_def rest_def split: if_splits option.splits)

lemma rem_bare: "parse_bare ops p = Inr (v, p') \<Longrightarrow> rem p' \<le> rem p"
  by (auto simp: parse_bare_def Let_def rest_def res_simps)


lemma bind_fuel_Inr:
  "bind_fuel r f = Some (Inr y) \<longleftrightarrow> (\<exists>x. r = Some (Inr x) \<and> f x = Some (Inr y))"
  by (auto simp: bind_fuel_def split: option.splits sum.splits)

lemma bind_fuel_None: "bind_fuel r f = None \<longleftrightarrow> r = None \<or> (\<exists>x. r = Some (Inr x) \<and> f x = None)"
  by (auto simp: bind_fuel_def split: option.splits sum.splits)

lemma rem_eat_le: "eat s p = Some p' \<Longrightarrow> rem p' \<le> rem p"
  by (drule rem_eat) simp

text \<open>Inversion of one unfolding of each function.\<close>

lemma parse_object_cases:
  assumes "parse_object ops (Suc fuel) p = Some (Inr (v, p'))"
  obtains p1 where "eat ''{'' p = Some p1" "eat ''}'' (skip_ws p1) = Some p'" "v = JObj []"
  | p1 where "eat ''{'' p = Some p1" "eat ''}'' (skip_ws p1) = None"
      "object_loop ops fuel [] (skip_ws p1) = Some (Inr (v, p'))"
  using assms by (auto simp: Let_def split: option.splits)

lemma object_loop_cases:
  assumes "object_loop ops (Suc fuel) m p = Some (Inr (v, p'))"
  obtains key p1 p3 x p4 where "parse_key (skip_ws p) = Inr (key, p1)" "eat '':'' (skip_ws p1) = Some p3"
    "parse_value ops fuel p3 = Some (Inr (x, p4))"
    "(\<exists>p6. eat '','' (skip_ws p4) = Some p6 \<and> object_loop ops fuel (map_insert key x m) p6 = Some (Inr (v, p'))) \<or>
     (eat '','' (skip_ws p4) = None \<and> eat ''}'' (skip_ws p4) = Some p' \<and> v = JObj (map_insert key x m))"
proof -
  obtain key p1 where k: "parse_key (skip_ws p) = Inr (key, p1)"
    using assms by (auto simp: bind_fuel_Inr)
  obtain p3 where c: "eat '':'' (skip_ws p1) = Some p3"
    using assms k by (auto simp: Let_def split: option.splits)
  obtain x p4 where v: "parse_value ops fuel p3 = Some (Inr (x, p4))"
    using assms k c by (auto simp: bind_fuel_Inr)
  show thesis
  proof (rule that [OF k c v])
    show "(\<exists>p6. eat '','' (skip_ws p4) = Some p6 \<and> object_loop ops fuel (map_insert key x m) p6 = Some (Inr (v, p'))) \<or>
     (eat '','' (skip_ws p4) = None \<and> eat ''}'' (skip_ws p4) = Some p' \<and> v = JObj (map_insert key x m))"
      using assms k c v by (simp add: Let_def split: option.splits)
  qed
qed

lemma parse_value_cases:
  assumes "parse_value ops (Suc fuel) p = Some (Inr (v, p'))"
  obtains s where "prefix quote_mark (rest (skip_ws p))" "quoted (skip_ws p) = Inr (s, p')" "v = JStr s"
  | "parse_object ops fuel (skip_ws p) = Some (Inr (v, p'))"
  | p2 where "eat ''['' (skip_ws p) = Some p2" "eat '']'' (skip_ws p2) = Some p'" "v = JArr []"
  | p2 where "eat ''['' (skip_ws p) = Some p2" "eat '']'' (skip_ws p2) = None"
      "array_loop ops fuel [] (skip_ws p2) = Some (Inr (v, p'))"
  | "parse_bare ops (skip_ws p) = Inr (v, p')"
  using assms by (auto simp: Let_def res_simps split: option.splits if_splits)

lemma array_loop_cases:
  assumes "array_loop ops (Suc fuel) items p = Some (Inr (v, p'))"
  obtains x p1 where "parse_value ops fuel p = Some (Inr (x, p1))"
    "(\<exists>p3. eat '','' (skip_ws p1) = Some p3 \<and> array_loop ops fuel (items @ [x]) p3 = Some (Inr (v, p'))) \<or>
     (eat '','' (skip_ws p1) = None \<and> eat '']'' (skip_ws p1) = Some p' \<and> v = JArr (items @ [x]))"
proof -
  obtain x p1 where v: "parse_value ops fuel p = Some (Inr (x, p1))"
    using assms by (auto simp: bind_fuel_Inr)
  show thesis
  proof (rule that [OF v])
    show "(\<exists>p3. eat '','' (skip_ws p1) = Some p3 \<and> array_loop ops fuel (items @ [x]) p3 = Some (Inr (v, p'))) \<or>
     (eat '','' (skip_ws p1) = None \<and> eat '']'' (skip_ws p1) = Some p' \<and> v = JArr (items @ [x]))"
      using assms v by (simp add: Let_def split: option.splits)
  qed
qed

text \<open>A successful parse never moves backwards.\<close>

lemma parse_progress:
  "(\<forall>p v p'. parse_object ops fuel p = Some (Inr (v, p')) \<longrightarrow> rem p' \<le> rem p) \<and>
   (\<forall>m p v p'. object_loop ops fuel m p = Some (Inr (v, p')) \<longrightarrow> rem p' \<le> rem p) \<and>
   (\<forall>p v p'. parse_value ops fuel p = Some (Inr (v, p')) \<longrightarrow> rem p' \<le> rem p) \<and>
   (\<forall>items p v p'. array_loop ops fuel items p = Some (Inr (v, p')) \<longrightarrow> rem p' \<le> rem p)"
proof (induction fuel)
  case 0
  show ?case by simp
next
  case (Suc fuel)
  note IH = Suc.IH [THEN conjunct1, rule_format] Suc.IH [THEN conjunct2, THEN conjunct1, rule_format]
    Suc.IH [THEN conjunct2, THEN conjunct2, THEN conjunct1, rule_format]
    Suc.IH [THEN conjunct2, THEN conjunct2, THEN conjunct2, rule_format]
  show ?case
  proof (intro conjI allI impI)
    fix p v p'
    assume "parse_object ops (Suc fuel) p = Some (Inr (v, p'))"
    then show "rem p' \<le> rem p"
    proof (cases rule: parse_object_cases)
      case (1 p1)
      then show ?thesis using rem_eat_le rem_skip_ws [of p1] by (metis le_trans)
    next
      case (2 p1)
      then show ?thesis using rem_eat_le IH(2) rem_skip_ws [of p1] by (metis le_trans)
    qed
  next
    fix m p v p'
    assume "object_loop ops (Suc fuel) m p = Some (Inr (v, p'))"
    then show "rem p' \<le> rem p"
    proof (cases rule: object_loop_cases)
      case (1 key p1 p3 x p4)
      have "rem p4 \<le> rem p"
        using rem_key [OF 1(1)] rem_skip_ws [of p] rem_skip_ws [of p1] rem_eat_le [OF 1(2)] IH(3) [OF 1(3)]
        by linarith
      moreover have "rem p' \<le> rem (skip_ws p4)"
        using 1(4) rem_eat_le IH(2) by (meson le_trans)
      ultimately show ?thesis using rem_skip_ws [of p4] by linarith
    qed
  next
    fix p v p'
    assume "parse_value ops (Suc fuel) p = Some (Inr (v, p'))"
    then show "rem p' \<le> rem p"
    proof (cases rule: parse_value_cases)
      case (1 s)
      then show ?thesis using rem_quoted [OF 1(2,1)] rem_skip_ws [of p] by linarith
    next
      case 2
      then show ?thesis using IH(1) [OF 2] rem_skip_ws [of p] by linarith
    next
      case (3 p2)
      then show ?thesis using rem_eat_le [OF 3(1)] rem_eat_le [OF 3(2)] rem_skip_ws [of p] rem_skip_ws [of p2]
        by linarith
    next
      case (4 p2)
      then show ?thesis using rem_eat_le [OF 4(1)] IH(4) [OF 4(3)] rem_skip_ws [of p] rem_skip_ws [of p2]
        by linarith
    next
      case 5
      then show ?thesis using rem_bare [OF 5] rem_skip_ws [of p] by linarith
    qed
  next
    fix items p v p'
    assume "array_loop ops (Suc fuel) items p = Some (Inr (v, p'))"
    then show "rem p' \<le> rem p"
    proof (cases rule: array_loop_cases)
      case (1 x p1)
      have "rem p' \<le> rem (skip_ws p1)"
        using 1(2) rem_eat_le IH(4) by (meson le_trans)
      then show ?thesis using IH(3) [OF 1(1)] rem_skip_ws [of p1] by linarith
    qed
  qed
qed

lemma rem_value: "parse_value ops fuel p = Some (Inr (v, p')) \<Longrightarrow> rem p' \<le> rem p"
  using parse_progress by blast

lemma object_loop_None:
  assumes v: "\<And>key p1 p3. parse_key (skip_ws p) = Inr (key, p1) \<Longrightarrow> eat '':'' (skip_ws p1) = Some p3 \<Longrightarrow>
      parse_value ops fuel p3 \<noteq> None"
    and r: "\<And>key p1 p3. parse_key (skip_ws p) = Inr (key, p1) \<Longrightarrow> eat '':'' (skip_ws p1) = Some p3 \<Longrightarrow>
      rem p3 < rem p"
    and l: "\<And>m' p3 x p4 p6. rem p3 < rem p \<Longrightarrow> parse_value ops fuel p3 = Some (Inr (x, p4)) \<Longrightarrow>
      eat '','' (skip_ws p4) = Some p6 \<Longrightarrow> object_loop ops fuel m' p6 \<noteq> None"
  shows "object_loop ops (Suc fuel) m p \<noteq> None"
proof (cases "parse_key (skip_ws p)")
  case (Inr kp)
  obtain key p1 where k: "parse_key (skip_ws p) = Inr (key, p1)" using Inr by (cases kp) simp
  show ?thesis
  proof (cases "eat '':'' (skip_ws p1)")
    case (Some p3)
    obtain y where y: "parse_value ops fuel p3 = Some y" using v [OF k Some] by blast
    show ?thesis
    proof (cases y)
      case (Inr xp)
      obtain x p4 where x: "parse_value ops fuel p3 = Some (Inr (x, p4))" using y Inr by (cases xp) simp
      show ?thesis
        using k Some x l [OF r [OF k Some] x] by (simp add: Let_def split: option.split)
    qed (use k Some y in simp)
  qed (use k in simp)
qed simp

text \<open>Every call that consumes no character is followed, after at most three levels, by one that does.\<close>

lemma fuel_suffices:
  "(\<forall>p. fuel \<ge> 3 * rem p + 2 \<longrightarrow> parse_object ops fuel p \<noteq> None) \<and>
   (\<forall>m p. fuel \<ge> 3 * rem p + 1 \<longrightarrow> object_loop ops fuel m p \<noteq> None) \<and>
   (\<forall>p. fuel \<ge> 3 * rem p + 3 \<longrightarrow> parse_value ops fuel p \<noteq> None) \<and>
   (\<forall>items p. fuel \<ge> 3 * rem p + 4 \<longrightarrow> array_loop ops fuel items p \<noteq> None)"
proof (induction fuel)
  case 0
  show ?case by simp
next
  case (Suc fuel)
  note IH = Suc.IH [THEN conjunct1, rule_format] Suc.IH [THEN conjunct2, THEN conjunct1, rule_format]
    Suc.IH [THEN conjunct2, THEN conjunct2, THEN conjunct1, rule_format]
    Suc.IH [THEN conjunct2, THEN conjunct2, THEN conjunct2, rule_format]
  show ?case
  proof (intro conjI allI impI)
    fix p assume f: "Suc fuel \<ge> 3 * rem p + 2"
    have "object_loop ops fuel [] (skip_ws p1) \<noteq> None" if "eat ''{'' p = Some p1" for p1
      using IH(2) [of "skip_ws p1"] rem_eat [OF that] rem_skip_ws [of p1] f by simp
    then show "parse_object ops (Suc fuel) p \<noteq> None"
      by (auto simp: Let_def split: option.splits)
  next
    fix m p assume f: "Suc fuel \<ge> 3 * rem p + 1"
    have v: "parse_value ops fuel p3 \<noteq> None" "rem p3 < rem p"
      if "parse_key (skip_ws p) = Inr (key, p1)" "eat '':'' (skip_ws p1) = Some p3" for key p1 p3
    proof -
      show "rem p3 < rem p"
        using rem_key [OF that(1)] rem_eat [OF that(2)] rem_skip_ws [of p] rem_skip_ws [of p1] by simp
      then show "parse_value ops fuel p3 \<noteq> None" using f by (intro IH(3)) simp
    qed
    moreover have "object_loop ops fuel m' p6 \<noteq> None"
      if "rem p3 < rem p" "parse_value ops fuel p3 = Some (Inr (x, p4))" "eat '','' (skip_ws p4) = Some p6"
      for m' p3 x p4 p6
      using rem_value [OF that(2)] rem_eat [OF that(3)] rem_skip_ws [of p4] that(1) f by (intro IH(2)) simp
    ultimately show "object_loop ops (Suc fuel) m p \<noteq> None"
      by (rule object_loop_None)
  next
    fix p assume f: "Suc fuel \<ge> 3 * rem p + 3"
    have "parse_object ops fuel (skip_ws p) \<noteq> None"
      using rem_skip_ws [of p] f by (intro IH(1)) simp
    moreover have "array_loop ops fuel [] (skip_ws p2) \<noteq> None" if "eat ''['' (skip_ws p) = Some p2" for p2
      using rem_skip_ws [of p] rem_skip_ws [of p2] rem_eat [OF that] f by (intro IH(4)) simp
    ultimately show "parse_value ops (Suc fuel) p \<noteq> None"
      by (auto simp: Let_def split: option.splits)
  next
    fix items p assume f: "Suc fuel \<ge> 3 * rem p + 4"
    have "parse_value ops fuel p \<noteq> None" using f by (intro IH(3)) simp
    moreover have "array_loop ops fuel items' p3 \<noteq> None"
      if "parse_value ops fuel p = Some (Inr (x, p1))" "eat '','' (skip_ws p1) = Some p3" for items' x p1 p3
      using rem_value [OF that(1)] rem_skip_ws [of p1] rem_eat [OF that(2)] f by (intro IH(4)) simp
    ultimately show "array_loop ops (Suc fuel) items p \<noteq> None"
      by (auto simp: Let_def bind_fuel_None split: option.splits)
  qed
qed

lemma try_parse_total: "try_parse_tool_call ops raw \<noteq> None"
proof -
  have "parse_object ops (parse_fuel raw) \<lparr>input = drop b r, ppos = 0\<rparr> \<noteq> None"
    if "strip_prefix ''call:'' raw = Some r" for b r
  proof -
    have len: "strip_prefix a s = Some t \<Longrightarrow> length t \<le> length s" for a s t
      by (induction a s rule: strip_prefix.induct) (auto split: if_splits)
    have "rem \<lparr>input = drop b r, ppos = 0\<rparr> \<le> length raw"
      using len [OF that] by (simp add: rest_def)
    then have "parse_fuel raw \<ge> 3 * rem \<lparr>input = drop b r, ppos = 0\<rparr> + 2"
      by (simp add: parse_fuel_def)
    then show ?thesis using fuel_suffices [of "parse_fuel raw" ops] by blast
  qed
  note po = this
  show ?thesis
  proof (cases "strip_prefix ''call:'' raw")
    case r: (Some r)
    show ?thesis
    proof (cases "find_any ''{'' r")
      case (Some b)
      show ?thesis
        using po [OF r, of b]
        by (auto simp: try_parse_tool_call_def Let_def r Some bind_fuel_def split: sum.split)
    qed (simp add: try_parse_tool_call_def r)
  qed (simp add: try_parse_tool_call_def)
qed

text \<open>
  C24: The recursive argument parser terminates on every text: within the fuel \<open>parse_fuel\<close> it
  returns either an error or a name and its arguments, however deeply the text nests.
\<close>

theorem try_parse_returns:
  "(\<exists>e. try_parse_tool_call ops raw = Some (Inl e)) \<or>
   (\<exists>name args. try_parse_tool_call ops raw = Some (Inr (name, args)))"
proof -
  obtain y where "try_parse_tool_call ops raw = Some y" using try_parse_total by blast
  then show ?thesis by (cases y) auto
qed

end
