(* ===== verification/Template_Props.thy ===== *)
theory Template_Props
  imports Template
begin

text \<open>
  Properties of \<open>crates/sg-tokenizer/src/template.rs\<close>: thoughts are removed from the history,
  and plain conversations are rendered turn by turn.
\<close>

subsection \<open>Stripping thoughts\<close>

text \<open>A marker no proper suffix of which is a prefix of it: the first occurrence is never a false one.\<close>

definition border_free :: "string \<Rightarrow> bool" where
  "border_free pat \<longleftrightarrow> pat \<noteq> [] \<and> (\<forall>k < length pat. 0 < k \<longrightarrow> \<not> prefix (drop k pat) pat)"

lemma prefix_border_free:
  assumes "border_free pat" and "prefix pat (s @ pat @ r)" and "s \<noteq> []"
  shows "prefix pat s"
proof (cases "length pat \<le> length s")
  case True
  then show ?thesis using assms(2) by (rule_tac prefix_length_prefix) auto
next
  case False
  define u where "u = drop (length s) pat"
  have "prefix s pat" using assms(2) False prefix_length_prefix [of s "s @ pat @ r" pat] by simp
  then have pat: "pat = s @ u" by (auto simp: u_def elim: prefixE)
  then have "prefix u (pat @ r)" using assms(2) by simp
  moreover have "length u \<le> length pat" using pat by (metis length_append le_add2)
  ultimately have "prefix u pat" using prefix_length_prefix [of u "pat @ r" pat] by simp
  then show ?thesis using assms(1,3) False unfolding border_free_def u_def by auto
qed

lemma find_str_first:
  "border_free pat \<Longrightarrow> \<not> sublist pat s \<Longrightarrow> find_str pat (s @ pat @ r) = Some (length s)"
proof (induction s)
  case Nil
  then obtain c cs where "pat = c # cs" by (cases pat) (auto simp: border_free_def)
  then show ?case by simp
next
  case (Cons c s)
  have "\<not> prefix pat (c # s)" using Cons.prems by auto
  then have "\<not> prefix pat ((c # s) @ pat @ r)" using prefix_border_free Cons.prems(1) by blast
  moreover have "\<not> sublist pat s" using Cons.prems by (auto simp: sublist_Cons_right)
  ultimately show ?case using Cons.IH Cons.prems(1) by simp
qed

lemma find_str_absent: "pat \<noteq> [] \<Longrightarrow> \<not> sublist pat s \<Longrightarrow> find_str pat s = None"
proof (induction s)
  case (Cons c s)
  have "\<not> prefix pat (c # s)" "\<not> sublist pat s" using Cons.prems by (auto simp: sublist_Cons_right)
  then show ?case using Cons.IH Cons.prems(1) by simp
qed simp

abbreviation chan_open :: string where "chan_open \<equiv> ''<|channel>''"
abbreviation chan_close :: string where "chan_close \<equiv> ''<channel|>''"

lemma border_free_markers: "border_free chan_open" "border_free chan_close"
proof -
  have "\<forall>k \<in> set [1..<10]. \<not> prefix (drop k chan_open) chan_open"
    "\<forall>k \<in> set [1..<10]. \<not> prefix (drop k chan_close) chan_close" by code_simp+
  then show "border_free chan_open" "border_free chan_close"
    by (auto simp: border_free_def)
qed

definition span_text :: "string \<times> string \<Rightarrow> string" where
  "span_text = (\<lambda>(a, t). a @ chan_open @ t @ chan_close)"

definition span_ok :: "string \<times> string \<Rightarrow> bool" where
  "span_ok = (\<lambda>(a, t). \<not> sublist chan_open a \<and> \<not> sublist chan_close (a @ chan_open @ t))"

lemma split_spans:
  "list_all span_ok spans \<Longrightarrow> \<not> sublist chan_close b \<Longrightarrow>
   split_str chan_close (concat (map span_text spans) @ b) =
     map (\<lambda>(a, t). a @ chan_open @ t) spans @ [b]"
proof (induction spans)
  case Nil
  then show ?case using find_str_absent [of chan_close b] by (simp add: split_str.simps [of _ b])
next
  case (Cons sp spans)
  obtain a t where sp: "sp = (a, t)" by (cases sp)
  let ?r = "concat (map span_text spans) @ b"
  have "find_str chan_close ((a @ chan_open @ t) @ chan_close @ ?r) = Some (length (a @ chan_open @ t))"
    using Cons.prems(1) sp by (intro find_str_first border_free_markers) (simp add: span_ok_def)
  then have "split_str chan_close ((a @ chan_open @ t) @ chan_close @ ?r) =
      (a @ chan_open @ t) # split_str chan_close ?r"
    by (subst split_str.simps) (simp del: append_assoc add: append_assoc [symmetric])
  then show ?case using Cons sp by (simp add: span_text_def)
qed

text \<open>
  C25: Reasoning is stripped from assistant history: of a text in which thought spans alternate with
  visible text, exactly the visible text remains, trimmed; no thought of an earlier turn can
  reach the prompt again.
\<close>

theorem strip_thinking_removes:
  assumes "list_all span_ok spans" and "\<not> sublist chan_close b" and "\<not> sublist chan_open b"
  shows "strip_thinking (concat (map span_text spans) @ b) = trim (concat (map fst spans) @ b)"
proof -
  have "split_once_str chan_open (a @ chan_open @ t) = Some (a, t)" if "span_ok (a, t)" for a t
    using find_str_first [OF border_free_markers(1), of a t] that by (simp add: split_once_str_def span_ok_def)
  then have "map (\<lambda>part. case split_once_str chan_open part of Some (before, _) \<Rightarrow> before | None \<Rightarrow> part)
      (map (\<lambda>(a, t). a @ chan_open @ t) spans) = map fst spans"
    using assms(1) by (induction spans) (simp_all add: case_prod_beta del: append.simps append_Cons)
  moreover have "split_once_str chan_open b = None"
    using find_str_absent [of chan_open b] assms(3) by (simp add: split_once_str_def)
  ultimately show ?thesis
    unfolding strip_thinking_def split_spans [OF assms(1,2)] map_append concat_append
    by (simp only: list.map option.case concat.simps append_Nil2)
qed

theorem strip_thinking_removes_witness:
  "strip_thinking (concat (map span_text [('' a'', ''secret'')]) @ ''b'') = trim (concat (map fst [('' a'', ''secret'')]) @ ''b'')"
proof (rule strip_thinking_removes)
  have "span_ok ('' a'', ''secret'')" unfolding span_ok_def by code_simp
  then show "list_all span_ok [('' a'', ''secret'')]" by simp
  show "\<not> sublist chan_close ''b''" "\<not> sublist chan_open ''b''" by code_simp+
qed

subsection \<open>Plain conversations\<close>

text \<open>Messages without tools, in which the assistant never speaks twice in a row.\<close>

text \<open>The text of a message and the turns of a conversation; \<open>prev\<close> is the role of the last message that is not a tool result.\<close>

definition chat_content :: "'n chat_message \<Rightarrow> string" where
  "chat_content m = (if role m = Assistant then strip_thinking (content m) else trim (content m))"

fun chat_turns :: "chat_role option \<Rightarrow> 'n chat_message list \<Rightarrow> string" where
  "chat_turns prev [] = []"
| "chat_turns prev (m # ms) =
     (if role m = Tool then chat_turns prev ms
      else (if role m = Assistant \<and> prev = Some Assistant then [] else ''<|turn>'' @ role_name (role m) @ [CHR 0x0A]) @
        chat_content m @ ''<turn|>'' @ [CHR 0x0A] @ chat_turns (Some (role m)) ms)"

definition starts_with_system :: "'n chat_message list \<Rightarrow> bool" where
  "starts_with_system msgs \<longleftrightarrow> msgs \<noteq> [] \<and> role (hd msgs) = System"

definition system_turn :: "'n num_ops \<Rightarrow> casing \<Rightarrow> 'n chat_message list \<Rightarrow> 'n tool_decl list \<Rightarrow> bool \<Rightarrow> string" where
  "system_turn n c msgs tools thinking =
     (if thinking \<or> tools \<noteq> [] \<or> starts_with_system msgs
      then ''<|turn>system'' @ [CHR 0x0A] @ (if thinking then ''<|think|>'' @ [CHR 0x0A] else []) @
        (if starts_with_system msgs then trim (content (hd msgs)) else []) @
        concat (map (\<lambda>t. ''<|tool>'' @ trim (render_declaration n c t) @ ''<tool|>'') tools) @ ''<turn|>'' @ [CHR 0x0A]
      else [])"

definition last_role :: "'n chat_message list \<Rightarrow> chat_role option" where
  "last_role msgs = map_option role (find (\<lambda>m. role m \<noteq> Tool) (rev msgs))"

lemma last_role_snoc: "last_role (ms @ [m]) = (if role m = Tool then last_role ms else Some (role m))"
  by (simp add: last_role_def)

lemma continues_last: "continues_turn msgs i m \<longleftrightarrow> role m = Assistant \<and> last_role (take i msgs) = Some Assistant"
  by (auto simp: continues_turn_def last_role_def split: option.splits)

lemma chat_step:
  assumes "tool_calls m = []"
  shows "message_step n c msgs (i, m) (out, prev) =
    (if role m = Tool then (out, prev)
     else (out @ (if role m = Assistant \<and> last_role (take i msgs) = Some Assistant then [] else ''<|turn>'' @ role_name (role m) @ [CHR 0x0A]) @
       chat_content m @ ''<turn|>'' @ [CHR 0x0A], PrevNone))"
  using assms
  by (simp add: message_step_def render_message_def chat_content_def continues_last Let_def split: option.split)

lemma chat_fold:
  assumes "list_all (\<lambda>m. tool_calls m = []) msgs" and "i \<le> length msgs"
  shows "\<exists>p. fold (message_step n c msgs) (enumerate i (drop i msgs)) (out, prev) =
      (out @ chat_turns (last_role (take i msgs)) (drop i msgs), p) \<and> (p = prev \<or> p = PrevNone)"
  using assms(2)
proof (induction "length msgs - i" arbitrary: i out prev)
  case 0
  then show ?case by simp
next
  case (Suc k)
  then have i: "i < length msgs" by simp
  then have d: "drop i msgs = msgs ! i # drop (Suc i) msgs" by (simp add: Cons_nth_drop_Suc)
  have t: "take (Suc i) msgs = take i msgs @ [msgs ! i]" using i by (simp add: take_Suc_conv_app_nth)
  have c: "tool_calls (msgs ! i) = []" using assms(1) i by (simp add: list_all_length)
  obtain out' prev' where st: "message_step n c msgs (i, msgs ! i) (out, prev) = (out', prev')" by fastforce
  obtain p where p: "fold (message_step n c msgs) (enumerate (Suc i) (drop (Suc i) msgs)) (out', prev') =
      (out' @ chat_turns (last_role (take (Suc i) msgs)) (drop (Suc i) msgs), p)" "p = prev' \<or> p = PrevNone"
    using Suc(1) [of "Suc i" out' prev'] Suc(2) i by (metis Suc_leI diff_Suc_Suc Suc_diff_Suc Suc_inject)
  show ?case
    using p st [symmetric] unfolding d t last_role_snoc chat_step [OF c]
    by (auto simp: chat_step [OF c] split: if_splits)
qed

text \<open>
  C26: A conversation without tool calls is rendered turn by turn, whatever its roles, its tool declarations and
  the options: the beginning-of-sequence marker; one system turn if thinking is on, tools are declared or
  the first message is a system message, with that message and the declarations in it; then every other
  message with its trimmed text (an assistant's without its thoughts) in a turn of its own, except that
  an assistant message that follows another, tool results aside, has no header of its own, and tool
  results are left out; and, when a reply
  is asked for, the header of the model's turn, with an empty thought channel unless thinking is on.
\<close>

theorem render_plain_chat:
  assumes "list_all (\<lambda>m. tool_calls m = []) msgs"
  shows "render_prompt n c msgs tools opts =
    ''<bos>'' @ system_turn n c msgs tools (enable_thinking opts) @
    chat_turns None (if starts_with_system msgs then tl msgs else msgs) @
    (if add_generation_prompt opts
     then ''<|turn>model'' @ [CHR 0x0A] @
       (if enable_thinking opts then [] else ''<|channel>thought'' @ [CHR 0x0A] @ ''<channel|>'')
     else [])"
proof -
  have first: "(case msgs of [] \<Rightarrow> False | m # _ \<Rightarrow> role m = System) = starts_with_system msgs"
    by (cases msgs) (simp_all add: starts_with_system_def)
  let ?msgs = "if starts_with_system msgs then tl msgs else msgs"
  let ?prev = "if enable_thinking opts \<or> tools \<noteq> [] \<or> starts_with_system msgs
     then if tools \<noteq> [] then PrevTool else if enable_thinking opts then PrevThink else PrevNone else PrevNone"
  let ?head = "''<bos>'' @ system_turn n c msgs tools (enable_thinking opts)"
  have "list_all (\<lambda>m. tool_calls m = []) ?msgs" using assms by (cases msgs) auto
  from chat_fold [OF this, of 0 n c ?head ?prev] obtain p
    where f: "fold (message_step n c ?msgs) (enumerate 0 ?msgs) (?head, ?prev) = (?head @ chat_turns None ?msgs, p)"
      and p: "p = ?prev \<or> p = PrevNone"
    by (auto simp: last_role_def)
  have np: "p \<noteq> PrevToolResponse" "p \<noteq> PrevToolCall" using p by (auto split: if_splits)
  have gen: "(let (out, prev) = fold (message_step n c ?msgs) (enumerate 0 ?msgs) (?head, ?prev)
      in if add_generation_prompt opts \<and> prev \<noteq> PrevToolResponse \<and> prev \<noteq> PrevToolCall then out @ G else out) =
      ?head @ chat_turns None ?msgs @ (if add_generation_prompt opts then G else [])" for G
    unfolding f prod.case Let_def using np by (cases "add_generation_prompt opts") simp_all
  show ?thesis
  proof (cases "enable_thinking opts \<or> tools \<noteq> [] \<or> starts_with_system msgs")
    case True
    then show ?thesis
      using gen unfolding render_prompt_def Let_def first system_turn_def if_P [OF True] prod.case append_assoc by (simp only: append_assoc)
  next
    case False
    then have "\<not> starts_with_system msgs" by blast
    with False show ?thesis
      using gen unfolding render_prompt_def Let_def first system_turn_def if_not_P [OF False] prod.case by simp
  qed
qed

definition small_ops :: "64 word num_ops" where
  "small_ops = \<lparr>num_of_i64 = (\<lambda>i. i), num_of_float_text = (\<lambda>_. None),
     num_text = (\<lambda>i. if i = 42 then ''42'' else ''0''), num_is_zero = (\<lambda>i. i = 0)\<rparr>"

definition plain_casing :: casing where
  "plain_casing = \<lparr>to_lower = (\<lambda>s. s), to_upper = (\<lambda>s. s)\<rparr>"

definition sample_chat :: "64 word chat_message list" where
  "sample_chat = [chat_text System ''be brief'', chat_text User ''hi'', chat_text Assistant ''hello'', chat_text Assistant ''there'',
     chat_text User ''bye'']"

theorem render_plain_chat_witness:
  "render_prompt small_ops plain_casing sample_chat [] \<lparr>add_generation_prompt = True, enable_thinking = True\<rparr> =
    ''<bos>'' @ system_turn small_ops plain_casing sample_chat [] True @
    chat_turns None (tl sample_chat) @ ''<|turn>model'' @ [CHR 0x0A]"
proof -
  have "list_all (\<lambda>m. tool_calls m = []) sample_chat" by (simp add: sample_chat_def chat_text_def)
  note r = render_plain_chat [OF this, of small_ops plain_casing "[]" "\<lparr>add_generation_prompt = True, enable_thinking = True\<rparr>"]
  have st: "starts_with_system sample_chat" by (simp add: starts_with_system_def sample_chat_def chat_text_def)
  show ?thesis unfolding r prompt_options.select_convs if_P [OF st] if_True append_Nil2 by (rule refl)
qed

end
