(* ===== verification/Tool_Call_Roundtrip.thy ===== *)
theory Tool_Call_Roundtrip
  imports Tool_Call Template_Props
begin

text \<open>
  The argument parser of \<open>crates/sg-tokenizer/src/toolcall.rs\<close> reads back what
  \<open>format_argument\<close> of \<open>template.rs\<close> writes with \<open>escape_keys = false\<close>: the value with its
  objects in the order in which they were written, i.e. sorted by key.
\<close>

subsection \<open>What can be read back\<close>

text \<open>No white-space character begins or ends with this byte.\<close>

definition solid :: "char \<Rightarrow> bool" where
  "solid c \<longleftrightarrow> c \<notin> hd ` set ws_chars \<and> c \<notin> last ` set ws_chars"

definition key_ok :: "string \<Rightarrow> bool" where
  "key_ok k \<longleftrightarrow> k \<noteq> [] \<and> trim k = k \<and> set k \<inter> {CHR '':'', CHR '','', CHR ''{'', CHR ''}''} = {} \<and>
     \<not> prefix quote_mark k"

text \<open>What \<open>serde_json\<close> promises of a number: its text is a JSON number and is read back as itself.\<close>

definition number_ok :: "'n num_ops \<Rightarrow> 'n \<Rightarrow> bool" where
  "number_ok ops x \<longleftrightarrow> num_text ops x \<noteq> [] \<and> set (num_text ops x) \<subseteq> set ''0123456789+-.eE'' \<and>
     (case parse_i64 (num_text ops x) of
        Some i \<Rightarrow> num_of_i64 ops i = x
      | None \<Rightarrow> num_of_float_text ops (num_text ops x) = Some x)"

fun value_ok :: "'n num_ops \<Rightarrow> 'n json \<Rightarrow> bool" where
  "value_ok ops JNull = True"
| "value_ok ops (JBool b) = True"
| "value_ok ops (JNum x) = number_ok ops x"
| "value_ok ops (JStr s) = (\<not> sublist quote_mark s)"
| "value_ok ops (JArr items) = list_all (value_ok ops) items"
| "value_ok ops (JObj m) = (distinct (map fst m) \<and> list_all (\<lambda>(k, v). key_ok k \<and> value_ok ops v) m)"

fun sorted_value :: "casing \<Rightarrow> 'n json \<Rightarrow> 'n json" where
  "sorted_value c (JArr items) = JArr (map (sorted_value c) items)"
| "sorted_value c (JObj m) = JObj (dictsort c (map (\<lambda>(k, v). (k, sorted_value c v)) m))"
| "sorted_value c v = v"

subsection \<open>White space\<close>

lemma ws_prefix_zero: "ws_prefix s = 0 \<longleftrightarrow> (\<forall>w \<in> set ws_chars. \<not> prefix w s)"
  using ws_chars_nonempty
  by (auto simp: ws_prefix_def find_None_iff find_Some_iff split: option.splits)

lemma ws_suffix_zero: "ws_suffix s = 0 \<longleftrightarrow> (\<forall>w \<in> set ws_chars. \<not> suffix w s)"
  using ws_chars_nonempty
  by (auto simp: ws_suffix_def find_None_iff find_Some_iff split: option.splits)

lemma trim_start_same: "trim_start s = s \<longleftrightarrow> ws_prefix s = 0"
proof
  assume t: "trim_start s = s"
  show "ws_prefix s = 0"
  proof (rule ccontr)
    assume n: "ws_prefix s \<noteq> 0"
    then have "length (trim_start s) \<le> length (drop (ws_prefix s) s)"
      using length_trim_start [of "drop (ws_prefix s) s"] by (simp add: trim_start.simps [of s])
    then show False using t n ws_prefix_le [of s] by simp
  qed
qed (simp add: trim_start.simps)

lemma length_trim_end: "length (trim_end s) \<le> length s"
proof (induction s rule: trim_end.induct)
  case (1 s)
  then show ?case by (cases "ws_suffix s = 0") (auto simp: trim_end.simps [of s])
qed

lemma trim_same: "trim s = s \<Longrightarrow> trim_start s = s"
proof -
  assume t: "trim s = s"
  have "length (trim_end (trim_start s)) \<le> length (trim_start s)" by (rule length_trim_end)
  then have "length (trim_start s) = length s"
    using t length_trim_start [of s] by (simp add: trim_def)
  then show ?thesis using trim_start_suffix [of s] by simp
qed

lemma trim_start_solid: "solid c \<Longrightarrow> trim_start (c # s) = c # s"
proof -
  assume s: "solid c"
  have "\<not> prefix w (c # s)" if "w \<in> set ws_chars" for w
    using that s ws_chars_nonempty [OF that] by (cases w rule: list.exhaust) (auto simp: solid_def image_iff)
  then show ?thesis by (simp add: trim_start_same ws_prefix_zero)
qed

lemma trim_end_solid: "solid (last s) \<Longrightarrow> s \<noteq> [] \<Longrightarrow> trim_end s = s"
proof -
  assume s: "solid (last s)" "s \<noteq> []"
  have "\<not> suffix w s" if "w \<in> set ws_chars" for w
    using that s ws_chars_nonempty [OF that] by (auto simp: solid_def suffix_def image_iff)
  then show ?thesis by (simp add: trim_end.simps [of s] ws_suffix_zero)
qed

lemma solid_ascii: "c \<in> set ''0123456789+-.eE{}[]:,<truefalsNone'' \<Longrightarrow> solid c"
proof -
  have "list_all (\<lambda>c. list_all (\<lambda>w. hd w \<noteq> c \<and> last w \<noteq> c) ws_chars) ''0123456789+-.eE{}[]:,<truefalsNone''"
    by code_simp
  then show "c \<in> set ''0123456789+-.eE{}[]:,<truefalsNone'' \<Longrightarrow> solid c"
    unfolding list_all_iff solid_def by blast
qed

abbreviation word_chars :: string where
  "word_chars \<equiv> ''0123456789+-.eEtrufalsNon''"

lemma word_char: "c \<in> set word_chars \<Longrightarrow> solid c \<and> c \<notin> set ''<{['' \<and> c \<notin> set '',}]''"
proof -
  have "list_all (\<lambda>c. list_all (\<lambda>w. hd w \<noteq> c \<and> last w \<noteq> c) ws_chars \<and>
      \<not> List.member ''<{['' c \<and> \<not> List.member '',}]'' c) word_chars"
    by code_simp
  then show "c \<in> set word_chars \<Longrightarrow> solid c \<and> c \<notin> set ''<{['' \<and> c \<notin> set '',}]''"
    unfolding list_all_iff solid_def List.member_iff by blast
qed

lemma trim_solid: "s \<noteq> [] \<Longrightarrow> solid (hd s) \<Longrightarrow> solid (last s) \<Longrightarrow> trim s = s"
  by (cases s) (simp_all add: trim_def trim_start_solid trim_end_solid)

text \<open>A byte that is part of no white-space character separates.\<close>

lemma trim_start_key:
  assumes "trim_start k = k" and "k \<noteq> []"
  shows "trim_start (k @ CHR '':'' # s) = k @ CHR '':'' # s"
proof -
  have "\<not> prefix w (k @ CHR '':'' # s)" if w: "w \<in> set ws_chars" for w
  proof
    assume p: "prefix w (k @ CHR '':'' # s)"
    have "list_all (\<lambda>w. \<not> List.member w CHR '':'') ws_chars" by code_simp
    then have "CHR '':'' \<notin> set w" using w by (simp add: list_all_iff)
    then have "prefix w k" using p by (auto simp: prefix_append prefix_Cons)
    then show False using assms(1) w by (simp add: trim_start_same ws_prefix_zero)
  qed
  then show ?thesis by (simp add: trim_start_same ws_prefix_zero)
qed


subsection \<open>The pieces\<close>

abbreviation advance :: "arg_parser \<Rightarrow> nat \<Rightarrow> arg_parser" where
  "advance p n \<equiv> p\<lparr>ppos := ppos p + n\<rparr>"

lemma rest_advance: "rest p = a @ b \<Longrightarrow> rest (advance p (length a)) = b"
  by (simp add: rest_def add.commute flip: drop_drop)

lemma rest_advance1: "rest p = c # b \<Longrightarrow> rest (advance p 1) = b"
  using rest_advance [of p "[c]" b] by simp

lemma skip_ws_same: "trim_start (rest p) = rest p \<Longrightarrow> skip_ws p = p"
  by (simp add: skip_ws_def)

lemma skip_ws_solid: "rest p = c # s \<Longrightarrow> solid c \<Longrightarrow> skip_ws p = p"
  by (simp add: skip_ws_same trim_start_solid)

lemma eat_hit: "rest p = c # s \<Longrightarrow> eat [c] p = Some (advance p 1)"
  by (simp add: eat_def)

lemma eat_miss: "rest p = d # s \<Longrightarrow> d \<noteq> c \<Longrightarrow> eat [c] p = None"
  by (simp add: eat_def)

text \<open>The quote mark does not overlap itself, so the next occurrence is the closing one.\<close>

lemma prefix_quote_append:
  assumes "prefix quote_mark (s @ quote_mark @ r)" and "s \<noteq> []"
  shows "prefix quote_mark s"
proof (cases "length quote_mark \<le> length s")
  case True
  then show ?thesis using assms(1) by (rule_tac prefix_length_prefix) auto
next
  case False
  then have "length s < 5" by (simp add: quote_mark_def)
  then have "s = take (length s) quote_mark \<and> s \<noteq> [] \<and> False"
    using assms
    by (auto simp: quote_mark_def length_Suc_conv less_Suc_eq numeral_eq_Suc prefix_Cons Cons_eq_append_conv)
  then show ?thesis by simp
qed

lemma find_str_quote: "\<not> sublist quote_mark s \<Longrightarrow> find_str quote_mark (s @ quote_mark @ r) = Some (length s)"
proof (induction s)
  case Nil
  then show ?case by (cases "quote_mark @ r") (auto simp: quote_mark_def)
next
  case (Cons c s)
  have "\<not> prefix quote_mark (c # s)" using Cons.prems by auto
  then have "\<not> prefix quote_mark ((c # s) @ quote_mark @ r)" using prefix_quote_append by blast
  moreover have "\<not> sublist quote_mark s" using Cons.prems by (auto simp: sublist_Cons_right)
  ultimately show ?case using Cons.IH by simp
qed

lemma quoted_back:
  assumes "rest p = quote_mark @ s @ quote_mark @ r" and "\<not> sublist quote_mark s"
  shows "quoted p = Inr (s, advance p (length (quote_mark @ s @ quote_mark)))"
  using rest_advance [OF assms(1)] find_str_quote [OF assms(2), of r]
  by (simp add: quoted_def Let_def add.assoc)

lemma key_back:
  assumes "rest p = k @ CHR '':'' # r" and "key_ok k"
  shows "skip_ws p = p" and "parse_key p = Inr (k, advance p (length k))"
proof -
  have k: "trim k = k" "k \<noteq> []" "\<not> prefix quote_mark k"
    "set k \<inter> {CHR '':'', CHR '','', CHR ''{'', CHR ''}''} = {}"
    using assms(2) by (auto simp: key_ok_def)
  show "skip_ws p = p"
    by (rule skip_ws_same) (simp add: assms(1) trim_start_key [OF trim_same [OF k(1)] k(2)])
  have "\<not> prefix quote_mark (k @ CHR '':'' # r)"
  proof
    assume "prefix quote_mark (k @ CHR '':'' # r)"
    moreover have "CHR '':'' \<notin> set quote_mark" by (simp add: quote_mark_def)
    moreover have "quote_mark \<noteq> k @ CHR '':'' # zs" for zs
      using calculation(2) by (metis in_set_conv_decomp)
    ultimately show False using k(3) by (auto simp: prefix_append prefix_Cons)
  qed
  moreover have "find_any [CHR '':'', CHR '','', CHR ''{'', CHR ''}''] (k @ CHR '':'' # r) = Some (length k)"
    using k(4) by (intro find_any_append) auto
  ultimately show "parse_key p = Inr (k, advance p (length k))"
    using k by (simp add: parse_key_def assms(1) Let_def)
qed

text \<open>A bare word ends before the character that follows it.\<close>

lemma bare_back:
  assumes "rest p = w @ d # r" and "d \<in> set '',}]''" and "set w \<inter> set '',}]'' = {}"
    and "w \<noteq> []" "solid (hd w)" "solid (last w)" and "\<And>n. parse_word ops w n = Inr v"
  shows "parse_bare ops p = Inr (v, advance p (length w))"
proof -
  have "find_any [CHR '','', CHR ''}'', CHR '']''] (w @ d # r) = Some (length w)"
    using assms(2,3) by (intro find_any_append) auto
  then show ?thesis
    using trim_solid [OF assms(4-6)] by (simp add: parse_bare_def assms(1,7) Let_def)
qed


lemma value_head:
  "value_ok ops v \<Longrightarrow> \<exists>d s. format_argument ops c v False = d # s \<and> solid d \<and> d \<noteq> CHR '']''"
proof (cases v)
  case (JNum x)
  assume "value_ok ops v"
  then have n: "num_text ops x \<noteq> []" "set (num_text ops x) \<subseteq> set ''0123456789+-.eE''"
    using JNum by (simp_all add: number_ok_def)
  then have "hd (num_text ops x) \<in> set ''0123456789+-.eE''" using hd_in_set by blast
  then have "solid (hd (num_text ops x)) \<and> hd (num_text ops x) \<noteq> CHR '']''"
    by (intro conjI solid_ascii) auto
  then show ?thesis using n(1) JNum by (cases "num_text ops x") auto
qed (auto simp: quote_mark_def solid_ascii)

definition reads_back :: "'n num_ops \<Rightarrow> casing \<Rightarrow> 'n json \<Rightarrow> bool" where
  "reads_back ops c v \<longleftrightarrow> (\<forall>fuel p d r res. rest p = format_argument ops c v False @ d # r \<longrightarrow>
     d \<in> set '',}]'' \<longrightarrow> parse_value ops fuel p = Some res \<longrightarrow>
     res = Inr (sorted_value c v, advance p (length (format_argument ops c v False))))"

lemma reads_backD:
  "reads_back ops c v \<Longrightarrow> parse_value ops fuel p \<noteq> None \<Longrightarrow> rest p = format_argument ops c v False @ d # r \<Longrightarrow>
   d \<in> set '',}]'' \<Longrightarrow>
   parse_value ops fuel p = Some (Inr (sorted_value c v, advance p (length (format_argument ops c v False))))"
  unfolding reads_back_def by blast

text \<open>The loop over the elements of an array.\<close>

lemma array_back:
  "items \<noteq> [] \<Longrightarrow> \<forall>v \<in> set items. reads_back ops c v \<Longrightarrow>
   rest p = join '','' (map (\<lambda>v. format_argument ops c v False) items) @ CHR '']'' # r \<Longrightarrow>
   array_loop ops fuel acc p = Some res \<Longrightarrow>
   res = Inr (JArr (acc @ map (sorted_value c) items),
     advance p (length (join '','' (map (\<lambda>v. format_argument ops c v False) items)) + 1))"
proof (induction items arbitrary: acc p fuel)
  case Nil
  then show ?case by simp
next
  case (Cons x items)
  obtain f where fuel: "fuel = Suc f" using Cons.prems(4) by (cases fuel) auto
  let ?x = "format_argument ops c x False"
  define tl where "tl = (if items = [] then CHR '']'' # r
    else CHR '','' # join '','' (map (\<lambda>v. format_argument ops c v False) items) @ CHR '']'' # r)"
  have rp: "rest p = ?x @ tl" using Cons.prems(3) by (cases items) (auto simp: tl_def)
  obtain d s where tl: "tl = d # s" "d \<in> set '',}]''" by (cases items) (auto simp: tl_def)
  have v: "parse_value ops f p = Some (Inr (sorted_value c x, advance p (length ?x)))"
    using Cons.prems(2,4) rp tl fuel by (intro reads_backD) (auto simp: bind_fuel_def split: option.splits)
  have r1: "rest (advance p (length ?x)) = tl" by (rule rest_advance [OF rp])
  then have ws: "skip_ws (advance p (length ?x)) = advance p (length ?x)"
    using tl solid_ascii by (intro skip_ws_solid [of _ d s]) auto
  show ?case
  proof (cases items)
    case Nil
    then show ?thesis
      using Cons.prems(4) v ws r1 by (simp add: fuel tl_def eat_def add.assoc)
  next
    case (Cons y ys)
    let ?p = "advance p (length ?x + 1)"
    have e: "eat '','' (advance p (length ?x)) = Some ?p"
      using r1 Cons by (simp add: tl_def eat_def add.assoc)
    have r2: "rest ?p = join '','' (map (\<lambda>v. format_argument ops c v False) items) @ CHR '']'' # r"
      using rest_advance1 [of "advance p (length ?x)"] r1 Cons by (simp add: tl_def add.assoc)
    have "array_loop ops f (acc @ [sorted_value c x]) ?p = Some res"
      using Cons.prems(4) v ws e by (simp add: fuel)
    then show ?thesis
      using Cons.IH [OF _ _ r2, of f "acc @ [sorted_value c x]"] Cons.prems(2) Cons by (simp add: ac_simps)
  qed
qed

text \<open>The loop over the entries of an object.\<close>

abbreviation entry_text :: "'n num_ops \<Rightarrow> casing \<Rightarrow> string \<times> 'n json \<Rightarrow> string" where
  "entry_text ops c \<equiv> \<lambda>(k, v). k @ '':'' @ format_argument ops c v False"

lemma object_back:
  "m \<noteq> [] \<Longrightarrow> \<forall>(k, v) \<in> set m. key_ok k \<and> reads_back ops c v \<and> value_ok ops v \<Longrightarrow> distinct (map fst (acc @ m)) \<Longrightarrow>
   rest p = join '','' (map (entry_text ops c) m) @ CHR ''}'' # r \<Longrightarrow>
   object_loop ops fuel acc p = Some res \<Longrightarrow>
   res = Inr (JObj (acc @ map (\<lambda>(k, v). (k, sorted_value c v)) m),
     advance p (length (join '','' (map (entry_text ops c) m)) + 1))"
proof (induction m arbitrary: acc p fuel)
  case Nil
  then show ?case by simp
next
  case (Cons e m)
  obtain f where fuel: "fuel = Suc f" using Cons.prems(5) by (cases fuel) auto
  obtain k x where e: "e = (k, x)" by (cases e)
  let ?x = "format_argument ops c x False"
  define tl where "tl = (if m = [] then CHR ''}'' # r
    else CHR '','' # join '','' (map (entry_text ops c) m) @ CHR ''}'' # r)"
  have rp: "rest p = k @ CHR '':'' # ?x @ tl" using Cons.prems(4) e by (cases m) (auto simp: tl_def)
  obtain d s where tl: "tl = d # s" "d \<in> set '',}]''" by (cases m) (auto simp: tl_def)
  have ok: "key_ok k" "reads_back ops c x" "value_ok ops x" using Cons.prems(2) e by auto
  note k = key_back [OF rp ok(1)]
  have r1: "rest (advance p (length k)) = CHR '':'' # ?x @ tl" by (rule rest_advance [OF rp])
  have ws1: "skip_ws (advance p (length k)) = advance p (length k)"
    using r1 solid_ascii by (intro skip_ws_solid) auto
  define p1 where "p1 = advance p (length k + 1)"
  have e1: "eat '':'' (advance p (length k)) = Some p1"
    using eat_hit [OF r1] by (simp add: p1_def add.assoc)
  have r2: "rest p1 = ?x @ tl" using rest_advance1 [OF r1] by (simp add: p1_def add.assoc)
  define p2 where "p2 = advance p1 (length ?x)"
  have v: "parse_value ops f p1 = Some (Inr (sorted_value c x, p2))"
    unfolding p2_def using ok(2) r2 tl Cons.prems(5) fuel k ws1 e1
    by (intro reads_backD) (auto simp: bind_fuel_def split: option.splits)
  have r3: "rest p2 = tl" unfolding p2_def by (rule rest_advance [OF r2])
  then have ws: "skip_ws p2 = p2"
    using tl solid_ascii by (intro skip_ws_solid [of _ d s]) auto
  have ins: "map_insert k (sorted_value c x) acc = acc @ [(k, sorted_value c x)]"
    using Cons.prems(3) e by (intro map_insert_new) auto
  show ?case
  proof (cases m)
    case Nil
    then have "eat '','' p2 = None" "eat ''}'' p2 = Some (advance p2 1)"
      using r3 by (simp_all add: tl_def eat_def)
    then show ?thesis
      using Cons.prems(5) k ws1 e1 v ws ins Nil by (simp add: fuel e p2_def p1_def ac_simps)
  next
    case (Cons y ys)
    have e2: "eat '','' p2 = Some (advance p2 1)" using r3 Cons by (simp add: tl_def eat_def)
    have r4: "rest (advance p2 1) = join '','' (map (entry_text ops c) m) @ CHR ''}'' # r"
      using r3 Cons by (intro rest_advance1) (simp add: tl_def)
    have l: "object_loop ops f (acc @ [(k, sorted_value c x)]) (advance p2 1) = Some res"
      using Cons.prems(5) k ws1 e1 v ws ins e2 by (simp add: fuel)
    have "distinct (map fst ((acc @ [(k, sorted_value c x)]) @ m))" using Cons.prems(3) e by auto
    from Cons.IH [OF _ _ this r4 l] show ?thesis
      using Cons.prems(2) Cons e by (simp add: p1_def p2_def ac_simps)
  qed
qed


lemma insort_map: "insort_key g (f x) (map f xs) = map f (insort_key (\<lambda>y. g (f y)) x xs)"
  by (induction xs) auto

lemma sort_map: "sort_key g (map f xs) = map f (sort_key (\<lambda>y. g (f y)) xs)"
  by (induction xs) (auto simp: insort_map)

lemma dictsort_map: "dictsort c (map (\<lambda>(k, v). (k, f v)) m) = map (\<lambda>(k, v). (k, f v)) (dictsort c m)"
proof -
  have "(\<lambda>e. (\<lambda>(k, v). to_lower c k) ((\<lambda>(k, v). (k, f v)) e)) = (\<lambda>(k, v). to_lower c k)" by auto
  then show ?thesis by (simp only: dictsort_def sort_map)
qed

lemma distinct_dictsort: "distinct (map fst m) \<Longrightarrow> distinct (map fst (dictsort c m))"
proof -
  assume "distinct (map fst m)"
  moreover have "mset (map fst (dictsort c m)) = mset (map fst m)" by (simp add: dictsort_def)
  ultimately show ?thesis using mset_eq_imp_distinct_iff by blast
qed

lemma object_text_back:
  assumes "\<forall>(k, v) \<in> set m. key_ok k \<and> reads_back ops c v \<and> value_ok ops v" and "distinct (map fst m)"
    and "rest p = ''{'' @ join '','' (map (entry_text ops c) (dictsort c m)) @ CHR ''}'' # r"
    and "parse_object ops fuel p = Some res"
  shows "res = Inr (sorted_value c (JObj m), advance p (length (format_argument ops c (JObj m) False)))"
proof -
  obtain f where fuel: "fuel = Suc f" using assms(4) by (cases fuel) auto
  let ?es = "dictsort c m"
  let ?b = "join '','' (map (entry_text ops c) ?es)"
  have r1: "rest (advance p 1) = ?b @ CHR ''}'' # r" using assms(3) by (intro rest_advance1) simp
  have e1: "eat ''{'' p = Some (advance p 1)" using assms(3) by (intro eat_hit) simp
  show ?thesis
  proof (cases ?es)
    case Nil
    then have r2: "rest (advance p 1) = CHR ''}'' # r" using r1 by simp
    have "skip_ws (advance p 1) = advance p 1"
      by (rule skip_ws_solid [OF r2 solid_ascii]) simp
    moreover have "eat ''}'' (advance p 1) = Some (advance (advance p 1) 1)"
      by (rule eat_hit [OF r2])
    ultimately show ?thesis using assms(4) e1 Nil by (simp add: fuel dictsort_map)
  next
    case (Cons e es)
    obtain k x where e: "e = (k, x)" by (cases e)
    have "e \<in> set m" using Cons set_dictsort [of c m] by (metis list.set_intros(1))
    then have k: "key_ok k" using assms(1) e by auto
    obtain t where t: "rest (advance p 1) = k @ CHR '':'' # t"
      using r1 unfolding Cons e by (cases es) auto
    note kb = key_back [OF t k]
    have "hd k \<noteq> CHR ''}''" "k \<noteq> []" using k by (auto simp: key_ok_def neq_Nil_conv)
    then have e2: "eat ''}'' (advance p 1) = None"
      using t by (cases k) (simp_all add: eat_miss)
    have "object_loop ops f [] (advance p 1) = Some res"
      using assms(4) e1 e2 kb(1) by (simp add: fuel)
    then have "res = Inr (JObj ([] @ map (\<lambda>(k, v). (k, sorted_value c v)) ?es),
        advance (advance p 1) (length ?b + 1))"
    proof (intro object_back [OF _ _ _ r1])
      show "?es \<noteq> []" using Cons by simp
      show "\<forall>(k, v) \<in> set ?es. key_ok k \<and> reads_back ops c v \<and> value_ok ops v" using assms(1) by simp
      show "distinct (map fst ([] @ ?es))" using distinct_dictsort [OF assms(2)] by simp
    qed
    then show ?thesis by (simp add: dictsort_map)
  qed
qed

lemma bare_value:
  assumes "rest p = w @ d # r" and "d \<in> set '',}]''" and "set w \<inter> set '',}]'' = {}"
    and "w \<noteq> []" "solid (hd w)" "solid (last w)" and "\<And>n. parse_word ops w n = Inr v"
    and "hd w \<notin> set ''<{[''"
  shows "parse_value ops (Suc f) p = Some (Inr (v, advance p (length w)))"
proof -
  obtain a w' where w: "w = a # w'" using assms(4) by (cases w) auto
  have r: "rest p = a # w' @ d # r" using assms(1) w by simp
  have "skip_ws p = p" using r assms(5) w by (intro skip_ws_solid) auto
  moreover have "eat ''['' p = None" using r assms(8) w by (intro eat_miss) auto
  moreover have "\<not> prefix quote_mark (rest p)" "\<not> prefix ''{'' (rest p)"
    unfolding r using assms(8) w by (auto simp: quote_mark_def)
  ultimately show ?thesis
    using bare_back [OF assms(1-7)] by simp
qed

lemma number_word: "number_ok ops x \<Longrightarrow> parse_word ops (num_text ops x) n = Inr (JNum x)"
proof -
  assume x: "number_ok ops x"
  then have sub: "set (num_text ops x) \<subseteq> set ''0123456789+-.eE''" and ne: "num_text ops x \<noteq> []"
    and c: "case parse_i64 (num_text ops x) of Some i \<Rightarrow> num_of_i64 ops i = x
      | None \<Rightarrow> num_of_float_text ops (num_text ops x) = Some x"
    unfolding number_ok_def by blast+
  have "num_text ops x \<noteq> w" if "List.member w d" "\<not> List.member ''0123456789+-.eE'' d" for w d
    using sub that unfolding List.member_iff by blast
  from this [of "''true''" "CHR ''t''"] this [of "''false''" "CHR ''f''"]
    this [of "''None''" "CHR ''N''"] this [of "''null''" "CHR ''n''"]
  have "num_text ops x \<noteq> ''true''" "num_text ops x \<noteq> ''false''" "num_text ops x \<noteq> ''None''"
    "num_text ops x \<noteq> ''null''" by simp_all
  then show ?thesis using ne c by (simp add: parse_word_def split: option.splits)
qed

lemma reads_backI:
  assumes "\<And>f p d r res. rest p = format_argument ops c v False @ d # r \<Longrightarrow> d \<in> set '',}]'' \<Longrightarrow>
      skip_ws p = p \<Longrightarrow> parse_value ops (Suc f) p = Some res \<Longrightarrow>
      res = Inr (sorted_value c v, advance p (length (format_argument ops c v False)))"
    and "value_ok ops v"
  shows "reads_back ops c v"
  unfolding reads_back_def
proof (intro allI impI)
  fix fuel p d r res
  assume a: "rest p = format_argument ops c v False @ d # r" "d \<in> set '',}]''"
    and res: "parse_value ops fuel p = Some res"
  obtain f where fuel: "fuel = Suc f" using res by (cases fuel) auto
  obtain e s where e: "format_argument ops c v False = e # s" "solid e"
    using value_head [OF assms(2)] by metis
  have "skip_ws p = p" using a(1) e by (intro skip_ws_solid [of p e "s @ d # r"]) simp_all
  then show "res = Inr (sorted_value c v, advance p (length (format_argument ops c v False)))"
    using a res unfolding fuel by (intro assms(1))
qed

lemma bare_reads_back:
  assumes "format_argument ops c v False = w" and "value_ok ops v" and "sorted_value c v = v"
    and "w \<noteq> []" and "set w \<subseteq> set word_chars" and "\<And>n. parse_word ops w n = Inr v"
  shows "reads_back ops c v"
proof (rule reads_backI [OF _ assms(2)])
  fix f p d r res
  assume a: "rest p = format_argument ops c v False @ d # r" "d \<in> set '',}]''"
    and res: "parse_value ops (Suc f) p = Some res"
  have hl: "hd w \<in> set word_chars" "last w \<in> set word_chars"
    using assms(4,5) hd_in_set last_in_set by blast+
  have "set w \<inter> set '',}]'' = {}" using assms(5) word_char by blast
  from bare_value [OF a(1) [unfolded assms(1)] a(2) this assms(4) _ _ assms(6)]
  have "parse_value ops (Suc f) p = Some (Inr (v, advance p (length w)))"
    using word_char [OF hl(1)] word_char [OF hl(2)] by blast
  then show "res = Inr (sorted_value c v, advance p (length (format_argument ops c v False)))"
    using res assms(1,3) by simp
qed

text \<open>The parser reads back every value, at any fuel for which it returns at all.\<close>

lemma value_back: "value_ok ops v \<Longrightarrow> reads_back ops c v"
proof (induction ops v rule: value_ok.induct)
  case (1 ops)
  show ?case by (rule bare_reads_back [where w = "''None''"]) (simp_all add: parse_word_def)
next
  case (2 ops b)
  show ?case
    by (cases b; rule bare_reads_back [where w = "if b then ''true'' else ''false''"])
      (simp_all add: parse_word_def)
next
  case (3 ops x)
  then have x: "number_ok ops x" by simp
  then have "num_text ops x \<noteq> []" "set (num_text ops x) \<subseteq> set ''0123456789+-.eE''"
    unfolding number_ok_def by blast+
  moreover have "set ''0123456789+-.eE'' \<subseteq> set word_chars" by simp
  ultimately have w: "num_text ops x \<noteq> []" "set (num_text ops x) \<subseteq> set word_chars" by blast+
  show ?case
    by (rule bare_reads_back [OF _ 3 _ w]) (simp_all only: format_argument.simps sorted_value.simps number_word [OF x])
next
  case (4 ops s)
  show ?case
  proof (rule reads_backI [OF _ 4])
    fix f p d r res
    assume a: "rest p = format_argument ops c (JStr s) False @ d # r" "skip_ws p = p"
      and res: "parse_value ops (Suc f) p = Some res"
    have "quoted p = Inr (s, advance p (length (quote_mark @ s @ quote_mark)))"
      using a(1) 4 by (intro quoted_back [of _ _ "d # r"]) simp_all
    then show "res = Inr (sorted_value c (JStr s), advance p (length (format_argument ops c (JStr s) False)))"
      using a res by simp
  qed
next
  case (5 ops items)
  show ?case
  proof (rule reads_backI [OF _ 5(2)])
    fix f p d r res
    let ?b = "join '','' (map (\<lambda>v. format_argument ops c v False) items)"
    assume a: "rest p = format_argument ops c (JArr items) False @ d # r" "skip_ws p = p"
      and res: "parse_value ops (Suc f) p = Some res"
    have r: "rest p = CHR ''['' # ?b @ CHR '']'' # d # r" using a(1) by simp
    have r1: "rest (advance p 1) = ?b @ CHR '']'' # d # r" by (rule rest_advance1 [OF r])
    have np: "\<not> prefix quote_mark (rest p)" "\<not> prefix ''{'' (rest p)"
      unfolding r by (simp_all add: quote_mark_def)
    have e1: "eat ''['' p = Some (advance p 1)" by (rule eat_hit [OF r])
    show "res = Inr (sorted_value c (JArr items), advance p (length (format_argument ops c (JArr items) False)))"
    proof (cases items)
      case Nil
      then have r2: "rest (advance p 1) = CHR '']'' # d # r" using r1 by simp
      have "skip_ws (advance p 1) = advance p 1" by (rule skip_ws_solid [OF r2 solid_ascii]) simp
      then show ?thesis
        using res np e1 eat_hit [OF r2] a(2) Nil by simp
    next
      case (Cons x xs)
      then have "value_ok ops x" using 5(2) by simp
      from value_head [OF this, of c] obtain e s where e: "format_argument ops c x False = e # s" "solid e"
        "e \<noteq> CHR '']''" by blast
      obtain t where r2: "rest (advance p 1) = e # t" using r1 e(1) unfolding Cons by (cases xs) auto
      have "array_loop ops f [] (advance p 1) = Some res"
        using res np e1 eat_miss [OF r2 e(3)] skip_ws_solid [OF r2 e(2)] a(2) by simp
      then have "res = Inr (JArr ([] @ map (sorted_value c) items), advance (advance p 1) (length ?b + 1))"
        using 5 Cons by (intro array_back [OF _ _ r1]) (auto simp: list_all_iff)
      then show ?thesis by simp
    qed
  qed
next
  case (6 ops m)
  show ?case
  proof (rule reads_backI [OF _ 6(2)])
    fix f p d r res
    assume a: "rest p = format_argument ops c (JObj m) False @ d # r" "skip_ws p = p"
      and res: "parse_value ops (Suc f) p = Some res"
    have r: "rest p = ''{'' @ join '','' (map (entry_text ops c) (dictsort c m)) @ CHR ''}'' # d # r"
      using a(1) by simp
    then have "\<not> prefix quote_mark (rest p)" "prefix ''{'' (rest p)" by (simp_all add: quote_mark_def)
    then have "parse_object ops f p = Some res" using res a(2) by simp
    then show "res = Inr (sorted_value c (JObj m), advance p (length (format_argument ops c (JObj m) False)))"
      using 6 by (intro object_text_back [OF _ _ r]) (auto simp: list_all_iff)
  qed
qed

text \<open>What stands between the markers.\<close>

lemma parse_call_text:
  assumes "value_ok ops (JObj m)" and "CHR ''{'' \<notin> set name" and "trim name \<noteq> []"
  shows "try_parse_tool_call ops (''call:'' @ name @ format_argument ops c (JObj m) False) =
    Some (Inr (trim name, sorted_value c (JObj m)))"
proof -
  let ?a = "format_argument ops c (JObj m) False"
  let ?raw = "''call:'' @ name @ ?a"
  let ?p = "\<lparr>input = ?a, ppos = 0\<rparr>"
  have b: "find_any ''{'' (name @ ?a) = Some (length name)"
    using find_any_append [of name "[CHR ''{'']" "CHR ''{''"] assms(2) by simp
  have "parse_object ops (parse_fuel ?raw) ?p \<noteq> None"
    using fuel_suffices [of "parse_fuel ?raw" ops] by (simp add: parse_fuel_def rest_def)
  then obtain res where res: "parse_object ops (parse_fuel ?raw) ?p = Some res" by blast
  have "res = Inr (sorted_value c (JObj m), advance ?p (length ?a))"
  proof (rule object_text_back [OF _ _ _ res])
    show "\<forall>(k, v) \<in> set m. key_ok k \<and> reads_back ops c v \<and> value_ok ops v"
      using assms(1) value_back by (fastforce simp: list_all_iff)
    show "rest ?p = ''{'' @ join '','' (map (entry_text ops c) (dictsort c m)) @ CHR ''}'' # []"
      by (simp add: rest_def)
  qed (use assms(1) in simp)
  then show ?thesis
    using res b assms(3) by (simp add: try_parse_tool_call_def Let_def skip_ws_def rest_def)
qed

definition sample_args :: "(string \<times> 64 word json) list" where
  "sample_args = [(''to'', JStr ''a,b''), (''n'', JNum 42), (''l'', JArr [JBool True, JNull, JObj []])]"

lemma key_ok_ascii:
  assumes "k \<noteq> []" and "solid (hd k)" and "solid (last k)"
    and "set k \<inter> {CHR '':'', CHR '','', CHR ''{'', CHR ''}''} = {}" and "hd k \<noteq> CHR ''<''"
  shows "key_ok k"
  using assms by (cases k) (simp_all add: key_ok_def trim_solid quote_mark_def)

lemma sample_args_ok: "value_ok small_ops (JObj sample_args)"
proof -
  have "number_ok small_ops 42"
    by (simp add: number_ok_def small_ops_def parse_i64_def dec_digit_def)
  moreover have "solid CHR ''t'' \<and> solid CHR ''o'' \<and> solid CHR ''n'' \<and> solid CHR ''l''"
    by (simp add: word_char)
  ultimately show ?thesis
    by (simp add: sample_args_def key_ok_ascii quote_mark_def sublist_Cons_right)
qed

text \<open>
  C22: The tool-call parser inverts the template: what \<open>render_prompt\<close> writes for a recorded call
  with an object of arguments stands between the two markers and is parsed, without running out
  of fuel, to the same name and the same arguments, its objects in the order in which they were
  written (sorted by key).
\<close>

theorem parse_rendered_call:
  assumes "tc_arguments tc = JObj m" and "value_ok ops (JObj m)"
    and "CHR ''{'' \<notin> set (tc_name tc)" and "trim (tc_name tc) \<noteq> []"
  shows "\<exists>raw. render_call ops c tc = ''<|tool_call>'' @ raw @ ''<tool_call|>'' \<and>
    try_parse_tool_call ops raw = Some (Inr (trim (tc_name tc), sorted_value c (tc_arguments tc)))"
  using parse_call_text [OF assms(2-4), of c] assms(1)
  by (intro exI [of _ "''call:'' @ tc_name tc @ format_argument ops c (JObj m) False"]) (simp add: render_call_def)

theorem parse_rendered_call_witness:
  "\<exists>raw. render_call small_ops plain_casing \<lparr>tc_id = None, tc_name = ''set'', tc_arguments = JObj sample_args\<rparr> =
      ''<|tool_call>'' @ raw @ ''<tool_call|>'' \<and>
    try_parse_tool_call small_ops raw = Some (Inr (trim ''set'', sorted_value plain_casing (JObj sample_args)))"
proof -
  have "solid CHR ''s'' \<and> solid CHR ''t''" by (simp add: word_char)
  then have "trim ''set'' \<noteq> []" by (simp add: trim_solid)
  then show ?thesis
    using parse_rendered_call [of "\<lparr>tc_id = None, tc_name = ''set'', tc_arguments = JObj sample_args\<rparr>"
        sample_args small_ops plain_casing] sample_args_ok by simp
qed

end
