(* ===== verification/Turn_Parser.thy ===== *)
theory Turn_Parser
  imports Tool_Call_Roundtrip
begin

text \<open>
  \<open>crates/sg-tokenizer/src/toolcall.rs\<close>, the streaming half: \<open>TurnParser\<close> splits the token
  stream of a turn into content, thinking and tool-call events. \<open>None\<close> is a panic, \<open>Inl\<close> the
  \<open>DecodeError\<close> of an id out of range (the parser is then unchanged). The main fact is that
  pushing a turn token by token yields the events of the wire format, up to how the deltas
  are cut.
\<close>

subsection \<open>The parser\<close>

datatype 'n turn_event =
    ContentDelta string
  | ThinkingDelta string
  | ToolCall string "'n json"
  | InvalidToolCall string arg_error
  | AwaitingToolResponse
  | EndOfTurn

datatype turn_state =
    InContent
  | ChannelHeader string
  | InChannel
  | InToolCall string

record turn_parser =
  tp_state :: turn_state
  tp_detok :: detok_buffer
  channel_open :: u32
  channel_close :: u32
  tool_call_open :: u32
  tool_call_close :: u32
  tool_response_open :: u32
  tp_eot :: u32
  tp_eos :: u32

text \<open>\<open>TurnParser::new\<close> panics if a control token is missing.\<close>

definition turn_new :: "vocab \<Rightarrow> turn_parser option" where
  "turn_new v =
     Option.bind (id_of v ''<|channel>'') (\<lambda>co.
     Option.bind (id_of v ''<channel|>'') (\<lambda>cc.
     Option.bind (id_of v ''<|tool_call>'') (\<lambda>to.
     Option.bind (id_of v ''<tool_call|>'') (\<lambda>tc.
     Option.bind (id_of v ''<|tool_response>'') (\<lambda>tr.
     Some \<lparr>tp_state = InContent, tp_detok = detok_new, channel_open = co, channel_close = cc,
       tool_call_open = to, tool_call_close = tc, tool_response_open = tr,
       tp_eot = eot v, tp_eos = eos v\<rparr>)))))"

definition end_segment :: "turn_parser \<Rightarrow> 'n turn_event list \<Rightarrow> turn_parser \<times> 'n turn_event list" where
  "end_segment tp events =
     (let (d, tail) = detok_flush (tp_detok tp) []; tp' = tp\<lparr>tp_detok := d\<rparr> in
      if tail = [] then (tp', events)
      else case tp_state tp' of
        InContent \<Rightarrow> (tp', events @ [ContentDelta tail])
      | InChannel \<Rightarrow> (tp', events @ [ThinkingDelta tail])
      | ChannelHeader _ \<Rightarrow> (tp', events @ [ThinkingDelta tail])
      | InToolCall raw \<Rightarrow> (tp'\<lparr>tp_state := InToolCall (raw @ tail)\<rparr>, events))"

definition parse_tool_call :: "'n num_ops \<Rightarrow> string \<Rightarrow> 'n turn_event option" where
  "parse_tool_call ops raw =
     map_option (\<lambda>r. case r of
       Inl e \<Rightarrow> InvalidToolCall raw e
     | Inr (name, args) \<Rightarrow> ToolCall name args) (try_parse_tool_call ops raw)"

text \<open>The final \<open>match\<close> of \<open>push\<close>, on a text that is not empty.\<close>

definition push_text :: "turn_state \<Rightarrow> string \<Rightarrow> turn_state \<times> 'n turn_event list" where
  "push_text st s =
     (case st of
        InContent \<Rightarrow> (InContent, [ContentDelta s])
      | InChannel \<Rightarrow> (InChannel, [ThinkingDelta s])
      | InToolCall raw \<Rightarrow> (InToolCall (raw @ s), [])
      | ChannelHeader h \<Rightarrow>
          (case find_any [CHR 0x0A] (h @ s) of
             None \<Rightarrow> (ChannelHeader (h @ s), [])
           | Some nl \<Rightarrow>
               (let body = drop (nl + 1) (h @ s) in
                (InChannel, if body = [] then [] else [ThinkingDelta body]))))"

definition turn_push :: "'n num_ops \<Rightarrow> vocab \<Rightarrow> turn_parser \<Rightarrow> u32 \<Rightarrow> 'n turn_event list \<Rightarrow>
    (decode_error + (turn_parser \<times> 'n turn_event list)) option" where
  "turn_push ops v tp tid events =
     (if tid = tp_eot tp \<or> tid = tp_eos tp then
        (let (tp1, ev) = end_segment tp events in Some (Inr (tp1, ev @ [EndOfTurn])))
      else if tid = tool_call_open tp then
        (let (tp1, ev) = end_segment tp events in Some (Inr (tp1\<lparr>tp_state := InToolCall []\<rparr>, ev)))
      else if tid = tool_call_close tp then
        (case tp_state tp of
           InToolCall raw \<Rightarrow>
             (let (d, raw') = detok_flush (tp_detok tp) raw in
              map_option (\<lambda>e. Inr (tp\<lparr>tp_state := InContent, tp_detok := d\<rparr>, events @ [e]))
                (parse_tool_call ops raw'))
         | _ \<Rightarrow> Some (Inr (tp\<lparr>tp_state := InContent\<rparr>, events)))
      else if tid = channel_open tp then
        (let (tp1, ev) = end_segment tp events in Some (Inr (tp1\<lparr>tp_state := ChannelHeader []\<rparr>, ev)))
      else if tid = channel_close tp then
        (let (tp1, ev) = end_segment tp events in Some (Inr (tp1\<lparr>tp_state := InContent\<rparr>, ev)))
      else if tid = tool_response_open tp then
        (let (tp1, ev) = end_segment tp events in Some (Inr (tp1, ev @ [AwaitingToolResponse])))
      else
        (case decode_streaming v tid (tp_detok tp) [] of
           None \<Rightarrow> None
         | Some (Inl e) \<Rightarrow> Some (Inl e)
         | Some (Inr (d, s)) \<Rightarrow>
             (let tp1 = tp\<lparr>tp_detok := d\<rparr> in
              if s = [] then Some (Inr (tp1, events))
              else let (st, ev) = push_text (tp_state tp1) s in
                   Some (Inr (tp1\<lparr>tp_state := st\<rparr>, events @ ev)))))"

definition turn_finish :: "turn_parser \<Rightarrow> 'n turn_event list \<Rightarrow> turn_parser \<times> 'n turn_event list" where
  "turn_finish tp events =
     (let (tp1, ev) = end_segment tp events in
      (tp1\<lparr>tp_state := InContent\<rparr>,
       case tp_state tp1 of
         InToolCall raw \<Rightarrow> if raw \<noteq> [] then ev @ [InvalidToolCall raw UnterminatedCall] else ev
       | _ \<Rightarrow> ev))"

text \<open>A caller pushes the sampled tokens in turn.\<close>

fun push_all :: "'n num_ops \<Rightarrow> vocab \<Rightarrow> turn_parser \<Rightarrow> u32 list \<Rightarrow> 'n turn_event list \<Rightarrow>
    (decode_error + (turn_parser \<times> 'n turn_event list)) option" where
  "push_all ops v tp [] events = Some (Inr (tp, events))"
| "push_all ops v tp (i # is) events =
     bind_fuel (turn_push ops v tp i events) (\<lambda>(tp', events'). push_all ops v tp' is events')"

subsection \<open>Safety\<close>

definition structural :: "turn_parser \<Rightarrow> u32 \<Rightarrow> bool" where
  "structural tp i \<longleftrightarrow> i \<in> {tp_eot tp, tp_eos tp, tool_call_open tp, tool_call_close tp, channel_open tp,
     channel_close tp, tool_response_open tp}"

definition turn_inv :: "turn_parser \<Rightarrow> bool" where
  "turn_inv tp \<longleftrightarrow> detok_inv (tp_detok tp) \<and>
     (\<forall>h. tp_state tp = ChannelHeader h \<longrightarrow> CHR 0x0A \<notin> set h)"

fun is_delta :: "'n turn_event \<Rightarrow> bool" where
  "is_delta (ContentDelta s) = (s \<noteq> [])"
| "is_delta (ThinkingDelta s) = (s \<noteq> [])"
| "is_delta _ = False"

lemma turn_inv_new: "turn_new v = Some tp \<Longrightarrow> turn_inv tp"
  by (auto simp: turn_new_def turn_inv_def bind_eq_Some_conv)

lemma end_segment_events:
  "end_segment tp events = (tp', events') \<Longrightarrow> turn_inv tp \<Longrightarrow>
   \<exists>new. events' = events @ new \<and> list_all is_delta new \<and> turn_inv tp' \<and> pending (tp_detok tp') = []"
  using detok_inv_flush [of "tp_detok tp" "[]"]
  by (auto simp: end_segment_def Let_def turn_inv_def detok_flush_def split: prod.splits if_splits turn_state.splits)

lemma push_text_events:
  "push_text st s = (st', new) \<Longrightarrow> s \<noteq> [] \<Longrightarrow>
   list_all is_delta new \<and> length new \<le> 1 \<and> (\<forall>h. st' = ChannelHeader h \<longrightarrow> CHR 0x0A \<notin> set h)"
  by (auto simp: push_text_def find_any_None Let_def split: turn_state.splits option.splits if_splits)

lemma parse_tool_call_total:
  "\<exists>e. parse_tool_call ops raw = Some e \<and> (\<exists>n a. e = ToolCall n a \<or> (\<exists>m. e = InvalidToolCall raw m))"
proof -
  obtain y where y: "try_parse_tool_call ops raw = Some y" using try_parse_total by blast
  then show ?thesis by (cases y) (auto simp: parse_tool_call_def)
qed

lemma decode_streaming_cases:
  assumes "detok_inv buf"
  obtains (Bad) "\<not> id_ok v i" "decode_streaming v i buf out = Some (Inl (IdOutOfRange i))"
  | (Good) buf' out' where "id_ok v i" "decode_streaming v i buf out = Some (Inr (buf', out'))"
      "decode_feed v buf i out = Some (buf', out')" "detok_inv buf'"
proof (cases "id_ok v i")
  case False
  then show thesis by (intro Bad) (auto simp: id_ok_def decode_streaming_def)
next
  case True
  then obtain buf' out' where f: "decode_feed v buf i out = Some (buf', out')"
    using dec.feed_total [OF assms, of v i out] by blast
  then have "decode_streaming v i buf out = Some (Inr (buf', out'))"
    by (auto simp: decode_feed_def split: option.splits sum.splits)
  then show thesis using Good True f dec.feed_inv [OF assms f] by blast
qed


lemma turn_push_text:
  assumes "\<not> structural tp i"
  shows "turn_push ops v tp i events =
    (case decode_streaming v i (tp_detok tp) [] of
       None \<Rightarrow> None
     | Some (Inl e) \<Rightarrow> Some (Inl e)
     | Some (Inr (d, s)) \<Rightarrow>
         (let tp1 = tp\<lparr>tp_detok := d\<rparr> in
          if s = [] then Some (Inr (tp1, events))
          else let (st, ev) = push_text (tp_state tp1) s in
               Some (Inr (tp1\<lparr>tp_state := st\<rparr>, events @ ev))))"
  using assms by (simp add: turn_push_def structural_def)

lemma turn_push_structural:
  assumes "structural tp i" and "turn_inv tp"
  shows "\<exists>tp' new. turn_push ops v tp i events = Some (Inr (tp', events @ new)) \<and> turn_inv tp'"
proof -
  obtain tp1 ev where e: "end_segment tp events = (tp1, ev)" by (cases "end_segment tp events")
  obtain new where new: "ev = events @ new" "turn_inv tp1"
    using end_segment_events [OF e assms(2)] by blast
  have inv: "turn_inv (tp1\<lparr>tp_state := st\<rparr>)" if "\<And>h. st = ChannelHeader h \<Longrightarrow> h = []" for st
    using new(2) that by (auto simp: turn_inv_def)
  have inv': "turn_inv (tp\<lparr>tp_state := InContent\<rparr>)" "turn_inv (tp\<lparr>tp_state := InContent, tp_detok := fst (detok_flush (tp_detok tp) raw)\<rparr>)" for raw
    using assms(2) by (simp_all add: turn_inv_def)
  show ?thesis
  proof (cases "i = tool_call_close tp \<and> i \<noteq> tp_eot tp \<and> i \<noteq> tp_eos tp \<and> i \<noteq> tool_call_open tp")
    case True
    then have eq: "turn_push ops v tp i events = (case tp_state tp of
           InToolCall raw \<Rightarrow>
             (let (d, raw') = detok_flush (tp_detok tp) raw in
              map_option (\<lambda>e. Inr (tp\<lparr>tp_state := InContent, tp_detok := d\<rparr>, events @ [e]))
                (parse_tool_call ops raw'))
         | _ \<Rightarrow> Some (Inr (tp\<lparr>tp_state := InContent\<rparr>, events)))"
      unfolding turn_push_def by (auto simp only: if_True if_False simp_thms)
    show ?thesis
    proof (cases "tp_state tp")
      case (InToolCall raw)
      obtain e' where "parse_tool_call ops (snd (detok_flush (tp_detok tp) raw)) = Some e'"
        using parse_tool_call_total by blast
      then show ?thesis unfolding eq InToolCall using inv'(2) [of raw] by (simp add: case_prod_beta)
    qed (use eq inv' in auto)
  next
    case False
    let ?f = "\<lambda>st. tp1\<lparr>tp_state := st\<rparr>"
    have "turn_push ops v tp i events \<in> {Some (Inr (tp1, ev @ [EndOfTurn])), Some (Inr (?f (InToolCall []), ev)),
        Some (Inr (?f (ChannelHeader []), ev)), Some (Inr (?f InContent, ev)),
        Some (Inr (tp1, ev @ [AwaitingToolResponse]))}"
      using False assms(1) unfolding turn_push_def structural_def e Let_def prod.case insert_iff empty_iff
      by presburger
    then show ?thesis using new inv by auto
  qed
qed

lemma turn_push_ok:
  fixes ops :: "'n num_ops"
  assumes "turn_inv tp"
  shows "(\<exists>tp' new. turn_push ops v tp i events = Some (Inr (tp', events @ new)) \<and> turn_inv tp' \<and>
      (structural tp i \<or> list_all is_delta new \<and> length new \<le> 1)) \<or>
    (turn_push ops v tp i events = Some (Inl (IdOutOfRange i)) \<and> \<not> structural tp i \<and> \<not> id_ok v i)"
proof (cases "structural tp i")
  case True
  then show ?thesis using turn_push_structural [OF True assms] by blast
next
  case False
  have d: "detok_inv (tp_detok tp)" using assms by (simp add: turn_inv_def)
  show ?thesis
    using d
  proof (cases rule: decode_streaming_cases [of _ v i "[]"])
    case Bad
    then show ?thesis using False by (simp add: turn_push_text)
  next
    case (Good buf' s)
    obtain st and new :: "'n turn_event list" where p: "push_text (tp_state tp) s = (st, new)"
      by (cases "push_text (tp_state tp) s :: turn_state \<times> 'n turn_event list")
    have "turn_inv (tp\<lparr>tp_detok := buf'\<rparr>)" using assms Good(4) by (simp add: turn_inv_def)
    moreover have "s \<noteq> [] \<Longrightarrow> turn_inv (tp\<lparr>tp_detok := buf', tp_state := st\<rparr>)"
      using push_text_events [OF p] Good(4) by (simp add: turn_inv_def)
    ultimately show ?thesis
      using False Good p push_text_events [OF p] by (cases "s = []") (simp_all add: turn_push_text)
  qed
qed

text \<open>
  C23: The streaming parser never panics and its invariant is preserved: the detokenizer withholds
  only the beginning of a code point and a channel header has no newline yet. A token fails only
  if it is an ordinary token that is out of range, and an ordinary token produces at most one
  event, a delta that is not empty: no text a model spells can forge a tool call, an end of turn
  or a tool response.
\<close>

theorem turn_push_safe:
  fixes ops :: "'n num_ops"
  assumes "turn_inv tp"
  shows "(\<exists>tp' new. turn_push ops v tp i events = Some (Inr (tp', events @ new)) \<and> turn_inv tp' \<and>
      (structural tp i \<or> list_all is_delta new \<and> length new \<le> 1)) \<or>
    (turn_push ops v tp i events = Some (Inl (IdOutOfRange i)) \<and> \<not> structural tp i \<and> \<not> id_ok v i)"
  by (rule turn_push_ok [OF assms])

subsection \<open>The wire format\<close>

text \<open>What a stream of events says, however the deltas are cut.\<close>

datatype 'n atom = ContentChar char | ThinkingChar char | Event "'n turn_event"

fun atoms_of :: "'n turn_event \<Rightarrow> 'n atom list" where
  "atoms_of (ContentDelta s) = map ContentChar s"
| "atoms_of (ThinkingDelta s) = map ThinkingChar s"
| "atoms_of e = [Event e]"

definition flatten :: "'n turn_event list \<Rightarrow> 'n atom list" where
  "flatten es = concat (map atoms_of es)"

lemma flatten_simps [simp]: "flatten [] = []" "flatten (e # es) = atoms_of e @ flatten es"
  "flatten (es @ fs) = flatten es @ flatten fs"
  by (simp_all add: flatten_def)

datatype block =
    TextBlock "u32 list"        \<comment> \<open>visible text\<close>
  | ThoughtBlock "u32 list"     \<comment> \<open>\<open><|channel>\<close>, a header line and the thoughts, \<open><channel|>\<close>\<close>
  | CallBlock "u32 list"        \<comment> \<open>\<open><|tool_call>\<close>, the call, \<open><tool_call|>\<close>\<close>
  | ResponseBlock               \<comment> \<open>\<open><|tool_response>\<close>\<close>
  | EndBlock                    \<comment> \<open>\<open><turn|>\<close>\<close>

fun block_ids :: "turn_parser \<Rightarrow> block \<Rightarrow> u32 list" where
  "block_ids tp (TextBlock is) = is"
| "block_ids tp (ThoughtBlock is) = channel_open tp # is @ [channel_close tp]"
| "block_ids tp (CallBlock is) = tool_call_open tp # is @ [tool_call_close tp]"
| "block_ids tp ResponseBlock = [tool_response_open tp]"
| "block_ids tp EndBlock = [tp_eot tp]"

definition after_header :: "string \<Rightarrow> string" where
  "after_header s = drop (Suc (the (find_any [CHR 0x0A] s))) s"

fun block_atoms :: "'n num_ops \<Rightarrow> vocab \<Rightarrow> block \<Rightarrow> 'n atom list" where
  "block_atoms ops v (TextBlock is) = map ContentChar (decode_spec v [] is)"
| "block_atoms ops v (ThoughtBlock is) = map ThinkingChar (after_header (decode_spec v [] is))"
| "block_atoms ops v (CallBlock is) = [Event (the (parse_tool_call ops (decode_spec v [] is)))]"
| "block_atoms ops v ResponseBlock = [Event AwaitingToolResponse]"
| "block_atoms ops v EndBlock = [Event EndOfTurn]"

definition text_ids :: "vocab \<Rightarrow> turn_parser \<Rightarrow> u32 list \<Rightarrow> bool" where
  "text_ids v tp is \<longleftrightarrow> list_all (\<lambda>i. \<not> structural tp i \<and> id_ok v i) is"

fun block_ok :: "vocab \<Rightarrow> turn_parser \<Rightarrow> block \<Rightarrow> bool" where
  "block_ok v tp (TextBlock is) = text_ids v tp is"
| "block_ok v tp (ThoughtBlock is) = (text_ids v tp is \<and> CHR 0x0A \<in> set (decode_spec v [] is))"
| "block_ok v tp (CallBlock is) = text_ids v tp is"
| "block_ok v tp _ = True"

text \<open>Two adjacent text blocks would be one.\<close>

fun separated :: "block list \<Rightarrow> bool" where
  "separated (TextBlock a # TextBlock b # bs) = False"
| "separated (b # bs) = separated bs"
| "separated [] = True"


subsection \<open>Runs of ordinary tokens\<close>

lemma push_loop_out: "push_loop p (o1 @ out) = map_option (\<lambda>(q, t). (q, o1 @ t)) (push_loop p out)"
proof (induction p out rule: push_loop.induct)
  case (1 p out)
  show ?case
  proof (cases "utf8_error p")
    case None
    then show ?thesis by (simp add: push_loop.simps [of p])
  next
    case (Some ve)
    obtain k e where ve: "ve = (k, e)" by (cases ve)
    show ?thesis
    proof (cases "from_utf8 (take k p)")
      case None
      then show ?thesis using Some ve by (simp add: push_loop.simps [of p])
    next
      case s: (Some s)
      show ?thesis
        using Some ve s 1(1) [OF Some [unfolded ve] refl s] by (cases e) (simp_all add: push_loop.simps [of p])
    qed
  qed
qed

lemma decode_feed_out:
  "decode_feed v buf i (o1 @ out) = map_option (\<lambda>(b, t). (b, o1 @ t)) (decode_feed v buf i out)"
proof (cases "byte_of v i")
  case (Some b)
  then show ?thesis
    by (simp add: decode_feed_byte push_byte_def push_loop_out option.map_comp comp_def case_prod_beta)
next
  case None
  then show ?thesis
    by (cases "piece_of v i") (simp_all add: decode_feed_piece detok_flush_def)
qed

lemma feed_all_out:
  "feed_all (decode_feed v) buf is (o1 @ out) = map_option (\<lambda>(b, t). (b, o1 @ t)) (feed_all (decode_feed v) buf is out)"
proof (induction "is" arbitrary: buf out)
  case (Cons i "is")
  then show ?case by (cases "decode_feed v buf i out") (auto simp: decode_feed_out)
qed simp

definition deliver :: "turn_state \<Rightarrow> string \<Rightarrow> turn_state \<times> 'n turn_event list" where
  "deliver st s = (if s = [] then (st, []) else push_text st s)"

lemma deliver_simps [simp]:
  "deliver st [] = (st, [])"
  "deliver InContent s = (InContent, if s = [] then [] else [ContentDelta s])"
  "deliver InChannel s = (InChannel, if s = [] then [] else [ThinkingDelta s])"
  "deliver (InToolCall raw) s = (InToolCall (raw @ s), [])"
  by (simp_all add: deliver_def push_text_def)

lemma find_any_append_Some: "find_any cs a = Some n \<Longrightarrow> find_any cs (a @ b) = Some n"
  by (induction cs a arbitrary: n rule: find_any.induct) (auto split: if_splits)

lemma deliver_header:
  "s \<noteq> [] \<Longrightarrow> deliver (ChannelHeader h) s = (case find_any [CHR 0x0A] (h @ s) of
     None \<Rightarrow> (ChannelHeader (h @ s), [])
   | Some nl \<Rightarrow> (InChannel, snd (deliver InChannel (drop (nl + 1) (h @ s)))))"
  by (auto simp: deliver_def push_text_def Let_def split: option.splits)

text \<open>Cutting a text in two changes neither the state reached nor what is said.\<close>

lemma deliver_append:
  fixes e1 e2 e :: "'n turn_event list"
  assumes "deliver st a = (st1, e1)" and "deliver st1 b = (st2, e2)" and "deliver st (a @ b) = (st', e)"
  shows "st' = st2 \<and> flatten e = flatten e1 @ flatten e2"
proof (cases "a = [] \<or> b = []")
  case True
  then show ?thesis using assms by auto
next
  case False
  show ?thesis
  proof (cases st)
    case (ChannelHeader h)
    show ?thesis
    proof (cases "find_any [CHR 0x0A] (h @ a)")
      case None
      then have "st1 = ChannelHeader (h @ a)" "e1 = []"
        using assms(1) False by (simp_all add: ChannelHeader deliver_header)
      then show ?thesis
        using assms(2,3) False by (simp add: ChannelHeader deliver_header split: option.splits)
    next
      case (Some nl)
      then have "nl < length (h @ a)" using find_any_Some by blast
      then have "drop (nl + 1) (h @ a @ b) = drop (nl + 1) (h @ a) @ b" by simp
      then show ?thesis
        using assms False find_any_append_Some [OF Some, of b] Some
        by (auto simp: ChannelHeader deliver_header)
    qed
  qed (use assms False in auto)
qed

lemma push_all_text:
  fixes ops :: "'n num_ops"
  assumes "text_ids v tp is" and "turn_inv tp"
  shows "\<exists>new buf t. push_all ops v tp is events =
      Some (Inr (tp\<lparr>tp_state := fst (deliver (tp_state tp) t :: turn_state \<times> 'n turn_event list), tp_detok := buf\<rparr>, events @ new)) \<and>
    feed_all (decode_feed v) (tp_detok tp) is [] = Some (buf, t) \<and>
    flatten new = flatten (snd (deliver (tp_state tp) t)) \<and>
    turn_inv (tp\<lparr>tp_state := fst (deliver (tp_state tp) t :: turn_state \<times> 'n turn_event list), tp_detok := buf\<rparr>)"
  using assms
proof (induction "is" arbitrary: tp events)
  case Nil
  then show ?case by simp
next
  case (Cons i "is")
  let ?del = "deliver :: turn_state \<Rightarrow> string \<Rightarrow> turn_state \<times> 'n turn_event list"
  have i: "\<not> structural tp i" "id_ok v i" using Cons.prems(1) by (simp_all add: text_ids_def)
  have "detok_inv (tp_detok tp)" using Cons.prems(2) by (simp add: turn_inv_def)
  then obtain buf s where f: "decode_feed v (tp_detok tp) i [] = Some (buf, s)"
    "decode_streaming v i (tp_detok tp) [] = Some (Inr (buf, s))"
    using i(2) decode_streaming_cases [of "tp_detok tp" v i "[]"] by metis
  obtain st1 e1 where d1: "?del (tp_state tp) s = (st1, e1)" by (cases "?del (tp_state tp) s")
  define tp1 where "tp1 = tp\<lparr>tp_state := st1, tp_detok := buf\<rparr>"
  have p: "turn_push ops v tp i events = Some (Inr (tp1, events @ e1))"
    using f(2) d1 by (auto simp: turn_push_text [OF i(1)] deliver_def tp1_def split: if_splits)
  have inv: "turn_inv tp1"
    using turn_push_ok [OF Cons.prems(2), of ops v i events] p by auto
  have "text_ids v tp1 is" using Cons.prems(1) by (simp add: text_ids_def tp1_def structural_def)
  from Cons.IH [OF this inv, of "events @ e1"] obtain new buf2 t where IH:
    "push_all ops v tp1 is (events @ e1) = Some (Inr (tp1\<lparr>tp_state := fst (?del st1 t), tp_detok := buf2\<rparr>, (events @ e1) @ new))"
    "feed_all (decode_feed v) buf is [] = Some (buf2, t)"
    "flatten new = flatten (snd (?del st1 t))"
    "turn_inv (tp1\<lparr>tp_state := fst (?del st1 t), tp_detok := buf2\<rparr>)"
    by (auto simp: tp1_def)
  obtain st2 e2 where d2: "?del st1 t = (st2, e2)" by (cases "?del st1 t")
  obtain st3 e3 where d3: "?del (tp_state tp) (s @ t) = (st3, e3)" by (cases "?del (tp_state tp) (s @ t)")
  note d = deliver_append [OF d1 d2 d3]
  have "feed_all (decode_feed v) buf is s = Some (buf2, s @ t)"
    using feed_all_out [of v buf "is" s "[]"] IH(2) by simp
  then show ?case
    using IH p f(1) d d2 d3 by (intro exI [of _ "e1 @ new"] exI [of _ buf2] exI [of _ "s @ t"]) (simp add: tp1_def)
qed


subsection \<open>Blocks\<close>

definition controls_distinct :: "turn_parser \<Rightarrow> bool" where
  "controls_distinct tp \<longleftrightarrow> distinct [tp_eot tp, tp_eos tp, tool_call_open tp, tool_call_close tp,
     channel_open tp, channel_close tp, tool_response_open tp]"

lemma turn_push_controls:
  assumes "controls_distinct tp"
  shows "turn_push ops v tp (tp_eot tp) events =
      (let (tp1, ev) = end_segment tp events in Some (Inr (tp1, ev @ [EndOfTurn])))"
    and "turn_push ops v tp (tool_call_open tp) events =
      (let (tp1, ev) = end_segment tp events in Some (Inr (tp1\<lparr>tp_state := InToolCall []\<rparr>, ev)))"
    and "turn_push ops v tp (channel_open tp) events =
      (let (tp1, ev) = end_segment tp events in Some (Inr (tp1\<lparr>tp_state := ChannelHeader []\<rparr>, ev)))"
    and "turn_push ops v tp (channel_close tp) events =
      (let (tp1, ev) = end_segment tp events in Some (Inr (tp1\<lparr>tp_state := InContent\<rparr>, ev)))"
    and "turn_push ops v tp (tool_response_open tp) events =
      (let (tp1, ev) = end_segment tp events in Some (Inr (tp1, ev @ [AwaitingToolResponse])))"
    and "tp_state tp = InToolCall raw \<Longrightarrow> turn_push ops v tp (tool_call_close tp) events =
      (let (d, raw') = detok_flush (tp_detok tp) raw in
       map_option (\<lambda>e. Inr (tp\<lparr>tp_state := InContent, tp_detok := d\<rparr>, events @ [e]))
         (parse_tool_call ops raw'))"
proof -
  have ne: "tool_call_open tp \<noteq> tp_eot tp" "tool_call_open tp \<noteq> tp_eos tp"
    "channel_open tp \<noteq> tp_eot tp" "channel_open tp \<noteq> tp_eos tp" "channel_open tp \<noteq> tool_call_open tp"
    "channel_open tp \<noteq> tool_call_close tp"
    "tool_call_close tp \<noteq> tp_eot tp" "tool_call_close tp \<noteq> tp_eos tp" "tool_call_close tp \<noteq> tool_call_open tp"
    "channel_close tp \<noteq> tp_eot tp" "channel_close tp \<noteq> tp_eos tp" "channel_close tp \<noteq> tool_call_open tp"
    "channel_close tp \<noteq> tool_call_close tp" "channel_close tp \<noteq> channel_open tp"
    "tool_response_open tp \<noteq> tp_eot tp" "tool_response_open tp \<noteq> tp_eos tp"
    "tool_response_open tp \<noteq> tool_call_open tp" "tool_response_open tp \<noteq> tool_call_close tp"
    "tool_response_open tp \<noteq> channel_open tp" "tool_response_open tp \<noteq> channel_close tp"
    using assms unfolding controls_distinct_def by auto
  show "turn_push ops v tp (tp_eot tp) events =
      (let (tp1, ev) = end_segment tp events in Some (Inr (tp1, ev @ [EndOfTurn])))"
    by (simp add: turn_push_def)
  show "turn_push ops v tp (tool_call_open tp) events =
      (let (tp1, ev) = end_segment tp events in Some (Inr (tp1\<lparr>tp_state := InToolCall []\<rparr>, ev)))"
    by (simp add: turn_push_def ne)
  show "turn_push ops v tp (channel_open tp) events =
      (let (tp1, ev) = end_segment tp events in Some (Inr (tp1\<lparr>tp_state := ChannelHeader []\<rparr>, ev)))"
    by (simp add: turn_push_def ne)
  show "turn_push ops v tp (channel_close tp) events =
      (let (tp1, ev) = end_segment tp events in Some (Inr (tp1\<lparr>tp_state := InContent\<rparr>, ev)))"
    by (simp add: turn_push_def ne)
  show "turn_push ops v tp (tool_response_open tp) events =
      (let (tp1, ev) = end_segment tp events in Some (Inr (tp1, ev @ [AwaitingToolResponse])))"
    by (simp add: turn_push_def ne)
  show "tp_state tp = InToolCall raw \<Longrightarrow> turn_push ops v tp (tool_call_close tp) events =
      (let (d, raw') = detok_flush (tp_detok tp) raw in
       map_option (\<lambda>e. Inr (tp\<lparr>tp_state := InContent, tp_detok := d\<rparr>, events @ [e]))
         (parse_tool_call ops raw'))"
    by (simp add: turn_push_def ne)
qed

lemma controls_distinct_update [simp]:
  "controls_distinct (tp\<lparr>tp_state := st\<rparr>) = controls_distinct tp"
  "controls_distinct (tp\<lparr>tp_detok := d\<rparr>) = controls_distinct tp"
  by (simp_all add: controls_distinct_def)

definition tail_of :: "detok_buffer \<Rightarrow> string" where
  "tail_of d = (if pending d = [] then [] else replacement_char)"

lemma tail_of_new [simp]: "tail_of detok_new = []" "tail_of \<lparr>pending = []\<rparr> = []"
  by (simp_all add: tail_of_def detok_new_def)

lemma detok_flush_tail: "detok_flush d out = (\<lparr>pending = []\<rparr>, out @ tail_of d)"
  by (cases d) (auto simp: detok_flush_def tail_of_def)

lemma end_segment_content:
  "tp_state tp = InContent \<Longrightarrow> \<exists>new. end_segment tp events = (tp\<lparr>tp_detok := detok_new\<rparr>, events @ new) \<and>
     flatten new = map ContentChar (tail_of (tp_detok tp))"
  by (auto simp: end_segment_def detok_flush_tail detok_new_def Let_def)

lemma text_tail:
  assumes "list_all (id_ok v) is" and "feed_all (decode_feed v) detok_new is [] = Some (buf, t)"
  shows "t @ tail_of buf = decode_spec v [] is"
  using dec.feed_all_close [OF detok_inv_new assms]
  by (simp add: flush_streaming_def detok_flush_tail decode_rest_def detok_new_def)

lemma push_all_append:
  "push_all ops v tp (xs @ ys) events = bind_fuel (push_all ops v tp xs events) (\<lambda>(tp', ev). push_all ops v tp' ys ev)"
  by (induction xs arbitrary: tp events) (auto simp: bind_fuel_def split: option.splits sum.splits)

lemma controls_update [simp]:
  "structural (tp\<lparr>tp_state := st\<rparr>) = structural tp" "structural (tp\<lparr>tp_detok := d\<rparr>) = structural tp"
  by (auto simp: structural_def)

lemma text_ids_update [simp]:
  "text_ids v (tp\<lparr>tp_state := st\<rparr>) = text_ids v tp" "text_ids v (tp\<lparr>tp_detok := d\<rparr>) = text_ids v tp"
  by (auto simp: text_ids_def)

lemma text_ids_ok: "text_ids v tp is \<Longrightarrow> list_all (id_ok v) is"
  by (auto simp: text_ids_def list_all_iff)

text \<open>A run of ordinary tokens from a state with nothing withheld.\<close>

lemma push_all_fresh:
  fixes ops :: "'n num_ops"
  assumes "text_ids v tp is" and "st = ChannelHeader h \<Longrightarrow> h = []" and "\<And>h. st = ChannelHeader h \<Longrightarrow> h = []"
  obtains new :: "'n turn_event list" and buf t st' e where
    "push_all ops v (tp\<lparr>tp_state := st, tp_detok := detok_new\<rparr>) is events =
       Some (Inr (tp\<lparr>tp_state := st', tp_detok := buf\<rparr>, events @ new))"
    "deliver st t = (st', e)" "flatten new = flatten e" "t @ tail_of buf = decode_spec v [] is"
    "turn_inv (tp\<lparr>tp_state := st', tp_detok := buf\<rparr>)"
proof -
  let ?tp = "tp\<lparr>tp_state := st, tp_detok := detok_new\<rparr>"
  have "turn_inv ?tp" "text_ids v ?tp is" using assms by (auto simp: turn_inv_def)
  from push_all_text [OF this(2,1), of ops events] obtain new buf t where p:
    "push_all ops v ?tp is events = Some (Inr (?tp\<lparr>tp_state := fst (deliver st t :: turn_state \<times> 'n turn_event list), tp_detok := buf\<rparr>, events @ new))"
    "feed_all (decode_feed v) detok_new is [] = Some (buf, t)" "flatten new = flatten (snd (deliver st t))"
    "turn_inv (?tp\<lparr>tp_state := fst (deliver st t :: turn_state \<times> 'n turn_event list), tp_detok := buf\<rparr>)"
    by auto
  obtain st' and e :: "'n turn_event list" where d: "deliver st t = (st', e)"
    by (cases "deliver st t :: turn_state \<times> 'n turn_event list")
  show thesis
    by (rule that [where st' = st' and buf = buf and new = new and t = t and e = e]) (use p d text_tail [OF text_ids_ok [OF assms(1)] p(2)] in simp_all)
qed

text \<open>A block that starts with a control token, read in the content state.\<close>

lemma push_block:
  fixes ops :: "'n num_ops"
  assumes "tp_state tp = InContent" and "block_ok v tp b" and "controls_distinct tp" and "\<And>is. b \<noteq> TextBlock is"
  obtains new where "push_all ops v tp (block_ids tp b) events = Some (Inr (tp\<lparr>tp_detok := detok_new\<rparr>, events @ new))"
    and "flatten new = map ContentChar (tail_of (tp_detok tp)) @ block_atoms ops v b"
proof -
  obtain new0 :: "'n turn_event list" where e: "end_segment tp events = (tp\<lparr>tp_detok := detok_new\<rparr>, events @ new0)"
    "flatten new0 = map ContentChar (tail_of (tp_detok tp))"
    using end_segment_content [OF assms(1)] by blast
  have st: "tp\<lparr>tp_state := InContent, tp_detok := d\<rparr> = tp\<lparr>tp_detok := d\<rparr>"
    "tp\<lparr>tp_detok := d, tp_state := InContent\<rparr> = tp\<lparr>tp_detok := d\<rparr>" for d
    using assms(1) by (cases tp; simp)+
  show thesis
  proof (cases b)
    case (ThoughtBlock "is")
    then have ok: "text_ids v tp is" "CHR 0x0A \<in> set (decode_spec v [] is)" using assms(2) by simp_all
    obtain new buf t st' and e' :: "'n turn_event list" where p:
      "push_all ops v (tp\<lparr>tp_state := ChannelHeader [], tp_detok := detok_new\<rparr>) is (events @ new0) =
         Some (Inr (tp\<lparr>tp_state := st', tp_detok := buf\<rparr>, (events @ new0) @ new))"
      "deliver (ChannelHeader []) t = (st', e')" "flatten new = flatten e'" "t @ tail_of buf = decode_spec v [] is"
      by (rule push_all_fresh [OF ok(1), of "ChannelHeader []" _ ops "events @ new0"]) auto
    have "\<not> List.member replacement_char CHR 0x0A" by code_simp
    then have "CHR 0x0A \<notin> set (tail_of buf)" by (simp add: tail_of_def)
    then have "CHR 0x0A \<in> set t" using ok(2) unfolding p(4) [symmetric] by simp
    then obtain nl where nl: "find_any [CHR 0x0A] t = Some nl"
      using find_any_None [of "[CHR 0x0A]" t] by auto
    then have "nl < length t" using find_any_Some by blast
    then have ah: "after_header (decode_spec v [] is) = drop (Suc nl) t @ tail_of buf"
      using find_any_append_Some [OF nl] by (simp add: after_header_def flip: p(4))
    have "t \<noteq> []" using nl by auto
    then have d: "st' = InChannel" "flatten e' = map ThinkingChar (drop (Suc nl) t)"
      using p(2) nl by (auto simp: deliver_header split: if_splits)
    show ?thesis
    proof (rule that [of "new0 @ new @ (if tail_of buf = [] then [] else [ThinkingDelta (tail_of buf)])"])
      show "push_all ops v tp (block_ids tp b) events = Some (Inr (tp\<lparr>tp_detok := detok_new\<rparr>,
          events @ new0 @ new @ (if tail_of buf = [] then [] else [ThinkingDelta (tail_of buf)])))"
      proof -
        let ?tp = "tp\<lparr>tp_state := InChannel, tp_detok := buf\<rparr>"
        have es: "end_segment ?tp ev = (?tp\<lparr>tp_detok := detok_new\<rparr>, ev @ (if tail_of buf = [] then []
            else [ThinkingDelta (tail_of buf)]))" for ev :: "'n turn_event list"
          by (simp add: end_segment_def detok_flush_tail detok_new_def)
        have "turn_push ops v ?tp (channel_close tp) ev = Some (Inr (tp\<lparr>tp_detok := detok_new\<rparr>,
            ev @ (if tail_of buf = [] then [] else [ThinkingDelta (tail_of buf)])))" for ev
          using turn_push_controls(4) [of ?tp ops v ev] assms(3) st by (simp add: es)
        moreover have "turn_push ops v tp (channel_open tp) events =
            Some (Inr (tp\<lparr>tp_state := ChannelHeader [], tp_detok := detok_new\<rparr>, events @ new0))"
          using turn_push_controls(3) [OF assms(3), of ops v events] e(1) by simp
        ultimately show ?thesis
          using p(1) d(1) by (simp add: ThoughtBlock push_all_append)
      qed
    next
      show "flatten (new0 @ new @ (if tail_of buf = [] then [] else [ThinkingDelta (tail_of buf)])) =
          map ContentChar (tail_of (tp_detok tp)) @ block_atoms ops v b"
        using e(2) p(3) d(2) by (simp add: ThoughtBlock ah)
    qed
  next
    case (CallBlock "is")
    then have ok: "text_ids v tp is" using assms(2) by simp
    obtain new buf t st' and e' :: "'n turn_event list" where p:
      "push_all ops v (tp\<lparr>tp_state := InToolCall [], tp_detok := detok_new\<rparr>) is (events @ new0) =
         Some (Inr (tp\<lparr>tp_state := st', tp_detok := buf\<rparr>, (events @ new0) @ new))"
      "deliver (InToolCall []) t = (st', e')" "flatten new = flatten e'" "t @ tail_of buf = decode_spec v [] is"
      by (rule push_all_fresh [OF ok, of "InToolCall []" _ ops "events @ new0"]) auto
    obtain c where c: "parse_tool_call ops (decode_spec v [] is) = Some c"
      using parse_tool_call_total by blast
    have ca: "atoms_of c = [Event c]" using parse_tool_call_total [of ops "decode_spec v [] is"] c by auto
    show ?thesis
    proof (rule that [of "new0 @ new @ [c]"])
      show "push_all ops v tp (block_ids tp b) events = Some (Inr (tp\<lparr>tp_detok := detok_new\<rparr>, events @ new0 @ new @ [c]))"
      proof -
        let ?tp = "tp\<lparr>tp_state := InToolCall t, tp_detok := buf\<rparr>"
        have "turn_push ops v ?tp (tool_call_close tp) ev = Some (Inr (tp\<lparr>tp_detok := detok_new\<rparr>, ev @ [c]))" for ev
          using turn_push_controls(6) [of ?tp t ops v ev] assms(3) st c p(4)
          by (simp add: detok_flush_tail detok_new_def)
        moreover have "turn_push ops v tp (tool_call_open tp) events =
            Some (Inr (tp\<lparr>tp_state := InToolCall [], tp_detok := detok_new\<rparr>, events @ new0))"
          using turn_push_controls(2) [OF assms(3), of ops v events] e(1) by simp
        ultimately show ?thesis
          using p(1,2) by (simp add: CallBlock push_all_append)
      qed
      show "flatten (new0 @ new @ [c]) = map ContentChar (tail_of (tp_detok tp)) @ block_atoms ops v b"
        using e(2) p(2,3) c ca by (simp add: CallBlock)
    qed
  qed (use assms(4) that [of "new0 @ [AwaitingToolResponse]"] that [of "new0 @ [EndOfTurn]"] e turn_push_controls(1,5) [OF assms(3), of ops v events]
      in \<open>simp_all\<close>)
qed


lemma block_ids_update [simp]: "block_ids (tp\<lparr>tp_detok := d\<rparr>) b = block_ids tp b"
  by (cases b) simp_all

lemma block_ok_update [simp]: "block_ok v (tp\<lparr>tp_detok := d\<rparr>) b = block_ok v tp b"
  by (cases b) simp_all

lemma push_blocks:
  fixes ops :: "'n num_ops"
  assumes "tp_state tp = InContent" and "list_all (block_ok v tp) bs" and "controls_distinct tp"
    and "separated bs" and "pending (tp_detok tp) = [] \<or> (\<forall>is bs'. bs \<noteq> TextBlock is # bs')"
  shows "\<exists>new buf. push_all ops v tp (concat (map (block_ids tp) bs)) events = Some (Inr (tp\<lparr>tp_detok := buf\<rparr>, events @ new)) \<and>
    flatten new @ map ContentChar (tail_of buf) =
      map ContentChar (tail_of (tp_detok tp)) @ concat (map (block_atoms ops v) bs)"
  using assms
proof (induction bs arbitrary: tp events)
  case Nil
  then show ?case by (intro exI [of _ "[]"] exI [of _ "tp_detok tp"]) simp
next
  case (Cons b bs)
  show ?case
  proof (cases "\<exists>is. b = TextBlock is")
    case True
    then obtain "is" where b: "b = TextBlock is" by blast
    have ok: "text_ids v tp is" using Cons.prems(2) b by simp
    have empty: "pending (tp_detok tp) = []" using Cons.prems(5) b by auto
    then have dn: "tp_detok tp = detok_new" by (cases "tp_detok tp") (simp add: detok_new_def)
    then have tp: "tp\<lparr>tp_state := InContent, tp_detok := detok_new\<rparr> = tp" using Cons.prems(1) by (cases tp) simp
    have st: "tp\<lparr>tp_state := InContent, tp_detok := d\<rparr> = tp\<lparr>tp_detok := d\<rparr>" for d
      using Cons.prems(1) by (cases tp) simp
    obtain new1 buf t st' and e' :: "'n turn_event list" where p:
      "push_all ops v (tp\<lparr>tp_state := InContent, tp_detok := detok_new\<rparr>) is events =
         Some (Inr (tp\<lparr>tp_state := st', tp_detok := buf\<rparr>, events @ new1))"
      "deliver InContent t = (st', e')" "flatten new1 = flatten e'" "t @ tail_of buf = decode_spec v [] is"
      by (rule push_all_fresh [OF ok, of InContent _ ops events]) auto
    have st': "st' = InContent" "flatten e' = map ContentChar t" using p(2) by (auto split: if_splits)
    have sep: "separated bs" "\<And>is' bs'. bs \<noteq> TextBlock is' # bs'"
      using Cons.prems(4) b by (cases bs; simp; cases "hd bs"; simp)+
    from Cons.IH [of "tp\<lparr>tp_detok := buf\<rparr>" "events @ new1"] obtain new2 buf2 where IH:
      "push_all ops v (tp\<lparr>tp_detok := buf\<rparr>) (concat (map (block_ids tp) bs)) (events @ new1) =
        Some (Inr (tp\<lparr>tp_detok := buf2\<rparr>, (events @ new1) @ new2))"
      "flatten new2 @ map ContentChar (tail_of buf2) = map ContentChar (tail_of buf) @ concat (map (block_atoms ops v) bs)"
      using Cons.prems(1-3) sep by auto
    have "flatten (new1 @ new2) @ map ContentChar (tail_of buf2) =
        map ContentChar (t @ tail_of buf) @ concat (map (block_atoms ops v) bs)"
      using p(3) IH(2) st'(2) by simp
    moreover have "tail_of (tp_detok tp) = []" using empty by (simp add: tail_of_def)
    ultimately show ?thesis
      using p(1,4) IH(1) st'(1) b
      by (intro exI [of _ "new1 @ new2"] exI [of _ buf2]) (simp add: push_all_append tp st)
  next
    case False
    then obtain new1 where p:
      "push_all ops v tp (block_ids tp b) events = Some (Inr (tp\<lparr>tp_detok := detok_new\<rparr>, events @ new1))"
      "flatten new1 = map ContentChar (tail_of (tp_detok tp)) @ block_atoms ops v b"
      using push_block [OF Cons.prems(1) _ Cons.prems(3), of v b ops events] Cons.prems(2) by auto
    have "separated bs" using Cons.prems(4) False by (cases b) auto
    with Cons.IH [of "tp\<lparr>tp_detok := detok_new\<rparr>" "events @ new1"] obtain new2 buf2 where IH:
      "push_all ops v (tp\<lparr>tp_detok := detok_new\<rparr>) (concat (map (block_ids tp) bs)) (events @ new1) =
        Some (Inr (tp\<lparr>tp_detok := buf2\<rparr>, (events @ new1) @ new2))"
      "flatten new2 @ map ContentChar (tail_of buf2) = map ContentChar (tail_of detok_new) @ concat (map (block_atoms ops v) bs)"
      using Cons.prems(1-3) by (auto simp: detok_new_def)
    show ?thesis
      using p IH by (intro exI [of _ "new1 @ new2"] exI [of _ buf2])
        (simp add: push_all_append tail_of_def [of detok_new] detok_new_def)
  qed
qed

text \<open>
  C21: A well-formed turn, given as a sequence of blocks of the wire format, is parsed to what the
  blocks say: visible text and thoughts are the decoding of their tokens as a whole (however
  the characters were spread over tokens), a tool-call block is one event with the parsed call, and
  nothing is lost, duplicated or reordered across the boundaries.
\<close>

theorem turn_wire_format:
  assumes "tp_state tp = InContent" and "tp_detok tp = detok_new" and "controls_distinct tp"
    and "list_all (block_ok v tp) bs" and "separated bs"
  shows "\<exists>tp1 ev. push_all ops v tp (concat (map (block_ids tp) bs)) [] = Some (Inr (tp1, ev)) \<and>
    turn_finish tp1 ev = (tp, snd (turn_finish tp1 ev)) \<and>
    flatten (snd (turn_finish tp1 ev)) = concat (map (block_atoms ops v) bs)"
proof -
  obtain new buf where p:
    "push_all ops v tp (concat (map (block_ids tp) bs)) [] = Some (Inr (tp\<lparr>tp_detok := buf\<rparr>, new))"
    "flatten new @ map ContentChar (tail_of buf) = concat (map (block_atoms ops v) bs)"
    using push_blocks [OF assms(1,4,3,5), of ops "[]"] assms(2) by (auto simp: detok_new_def tail_of_def)
  obtain last where e: "end_segment (tp\<lparr>tp_detok := buf\<rparr>) new = (tp\<lparr>tp_detok := detok_new\<rparr>, new @ last)"
    "flatten last = map ContentChar (tail_of buf)"
    using end_segment_content [of "tp\<lparr>tp_detok := buf\<rparr>" new] assms(1) by auto
  have "tp\<lparr>tp_detok := detok_new, tp_state := InContent\<rparr> = tp"
    using assms(1,2) by (cases tp) simp
  then have "turn_finish (tp\<lparr>tp_detok := buf\<rparr>) new = (tp, new @ last)"
    using e(1) assms(1) by (simp add: turn_finish_def)
  then show ?thesis using p e(2) by simp
qed

subsection \<open>An example\<close>

definition wire_vocab :: vocab where
  "wire_vocab = \<lparr>pieces = [''call:f{}'', ''thought'' @ [CHR 0x0A], ''Hm'', ''Hi'', ''<0xC3>'', ''<0xA9>''],
     types = [Normal, Normal, Normal, Normal, Byte, Byte], piece_to_id = (\<lambda>_. None), merges = (\<lambda>_. None),
     byte_to_id = [], id_to_byte = [4 \<mapsto> 0xC3, 5 \<mapsto> 0xA9], specials = [], bos = 0, eos = 100, pad = 0,
     unk = 0, eot = 101\<rparr>"

definition wire_parser :: turn_parser where
  "wire_parser = \<lparr>tp_state = InContent, tp_detok = detok_new, channel_open = 102, channel_close = 103,
     tool_call_open = 104, tool_call_close = 105, tool_response_open = 106, tp_eot = 101, tp_eos = 100\<rparr>"

definition wire_blocks :: "block list" where
  "wire_blocks = [TextBlock [3, 4, 5], ThoughtBlock [1, 2], CallBlock [0], EndBlock]"

lemma wire_blocks_ok: "list_all (block_ok wire_vocab wire_parser) wire_blocks"
proof -
  have "List.member (decode_spec wire_vocab [] [1, 2]) CHR 0x0A"
  proof -
    have "\<not> sublist ws_mark (''thought'' @ [CHR 0x0A])" by code_simp
    then show ?thesis by (simp add: byte_of_def piece_of_def wire_vocab_def show_piece_def lossy_valid)
  qed
  then show ?thesis
    by (simp add: wire_blocks_def text_ids_def structural_def wire_parser_def id_ok_def byte_of_def piece_of_def
        wire_vocab_def)
qed

theorem turn_push_safe_witness:
  "(\<exists>tp' new. turn_push small_ops wire_vocab wire_parser 4 [] = Some (Inr (tp', [] @ new)) \<and> turn_inv tp' \<and>
      (structural wire_parser 4 \<or> list_all is_delta new \<and> length new \<le> 1)) \<or>
    (turn_push small_ops wire_vocab wire_parser 4 [] = Some (Inl (IdOutOfRange 4)) \<and> \<not> structural wire_parser 4 \<and>
     \<not> id_ok wire_vocab 4)"
  by (rule turn_push_safe) (simp add: turn_inv_def wire_parser_def)

theorem turn_wire_format_witness:
  "\<exists>tp1 ev. push_all small_ops wire_vocab wire_parser (concat (map (block_ids wire_parser) wire_blocks)) [] =
      Some (Inr (tp1, ev)) \<and>
    turn_finish tp1 ev = (wire_parser, snd (turn_finish tp1 ev)) \<and>
    flatten (snd (turn_finish tp1 ev)) = concat (map (block_atoms small_ops wire_vocab) wire_blocks)"
  by (rule turn_wire_format [OF _ _ _ wire_blocks_ok])
    (simp_all add: wire_parser_def controls_distinct_def wire_blocks_def)

end
