(* ===== verification/Model_Desc.thy ===== *)
theory Model_Desc
  imports Gguf_Write
begin

text \<open>
  \<open>crates/sg-gguf/src/desc.rs\<close>: the description of the one model the server runs, and its
  validation against the metadata and the tensor table of a file. The lines of the report are
  constructors that carry the values the message shows. Metadata floats are bit patterns, as in
  \<open>Meta\<close>; the expected constants are finite and not zero, for which \<open>!=\<close> of \<open>f32\<close> is
  inequality of the bits.
\<close>

subsection \<open>Types and expectations\<close>

datatype layer_kind = Sliding | Global

record attn_geometry =
  n_kv_heads :: nat
  head_dim :: nat
  rope_theta :: f32

record model_desc =
  n_layers :: nat
  hidden_size :: nat
  ffn_size :: nat
  vocab_size :: nat
  max_context :: nat
  n_q_heads :: nat
  sliding :: attn_geometry
  global :: attn_geometry
  sliding_window :: nat
  layer_kinds :: "layer_kind list"
  rms_norm_eps :: f32
  final_logit_softcap :: f32
  embed_dtype :: ggml_type

definition x_architecture :: string where "x_architecture = ''gemma4''"
definition x_n_layers :: nat where "x_n_layers = 60"
definition x_hidden :: nat where "x_hidden = 5376"
definition x_ffn :: nat where "x_ffn = 21504"
definition x_vocab :: nat where "x_vocab = 262144"
definition x_context :: nat where "x_context = 262144"
definition x_n_q_heads :: nat where "x_n_q_heads = 32"
definition x_sliding_kv_heads :: nat where "x_sliding_kv_heads = 16"
definition x_sliding_head_dim :: nat where "x_sliding_head_dim = 256"
definition x_sliding_theta :: f32 where "x_sliding_theta = 0x461C4000"     \<comment> \<open>\<open>10_000.0\<close>\<close>
definition x_sliding_window :: nat where "x_sliding_window = 1024"
definition x_global_kv_heads :: nat where "x_global_kv_heads = 4"
definition x_global_head_dim :: nat where "x_global_head_dim = 512"
definition x_global_theta :: f32 where "x_global_theta = 0x49742400"       \<comment> \<open>\<open>1_000_000.0\<close>\<close>
definition x_rms_eps :: f32 where "x_rms_eps = 0x358637BD"                 \<comment> \<open>\<open>1e-6\<close>\<close>
definition x_softcap :: f32 where "x_softcap = 0x41F00000"                 \<comment> \<open>\<open>30.0\<close>\<close>
definition x_embed_dtype :: ggml_type where "x_embed_dtype = Q6_K"
definition x_weight_dtype :: ggml_type where "x_weight_dtype = Q4_0"

lemmas expect_defs = x_architecture_def x_n_layers_def x_hidden_def x_ffn_def x_vocab_def x_context_def
  x_n_q_heads_def x_sliding_kv_heads_def x_sliding_head_dim_def x_sliding_theta_def x_sliding_window_def
  x_global_kv_heads_def x_global_head_dim_def x_global_theta_def x_rms_eps_def x_softcap_def
  x_embed_dtype_def x_weight_dtype_def

definition layer_kind :: "nat \<Rightarrow> layer_kind" where
  "layer_kind layer = (if layer mod 6 = 5 then Global else Sliding)"

text \<open>\<open>{layer}\<close> in a format string: the decimal digits.\<close>

fun decimal :: "nat \<Rightarrow> string" where
  "decimal n = (if n < 10 then [char_of (48 + n)] else decimal (n div 10) @ [char_of (48 + n mod 10)])"

declare decimal.simps [simp del]

definition blk_name :: "nat \<Rightarrow> string \<Rightarrow> string" where
  "blk_name layer sfx = ''blk.'' @ decimal layer @ ''.'' @ sfx @ ''.weight''"

definition kv_heads_of :: "layer_kind \<Rightarrow> nat" where
  "kv_heads_of k = (case k of Sliding \<Rightarrow> x_sliding_kv_heads | Global \<Rightarrow> x_global_kv_heads)"

definition head_dim_of :: "layer_kind \<Rightarrow> nat" where
  "head_dim_of k = (case k of Sliding \<Rightarrow> x_sliding_head_dim | Global \<Rightarrow> x_global_head_dim)"

subsection \<open>The tensors a file must contain\<close>

definition layer_tensors :: "nat \<Rightarrow> (string \<times> nat list \<times> ggml_type) list" where
  "layer_tensors layer =
     (let kind = layer_kind layer; hd = head_dim_of kind;
          q_dim = x_n_q_heads * hd; kv_dim = kv_heads_of kind * hd;
          t = (\<lambda>sfx ds ty. (blk_name layer sfx, ds, ty))
      in [t ''attn_q'' [x_hidden, q_dim] x_weight_dtype, t ''attn_k'' [x_hidden, kv_dim] x_weight_dtype] @
         (if kind = Sliding then [t ''attn_v'' [x_hidden, kv_dim] x_weight_dtype] else []) @
         [t ''attn_output'' [q_dim, x_hidden] x_weight_dtype,
          t ''attn_q_norm'' [hd] F32, t ''attn_k_norm'' [hd] F32,
          t ''attn_norm'' [x_hidden] F32, t ''post_attention_norm'' [x_hidden] F32,
          t ''ffn_norm'' [x_hidden] F32, t ''post_ffw_norm'' [x_hidden] F32,
          t ''ffn_gate'' [x_hidden, x_ffn] x_weight_dtype, t ''ffn_up'' [x_hidden, x_ffn] x_weight_dtype,
          t ''ffn_down'' [x_ffn, x_hidden] x_weight_dtype,
          t ''layer_output_scale'' [1] F32])"

definition expected_tensors :: "(string \<times> nat list \<times> ggml_type) list" where
  "expected_tensors =
     [(''token_embd.weight'', [x_hidden, x_vocab], x_embed_dtype),
      (''output_norm.weight'', [x_hidden], F32),
      (''rope_freqs.weight'', [x_global_head_dim div 2], F32)] @
     concat (map layer_tensors [0..<x_n_layers])"

subsection \<open>The checks\<close>

datatype issue =
    MetaIssue meta_error
  | MissingKey string
  | StrMismatch string string string
  | UintMismatch string u64 nat
  | F32Mismatch string f32 f32
  | LayerCount string nat
  | KvHeads nat "32 word" nat layer_kind
  | Pattern nat bool bool
  | MissingTensor string "nat list" ggml_type
  | BadShape string "u64 list" "nat list"
  | BadDtype string ggml_type ggml_type
  | UnexpectedTensor string ggml_type "u64 list"

text \<open>The three closures of \<open>check_metadata\<close> have one shape.\<close>

definition check_key :: "meta_error + 'v option \<Rightarrow> string \<Rightarrow> ('v \<Rightarrow> bool) \<Rightarrow> ('v \<Rightarrow> issue) \<Rightarrow> issue list" where
  "check_key r key good bad =
     (case r of
        Inl e \<Rightarrow> [MetaIssue e]
      | Inr None \<Rightarrow> [MissingKey key]
      | Inr (Some v) \<Rightarrow> if good v then [] else [bad v])"

definition str_key :: "metadata \<Rightarrow> string \<Rightarrow> string \<Rightarrow> issue list" where
  "str_key m key config = check_key (get_str m key) key (\<lambda>v. v = config) (\<lambda>v. StrMismatch key v config)"

definition uint_key :: "metadata \<Rightarrow> string \<Rightarrow> nat \<Rightarrow> issue list" where
  "uint_key m key config =
     check_key (get_uint m key) key (\<lambda>v. unat v = config) (\<lambda>v. UintMismatch key v config)"

definition f32_key :: "metadata \<Rightarrow> string \<Rightarrow> f32 \<Rightarrow> issue list" where
  "f32_key m key config = check_key (get_f32 m key) key (\<lambda>v. v = config) (\<lambda>v. F32Mismatch key v config)"

definition uint_expect :: "(string \<times> nat) list" where
  "uint_expect =
     [(''gemma4.block_count'', x_n_layers),
      (''gemma4.context_length'', x_context),
      (''gemma4.embedding_length'', x_hidden),
      (''gemma4.feed_forward_length'', x_ffn),
      (''gemma4.attention.head_count'', x_n_q_heads),
      (''gemma4.attention.sliding_window'', x_sliding_window),
      (''gemma4.attention.key_length'', x_global_head_dim),
      (''gemma4.attention.value_length'', x_global_head_dim),
      (''gemma4.attention.key_length_swa'', x_sliding_head_dim),
      (''gemma4.attention.value_length_swa'', x_sliding_head_dim),
      (''gemma4.attention.shared_kv_layers'', 0),
      (''gemma4.rope.dimension_count'', x_global_head_dim),
      (''gemma4.rope.dimension_count_swa'', x_sliding_head_dim)]"

definition f32_expect :: "(string \<times> f32) list" where
  "f32_expect =
     [(''gemma4.rope.freq_base'', x_global_theta),
      (''gemma4.rope.freq_base_swa'', x_sliding_theta),
      (''gemma4.attention.layer_norm_rms_epsilon'', x_rms_eps),
      (''gemma4.final_logit_softcapping'', x_softcap)]"

definition check_metadata :: "metadata \<Rightarrow> issue list" where
  "check_metadata m =
     str_key m ''general.architecture'' x_architecture @
     concat (map (\<lambda>(key, config). uint_key m key config) uint_expect) @
     concat (map (\<lambda>(key, config). f32_key m key config) f32_expect)"

definition kv_key :: string where "kv_key = ''gemma4.attention.head_count_kv''"
definition pattern_key :: string where "pattern_key = ''gemma4.attention.sliding_window_pattern''"

definition check_per_layer_metadata :: "metadata \<Rightarrow> issue list" where
  "check_per_layer_metadata m =
     (case require_i32_array m kv_key of
        Inl e \<Rightarrow> [MetaIssue e]
      | Inr counts \<Rightarrow>
          (if length counts \<noteq> x_n_layers then [LayerCount kv_key (length counts)] else []) @
          concat (map (\<lambda>(layer, n).
            let config = kv_heads_of (layer_kind layer) in
            if sint n \<noteq> int config then [KvHeads layer n config (layer_kind layer)] else [])
            (enumerate 0 counts))) @
     (case require_bool_array m pattern_key of
        Inl e \<Rightarrow> [MetaIssue e]
      | Inr pat \<Rightarrow>
          (if length pat \<noteq> x_n_layers then [LayerCount pattern_key (length pat)] else []) @
          concat (map (\<lambda>(layer, s).
            let config = (layer_kind layer = Sliding) in
            if s \<noteq> config then [Pattern layer s config] else [])
            (enumerate 0 pat)))"

text \<open>A \<open>HashMap\<close> collected from the table: the last entry of a name wins.\<close>

definition actual_of :: "tensor_info list \<Rightarrow> string \<Rightarrow> tensor_info option" where
  "actual_of ts = map_of (rev (map (\<lambda>t. (tname t, t)) ts))"

definition check_expected :: "tensor_info list \<Rightarrow> string \<times> nat list \<times> ggml_type \<Rightarrow> issue list" where
  "check_expected ts = (\<lambda>(name, ds, ty).
     case actual_of ts name of
       None \<Rightarrow> [MissingTensor name ds ty]
     | Some t \<Rightarrow>
         (if map unat (dims t) \<noteq> ds then [BadShape name (dims t) ds] else []) @
         (if dtype t \<noteq> ty then [BadDtype name (dtype t) ty] else []))"

definition check_tensors :: "tensor_info list \<Rightarrow> issue list" where
  "check_tensors ts =
     concat (map (check_expected ts) expected_tensors) @
     concat (map (\<lambda>t. if tname t \<in> fst ` set expected_tensors then []
       else [UnexpectedTensor (tname t) (dtype t) (dims t)]) ts)"

definition the_model :: model_desc where
  "the_model =
     \<lparr>n_layers = x_n_layers, hidden_size = x_hidden, ffn_size = x_ffn, vocab_size = x_vocab,
      max_context = x_context, n_q_heads = x_n_q_heads,
      sliding = \<lparr>n_kv_heads = x_sliding_kv_heads, head_dim = x_sliding_head_dim, rope_theta = x_sliding_theta\<rparr>,
      global = \<lparr>n_kv_heads = x_global_kv_heads, head_dim = x_global_head_dim, rope_theta = x_global_theta\<rparr>,
      sliding_window = x_sliding_window, layer_kinds = map layer_kind [0..<x_n_layers],
      rms_norm_eps = x_rms_eps, final_logit_softcap = x_softcap, embed_dtype = x_embed_dtype\<rparr>"

definition validate :: "metadata \<Rightarrow> tensor_info list \<Rightarrow> issue list + model_desc" where
  "validate m ts =
     (let issues = check_metadata m @ check_per_layer_metadata m @ check_tensors ts in
      if issues \<noteq> [] then Inl issues else Inr the_model)"

definition from_gguf :: "gguf \<Rightarrow> issue list + model_desc" where
  "from_gguf g = validate (metadata_of g) (tensors g)"

end
