(* ===== verification/Quant.thy ===== *)
theory Quant
  imports Prelude
begin

text \<open>
  \<open>crates/sg-gguf/src/q4_0.rs\<close> and \<open>q6_k.rs\<close>: the quantized block layouts and their scalar
  dequantization, the ground truth of the GPU kernels. Half and single precision numbers belong to
  the hardware and to the \<open>half\<close> crate: they are a type parameter with the operations of \<open>f32_ops\<close>.
  The main facts say which bits of a block each weight is made of, and that packing quants in the
  ggml layout and dequantizing gives every weight back.
\<close>

unbundle bit_operations_syntax

record 'f f32_ops =
  f16_to_f32 :: "u16 \<Rightarrow> 'f"
  f32_of_int :: "int \<Rightarrow> 'f"     \<comment> \<open>\<open>as f32\<close> of an \<open>i32\<close> or \<open>i8\<close> (both exact)\<close>
  f32_mul :: "'f \<Rightarrow> 'f \<Rightarrow> 'f"

text \<open>Nibbles and 2-bit fields of a byte.\<close>

lemma unat_low_nibble: "unat (x AND 0x0F :: u8) = unat x mod 16"
proof -
  have "x AND 0x0F = take_bit 4 x"
    by (simp only: take_bit_eq_mask) (simp add: mask_eq_exp_minus_1)
  then show ?thesis by (simp only: take_bit_eq_mod) (simp add: unat_mod_distrib)
qed

lemma unat_low_two: "unat (x AND 0x03 :: u8) = unat x mod 4"
proof -
  have "x AND 0x03 = take_bit 2 x"
    by (simp only: take_bit_eq_mask) (simp add: mask_eq_exp_minus_1)
  then show ?thesis by (simp only: take_bit_eq_mod) (simp add: unat_mod_distrib)
qed

lemma unat_shift:
  "unat (drop_bit 2 (x :: u8)) = unat x div 4" "unat (drop_bit 4 x) = unat x div 16"
  "unat (drop_bit 6 x) = unat x div 64"
  by (simp_all only: drop_bit_eq_div unat_div_distrib) simp_all

text \<open>
  A loop whose step \<open>j\<close> writes the values \<open>t p\<close> at the positions \<open>p\<close> of \<open>P j\<close> and nothing else.
\<close>

lemma fold_writes:
  assumes "length out = n" and "i < n"
    and "\<And>j out. j \<in> set js \<Longrightarrow> length out = n \<Longrightarrow> length (f j out) = n"
    and "\<And>j out i. j \<in> set js \<Longrightarrow> length out = n \<Longrightarrow> i < n \<Longrightarrow> f j out ! i = (if i \<in> P j then t i else out ! i)"
  shows "fold f js out ! i = (if \<exists>j \<in> set js. i \<in> P j then t i else out ! i)"
  using assms
proof (induction js arbitrary: out)
  case (Cons j js)
  have "fold f js (f j out) ! i = (if \<exists>j \<in> set js. i \<in> P j then t i else f j out ! i)"
    using Cons.prems by (intro Cons.IH) auto
  then show ?case using Cons.prems by auto
qed simp

lemma fold_length:
  "(\<And>j out. j \<in> set js \<Longrightarrow> length (f j out) = length out) \<Longrightarrow> length (fold f js out) = length out"
  by (induction js arbitrary: out) simp_all

subsection \<open>Q4_0\<close>

definition qk4_0 :: nat where "qk4_0 = 32"
definition block_q4_0_size :: nat where "block_q4_0_size = 18"

record block_q4_0 =
  d4 :: u16
  qs :: "u8 list"

definition dequantize_q4_0 :: "'f f32_ops \<Rightarrow> block_q4_0 \<Rightarrow> 'f list \<Rightarrow> 'f list" where
  "dequantize_q4_0 fo b out =
     (let d = f16_to_f32 fo (d4 b) in
      fold (\<lambda>j out.
        let q_lo = int (unat (qs b ! j AND 0x0F)) - 8;
            q_hi = int (unat (drop_bit 4 (qs b ! j))) - 8
        in out[j := f32_mul fo d (f32_of_int fo q_lo), j + 16 := f32_mul fo d (f32_of_int fo q_hi)])
        [0..<16] out)"

datatype invalid_length = InvalidLength nat

text \<open>
  \<open>bytemuck::cast_slice\<close> reads the blocks in place; it panics (\<open>None\<close>) unless the slice is
  aligned to two bytes.
\<close>

fun cast_q4_0 :: "u8 list \<Rightarrow> block_q4_0 list" where
  "cast_q4_0 (a # b # bs) =
     \<lparr>d4 = word_of_nat (unat a + 256 * unat b), qs = take 16 bs\<rparr> # cast_q4_0 (drop 16 bs)"
| "cast_q4_0 _ = []"

definition blocks_from_bytes_q4_0 :: "nat \<Rightarrow> u8 list \<Rightarrow> (invalid_length + block_q4_0 list) option" where
  "blocks_from_bytes_q4_0 address data =
     (if \<not> block_q4_0_size dvd length data then Some (Inl (InvalidLength (length data)))
      else if \<not> 2 dvd address then None
      else Some (Inr (cast_q4_0 data)))"

text \<open>The layout of ggml: weight \<open>j < 16\<close> in the low nibbles, weight \<open>j + 16\<close> in the high ones.\<close>

definition pack_q4_0 :: "u16 \<Rightarrow> (nat \<Rightarrow> nat) \<Rightarrow> block_q4_0" where
  "pack_q4_0 d q = \<lparr>d4 = d, qs = map (\<lambda>j. word_of_nat (q j + 16 * q (j + 16))) [0..<16]\<rparr>"

definition quant_q4_0 :: "block_q4_0 \<Rightarrow> nat \<Rightarrow> nat" where
  "quant_q4_0 b i = (if i < 16 then unat (qs b ! i) mod 16 else unat (qs b ! (i - 16)) div 16)"

lemma length_dequantize_q4_0 [simp]: "length (dequantize_q4_0 fo b out) = length out"
  by (simp add: dequantize_q4_0_def Let_def fold_length)

lemma dequantize_q4_0_nth:
  assumes "length out = 32" and "i < 32"
  shows "dequantize_q4_0 fo b out ! i =
    f32_mul fo (f16_to_f32 fo (d4 b)) (f32_of_int fo (int (quant_q4_0 b i) - 8))"
proof -
  have "\<exists>j \<in> set [0..<16]. i \<in> {j, j + 16}"
    using assms(2) by (cases "i < 16") (auto intro: bexI [of _ i] bexI [of _ "i - 16"])
  then show ?thesis
    unfolding dequantize_q4_0_def Let_def
    by (subst fold_writes [where n = 32 and P = "\<lambda>j. {j, j + 16}" and
          t = "\<lambda>i. f32_mul fo (f16_to_f32 fo (d4 b)) (f32_of_int fo (int (quant_q4_0 b i) - 8))"])
      (use assms in \<open>auto simp: nth_list_update quant_q4_0_def unat_low_nibble unat_shift\<close>)
qed

lemma quant_pack_q4_0:
  assumes "\<And>j. j < 32 \<Longrightarrow> q j < 16" and "i < 32"
  shows "quant_q4_0 (pack_q4_0 d q) i = q i"
proof -
  have "unat (word_of_nat (q j + 16 * q (j + 16)) :: u8) = q j + 16 * q (j + 16)" if "j < 16" for j
    using assms(1) [of j] assms(1) [of "j + 16"] that by (simp only: unat_of_nat) simp
  then show ?thesis
    using assms(1) [of i] assms(1) [of "i - 16"] assms(2)
    by (auto simp: quant_q4_0_def pack_q4_0_def)
qed

text \<open>
  Dequantizing a Q4_0 block that was packed from 32 quants of 4 bits in the ggml layout writes
  exactly the 32 weights \<open>d * (q - 8)\<close>, each in its place, whatever the output buffer held.
\<close>

theorem dequantize_pack_q4_0:
  assumes "\<And>j. j < 32 \<Longrightarrow> q j < 16" and "length out = qk4_0"
  shows "dequantize_q4_0 fo (pack_q4_0 d q) out =
    map (\<lambda>i. f32_mul fo (f16_to_f32 fo d) (f32_of_int fo (int (q i) - 8))) [0..<qk4_0]"
proof (rule nth_equalityI)
  fix i
  assume "i < length (dequantize_q4_0 fo (pack_q4_0 d q) out)"
  then show "dequantize_q4_0 fo (pack_q4_0 d q) out ! i =
      map (\<lambda>i. f32_mul fo (f16_to_f32 fo d) (f32_of_int fo (int (q i) - 8))) [0..<qk4_0] ! i"
    using assms by (simp add: dequantize_q4_0_nth quant_pack_q4_0 qk4_0_def) (simp add: pack_q4_0_def)
qed (use assms(2) in simp)

text \<open>An instance for witnesses: integers, with the scale read as a number.\<close>

definition int_ops :: "int f32_ops" where
  "int_ops = \<lparr>f16_to_f32 = (\<lambda>w. int (unat w)), f32_of_int = (\<lambda>i. i), f32_mul = (*)\<rparr>"

theorem dequantize_pack_q4_0_witness:
  "dequantize_q4_0 int_ops (pack_q4_0 2 (\<lambda>j. j mod 16)) (replicate 32 0) =
    map (\<lambda>i. f32_mul int_ops (f16_to_f32 int_ops 2) (f32_of_int int_ops (int (i mod 16) - 8))) [0..<qk4_0]"
  by (rule dequantize_pack_q4_0) (simp_all add: qk4_0_def)

subsection \<open>Q6_K\<close>

definition qk6_k :: nat where "qk6_k = 256"
definition block_q6_k_size :: nat where "block_q6_k_size = 210"

record block_q6_k =
  ql :: "u8 list"
  qh :: "u8 list"
  scales :: "8 word list"   \<comment> \<open>\<open>i8\<close>\<close>
  d6 :: u16

text \<open>
  \<open>((lo & 0x0F) | ((hi & 0x03) << 4)) as i32 - 32\<close>, for a byte \<open>lo\<close> already shifted to the wanted
  nibble and \<open>hi\<close> to the wanted two bits.
\<close>

definition quant6 :: "u8 \<Rightarrow> u8 \<Rightarrow> int" where
  "quant6 lo hi = int (unat (lo OR push_bit 4 (hi AND 0x03))) - 32"

definition dequantize_q6_k :: "'f f32_ops \<Rightarrow> block_q6_k \<Rightarrow> 'f list \<Rightarrow> 'f list" where
  "dequantize_q6_k fo b out =
     (let d = f16_to_f32 fo (d6 b) in
      fold (\<lambda>half. fold (\<lambda>l out.
        let lo = (\<lambda>k. ql b ! (half * 64 + k));
            hi = qh b ! (half * 32 + l);
            sc = (\<lambda>k. f32_of_int fo (sint (scales b ! (half * 8 + k))));
            is = l div 16;
            y = half * 128;
            q1 = quant6 (lo l AND 0x0F) hi;
            q2 = quant6 (lo (l + 32) AND 0x0F) (drop_bit 2 hi);
            q3 = quant6 (drop_bit 4 (lo l)) (drop_bit 4 hi);
            q4 = quant6 (drop_bit 4 (lo (l + 32))) (drop_bit 6 hi)
        in out[y + l := f32_mul fo (f32_mul fo d (sc is)) (f32_of_int fo q1),
               y + (l + 32) := f32_mul fo (f32_mul fo d (sc (is + 2))) (f32_of_int fo q2),
               y + (l + 64) := f32_mul fo (f32_mul fo d (sc (is + 4))) (f32_of_int fo q3),
               y + (l + 96) := f32_mul fo (f32_mul fo d (sc (is + 6))) (f32_of_int fo q4)])
        [0..<32]) [0..<2] out)"

fun cast_q6_k_fuel :: "nat \<Rightarrow> u8 list \<Rightarrow> block_q6_k list" where
  "cast_q6_k_fuel 0 bs = []"
| "cast_q6_k_fuel (Suc n) bs =
     \<lparr>ql = take 128 bs, qh = take 64 (drop 128 bs), scales = take 16 (drop 192 bs),
      d6 = word_of_nat (unat (bs ! 208) + 256 * unat (bs ! 209))\<rparr> # cast_q6_k_fuel n (drop 210 bs)"

definition blocks_from_bytes_q6_k :: "nat \<Rightarrow> u8 list \<Rightarrow> (invalid_length + block_q6_k list) option" where
  "blocks_from_bytes_q6_k address data =
     (if \<not> block_q6_k_size dvd length data then Some (Inl (InvalidLength (length data)))
      else if \<not> 2 dvd address then None
      else Some (Inr (cast_q6_k_fuel (length data div block_q6_k_size) data)))"

text \<open>Which bits make up weight \<open>i\<close>: half, group of 32, lane.\<close>

definition quant_q6_k :: "block_q6_k \<Rightarrow> nat \<Rightarrow> nat" where
  "quant_q6_k b i =
     (let half = i div 128; g = i mod 128 div 32; l = i mod 32;
          lo = unat (ql b ! (half * 64 + l + 32 * (g mod 2)));
          low = (if g < 2 then lo mod 16 else lo div 16);
          high = unat (qh b ! (half * 32 + l)) div 4 ^ g mod 4
      in low + 16 * high)"

definition weight_q6_k :: "'f f32_ops \<Rightarrow> block_q6_k \<Rightarrow> nat \<Rightarrow> 'f" where
  "weight_q6_k fo b i = f32_mul fo (f32_mul fo (f16_to_f32 fo (d6 b)) (f32_of_int fo (sint (scales b ! (i div 16)))))
     (f32_of_int fo (int (quant_q6_k b i) - 32))"

lemma quant6_nibble:
  assumes "unat lo < 16"
  shows "quant6 lo hi = int (unat lo + 16 * (unat hi mod 4)) - 32"
proof -
  have "lo = take_bit 4 lo"
    using assms by (simp only: take_bit_eq_mod word_unat_eq_iff unat_mod_distrib) simp
  then have "\<not> bit lo n \<or> \<not> bit (push_bit 4 (hi AND 0x03)) n" for n
    by (metis bit_push_bit_iff bit_take_bit_iff not_less)
  then have "lo OR push_bit 4 (hi AND 0x03) = lo + push_bit 4 (hi AND 0x03)"
    by (metis disjunctive_add)
  moreover have "unat (push_bit 4 (hi AND 0x03)) = 16 * (unat hi mod 4)"
  proof -
    have "push_bit 4 (hi AND 0x03) = (hi AND 0x03) * 16" by (simp only: push_bit_eq_mult) simp
    then show ?thesis by (simp only: unat_word_ariths unat_low_two) simp
  qed
  ultimately show ?thesis
    using assms by (simp add: quant6_def unat_word_ariths)
qed


lemma q6_position:
  fixes half l g :: nat
  assumes "l < 32" and "g < 4"
  shows "(half * 128 + (l + 32 * g)) div 128 = half" "(half * 128 + (l + 32 * g)) mod 128 div 32 = g"
    "(half * 128 + (l + 32 * g)) mod 32 = l" "(half * 128 + (l + 32 * g)) div 16 = half * 8 + (l div 16 + 2 * g)"
proof -
  have "l + 32 * g < 128" using assms by simp
  then have m: "(half * 128 + (l + 32 * g)) div 128 = half" "(half * 128 + (l + 32 * g)) mod 128 = l + 32 * g"
    by simp_all
  show "(half * 128 + (l + 32 * g)) div 128 = half" by (rule m)
  show "(half * 128 + (l + 32 * g)) mod 128 div 32 = g" using assms m(2) by simp
  have "half * 128 + (l + 32 * g) = l + 32 * (half * 4 + g)" by simp
  then show "(half * 128 + (l + 32 * g)) mod 32 = l" using assms by (simp only: mod_mult_self2 mod_less)
  have "half * 128 + (l + 32 * g) = l + 16 * (half * 8 + 2 * g)" by simp
  then show "(half * 128 + (l + 32 * g)) div 16 = half * 8 + (l div 16 + 2 * g)" by (simp add: div_mult_self2)
qed

lemma weight_q6_k_group:
  assumes "l < 32" and "g < 4"
  shows "weight_q6_k fo b (half * 128 + (l + 32 * g)) =
    f32_mul fo (f32_mul fo (f16_to_f32 fo (d6 b)) (f32_of_int fo (sint (scales b ! (half * 8 + (l div 16 + 2 * g))))))
      (f32_of_int fo (int ((if g < 2 then unat (ql b ! (half * 64 + l + 32 * (g mod 2))) mod 16
         else unat (ql b ! (half * 64 + l + 32 * (g mod 2))) div 16) +
         16 * (unat (qh b ! (half * 32 + l)) div 4 ^ g mod 4)) - 32))"
  by (simp only: weight_q6_k_def quant_q6_k_def Let_def q6_position [OF assms])

lemma weight_q6_k_at:
  assumes "l < 32"
  shows "weight_q6_k fo b (half * 128 + l) = f32_mul fo (f32_mul fo (f16_to_f32 fo (d6 b)) (f32_of_int fo (sint (scales b ! (half * 8 + l div 16)))))
      (f32_of_int fo (quant6 (ql b ! (half * 64 + l) AND 0x0F) (qh b ! (half * 32 + l))))"
    and "weight_q6_k fo b (half * 128 + (l + 32)) = f32_mul fo (f32_mul fo (f16_to_f32 fo (d6 b)) (f32_of_int fo (sint (scales b ! (half * 8 + (l div 16 + 2))))))
      (f32_of_int fo (quant6 (ql b ! (half * 64 + (l + 32)) AND 0x0F) (drop_bit 2 (qh b ! (half * 32 + l)))))"
    and "weight_q6_k fo b (half * 128 + (l + 64)) = f32_mul fo (f32_mul fo (f16_to_f32 fo (d6 b)) (f32_of_int fo (sint (scales b ! (half * 8 + (l div 16 + 4))))))
      (f32_of_int fo (quant6 (drop_bit 4 (ql b ! (half * 64 + l))) (drop_bit 4 (qh b ! (half * 32 + l)))))"
    and "weight_q6_k fo b (half * 128 + (l + 96)) = f32_mul fo (f32_mul fo (f16_to_f32 fo (d6 b)) (f32_of_int fo (sint (scales b ! (half * 8 + (l div 16 + 6))))))
      (f32_of_int fo (quant6 (drop_bit 4 (ql b ! (half * 64 + (l + 32)))) (drop_bit 6 (qh b ! (half * 32 + l)))))"
proof -
  have lt: "unat (x AND 0x0F :: u8) < 16" "unat (drop_bit 4 x :: u8) < 16" for x
    using unsigned_less [of x, where ?'a = nat] by (simp_all add: unat_low_nibble unat_shift less_mult_imp_div_less)
  note d = quant6_nibble [OF lt(1)] quant6_nibble [OF lt(2)] unat_low_nibble unat_shift
  show "weight_q6_k fo b (half * 128 + l) = f32_mul fo (f32_mul fo (f16_to_f32 fo (d6 b)) (f32_of_int fo (sint (scales b ! (half * 8 + l div 16)))))
      (f32_of_int fo (quant6 (ql b ! (half * 64 + l) AND 0x0F) (qh b ! (half * 32 + l))))"
    using weight_q6_k_group [OF assms, of 0 fo b half] by (simp add: d add.assoc)
  show "weight_q6_k fo b (half * 128 + (l + 32)) = f32_mul fo (f32_mul fo (f16_to_f32 fo (d6 b)) (f32_of_int fo (sint (scales b ! (half * 8 + (l div 16 + 2))))))
      (f32_of_int fo (quant6 (ql b ! (half * 64 + (l + 32)) AND 0x0F) (drop_bit 2 (qh b ! (half * 32 + l)))))"
    using weight_q6_k_group [OF assms, of 1 fo b half] by (simp add: d add.assoc)
  show "weight_q6_k fo b (half * 128 + (l + 64)) = f32_mul fo (f32_mul fo (f16_to_f32 fo (d6 b)) (f32_of_int fo (sint (scales b ! (half * 8 + (l div 16 + 4))))))
      (f32_of_int fo (quant6 (drop_bit 4 (ql b ! (half * 64 + l))) (drop_bit 4 (qh b ! (half * 32 + l)))))"
    using weight_q6_k_group [OF assms, of 2 fo b half] by (simp add: d add.assoc)
  show "weight_q6_k fo b (half * 128 + (l + 96)) = f32_mul fo (f32_mul fo (f16_to_f32 fo (d6 b)) (f32_of_int fo (sint (scales b ! (half * 8 + (l div 16 + 6))))))
      (f32_of_int fo (quant6 (drop_bit 4 (ql b ! (half * 64 + (l + 32)))) (drop_bit 6 (qh b ! (half * 32 + l)))))"
    using weight_q6_k_group [OF assms, of 3 fo b half] by (simp add: d add.assoc)
qed

text \<open>Every weight of a block is computed from its own bits and its own scale.\<close>

lemma dequantize_q6_k_nth:
  assumes "length out = 256" and "i < 256"
  shows "dequantize_q6_k fo b out ! i = weight_q6_k fo b i"
proof -
  let ?P = "\<lambda>half l. {half * 128 + l, half * 128 + (l + 32), half * 128 + (l + 64), half * 128 + (l + 96)}"
  let ?step = "\<lambda>half l out. out[half * 128 + l := weight_q6_k fo b (half * 128 + l),
      half * 128 + (l + 32) := weight_q6_k fo b (half * 128 + (l + 32)),
      half * 128 + (l + 64) := weight_q6_k fo b (half * 128 + (l + 64)),
      half * 128 + (l + 96) := weight_q6_k fo b (half * 128 + (l + 96))]"
  have "dequantize_q6_k fo b out = fold (\<lambda>half. fold (?step half) [0..<32]) [0..<2] out"
    unfolding dequantize_q6_k_def Let_def
    by (intro fold_cong refl ext) (simp_all add: weight_q6_k_at)
  moreover have inner: "fold (?step half) [0..<32] out ! k = (if \<exists>l \<in> set [0..<32]. k \<in> ?P half l then weight_q6_k fo b k else out ! k)"
    if "length out = 256" "k < 256" for half k out
    using that by (intro fold_writes [where n = 256]) (auto simp: nth_list_update)
  have "fold (\<lambda>half. fold (?step half) [0..<32]) [0..<2] out ! i =
      (if \<exists>half \<in> set [0..<2]. i \<in> {k. \<exists>l \<in> set [0..<32]. k \<in> ?P half l} then weight_q6_k fo b i else out ! i)"
    using assms inner
    by (intro fold_writes [where n = 256 and P = "\<lambda>half. {k. \<exists>l \<in> set [0..<32]. k \<in> ?P half l}"])
      (simp_all add: fold_length)
  moreover have "\<exists>half \<in> set [0..<2]. i \<in> {k. \<exists>l \<in> set [0..<32]. k \<in> ?P half l}"
  proof -
    define h where "h = i div 128"
    define l where "l = i mod 32"
    define g where "g = i mod 128 div 32"
    have "i mod 128 = 32 * g + i mod 128 mod 32" unfolding g_def by simp
    moreover have "i mod 128 mod 32 = l" unfolding l_def by (rule mod_mod_cancel) simp
    ultimately have "i = h * 128 + (l + 32 * g)" unfolding h_def
      by (metis add.commute div_mult_mod_eq)
    moreover have "g < 4" "l < 32" "h < 2" using assms(2) by (simp_all add: g_def l_def h_def less_mult_imp_div_less)
    moreover have "g = 0 \<or> g = 1 \<or> g = 2 \<or> g = 3" using \<open>g < 4\<close> by linarith
    ultimately show ?thesis by (intro bexI [of _ h]) (auto intro!: bexI [of _ l])
  qed
  ultimately show ?thesis by presburger
qed

lemma length_dequantize_q6_k [simp]: "length (dequantize_q6_k fo b out) = length out"
  by (simp add: dequantize_q6_k_def Let_def fold_length)


text \<open>The layout of ggml: half by half, the low nibbles of two groups in one byte, the high bits of four.\<close>

definition pack_q6_k :: "u16 \<Rightarrow> 8 word list \<Rightarrow> (nat \<Rightarrow> nat) \<Rightarrow> block_q6_k" where
  "pack_q6_k d sc q =
     \<lparr>ql = map (\<lambda>k. word_of_nat (q (k div 64 * 128 + k mod 64) mod 16 + 16 * (q (k div 64 * 128 + k mod 64 + 64) mod 16))) [0..<128],
      qh = map (\<lambda>k. word_of_nat (\<Sum>g\<leftarrow>[0..<4]. q (k div 32 * 128 + (k mod 32 + 32 * g)) div 16 * 4 ^ g)) [0..<64],
      scales = sc, d6 = d\<rparr>"

lemma q6_split:
  assumes "i < 256"
  obtains half l g :: nat where "i = half * 128 + (l + 32 * g)" "half < 2" "l < 32" "g = 0 \<or> g = 1 \<or> g = 2 \<or> g = 3"
proof -
  have "i mod 128 = 32 * (i mod 128 div 32) + i mod 128 mod 32" by simp
  moreover have "i mod 128 mod 32 = i mod 32" by (rule mod_mod_cancel) simp
  ultimately have "i = i div 128 * 128 + (i mod 32 + 32 * (i mod 128 div 32))"
    by (metis add.commute div_mult_mod_eq)
  moreover have "i div 128 < 2" "i mod 32 < 32" "i mod 128 div 32 < 4" using assms by (simp_all add: less_mult_imp_div_less)
  moreover have "i mod 128 div 32 = 0 \<or> i mod 128 div 32 = 1 \<or> i mod 128 div 32 = 2 \<or> i mod 128 div 32 = 3"
    using calculation(4) by linarith
  ultimately show thesis using that by blast
qed

lemma unat_pack_low:
  assumes "half < 2" and "l < 64"
  shows "unat (ql (pack_q6_k d sc q) ! (half * 64 + l)) = q (half * 128 + l) mod 16 + 16 * (q (half * 128 + l + 64) mod 16)"
proof -
  have "(half * 64 + l) div 64 = half" "(half * 64 + l) mod 64 = l" "half * 64 + l < 128" using assms by simp_all
  moreover have "q (half * 128 + l) mod 16 + 16 * (q (half * 128 + l + 64) mod 16) < 256"
    using mod_less_divisor [of 16 "q (half * 128 + l)"] mod_less_divisor [of 16 "q (half * 128 + l + 64)"] by linarith
  ultimately show ?thesis by (simp only: pack_q6_k_def block_q6_k.simps nth_map length_upt minus_nat.diff_0 nth_upt add_0 unat_of_nat) simp
qed

lemma unat_pack_high:
  assumes "\<And>j. j < 256 \<Longrightarrow> q j < 64" and "half < 2" and "l < 32"
  shows "unat (qh (pack_q6_k d sc q) ! (half * 32 + l)) =
    q (half * 128 + l) div 16 + q (half * 128 + (l + 32)) div 16 * 4 + q (half * 128 + (l + 64)) div 16 * 16 +
    q (half * 128 + (l + 96)) div 16 * 64"
proof -
  have i: "(half * 32 + l) div 32 = half" "(half * 32 + l) mod 32 = l" "half * 32 + l < 64" using assms by simp_all
  have s: "(\<Sum>g\<leftarrow>[0..<4]. q (half * 128 + (l + 32 * g)) div 16 * 4 ^ g) =
    q (half * 128 + l) div 16 + q (half * 128 + (l + 32)) div 16 * 4 + q (half * 128 + (l + 64)) div 16 * 16 +
    q (half * 128 + (l + 96)) div 16 * 64"
    by (simp add: upt_conv_Cons)
  have "q (half * 128 + (l + c)) div 16 < 4" if "c < 97" for c
    using assms(1) [of "half * 128 + (l + c)"] assms(2,3) that by simp
  from this [of 0] this [of 32] this [of 64] this [of 96]
  have "q (half * 128 + l) div 16 + q (half * 128 + (l + 32)) div 16 * 4 + q (half * 128 + (l + 64)) div 16 * 16 +
    q (half * 128 + (l + 96)) div 16 * 64 < 256" by simp
  then show ?thesis
    by (simp only: pack_q6_k_def block_q6_k.simps nth_map length_upt minus_nat.diff_0 nth_upt add_0 i s unat_of_nat) simp
qed

lemma digits4:
  assumes "a < (4::nat)" "b < 4" "c < 4" "e < 4"
  shows "(a + b * 4 + c * 16 + e * 64) mod 4 = a" "(a + b * 4 + c * 16 + e * 64) div 4 mod 4 = b"
    "(a + b * 4 + c * 16 + e * 64) div 16 mod 4 = c" "(a + b * 4 + c * 16 + e * 64) div 64 mod 4 = e"
proof -
  have x: "a + b * 4 + c * 16 + e * 64 = a + 4 * (b + 4 * (c + 4 * e))" by simp
  have y: "(a + b * 4 + c * 16 + e * 64) div 16 = (a + b * 4 + c * 16 + e * 64) div 4 div 4"
    "(a + b * 4 + c * 16 + e * 64) div 64 = (a + b * 4 + c * 16 + e * 64) div 4 div 4 div 4"
    by (simp_all flip: div_mult2_eq)
  have d: "(u + 4 * w) div 4 = w" "(u + 4 * w) mod 4 = u" if "u < 4" for u w :: nat using that by simp_all
  show "(a + b * 4 + c * 16 + e * 64) mod 4 = a" unfolding x by (rule d(2) [OF assms(1)])
  show "(a + b * 4 + c * 16 + e * 64) div 4 mod 4 = b" unfolding x d(1) [OF assms(1)] by (rule d(2) [OF assms(2)])
  show "(a + b * 4 + c * 16 + e * 64) div 16 mod 4 = c"
    unfolding y unfolding x d(1) [OF assms(1)] d(1) [OF assms(2)] by (rule d(2) [OF assms(3)])
  show "(a + b * 4 + c * 16 + e * 64) div 64 mod 4 = e"
    unfolding y unfolding x d(1) [OF assms(1)] d(1) [OF assms(2)] d(1) [OF assms(3)] using assms(4) by simp
qed

lemma quant_pack_q6_k:
  assumes q: "\<And>j. j < 256 \<Longrightarrow> q j < 64" and "i < 256"
  shows "quant_q6_k (pack_q6_k d sc q) i = q i"
proof -
  obtain half l g where i: "i = half * 128 + (l + 32 * g)" "half < 2" "l < 32" "g = 0 \<or> g = 1 \<or> g = 2 \<or> g = 3"
    using assms(2) by (rule q6_split)
  have g: "g < 4" using i(4) by auto
  have "quant_q6_k (pack_q6_k d sc q) i =
      (if g < 2 then unat (ql (pack_q6_k d sc q) ! (half * 64 + (l + 32 * (g mod 2)))) mod 16
       else unat (ql (pack_q6_k d sc q) ! (half * 64 + (l + 32 * (g mod 2)))) div 16) +
      16 * (unat (qh (pack_q6_k d sc q) ! (half * 32 + l)) div 4 ^ g mod 4)"
    by (simp only: quant_q6_k_def Let_def i(1) q6_position [OF i(3) g] add.assoc)
  also have "\<dots> = q i mod 16 + 16 * (q i div 16 mod 4)"
  proof -
    have h: "q (half * 128 + (l + c)) div 16 < 4" if "c < 97" for c
      using q [of "half * 128 + (l + c)"] i(2,3) that by simp
    note h4 = h [of 0, simplified] h [of 32, simplified] h [of 64, simplified] h [of 96, simplified]
    have low: "unat (ql (pack_q6_k d sc q) ! (half * 64 + l)) =
        q (half * 128 + l) mod 16 + 16 * (q (half * 128 + (l + 64)) mod 16)"
      using unat_pack_low [of half l d sc q] i(2,3) by (simp add: add.assoc)
    have low32: "unat (ql (pack_q6_k d sc q) ! (half * 64 + (l + 32))) =
        q (half * 128 + (l + 32)) mod 16 + 16 * (q (half * 128 + (l + 96)) mod 16)"
      using unat_pack_low [of half "l + 32" d sc q] i(2,3) by (simp add: add.assoc)
    have nib: "(x mod 16 + 16 * (y mod 16)) mod 16 = x mod 16" "(x mod 16 + 16 * (y mod 16)) div 16 = y mod 16"
      for x y :: nat by simp_all
    note high = unat_pack_high [OF q i(2,3), where d = d and sc = sc]
    show ?thesis
      using i(4)
    proof (elim disjE)
      assume "g = 0" then show ?thesis using h4 by (simp add: low high i(1) nib digits4)
    next
      assume "g = 1" then show ?thesis using h4 by (simp add: low32 high i(1) nib digits4)
    next
      assume "g = 2" then show ?thesis using h4 by (simp add: low high i(1) nib digits4)
    next
      assume "g = 3" then show ?thesis using h4 by (simp add: low32 high i(1) nib digits4)
    qed
  qed
  also have "\<dots> = q i" using q [OF assms(2)] by simp
  finally show ?thesis .
qed

text \<open>
  C40: Dequantizing a Q6_K super-block that was packed from 256 quants of 6 bits in the ggml layout
  writes exactly the 256 weights \<open>d * scale * (q - 32)\<close> with the signed scale of the weight's
  sub-block of sixteen, each in its place.
\<close>

theorem dequantize_pack_q6_k:
  assumes "\<And>j. j < 256 \<Longrightarrow> q j < 64" and "length out = qk6_k"
  shows "dequantize_q6_k fo (pack_q6_k d sc q) out =
    map (\<lambda>i. f32_mul fo (f32_mul fo (f16_to_f32 fo d) (f32_of_int fo (sint (sc ! (i div 16)))))
      (f32_of_int fo (int (q i) - 32))) [0..<qk6_k]"
proof (rule nth_equalityI)
  fix i
  assume "i < length (dequantize_q6_k fo (pack_q6_k d sc q) out)"
  then have i: "i < 256" using assms(2) by (simp add: qk6_k_def)
  have "scales (pack_q6_k d sc q) = sc" "d6 (pack_q6_k d sc q) = d" by (simp_all add: pack_q6_k_def)
  then show "dequantize_q6_k fo (pack_q6_k d sc q) out ! i =
      map (\<lambda>i. f32_mul fo (f32_mul fo (f16_to_f32 fo d) (f32_of_int fo (sint (sc ! (i div 16)))))
        (f32_of_int fo (int (q i) - 32))) [0..<qk6_k] ! i"
    using i assms by (simp add: dequantize_q6_k_nth weight_q6_k_def quant_pack_q6_k qk6_k_def)
qed (use assms(2) in simp)

theorem dequantize_pack_q6_k_witness:
  "dequantize_q6_k int_ops (pack_q6_k 3 (replicate 16 (- 2)) (\<lambda>j. j mod 64)) (replicate 256 0) =
    map (\<lambda>i. f32_mul int_ops (f32_mul int_ops (f16_to_f32 int_ops 3) (f32_of_int int_ops (sint ((replicate 16 (- 2) :: 8 word list) ! (i div 16)))))
      (f32_of_int int_ops (int (i mod 64) - 32))) [0..<qk6_k]"
  by (rule dequantize_pack_q6_k) (simp_all add: qk6_k_def)


end
