(* ===== verification/Reference.thy ===== *)
theory Reference
  imports Model_Desc Quant Gguf_Parse "HOL-Library.Monad_Syntax"
begin

text \<open>
  \<open>crates/sg-model/src/reference.rs\<close> and \<open>rope.rs\<close>: the CPU reference model, the oracle the GPU
  path is compared with. \<open>f32\<close> and \<open>f64\<close> are the type parameters \<open>'f\<close> and \<open>'d\<close> with the operations
  of \<open>arith\<close>, of which nothing is assumed; tensors in the file hold bit patterns. \<open>None\<close> is a panic.
  The parallel loops of rayon write disjoint chunks from shared inputs: each chunk is one value here.
  The \<open>tap\<close> callback is the list of its calls.
\<close>

subsection \<open>Arithmetic\<close>

record ('f, 'd) arith =
  ar_quant :: "'f f32_ops"
  of_bits :: "f32 \<Rightarrow> 'f"
  f_add :: "'f \<Rightarrow> 'f \<Rightarrow> 'f"
  f_sub :: "'f \<Rightarrow> 'f \<Rightarrow> 'f"
  f_div :: "'f \<Rightarrow> 'f \<Rightarrow> 'f"
  f_sqrt :: "'f \<Rightarrow> 'f"
  f_tanh :: "'f \<Rightarrow> 'f"
  widen :: "'f \<Rightarrow> 'd"               \<comment> \<open>\<open>as f64\<close>\<close>
  narrow :: "'d \<Rightarrow> 'f"              \<comment> \<open>\<open>as f32\<close>\<close>
  d_lit :: "int \<Rightarrow> nat \<Rightarrow> 'd"       \<comment> \<open>the literal \<open>m * 10^-k\<close>\<close>
  d_of_nat :: "nat \<Rightarrow> 'd"           \<comment> \<open>\<open>as f64\<close> of a \<open>u32\<close> or \<open>usize\<close>\<close>
  d_neg_infinity :: 'd
  d_sum_start :: 'd                  \<comment> \<open>where \<open>Iterator::sum\<close> starts\<close>
  d_add :: "'d \<Rightarrow> 'd \<Rightarrow> 'd"
  d_sub :: "'d \<Rightarrow> 'd \<Rightarrow> 'd"
  d_mul :: "'d \<Rightarrow> 'd \<Rightarrow> 'd"
  d_div :: "'d \<Rightarrow> 'd \<Rightarrow> 'd"
  d_max :: "'d \<Rightarrow> 'd \<Rightarrow> 'd"
  d_pow :: "'d \<Rightarrow> 'd \<Rightarrow> 'd"
  d_sqrt :: "'d \<Rightarrow> 'd"
  d_exp :: "'d \<Rightarrow> 'd"
  d_tanh :: "'d \<Rightarrow> 'd"
  d_cos :: "'d \<Rightarrow> 'd"
  d_sin :: "'d \<Rightarrow> 'd"

abbreviation f_mul :: "('f, 'd) arith \<Rightarrow> 'f \<Rightarrow> 'f \<Rightarrow> 'f" where
  "f_mul ar \<equiv> f32_mul (ar_quant ar)"

definition f_zero :: "('f, 'd) arith \<Rightarrow> 'f" where "f_zero ar = of_bits ar 0"
definition f_one :: "('f, 'd) arith \<Rightarrow> 'f" where "f_one ar = of_bits ar 0x3F800000"
definition d_zero :: "('f, 'd) arith \<Rightarrow> 'd" where "d_zero ar = d_lit ar 0 0"

definition d_sum :: "('f, 'd) arith \<Rightarrow> 'd list \<Rightarrow> 'd" where
  "d_sum ar xs = foldl (d_add ar) (d_sum_start ar) xs"

text \<open>\<open>xs[at..][..k]\<close>, and \<open>xs.chunks_mut(k)\<close> for a positive \<open>k\<close>; the last chunk may be short.\<close>

definition sub_slice :: "'a list \<Rightarrow> nat \<Rightarrow> nat \<Rightarrow> 'a list option" where
  "sub_slice xs at k = (if at + k \<le> length xs then Some (take k (drop at xs)) else None)"

definition chunks :: "nat \<Rightarrow> 'a list \<Rightarrow> 'a list list" where
  "chunks k xs = map (\<lambda>i. take k (drop (i * k) xs)) [0..<(length xs + k - 1) div k]"

subsection \<open>Rotary tables\<close>

definition rope_pair :: "('f, 'd) arith \<Rightarrow> nat \<Rightarrow> f32 \<Rightarrow> f32 list option \<Rightarrow> u32 \<Rightarrow> nat \<Rightarrow> 'f list" where
  "rope_pair ar hdim theta factors p i =
     (let freq = d_pow ar (widen ar (of_bits ar theta)) (d_div ar (d_mul ar (d_lit ar (- 2) 0) (d_of_nat ar i)) (d_of_nat ar hdim));
          factor = (case factors of None \<Rightarrow> d_lit ar 1 0 | Some f \<Rightarrow> widen ar (of_bits ar (f ! i)));
          angle = d_div ar (d_mul ar (d_of_nat ar (unat p)) freq) factor
      in [narrow ar (d_cos ar angle), narrow ar (d_sin ar angle)])"

definition rope_row :: "('f, 'd) arith \<Rightarrow> nat \<Rightarrow> f32 \<Rightarrow> f32 list option \<Rightarrow> u32 \<Rightarrow> 'f list" where
  "rope_row ar hdim theta factors p = concat (map (rope_pair ar hdim theta factors p) [0..<hdim div 2])"

definition rope_table :: "('f, 'd) arith \<Rightarrow> u32 list \<Rightarrow> nat \<Rightarrow> f32 \<Rightarrow> f32 list option \<Rightarrow> 'f list option" where
  "rope_table ar positions hdim theta factors =
     (if (case factors of Some f \<Rightarrow> length f \<noteq> hdim div 2 | None \<Rightarrow> False) then None
      else Some (concat (map (rope_row ar hdim theta factors) positions)))"

definition apply_rope :: "('f, 'd) arith \<Rightarrow> 'f list \<Rightarrow> 'f list \<Rightarrow> 'f list" where
  "apply_rope ar cs row =
     (let half = length row div 2 in
      fold (\<lambda>i row.
        let c = cs ! (2 * i); s = cs ! (2 * i + 1); a = row ! i; b = row ! (i + half)
        in row[i := f_sub ar (f_mul ar a c) (f_mul ar b s), i + half := f_add ar (f_mul ar b c) (f_mul ar a s)])
        [0..<half] row)"

subsection \<open>The model\<close>

record 'f conventions =
  norm_one_plus_w :: bool
  embed_scale :: 'f
  attn_scale :: 'f
  cv_v_norm :: bool
  cv_output_scale :: bool

definition pinned :: "('f, 'd) arith \<Rightarrow> nat \<Rightarrow> 'f conventions" where
  "pinned ar hidden =
     \<lparr>norm_one_plus_w = False, embed_scale = f_sqrt ar (f32_of_int (ar_quant ar) (int hidden)),
      attn_scale = f_one ar, cv_v_norm = True, cv_output_scale = True\<rparr>"

record 'f kv_cache =
  kv_layers :: "('f list \<times> 'f list) list"
  cached :: nat

definition kv_new :: "model_desc \<Rightarrow> 'f kv_cache" where
  "kv_new d = \<lparr>kv_layers = replicate (n_layers d) ([], []), cached = 0\<rparr>"

datatype ref_what =
    NotTheModel "issue list"
  | WrongCount nat nat
  | OutsidePinned nat f32
  | NotF32 ggml_type

datatype ref_error = MissingTensor string | RefBadTensor string ref_what

record 'f cpu_model =
  cm_gguf :: gguf
  cm_address :: "string \<Rightarrow> nat"      \<comment> \<open>where a tensor lies in memory\<close>
  cm_desc :: model_desc
  cm_conv :: "'f conventions"
  rope_factors :: "f32 list"

definition f32_tensor :: "gguf \<Rightarrow> string \<Rightarrow> (ref_error + f32 list) option" where
  "f32_tensor g name =
     (case tensor g name of
        None \<Rightarrow> Some (Inl (MissingTensor name))
      | Some info \<Rightarrow>
          if dtype info \<noteq> F32 then Some (Inl (RefBadTensor name (NotF32 (dtype info))))
          else map_option (\<lambda>bytes. Inr (vec_from_le 4 bytes)) (data_of g info))"

text \<open>\<open>f == 1.0\<close> and \<open>f >= 1e20\<close> on bit patterns: NaNs lie above \<open>0x7F800000\<close>.\<close>

definition factor_ok :: "nat \<Rightarrow> nat \<Rightarrow> f32 \<Rightarrow> bool" where
  "factor_ok nlive i f = (if i < nlive then f = 0x3F800000 else 0x60AD78EC \<le> f \<and> f \<le> 0x7F800000)"

definition cpu_new :: "('f, 'd) arith \<Rightarrow> (string \<Rightarrow> nat) \<Rightarrow> gguf \<Rightarrow> (ref_error + 'f cpu_model) option" where
  "cpu_new ar address g =
     (case from_gguf g of
        Inl issues \<Rightarrow> Some (Inl (RefBadTensor ''<model>'' (NotTheModel issues)))
      | Inr desc \<Rightarrow>
          do { r \<leftarrow> f32_tensor g ''rope_freqs.weight'';
               Some (case r of
                 Inl e \<Rightarrow> Inl e
               | Inr fs \<Rightarrow>
                   let half = head_dim (global desc) div 2 in
                   if length fs \<noteq> half then Inl (RefBadTensor ''rope_freqs.weight'' (WrongCount (length fs) half))
                   else (case find (\<lambda>i. \<not> factor_ok (half div 4) i (fs ! i)) [0..<length fs] of
                           Some i \<Rightarrow> Inl (RefBadTensor ''rope_freqs.weight'' (OutsidePinned i (fs ! i)))
                         | None \<Rightarrow> Inr \<lparr>cm_gguf = g, cm_address = address, cm_desc = desc,
                             cm_conv = pinned ar (hidden_size desc), rope_factors = fs\<rparr>)) })"

subsection \<open>Weights\<close>

record mat_weight =
  mw_bytes :: "u8 list"
  mw_address :: nat
  mw_dtype :: ggml_type
  mw_in :: nat
  mw_out :: nat

definition mat :: "'f cpu_model \<Rightarrow> string \<Rightarrow> nat \<Rightarrow> nat \<Rightarrow> mat_weight option" where
  "mat m name ni no =
     do { info \<leftarrow> tensor (cm_gguf m) name;
          if dims info \<noteq> [word_of_nat ni, word_of_nat no] then None
          else do { bytes \<leftarrow> data_of (cm_gguf m) info;
                    Some \<lparr>mw_bytes = bytes, mw_address = cm_address m name, mw_dtype = dtype info,
                          mw_in = ni, mw_out = no\<rparr> } }"

definition norm_weight :: "('f, 'd) arith \<Rightarrow> 'f cpu_model \<Rightarrow> string \<Rightarrow> 'f list option" where
  "norm_weight ar m name =
     do { r \<leftarrow> f32_tensor (cm_gguf m) name;
          case r of Inl e \<Rightarrow> None | Inr ws \<Rightarrow> Some (map (of_bits ar) ws) }"

text \<open>The block buffer is overwritten whole by every block; what the blocks leave of \<open>out\<close> stays.\<close>

definition dequant_row :: "('f, 'd) arith \<Rightarrow> mat_weight \<Rightarrow> nat \<Rightarrow> 'f list \<Rightarrow> 'f list option" where
  "dequant_row ar w r out =
     (if mw_out w \<le> r \<or> length out \<noteq> mw_in w then None
      else case mw_dtype w of
        Q4_0 \<Rightarrow>
          let row_bytes = mw_in w div qk4_0 * block_q4_0_size in
          do { bytes \<leftarrow> sub_slice (mw_bytes w) (r * row_bytes) row_bytes;
               res \<leftarrow> blocks_from_bytes_q4_0 (mw_address w + r * row_bytes) bytes;
               case res of
                 Inl e \<Rightarrow> None
               | Inr blocks \<Rightarrow>
                   Some (concat (map (\<lambda>b. dequantize_q4_0 (ar_quant ar) b (replicate qk4_0 (f_zero ar))) blocks) @
                     drop (length blocks * qk4_0) out) }
      | Q6_K \<Rightarrow>
          let row_bytes = mw_in w div qk6_k * block_q6_k_size in
          do { bytes \<leftarrow> sub_slice (mw_bytes w) (r * row_bytes) row_bytes;
               res \<leftarrow> blocks_from_bytes_q6_k (mw_address w + r * row_bytes) bytes;
               case res of
                 Inl e \<Rightarrow> None
               | Inr blocks \<Rightarrow>
                   Some (concat (map (\<lambda>b. dequantize_q6_k (ar_quant ar) b (replicate qk6_k (f_zero ar))) blocks) @
                     drop (length blocks * qk6_k) out) }
      | _ \<Rightarrow> None)"

subsection \<open>Products, norms and attention\<close>

text \<open>Both slices have the same length at every call.\<close>

definition dot_f64 :: "('f, 'd) arith \<Rightarrow> 'f list \<Rightarrow> 'f list \<Rightarrow> 'd" where
  "dot_f64 ar a b =
     (let n8 = length a div 8 * 8;
          mul = (\<lambda>x y. d_mul ar (widen ar x) (widen ar y));
          acc = foldl (\<lambda>acc (ac, bc). map (\<lambda>j. d_add ar (acc ! j) (mul (ac ! j) (bc ! j))) [0..<8])
            (replicate 8 (d_zero ar)) (zip (chunks_exact 8 (take n8 a)) (chunks_exact 8 (take n8 b)))
      in foldl (\<lambda>s (x, y). d_add ar s (mul x y)) (d_sum ar acc) (zip (drop n8 a) (drop n8 b)))"

text \<open>
  A worker reuses its row buffer between rows; here every row starts from zeros. For a row that its
  blocks cover, as those of every validated tensor, the outcome does not depend on the buffer.
\<close>

definition weight_rows :: "('f, 'd) arith \<Rightarrow> mat_weight \<Rightarrow> 'f list list option" where
  "weight_rows ar w = those (map (\<lambda>r. dequant_row ar w r (replicate (mw_in w) (f_zero ar))) [0..<mw_out w])"

definition matmul :: "('f, 'd) arith \<Rightarrow> mat_weight \<Rightarrow> 'f list \<Rightarrow> nat \<Rightarrow> 'f list option" where
  "matmul ar w x n =
     (if length x \<noteq> n * mw_in w \<or> n = 0 then None
      else do { rows \<leftarrow> weight_rows ar w;
                let rt = concat (map (\<lambda>row. map (\<lambda>t. narrow ar (dot_f64 ar row (take (mw_in w) (drop (t * mw_in w) x)))) [0..<n]) rows);
                Some (concat (map (\<lambda>t. map (\<lambda>r. rt ! (r * n + t)) [0..<mw_out w]) [0..<n])) })"

definition rmsnorm_one :: "('f, 'd) arith \<Rightarrow> 'f cpu_model \<Rightarrow> 'f list option \<Rightarrow> 'f list \<Rightarrow> 'f list" where
  "rmsnorm_one ar m w row =
     (let ms = d_div ar (d_sum ar (map (\<lambda>v. d_mul ar (widen ar v) (widen ar v)) row)) (d_of_nat ar (length row));
          inv = d_div ar (d_lit ar 1 0) (d_sqrt ar (d_add ar ms (widen ar (of_bits ar (rms_norm_eps (cm_desc m))))))
      in case w of
           Some w \<Rightarrow>
             let add = (if norm_one_plus_w (cm_conv m) then f_one ar else f_zero ar) in
             map (\<lambda>(v, wi). f_mul ar (narrow ar (d_mul ar (widen ar v) inv)) (f_add ar wi add)) (zip row w) @
             drop (length w) row
         | None \<Rightarrow> map (\<lambda>v. narrow ar (d_mul ar (widen ar v) inv)) row)"

definition rmsnorm_rows :: "('f, 'd) arith \<Rightarrow> 'f cpu_model \<Rightarrow> 'f list \<Rightarrow> nat \<Rightarrow> string \<Rightarrow> 'f list option" where
  "rmsnorm_rows ar m x row_len name =
     do { w \<leftarrow> norm_weight ar m name;
          if length w \<noteq> row_len \<or> row_len = 0 then None
          else Some (concat (map (rmsnorm_one ar m (Some w)) (chunks row_len x))) }"

text \<open>\<open>head_rows\<close>: the head rows with the index of their token.\<close>

definition head_rows :: "nat \<Rightarrow> nat \<Rightarrow> 'a list \<Rightarrow> (nat \<times> 'a list) list option" where
  "head_rows n_heads hdim x =
     (if hdim = 0 \<or> (n_heads = 0 \<and> x \<noteq> []) then None
      else Some (map (\<lambda>(i, c). (i div n_heads, c)) (enumerate 0 (chunks hdim x))))"

definition norm_rope :: "('f, 'd) arith \<Rightarrow> 'f cpu_model \<Rightarrow> nat \<Rightarrow> nat \<Rightarrow> 'f list \<Rightarrow> 'f list \<Rightarrow> 'f list \<Rightarrow> 'f list option" where
  "norm_rope ar m n_heads hdim w cs x =
     do { heads \<leftarrow> head_rows n_heads hdim x;
          rows \<leftarrow> those (map (\<lambda>(t, head). do { c \<leftarrow> sub_slice cs (t * (hdim div 2) * 2) (hdim div 2 * 2);
            Some (apply_rope ar c (rmsnorm_one ar m (Some w) head)) }) heads);
          Some (concat rows) }"

definition softmax :: "('f, 'd) arith \<Rightarrow> 'd list \<Rightarrow> 'd list \<times> 'd" where
  "softmax ar scores =
     (let top = foldl (d_max ar) (d_neg_infinity ar) scores;
          es = map (\<lambda>s. d_exp ar (d_sub ar s top)) scores
      in (es, foldl (d_add ar) (d_zero ar) es))"

definition attend :: "('f, 'd) arith \<Rightarrow> 'f list \<Rightarrow> 'f list \<Rightarrow> 'f list \<Rightarrow> nat \<Rightarrow> nat \<Rightarrow> nat \<Rightarrow> nat \<Rightarrow>
    nat option \<Rightarrow> 'f \<Rightarrow> 'f list option" where
  "attend ar qr ck cv q_pos kvh n_kv hdim window scale =
     (let lo = (case window of None \<Rightarrow> 0 | Some w \<Rightarrow> q_pos + 1 - w) in
      do { krs \<leftarrow> those (map (\<lambda>kp. sub_slice ck ((kp * n_kv + kvh) * hdim) hdim) [lo..<q_pos + 1]);
           let (es, sum) = softmax ar (map (\<lambda>kr. d_mul ar (dot_f64 ar qr kr) (widen ar scale)) krs);
           vrs \<leftarrow> those (map (\<lambda>kp. sub_slice cv ((kp * n_kv + kvh) * hdim) hdim) [lo..<q_pos + 1]);
           let acc = foldl (\<lambda>acc (e, vr). map (\<lambda>(a, v). d_add ar a (d_mul ar (d_div ar e sum) (widen ar v))) (zip acc vr))
             (replicate hdim (d_zero ar)) (zip es vrs);
           Some (map (narrow ar) acc) })"

definition attention :: "('f, 'd) arith \<Rightarrow> 'f list \<Rightarrow> 'f list \<Rightarrow> 'f list \<Rightarrow> nat \<Rightarrow> nat \<Rightarrow> nat \<Rightarrow> nat \<Rightarrow> nat \<Rightarrow>
    nat option \<Rightarrow> 'f \<Rightarrow> 'f list option" where
  "attention ar q ck cv n q0 nq n_kv hdim window scale =
     (if n_kv * hdim = 0 then None
      else let q_per_kv = nq div n_kv in
      do { rows \<leftarrow> those (map (\<lambda>i.
             let t = i div nq; h = i mod nq in
             if q_per_kv = 0 then None
             else do { qr \<leftarrow> sub_slice q ((t * nq + h) * hdim) hdim;
                       attend ar qr ck cv (q0 + t) (h div q_per_kv) n_kv hdim window scale }) [0..<n * nq]);
           Some (concat rows) })"

definition gelu_tanh :: "('f, 'd) arith \<Rightarrow> 'f \<Rightarrow> 'f" where
  "gelu_tanh ar v =
     (let x = widen ar v;
          cube = d_mul ar (d_mul ar (d_mul ar (d_lit ar 44715 6) x) x) x
      in narrow ar (d_mul ar (d_mul ar (d_lit ar 5 1) x)
           (d_add ar (d_lit ar 1 0) (d_tanh ar (d_mul ar (d_lit ar 7978845608028654 16) (d_add ar x cube))))))"

subsection \<open>The forward pass\<close>

type_synonym 'f tap = "string \<times> nat option \<times> 'f list"

definition layer_geometry :: "model_desc \<Rightarrow> layer_kind \<Rightarrow> attn_geometry" where
  "layer_geometry d kind = (case kind of Sliding \<Rightarrow> sliding d | Global \<Rightarrow> global d)"

definition add_rows :: "('f, 'd) arith \<Rightarrow> 'f list \<Rightarrow> 'f list \<Rightarrow> 'f list" where
  "add_rows ar x r = map (\<lambda>(h, r). f_add ar h r) (zip x r) @ drop (length r) x"

definition embed :: "('f, 'd) arith \<Rightarrow> 'f cpu_model \<Rightarrow> mat_weight \<Rightarrow> u32 list \<Rightarrow> 'f list option" where
  "embed ar m embd tokens =
     do { rows \<leftarrow> those (map (\<lambda>tok. dequant_row ar embd (unat tok) (replicate (hidden_size (cm_desc m)) (f_zero ar))) tokens);
          Some (concat (map (map (\<lambda>v. f_mul ar v (embed_scale (cm_conv m)))) rows)) }"

definition attn_block :: "('f, 'd) arith \<Rightarrow> 'f cpu_model \<Rightarrow> nat \<Rightarrow> 'f list \<Rightarrow> nat \<Rightarrow> nat \<Rightarrow> 'f list \<times> 'f list \<Rightarrow> 'f list \<Rightarrow>
    ('f list \<times> ('f list \<times> 'f list) \<times> 'f tap list) option" where
  "attn_block ar m layer cs n q0 kv x =
     (let d = cm_desc m; kind = layer_kinds d ! layer; geo = layer_geometry d kind; hdim = head_dim geo; n_kv = n_kv_heads geo;
          nq = n_q_heads d; hidden = hidden_size d; nm = blk_name layer in
      do { xn \<leftarrow> rmsnorm_rows ar m x hidden (nm ''attn_norm'');
           wq \<leftarrow> mat m (nm ''attn_q'') hidden (nq * hdim);
           q0' \<leftarrow> matmul ar wq xn n;
           qw \<leftarrow> norm_weight ar m (nm ''attn_q_norm'');
           q \<leftarrow> norm_rope ar m nq hdim qw cs q0';
           wk \<leftarrow> mat m (nm ''attn_k'') hidden (n_kv * hdim);
           k_proj \<leftarrow> matmul ar wk xn n;
           v0 \<leftarrow> (case kind of
                    Sliding \<Rightarrow> do { wv \<leftarrow> mat m (nm ''attn_v'') hidden (n_kv * hdim); matmul ar wv xn n }
                  | Global \<Rightarrow> Some k_proj);
           kw \<leftarrow> norm_weight ar m (nm ''attn_k_norm'');
           k \<leftarrow> norm_rope ar m n_kv hdim kw cs k_proj;
           v \<leftarrow> (if cv_v_norm (cm_conv m)
                 then map_option (\<lambda>heads. concat (map (\<lambda>(t, head). rmsnorm_one ar m None head) heads)) (head_rows n_kv hdim v0)
                 else Some v0);
           let kv' = (fst kv @ k, snd kv @ v);
           let window = (case kind of Sliding \<Rightarrow> Some (sliding_window d) | Global \<Rightarrow> None);
           attn \<leftarrow> attention ar q (fst kv') (snd kv') n q0 nq n_kv hdim window (attn_scale (cm_conv m));
           wo \<leftarrow> mat m (nm ''attn_output'') (nq * hdim) hidden;
           o0 \<leftarrow> matmul ar wo attn n;
           o1 \<leftarrow> rmsnorm_rows ar m o0 hidden (nm ''post_attention_norm'');
           let x' = add_rows ar x o1;
           Some (x', kv', [(''attn_norm'', Some layer, xn), (''q_rope'', Some layer, q), (''k_rope'', Some layer, k),
             (''v_norm'', Some layer, v), (''attn_out'', Some layer, o0), (''post_attn_norm'', Some layer, o1),
             (''h_attn'', Some layer, x')]) })"

definition ffn_block :: "('f, 'd) arith \<Rightarrow> 'f cpu_model \<Rightarrow> nat \<Rightarrow> nat \<Rightarrow> 'f list \<Rightarrow> ('f list \<times> 'f tap list) option" where
  "ffn_block ar m layer n x =
     (let d = cm_desc m; hidden = hidden_size d; nm = blk_name layer in
      do { fn_in \<leftarrow> rmsnorm_rows ar m x hidden (nm ''ffn_norm'');
           wg \<leftarrow> mat m (nm ''ffn_gate'') hidden (ffn_size d);
           wu \<leftarrow> mat m (nm ''ffn_up'') hidden (ffn_size d);
           gate \<leftarrow> matmul ar wg fn_in n;
           up \<leftarrow> matmul ar wu fn_in n;
           let act = map (\<lambda>(g, u). f_mul ar (gelu_tanh ar g) u) (zip gate up) @ drop (length up) gate;
           wd \<leftarrow> mat m (nm ''ffn_down'') (ffn_size d) hidden;
           f0 \<leftarrow> matmul ar wd act n;
           f1 \<leftarrow> rmsnorm_rows ar m f0 hidden (nm ''post_ffw_norm'');
           let x1 = add_rows ar x f1;
           x2 \<leftarrow> (if cv_output_scale (cm_conv m)
                  then do { s \<leftarrow> norm_weight ar m (nm ''layer_output_scale'');
                            if s = [] then None else Some (map (\<lambda>v. f_mul ar v (s ! 0)) x1) }
                  else Some x1);
           Some (x2, [(''ffn_norm'', Some layer, fn_in), (''ffn_out'', Some layer, f0), (''post_ffn_norm'', Some layer, f1),
             (''layer_out'', Some layer, x2)]) })"

fun run_layers :: "('f, 'd) arith \<Rightarrow> 'f cpu_model \<Rightarrow> 'f list \<Rightarrow> 'f list \<Rightarrow> nat \<Rightarrow> nat \<Rightarrow> nat list \<Rightarrow>
    ('f list \<times> 'f list) list \<Rightarrow> 'f list \<Rightarrow> ('f list \<times> ('f list \<times> 'f list) list \<times> 'f tap list) option" where
  "run_layers ar m cs_sl cs_gl n q0 [] kvs x = Some (x, kvs, [])"
| "run_layers ar m cs_sl cs_gl n q0 (layer # layers) kvs x =
     (if length kvs \<le> layer \<or> length (layer_kinds (cm_desc m)) \<le> layer then None
      else do { (x1, kv, taps1) \<leftarrow> attn_block ar m layer
                  (case layer_kinds (cm_desc m) ! layer of Sliding \<Rightarrow> cs_sl | Global \<Rightarrow> cs_gl) n q0 (kvs ! layer) x;
                (x2, taps2) \<leftarrow> ffn_block ar m layer n x1;
                (x3, kvs', taps3) \<leftarrow> run_layers ar m cs_sl cs_gl n q0 layers (kvs[layer := kv]) x2;
                Some (x3, kvs', taps1 @ taps2 @ taps3) })"

definition softcap :: "('f, 'd) arith \<Rightarrow> model_desc \<Rightarrow> 'f list \<Rightarrow> 'f list" where
  "softcap ar d = map (\<lambda>v. f_mul ar (of_bits ar (final_logit_softcap d)) (f_tanh ar (f_div ar v (of_bits ar (final_logit_softcap d)))))"

definition forward :: "('f, 'd) arith \<Rightarrow> 'f cpu_model \<Rightarrow> u32 list \<Rightarrow> 'f kv_cache \<Rightarrow>
    ('f list \<times> 'f kv_cache \<times> 'f tap list) option" where
  "forward ar m tokens cache =
     (let d = cm_desc m; n = length tokens; hidden = hidden_size d;
          positions = map (\<lambda>i. of_nat (cached cache + i)) [0..<n] in
      do { embd \<leftarrow> mat m ''token_embd.weight'' hidden (vocab_size d);
           x \<leftarrow> embed ar m embd tokens;
           cs_sl \<leftarrow> rope_table ar positions (head_dim (sliding d)) (rope_theta (sliding d)) None;
           cs_gl \<leftarrow> rope_table ar positions (head_dim (global d)) (rope_theta (global d)) (Some (rope_factors m));
           (x1, kvs, taps) \<leftarrow> run_layers ar m cs_sl cs_gl n (cached cache) [0..<n_layers d] (kv_layers cache) x;
           let cache' = \<lparr>kv_layers = kvs, cached = cached cache + n\<rparr>;
           x2 \<leftarrow> rmsnorm_rows ar m x1 hidden ''output_norm.weight'';
           if n = 0 then None
           else do {
             last \<leftarrow> sub_slice x2 ((n - 1) * hidden) hidden;
             raw \<leftarrow> matmul ar embd last 1;
             let logits = softcap ar d raw;
             Some (logits, cache', (''embed'', None, x) # taps @
               [(''final_norm'', None, x2), (''logits'', None, logits)]) } })"

definition lm_head :: "('f, 'd) arith \<Rightarrow> 'f cpu_model \<Rightarrow> 'f list \<Rightarrow> 'f list option" where
  "lm_head ar m x_normed =
     (let d = cm_desc m in
      if hidden_size d = 0 then None
      else do { embd \<leftarrow> mat m ''token_embd.weight'' (hidden_size d) (vocab_size d);
                raw \<leftarrow> matmul ar embd x_normed (length x_normed div hidden_size d);
                Some (softcap ar d raw) })"

end
