(* ===== verification/Reference_Rows.thy ===== *)
theory Reference_Rows
  imports Reference
begin

text \<open>
  Activations are flat lists in \<open>reference.rs\<close>; here they are lists of rows, one per token. Each stage
  of the forward pass is shown to be a function of the row and its position, and attention to read
  the cache up to its own position only.
\<close>

subsection \<open>Flat lists of rows\<close>

abbreviation rows :: "nat \<Rightarrow> 'a list list \<Rightarrow> bool" where
  "rows k X \<equiv> \<forall>r \<in> set X. length r = k"

lemma length_concat_rows: "rows k X \<Longrightarrow> length (concat X) = length X * k"
  by (induction X) auto

lemma take_drop_concat: "rows k X \<Longrightarrow> i < length X \<Longrightarrow> take k (drop (i * k) (concat X)) = X ! i"
proof (induction X arbitrary: i)
  case (Cons r X)
  then show ?case by (cases i) auto
qed simp

lemma nth_concat_rows: "rows k X \<Longrightarrow> i < length X \<Longrightarrow> j < k \<Longrightarrow> concat X ! (i * k + j) = X ! i ! j"
proof (induction X arbitrary: i)
  case (Cons r X)
  then show ?case by (cases i) (auto simp: nth_append add.assoc)
qed simp

lemma sub_slice_concat: "rows k X \<Longrightarrow> i < length X \<Longrightarrow> sub_slice (concat X) (i * k) k = Some (X ! i)"
proof -
  assume a: "rows k X" "i < length X"
  then have "Suc i * k \<le> length X * k" by (intro mult_le_mono1) simp
  then show ?thesis
    using a by (simp add: sub_slice_def length_concat_rows [OF a(1)] take_drop_concat [OF a] add.commute del: length_concat)
qed

lemma sub_slice_append: "at + k \<le> length xs \<Longrightarrow> sub_slice (xs @ ys) at k = sub_slice xs at k"
  by (simp add: sub_slice_def)

lemma sub_slice_ok: "at + k \<le> length xs \<Longrightarrow> \<exists>ys. sub_slice xs at k = Some ys \<and> length ys = k"
  by (simp add: sub_slice_def)

lemma chunks_concat:
  assumes "0 < k" and "rows k X"
  shows "chunks k (concat X) = X"
proof -
  have "k \<noteq> 0" using assms(1) by simp
  then have "(k - 1 + length X * k) div k = length X + (k - 1) div k" by (rule div_mult_self1)
  moreover have "(k - 1) div k = 0" using assms(1) by simp
  moreover have "length X * k + k - 1 = k - 1 + length X * k" using assms(1) by simp
  ultimately have n: "(length (concat X) + k - 1) div k = length X"
    unfolding length_concat_rows [OF assms(2)] by (simp only: add_0_right)
  show ?thesis unfolding chunks_def n
  proof (rule nth_equalityI)
    fix i assume "i < length (map (\<lambda>i. take k (drop (i * k) (concat X))) [0..<length X])"
    then have "i < length X" by simp
    then show "map (\<lambda>i. take k (drop (i * k) (concat X))) [0..<length X] ! i = X ! i"
      using take_drop_concat [OF assms(2)] by (simp only: nth_map nth_upt length_upt) simp
  qed simp
qed

lemma chunks_rows:
  assumes "0 < k" and "length xs = n * k"
  shows "rows k (chunks k xs)" and "concat (chunks k xs) = xs" and "length (chunks k xs) = n"
proof -
  have "\<exists>X. xs = concat X \<and> rows k X \<and> length X = n" using assms(2)
  proof (induction n arbitrary: xs)
    case (Suc n)
    then have "length (drop k xs) = n * k" by simp
    from Suc.IH [OF this] obtain X where X: "drop k xs = concat X" "rows k X" "length X = n" by blast
    have "xs = concat (take k xs # X)" using X(1) append_take_drop_id [of k xs] by simp
    moreover have "length (take k xs) = k" using Suc.prems by simp
    ultimately show ?case using X(2,3) by (intro exI [of _ "take k xs # X"]) auto
  qed simp
  then obtain X where X: "xs = concat X" "rows k X" "length X = n" by blast
  then have "chunks k xs = X" using chunks_concat [OF assms(1)] by simp
  then show "rows k (chunks k xs)" "concat (chunks k xs) = xs" "length (chunks k xs) = n" using X by simp_all
qed

lemma chunks_concat_rows:
  assumes "0 < k" and "rows (n * k) X"
  shows "chunks k (concat X) = concat (map (chunks k) X)"
proof -
  have c: "\<And>x. x \<in> set X \<Longrightarrow> concat (chunks k x) = x" "\<And>x. x \<in> set X \<Longrightarrow> rows k (chunks k x)"
    using chunks_rows [OF assms(1)] assms(2) by blast+
  have "concat X = concat (concat (map (chunks k) X))" using c(1) by (induction X) auto
  moreover have "rows k (concat (map (chunks k) X))" using c(2) by auto
  ultimately show ?thesis using chunks_concat [OF assms(1)] by metis
qed

lemma those_map_Some: "(\<And>x. x \<in> set xs \<Longrightarrow> f x = Some (g x)) \<Longrightarrow> those (map f xs) = Some (map g xs)"
  by (induction xs) simp_all

lemma those_mapE:
  assumes "\<And>x. x \<in> set xs \<Longrightarrow> \<exists>y. f x = Some y \<and> Q y"
  obtains ys where "those (map f xs) = Some ys" "length ys = length xs" "\<forall>y \<in> set ys. Q y"
proof -
  have "f x = Some (the (f x)) \<and> Q (the (f x))" if "x \<in> set xs" for x using assms [OF that] by auto
  then show thesis using that [of "map (\<lambda>x. the (f x)) xs"] those_map_Some [of xs f "\<lambda>x. the (f x)"] by auto
qed

lemma those_cong: "(\<And>x. x \<in> set xs \<Longrightarrow> f x = g x) \<Longrightarrow> those (map f xs) = those (map g xs)"
  by (metis map_cong)

subsection \<open>The stages, row by row\<close>

definition matvec :: "('f, 'd) arith \<Rightarrow> 'f list list \<Rightarrow> 'f list \<Rightarrow> 'f list" where
  "matvec ar R v = map (\<lambda>row. narrow ar (dot_f64 ar row v)) R"

lemma length_matvec [simp]: "length (matvec ar R v) = length R"
  by (simp add: matvec_def)

text \<open>The transposed intermediate: the product is taken token by token.\<close>

lemma matmul_rows:
  assumes "weight_rows ar w = Some R" and "length R = mw_out w" and "X \<noteq> []" and X: "rows (mw_in w) X"
  shows "matmul ar w (concat X) (length X) = Some (concat (map (matvec ar R) X))"
proof -
  let ?f = "\<lambda>row t. narrow ar (dot_f64 ar row (take (mw_in w) (drop (t * mw_in w) (concat X))))"
  let ?RT = "map (\<lambda>row. map (?f row) [0..<length X]) R"
  have "map (\<lambda>r. concat ?RT ! (r * length X + t)) [0..<mw_out w] = matvec ar R (X ! t)" if t: "t < length X" for t
  proof (rule nth_equalityI)
    fix r assume "r < length (map (\<lambda>r. concat ?RT ! (r * length X + t)) [0..<mw_out w])"
    then have r: "r < mw_out w" by simp
    then have "concat ?RT ! (r * length X + t) = ?RT ! r ! t"
      using assms(2) t by (intro nth_concat_rows) auto
    then show "map (\<lambda>r. concat ?RT ! (r * length X + t)) [0..<mw_out w] ! r = matvec ar R (X ! t) ! r"
      using r t assms(2) take_drop_concat [OF X t] by (simp add: matvec_def)
  qed (use assms(2) in simp)
  then have "map (\<lambda>t. map (\<lambda>r. concat ?RT ! (r * length X + t)) [0..<mw_out w]) [0..<length X] = map (matvec ar R) X"
    by (intro nth_equalityI) simp_all
  then show ?thesis
    using assms(1,3) by (simp add: matmul_def length_concat_rows [OF X] Let_def del: length_concat)
qed

lemma length_rmsnorm_one [simp]: "length (rmsnorm_one ar m w row) = length row"
  by (cases w) (simp_all add: rmsnorm_one_def Let_def)

lemma rmsnorm_rows_rows:
  assumes "norm_weight ar m name = Some W" and "length W = k" and "0 < k" and "rows k X"
  shows "rmsnorm_rows ar m (concat X) k name = Some (concat (map (rmsnorm_one ar m (Some W)) X))"
  using assms by (simp add: rmsnorm_rows_def chunks_concat)

lemma length_fold_update:
  "(\<And>i xs. length (f i xs) = length xs) \<Longrightarrow> length (fold f js xs) = length xs"
  by (induction js arbitrary: xs) simp_all

lemma length_apply_rope [simp]: "length (apply_rope ar c row) = length row"
  unfolding apply_rope_def Let_def by (rule length_fold_update) simp

lemma enumerate_blocks:
  assumes "0 < n" and "rows n B"
  shows "map (\<lambda>(i, c). (i div n, c)) (enumerate (s * n) (concat B)) =
    concat (map (\<lambda>(t, b). map (Pair t) b) (enumerate s B))"
  using assms(2)
proof (induction B arbitrary: s)
  case (Cons b B)
  have "map (\<lambda>(i, c). (i div n, c)) (enumerate (s * n) b) = map (Pair s) b"
    using Cons.prems assms(1)
    by (intro nth_equalityI) (auto simp: nth_enumerate_eq)
  moreover have "s * n + length b = Suc s * n" using Cons.prems by simp
  ultimately show ?case
    using Cons.IH [of "Suc s"] Cons.prems by (simp add: enumerate_append_eq add.commute)
qed simp

lemma head_rows_rows:
  assumes "0 < hdim" and "0 < nh" and "rows (nh * hdim) Q"
  shows "head_rows nh hdim (concat Q) = Some (concat (map (\<lambda>(t, q). map (Pair t) (chunks hdim q)) (enumerate 0 Q)))"
proof -
  have "rows nh (map (chunks hdim) Q)" using chunks_rows(3) [OF assms(1)] assms(3) by auto
  from enumerate_blocks [OF assms(2) this, of 0]
  have "map (\<lambda>(i, c). (i div nh, c)) (enumerate 0 (chunks hdim (concat Q))) =
      concat (map (\<lambda>(t, b). map (Pair t) b) (enumerate 0 (map (chunks hdim) Q)))"
    using chunks_concat_rows [OF assms(1,3)] by simp
  also have "enumerate 0 (map (chunks hdim) Q) = map (\<lambda>(t, q). (t, chunks hdim q)) (enumerate 0 Q)"
    by (intro nth_equalityI) (simp_all add: nth_enumerate_eq)
  finally show ?thesis using assms(1,2) by (simp add: head_rows_def comp_def split_def)
qed

text \<open>One token: its heads normed, or normed and rotated.\<close>

definition heads_norm :: "('f, 'd) arith \<Rightarrow> 'f cpu_model \<Rightarrow> nat \<Rightarrow> 'f list \<Rightarrow> 'f list" where
  "heads_norm ar m hdim q = concat (map (rmsnorm_one ar m None) (chunks hdim q))"

definition heads_rope :: "('f, 'd) arith \<Rightarrow> 'f cpu_model \<Rightarrow> nat \<Rightarrow> 'f list \<Rightarrow> 'f list \<Rightarrow> 'f list \<Rightarrow> 'f list" where
  "heads_rope ar m hdim W c q = concat (map (\<lambda>h. apply_rope ar c (rmsnorm_one ar m (Some W) h)) (chunks hdim q))"

lemma length_heads:
  assumes "0 < hdim" and "length q = n * hdim"
  shows "length (heads_norm ar m hdim q) = n * hdim" and "length (heads_rope ar m hdim W c q) = n * hdim"
proof -
  have l: "length (concat (map f (chunks hdim q))) = n * hdim" if "\<And>h. length (f h) = length h" for f :: "'a list \<Rightarrow> 'a list"
    using length_concat_rows [where k = hdim and X = "map f (chunks hdim q)"] chunks_rows [OF assms] that by auto
  show "length (heads_norm ar m hdim q) = n * hdim" "length (heads_rope ar m hdim W c q) = n * hdim"
    unfolding heads_norm_def heads_rope_def by (rule l, simp)+
qed

lemma map_enumerate: "map (\<lambda>(i, x). f (P ! i) x) (enumerate 0 X) = map2 f P X" if "length P = length X"
  using that by (intro nth_equalityI) (simp_all add: nth_enumerate_eq)

lemma norm_rope_rows:
  assumes "0 < hdim" and "0 < nh" and Q: "rows (nh * hdim) Q" and C: "rows (hdim div 2 * 2) C" "length C = length Q"
  shows "norm_rope ar m nh hdim W (concat C) (concat Q) = Some (concat (map2 (heads_rope ar m hdim W) C Q))"
proof -
  have heads: "concat (map (\<lambda>(t, h). f t h) (concat (map (\<lambda>(t, q). map (Pair t) (chunks hdim q)) (enumerate s Q)))) =
      concat (map (\<lambda>(t, q). concat (map (f t) (chunks hdim q))) (enumerate s Q))" for s and f :: "nat \<Rightarrow> 'a list \<Rightarrow> 'a list"
    by (induction Q arbitrary: s) (simp_all add: comp_def)
  let ?hs = "concat (map (\<lambda>(t, q). map (Pair t) (chunks hdim q)) (enumerate 0 Q))"
  let ?g = "\<lambda>(t, h). apply_rope ar (C ! t) (rmsnorm_one ar m (Some W) h)"
  have "those (map (\<lambda>(t, head). do { c \<leftarrow> sub_slice (concat C) (t * (hdim div 2) * 2) (hdim div 2 * 2);
      Some (apply_rope ar c (rmsnorm_one ar m (Some W) head)) }) ?hs) = Some (map ?g ?hs)"
  proof (rule those_map_Some)
    fix x assume "x \<in> set ?hs"
    then have "fst x < length C" using C(2) by (auto simp: enumerate_eq_zip in_set_zip)
    then show "(case x of (t, head) \<Rightarrow> do { c \<leftarrow> sub_slice (concat C) (t * (hdim div 2) * 2) (hdim div 2 * 2);
        Some (apply_rope ar c (rmsnorm_one ar m (Some W) head)) }) = Some (?g x)"
      using sub_slice_concat [OF C(1), of "fst x"] by (simp add: case_prod_beta mult.assoc)
  qed
  moreover have "concat (map ?g ?hs) = concat (map (\<lambda>(t, q). heads_rope ar m hdim W (C ! t) q) (enumerate 0 Q))"
    unfolding heads_rope_def by (rule heads)
  ultimately show ?thesis
    using head_rows_rows [OF assms(1-3)] map_enumerate [OF C(2), of "heads_rope ar m hdim W"]
    by (simp add: norm_rope_def)
qed

lemma v_norm_rows:
  assumes "0 < hdim" and "0 < nh" and "rows (nh * hdim) Q"
  shows "map_option (\<lambda>heads. concat (map (\<lambda>(t, head). rmsnorm_one ar m None head) heads)) (head_rows nh hdim (concat Q)) =
    Some (concat (map (heads_norm ar m hdim) Q))"
proof -
  have "concat (map (\<lambda>(t, head). rmsnorm_one ar m None head)
      (concat (map (\<lambda>(t, q). map (Pair t) (chunks hdim q)) (enumerate s Q)))) = concat (map (heads_norm ar m hdim) Q)" for s
    by (induction Q arbitrary: s) (simp_all add: heads_norm_def comp_def)
  then show ?thesis using head_rows_rows [OF assms] by simp
qed

text \<open>Attention of one token at position \<open>p\<close>: it reads the cache up to its own position only.\<close>

lemma head_bound:
  assumes "(kp :: nat) \<le> p" and "kvh < n_kv"
  shows "(kp * n_kv + kvh) * hdim + hdim \<le> (p + 1) * (n_kv * hdim)"
proof -
  have "(kp * n_kv + kvh) * hdim + hdim = (kp * n_kv + kvh + 1) * hdim" by (simp only: distrib_right mult_1)
  also have "kp * n_kv + kvh + 1 \<le> (p + 1) * n_kv"
    using assms(2) mult_le_mono1 [OF assms(1), of n_kv] unfolding distrib_right mult_1 by linarith
  then have "(kp * n_kv + kvh + 1) * hdim \<le> (p + 1) * n_kv * hdim" by (rule mult_le_mono1)
  finally show ?thesis by (simp only: mult.assoc)
qed

lemma length_accumulate:
  assumes "list_all (\<lambda>x. length (snd x) = n) xs" and "length acc = n"
  shows "length (foldl (\<lambda>acc (e, vr). map (\<lambda>(a, v). g a e v) (zip acc vr)) acc xs) = n"
  using assms by (induction xs arbitrary: acc) (auto split: prod.split)

lemma attend_ok:
  assumes "(p + 1) * (n_kv * hdim) \<le> length ck" "(p + 1) * (n_kv * hdim) \<le> length cv" and "kvh < n_kv"
  shows "\<exists>r. attend ar qr ck cv p kvh n_kv hdim window scale = Some r \<and> length r = hdim"
proof -
  let ?ks = "[(case window of None \<Rightarrow> 0 | Some w \<Rightarrow> p + 1 - w)..<p + 1]"
  have b: "(kp * n_kv + kvh) * hdim + hdim \<le> (p + 1) * (n_kv * hdim)" if "kp \<in> set ?ks" for kp
    using that assms(3) by (intro head_bound) auto
  have k: "\<exists>y. sub_slice ck ((kp * n_kv + kvh) * hdim) hdim = Some y \<and> length y = hdim" if "kp \<in> set ?ks" for kp
    by (rule sub_slice_ok [OF le_trans [OF b [OF that] assms(1)]])
  have v: "\<exists>y. sub_slice cv ((kp * n_kv + kvh) * hdim) hdim = Some y \<and> length y = hdim" if "kp \<in> set ?ks" for kp
    by (rule sub_slice_ok [OF le_trans [OF b [OF that] assms(2)]])
  from those_mapE [OF k] obtain krs where krs: "those (map (\<lambda>kp. sub_slice ck ((kp * n_kv + kvh) * hdim) hdim) ?ks) = Some krs" .
  from those_mapE [OF v] obtain vrs where vrs: "those (map (\<lambda>kp. sub_slice cv ((kp * n_kv + kvh) * hdim) hdim) ?ks) = Some vrs"
    "\<forall>y \<in> set vrs. length y = hdim" .
  obtain es sum where es: "softmax ar (map (\<lambda>kr. d_mul ar (dot_f64 ar qr kr) (widen ar scale)) krs) = (es, sum)" by fastforce
  have "list_all (\<lambda>x. length (snd x) = hdim) (zip es vrs)"
    using vrs(2) by (auto simp: list_all_iff dest: set_zip_rightD)
  then show ?thesis
    using krs vrs(1) es by (simp add: attend_def Let_def length_accumulate)
qed

lemma attend_prefix:
  assumes "(p + 1) * (n_kv * hdim) \<le> length ck" "(p + 1) * (n_kv * hdim) \<le> length cv" and "kvh < n_kv"
  shows "attend ar qr (ck @ ek) (cv @ ev) p kvh n_kv hdim window scale = attend ar qr ck cv p kvh n_kv hdim window scale"
proof -
  have "those (map (\<lambda>kp. sub_slice (xs @ ys) ((kp * n_kv + kvh) * hdim) hdim) [lo..<p + 1]) =
      those (map (\<lambda>kp. sub_slice xs ((kp * n_kv + kvh) * hdim) hdim) [lo..<p + 1])"
    if "(p + 1) * (n_kv * hdim) \<le> length xs" for xs ys :: "'a list" and lo
    using that assms(3) by (intro those_cong sub_slice_append le_trans [OF head_bound that]) auto
  then show ?thesis using assms(1,2) by (simp add: attend_def Let_def)
qed

definition tok_attn :: "('f, 'd) arith \<Rightarrow> nat \<Rightarrow> nat \<Rightarrow> nat \<Rightarrow> nat option \<Rightarrow> 'f \<Rightarrow> 'f list \<Rightarrow> 'f list \<Rightarrow> nat \<Rightarrow> 'f list \<Rightarrow> 'f list" where
  "tok_attn ar nq n_kv hdim window scale ck cv p q =
     concat (map (\<lambda>h. the (attend ar (take hdim (drop (h * hdim) q)) ck cv p (h div (nq div n_kv)) n_kv hdim window scale)) [0..<nq])"

lemma concat_concat: "concat (concat X) = concat (map concat X)"
  by (induction X) simp_all

lemma upt_blocks: "[0..<n * k] = concat (map (\<lambda>t. map (\<lambda>h. t * k + h) [0..<k]) [0..<n])"
proof (induction n)
  case (Suc n)
  have "[0..<Suc n * k] = [0..<n * k + k]" by (simp add: add.commute)
  also have "\<dots> = [0..<n * k] @ [n * k..<n * k + k]" by (rule upt_add_eq_append) simp
  also have "[n * k..<n * k + k] = map (\<lambda>h. n * k + h) [0..<k]"
    by (rule nth_equalityI) simp_all
  finally show ?case unfolding Suc.IH by simp
qed simp

lemma kv_head:
  assumes "(h :: nat) < nq" and "n_kv dvd nq"
  shows "h div (nq div n_kv) < n_kv"
proof -
  obtain q where q: "nq = n_kv * q" using assms(2) by blast
  then have "0 < n_kv" using assms(1) by (cases n_kv) simp_all
  then have "nq div n_kv = q" using q by simp
  then show ?thesis using assms(1) q by (simp add: less_mult_imp_div_less)
qed

lemma tok_attn_prefix:
  assumes "(p + 1) * (n_kv * hdim) \<le> length ck" "(p + 1) * (n_kv * hdim) \<le> length cv" and "n_kv dvd nq"
  shows "tok_attn ar nq n_kv hdim window scale (ck @ ek) (cv @ ev) p q = tok_attn ar nq n_kv hdim window scale ck cv p q"
proof -
  have "attend ar qr (ck @ ek) (cv @ ev) p (h div (nq div n_kv)) n_kv hdim window scale =
      attend ar qr ck cv p (h div (nq div n_kv)) n_kv hdim window scale" if "h < nq" for h qr
    by (rule attend_prefix [OF assms(1,2) kv_head [OF that assms(3)]])
  then show ?thesis
    unfolding tok_attn_def by (intro arg_cong [where f = concat] map_cong refl arg_cong [where f = the]) simp
qed

lemma length_tok_attn:
  assumes "(p + 1) * (n_kv * hdim) \<le> length ck" "(p + 1) * (n_kv * hdim) \<le> length cv" and "n_kv dvd nq"
  shows "length (tok_attn ar nq n_kv hdim window scale ck cv p q) = nq * hdim"
proof -
  have "length (the (attend ar qr ck cv p (h div (nq div n_kv)) n_kv hdim window scale)) = hdim" if "h < nq" for h qr
    using attend_ok [OF assms(1,2) kv_head [OF that assms(3)], of ar qr window scale] by auto
  then show ?thesis
    unfolding tok_attn_def by (subst length_concat_rows [where k = hdim]) auto
qed

lemma attention_rows:
  assumes Q: "rows (nq * hdim) Q" and d: "0 < hdim" "n_kv dvd nq" "0 < nq"
    and c: "(q0 + length Q) * (n_kv * hdim) \<le> length ck" "(q0 + length Q) * (n_kv * hdim) \<le> length cv"
  shows "attention ar (concat Q) ck cv (length Q) q0 nq n_kv hdim window scale =
    Some (concat (map2 (tok_attn ar nq n_kv hdim window scale ck cv) [q0..<q0 + length Q] Q))"
proof -
  let ?at = "\<lambda>t h. attend ar (take hdim (drop (h * hdim) (Q ! t))) ck cv (q0 + t) (h div (nq div n_kv)) n_kv hdim window scale"
  have kv: "0 < n_kv" using d by (auto intro!: gr0I)
  then have qpk: "nq div n_kv \<noteq> 0" using d by (auto simp: div_eq_0_iff dest: dvd_imp_le)
  have step: "(let t = i div nq; h = i mod nq in if nq div n_kv = 0 then None
      else do { qr \<leftarrow> sub_slice (concat Q) ((t * nq + h) * hdim) hdim;
        attend ar qr ck cv (q0 + t) (h div (nq div n_kv)) n_kv hdim window scale }) = Some (the (?at (i div nq) (i mod nq)))"
    if i: "i \<in> set [0..<length Q * nq]" for i
  proof -
    have t: "i div nq < length Q" "i mod nq < nq" using i d(3) by (auto simp: less_mult_imp_div_less)
    have "Suc (i div nq) \<le> length Q" using t(1) by simp
    then have "(q0 + i div nq + 1) * (n_kv * hdim) \<le> (q0 + length Q) * (n_kv * hdim)" by (intro mult_le_mono1) simp
    then have "?at (i div nq) (i mod nq) \<noteq> None"
      using attend_ok [OF le_trans [OF _ c(1)] le_trans [OF _ c(2)] kv_head [OF t(2) d(2)]] by (metis option.simps(3))
    moreover have l: "\<And>q. q \<in> set Q \<Longrightarrow> length (chunks hdim q) = nq"
      and cc: "\<And>q. q \<in> set Q \<Longrightarrow> concat (chunks hdim q) = q" and ck: "\<And>q. q \<in> set Q \<Longrightarrow> rows hdim (chunks hdim q)"
      using chunks_rows [OF d(1)] Q by blast+
    then have rB: "rows hdim (concat (map (chunks hdim) Q))" by auto
    have "sub_slice (concat Q) (i * hdim) hdim = Some (take hdim (drop (i mod nq * hdim) (Q ! (i div nq))))"
    proof -
      let ?B = "map (chunks hdim) Q"
      have i': "i < length (concat ?B)"
        using i l by (subst length_concat_rows [where k = nq]) auto
      have "concat Q = concat (concat ?B)" using cc by (induction Q) auto
      moreover have "rows hdim (chunks hdim (Q ! (i div nq)))" using ck t(1) nth_mem by blast
      then have "concat ?B ! i = take hdim (drop (i mod nq * hdim) (Q ! (i div nq)))"
        using nth_concat_rows [where k = nq and X = ?B and i = "i div nq" and j = "i mod nq"] t l ck cc
          take_drop_concat [of "chunks hdim (Q ! (i div nq))" hdim "i mod nq"] by simp
      ultimately show ?thesis
        using sub_slice_concat [OF rB i'] by simp
    qed
    ultimately show ?thesis using qpk by (simp add: Let_def)
  qed
  have "concat (map (\<lambda>i. the (?at (i div nq) (i mod nq))) [0..<length Q * nq]) =
      concat (map (\<lambda>t. concat (map (\<lambda>h. the (?at t h)) [0..<nq])) [0..<length Q])"
    unfolding upt_blocks map_concat concat_concat map_map comp_def
    by (intro arg_cong [where f = concat] map_cong refl) simp_all
  also have "\<dots> = concat (map2 (tok_attn ar nq n_kv hdim window scale ck cv) [q0..<q0 + length Q] Q)"
    by (intro arg_cong [where f = concat] nth_equalityI) (simp_all add: tok_attn_def)
  finally have "concat (map (\<lambda>i. the (?at (i div nq) (i mod nq))) [0..<length Q * nq]) =
      concat (map2 (tok_attn ar nq n_kv hdim window scale ck cv) [q0..<q0 + length Q] Q)" .
  moreover have "those (map (\<lambda>i. let t = i div nq; h = i mod nq in if nq div n_kv = 0 then None
      else do { qr \<leftarrow> sub_slice (concat Q) ((t * nq + h) * hdim) hdim;
        attend ar qr ck cv (q0 + t) (h div (nq div n_kv)) n_kv hdim window scale }) [0..<length Q * nq]) =
      Some (map (\<lambda>i. the (?at (i div nq) (i mod nq))) [0..<length Q * nq])"
    by (rule those_map_Some) (rule step)
  ultimately show ?thesis
    using kv d(1) by (simp only: attention_def Let_def) simp
qed

end
