(* ===== verification/Desc_Props.thy ===== *)
theory Desc_Props
  imports Model_Desc
begin

text \<open>
  What a passed validation (\<open>crates/sg-gguf/src/desc.rs\<close>) means, for the description alone and
  together with the parser: every tensor the model needs is in the file with the shape, type and
  number of bytes the rest of the program counts on. A file that passes is constructed.
\<close>

subsection \<open>Names\<close>

definition dec_val :: "string \<Rightarrow> nat" where
  "dec_val = foldl (\<lambda>a c. a * 10 + (of_char c - 48)) 0"

lemma dec_val_decimal: "dec_val (decimal n) = n"
proof (induction n rule: decimal.induct)
  case (1 n)
  show ?case
  proof (cases "n < 10")
    case True
    then show ?thesis by (simp add: decimal.simps [of n] dec_val_def)
  next
    case False
    have "(of_char (char_of (48 + n mod 10) :: char) :: nat) = 48 + n mod 10" by simp
    then have "dec_val (decimal n) = dec_val (decimal (n div 10)) * 10 + n mod 10"
      using False by (simp add: decimal.simps [of n] dec_val_def)
    then show ?thesis using 1 [OF False] by simp
  qed
qed

lemma decimal_digits: "set (decimal n) \<subseteq> char_of ` {48..57::nat}"
proof (induction n rule: decimal.induct)
  case (1 n)
  show ?case
  proof (cases "n < 10")
    case False
    have "48 + n mod 10 \<in> {48..57}" by simp
    then show ?thesis using 1 [OF False] False by (auto simp: decimal.simps [of n])
  qed (auto simp: decimal.simps [of n])
qed

lemma dot_not_digit: "CHR ''.'' \<notin> set (decimal n)"
proof
  assume "CHR ''.'' \<in> set (decimal n)"
  then obtain k :: nat where k: "k \<in> {48..57}" "CHR ''.'' = char_of k" using decimal_digits by blast
  then have "(of_char CHR ''.'' :: nat) = of_char (char_of k :: char)" by simp
  then show False using k(1) by simp
qed

lemma split_at_first: "x \<notin> set a \<Longrightarrow> x \<notin> set b \<Longrightarrow> a @ x # c = b @ x # d \<Longrightarrow> a = b \<and> c = d"
proof (induction a arbitrary: b)
  case (Cons y a)
  then show ?case by (cases b) auto
qed (auto simp: Cons_eq_append_conv)

lemma blk_name_inj: "blk_name i s = blk_name j t \<longleftrightarrow> i = j \<and> s = t"
proof
  assume "blk_name i s = blk_name j t"
  then have "decimal i @ CHR ''.'' # s @ ''.weight'' = decimal j @ CHR ''.'' # t @ ''.weight''"
    by (simp add: blk_name_def)
  then have "decimal i = decimal j" "s @ ''.weight'' = t @ ''.weight''"
    using split_at_first [OF dot_not_digit dot_not_digit] by blast+
  then show "i = j \<and> s = t" using dec_val_decimal by (metis append_same_eq)
qed simp

lemma blk_name_shape: "blk_name i s \<noteq> ''token_embd.weight''" "blk_name i s \<noteq> ''output_norm.weight''"
  "blk_name i s \<noteq> ''rope_freqs.weight''"
  by (simp_all add: blk_name_def)

lemma layer_names: "x \<in> set (layer_tensors i) \<Longrightarrow> \<exists>s. fst x = blk_name i s"
  by (auto simp: layer_tensors_def Let_def split: if_splits)

lemma distinct_layer: "distinct (map fst (layer_tensors i))"
  by (simp add: layer_tensors_def Let_def blk_name_inj)

lemma distinct_expected: "distinct (map fst expected_tensors)"
proof -
  have "distinct (map fst (concat (map layer_tensors is)))" if "distinct is" for "is" :: "nat list"
    using that
  proof (induction "is")
    case (Cons i "is")
    have "fst ` set (layer_tensors i) \<inter> fst ` set (concat (map layer_tensors is)) = {}"
    proof -
      have "fst x \<noteq> fst y" if "x \<in> set (layer_tensors i)" "j \<in> set is" "y \<in> set (layer_tensors j)" for x y j
        using layer_names [OF that(1)] layer_names [OF that(3)] Cons.prems that(2) by (auto simp: blk_name_inj)
      then show ?thesis by fastforce
    qed
    then show ?case using Cons distinct_layer [of i] by auto
  qed simp
  moreover have "fst x \<noteq> ''token_embd.weight'' \<and> fst x \<noteq> ''output_norm.weight'' \<and> fst x \<noteq> ''rope_freqs.weight''"
    if "x \<in> set (concat (map layer_tensors is))" for x "is"
  proof -
    have "\<exists>i s. fst x = blk_name i s" using that layer_names by fastforce
    then show ?thesis using blk_name_shape by metis
  qed
  then have "f \<noteq> ''token_embd.weight'' \<and> f \<noteq> ''output_norm.weight'' \<and> f \<noteq> ''rope_freqs.weight''"
    if "f \<in> fst ` set (concat (map layer_tensors [0..<x_n_layers]))" for f
    using that unfolding image_iff by metis
  ultimately show ?thesis
    unfolding expected_tensors_def map_append distinct_append by (auto simp del: set_concat)
qed

subsection \<open>When validation passes\<close>

definition meta_agrees :: "metadata \<Rightarrow> bool" where
  "meta_agrees m \<longleftrightarrow>
     get_str m ''general.architecture'' = Inr (Some x_architecture) \<and>
     (\<forall>(key, c) \<in> set uint_expect. \<exists>v. get_uint m key = Inr (Some v) \<and> unat v = c) \<and>
     (\<forall>(key, c) \<in> set f32_expect. get_f32 m key = Inr (Some c)) \<and>
     (\<exists>counts. require_i32_array m kv_key = Inr counts \<and> length counts = x_n_layers \<and>
       (\<forall>i < x_n_layers. sint (counts ! i) = int (kv_heads_of (layer_kind i)))) \<and>
     (\<exists>pat. require_bool_array m pattern_key = Inr pat \<and> length pat = x_n_layers \<and>
       (\<forall>i < x_n_layers. pat ! i = (layer_kind i = Sliding)))"

definition table_agrees :: "tensor_info list \<Rightarrow> bool" where
  "table_agrees ts \<longleftrightarrow>
     (\<forall>(name, ds, ty) \<in> set expected_tensors. \<exists>t. actual_of ts name = Some t \<and> map unat (dims t) = ds \<and> dtype t = ty) \<and>
     (\<forall>t \<in> set ts. tname t \<in> fst ` set expected_tensors)"

lemma check_key_none: "check_key r key good bad = [] \<longleftrightarrow> (\<exists>v. r = Inr (Some v) \<and> good v)"
  by (auto simp: check_key_def split: sum.splits option.splits)

lemma concat_enumerate_none:
  "concat (map (\<lambda>(i, x). if P i x then [f i x] else []) (enumerate n xs)) = [] \<longleftrightarrow>
     (\<forall>i < length xs. \<not> P (n + i) (xs ! i))"
proof (induction xs arbitrary: n)
  case (Cons x xs)
  have "(\<forall>i < length (x # xs). \<not> P (n + i) ((x # xs) ! i)) \<longleftrightarrow> \<not> P n x \<and> (\<forall>i < length xs. \<not> P (Suc n + i) (xs ! i))"
    by (auto simp: All_less_Suc2 less_Suc_eq_0_disj)
  then show ?case using Cons [of "Suc n"] by simp
qed simp

lemma check_metadata_none: "check_metadata m = [] \<longleftrightarrow>
    get_str m ''general.architecture'' = Inr (Some x_architecture) \<and>
    (\<forall>(key, c) \<in> set uint_expect. \<exists>v. get_uint m key = Inr (Some v) \<and> unat v = c) \<and>
    (\<forall>(key, c) \<in> set f32_expect. get_f32 m key = Inr (Some c))"
  by (auto simp: check_metadata_def str_key_def uint_key_def f32_key_def check_key_none)

lemma check_layers_none: "check_per_layer_metadata m = [] \<longleftrightarrow>
    (\<exists>counts. require_i32_array m kv_key = Inr counts \<and> length counts = x_n_layers \<and>
       (\<forall>i < x_n_layers. sint (counts ! i) = int (kv_heads_of (layer_kind i)))) \<and>
    (\<exists>pat. require_bool_array m pattern_key = Inr pat \<and> length pat = x_n_layers \<and>
       (\<forall>i < x_n_layers. pat ! i = (layer_kind i = Sliding)))"
  unfolding check_per_layer_metadata_def Let_def
  by (simp only: append_is_Nil_conv concat_enumerate_none add_0 split: sum.split) auto

lemma check_tensors_none: "check_tensors ts = [] \<longleftrightarrow> table_agrees ts"
proof -
  have "check_expected ts (name, ds, ty) = [] \<longleftrightarrow>
      (\<exists>t. actual_of ts name = Some t \<and> map unat (dims t) = ds \<and> dtype t = ty)" for name ds ty
    by (auto simp: check_expected_def split: option.splits)
  then show ?thesis by (auto simp: check_tensors_def table_agrees_def)
qed

text \<open>
  C39: Validation accepts exactly the files that agree with the configuration in every checked
  respect: every scalar key has the expected value, both per-layer arrays have sixty entries that
  follow the five-to-one pattern, every expected tensor is there with its shape and type, and
  there is no other tensor. The description it returns is then the expected one.
\<close>

theorem validate_iff:
  "validate m ts = Inr d \<longleftrightarrow> d = the_model \<and> meta_agrees m \<and> table_agrees ts"
proof -
  have "validate m ts = Inr d \<longleftrightarrow> d = the_model \<and> check_metadata m = [] \<and> check_per_layer_metadata m = [] \<and>
      check_tensors ts = []"
    by (auto simp: validate_def Let_def)
  then show ?thesis
    unfolding check_metadata_none check_layers_none check_tensors_none meta_agrees_def conj_assoc .
qed

lemma map_of_rev_distinct: "distinct (map fst xs) \<Longrightarrow> map_of (rev xs) = map_of xs"
proof (induction xs)
  case (Cons x xs)
  then have "map_of xs (fst x) = None" by (auto simp: map_of_eq_None_iff)
  then show ?case using Cons by (auto simp: fun_eq_iff map_add_def split: option.split)
qed simp

lemma actual_of_distinct: "distinct (map tname ts) \<Longrightarrow> actual_of ts name = find (\<lambda>t. tname t = name) ts"
proof -
  assume d: "distinct (map tname ts)"
  then have "map_of (rev (map (\<lambda>t. (tname t, t)) ts)) = map_of (map (\<lambda>t. (tname t, t)) ts)"
    by (intro map_of_rev_distinct) (simp add: comp_def)
  moreover have "map_of (map (\<lambda>t. (tname t, t)) ts) name = find (\<lambda>t. tname t = name) ts"
    by (induction ts) auto
  ultimately show ?thesis by (simp add: actual_of_def)
qed

text \<open>The bytes a tensor of this shape and type occupies.\<close>

definition tensor_size :: "nat list \<Rightarrow> ggml_type \<Rightarrow> nat" where
  "tensor_size ds ty = prod_list ds div unat (block_elems ty) * unat (block_bytes ty)"

lemma parsed_names:
  assumes "parse bytes = Inr g"
  shows "distinct (map tname (tensors g))" and "tensor g name = find (\<lambda>t. tname t = name) (tensors g)"
  using index_of_keys_lookup [OF parse_ok(4) [OF assms], of name] parse_ok(4) [OF assms]
  by (simp_all add: tensor_def index_of_keys_def)

lemma expected_in_file:
  assumes p: "parse bytes = Inr g" and v: "from_gguf g = Inr d" and e: "(name, ds, ty) \<in> set expected_tensors"
  obtains t bs where "tensor g name = Some t" "dtype t = ty" "map unat (dims t) = ds"
    "data_of g t = Some bs" "length bs = tensor_size ds ty" "t \<in> set (tensors g)"
proof -
  have "table_agrees (tensors g)" using v by (simp add: from_gguf_def validate_iff)
  then obtain t where t: "actual_of (tensors g) name = Some t" "map unat (dims t) = ds" "dtype t = ty"
    using e by (auto simp: table_agrees_def)
  have f: "find (\<lambda>t. tname t = name) (tensors g) = Some t"
    using t(1) actual_of_distinct [OF parsed_names(1) [OF p]] by simp
  then have set: "t \<in> set (tensors g)" by (auto simp: find_Some_iff)
  have "tensor g name = Some t"
    using f parsed_names(2) [OF p] by simp
  moreover have r: "unat (toffset t) + unat (tbyte_len t) \<le> length (data g)"
    using parse_tensor_range(2) [OF p set] parse_ok(6,7) [OF p] by simp
  then have "data_of g t = Some (take (unat (tbyte_len t)) (drop (unat (toffset t)) (data g)))"
    by (simp add: data_of_def)
  moreover have "length (take (unat (tbyte_len t)) (drop (unat (toffset t)) (data g))) = tensor_size ds ty"
    using r parse_ok(5) [OF p] set t(2,3) by (auto simp: info_ok_def byte_len_Some tensor_size_def)
  ultimately show thesis using that t set by blast
qed


text \<open>
  C12: In a file that parses and passes validation, every tensor of the expected list can be viewed:
  it is found by name with the expected shape and type, its view does not panic, and it has exactly
  the bytes its shape and type call for. No later slice of a weight can be out of bounds.
\<close>

theorem validated_tensor_view:
  assumes "parse bytes = Inr g" and "from_gguf g = Inr d" and "(name, ds, ty) \<in> set expected_tensors"
  shows "\<exists>t bs. tensor g name = Some t \<and> dtype t = ty \<and> map unat (dims t) = ds \<and>
    data_of g t = Some bs \<and> length bs = tensor_size ds ty"
  using expected_in_file [OF assms] by metis

subsection \<open>A file that passes\<close>

definition model_kvs :: "(string \<times> meta_value) list" where
  "model_kvs =
     (''general.architecture'', MString x_architecture) #
     map (\<lambda>(k, c). (k, MU32 (word_of_nat c))) uint_expect @
     map (\<lambda>(k, c). (k, MF32 c)) f32_expect @
     [(kv_key, MArray (ArrI32 (map (\<lambda>i. word_of_nat (kv_heads_of (layer_kind i))) [0..<x_n_layers]))),
      (pattern_key, MArray (ArrBool (map (\<lambda>i. layer_kind i = Sliding) [0..<x_n_layers])))]"

definition model_info :: "string \<times> nat list \<times> ggml_type \<Rightarrow> tensor_info" where
  "model_info = (\<lambda>(name, ds, ty).
     \<lparr>tname = name, dims = map word_of_nat ds, dtype = ty, toffset = 0, tbyte_len = word_of_nat (tensor_size ds ty)\<rparr>)"

text \<open>All tensors share their bytes, which start with rotary factors as the reference model wants them.\<close>

definition model_factors :: "u32 list" where
  "model_factors = replicate 64 0x3F800000 @ replicate 192 0x7149F2CA"

definition model_data :: "u8 list" where
  "model_data = put_words 4 model_factors @ replicate 1156054016 0"

lemma length_model_data: "length model_data = 1156055040"
  by (simp add: model_data_def length_put_words model_factors_def)

definition model_file :: "u8 list" where
  "model_file = put_gguf model_kvs (map model_info expected_tensors) 32 model_data"

text \<open>Shapes and types of the expected tensors, without the names.\<close>

definition shapes :: "(nat list \<times> ggml_type) list" where
  "shapes = [([x_hidden, x_vocab], Q6_K), ([x_hidden], F32), ([256], F32), ([x_hidden, 8192], Q4_0), ([x_hidden, 16384], Q4_0),
     ([x_hidden, 4096], Q4_0), ([x_hidden, 2048], Q4_0), ([8192, x_hidden], Q4_0), ([16384, x_hidden], Q4_0), ([512], F32),
     ([x_hidden, x_ffn], Q4_0), ([x_ffn, x_hidden], Q4_0), ([1], F32)]"

lemma layer_shapes: "list_all (\<lambda>x. snd x \<in> set shapes) (layer_tensors i)"
  by (cases "layer_kind i")
    (simp_all add: layer_tensors_def Let_def shapes_def kv_heads_of_def head_dim_of_def expect_defs)

lemma expected_shape: "x \<in> set expected_tensors \<Longrightarrow> snd x \<in> set shapes"
proof -
  have "list_all (\<lambda>x. snd x \<in> set shapes) expected_tensors"
    unfolding expected_tensors_def list_all_append
    using layer_shapes by (auto simp: list_all_iff shapes_def expect_defs)
  then show "x \<in> set expected_tensors \<Longrightarrow> snd x \<in> set shapes" by (simp add: list_all_iff)
qed

definition shape_good :: "nat list \<times> ggml_type \<Rightarrow> bool" where
  "shape_good = (\<lambda>(ds, ty). length ds \<le> 4 \<and> tensor_size ds ty \<le> 1156055040 \<and>
     map unat (map (word_of_nat :: nat \<Rightarrow> u64) ds) = ds \<and>
     try_product 1 (map word_of_nat ds) = Some (fold (\<lambda>d acc. acc * d) (map word_of_nat ds) 1) \<and>
     byte_len ty (fold (\<lambda>d acc. acc * d) (map word_of_nat ds) 1) = Some (word_of_nat (tensor_size ds ty)))"

lemma shapes_good: "list_all shape_good shapes"
  unfolding shapes_def list.pred_inject expect_defs
  by (intro conjI; simp add: shape_good_def tensor_size_def byte_len_def is_multiple_of_def checked_mul_def)

lemma digit_ascii: "b \<in> set (bytes_of_str (decimal n)) \<Longrightarrow> b < 0x80"
  using decimal_digits [of n] by (auto simp: byte_of_char_def word_less_nat_alt unat_of_nat)

lemma length_decimal: "length (decimal n) \<le> Suc n"
proof (induction n rule: decimal.induct)
  case (1 n)
  then show ?case by (cases "n < 10") (auto simp: decimal.simps [of n])
qed

lemma ascii_valid: "list_all (\<lambda>c. of_char c < (128::nat)) s \<Longrightarrow> utf8_valid (bytes_of_str s)"
  by (intro utf8_valid_ascii) (auto simp: list_all_iff byte_of_char_def word_less_nat_alt unat_of_nat)

lemma blk_ascii:
  assumes "list_all (\<lambda>c. of_char c < (128::nat)) sfx"
  shows "utf8_valid (bytes_of_str (blk_name i sfx))"
proof (rule ascii_valid)
  have "list_all (\<lambda>c. of_char c < (128::nat)) (decimal i)"
    using decimal_digits [of i] by (auto simp: list_all_iff)
  then show "list_all (\<lambda>c. of_char c < (128::nat)) (blk_name i sfx)"
    using assms by (simp add: blk_name_def)
qed

definition name_good :: "string \<Rightarrow> bool" where
  "name_good n \<longleftrightarrow> utf8_valid (bytes_of_str n) \<and> length n < 100"

lemma layer_name_good: "i < 60 \<Longrightarrow> list_all (\<lambda>x. name_good (fst x)) (layer_tensors i)"
proof -
  assume i: "i < 60"
  have "name_good (blk_name i s)" if "list_all (\<lambda>c. of_char c < (128::nat)) s" "length s < 20" for s
    using blk_ascii [OF that(1)] length_decimal [of i] that(2) i by (simp add: name_good_def blk_name_def)
  then show ?thesis by (simp add: layer_tensors_def Let_def)
qed

lemma expected_name: "x \<in> set expected_tensors \<Longrightarrow> name_good (fst x)"
proof -
  have "name_good ''token_embd.weight'' \<and> name_good ''output_norm.weight'' \<and> name_good ''rope_freqs.weight''"
    by (simp add: name_good_def ascii_valid del: list.map)
  then show "x \<in> set expected_tensors \<Longrightarrow> name_good (fst x)"
    using layer_name_good by (auto simp: expected_tensors_def list_all_iff x_n_layers_def)
qed

lemma model_entry:
  assumes "x \<in> set expected_tensors"
  shows "entry_ok (model_info x) \<and> range_ok 32 (length model_data) (model_info x)"
proof -
  obtain n ds ty where x: "x = (n, ds, ty)" by (cases x)
  have "shape_good (ds, ty)" using expected_shape [OF assms] shapes_good x by (auto simp: list_all_iff)
  moreover have "name_good n" using expected_name [OF assms] x by simp
  ultimately show ?thesis
    by (simp add: x entry_ok_def model_info_def shape_good_def name_good_def str_ok_def elem_count_def range_ok_def
        length_model_data unat_of_nat_u64)
qed

lemma length_concat_le: "(\<And>x. x \<in> set xs \<Longrightarrow> length (f x) \<le> c) \<Longrightarrow> length (concat (map f xs)) \<le> length xs * c"
  by (induction xs) (auto simp: add_mono)

lemma length_expected: "length expected_tensors \<le> 1000"
proof -
  have "length (layer_tensors i) \<le> 14" for i by (simp add: layer_tensors_def Let_def)
  then have "length (concat (map layer_tensors [0..<60])) \<le> 60 * 14"
    using length_concat_le [of "[0..<60]" layer_tensors 14] by simp
  then show ?thesis by (simp add: expected_tensors_def x_n_layers_def)
qed

lemma length_model_info: "x \<in> set expected_tensors \<Longrightarrow> length (put_info (model_info x)) \<le> 200"
  using expected_name [of x] expected_shape [of x] shapes_good
  by (auto simp: put_info_def put_string_def put_u32_def put_u64_def put_word_def model_info_def name_good_def
      list_all_iff shape_good_def length_concat comp_def sum_list_triv case_prod_beta)


lemma model_keys: "distinct (map fst model_kvs)"
  by (simp add: model_kvs_def uint_expect_def f32_expect_def kv_key_def pattern_key_def)

lemma model_kvs_ok: "list_all (\<lambda>(k, v). str_ok k \<and> value_ok v) model_kvs"
proof -
  have a: "utf8_valid (bytes_of_str s) \<and> length s < 100"
    if "s \<in> set (x_architecture # map fst model_kvs)" for s
  proof -
    have "list_all (\<lambda>s. list_all (\<lambda>c. of_char c < (128::nat)) s \<and> length s < 100) (x_architecture # map fst model_kvs)"
      by (simp add: model_kvs_def uint_expect_def f32_expect_def kv_key_def pattern_key_def x_architecture_def)
    then show ?thesis using that ascii_valid unfolding list_all_iff by blast
  qed
  have k: "str_ok (fst e)" if "e \<in> set model_kvs" for e
    using a [of "fst e"] that by (auto simp: str_ok_def)
  moreover have "str_ok x_architecture" using a [of x_architecture] by (simp add: str_ok_def)
  then have "list_all (\<lambda>e. value_ok (snd e)) model_kvs"
    by (simp add: model_kvs_def uint_expect_def f32_expect_def x_n_layers_def max_array_depth_def del: upt_conv_Cons)
  ultimately show ?thesis by (auto simp: list_all_iff)
qed

lemma length_model_kvs: "length (concat (map put_kv model_kvs)) \<le> 20 * 1000"
proof -
  have a: "list_all (\<lambda>e. length (fst e) \<le> 100) model_kvs"
    by (simp add: model_kvs_def uint_expect_def f32_expect_def kv_key_def pattern_key_def)
  have b: "list_all (\<lambda>e. length (put_value (snd e)) \<le> 300) model_kvs"
    by (simp add: model_kvs_def uint_expect_def f32_expect_def put_word_def put_string_def put_u64_def put_u32_def
        put_head_def put_words_def x_architecture_def x_n_layers_def length_concat comp_def sum_list_triv
        del: upt_conv_Cons)
  have "length (put_kv e) \<le> 1000" if "e \<in> set model_kvs" for e
  proof -
    have "length (fst e) \<le> 100" "length (put_value (snd e)) \<le> 300"
      using that a b unfolding list_all_iff by blast+
    then show ?thesis
      by (simp add: put_kv_def put_string_def put_u64_def put_u32_def put_word_def case_prod_beta)
  qed
  then have "length (concat (map put_kv model_kvs)) \<le> length model_kvs * 1000"
    by (rule length_concat_le)
  moreover have "length model_kvs \<le> 20" by (simp add: model_kvs_def uint_expect_def f32_expect_def)
  ultimately show ?thesis by simp
qed

lemma model_file_ok: "file_ok model_kvs (map model_info expected_tensors) 32 model_data"
  unfolding file_ok_def
proof (intro conjI)
  show "distinct (map tname (map model_info expected_tensors))"
    using distinct_expected by (simp add: comp_def model_info_def case_prod_beta)
  show "list_all entry_ok (map model_info expected_tensors)"
    "list_all (range_ok 32 (length model_data)) (map model_info expected_tensors)"
    using model_entry by (auto simp: list_all_iff)
  have "map_of model_kvs ''general.alignment'' = None"
    by (simp add: model_kvs_def uint_expect_def f32_expect_def kv_key_def pattern_key_def)
  then show "declares_alignment model_kvs 32" by (simp add: declares_alignment_def)
  show "length model_kvs < 2 ^ 64" by (simp add: model_kvs_def uint_expect_def f32_expect_def)
  show "length (map model_info expected_tensors) < 2 ^ 64" using length_expected by simp
  show "length model_data < 2 ^ 64" by (simp add: length_model_data)
  have "length (concat (map put_info (map model_info expected_tensors))) \<le> length expected_tensors * 200"
    unfolding map_map using length_concat_le [of expected_tensors "put_info \<circ> model_info" 200] length_model_info
    by (simp only: comp_apply)
  then show "length (put_tables model_kvs (map model_info expected_tensors)) + 32 < 2 ^ 64"
    using length_model_kvs length_expected
    by (simp add: put_tables_def put_u32_def put_u64_def put_word_def)
qed (use model_keys model_kvs_ok in auto)

definition model_gguf :: gguf where
  "model_gguf = projr (parse model_file)"

lemma model_parse:
  "parse model_file = Inr model_gguf" "tensors model_gguf = map model_info expected_tensors"
  "entries (metadata_of model_gguf) = model_kvs"
  using parse_written [OF model_file_ok] by (auto simp: model_gguf_def model_file_def)

lemma model_gguf_data: "data model_gguf = model_data"
  using parse_written [OF model_file_ok] by (auto simp: model_gguf_def model_file_def)

lemma model_get: "meta_get (metadata_of model_gguf) k = map_of model_kvs k"
  using parse_ok(3) [OF model_parse(1)] md.get_items [of "metadata_of model_gguf" k] model_parse(3)
  by (simp add: metadata_inv_def)


lemma model_meta_agrees: "meta_agrees (metadata_of model_gguf)"
proof -
  have m: "map_of model_kvs k = Some v" if "(k, v) \<in> set model_kvs" for k v
    using that model_keys by simp
  have u: "(k, MU32 (word_of_nat c)) \<in> set model_kvs" if "(k, c) \<in> set uint_expect" for k c
    using that by (auto simp: model_kvs_def)
  have f: "(k, MF32 c) \<in> set model_kvs" if "(k, c) \<in> set f32_expect" for k c
    using that by (auto simp: model_kvs_def)
  have "get_str (metadata_of model_gguf) ''general.architecture'' = Inr (Some x_architecture)"
    using m [of "''general.architecture''" "MString x_architecture"]
    by (simp add: get_str_def meta_typed_def model_get) (simp add: model_kvs_def)
  moreover have "\<exists>v. get_uint (metadata_of model_gguf) k = Inr (Some v) \<and> unat v = c" if "(k, c) \<in> set uint_expect" for k c
  proof -
    have "c < 2 ^ 32" using that by (auto simp: uint_expect_def expect_defs)
    then have "unat (ucast (word_of_nat c :: u32) :: u64) = c"
      by (simp add: unat_ucast_up unat_of_nat)
    then show ?thesis using m [OF u [OF that]] by (simp add: get_uint_def meta_typed_def model_get)
  qed
  moreover have "get_f32 (metadata_of model_gguf) k = Inr (Some c)" if "(k, c) \<in> set f32_expect" for k c
    using m [OF f [OF that]] by (simp add: get_f32_def meta_typed_def model_get)
  moreover have "require_i32_array (metadata_of model_gguf) kv_key =
      Inr (map (\<lambda>i. word_of_nat (kv_heads_of (layer_kind i))) [0..<x_n_layers])"
    using m [of kv_key "MArray (ArrI32 (map (\<lambda>i. word_of_nat (kv_heads_of (layer_kind i))) [0..<x_n_layers]))"]
    by (simp add: require_i32_array_def meta_required_def meta_typed_def model_get) (simp add: model_kvs_def)
  moreover have "require_bool_array (metadata_of model_gguf) pattern_key =
      Inr (map (\<lambda>i. layer_kind i = Sliding) [0..<x_n_layers])"
    using m [of pattern_key "MArray (ArrBool (map (\<lambda>i. layer_kind i = Sliding) [0..<x_n_layers]))"]
    by (simp add: require_bool_array_def meta_required_def meta_typed_def model_get) (simp add: model_kvs_def)
  moreover have "sint (word_of_nat (kv_heads_of k) :: 32 word) = int (kv_heads_of k)" for k
    by (cases k) (simp_all add: kv_heads_of_def expect_defs)
  ultimately show ?thesis by (auto simp: meta_agrees_def)
qed

lemma model_table_agrees: "table_agrees (tensors model_gguf)"
proof -
  have d: "distinct (map tname (map model_info expected_tensors))"
    using distinct_expected by (simp add: comp_def model_info_def case_prod_beta)
  have "actual_of (map model_info expected_tensors) (fst x) = Some (model_info x)" if "x \<in> set expected_tensors" for x
  proof -
    have "distinct (map fst (map (\<lambda>t. (tname t, t)) (map model_info expected_tensors)))" using d by (simp add: comp_def)
    moreover have "(fst x, model_info x) \<in> set (map (\<lambda>t. (tname t, t)) (map model_info expected_tensors))"
      using that by (auto simp: model_info_def case_prod_beta intro!: rev_image_eqI [of x])
    ultimately show ?thesis unfolding actual_of_def by (simp only: map_of_rev_distinct map_of_eq_Some_iff)
  qed
  moreover have "map unat (dims (model_info x)) = fst (snd x) \<and> dtype (model_info x) = snd (snd x)"
    if "x \<in> set expected_tensors" for x
    using expected_shape [OF that] shapes_good
    by (auto simp: list_all_iff shape_good_def model_info_def case_prod_beta)
  ultimately show ?thesis
    by (auto simp: table_agrees_def model_parse(2) model_info_def intro: rev_image_eqI)
qed

lemma model_validates: "from_gguf model_gguf = Inr the_model"
  using model_meta_agrees model_table_agrees
  unfolding from_gguf_def validate_iff by simp

theorem validated_tensor_view_witness:
  "\<exists>t bs. tensor model_gguf (blk_name 5 ''attn_k'') = Some t \<and> dtype t = Q4_0 \<and> map unat (dims t) = [5376, 2048] \<and>
    data_of model_gguf t = Some bs \<and> length bs = tensor_size [5376, 2048] Q4_0"
proof (rule validated_tensor_view [OF model_parse(1) model_validates])
  have "(blk_name 5 ''attn_k'', [5376, 2048], Q4_0) \<in> set (layer_tensors 5)"
    by (simp add: layer_tensors_def Let_def layer_kind_def kv_heads_of_def head_dim_of_def expect_defs)
  then show "(blk_name 5 ''attn_k'', [5376, 2048], Q4_0) \<in> set expected_tensors"
    by (auto simp: expected_tensors_def x_n_layers_def)
qed


end
