(* ===== verification/Reference_Props.thy ===== *)
theory Reference_Props
  imports Reference_Rows Desc_Props
begin

text \<open>
  The CPU reference model: on a file that parses and validates no forward pass panics, and running a
  prompt in pieces is running it whole.
\<close>

subsection \<open>Weights of a validated file\<close>

lemma length_cast_q4_0: "length bs = k * 18 \<Longrightarrow> length (cast_q4_0 bs) = k"
proof (induction k arbitrary: bs)
  case (Suc k)
  then show ?case by (cases bs rule: cast_q4_0.cases) simp_all
qed simp

lemma length_cast_q6_k: "length (cast_q6_k_fuel n bs) = n"
  by (induction n arbitrary: bs) simp_all

definition quantized :: "ggml_type \<Rightarrow> nat \<Rightarrow> bool" where
  "quantized ty ni \<longleftrightarrow> ty = Q4_0 \<and> 32 dvd ni \<or> ty = Q6_K \<and> 256 dvd ni"

lemma row_slice:
  fixes k r no :: nat
  assumes "r < no" and "length bs = no * k"
  shows "\<exists>ys. sub_slice bs (r * k) k = Some ys \<and> length ys = k"
proof (rule sub_slice_ok)
  have "Suc r * k \<le> no * k" using assms(1) by (intro mult_le_mono1) simp
  then show "r * k + k \<le> length bs" using assms(2) by simp
qed

text \<open>The blocks cover the row, so what the buffer held before, which a worker reuses, does not matter.\<close>

lemma dequant_row_any:
  assumes q: "quantized (mw_dtype w) (mw_in w)" and l: "length (mw_bytes w) = tensor_size [mw_in w, mw_out w] (mw_dtype w)"
    and a: "even (mw_address w)" and r: "r < mw_out w"
  shows "\<exists>row. length row = mw_in w \<and> (\<forall>out. length out = mw_in w \<longrightarrow> dequant_row ar w r out = Some row)"
  using q unfolding quantized_def
proof (elim disjE conjE)
  assume t: "mw_dtype w = Q4_0" "32 dvd mw_in w"
  then obtain k where k: "mw_in w = 32 * k" by blast
  have "length (mw_bytes w) = mw_out w * (k * 18)"
    using l t(1) k by (simp add: tensor_size_def)
  from row_slice [OF r this] obtain bs where
    bs: "sub_slice (mw_bytes w) (r * (k * 18)) (k * 18) = Some bs" "length bs = k * 18" by blast
  have n: "length (cast_q4_0 bs) = k" by (rule length_cast_q4_0 [OF bs(2)])
  have "length (concat (map (\<lambda>b. dequantize_q4_0 (ar_quant ar) b (replicate 32 (f_zero ar))) (cast_q4_0 bs))) = k * 32"
    by (subst length_concat_rows [where k = 32]) (auto simp: n)
  then show ?thesis
    using bs n t(1) k a r
    by (intro exI [of _ "concat (map (\<lambda>b. dequantize_q4_0 (ar_quant ar) b (replicate 32 (f_zero ar))) (cast_q4_0 bs))"])
      (simp add: dequant_row_def qk4_0_def block_q4_0_size_def blocks_from_bytes_q4_0_def Let_def del: length_concat)
next
  assume t: "mw_dtype w = Q6_K" "256 dvd mw_in w"
  then obtain k where k: "mw_in w = 256 * k" by blast
  have "length (mw_bytes w) = mw_out w * (k * 210)"
    using l t(1) k by (simp add: tensor_size_def)
  from row_slice [OF r this] obtain bs where
    bs: "sub_slice (mw_bytes w) (r * (k * 210)) (k * 210) = Some bs" "length bs = k * 210" by blast
  have n: "length (cast_q6_k_fuel k bs) = k" by (rule length_cast_q6_k)
  have "length (concat (map (\<lambda>b. dequantize_q6_k (ar_quant ar) b (replicate 256 (f_zero ar))) (cast_q6_k_fuel k bs))) = k * 256"
    by (subst length_concat_rows [where k = 256]) (auto simp: n)
  then show ?thesis
    using bs n t(1) k a r
    by (intro exI [of _ "concat (map (\<lambda>b. dequantize_q6_k (ar_quant ar) b (replicate 256 (f_zero ar))) (cast_q6_k_fuel k bs))"])
      (simp add: dequant_row_def qk6_k_def block_q6_k_size_def blocks_from_bytes_q6_k_def Let_def del: length_concat)
qed

lemma dequant_row_ok:
  assumes "quantized (mw_dtype w) (mw_in w)" "length (mw_bytes w) = tensor_size [mw_in w, mw_out w] (mw_dtype w)"
    and "even (mw_address w)" "r < mw_out w"
  shows "\<exists>row. dequant_row ar w r (replicate (mw_in w) (f_zero ar)) = Some row \<and> length row = mw_in w"
  using dequant_row_any [OF assms, of ar] by auto

definition has_mat :: "('f, 'd) arith \<Rightarrow> 'f cpu_model \<Rightarrow> string \<Rightarrow> nat \<Rightarrow> nat \<Rightarrow> 'f list list \<Rightarrow> bool" where
  "has_mat ar m name ni no R \<longleftrightarrow> (\<exists>w. mat m name ni no = Some w \<and> mw_in w = ni \<and> mw_out w = no \<and>
     weight_rows ar w = Some R \<and> length R = no \<and> rows ni R)"

definition has_norm :: "('f, 'd) arith \<Rightarrow> 'f cpu_model \<Rightarrow> string \<Rightarrow> nat \<Rightarrow> 'f list \<Rightarrow> bool" where
  "has_norm ar m name k W \<longleftrightarrow> norm_weight ar m name = Some W \<and> length W = k"

text \<open>A model made from a parsed file, whatever conventions are set afterwards.\<close>

definition cpu_ready :: "('f, 'd) arith \<Rightarrow> 'f cpu_model \<Rightarrow> bool" where
  "cpu_ready ar m \<longleftrightarrow> (\<exists>bytes m0. parse bytes = Inr (cm_gguf m) \<and> cpu_new ar (cm_address m) (cm_gguf m) = Some (Inr m0) \<and>
     m = m0\<lparr>cm_conv := cm_conv m\<rparr> \<and> (\<forall>name. even (cm_address m name)))"

lemma validated_view:
  assumes "parse bytes = Inr g" and "from_gguf g = Inr d" and "(name, ds, ty) \<in> set expected_tensors"
  shows "\<exists>t bs. tensor g name = Some t \<and> dtype t = ty \<and> map unat (dims t) = ds \<and>
    data_of g t = Some bs \<and> length bs = tensor_size ds ty"
  using expected_in_file [OF assms] by metis

lemma cpu_newD:
  assumes "cpu_new ar ad g = Some (Inr m)"
  shows "\<exists>d fs. from_gguf g = Inr d \<and> f32_tensor g ''rope_freqs.weight'' = Some (Inr fs) \<and> length fs = head_dim (global d) div 2 \<and>
    m = \<lparr>cm_gguf = g, cm_address = ad, cm_desc = d, cm_conv = pinned ar (hidden_size d), rope_factors = fs\<rparr>"
proof (cases "from_gguf g")
  case (Inr d)
  then obtain r where r: "f32_tensor g ''rope_freqs.weight'' = Some r"
    using assms by (auto simp: cpu_new_def bind_eq_Some_conv)
  with assms Inr show ?thesis
    by (cases r) (auto simp: cpu_new_def Let_def split: if_splits option.splits)
qed (use assms in \<open>simp add: cpu_new_def\<close>)

lemma cpu_readyD:
  assumes "cpu_ready ar m"
  obtains bytes where "parse bytes = Inr (cm_gguf m)" "from_gguf (cm_gguf m) = Inr the_model" "cm_desc m = the_model"
    "length (rope_factors m) = 256" "\<And>name. even (cm_address m name)"
proof -
  obtain bytes m0 where b: "parse bytes = Inr (cm_gguf m)" "cpu_new ar (cm_address m) (cm_gguf m) = Some (Inr m0)"
    "m = m0\<lparr>cm_conv := cm_conv m\<rparr>" "\<And>name. even (cm_address m name)"
    using assms by (auto simp: cpu_ready_def)
  from cpu_newD [OF b(2)] obtain d fs where d: "from_gguf (cm_gguf m) = Inr d" "length fs = head_dim (global d) div 2"
    "m0 = \<lparr>cm_gguf = cm_gguf m, cm_address = cm_address m, cm_desc = d, cm_conv = pinned ar (hidden_size d), rope_factors = fs\<rparr>"
    by blast
  then have t: "d = the_model" by (auto simp: from_gguf_def validate_def Let_def split: if_splits)
  moreover have "cm_desc m = d" "rope_factors m = fs" using d(3) b(3) by (metis cpu_model.simps)+
  ultimately show thesis using that b(1,4) d(1,2) by (simp add: the_model_def x_global_head_dim_def)
qed

lemma loaded_mat:
  assumes "cpu_ready ar m" and e: "(name, [ni, no], ty) \<in> set expected_tensors" and "quantized ty ni"
  obtains R where "has_mat ar m name ni no R"
proof -
  from cpu_readyD [OF assms(1)] obtain bytes where
    g: "parse bytes = Inr (cm_gguf m)" "from_gguf (cm_gguf m) = Inr the_model" "\<And>name. even (cm_address m name)" by metis
  obtain t bs where t: "tensor (cm_gguf m) name = Some t" "dtype t = ty" "map unat (dims t) = [ni, no]"
    "data_of (cm_gguf m) t = Some bs" "length bs = tensor_size [ni, no] ty"
    using validated_view [OF g(1,2) e] by (elim exE conjE)
  have d: "dims t = [word_of_nat ni, word_of_nat no]" using t(3) by auto
  let ?w = "\<lparr>mw_bytes = bs, mw_address = cm_address m name, mw_dtype = ty, mw_in = ni, mw_out = no\<rparr>"
  have w: "mat m name ni no = Some ?w" using t d by (simp add: mat_def)
  have "\<exists>row. dequant_row ar ?w r (replicate ni (f_zero ar)) = Some row \<and> length row = ni" if "r \<in> set [0..<no]" for r
    using dequant_row_ok [of ?w r ar] assms(3) t(5) g(3) that by simp
  from those_mapE [where xs = "[0..<no]", OF this] obtain R where
    "those (map (\<lambda>r. dequant_row ar ?w r (replicate ni (f_zero ar))) [0..<no]) = Some R" "length R = length [0..<no]" "rows ni R" .
  then have "has_mat ar m name ni no R" using w by (simp add: has_mat_def weight_rows_def)
  then show thesis by (rule that)
qed

lemma length_f32s: "length bs = 4 * k \<Longrightarrow> length (vec_from_le 4 bs :: f32 list) = k"
proof (induction k arbitrary: bs)
  case 0
  then show ?case by (simp add: vec_from_le_def chunks_exact.simps)
next
  case (Suc k)
  then have "length (vec_from_le 4 (drop 4 bs) :: f32 list) = k" by simp
  then show ?case using Suc.prems by (simp add: vec_from_le_def chunks_exact.simps [of 4 bs])
qed

lemma loaded_norm:
  assumes "cpu_ready ar m" and e: "(name, [k], F32) \<in> set expected_tensors"
  obtains W where "has_norm ar m name k W"
proof -
  from cpu_readyD [OF assms(1)] obtain bytes where
    g: "parse bytes = Inr (cm_gguf m)" "from_gguf (cm_gguf m) = Inr the_model" by metis
  obtain t bs where t: "tensor (cm_gguf m) name = Some t" "dtype t = F32"
    "data_of (cm_gguf m) t = Some bs" "length bs = tensor_size [k] F32"
    using validated_view [OF g e] by (elim exE conjE)
  then have "length bs = 4 * k" by (simp add: tensor_size_def)
  then have "has_norm ar m name k (map (of_bits ar) (vec_from_le 4 bs))"
    using t by (simp add: has_norm_def norm_weight_def f32_tensor_def length_f32s)
  then show thesis by (rule that)
qed

subsection \<open>One layer, token by token\<close>

lemma map2_map2: "length P = length X \<Longrightarrow> map2 g (map f P) (map2 h P X) = map2 (\<lambda>p x. g (f p) (h p x)) P X"
  by (induction P X rule: list_induct2) simp_all

lemma map2_map2_id: "length P = length X \<Longrightarrow> map2 g P (map2 h P X) = map2 (\<lambda>p x. g p (h p x)) P X"
  by (induction P X rule: list_induct2) simp_all

lemma map2_left: "length P = length X \<Longrightarrow> map2 g X (map2 h P X) = map2 (\<lambda>p x. g x (h p x)) P X"
  by (induction P X rule: list_induct2) simp_all

lemma map2_snd: "length P = length X \<Longrightarrow> map g X = map2 (\<lambda>p x. g x) P X"
  by (induction P X rule: list_induct2) simp_all

lemma map_map2: "map g (map2 f P X) = map2 (\<lambda>p x. g (f p x)) P X"
  by (simp add: split_def)

lemma rows_map2:
  "length P = length X \<Longrightarrow> rows k X \<Longrightarrow> (\<And>p x. p \<in> set P \<Longrightarrow> length x = k \<Longrightarrow> length (f p x) = l) \<Longrightarrow> rows l (map2 f P X)"
  by (auto dest: set_zip_leftD set_zip_rightD)

lemma zip_rows:
  assumes "length X = length Y" and "rows k X" and "rows k Y"
  shows "map f (zip (concat X) (concat Y)) @ drop (length (concat Y)) (concat X) =
    concat (map2 (\<lambda>x y. map f (zip x y) @ drop (length y) x) X Y)"
  using assms by (induction X Y rule: list_induct2) (simp_all add: zip_append)

lemma add_rows_rows:
  assumes "length X = length Y" and "rows k X" and "rows k Y"
  shows "add_rows ar (concat X) (concat Y) = concat (map2 (add_rows ar) X Y)"
  unfolding add_rows_def by (rule zip_rows [OF assms])

lemma length_add_rows [simp]: "length (add_rows ar x y) = length x"
  by (simp add: add_rows_def)

lemma mat_matmul:
  assumes "has_mat ar m name ni no R" and "X \<noteq> []" and "rows ni X"
  shows "\<exists>w. mat m name ni no = Some w \<and> matmul ar w (concat X) (length X) = Some (concat (map (matvec ar R) X))"
  using assms matmul_rows [of ar _ R X] by (fastforce simp: has_mat_def)

lemma has_matD: "has_mat ar m name ni no R \<Longrightarrow> length R = no"
  by (auto simp: has_mat_def)

definition tok_norm :: "('f, 'd) arith \<Rightarrow> 'f cpu_model \<Rightarrow> 'f list \<Rightarrow> 'f list \<Rightarrow> 'f list" where
  "tok_norm ar m W x = rmsnorm_one ar m (Some W) x"

lemma length_tok_norm [simp]: "length (tok_norm ar m W x) = length x"
  by (simp add: tok_norm_def)

lemma norm_rows:
  assumes "has_norm ar m name k W" and "0 < k" and "rows k X"
  shows "rmsnorm_rows ar m (concat X) k name = Some (concat (map (tok_norm ar m W) X))"
  using assms rmsnorm_rows_rows [of ar m name W k X] by (simp add: has_norm_def tok_norm_def [abs_def])

lemma has_normD: "has_norm ar m name k W \<Longrightarrow> norm_weight ar m name = Some W"
  by (simp add: has_norm_def)

definition tok_v :: "('f, 'd) arith \<Rightarrow> 'f cpu_model \<Rightarrow> nat \<Rightarrow> 'f list list \<Rightarrow> 'f list \<Rightarrow> 'f list" where
  "tok_v ar m hdim R x = (if cv_v_norm (cm_conv m) then heads_norm ar m hdim else id) (matvec ar R x)"

lemma length_tok_v: "0 < hdim \<Longrightarrow> length R = n * hdim \<Longrightarrow> length (tok_v ar m hdim R x) = n * hdim"
  by (simp add: tok_v_def length_heads)

lemma attn_block_rows:
  fixes K V :: "'f list" and X :: "'f list list" and m :: "'f cpu_model" and ar :: "('f, 'd) arith"
    and layer q0 :: nat and rr :: "nat \<Rightarrow> 'f list" and W1 W2 Wq Wk :: "'f list" and Rq Rk Rv Ro :: "'f list list"
  defines "kind \<equiv> layer_kinds (cm_desc m) ! layer"
  defines "hdim \<equiv> head_dim (layer_geometry (cm_desc m) kind)" and "n_kv \<equiv> n_kv_heads (layer_geometry (cm_desc m) kind)"
    and "nq \<equiv> n_q_heads (cm_desc m)" and "hidden \<equiv> hidden_size (cm_desc m)"
    and "window \<equiv> (case kind of Sliding \<Rightarrow> Some (sliding_window (cm_desc m)) | Global \<Rightarrow> None)"
  defines "P \<equiv> [q0..<q0 + length X]"
  defines "nf \<equiv> tok_norm ar m W1"
  defines "qf \<equiv> \<lambda>p x. heads_rope ar m hdim Wq (rr p) (matvec ar Rq (nf x))"
    and "kf \<equiv> \<lambda>p x. heads_rope ar m hdim Wk (rr p) (matvec ar Rk (nf x))"
    and "vf \<equiv> \<lambda>p x. tok_v ar m hdim (case kind of Sliding \<Rightarrow> Rv | Global \<Rightarrow> Rk) (nf x)"
  defines "K' \<equiv> K @ concat (map2 kf P X)" and "V' \<equiv> V @ concat (map2 vf P X)"
  defines "ao \<equiv> \<lambda>p x. matvec ar Ro (tok_attn ar nq n_kv hdim window (attn_scale (cm_conv m)) K' V' p (qf p x))"
  defines "pf \<equiv> \<lambda>p x. tok_norm ar m W2 (ao p x)"
  defines "xf \<equiv> \<lambda>p x. add_rows ar x (pf p x)"
  assumes W1: "has_norm ar m (blk_name layer ''attn_norm'') hidden W1"
    and Rq: "has_mat ar m (blk_name layer ''attn_q'') hidden (nq * hdim) Rq"
    and Wq: "has_norm ar m (blk_name layer ''attn_q_norm'') hdim Wq"
    and Rk: "has_mat ar m (blk_name layer ''attn_k'') hidden (n_kv * hdim) Rk"
    and Rv: "kind = Sliding \<Longrightarrow> has_mat ar m (blk_name layer ''attn_v'') hidden (n_kv * hdim) Rv"
    and Wk: "has_norm ar m (blk_name layer ''attn_k_norm'') hdim Wk"
    and Ro: "has_mat ar m (blk_name layer ''attn_output'') (nq * hdim) hidden Ro"
    and W2: "has_norm ar m (blk_name layer ''post_attention_norm'') hidden W2"
    and pos: "0 < hidden" "0 < hdim" "n_kv dvd nq" "0 < nq" and rr: "\<And>p. length (rr p) = hdim div 2 * 2"
    and X: "X \<noteq> []" "rows hidden X" and KV: "length K = q0 * (n_kv * hdim)" "length V = q0 * (n_kv * hdim)"
  shows "attn_block ar m layer (concat (map rr P)) (length X) q0 (K, V) (concat X) =
    Some (concat (map2 xf P X), (K', V'),
      [(''attn_norm'', Some layer, concat (map2 (\<lambda>p x. nf x) P X)), (''q_rope'', Some layer, concat (map2 qf P X)),
       (''k_rope'', Some layer, concat (map2 kf P X)), (''v_norm'', Some layer, concat (map2 vf P X)),
       (''attn_out'', Some layer, concat (map2 ao P X)), (''post_attn_norm'', Some layer, concat (map2 pf P X)),
       (''h_attn'', Some layer, concat (map2 xf P X))])"
proof -
  let ?nm = "blk_name layer"
  let ?R = "case kind of Sliding \<Rightarrow> Rv | Global \<Rightarrow> Rk"
  have lP [simp]: "length P = length X" by (simp add: P_def)
  have kv0: "0 < n_kv" using pos by (auto intro!: gr0I)
  have rP: "rows (hdim div 2 * 2) (map rr P)" using rr by auto
  have xn: "rmsnorm_rows ar m (concat X) hidden (?nm ''attn_norm'') = Some (concat (map nf X))"
    unfolding nf_def by (rule norm_rows [OF W1 pos(1) X(2)])
  have rN: "rows hidden (map nf X)" "map nf X \<noteq> []" using X by (auto simp: nf_def)
  note mm = mat_matmul [OF _ rN(2,1)]
  from mm [OF Rq] obtain wq where wq: "mat m (?nm ''attn_q'') hidden (nq * hdim) = Some wq"
    "matmul ar wq (concat (map nf X)) (length X) = Some (concat (map (matvec ar Rq) (map nf X)))" by auto
  from mm [OF Rk] obtain wk where wk: "mat m (?nm ''attn_k'') hidden (n_kv * hdim) = Some wk"
    "matmul ar wk (concat (map nf X)) (length X) = Some (concat (map (matvec ar Rk) (map nf X)))" by auto
  have nr: "norm_rope ar m nh hdim W (concat (map rr P)) (concat (map (matvec ar R) (map nf X))) =
      Some (concat (map2 (\<lambda>p x. heads_rope ar m hdim W (rr p) (matvec ar R (nf x))) P X))"
    if "0 < nh" "length R = nh * hdim" for nh W R
  proof -
    have "map (matvec ar R) (map nf X) = map2 (\<lambda>p x. matvec ar R (nf x)) P X"
      unfolding map_map by (simp add: map2_snd [OF lP, symmetric])
    moreover have "rows (nh * hdim) (map2 (\<lambda>p x. matvec ar R (nf x)) P X)" using that(2) by auto
    ultimately show ?thesis
      using norm_rope_rows [OF pos(2) that(1), of "map2 (\<lambda>p x. matvec ar R (nf x)) P X" "map rr P" ar m W] rP that(2)
      by (simp add: map2_map2 [OF lP])
  qed
  note q = nr [OF pos(4) has_matD [OF Rq], of Wq, folded qf_def]
  note k = nr [OF kv0 has_matD [OF Rk], of Wk, folded kf_def]
  have v0: "(case kind of
        Sliding \<Rightarrow> do { wv \<leftarrow> mat m (?nm ''attn_v'') hidden (n_kv * hdim); matmul ar wv (concat (map nf X)) (length X) }
      | Global \<Rightarrow> Some (concat (map (matvec ar Rk) (map nf X)))) = Some (concat (map (matvec ar ?R) (map nf X)))"
    using mm [OF Rv] by (cases kind) auto
  have lR: "length ?R = n_kv * hdim" using has_matD [OF Rk] has_matD [OF Rv] by (cases kind) simp_all
  have v: "(if cv_v_norm (cm_conv m)
      then map_option (\<lambda>heads. concat (map (\<lambda>(t, head). rmsnorm_one ar m None head) heads))
        (head_rows n_kv hdim (concat (map (matvec ar ?R) (map nf X))))
      else Some (concat (map (matvec ar ?R) (map nf X)))) = Some (concat (map2 vf P X))"
  proof -
    let ?Y = "map (matvec ar ?R) (map nf X)"
    have "rows (n_kv * hdim) ?Y" using lR by auto
    note n = v_norm_rows [OF pos(2) kv0 this, of ar m]
    have "map2 vf P X = map (\<lambda>x. tok_v ar m hdim ?R (nf x)) X"
      unfolding vf_def by (rule map2_snd [OF lP, symmetric])
    also have "\<dots> = (if cv_v_norm (cm_conv m) then map (heads_norm ar m hdim) ?Y else ?Y)"
      by (simp add: tok_v_def)
    finally show ?thesis by (cases "cv_v_norm (cm_conv m)") (simp_all only: n if_True if_False)
  qed
  have lh: "rows (n * hdim) (map2 (\<lambda>p x. heads_rope ar m hdim W (rr p) (matvec ar R (nf x))) P X)"
    if "length R = n * hdim" for n W R
    using that by (auto intro!: length_heads(2) [OF pos(2)])
  have lq: "rows (nq * hdim) (map2 qf P X)" "map2 qf P X \<noteq> []" "length (map2 qf P X) = length X"
    using lh [OF has_matD [OF Rq]] X(1) by (simp_all add: qf_def P_def)
  have lkv: "rows (n_kv * hdim) (map2 kf P X)" "rows (n_kv * hdim) (map2 vf P X)"
    using lh [OF has_matD [OF Rk]] length_tok_v [OF pos(2) lR] by (auto simp: kf_def vf_def)
  have lK: "(q0 + length X) * (n_kv * hdim) \<le> length K'" "(q0 + length X) * (n_kv * hdim) \<le> length V'"
    using KV length_concat_rows [OF lkv(1)] length_concat_rows [OF lkv(2)]
    by (simp_all add: K'_def V'_def add_mult_distrib del: length_concat)
  have bound: "(p + 1) * (n_kv * hdim) \<le> length K' \<and> (p + 1) * (n_kv * hdim) \<le> length V'" if "p \<in> set P" for p
  proof -
    have "p + 1 \<le> q0 + length X" using that by (simp add: P_def)
    then have "(p + 1) * (n_kv * hdim) \<le> (q0 + length X) * (n_kv * hdim)" by (rule mult_le_mono1)
    then show ?thesis using lK by linarith
  qed
  let ?af = "\<lambda>p x. tok_attn ar nq n_kv hdim window (attn_scale (cm_conv m)) K' V' p (qf p x)"
  have a: "attention ar (concat (map2 qf P X)) K' V' (length X) q0 nq n_kv hdim window (attn_scale (cm_conv m)) =
      Some (concat (map2 ?af P X))"
    using attention_rows [OF lq(1) pos(2-4), of q0 K' V' ar window "attn_scale (cm_conv m)"] lK
    unfolding lq(3) P_def [symmetric] map2_map2_id [OF lP] by simp
  have la: "rows (nq * hdim) (map2 ?af P X)" "map2 ?af P X \<noteq> []"
  proof -
    show "rows (nq * hdim) (map2 ?af P X)"
      by (rule rows_map2 [OF lP X(2)]) (intro length_tok_attn pos(3) conjunct1 [OF bound] conjunct2 [OF bound])
  qed (use X(1) in \<open>simp add: P_def\<close>)
  from mat_matmul [OF Ro la(2,1)] obtain wo where wo: "mat m (?nm ''attn_output'') (nq * hdim) hidden = Some wo"
    "matmul ar wo (concat (map2 ?af P X)) (length X) = Some (concat (map2 ao P X))"
    unfolding map_map2 ao_def [symmetric] by auto
  have lo: "rows hidden (map2 ao P X)" using has_matD [OF Ro] by (auto simp: ao_def)
  have n2: "rmsnorm_rows ar m (concat (map2 ao P X)) hidden (?nm ''post_attention_norm'') = Some (concat (map2 pf P X))"
    unfolding pf_def map_map2 [symmetric] by (rule norm_rows [OF W2 pos(1) lo])
  have lp: "rows hidden (map2 pf P X)" "length X = length (map2 pf P X)" using has_matD [OF Ro] by (auto simp: pf_def ao_def)
  have x': "add_rows ar (concat X) (concat (map2 pf P X)) = concat (map2 xf P X)"
    unfolding add_rows_rows [OF lp(2) X(2) lp(1)] map2_left [OF lP] xf_def ..
  have n1: "map2 (\<lambda>p x. nf x) P X = map nf X" by (rule map2_snd [OF lP, symmetric])
  show ?thesis
    unfolding attn_block_def Let_def kind_def [symmetric] hdim_def [symmetric] n_kv_def [symmetric] nq_def [symmetric]
      hidden_def [symmetric] window_def [symmetric] xn wq wk q k v0 v has_normD [OF Wq] has_normD [OF Wk] Option.bind_lunit
      fst_conv snd_conv K'_def [symmetric] V'_def [symmetric] a wo n2 x' n1
    by (rule refl)
qed

lemma ffn_block_rows:
  fixes X :: "'f list list" and m :: "'f cpu_model" and ar :: "('f, 'd) arith" and layer :: nat
    and W1 W2 S :: "'f list" and Rg Ru Rd :: "'f list list"
  defines "hidden \<equiv> hidden_size (cm_desc m)"
  defines "nf \<equiv> tok_norm ar m W1"
  defines "af \<equiv> \<lambda>x. map (\<lambda>(g, u). f_mul ar (gelu_tanh ar g) u) (zip (matvec ar Rg (nf x)) (matvec ar Ru (nf x))) @
    drop (length (matvec ar Ru (nf x))) (matvec ar Rg (nf x))"
  defines "ff \<equiv> \<lambda>x. matvec ar Rd (af x)"
  defines "pf \<equiv> \<lambda>x. tok_norm ar m W2 (ff x)"
  defines "yf \<equiv> \<lambda>x. if cv_output_scale (cm_conv m) then map (\<lambda>v. f_mul ar v (S ! 0)) (add_rows ar x (pf x)) else add_rows ar x (pf x)"
  assumes W1: "has_norm ar m (blk_name layer ''ffn_norm'') hidden W1"
    and Rg: "has_mat ar m (blk_name layer ''ffn_gate'') hidden (ffn_size (cm_desc m)) Rg"
    and Ru: "has_mat ar m (blk_name layer ''ffn_up'') hidden (ffn_size (cm_desc m)) Ru"
    and Rd: "has_mat ar m (blk_name layer ''ffn_down'') (ffn_size (cm_desc m)) hidden Rd"
    and W2: "has_norm ar m (blk_name layer ''post_ffw_norm'') hidden W2"
    and S: "has_norm ar m (blk_name layer ''layer_output_scale'') 1 S"
    and pos: "0 < hidden" and X: "X \<noteq> []" "rows hidden X"
  shows "ffn_block ar m layer (length X) (concat X) =
    Some (concat (map yf X), [(''ffn_norm'', Some layer, concat (map nf X)), (''ffn_out'', Some layer, concat (map ff X)),
      (''post_ffn_norm'', Some layer, concat (map pf X)), (''layer_out'', Some layer, concat (map yf X))])"
proof -
  let ?nm = "blk_name layer"
  have xn: "rmsnorm_rows ar m (concat X) hidden (?nm ''ffn_norm'') = Some (concat (map nf X))"
    unfolding nf_def by (rule norm_rows [OF W1 pos X(2)])
  have rN: "map nf X \<noteq> []" "rows hidden (map nf X)" using X by (auto simp: nf_def)
  from mat_matmul [OF Rg rN] obtain wg where wg: "mat m (?nm ''ffn_gate'') hidden (ffn_size (cm_desc m)) = Some wg"
    "matmul ar wg (concat (map nf X)) (length X) = Some (concat (map (matvec ar Rg) (map nf X)))" by auto
  from mat_matmul [OF Ru rN] obtain wu where wu: "mat m (?nm ''ffn_up'') hidden (ffn_size (cm_desc m)) = Some wu"
    "matmul ar wu (concat (map nf X)) (length X) = Some (concat (map (matvec ar Ru) (map nf X)))" by auto
  let ?G = "map (matvec ar Rg) (map nf X)" and ?U = "map (matvec ar Ru) (map nf X)"
  have "rows (ffn_size (cm_desc m)) ?G" "rows (ffn_size (cm_desc m)) ?U" "length ?G = length ?U"
    using has_matD [OF Rg] has_matD [OF Ru] by auto
  from zip_rows [OF this(3,1,2), of "\<lambda>(g, u). f_mul ar (gelu_tanh ar g) u"]
  have act: "map (\<lambda>(g, u). f_mul ar (gelu_tanh ar g) u) (zip (concat ?G) (concat ?U)) @ drop (length (concat ?U)) (concat ?G) =
      concat (map af X)"
    by (simp add: af_def zip_map_map comp_def split_def zip_same_conv_map del: length_concat)
  have ra: "map af X \<noteq> []" "rows (ffn_size (cm_desc m)) (map af X)"
    using X(1) has_matD [OF Rg] has_matD [OF Ru] by (auto simp: af_def)
  from mat_matmul [OF Rd ra] obtain wd where wd: "mat m (?nm ''ffn_down'') (ffn_size (cm_desc m)) hidden = Some wd"
    "matmul ar wd (concat (map af X)) (length X) = Some (concat (map ff X))" by (auto simp: ff_def comp_def)
  have rf: "rows hidden (map ff X)" using has_matD [OF Rd] by (auto simp: ff_def)
  have n2: "rmsnorm_rows ar m (concat (map ff X)) hidden (?nm ''post_ffw_norm'') = Some (concat (map pf X))"
    using norm_rows [OF W2 pos rf] by (simp add: pf_def comp_def)
  have rp: "length X = length (map pf X)" "rows hidden (map pf X)" using has_matD [OF Rd] by (auto simp: pf_def ff_def)
  have x1: "add_rows ar (concat X) (concat (map pf X)) = concat (map (\<lambda>x. add_rows ar x (pf x)) X)"
    unfolding add_rows_rows [OF rp(1) X(2) rp(2)] by (simp add: zip_map2 zip_same_conv_map split_def comp_def)
  have s: "norm_weight ar m (?nm ''layer_output_scale'') = Some S" "S \<noteq> []"
    using S by (auto simp: has_norm_def)
  have x2: "(if cv_output_scale (cm_conv m)
      then do { s \<leftarrow> norm_weight ar m (?nm ''layer_output_scale'');
                if s = [] then None else Some (map (\<lambda>v. f_mul ar v (s ! 0)) (concat (map (\<lambda>x. add_rows ar x (pf x)) X))) }
      else Some (concat (map (\<lambda>x. add_rows ar x (pf x)) X))) = Some (concat (map yf X))"
    using s by (simp add: yf_def map_concat comp_def)
  show ?thesis
    unfolding ffn_block_def Let_def hidden_def [symmetric] xn wg wu Option.bind_lunit act wd n2 x1 x2 by (rule refl)
qed

text \<open>
  A layer that computes for each token its key, its value, its output and its taps, the last two from
  the cache up to the position of the token.
\<close>

type_synonym 'f token_fun = "'f list \<Rightarrow> 'f list \<Rightarrow> nat \<Rightarrow> 'f list \<Rightarrow> 'f list"

definition causal :: "nat \<Rightarrow> 'f token_fun \<Rightarrow> bool" where
  "causal kvd T \<longleftrightarrow> (\<forall>K V e e' p x. (p + 1) * kvd \<le> length K \<longrightarrow> (p + 1) * kvd \<le> length V \<longrightarrow> T (K @ e) (V @ e') p x = T K V p x)"

definition taps_of :: "(string \<times> nat option \<times> 'f token_fun) list \<Rightarrow> 'f list \<Rightarrow> 'f list \<Rightarrow> nat list \<Rightarrow> 'f list list \<Rightarrow> 'f tap list" where
  "taps_of Ts K V P X = map (\<lambda>(nm, l, T). (nm, l, concat (map2 (T K V) P X))) Ts"

definition tokenwise :: "nat \<Rightarrow> nat \<Rightarrow>
    (nat \<Rightarrow> nat \<Rightarrow> 'f list \<times> 'f list \<Rightarrow> 'f list \<Rightarrow> ('f list \<times> ('f list \<times> 'f list) \<times> 'f tap list) option) \<Rightarrow> bool" where
  "tokenwise hidden kvd L \<longleftrightarrow> (\<exists>kf vf xf Ts.
     (\<forall>p x. length x = hidden \<longrightarrow> length (kf p x) = kvd \<and> length (vf p x) = kvd) \<and>
     (\<forall>K V p x. length x = hidden \<longrightarrow> length (xf K V p x) = hidden) \<and>
     causal kvd xf \<and> (\<forall>(nm, l, T) \<in> set Ts. causal kvd T) \<and>
     (\<forall>X q0 K V. X \<noteq> [] \<longrightarrow> rows hidden X \<longrightarrow> length K = q0 * kvd \<longrightarrow> length V = q0 * kvd \<longrightarrow>
       (let P = [q0..<q0 + length X]; K' = K @ concat (map2 kf P X); V' = V @ concat (map2 vf P X) in
        L (length X) q0 (K, V) (concat X) = Some (concat (map2 (xf K' V') P X), (K', V'), taps_of Ts K' V' P X))))"

definition rope_of :: "('f, 'd) arith \<Rightarrow> 'f cpu_model \<Rightarrow> layer_kind \<Rightarrow> nat \<Rightarrow> 'f list" where
  "rope_of ar m kind p = rope_row ar (head_dim (layer_geometry (cm_desc m) kind)) (rope_theta (layer_geometry (cm_desc m) kind))
     (case kind of Sliding \<Rightarrow> None | Global \<Rightarrow> Some (rope_factors m)) (of_nat p)"

definition run_layer :: "('f, 'd) arith \<Rightarrow> 'f cpu_model \<Rightarrow> nat \<Rightarrow> nat \<Rightarrow> nat \<Rightarrow> 'f list \<times> 'f list \<Rightarrow> 'f list \<Rightarrow>
    ('f list \<times> ('f list \<times> 'f list) \<times> 'f tap list) option" where
  "run_layer ar m layer n q0 kv x =
     do { (x1, kv', t1) \<leftarrow> attn_block ar m layer
            (concat (map (rope_of ar m (layer_kinds (cm_desc m) ! layer)) [q0..<q0 + n])) n q0 kv x;
          (x2, t2) \<leftarrow> ffn_block ar m layer n x1;
          Some (x2, kv', t1 @ t2) }"

definition kv_dim :: "nat \<Rightarrow> nat" where
  "kv_dim layer = kv_heads_of (layer_kind layer) * head_dim_of (layer_kind layer)"

lemma length_rope_of: "length (rope_of ar m kind p) = head_dim (layer_geometry (cm_desc m) kind) div 2 * 2"
  unfolding rope_of_def rope_row_def
  by (subst length_concat_rows [where k = 2]) (auto simp: rope_pair_def Let_def)

lemma model_geometry:
  "head_dim (layer_geometry the_model kind) = head_dim_of kind" "n_kv_heads (layer_geometry the_model kind) = kv_heads_of kind"
  "n_q_heads the_model = x_n_q_heads" "hidden_size the_model = x_hidden" "ffn_size the_model = x_ffn"
  by (cases kind; simp add: layer_geometry_def the_model_def head_dim_of_def kv_heads_of_def)+

lemma model_kind: "layer < x_n_layers \<Longrightarrow> layer_kinds the_model ! layer = layer_kind layer"
  by (simp add: the_model_def)

lemma layer_expected:
  assumes "layer < x_n_layers" and "t \<in> set (layer_tensors layer)"
  shows "t \<in> set expected_tensors"
  using assms by (auto simp: expected_tensors_def)

lemma head_dims: "0 < head_dim_of k" "kv_heads_of k dvd x_n_q_heads" "0 < x_n_q_heads" "0 < x_hidden" "256 dvd head_dim_of k"
  by (cases k; simp add: head_dim_of_def kv_heads_of_def expect_defs)+

lemma loaded_weights:
  assumes l: "cpu_ready ar m" and n: "layer < x_n_layers"
  defines "kind \<equiv> layer_kind layer"
  obtains W1 Rq Wq Rk Rv Wk Ro W2 where
    "has_norm ar m (blk_name layer ''attn_norm'') x_hidden W1"
    "has_mat ar m (blk_name layer ''attn_q'') x_hidden (x_n_q_heads * head_dim_of kind) Rq"
    "has_norm ar m (blk_name layer ''attn_q_norm'') (head_dim_of kind) Wq"
    "has_mat ar m (blk_name layer ''attn_k'') x_hidden (kv_heads_of kind * head_dim_of kind) Rk"
    "kind = Sliding \<Longrightarrow> has_mat ar m (blk_name layer ''attn_v'') x_hidden (kv_heads_of kind * head_dim_of kind) Rv"
    "has_norm ar m (blk_name layer ''attn_k_norm'') (head_dim_of kind) Wk"
    "has_mat ar m (blk_name layer ''attn_output'') (x_n_q_heads * head_dim_of kind) x_hidden Ro"
    "has_norm ar m (blk_name layer ''post_attention_norm'') x_hidden W2"
proof -
  note e = layer_expected [OF n]
  have q: "quantized Q4_0 x_hidden" "quantized Q4_0 (x_n_q_heads * head_dim_of kind)"
    by (cases kind; simp add: quantized_def expect_defs head_dim_of_def)+
  have "(blk_name layer ''attn_norm'', [x_hidden], F32) \<in> set expected_tensors" "(blk_name layer ''attn_q_norm'', [head_dim_of kind], F32) \<in> set expected_tensors"
    "(blk_name layer ''attn_k_norm'', [head_dim_of kind], F32) \<in> set expected_tensors"
    "(blk_name layer ''post_attention_norm'', [x_hidden], F32) \<in> set expected_tensors"
    by (rule e, simp add: layer_tensors_def kind_def Let_def)+
  note F = this [THEN loaded_norm [OF l]]
  have "(blk_name layer ''attn_q'', [x_hidden, x_n_q_heads * head_dim_of kind], Q4_0) \<in> set expected_tensors"
    "(blk_name layer ''attn_k'', [x_hidden, kv_heads_of kind * head_dim_of kind], Q4_0) \<in> set expected_tensors"
    "(blk_name layer ''attn_output'', [x_n_q_heads * head_dim_of kind, x_hidden], Q4_0) \<in> set expected_tensors"
    by (rule e, simp add: layer_tensors_def kind_def Let_def x_weight_dtype_def)+
  note M = this [THEN loaded_mat [OF l]]
  have "\<exists>Rv. kind = Sliding \<longrightarrow> has_mat ar m (blk_name layer ''attn_v'') x_hidden (kv_heads_of kind * head_dim_of kind) Rv"
  proof (cases kind)
    case Sliding
    then have "(blk_name layer ''attn_v'', [x_hidden, kv_heads_of kind * head_dim_of kind], Q4_0) \<in> set expected_tensors"
      by (intro e) (simp add: layer_tensors_def kind_def Let_def x_weight_dtype_def)
    from loaded_mat [OF l this q(1)] show ?thesis by metis
  qed simp
  then show thesis using that F(1) F(2) F(3) F(4) M(1) [OF q(1)] M(2) [OF q(1)] M(3) [OF q(2)] by metis
qed

lemma loaded_ffn_weights:
  assumes l: "cpu_ready ar m" and n: "layer < x_n_layers"
  obtains W1 Rg Ru Rd W2 S where
    "has_norm ar m (blk_name layer ''ffn_norm'') x_hidden W1" "has_mat ar m (blk_name layer ''ffn_gate'') x_hidden x_ffn Rg"
    "has_mat ar m (blk_name layer ''ffn_up'') x_hidden x_ffn Ru" "has_mat ar m (blk_name layer ''ffn_down'') x_ffn x_hidden Rd"
    "has_norm ar m (blk_name layer ''post_ffw_norm'') x_hidden W2" "has_norm ar m (blk_name layer ''layer_output_scale'') 1 S"
proof -
  note e = layer_expected [OF n]
  have q: "quantized Q4_0 x_hidden" "quantized Q4_0 x_ffn" by (simp_all add: quantized_def expect_defs)
  have "(blk_name layer ''ffn_norm'', [x_hidden], F32) \<in> set expected_tensors"
    "(blk_name layer ''post_ffw_norm'', [x_hidden], F32) \<in> set expected_tensors"
    "(blk_name layer ''layer_output_scale'', [1], F32) \<in> set expected_tensors"
    by (rule e, simp add: layer_tensors_def Let_def)+
  note F = this [THEN loaded_norm [OF l]]
  have "(blk_name layer ''ffn_gate'', [x_hidden, x_ffn], Q4_0) \<in> set expected_tensors"
    "(blk_name layer ''ffn_up'', [x_hidden, x_ffn], Q4_0) \<in> set expected_tensors"
    "(blk_name layer ''ffn_down'', [x_ffn, x_hidden], Q4_0) \<in> set expected_tensors"
    by (rule e, simp add: layer_tensors_def Let_def x_weight_dtype_def)+
  note M = this [THEN loaded_mat [OF l]]
  show thesis using that F(1) F(2) F(3) M(1) [OF q(1)] M(2) [OF q(1)] M(3) [OF q(2)] by metis
qed

lemma causal_const: "causal kvd (\<lambda>K V p x. f p x)"
  by (simp add: causal_def)

lemma causal_comp: "causal kvd T \<Longrightarrow> causal kvd (\<lambda>K V p x. g p x (T K V p x))"
  by (simp add: causal_def)

lemma causal_attn: "n_kv dvd nq \<Longrightarrow> causal (n_kv * hdim) (\<lambda>K V p x. tok_attn ar nq n_kv hdim window scale K V p (q p x))"
  unfolding causal_def by (intro allI impI tok_attn_prefix)

lemma taps_of_append: "taps_of (Ts @ Us) K V P X = taps_of Ts K V P X @ taps_of Us K V P X"
  by (simp add: taps_of_def)

lemma layer_tokenwise:
  assumes l: "cpu_ready ar m" and n: "layer < x_n_layers"
  shows "tokenwise x_hidden (kv_dim layer) (run_layer ar m layer)"
proof -
  define kind where "kind = layer_kind layer"
  have d: "cm_desc m = the_model" using cpu_readyD [OF l] by metis
  have k: "layer_kinds (cm_desc m) ! layer = kind" using model_kind [OF n] by (simp add: d kind_def)
  obtain W1 Rq Wq Rk Rv Wk Ro W2 where w: "has_norm ar m (blk_name layer ''attn_norm'') x_hidden W1"
    "has_mat ar m (blk_name layer ''attn_q'') x_hidden (x_n_q_heads * head_dim_of kind) Rq"
    "has_norm ar m (blk_name layer ''attn_q_norm'') (head_dim_of kind) Wq"
    "has_mat ar m (blk_name layer ''attn_k'') x_hidden (kv_heads_of kind * head_dim_of kind) Rk"
    "kind = Sliding \<Longrightarrow> has_mat ar m (blk_name layer ''attn_v'') x_hidden (kv_heads_of kind * head_dim_of kind) Rv"
    "has_norm ar m (blk_name layer ''attn_k_norm'') (head_dim_of kind) Wk"
    "has_mat ar m (blk_name layer ''attn_output'') (x_n_q_heads * head_dim_of kind) x_hidden Ro"
    "has_norm ar m (blk_name layer ''post_attention_norm'') x_hidden W2"
    using loaded_weights [OF l n] unfolding kind_def by metis
  obtain V1 Rg Ru Rd V2 S where f: "has_norm ar m (blk_name layer ''ffn_norm'') x_hidden V1"
    "has_mat ar m (blk_name layer ''ffn_gate'') x_hidden x_ffn Rg" "has_mat ar m (blk_name layer ''ffn_up'') x_hidden x_ffn Ru"
    "has_mat ar m (blk_name layer ''ffn_down'') x_ffn x_hidden Rd" "has_norm ar m (blk_name layer ''post_ffw_norm'') x_hidden V2"
    "has_norm ar m (blk_name layer ''layer_output_scale'') 1 S"
    using loaded_ffn_weights [OF l n] by metis
  have geo: "head_dim (layer_geometry (cm_desc m) kind) = head_dim_of kind" "n_kv_heads (layer_geometry (cm_desc m) kind) = kv_heads_of kind"
    "n_q_heads (cm_desc m) = x_n_q_heads" "hidden_size (cm_desc m) = x_hidden" "ffn_size (cm_desc m) = x_ffn"
    unfolding d by (rule model_geometry)+
  define hd where "hd = head_dim_of kind"
  define nkv where "nkv = kv_heads_of kind"
  define win where "win = (case kind of Sliding \<Rightarrow> Some (sliding_window (cm_desc m)) | Global \<Rightarrow> None)"
  define rr where "rr = rope_of ar m kind"
  have len_rr: "length (rr p) = hd div 2 * 2" for p by (simp add: rr_def length_rope_of geo hd_def)
  define R where "R = (case kind of Sliding \<Rightarrow> Rv | Global \<Rightarrow> Rk)"
  define nf where "nf = tok_norm ar m W1"
  define qf where "qf = (\<lambda>p x. heads_rope ar m hd Wq (rr p) (matvec ar Rq (nf x)))"
  define kf where "kf = (\<lambda>p x. heads_rope ar m hd Wk (rr p) (matvec ar Rk (nf x)))"
  define vf where "vf = (\<lambda>p::nat. \<lambda>x. tok_v ar m hd R (nf x))"
  define ao where "ao = (\<lambda>K V p x. matvec ar Ro (tok_attn ar x_n_q_heads nkv hd win (attn_scale (cm_conv m)) K V p (qf p x)))"
  define pf where "pf = (\<lambda>K V p x. tok_norm ar m W2 (ao K V p x))"
  define xf where "xf = (\<lambda>K V p x. add_rows ar x (pf K V p x))"
  define gf where "gf = tok_norm ar m V1"
  define ff where "ff = (\<lambda>x. matvec ar Rd (map (\<lambda>(g, u). f_mul ar (gelu_tanh ar g) u) (zip (matvec ar Rg (gf x)) (matvec ar Ru (gf x))) @
    drop (length (matvec ar Ru (gf x))) (matvec ar Rg (gf x))))"
  define hf where "hf = (\<lambda>x. tok_norm ar m V2 (ff x))"
  define yf where "yf = (\<lambda>x. if cv_output_scale (cm_conv m) then map (\<lambda>v. f_mul ar v (S ! 0)) (add_rows ar x (hf x)) else add_rows ar x (hf x))"
  define Ts where "Ts = [(''attn_norm'', Some layer, \<lambda>K V p x. nf x), (''q_rope'', Some layer, \<lambda>K V p x. qf p x),
    (''k_rope'', Some layer, \<lambda>K V p x. kf p x), (''v_norm'', Some layer, \<lambda>K V p x. vf p x), (''attn_out'', Some layer, ao),
    (''post_attn_norm'', Some layer, pf), (''h_attn'', Some layer, xf), (''ffn_norm'', Some layer, \<lambda>K V p x. gf (xf K V p x)),
    (''ffn_out'', Some layer, \<lambda>K V p x. ff (xf K V p x)), (''post_ffn_norm'', Some layer, \<lambda>K V p x. hf (xf K V p x)),
    (''layer_out'', Some layer, \<lambda>K V p x. yf (xf K V p x))]"
  have lR: "length R = nkv * hd" using has_matD [OF w(4)] has_matD [OF w(5)] by (cases kind) (simp_all add: R_def nkv_def hd_def)
  have hd0: "0 < hd" "nkv dvd x_n_q_heads" using head_dims by (simp_all add: hd_def nkv_def)
  have kvd: "kv_dim layer = nkv * hd" by (simp add: kv_dim_def nkv_def hd_def kind_def)
  have st: "causal (kv_dim layer) ao" "causal (kv_dim layer) pf" "causal (kv_dim layer) xf"
  proof -
    show 1: "causal (kv_dim layer) ao"
      unfolding ao_def kvd by (rule causal_comp [OF causal_attn [OF hd0(2)]])
    show 2: "causal (kv_dim layer) pf" unfolding pf_def by (rule causal_comp [OF 1])
    show "causal (kv_dim layer) xf" unfolding xf_def by (rule causal_comp [OF 2])
  qed
  have kv: "length (kf p x) = kv_dim layer \<and> length (vf p x) = kv_dim layer" for p x
    using length_heads(2) [OF hd0(1), of "matvec ar Rk (nf x)" nkv ar m Wk "rr p"] length_tok_v [OF hd0(1) lR] has_matD [OF w(4)]
    by (simp add: kvd kf_def vf_def hd_def nkv_def)
  have ls: "length (yf (xf K V p x)) = length x" for K V p x by (simp add: yf_def xf_def)
  have F: "ffn_block ar m layer (length Y) (concat Y) =
      Some (concat (map yf Y), [(''ffn_norm'', Some layer, concat (map gf Y)), (''ffn_out'', Some layer, concat (map ff Y)),
        (''post_ffn_norm'', Some layer, concat (map hf Y)), (''layer_out'', Some layer, concat (map yf Y))])"
    if "Y \<noteq> []" "rows x_hidden Y" for Y
    unfolding yf_def hf_def ff_def gf_def
    by (rule ffn_block_rows [where ar = ar and m = m and layer = layer and ?W1.0 = V1 and X = Y and Rg = Rg and
        Ru = Ru and Rd = Rd and ?W2.0 = V2 and S = S, unfolded geo]) (use f head_dims(4) that in simp_all)
  have main: "let P = [q0..<q0 + length X]; K' = K @ concat (map2 kf P X); V' = V @ concat (map2 vf P X) in
      run_layer ar m layer (length X) q0 (K, V) (concat X) =
        Some (concat (map2 (\<lambda>p x. yf (xf K' V' p x)) P X), (K', V'), taps_of Ts K' V' P X)"
    if X: "X \<noteq> []" "rows x_hidden X" and KV: "length K = q0 * kv_dim layer" "length V = q0 * kv_dim layer" for X q0 K V
  proof -
    let ?P = "[q0..<q0 + length X]"
    let ?K = "K @ concat (map2 kf ?P X)" and ?V = "V @ concat (map2 vf ?P X)"
    have "attn_block ar m layer (concat (map rr ?P)) (length X) q0 (K, V) (concat X) =
      Some (concat (map2 (xf ?K ?V) ?P X), (?K, ?V),
        [(''attn_norm'', Some layer, concat (map2 (\<lambda>p x. nf x) ?P X)), (''q_rope'', Some layer, concat (map2 qf ?P X)),
         (''k_rope'', Some layer, concat (map2 kf ?P X)), (''v_norm'', Some layer, concat (map2 vf ?P X)),
         (''attn_out'', Some layer, concat (map2 (ao ?K ?V) ?P X)), (''post_attn_norm'', Some layer, concat (map2 (pf ?K ?V) ?P X)),
         (''h_attn'', Some layer, concat (map2 (xf ?K ?V) ?P X))])"
      unfolding xf_def pf_def ao_def qf_def kf_def vf_def nf_def R_def win_def
      by (rule attn_block_rows [where ar = ar and m = m and layer = layer and ?W1.0 = W1 and X = X and rr = rr and ?q0.0 = q0 and Wk = Wk and
        Rk = Rk and Rv = Rv and K = K and V = V and Wq = Wq and Rq = Rq and Ro = Ro and ?W2.0 = W2, unfolded k geo,
        folded hd_def nkv_def])
        (simp_all add: w [folded hd_def nkv_def] head_dims hd0 len_rr X KV [unfolded kvd])
    moreover have "ffn_block ar m layer (length X) (concat (map2 (xf ?K ?V) ?P X)) =
      Some (concat (map yf (map2 (xf ?K ?V) ?P X)), [(''ffn_norm'', Some layer, concat (map gf (map2 (xf ?K ?V) ?P X))),
        (''ffn_out'', Some layer, concat (map ff (map2 (xf ?K ?V) ?P X))), (''post_ffn_norm'', Some layer, concat (map hf (map2 (xf ?K ?V) ?P X))),
        (''layer_out'', Some layer, concat (map yf (map2 (xf ?K ?V) ?P X)))])"
    proof -
      have Y: "map2 (xf ?K ?V) ?P X \<noteq> []" "rows x_hidden (map2 (xf ?K ?V) ?P X)" using X by (auto simp: xf_def dest: set_zip_rightD)
      show ?thesis using F [OF Y] by simp
    qed
    ultimately show ?thesis
      unfolding Let_def run_layer_def k rr_def [symmetric] by (simp add: taps_of_def Ts_def comp_def split_def)
  qed
  show ?thesis
    unfolding tokenwise_def
    by (intro exI [of _ kf] exI [of _ vf] exI [of _ "\<lambda>K V p x. yf (xf K V p x)"] exI [of _ Ts] conjI allI impI main kv)
      (auto simp: ls Ts_def causal_const st intro: causal_comp [OF st(3)])
qed

end
