(* ===== verification/Reference_Chunks.thy ===== *)
theory Reference_Chunks
  imports Reference_Props
begin

text \<open>
  From one layer to the stack: a prompt run in two pieces over the same cache, and run whole.
\<close>

subsection \<open>One layer\<close>

fun join_tap :: "'f tap \<Rightarrow> 'f tap \<Rightarrow> 'f tap" where
  "join_tap (nm, l, xs) (nm', l', ys) = (nm, l, xs @ ys)"

lemma length_map2_concat:
  assumes "length P = length X" and "rows h X" and "\<And>p x. length x = h \<Longrightarrow> length (f p x) = k"
  shows "length (concat (map2 f P X)) = length X * k"
proof -
  have "rows k (map2 f P X)" by (rule rows_map2 [OF assms(1,2)]) (rule assms(3))
  from length_concat_rows [OF this] show ?thesis using assms(1) by simp
qed

lemma map2_upt_append:
  "map2 f [q0..<q0 + length (A @ B)] (A @ B) = map2 f [q0..<q0 + length A] A @ map2 f [q0 + length A..<q0 + length A + length B] B"
proof -
  have "[q0..<q0 + length (A @ B)] = [q0..<q0 + length A] @ [q0 + length A..<q0 + length A + length B]"
    using upt_add_eq_append [of q0 "q0 + length A" "length B"] by (simp add: add.assoc)
  then show ?thesis by simp
qed

lemma causal_map2:
  assumes "causal kvd T" and "\<And>p. p \<in> set P \<Longrightarrow> (p + 1) * kvd \<le> length K \<and> (p + 1) * kvd \<le> length V"
  shows "map2 (T (K @ e) (V @ e')) P X = map2 (T K V) P X"
  using assms by (auto simp: causal_def intro!: map_cong dest!: set_zip_leftD)

lemma upto_bound: "p \<in> set [q0..<q0 + n] \<Longrightarrow> (p + 1) * k \<le> (q0 + n) * (k :: nat)"
  by (rule mult_le_mono1) simp

lemma tokenwiseE:
  assumes "tokenwise h kvd L"
  obtains kf vf xf Ts where
    "\<And>p x. length x = h \<Longrightarrow> length (kf p x) = kvd" "\<And>p x. length x = h \<Longrightarrow> length (vf p x) = kvd"
    "\<And>K V p x. length x = h \<Longrightarrow> length (xf K V p x) = h"
    "\<And>X q0 K V. X \<noteq> [] \<Longrightarrow> rows h X \<Longrightarrow> length K = q0 * kvd \<Longrightarrow> length V = q0 * kvd \<Longrightarrow>
       (let P = [q0..<q0 + length X]; K' = K @ concat (map2 kf P X); V' = V @ concat (map2 vf P X) in
        L (length X) q0 (K, V) (concat X) = Some (concat (map2 (xf K' V') P X), (K', V'), taps_of Ts K' V' P X))"
    "causal kvd xf" "\<And>nm l T. (nm, l, T) \<in> set Ts \<Longrightarrow> causal kvd T"
proof -
  from assms obtain kf vf xf Ts where
    1: "\<forall>p x. length x = h \<longrightarrow> length (kf p x) = kvd \<and> length (vf p x) = kvd" and
    2: "\<forall>K V p x. length x = h \<longrightarrow> length (xf K V p x) = h" and
    3: "causal kvd xf" and 4: "\<forall>(nm, l, T) \<in> set Ts. causal kvd T" and
    5: "\<forall>X q0 K V. X \<noteq> [] \<longrightarrow> rows h X \<longrightarrow> length K = q0 * kvd \<longrightarrow> length V = q0 * kvd \<longrightarrow>
       (let P = [q0..<q0 + length X]; K' = K @ concat (map2 kf P X); V' = V @ concat (map2 vf P X) in
        L (length X) q0 (K, V) (concat X) = Some (concat (map2 (xf K' V') P X), (K', V'), taps_of Ts K' V' P X))"
    unfolding tokenwise_def by (elim exE conjE)
  have k: "\<And>p x. length x = h \<Longrightarrow> length (kf p x) = kvd" and v: "\<And>p x. length x = h \<Longrightarrow> length (vf p x) = kvd"
    using 1 by simp_all
  have t: "\<And>nm l T. (nm, l, T) \<in> set Ts \<Longrightarrow> causal kvd T" using 4 by auto
  have x: "\<And>K V p x. length x = h \<Longrightarrow> length (xf K V p x) = h" using 2 by simp
  note L = 5 [THEN spec, THEN spec, THEN spec, THEN spec, THEN mp, THEN mp, THEN mp, THEN mp]
  show thesis by (rule that [OF k v x L 3 t])
qed

lemma tokenwise_run:
  assumes t: "tokenwise h kvd L" and X: "X \<noteq> []" "rows h X" and KV: "length K = q0 * kvd" "length V = q0 * kvd"
  shows "\<exists>X' K' V' ts. L (length X) q0 (K, V) (concat X) = Some (concat X', (K', V'), ts) \<and> length X' = length X \<and> rows h X' \<and>
    length K' = (q0 + length X) * kvd \<and> length V' = (q0 + length X) * kvd"
proof -
  from t obtain kf vf xf Ts where *:
    "\<And>p x. length x = h \<Longrightarrow> length (kf p x) = kvd" "\<And>p x. length x = h \<Longrightarrow> length (vf p x) = kvd"
    "\<And>K V p x. length x = h \<Longrightarrow> length (xf K V p x) = h"
    "\<And>X q0 K V. X \<noteq> [] \<Longrightarrow> rows h X \<Longrightarrow> length K = q0 * kvd \<Longrightarrow> length V = q0 * kvd \<Longrightarrow>
       (let P = [q0..<q0 + length X]; K' = K @ concat (map2 kf P X); V' = V @ concat (map2 vf P X) in
        L (length X) q0 (K, V) (concat X) = Some (concat (map2 (xf K' V') P X), (K', V'), taps_of Ts K' V' P X))"
    and st: "causal kvd xf" "\<And>nm l T. (nm, l, T) \<in> set Ts \<Longrightarrow> causal kvd T"
    by (rule tokenwiseE) (rule that, assumption+)
  let ?P = "[q0..<q0 + length X]"
  have lP: "length ?P = length X" by simp
  have k: "length (concat (map2 kf ?P X)) = length X * kvd" "length (concat (map2 vf ?P X)) = length X * kvd"
    by (rule length_map2_concat [OF lP X(2)], rule *(1,2), assumption)+
  let ?K = "K @ concat (map2 kf ?P X)" and ?V = "V @ concat (map2 vf ?P X)"
  have r: "rows h (map2 (xf ?K ?V) ?P X)" by (rule rows_map2 [OF lP X(2)]) (rule *(3))
  have lK: "length ?K = (q0 + length X) * kvd" "length ?V = (q0 + length X) * kvd"
    using k KV by (simp_all add: add_mult_distrib del: length_concat)
  from *(4) [OF X KV] have "L (length X) q0 (K, V) (concat X) = Some (concat (map2 (xf ?K ?V) ?P X), (?K, ?V), taps_of Ts ?K ?V ?P X)"
    unfolding Let_def .
  moreover have "length (map2 (xf ?K ?V) ?P X) = length X" by simp
  ultimately show ?thesis using r lK by blast
qed

lemma map2_same: "map2 j (map f xs) (map g xs) = map (\<lambda>t. j (f t) (g t)) xs"
  by (induction xs) simp_all

lemma tokenwise_split:
  assumes t: "tokenwise h kvd L" and A: "A \<noteq> []" "rows h A" and B: "B \<noteq> []" "rows h B"
    and KV: "length K = q0 * kvd" "length V = q0 * kvd"
  shows "\<exists>A' B' kvA kvB tA tB. L (length A) q0 (K, V) (concat A) = Some (concat A', kvA, tA) \<and>
    L (length B) (q0 + length A) kvA (concat B) = Some (concat B', kvB, tB) \<and>
    L (length (A @ B)) q0 (K, V) (concat (A @ B)) = Some (concat (A' @ B'), kvB, map2 join_tap tA tB) \<and>
    length A' = length A \<and> rows h A' \<and> length B' = length B \<and> rows h B' \<and> length tA = length tB \<and>
    length (fst kvA) = (q0 + length A) * kvd \<and> length (snd kvA) = (q0 + length A) * kvd"
proof -
  from t obtain kf vf xf Ts where *:
    "\<And>p x. length x = h \<Longrightarrow> length (kf p x) = kvd" "\<And>p x. length x = h \<Longrightarrow> length (vf p x) = kvd"
    "\<And>K V p x. length x = h \<Longrightarrow> length (xf K V p x) = h"
    "\<And>X q0 K V. X \<noteq> [] \<Longrightarrow> rows h X \<Longrightarrow> length K = q0 * kvd \<Longrightarrow> length V = q0 * kvd \<Longrightarrow>
       (let P = [q0..<q0 + length X]; K' = K @ concat (map2 kf P X); V' = V @ concat (map2 vf P X) in
        L (length X) q0 (K, V) (concat X) = Some (concat (map2 (xf K' V') P X), (K', V'), taps_of Ts K' V' P X))"
    and st: "causal kvd xf" "\<And>nm l T. (nm, l, T) \<in> set Ts \<Longrightarrow> causal kvd T"
    by (rule tokenwiseE) (rule that, assumption+)
  let ?P = "[q0..<q0 + length A]" and ?Q = "[q0 + length A..<q0 + length A + length B]"
  let ?K = "K @ concat (map2 kf ?P A)" and ?V = "V @ concat (map2 vf ?P A)"
  let ?K' = "?K @ concat (map2 kf ?Q B)" and ?V' = "?V @ concat (map2 vf ?Q B)"
  have lP: "length ?P = length A" "length ?Q = length B" by simp_all
  have k: "length (concat (map2 kf ?P A)) = length A * kvd" "length (concat (map2 vf ?P A)) = length A * kvd"
    by (rule length_map2_concat [OF lP(1) A(2)], rule *(1,2), assumption)+
  have lK: "length ?K = (q0 + length A) * kvd" "length ?V = (q0 + length A) * kvd"
    using k KV by (simp_all add: add_mult_distrib del: length_concat)
  have rA: "L (length A) q0 (K, V) (concat A) = Some (concat (map2 (xf ?K ?V) ?P A), (?K, ?V), taps_of Ts ?K ?V ?P A)"
    using *(4) [OF A KV] unfolding Let_def .
  have rB: "L (length B) (q0 + length A) (?K, ?V) (concat B) = Some (concat (map2 (xf ?K' ?V') ?Q B), (?K', ?V'), taps_of Ts ?K' ?V' ?Q B)"
    using *(4) [OF B lK] unfolding Let_def .
  have AB: "A @ B \<noteq> []" "rows h (A @ B)" using A B by auto
  have rAB: "L (length (A @ B)) q0 (K, V) (concat (A @ B)) =
      Some (concat (map2 (xf ?K' ?V') ?P A @ map2 (xf ?K' ?V') ?Q B), (?K', ?V'), taps_of Ts ?K' ?V' [q0..<q0 + length (A @ B)] (A @ B))"
    using *(4) [OF AB KV] unfolding Let_def map2_upt_append concat_append append_assoc .
  have b: "(p + 1) * kvd \<le> length ?K \<and> (p + 1) * kvd \<le> length ?V" if "p \<in> set ?P" for p
    unfolding lK using upto_bound [OF that] by blast
  have x: "map2 (xf ?K' ?V') ?P A = map2 (xf ?K ?V) ?P A" by (rule causal_map2 [OF st(1) b])
  have ts: "taps_of Ts ?K' ?V' [q0..<q0 + length (A @ B)] (A @ B) = map2 join_tap (taps_of Ts ?K ?V ?P A) (taps_of Ts ?K' ?V' ?Q B)"
    unfolding taps_of_def map2_upt_append map2_same
  proof (rule map_cong [OF refl])
    fix t assume "t \<in> set Ts"
    moreover obtain nm l T where t: "t = (nm, l, T)" by (cases t)
    ultimately have "causal kvd T" using st(2) by simp
    from causal_map2 [OF this b] have "map2 (T ?K' ?V') ?P A = map2 (T ?K ?V) ?P A" by blast
    then show "(case t of (nm, l, T) \<Rightarrow> (nm, l, concat (map2 (T ?K' ?V') ?P A @ map2 (T ?K' ?V') ?Q B))) =
      join_tap (case t of (nm, l, T) \<Rightarrow> (nm, l, concat (map2 (T ?K ?V) ?P A)))
        (case t of (nm, l, T) \<Rightarrow> (nm, l, concat (map2 (T ?K' ?V') ?Q B)))"
      by (simp only: t prod.case join_tap.simps concat_append)
  qed
  have r: "rows h (map2 (xf ?K ?V) ?P A)" "rows h (map2 (xf ?K' ?V') ?Q B)"
    by (rule rows_map2 [OF lP(1) A(2)], rule *(3), assumption) (rule rows_map2 [OF lP(2) B(2)], rule *(3), assumption)
  have l: "length (map2 (xf ?K ?V) ?P A) = length A" "length (map2 (xf ?K' ?V') ?Q B) = length B"
    "length (taps_of Ts ?K ?V ?P A) = length (taps_of Ts ?K' ?V' ?Q B)" by (simp_all add: taps_of_def)
  have "length (fst (?K, ?V)) = (q0 + length A) * kvd" "length (snd (?K, ?V)) = (q0 + length A) * kvd" using lK by simp_all
  with rA rB rAB [unfolded x ts] l r show ?thesis by blast
qed

subsection \<open>The stack\<close>

definition run :: "('f, 'd) arith \<Rightarrow> 'f cpu_model \<Rightarrow> nat \<Rightarrow> nat \<Rightarrow> nat list \<Rightarrow> ('f list \<times> 'f list) list \<Rightarrow> 'f list \<Rightarrow>
    ('f list \<times> ('f list \<times> 'f list) list \<times> 'f tap list) option" where
  "run ar m n q0 = run_layers ar m (concat (map (rope_of ar m Sliding) [q0..<q0 + n]))
     (concat (map (rope_of ar m Global) [q0..<q0 + n])) n q0"

lemma run_Nil: "run ar m n q0 [] kvs x = Some (x, kvs, [])"
  by (simp add: run_def)

lemma run_Cons:
  assumes "layer < length kvs" and "layer < length (layer_kinds (cm_desc m))"
  shows "run ar m n q0 (layer # ls) kvs x =
    do { (x1, kv, t1) \<leftarrow> run_layer ar m layer n q0 (kvs ! layer) x;
         (x2, kvs', t2) \<leftarrow> run ar m n q0 ls (kvs[layer := kv]) x1;
         Some (x2, kvs', t1 @ t2) }"
proof -
  have tables: "(case layer_kinds (cm_desc m) ! layer of Sliding \<Rightarrow> concat (map (rope_of ar m Sliding) [q0..<q0 + n])
      | Global \<Rightarrow> concat (map (rope_of ar m Global) [q0..<q0 + n])) =
      concat (map (rope_of ar m (layer_kinds (cm_desc m) ! layer)) [q0..<q0 + n])"
    by (simp split: layer_kind.split)
  show ?thesis
    using assms unfolding run_def run_layer_def
    by (simp only: run_layers.simps tables) (simp add: split_def)
qed

lemma run_frame:
  assumes "l \<notin> set ls" and "\<forall>i \<in> set ls. i < length kvs \<and> i < length (layer_kinds (cm_desc m))"
  shows "run ar m n q0 ls (kvs[l := v]) x = map_option (\<lambda>(x, k, t). (x, k[l := v], t)) (run ar m n q0 ls kvs x)"
  using assms
proof (induction ls arbitrary: kvs x)
  case (Cons i ls)
  have i: "i < length kvs" "i < length (layer_kinds (cm_desc m))" "i \<noteq> l" using Cons.prems by auto
  have "run ar m n q0 ls ((kvs[l := v])[i := kv]) y = map_option (\<lambda>(x, k, t). (x, k[l := v], t)) (run ar m n q0 ls (kvs[i := kv]) y)" for kv y
    using Cons.IH [of "kvs[i := kv]" y] Cons.prems i(3) by (simp add: list_update_swap)
  then show ?case
    using i by (simp add: run_Cons split_def) (auto split: option.split bind_splits)
qed (simp add: run_Nil)

lemma run_keeps:
  assumes "run ar m n q0 ls kvs x = Some (x', kvs', t)" and "\<forall>i \<in> set ls. i < length kvs \<and> i < length (layer_kinds (cm_desc m))"
  shows "length kvs' = length kvs \<and> (\<forall>l. l \<notin> set ls \<longrightarrow> kvs' ! l = kvs ! l)"
  using assms
proof (induction ls arbitrary: kvs x t)
  case (Cons i ls)
  then have i: "i < length kvs" "i < length (layer_kinds (cm_desc m))" by simp_all
  from Cons.prems(1) obtain x1 kv t2 where r: "run ar m n q0 ls (kvs[i := kv]) x1 = Some (x', kvs', t2)"
    by (auto simp: run_Cons [OF i] bind_eq_Some_conv)
  from Cons.IH [OF r] Cons.prems(2) show ?case by auto
qed (simp add: run_Nil)

definition kv_ok :: "nat \<Rightarrow> nat list \<Rightarrow> ('f list \<times> 'f list) list \<Rightarrow> bool" where
  "kv_ok q0 ls kvs \<longleftrightarrow> length kvs = x_n_layers \<and>
     (\<forall>l \<in> set ls. length (fst (kvs ! l)) = q0 * kv_dim l \<and> length (snd (kvs ! l)) = q0 * kv_dim l)"

lemma model_layers: "length (layer_kinds the_model) = x_n_layers"
  by (simp add: the_model_def)

lemma run_ok:
  assumes l: "cpu_ready ar m" and ls: "distinct ls" "\<forall>i \<in> set ls. i < x_n_layers" and kv: "kv_ok q0 ls kvs"
    and X: "X \<noteq> []" "rows x_hidden X"
  shows "\<exists>X' kvs' t. run ar m (length X) q0 ls kvs (concat X) = Some (concat X', kvs', t) \<and> length X' = length X \<and>
    rows x_hidden X' \<and> kv_ok (q0 + length X) ls kvs'"
  using ls kv X
proof (induction ls arbitrary: kvs X)
  case Nil
  then show ?case by (auto simp: run_Nil kv_ok_def)
next
  case (Cons i ls)
  have m: "length (layer_kinds (cm_desc m)) = x_n_layers" using cpu_readyD [OF l] model_layers by metis
  have i: "i < length kvs" "i < length (layer_kinds (cm_desc m))" using Cons.prems(2,3) m by (auto simp: kv_ok_def)
  obtain K V where KV: "kvs ! i = (K, V)" by fastforce
  then have lKV: "length K = q0 * kv_dim i" "length V = q0 * kv_dim i" using Cons.prems(3) by (auto simp: kv_ok_def)
  have "tokenwise x_hidden (kv_dim i) (run_layer ar m i)" using layer_tokenwise [OF l] Cons.prems(2) by simp
  from tokenwise_run [OF this Cons.prems(4,5) lKV] obtain X1 K1 V1 t1 where
    r1: "run_layer ar m i (length X) q0 (kvs ! i) (concat X) = Some (concat X1, (K1, V1), t1)" "length X1 = length X" "rows x_hidden X1"
      "length K1 = (q0 + length X) * kv_dim i" "length V1 = (q0 + length X) * kv_dim i" using KV by auto
  have "kv_ok q0 ls (kvs[i := (K1, V1)])" "distinct ls" "\<forall>i \<in> set ls. i < x_n_layers" "X1 \<noteq> []"
    using Cons.prems r1(2) by (auto simp: kv_ok_def nth_list_update)
  from Cons.IH [OF this(2,3,1,4) r1(3)] obtain X2 kvs2 t2 where
    r2: "run ar m (length X) q0 ls (kvs[i := (K1, V1)]) (concat X1) = Some (concat X2, kvs2, t2)" "length X2 = length X"
      "rows x_hidden X2" "kv_ok (q0 + length X) ls kvs2" unfolding r1(2) by blast
  have "kvs2 ! i = (K1, V1)"
    using run_keeps [OF r2(1)] Cons.prems(1,2,3) i m by (auto simp: kv_ok_def)
  then have "kv_ok (q0 + length X) (i # ls) kvs2" using r2(4) r1(4,5) by (simp add: kv_ok_def)
  moreover have "run ar m (length X) q0 (i # ls) kvs (concat X) = Some (concat X2, kvs2, t1 @ t2)"
    by (simp add: run_Cons [OF i] r1(1) r2(1))
  ultimately show ?case using r2(2,3) by blast
qed

lemma run_split:
  assumes l: "cpu_ready ar m" and ls: "distinct ls" "\<forall>i \<in> set ls. i < x_n_layers" and kv: "kv_ok q0 ls kvs"
    and A: "A \<noteq> []" "rows x_hidden A" and B: "B \<noteq> []" "rows x_hidden B"
  shows "\<exists>A' B' kvsA kvsB tA tB. run ar m (length A) q0 ls kvs (concat A) = Some (concat A', kvsA, tA) \<and>
    run ar m (length B) (q0 + length A) ls kvsA (concat B) = Some (concat B', kvsB, tB) \<and>
    run ar m (length (A @ B)) q0 ls kvs (concat (A @ B)) = Some (concat (A' @ B'), kvsB, map2 join_tap tA tB) \<and>
    length A' = length A \<and> rows x_hidden A' \<and> length B' = length B \<and> rows x_hidden B' \<and> length tA = length tB"
  using ls kv A B
proof (induction ls arbitrary: kvs A B)
  case Nil
  have "run ar m (length A) q0 [] kvs (concat A) = Some (concat A, kvs, []) \<and>
    run ar m (length B) (q0 + length A) [] kvs (concat B) = Some (concat B, kvs, []) \<and>
    run ar m (length (A @ B)) q0 [] kvs (concat (A @ B)) = Some (concat (A @ B), kvs, map2 join_tap [] [])"
    by (simp add: run_Nil)
  then show ?case using Nil.prems(5,7) by blast
next
  case (Cons i ls)
  have m: "length (layer_kinds (cm_desc m)) = x_n_layers" using cpu_readyD [OF l] model_layers by metis
  have n: "length kvs = x_n_layers" "i < x_n_layers" "i \<notin> set ls" using Cons.prems(1-3) by (auto simp: kv_ok_def)
  have bounds: "\<forall>j \<in> set ls. j < length ks \<and> j < length (layer_kinds (cm_desc m))" if "length ks = x_n_layers" for ks :: "('a list \<times> 'a list) list"
    using Cons.prems(2) m that by auto
  have step: "run ar m n q (i # ls) ks x = do { (x1, kv, t1) \<leftarrow> run_layer ar m i n q (ks ! i) x;
      (x2, ks', t2) \<leftarrow> run ar m n q ls (ks[i := kv]) x1; Some (x2, ks', t1 @ t2) }" if "length ks = x_n_layers" for n q ks x
    using that n(2) m by (intro run_Cons) simp_all
  obtain K V where KV: "kvs ! i = (K, V)" by fastforce
  then have lKV: "length K = q0 * kv_dim i" "length V = q0 * kv_dim i" using Cons.prems(3) by (auto simp: kv_ok_def)
  have "tokenwise x_hidden (kv_dim i) (run_layer ar m i)" using layer_tokenwise [OF l n(2)] .
  from tokenwise_split [OF this Cons.prems(4-7) lKV] obtain A1 B1 kvA kvB t1 u1 where
    r1: "run_layer ar m i (length A) q0 (kvs ! i) (concat A) = Some (concat A1, kvA, t1)"
      "run_layer ar m i (length B) (q0 + length A) kvA (concat B) = Some (concat B1, kvB, u1)"
      "run_layer ar m i (length (A @ B)) q0 (kvs ! i) (concat (A @ B)) = Some (concat (A1 @ B1), kvB, map2 join_tap t1 u1)"
      "length A1 = length A" "rows x_hidden A1" "length B1 = length B" "rows x_hidden B1" "length t1 = length u1"
    unfolding KV by blast
  let ?ks = "kvs[i := kvA]"
  have "distinct ls" "\<forall>j \<in> set ls. j < x_n_layers" "kv_ok q0 ls ?ks" "A1 \<noteq> []" "B1 \<noteq> []"
    using Cons.prems r1(4,6) by (auto simp: kv_ok_def nth_list_update)
  from Cons.IH [OF this(1-4) r1(5) this(5) r1(7)] obtain A2 B2 ksA ksB t2 u2 where
    r2: "run ar m (length A) q0 ls ?ks (concat A1) = Some (concat A2, ksA, t2)"
      "run ar m (length B) (q0 + length A) ls ksA (concat B1) = Some (concat B2, ksB, u2)"
      "run ar m (length (A @ B)) q0 ls ?ks (concat (A1 @ B1)) = Some (concat (A2 @ B2), ksB, map2 join_tap t2 u2)"
      "length A2 = length A" "rows x_hidden A2" "length B2 = length B" "rows x_hidden B2" "length t2 = length u2"
    unfolding r1(4,6) length_append by blast
  have lk: "length ?ks = x_n_layers" using n(1) by simp
  have kA: "length ksA = x_n_layers" "ksA ! i = kvA"
    using run_keeps [OF r2(1) bounds [OF lk]] n by simp_all
  have "run ar m (length A) q0 (i # ls) kvs (concat A) = Some (concat A2, ksA, t1 @ t2)"
    by (simp add: step [OF n(1)] r1(1) r2(1))
  moreover have "run ar m (length B) (q0 + length A) (i # ls) ksA (concat B) = Some (concat B2, ksB[i := kvB], u1 @ u2)"
    using run_frame [OF n(3) bounds [OF kA(1)], of ar "length B" "q0 + length A" kvB "concat B1"] r2(2)
    by (simp add: step [OF kA(1)] kA(2) r1(2))
  moreover have "run ar m (length (A @ B)) q0 (i # ls) kvs (concat (A @ B)) =
      Some (concat (A2 @ B2), ksB[i := kvB], map2 join_tap (t1 @ t2) (u1 @ u2))"
  proof -
    have "run ar m (length (A @ B)) q0 ls (kvs[i := kvB]) (concat (A1 @ B1)) =
        Some (concat (A2 @ B2), ksB[i := kvB], map2 join_tap t2 u2)"
      using run_frame [OF n(3) bounds [OF lk], of ar "length (A @ B)" q0 kvB "concat (A1 @ B1)"] unfolding r2(3) by simp
    moreover have "map2 join_tap (t1 @ t2) (u1 @ u2) = map2 join_tap t1 u1 @ map2 join_tap t2 u2" using r1(8) by simp
    ultimately show ?thesis unfolding step [OF n(1)] r1(3) by simp
  qed
  moreover have "length (t1 @ t2) = length (u1 @ u2)" using r1(8) r2(8) by simp
  ultimately show ?case using r2(4-7) by blast
qed

subsection \<open>Forward passes\<close>

text \<open>A cache as the forward passes leave it.\<close>

definition cache_ok :: "'f kv_cache \<Rightarrow> bool" where
  "cache_ok c \<longleftrightarrow> kv_ok (cached c) [0..<x_n_layers] (kv_layers c)"

lemma new_cache_ok: "cache_ok (kv_new the_model)"
  by (simp add: cache_ok_def kv_ok_def kv_new_def the_model_def)

lemma rope_tables:
  assumes "cpu_ready ar m" and "n = length tokens"
  shows "rope_table ar (map (\<lambda>i. of_nat (q0 + i)) [0..<n]) (head_dim (sliding (cm_desc m))) (rope_theta (sliding (cm_desc m))) None =
      Some (concat (map (rope_of ar m Sliding) [q0..<q0 + n]))"
    and "rope_table ar (map (\<lambda>i. of_nat (q0 + i)) [0..<n]) (head_dim (global (cm_desc m))) (rope_theta (global (cm_desc m))) (Some (rope_factors m)) =
      Some (concat (map (rope_of ar m Global) [q0..<q0 + n]))"
proof -
  have p: "map (\<lambda>i. f (of_nat (q0 + i))) [0..<n] = map (\<lambda>p. f (of_nat p)) [q0..<q0 + n]" for f :: "u32 \<Rightarrow> 'a list"
    by (intro nth_equalityI) simp_all
  have r: "length (rope_factors m) = head_dim (global (cm_desc m)) div 2"
  proof -
    have "cm_desc m = the_model" "length (rope_factors m) = 256" using cpu_readyD [OF assms(1)] by metis+
    then show ?thesis by (simp add: the_model_def x_global_head_dim_def)
  qed
  show "rope_table ar (map (\<lambda>i. of_nat (q0 + i)) [0..<n]) (head_dim (sliding (cm_desc m))) (rope_theta (sliding (cm_desc m))) None =
      Some (concat (map (rope_of ar m Sliding) [q0..<q0 + n]))"
    unfolding rope_table_def map_map comp_def p by (simp add: rope_of_def [abs_def] layer_geometry_def)
  show "rope_table ar (map (\<lambda>i. of_nat (q0 + i)) [0..<n]) (head_dim (global (cm_desc m))) (rope_theta (global (cm_desc m))) (Some (rope_factors m)) =
      Some (concat (map (rope_of ar m Global) [q0..<q0 + n]))"
    unfolding rope_table_def map_map comp_def p by (simp add: rope_of_def [abs_def] layer_geometry_def r)
qed

lemma those_eq_Some: "those xs = Some ys \<longleftrightarrow> xs = map Some ys"
  by (induction xs arbitrary: ys) (auto split: option.splits)

text \<open>What is around the stack: an embedding per token, a norm per row and the logits of the last row.\<close>

definition shaped :: "('f, 'd) arith \<Rightarrow> 'f cpu_model \<Rightarrow> (u32 \<Rightarrow> 'f list) \<Rightarrow> ('f list \<Rightarrow> 'f list) \<Rightarrow> ('f list \<Rightarrow> 'f list) \<Rightarrow> bool" where
  "shaped ar m E F G \<longleftrightarrow> (\<forall>t. unat t < x_vocab \<longrightarrow> length (E t) = x_hidden) \<and> (\<forall>x. length (G x) = x_vocab) \<and>
     (\<forall>tokens c X kvs ts. tokens \<noteq> [] \<longrightarrow> (\<forall>t \<in> set tokens. unat t < x_vocab) \<longrightarrow>
       run ar m (length tokens) (cached c) [0..<x_n_layers] (kv_layers c) (concat (map E tokens)) = Some (concat X, kvs, ts) \<longrightarrow>
       length X = length tokens \<longrightarrow> rows x_hidden X \<longrightarrow>
       forward ar m tokens c = Some (G (last X), \<lparr>kv_layers = kvs, cached = cached c + length tokens\<rparr>,
         (''embed'', None, concat (map E tokens)) # ts @
           [(''final_norm'', None, concat (map F X)), (''logits'', None, G (last X))]))"

lemma shapedD:
  assumes "shaped ar m E F G"
  shows "unat t < x_vocab \<Longrightarrow> length (E t) = x_hidden" and "length (G x) = x_vocab"
    and "tokens \<noteq> [] \<Longrightarrow> \<forall>t \<in> set tokens. unat t < x_vocab \<Longrightarrow>
      run ar m (length tokens) (cached c) [0..<x_n_layers] (kv_layers c) (concat (map E tokens)) = Some (concat X, kvs, ts) \<Longrightarrow>
      length X = length tokens \<Longrightarrow> rows x_hidden X \<Longrightarrow>
      forward ar m tokens c = Some (G (last X), \<lparr>kv_layers = kvs, cached = cached c + length tokens\<rparr>,
        (''embed'', None, concat (map E tokens)) # ts @
          [(''final_norm'', None, concat (map F X)), (''logits'', None, G (last X))])"
  using assms unfolding shaped_def by blast+

lemma forward_shape:
  assumes l: "cpu_ready ar m"
  obtains E F G where "shaped ar m E F G"
proof -
  have d: "cm_desc m = the_model" using cpu_readyD [OF l] by metis
  have sz: "hidden_size (cm_desc m) = x_hidden" "vocab_size (cm_desc m) = x_vocab" "n_layers (cm_desc m) = x_n_layers"
    by (simp_all add: d the_model_def)
  have e: "(''token_embd.weight'', [x_hidden, x_vocab], Q6_K) \<in> set expected_tensors"
    "(''output_norm.weight'', [x_hidden], F32) \<in> set expected_tensors"
    by (simp_all add: expected_tensors_def x_embed_dtype_def)
  have q: "quantized Q6_K x_hidden" by (simp add: quantized_def x_hidden_def)
  obtain R where "has_mat ar m ''token_embd.weight'' x_hidden x_vocab R" using loaded_mat [OF l e(1) q] .
  then obtain w where w: "mat m ''token_embd.weight'' x_hidden x_vocab = Some w" "mw_in w = x_hidden" "mw_out w = x_vocab"
    "weight_rows ar w = Some R" "length R = x_vocab" "rows x_hidden R" by (auto simp: has_mat_def)
  obtain W where W: "has_norm ar m ''output_norm.weight'' x_hidden W" using loaded_norm [OF l e(2)] .
  define E where "E = (\<lambda>t::u32. map (\<lambda>v. f_mul ar v (embed_scale (cm_conv m))) (R ! unat t))"
  define G where "G = (\<lambda>x. softcap ar (cm_desc m) (matvec ar R x))"
  have row: "dequant_row ar w r (replicate x_hidden (f_zero ar)) = Some (R ! r)" if "r < x_vocab" for r
  proof -
    have "map (\<lambda>r. dequant_row ar w r (replicate x_hidden (f_zero ar))) [0..<x_vocab] = map Some R"
      using w(2-4) by (simp add: weight_rows_def those_eq_Some)
    then have "map (\<lambda>r. dequant_row ar w r (replicate x_hidden (f_zero ar))) [0..<x_vocab] ! r = map Some R ! r" by (rule arg_cong)
    then show ?thesis using that w(5) by simp
  qed
  have emb: "embed ar m w tokens = Some (concat (map E tokens))" if "\<forall>t \<in> set tokens. unat t < x_vocab" for tokens
    using those_map_Some [of tokens "\<lambda>t. dequant_row ar w (unat t) (replicate x_hidden (f_zero ar))" "\<lambda>t. R ! unat t"] row that
    by (simp add: embed_def sz E_def comp_def)
  have "shaped ar m E (tok_norm ar m W) (G \<circ> tok_norm ar m W)" unfolding shaped_def
  proof (intro conjI allI impI)
    show "length (E t) = x_hidden" if "unat t < x_vocab" for t using that w(5,6) by (simp add: E_def)
    show "length ((G \<circ> tok_norm ar m W) x) = x_vocab" for x using w(5) by (simp add: G_def softcap_def)
  next
    fix tokens X kvs ts and c :: "'a kv_cache"
    assume t: "tokens \<noteq> []" "\<forall>t \<in> set tokens. unat t < x_vocab"
      and r: "run ar m (length tokens) (cached c) [0..<x_n_layers] (kv_layers c) (concat (map E tokens)) = Some (concat X, kvs, ts)"
      and X: "length X = length tokens" "rows x_hidden X"
    let ?F = "map (tok_norm ar m W) X"
    have n: "rmsnorm_rows ar m (concat X) x_hidden ''output_norm.weight'' = Some (concat ?F)"
      by (rule norm_rows [OF W head_dims(4) X(2)])
    have X0: "X \<noteq> []" using X(1) t(1) by auto
    have rF: "rows x_hidden ?F" using X(2) by simp
    have "length X - 1 < length ?F" using X0 by simp
    moreover have "?F ! (length X - 1) = tok_norm ar m W (last X)" using X0 by (simp add: last_conv_nth)
    ultimately have last: "sub_slice (concat ?F) ((length tokens - 1) * x_hidden) x_hidden = Some (tok_norm ar m W (last X))"
      using sub_slice_concat [OF rF, of "length X - 1"] X(1) by simp
    have "matmul ar w (concat [tok_norm ar m W (last X)]) (length [tok_norm ar m W (last X)]) =
        Some (concat (map (matvec ar R) [tok_norm ar m W (last X)]))"
      by (rule matmul_rows [OF w(4)]) (use w X X0 in simp_all)
    then have head: "matmul ar w (tok_norm ar m W (last X)) 1 = Some (matvec ar R (tok_norm ar m W (last X)))" by simp
    have "length tokens \<noteq> 0" using t(1) by simp
    then show "forward ar m tokens c = Some ((G \<circ> tok_norm ar m W) (last X), \<lparr>kv_layers = kvs, cached = cached c + length tokens\<rparr>,
        (''embed'', None, concat (map E tokens)) # ts @
          [(''final_norm'', None, concat ?F), (''logits'', None, (G \<circ> tok_norm ar m W) (last X))])"
      unfolding forward_def Let_def sz w(1) rope_tables [OF l refl] emb [OF t(2)] Option.bind_lunit
        r [unfolded run_def] prod.case n if_False last head G_def comp_def
      by simp
  qed
  then show thesis by (rule that)
qed

text \<open>
  C7: On a model loaded from a file that parses and validates, whatever its conventions, a forward
  pass over a non-empty list of tokens of the vocabulary and a cache as earlier passes left it never
  panics: no slice, shape assertion, unwrap or block cast fails. It gives one logit per token of the
  vocabulary, and a cache that is longer by the tokens, with as many keys and values in every layer.
\<close>

theorem forward_total:
  assumes "cpu_ready ar m" and "cache_ok c" and "tokens \<noteq> []" and "\<forall>t \<in> set tokens. unat t < x_vocab"
  shows "\<exists>logits c' taps. forward ar m tokens c = Some (logits, c', taps) \<and> length logits = x_vocab \<and>
    cached c' = cached c + length tokens \<and> cache_ok c'"
proof -
  obtain E F G where sh: "shaped ar m E F G" using forward_shape [OF assms(1)] .
  note E = shapedD(1) [OF sh] and f = shapedD(3) [OF sh]
  have "rows x_hidden (map E tokens)" "map E tokens \<noteq> []" using E assms(3,4) by auto
  from run_ok [OF assms(1) _ _ assms(2) [unfolded cache_ok_def] this(2,1)] obtain X kvs ts where
    r: "run ar m (length tokens) (cached c) [0..<x_n_layers] (kv_layers c) (concat (map E tokens)) = Some (concat X, kvs, ts)"
      "length X = length tokens" "rows x_hidden X" "kv_ok (cached c + length tokens) [0..<x_n_layers] kvs" by auto
  show ?thesis
    using f [OF assms(3,4) r(1-3)] r(4) shapedD(2) [OF sh] by (auto simp: cache_ok_def)
qed

text \<open>
  C6: Running a prompt in two pieces over one cache is running it whole: the second piece ends with
  the same logits and the same cache, and every activation that is tapped in the whole run, in every
  layer, is what the two pieces tap, one after the other (but for the logits, which are those of the
  last token). Evaluating a prompt in chunks or token by token is the same computation, bit for bit,
  whatever the floating-point operations do.
\<close>

theorem forward_chunks:
  assumes "cpu_ready ar m" and "cache_ok c" and "xs \<noteq> []" "\<forall>t \<in> set xs. unat t < x_vocab" and "ys \<noteq> []" "\<forall>t \<in> set ys. unat t < x_vocab"
  shows "\<exists>lx cx tx ly cy ty. forward ar m xs c = Some (lx, cx, tx) \<and> forward ar m ys cx = Some (ly, cy, ty) \<and>
    forward ar m (xs @ ys) c = Some (ly, cy, map2 join_tap (butlast tx) (butlast ty) @ [last ty])"
proof -
  obtain E F G where sh: "shaped ar m E F G" using forward_shape [OF assms(1)] .
  note E = shapedD(1) [OF sh] and f = shapedD(3) [OF sh]
  have "rows x_hidden (map E xs)" "map E xs \<noteq> []" "rows x_hidden (map E ys)" "map E ys \<noteq> []" using E assms(3-6) by auto
  from run_split [OF assms(1) _ _ assms(2) [unfolded cache_ok_def] this(2,1,4,3)] obtain A B kA kB tA tB where
    r: "run ar m (length xs) (cached c) [0..<x_n_layers] (kv_layers c) (concat (map E xs)) = Some (concat A, kA, tA)"
      "run ar m (length ys) (cached c + length xs) [0..<x_n_layers] kA (concat (map E ys)) = Some (concat B, kB, tB)"
      "run ar m (length (xs @ ys)) (cached c) [0..<x_n_layers] (kv_layers c) (concat (map E (xs @ ys))) =
        Some (concat (A @ B), kB, map2 join_tap tA tB)"
    and len: "length A = length xs" "rows x_hidden A" "length B = length ys" "rows x_hidden B" "length tA = length tB"
    by (auto simp del: concat_append length_concat)
  let ?cx = "\<lparr>kv_layers = kA, cached = cached c + length xs\<rparr>"
  have fx: "forward ar m xs c = Some (G (last A), ?cx, (''embed'', None, concat (map E xs)) # tA @
      [(''final_norm'', None, concat (map F A)), (''logits'', None, G (last A))])"
    by (rule f [OF assms(3,4) r(1) len(1,2)])
  have fy: "forward ar m ys ?cx = Some (G (last B), \<lparr>kv_layers = kB, cached = cached ?cx + length ys\<rparr>,
      (''embed'', None, concat (map E ys)) # tB @ [(''final_norm'', None, concat (map F B)), (''logits'', None, G (last B))])"
    by (rule f [OF assms(5,6) _ len(3,4)]) (use r(2) in simp)
  have AB: "xs @ ys \<noteq> []" "length (A @ B) = length (xs @ ys)" "rows x_hidden (A @ B)" "last (A @ B) = last B"
    using assms(3,5) len by (auto simp: last_append)
  have fxy: "forward ar m (xs @ ys) c = Some (G (last (A @ B)), \<lparr>kv_layers = kB, cached = cached c + length (xs @ ys)\<rparr>,
      (''embed'', None, concat (map E (xs @ ys))) # map2 join_tap tA tB @
        [(''final_norm'', None, concat (map F (A @ B))), (''logits'', None, G (last (A @ B)))])"
    by (rule f [OF AB(1) _ r(3) AB(2,3)]) (use assms(4,6) in auto)
  show ?thesis
    using fx fy fxy [unfolded AB(4)] len(5) by (simp add: butlast_append add.assoc)
qed

subsection \<open>A model that loads\<close>

definition int_arith :: "(int, int) arith" where
  "int_arith = \<lparr>ar_quant = int_ops, of_bits = uint, f_add = (+), f_sub = (-), f_div = (div), f_sqrt = id, f_tanh = id,
     widen = id, narrow = id, d_lit = (\<lambda>m k. m), d_of_nat = int, d_neg_infinity = - 1000, d_sum_start = 0, d_add = (+), d_sub = (-),
     d_mul = (*), d_div = (div), d_max = max, d_pow = (\<lambda>x y. x), d_sqrt = id, d_exp = id, d_tanh = id, d_cos = id, d_sin = id\<rparr>"

definition sample_cpu :: "int cpu_model" where
  "sample_cpu = \<lparr>cm_gguf = model_gguf, cm_address = (\<lambda>name. 0), cm_desc = the_model,
     cm_conv = pinned int_arith (hidden_size the_model), rope_factors = model_factors\<rparr>"

lemma model_factors_tensor: "f32_tensor model_gguf ''rope_freqs.weight'' = Some (Inr model_factors)"
proof -
  have e: "(''rope_freqs.weight'', [x_global_head_dim div 2], F32) \<in> set expected_tensors"
    by (simp add: expected_tensors_def)
  obtain t bs where t: "tensor model_gguf ''rope_freqs.weight'' = Some t" "dtype t = F32" "data_of model_gguf t = Some bs"
    "length bs = tensor_size [x_global_head_dim div 2] F32" "t \<in> set (tensors model_gguf)"
    by (rule expected_in_file [OF model_parse(1) model_validates e])
  have "toffset t = 0" using t(5) by (auto simp: model_parse(2) model_info_def)
  then have "bs = take (length bs) model_data"
    using t(3) by (auto simp: data_of_def model_gguf_data split: if_splits)
  moreover have "length bs = 1024" using t(4) by (simp add: tensor_size_def x_global_head_dim_def)
  ultimately have "bs = put_words 4 model_factors"
    by (simp add: model_data_def length_put_words model_factors_def)
  then show ?thesis
    using t(1-3) vec_from_le_put_words [of 4 model_factors] by (simp add: f32_tensor_def)
qed

lemma model_factors_ok: "find (\<lambda>i. \<not> factor_ok 64 i (model_factors ! i)) [0..<256] = None"
  by (auto simp: find_None_iff model_factors_def factor_ok_def nth_append)

lemma sample_loaded: "cpu_ready int_arith sample_cpu"
proof -
  have "head_dim (global the_model) = 512" "length model_factors = 256"
    by (simp_all add: the_model_def x_global_head_dim_def model_factors_def)
  then have "cpu_new int_arith (\<lambda>name. 0) model_gguf = Some (Inr sample_cpu)"
    using model_factors_tensor model_factors_ok
    by (simp add: cpu_new_def model_validates sample_cpu_def Let_def)
  then show ?thesis
    using model_parse(1) by (auto simp: cpu_ready_def sample_cpu_def)
qed

theorem forward_total_witness:
  "\<exists>logits c' taps. forward int_arith sample_cpu [2, 105, 9731] (kv_new the_model) = Some (logits, c', taps) \<and>
    length logits = x_vocab \<and> cached c' = cached (kv_new the_model :: int kv_cache) + length [2, 105, 9731 :: u32] \<and> cache_ok c'"
  by (rule forward_total [OF sample_loaded new_cache_ok]) (simp_all add: x_vocab_def)

theorem forward_chunks_witness:
  "\<exists>lx cx tx ly cy ty. forward int_arith sample_cpu [2, 105] (kv_new the_model) = Some (lx, cx, tx) \<and>
    forward int_arith sample_cpu [9731] cx = Some (ly, cy, ty) \<and>
    forward int_arith sample_cpu ([2, 105] @ [9731]) (kv_new the_model) =
      Some (ly, cy, map2 join_tap (butlast tx) (butlast ty) @ [last ty])"
  by (rule forward_chunks [OF sample_loaded new_cache_ok]) (simp_all add: x_vocab_def)

end
