(* ===== verification/Weight_Source.thy ===== *)
theory Weight_Source
  imports Gguf_Write
begin

text \<open>
  \<open>crates/sg-gguf/src/weights.rs\<close>: filling a caller's buffer with the data section, by copying
  from the mapped file or by chunked reads of the file itself.

  \<open>FileExt::read_at\<close> is the kernel's choice: a script of answers says, for each call in turn,
  whether it is interrupted, fails, or delivers, and then how much it would deliver at most. A call
  that delivers returns at least one byte unless the buffer is empty or the offset is at or past the
  end of the file, and at most what fits both. \<open>Waiting\<close> is a run whose script has ended
  before the call returned; \<open>Panicked\<close> an out-of-range slice.
\<close>

datatype io_error =
    InvalidInput nat nat
  | UnexpectedEof nat
  | OsError string

datatype 'a outcome = Waiting | Panicked | Done 'a

definition check_dst :: "nat \<Rightarrow> u8 list \<Rightarrow> io_error + unit" where
  "check_dst expected dst =
     (if length dst \<noteq> expected then Inl (InvalidInput (length dst) expected) else Inr ())"

subsection \<open>MmapCopySource\<close>

record mmap_copy_source =
  src_data :: "u8 list"

definition mmap_new :: "gguf \<Rightarrow> mmap_copy_source" where
  "mmap_new g = \<lparr>src_data = data g\<rparr>"

definition mmap_data_len :: "mmap_copy_source \<Rightarrow> nat" where
  "mmap_data_len s = length (src_data s)"

definition mmap_load :: "mmap_copy_source \<Rightarrow> u8 list \<Rightarrow> (io_error + unit) \<times> u8 list" where
  "mmap_load s dst =
     (case check_dst (length (src_data s)) dst of
        Inl e \<Rightarrow> (Inl e, dst)
      | Inr _ \<Rightarrow> (Inr (), src_data s))"

subsection \<open>Reads of the file\<close>

datatype answer = Deliver nat | Interrupted | Fails string

definition blit :: "u8 list \<Rightarrow> nat \<Rightarrow> u8 list \<Rightarrow> u8 list" where
  "blit dst at src = take at dst @ src @ drop (at + length src) dst"

definition file_range :: "u8 list \<Rightarrow> nat \<Rightarrow> nat \<Rightarrow> u8 list" where
  "file_range content off n = take n (drop off content)"

text \<open>The bytes one call of \<open>read_at\<close> with a buffer of \<open>len\<close> bytes at \<open>off\<close> delivers.\<close>

definition delivered :: "u8 list \<Rightarrow> nat \<Rightarrow> nat \<Rightarrow> nat \<Rightarrow> nat" where
  "delivered content k len off = min (Suc k) (min len (length content - off))"

fun read_full_loop ::
  "u8 list \<Rightarrow> answer list \<Rightarrow> u8 list \<Rightarrow> nat \<Rightarrow> nat \<Rightarrow> ((io_error + nat) \<times> u8 list \<times> answer list) outcome" where
  "read_full_loop content rs bf offset got =
     (if got < length bf then
        (case rs of
           [] \<Rightarrow> Waiting
         | Deliver k # rs' \<Rightarrow>
             let n = delivered content k (length bf - got) (offset + got) in
             if n = 0 then Done (Inr got, bf, rs')
             else read_full_loop content rs' (blit bf got (file_range content (offset + got) n)) offset (got + n)
         | Interrupted # rs' \<Rightarrow> read_full_loop content rs' bf offset got
         | Fails e # rs' \<Rightarrow> Done (Inl (OsError e), bf, rs'))
      else Done (Inr got, bf, rs))"

declare read_full_loop.simps [simp del]

definition read_full ::
  "u8 list \<Rightarrow> answer list \<Rightarrow> u8 list \<Rightarrow> nat \<Rightarrow> ((io_error + nat) \<times> u8 list \<times> answer list) outcome" where
  "read_full content rs bf offset =
     (case read_full_loop content rs bf offset 0 of
        Done (Inr got, bf', rs') \<Rightarrow>
          Done (if got = 0 then Inl (UnexpectedEof offset) else Inr got, bf', rs')
      | r \<Rightarrow> r)"

lemma length_blit: "at + length src \<le> length dst \<Longrightarrow> length (blit dst at src) = length dst"
  by (simp add: blit_def)

lemma length_file_range: "off + n \<le> length content \<Longrightarrow> length (file_range content off n) = n"
  by (simp add: file_range_def)

lemma file_range_add: "file_range content off (m + n) = file_range content off m @ file_range content (off + m) n"
  by (simp add: file_range_def take_add add.commute)

lemma delivered_le: "delivered content k len off \<le> len" "delivered content k len off \<le> length content - off"
  by (simp_all add: delivered_def)

lemma delivered_zero: "0 < len \<Longrightarrow> delivered content k len off = 0 \<longleftrightarrow> length content \<le> off"
  by (auto simp: delivered_def min_def)

text \<open>What a completed read has done: a prefix of the buffer holds the bytes of the file.\<close>

lemma read_full_loop_ok:
  "read_full_loop content rs bf offset d = Done (r, bf', rs') \<Longrightarrow> d \<le> length bf \<Longrightarrow>
   take d bf = file_range content offset d \<Longrightarrow> d = 0 \<or> offset + d \<le> length content \<Longrightarrow>
   length bf' = length bf \<and>
   (case r of Inl e \<Rightarrow> True | Inr n \<Rightarrow>
      d \<le> n \<and> n \<le> length bf \<and> take n bf' = file_range content offset n \<and>
      (n = 0 \<or> offset + n \<le> length content) \<and> (n < length bf \<longrightarrow> length content \<le> offset + n))"
proof (induction content rs bf offset d rule: read_full_loop.induct)
  case (1 content rs bf offset d)
  show ?case
  proof (cases "d < length bf")
    case False
    then show ?thesis using "1.prems" by (auto simp: read_full_loop.simps)
  next
    case True
    note eq = "1.prems"(1) [unfolded read_full_loop.simps [of content rs bf offset d]]
    show ?thesis
    proof (cases rs)
      case Nil
      then show ?thesis using eq True by simp
    next
      case (Cons a rs1)
      show ?thesis
      proof (cases a)
        case (Deliver k)
        define n where "n = delivered content k (length bf - d) (offset + d)"
        have z: "n = 0 \<longleftrightarrow> length content \<le> offset + d"
          unfolding n_def using True by (simp add: delivered_zero)
        have b: "n \<le> length bf - d" "n \<le> length content - (offset + d)"
          unfolding n_def by (rule delivered_le)+
        show ?thesis
        proof (cases "n = 0")
          case True
          then show ?thesis using eq Cons Deliver \<open>d < length bf\<close> z "1.prems" by (auto simp: n_def)
        next
          case False
          let ?b = "blit bf d (file_range content (offset + d) n)"
          have fit: "offset + d + n \<le> length content" using b(2) False z by simp
          have len: "length (file_range content (offset + d) n) = n" by (rule length_file_range [OF fit])
          have lb: "length ?b = length bf" using b(1) len True by (simp add: length_blit)
          have ld: "length (file_range content offset d) = d"
            using "1.prems"(2,3) by (metis length_take min.absorb2)
          have t: "take (d + n) ?b = file_range content offset (d + n)"
            using "1.prems"(3) len ld by (simp add: blit_def file_range_add)
          have rec: "read_full_loop content rs1 ?b offset (d + n) = Done (r, bf', rs')"
            using eq Cons Deliver True False by (simp add: n_def Let_def)
          have dn: "d + n \<le> length ?b" using lb b(1) True by linarith
          have ih: "length bf' = length ?b \<and>
             (case r of Inl e \<Rightarrow> True | Inr m \<Rightarrow> d + n \<le> m \<and> m \<le> length ?b \<and>
               take m bf' = file_range content offset m \<and> (m = 0 \<or> offset + m \<le> length content) \<and>
               (m < length ?b \<longrightarrow> length content \<le> offset + m))"
            by (rule "1.IH"(1) [OF True Cons Deliver n_def False rec dn t]) (use fit in simp)
          then show ?thesis unfolding lb by (auto split: sum.splits)
        qed
      next
        case Interrupted
        then show ?thesis using eq Cons True "1.IH"(2) "1.prems" by simp
      next
        case (Fails e)
        then show ?thesis using eq Cons True by auto
      qed
    qed
  qed
qed

lemma read_full_loop_not_panicked: "read_full_loop content rs bf offset d \<noteq> Panicked"
proof (induction content rs bf offset d rule: read_full_loop.induct)
  case (1 content rs bf offset d)
  then show ?case
    by (subst read_full_loop.simps) (simp add: Let_def split: list.split answer.split)
qed

lemma read_full_ok:
  assumes "read_full content rs bf offset = Done (Inr n, bf', rs')"
  shows "length bf' = length bf" "0 < n" "n \<le> length bf" "take n bf' = file_range content offset n"
    "offset + n \<le> length content" "n < length bf \<Longrightarrow> length content \<le> offset + n"
proof -
  have "read_full_loop content rs bf offset 0 = Done (Inr n, bf', rs')" "n \<noteq> 0"
    using assms by (auto simp: read_full_def split: outcome.splits sum.splits if_splits)
  with read_full_loop_ok [of content rs bf offset 0 "Inr n" bf' rs']
  show "length bf' = length bf" "0 < n" "n \<le> length bf" "take n bf' = file_range content offset n"
    "offset + n \<le> length content" "n < length bf \<Longrightarrow> length content \<le> offset + n"
    by (auto simp: file_range_def)
qed

lemma read_full_length:
  "read_full content rs bf offset = Done (r, bf', rs') \<Longrightarrow> length bf' = length bf"
  using read_full_loop_ok [of content rs bf offset 0]
  by (auto simp: read_full_def file_range_def split: outcome.splits sum.splits if_splits)

lemma read_full_not_panicked: "read_full content rs bf offset \<noteq> Panicked"
  using read_full_loop_not_panicked [of content rs bf offset 0]
  by (auto simp: read_full_def split: outcome.split sum.split)

subsection \<open>DirectSource\<close>

definition block :: nat where "block = 4096"
definition chunk :: nat where "chunk = 16 * 1024 * 1024"   \<comment> \<open>\<open>16 << 20\<close>\<close>

record direct_source =
  data_offset :: nat
  data_len :: nat

definition direct_new :: "gguf \<Rightarrow> direct_source" where
  "direct_new g = \<lparr>data_offset = data_start g, data_len = length (data g)\<rparr>"

definition next_multiple_of :: "nat \<Rightarrow> nat \<Rightarrow> nat" where
  "next_multiple_of n b = (if n mod b = 0 then n else n + (b - n mod b))"

text \<open>\<open>aligned_start\<close>, and whether the chunks may be read straight into \<open>dst\<close> at address \<open>addr\<close>.\<close>

definition aligned_start :: "direct_source \<Rightarrow> nat" where
  "aligned_start s = data_offset s div block * block"

definition direct_ok :: "direct_source \<Rightarrow> nat \<Rightarrow> bool" where
  "direct_ok s addr \<longleftrightarrow> (int addr + int (aligned_start s) - int (data_offset s)) mod int block = 0"

definition want_of :: "direct_source \<Rightarrow> nat \<Rightarrow> nat" where
  "want_of s offset = min chunk (next_multiple_of (data_offset s + data_len s - offset) block)"

definition whole_chunk_in_dst :: "direct_source \<Rightarrow> nat \<Rightarrow> nat \<Rightarrow> bool" where
  "whole_chunk_in_dst s offset dst_len \<longleftrightarrow>
     (let dst_pos = int offset - int (data_offset s) in
      0 \<le> dst_pos \<and> nat dst_pos + want_of s offset \<le> dst_len)"

text \<open>
  The bounce buffer holds \<open>n\<close> bytes read at \<open>offset\<close>; their intersection with the data section
  is copied. \<open>None\<close> is a slice out of range.
\<close>

definition copy_bounce ::
  "direct_source \<Rightarrow> nat \<Rightarrow> nat \<Rightarrow> u8 list \<Rightarrow> u8 list \<Rightarrow> u8 list option" where
  "copy_bounce s offset n bounce dst =
     (let copy_start = max offset (data_offset s);
          copy_end = min (offset + n) (data_offset s + data_len s) in
      if copy_start < copy_end then
        (let len = copy_end - copy_start; src = copy_start - offset; at = copy_start - data_offset s in
         if at + len \<le> length dst \<and> src + len \<le> length bounce
         then Some (blit dst at (file_range bounce src len)) else None)
      else Some dst)"

function load_loop ::
  "u8 list \<Rightarrow> direct_source \<Rightarrow> bool \<Rightarrow> answer list \<Rightarrow> nat \<Rightarrow> u8 list \<Rightarrow> u8 list \<Rightarrow>
   ((io_error + unit) \<times> u8 list) outcome" where
  "load_loop content s dok rs offset bounce dst =
     (if offset < data_offset s + data_len s then
        (let want = want_of s offset in
         if dok \<and> whole_chunk_in_dst s offset (length dst) then
           (let dst_pos = offset - data_offset s in
            if dst_pos + want \<le> length dst then
              (case read_full content rs (file_range dst dst_pos want) offset of
                 Done (Inr n, got, rs') \<Rightarrow> load_loop content s dok rs' (offset + n) bounce (blit dst dst_pos got)
               | Done (Inl e, got, rs') \<Rightarrow> Done (Inl e, blit dst dst_pos got)
               | Waiting \<Rightarrow> Waiting
               | Panicked \<Rightarrow> Panicked)
            else Panicked)
         else if want \<le> length bounce then
           (case read_full content rs (take want bounce) offset of
              Done (Inr n, got, rs') \<Rightarrow>
                (case copy_bounce s offset n (blit bounce 0 got) dst of
                   None \<Rightarrow> Panicked
                 | Some dst' \<Rightarrow> load_loop content s dok rs' (offset + n) (blit bounce 0 got) dst')
            | Done (Inl e, got, rs') \<Rightarrow> Done (Inl e, dst)
            | Waiting \<Rightarrow> Waiting
            | Panicked \<Rightarrow> Panicked)
         else Panicked)
      else Done (Inr (), dst))"
  by pat_completeness auto

termination
  by (relation "measure (\<lambda>(content, s, dok, rs, offset, bounce, dst). data_offset s + data_len s - offset)")
     (auto dest: read_full_ok(2))

declare load_loop.simps [simp del]

text \<open>
  \<open>opened\<close> is the result of opening the file with \<open>O_DIRECT\<close>, \<open>addr\<close> the address of \<open>dst\<close>.
\<close>

definition direct_load ::
  "direct_source \<Rightarrow> u8 list \<Rightarrow> string + unit \<Rightarrow> answer list \<Rightarrow> nat \<Rightarrow> u8 list \<Rightarrow>
   ((io_error + unit) \<times> u8 list) outcome" where
  "direct_load s content opened rs addr dst =
     (case check_dst (data_len s) dst of
        Inl e \<Rightarrow> Done (Inl e, dst)
      | Inr _ \<Rightarrow>
          if dst = [] then Done (Inr (), dst) else
          (case opened of
             Inl e \<Rightarrow> Done (Inl (OsError e), dst)
           | Inr _ \<Rightarrow>
               load_loop content s (direct_ok s addr) rs (aligned_start s) (replicate chunk 0) dst))"

subsection \<open>The loop fills the buffer\<close>

definition loaded :: "u8 list \<Rightarrow> direct_source \<Rightarrow> nat \<Rightarrow> u8 list \<Rightarrow> bool" where
  "loaded content s offset dst \<longleftrightarrow>
     length dst = data_len s \<and>
     (let k = min (data_len s) (offset - data_offset s) in
      take k dst = file_range content (data_offset s) k) \<and>
     (offset \<le> data_offset s \<or> offset \<le> length content)"

lemma want_of_bounds: "want_of s offset \<le> chunk" by (simp add: want_of_def)

lemma next_multiple_of_ge: "n \<le> next_multiple_of n b"
  by (simp add: next_multiple_of_def)

lemma next_multiple_of_le: "0 < b \<Longrightarrow> next_multiple_of n b < n + b"
  by (simp add: next_multiple_of_def)

lemma want_of_pos: "offset < data_offset s + data_len s \<Longrightarrow> 0 < want_of s offset"
  using next_multiple_of_ge [of "data_offset s + data_len s - offset" block]
  unfolding want_of_def chunk_def by linarith

lemma file_range_take:
  assumes "take n xs = file_range content off n" "i + len \<le> n"
  shows "file_range xs i len = file_range content (off + i) len"
proof -
  have "file_range xs i len = take len (drop i (take n xs))"
    using assms(2) by (simp add: file_range_def drop_take min_def)
  also have "\<dots> = file_range content (off + i) len"
    unfolding assms(1) using assms(2) by (simp add: file_range_def drop_take min_def add.commute)
  finally show ?thesis .
qed

lemma loaded_append:
  assumes "loaded content s offset dst" "data_offset s \<le> offset" "offset - data_offset s + n \<le> data_len s"
    "take n src = file_range content offset n" "n \<le> length src" "offset - data_offset s + length src \<le> data_len s"
    "offset + n \<le> length content"
  shows "loaded content s (offset + n) (blit dst (offset - data_offset s) src)"
proof -
  let ?at = "offset - data_offset s"
  have k: "min (data_len s) ?at = ?at" "min (data_len s) (offset + n - data_offset s) = ?at + n"
    using assms(2,3) by auto
  have d: "length dst = data_len s" "take ?at dst = file_range content (data_offset s) ?at"
    using assms(1) k by (auto simp: loaded_def Let_def)
  have "take (?at + n) (blit dst ?at src) = take ?at dst @ take n src"
    using assms(3,5) d(1) by (simp add: blit_def)
  moreover have "file_range content (data_offset s) (?at + n) = take ?at dst @ take n src"
    unfolding file_range_add d(2) assms(4) using assms(2) by simp
  moreover have "length (blit dst ?at src) = data_len s" using assms(6) d(1) by (simp add: length_blit)
  ultimately show ?thesis
    unfolding loaded_def k(2) Let_def using assms(7) by (simp only: simp_thms)
qed

lemma copy_bounce_ok:
  assumes "loaded content s offset dst" "offset < data_offset s + data_len s" "0 < n"
    "take n bounce = file_range content offset n" "n \<le> length bounce" "offset + n \<le> length content"
  obtains dst' where "copy_bounce s offset n bounce dst = Some dst'" "loaded content s (offset + n) dst'"
proof (cases "max offset (data_offset s) < min (offset + n) (data_offset s + data_len s)")
  case False
  then have z: "min (data_len s) (offset + n - data_offset s) = 0" using assms(2,3) by linarith
  have "copy_bounce s offset n bounce dst = Some dst" using False unfolding copy_bounce_def Let_def by (simp only: if_False)
  moreover have "loaded content s (offset + n) dst"
    using assms(1,6) z by (simp add: loaded_def file_range_def)
  ultimately show ?thesis by (rule that)
next
  case True
  define cs where "cs = max offset (data_offset s)"
  define len where "len = min (offset + n) (data_offset s + data_len s) - cs"
  let ?src = "file_range bounce (cs - offset) len"
  have le: "offset \<le> cs" "data_offset s \<le> cs" "cs - offset + len \<le> n" "cs - data_offset s + len \<le> data_len s"
    "cs + len \<le> length content"
    using True assms(6) by (auto simp: cs_def len_def)
  have l: "length ?src = len" using le(3) assms(5) by (simp add: file_range_def)
  have src: "?src = file_range content cs len"
    using file_range_take [OF assms(4) le(3)] le(1) by simp
  have d: "length dst = data_len s" using assms(1) by (simp add: loaded_def)
  have here: "loaded content s cs dst"
    using assms(1) le True by (auto simp: loaded_def cs_def max_def file_range_def Let_def)
  have "loaded content s (cs + len) (blit dst (cs - data_offset s) ?src)"
    by (rule loaded_append [OF here le(2,4) _ _ _ le(5)]) (use l src le in auto)
  moreover have "min (data_len s) (cs + len - data_offset s) = min (data_len s) (offset + n - data_offset s)"
    using True by (auto simp: cs_def len_def)
  ultimately have "loaded content s (offset + n) (blit dst (cs - data_offset s) ?src)"
    using assms(6) by (simp add: loaded_def)
  moreover have "copy_bounce s offset n bounce dst = Some (blit dst (cs - data_offset s) ?src)"
    using True le(3,4) assms(5) d by (simp add: copy_bounce_def Let_def flip: cs_def len_def)
  ultimately show ?thesis by (rule that [rotated])
qed

lemma load_step:
  fixes rs :: "answer list" and dok :: bool
  assumes inv: "loaded content s offset dst" and lb: "length bounce = chunk"
    and more: "offset < data_offset s + data_len s"
  obtains b where "length b = want_of s offset"
    "read_full content rs b offset = Waiting \<Longrightarrow> load_loop content s dok rs offset bounce dst = Waiting"
    "\<And>e got rs'. read_full content rs b offset = Done (Inl e, got, rs') \<Longrightarrow>
       \<exists>dst'. load_loop content s dok rs offset bounce dst = Done (Inl e, dst') \<and> length dst' = data_len s"
    "\<And>n got rs'. read_full content rs b offset = Done (Inr n, got, rs') \<Longrightarrow>
       \<exists>bounce' dst'. load_loop content s dok rs offset bounce dst = load_loop content s dok rs' (offset + n) bounce' dst' \<and>
         loaded content s (offset + n) dst' \<and> length bounce' = chunk"
proof (cases "dok \<and> whole_chunk_in_dst s offset (length dst)")
  case dir: True
  define want where "want = want_of s offset"
  define pos where "pos = offset - data_offset s"
  note eq = load_loop.simps [of content s dok rs offset bounce dst]
  have l: "length dst = data_len s" using inv by (simp add: loaded_def)
  have p: "data_offset s \<le> offset" "pos + want \<le> length dst"
    using dir by (auto simp: whole_chunk_in_dst_def Let_def want_def pos_def nat_diff_distrib')
  note eq = eq [unfolded Let_def, folded want_def pos_def, unfolded if_P [OF more] if_P [OF dir] if_P [OF p(2)]]
  let ?b = "file_range dst pos want"
  have lw: "length ?b = want" by (rule length_file_range [OF p(2)])
  show ?thesis
  proof (rule that [of ?b])
    show "length ?b = want_of s offset" using lw by (simp add: want_def)
    show "load_loop content s dok rs offset bounce dst = Waiting" if "read_full content rs ?b offset = Waiting"
      unfolding eq using that by simp
  next
    fix e got rs' assume r: "read_full content rs ?b offset = Done (Inl e, got, rs')"
    show "\<exists>dst'. load_loop content s dok rs offset bounce dst = Done (Inl e, dst') \<and> length dst' = data_len s"
      unfolding eq using r read_full_length [OF r] lw l p(2) by (simp add: length_blit)
  next
    fix n got rs' assume r: "read_full content rs ?b offset = Done (Inr n, got, rs')"
    note rd = read_full_ok [OF r]
    have "loaded content s (offset + n) (blit dst pos got)"
      unfolding pos_def using inv p(1)
      by (rule loaded_append) (use rd(1,3-5) lw p(2) l in \<open>auto simp: pos_def\<close>)
    then show "\<exists>bounce' dst'. load_loop content s dok rs offset bounce dst = load_loop content s dok rs' (offset + n) bounce' dst' \<and>
         loaded content s (offset + n) dst' \<and> length bounce' = chunk"
      unfolding eq using r lb by auto
  qed
next
  case bnc: False
  define want where "want = want_of s offset"
  note eq = load_loop.simps [of content s dok rs offset bounce dst]
  have l: "length dst = data_len s" using inv by (simp add: loaded_def)
  have wb: "want \<le> length bounce" using lb want_of_bounds by (simp add: want_def)
  note eq = eq [unfolded Let_def, folded want_def, unfolded if_P [OF more] if_not_P [OF bnc] if_P [OF wb]]
  let ?b = "take want bounce"
  show ?thesis
  proof (rule that [of ?b])
    show "length ?b = want_of s offset" using wb by (simp add: want_def)
    show "load_loop content s dok rs offset bounce dst = Waiting" if "read_full content rs ?b offset = Waiting"
      unfolding eq using that by simp
  next
    fix e got rs' assume r: "read_full content rs ?b offset = Done (Inl e, got, rs')"
    show "\<exists>dst'. load_loop content s dok rs offset bounce dst = Done (Inl e, dst') \<and> length dst' = data_len s"
      unfolding eq using r l by simp
  next
    fix n got rs' assume r: "read_full content rs ?b offset = Done (Inr n, got, rs')"
    note rd = read_full_ok [OF r]
    let ?c = "blit bounce 0 got"
    have lg: "length got = want" using rd(1) wb by simp
    have lc: "length ?c = chunk" using lg wb lb by (simp add: length_blit)
    have tc: "take n ?c = file_range content offset n" using rd(3,4) lg wb by (simp add: blit_def)
    have nc: "n \<le> length ?c" using rd(3) wb lc lb by simp
    obtain dst' where d: "copy_bounce s offset n ?c dst = Some dst'" "loaded content s (offset + n) dst'"
      by (rule copy_bounce_ok [OF inv more rd(2) tc nc rd(5)])
    then show "\<exists>bounce' dst'. load_loop content s dok rs offset bounce dst = load_loop content s dok rs' (offset + n) bounce' dst' \<and>
         loaded content s (offset + n) dst' \<and> length bounce' = chunk"
      unfolding eq using r lc by auto
  qed
qed

lemma load_loop_end:
  "data_offset s + data_len s \<le> offset \<Longrightarrow> load_loop content s dok rs offset bounce dst = Done (Inr (), dst)"
  by (simp add: load_loop.simps)

lemma load_loop_ok:
  assumes "loaded content s offset dst" "length bounce = chunk"
    "offset \<le> data_offset s \<Longrightarrow> 0 < data_len s"
  shows "load_loop content s dok rs offset bounce dst \<noteq> Panicked \<and>
    (\<forall>r dst'. load_loop content s dok rs offset bounce dst = Done (r, dst') \<longrightarrow>
       length dst' = data_len s \<and>
       (r = Inr () \<longrightarrow> dst' = file_range content (data_offset s) (data_len s) \<and>
          data_offset s + data_len s \<le> length content))"
  using assms
proof (induction "data_offset s + data_len s - offset" arbitrary: offset dst bounce rs rule: less_induct)
  case less
  show ?case
  proof (cases "offset < data_offset s + data_len s")
    case False
    then show ?thesis using less.prems by (auto simp: load_loop_end loaded_def Let_def min_def)
  next
    case True
    obtain b where b: "length b = want_of s offset"
      "read_full content rs b offset = Waiting \<Longrightarrow> load_loop content s dok rs offset bounce dst = Waiting"
      "\<And>e got rs'. read_full content rs b offset = Done (Inl e, got, rs') \<Longrightarrow>
         \<exists>dst'. load_loop content s dok rs offset bounce dst = Done (Inl e, dst') \<and> length dst' = data_len s"
      "\<And>n got rs'. read_full content rs b offset = Done (Inr n, got, rs') \<Longrightarrow>
         \<exists>bounce' dst'. load_loop content s dok rs offset bounce dst = load_loop content s dok rs' (offset + n) bounce' dst' \<and>
           loaded content s (offset + n) dst' \<and> length bounce' = chunk"
      by (rule load_step [where rs = rs and dok = dok, OF less.prems(1,2) True]) (rule that; blast)
    show ?thesis
    proof (cases "read_full content rs b offset")
      case Waiting
      then show ?thesis using b(2) by simp
    next
      case Panicked
      then show ?thesis using read_full_not_panicked by metis
    next
      case (Done x)
      obtain r got rs' where x: "x = (r, got, rs')" by (cases x)
      show ?thesis
      proof (cases r)
        case (Inl e)
        then show ?thesis using b(3) Done x by auto
      next
        case (Inr n)
        obtain bounce' dst' where st: "load_loop content s dok rs offset bounce dst = load_loop content s dok rs' (offset + n) bounce' dst'"
          "loaded content s (offset + n) dst'" "length bounce' = chunk"
          using b(4) Done x Inr by metis
        have n: "0 < n" using read_full_ok(2) Done x Inr by metis
        show ?thesis unfolding st(1) by (rule less.hyps [OF _ st(2,3)]) (use True n less.prems(3) in auto)
      qed
    qed
  qed
qed

subsection \<open>A kernel that keeps delivering\<close>

definition delivers :: "answer list \<Rightarrow> nat" where
  "delivers rs = length (filter (\<lambda>a. case a of Deliver _ \<Rightarrow> True | _ \<Rightarrow> False) rs)"

definition no_failure :: "answer list \<Rightarrow> bool" where
  "no_failure rs = list_all (\<lambda>a. case a of Fails _ \<Rightarrow> False | _ \<Rightarrow> True) rs"

lemma delivers_simps [simp]:
  "delivers [] = 0" "delivers (Deliver k # rs) = Suc (delivers rs)" "delivers (Interrupted # rs) = delivers rs"
  "no_failure (Deliver k # rs) = no_failure rs" "no_failure (Interrupted # rs) = no_failure rs"
  "\<not> no_failure (Fails e # rs)"
  by (simp_all add: delivers_def no_failure_def)

lemma read_full_loop_completes:
  "no_failure rs \<Longrightarrow> d \<le> length bf \<Longrightarrow> length bf - d < delivers rs \<Longrightarrow>
   \<exists>n bf' rs'. read_full_loop content rs bf offset d = Done (Inr n, bf', rs') \<and> no_failure rs' \<and> d \<le> n \<and>
     delivers rs \<le> delivers rs' + (n - d) + (if n < length bf then 1 else 0)"
proof (induction content rs bf offset d rule: read_full_loop.induct)
  case (1 content rs bf offset d)
  show ?case
  proof (cases "d < length bf")
    case False
    then show ?thesis using "1.prems" by (simp add: read_full_loop.simps)
  next
    case True
    note eq = read_full_loop.simps [of content rs bf offset d, unfolded if_P [OF True]]
    show ?thesis
    proof (cases rs)
      case Nil
      then show ?thesis using "1.prems" by simp
    next
      case (Cons a rs1)
      show ?thesis
      proof (cases a)
        case (Deliver k)
        define n where "n = delivered content k (length bf - d) (offset + d)"
        show ?thesis
        proof (cases "n = 0")
          case True
          then show ?thesis unfolding eq using Cons Deliver \<open>d < length bf\<close> "1.prems" by (simp add: n_def)
        next
          case False
          let ?b = "blit bf d (file_range content (offset + d) n)"
          have n: "n \<le> length bf - d" "n \<le> length content - (offset + d)" unfolding n_def by (rule delivered_le)+
          have lb: "length ?b = length bf" using n False True by (simp add: length_blit length_file_range)
          have "\<exists>m bf' rs'. read_full_loop content rs1 ?b offset (d + n) = Done (Inr m, bf', rs') \<and> no_failure rs' \<and>
              d + n \<le> m \<and> delivers rs1 \<le> delivers rs' + (m - (d + n)) + (if m < length ?b then 1 else 0)"
            by (rule "1.IH"(1) [OF True Cons Deliver n_def False])
               (use "1.prems" Cons Deliver False n lb in auto)
          moreover have "read_full_loop content rs bf offset d = read_full_loop content rs1 ?b offset (d + n)"
            unfolding eq using Cons Deliver False by (simp add: n_def Let_def)
          ultimately show ?thesis using Cons Deliver lb False by (auto intro!: exI split: if_splits)
        qed
      next
        case Interrupted
        then show ?thesis unfolding eq using Cons True "1.IH"(2) "1.prems" by simp
      next
        case (Fails e)
        then show ?thesis using Cons "1.prems" by simp
      qed
    qed
  qed
qed

lemma read_full_completes:
  assumes "no_failure rs" "length bf < delivers rs" "0 < length bf" "offset < length content"
  obtains n bf' rs' where "read_full content rs bf offset = Done (Inr n, bf', rs')" "no_failure rs'"
    "delivers rs \<le> delivers rs' + n + (if n < length bf then 1 else 0)"
proof -
  obtain n bf' rs' where r: "read_full_loop content rs bf offset 0 = Done (Inr n, bf', rs')" "no_failure rs'"
    "delivers rs \<le> delivers rs' + n + (if n < length bf then 1 else 0)"
    using read_full_loop_completes [of rs 0 bf content offset] assms(1,2) by auto
  have "n \<noteq> 0"
  proof
    assume "n = 0"
    with read_full_loop_ok [OF r(1)] assms(3,4) show False by (auto simp: file_range_def)
  qed
  then have "read_full content rs bf offset = Done (Inr n, bf', rs')"
    using r(1) by (simp add: read_full_def)
  then show ?thesis using r(2,3) by (rule that)
qed

lemma want_of_le: "offset < data_offset s + data_len s \<Longrightarrow> want_of s offset < data_offset s + data_len s - offset + block"
  using next_multiple_of_le [of block "data_offset s + data_len s - offset"]
  by (simp add: want_of_def block_def min_def)

lemma load_loop_completes:
  assumes "loaded content s offset dst" "length bounce = chunk"
    "data_offset s + data_len s \<le> length content" "no_failure rs"
    "offset < data_offset s + data_len s \<Longrightarrow> data_offset s + data_len s - offset + block \<le> delivers rs"
  shows "\<exists>dst'. load_loop content s dok rs offset bounce dst = Done (Inr (), dst')"
  using assms
proof (induction "data_offset s + data_len s - offset" arbitrary: offset dst bounce rs rule: less_induct)
  case less
  show ?case
  proof (cases "offset < data_offset s + data_len s")
    case False
    then show ?thesis by (simp add: load_loop_end)
  next
    case True
    obtain b where b: "length b = want_of s offset"
      "\<And>n got rs'. read_full content rs b offset = Done (Inr n, got, rs') \<Longrightarrow>
         \<exists>bounce' dst'. load_loop content s dok rs offset bounce dst = load_loop content s dok rs' (offset + n) bounce' dst' \<and>
           loaded content s (offset + n) dst' \<and> length bounce' = chunk"
      by (rule load_step [where rs = rs and dok = dok, OF less.prems(1,2) True]) blast
    obtain n got rs' where r: "read_full content rs b offset = Done (Inr n, got, rs')" "no_failure rs'"
      "delivers rs \<le> delivers rs' + n + (if n < length b then 1 else 0)"
      by (rule read_full_completes [OF less.prems(4), of b offset content])
         (use b(1) want_of_le [OF True] want_of_pos [OF True] True less.prems(3,5) in auto)
    note rd = read_full_ok [OF r(1)]
    obtain bounce' dst' where st: "load_loop content s dok rs offset bounce dst = load_loop content s dok rs' (offset + n) bounce' dst'"
      "loaded content s (offset + n) dst'" "length bounce' = chunk"
      using b(2) [OF r(1)] by metis
    have "\<exists>d. load_loop content s dok rs' (offset + n) bounce' dst' = Done (Inr (), d)"
    proof (rule less.hyps [OF _ st(2,3) less.prems(3) r(2)])
      show "data_offset s + data_len s - (offset + n) < data_offset s + data_len s - offset"
        using rd(2) True by simp
      show "data_offset s + data_len s - (offset + n) + block \<le> delivers rs'"
        if "offset + n < data_offset s + data_len s"
        using that rd(3,6) r(3) less.prems(3,5) True by (simp split: if_splits)
    qed
    then show ?thesis using st(1) by simp
  qed
qed

lemma loaded_start: "length dst = data_len s \<Longrightarrow> loaded content s (aligned_start s) dst"
  by (auto simp: loaded_def aligned_start_def file_range_def)

lemma direct_load_ok:
  assumes "direct_load s content opened rs addr dst = Done (Inr (), dst')"
    "data_offset s + data_len s = length content"
  shows "length dst = data_len s" "dst' = drop (data_offset s) content"
proof -
  show l: "length dst = data_len s"
    using assms(1) by (auto simp: direct_load_def check_dst_def split: if_splits)
  show "dst' = drop (data_offset s) content"
  proof (cases "dst = []")
    case True
    then show ?thesis using assms l by (auto simp: direct_load_def check_dst_def)
  next
    case False
    have "load_loop content s (direct_ok s addr) rs (aligned_start s) (replicate chunk 0) dst = Done (Inr (), dst')"
      using assms(1) l False by (auto simp: direct_load_def check_dst_def split: sum.splits)
    moreover have "0 < data_len s" using False l by (metis length_greater_0_conv)
    ultimately have "dst' = file_range content (data_offset s) (data_len s)"
      using load_loop_ok [OF loaded_start [OF l, of content], of "replicate chunk 0" "direct_ok s addr" rs] by auto
    then show ?thesis using assms(2) by (simp add: file_range_def)
  qed
qed

lemma direct_load_not_panicked: "direct_load s content opened rs addr dst \<noteq> Panicked"
proof (cases "length dst = data_len s \<and> dst \<noteq> []")
  case True
  then have "0 < data_len s" by (metis length_greater_0_conv)
  then have "load_loop content s (direct_ok s addr) rs (aligned_start s) (replicate chunk 0) dst \<noteq> Panicked"
    using load_loop_ok [OF loaded_start, of dst s "replicate chunk 0" content "direct_ok s addr" rs] True by auto
  then show ?thesis using True by (simp add: direct_load_def check_dst_def split: sum.split)
qed (auto simp: direct_load_def check_dst_def)

lemma parse_section:
  assumes "parse bytes = Inr g"
  shows "data g = drop (data_start g) bytes" "data_start g + length (data g) = length bytes"
  using parse_ok [OF assms] by auto

lemma aligned_start_le: "data_offset s \<le> aligned_start s + block"
  unfolding aligned_start_def block_def by (simp add: minus_mod_eq_div_mult [symmetric] less_imp_le)

lemma direct_load_done:
  assumes "length dst = data_len s" "data_offset s + data_len s \<le> length content" "no_failure rs"
    "data_len s + 2 * block \<le> delivers rs"
  shows "\<exists>dst'. direct_load s content (Inr ()) rs addr dst = Done (Inr (), dst')"
proof (cases "dst = []")
  case True
  then show ?thesis using assms(1) by (simp add: direct_load_def check_dst_def)
next
  case False
  have "data_offset s + data_len s - aligned_start s + block \<le> delivers rs"
    using assms(4) aligned_start_le [of s] by linarith
  then have "\<exists>dst'. load_loop content s (direct_ok s addr) rs (aligned_start s) (replicate chunk 0) dst = Done (Inr (), dst')"
    by (intro load_loop_completes [OF loaded_start [OF assms(1)] _ assms(2,3)]) auto
  then show ?thesis using assms(1) False by (simp add: direct_load_def check_dst_def)
qed

definition sample_answers :: "gguf \<Rightarrow> answer list" where
  "sample_answers g = Interrupted # replicate (length (data g) + 2 * block) (Deliver 0)"

lemma sample_answers_deliver [simp]:
  "no_failure (sample_answers g)" "delivers (sample_answers g) = length (data g) + 2 * block"
  by (simp_all add: sample_answers_def no_failure_def delivers_def list_all_iff)

subsection \<open>Properties\<close>

text \<open>
  C27: For a parsed file, whatever the address of the destination, and however the kernel splits,
  shortens, interrupts or fails the reads, \<open>DirectSource::load\<close> never indexes out of range, and
  when it returns \<open>Ok\<close> the destination is exactly what \<open>MmapCopySource::load\<close> gives: the two
  sources are interchangeable.
\<close>

theorem direct_load_is_mmap:
  assumes "parse bytes = Inr g"
  shows "direct_load (direct_new g) bytes opened rs addr dst \<noteq> Panicked \<and>
    (\<forall>dst'. direct_load (direct_new g) bytes opened rs addr dst = Done (Inr (), dst') \<longrightarrow>
       mmap_load (mmap_new g) dst = (Inr (), dst') \<and> dst' = data g)"
  using direct_load_not_panicked direct_load_ok [of "direct_new g" bytes opened rs addr dst] parse_section [OF assms]
  by (auto simp: direct_new_def mmap_new_def mmap_load_def check_dst_def)

theorem direct_load_is_mmap_witness:
  "direct_load (direct_new sample_gguf) sample_file (Inr ()) (sample_answers sample_gguf) 64 (replicate 36 0) =
     Done (Inr (), replicate 36 7)"
proof -
  have "data_start sample_gguf + 36 = length sample_file"
    using parse_section(2) [OF sample_parse(1)] sample_parse(4) by simp
  then obtain d where d: "direct_load (direct_new sample_gguf) sample_file (Inr ()) (sample_answers sample_gguf) 64
      (replicate 36 0) = Done (Inr (), d)"
    using direct_load_done [of "replicate 36 0" "direct_new sample_gguf" sample_file "sample_answers sample_gguf" 64]
      by (auto simp: direct_new_def sample_parse)
  then show ?thesis
    using direct_load_is_mmap [OF sample_parse(1)] by (metis sample_parse(4))
qed

text \<open>
  C28: Liveness of \<open>DirectSource::load\<close>: if the file opens, the destination has the length of the
  data section, and the kernel keeps answering without an error (it may interrupt any call and
  deliver as little as one byte at a time), the load returns \<open>Ok\<close>, after at most two blocks more
  delivering calls than the section has bytes.
\<close>

theorem direct_load_completes:
  assumes "parse bytes = Inr g" "length dst = length (data g)" "no_failure rs"
    "length (data g) + 2 * block \<le> delivers rs"
  shows "\<exists>dst'. direct_load (direct_new g) bytes (Inr ()) rs addr dst = Done (Inr (), dst')"
  using direct_load_done [of dst "direct_new g" bytes rs addr] parse_section [OF assms(1)] assms(2-4)
  by (simp add: direct_new_def)

theorem direct_load_completes_witness:
  "\<exists>d. direct_load (direct_new sample_gguf) sample_file (Inr ()) (sample_answers sample_gguf) 4097
     (replicate (length (data sample_gguf)) 0) = Done (Inr (), d)"
  by (rule direct_load_completes [OF sample_parse(1)]) simp_all

end
