(* ===== verification/Gpu_Device.thy ===== *)
theory Gpu_Device
  imports Prelude
begin

text \<open>
  The Vulkan driver as \<open>crates/sg-gpu\<close> sees it, and \<open>context.rs\<close>.

  The driver is not part of the repository. A state holds what a run of the crate can observe of
  it: the objects created and not yet destroyed, the contents of mapped memory, the commands
  recorded into each command buffer and the sets taken from each descriptor pool. Every fallible
  call asks \<open>driver\<close>, an arbitrary function from the number of the call to its result
  (\<open>None\<close> is \<open>VK_SUCCESS\<close>), so a statement for all states is one for every way the driver may fail.
  \<open>faults\<close> counts destroyed handles that were not live: double destruction; \<open>overruns\<close> counts raw
  writes through a mapped pointer that leave the allocation.
\<close>

subsection \<open>Driver state\<close>

datatype vk_kind =
    VkInstance | VkDevice | VkBuffer | VkMemory | VkMapping | VkShaderModule | VkSetLayout | VkPipelineLayout
  | VkPipeline | VkDescriptorPool | VkCommandPool | VkQueryPool | VkFence

datatype cmd =
    Barrier
  | BeginLabel string
  | EndLabel
  | BindPipeline nat
  | BindSet nat nat
  | PushConstants nat "u8 list"
  | Dispatch "u32 list"
  | ResetQueries nat u32
  | WriteTimestamp nat u32

text \<open>What a pipeline object was created from.\<close>

datatype vk_info =
    NoInfo
  | ModuleCode "u32 list"
  | SetBindings "nat list"
  | LayoutOf nat "u32 option"
  | PipelineOf nat nat

record vk =
  driver :: "nat \<Rightarrow> string option"
  calls :: nat
  fresh :: nat
  live :: "(vk_kind \<times> nat) set"
  faults :: nat
  memory :: "nat \<Rightarrow> u8 list"
  overruns :: nat
  cmds :: "nat \<Rightarrow> cmd list"
  pool_sets :: "nat \<Rightarrow> nat"
  set_writes :: "nat \<Rightarrow> (u32 \<times> nat \<times> u64 \<times> u64) list"
  submitted :: "nat list"
  infos :: "nat \<Rightarrow> vk_info"

datatype gpu_error =
    Library string
  | Vk string string
  | NoDevice string
  | UnknownKernel string
  | Pipeline string string string
  | Validation string

type_synonym 'a gpu = "vk \<Rightarrow> (gpu_error + 'a) \<times> vk"

subsection \<open>Running driver calls\<close>

definition g_return :: "'a \<Rightarrow> 'a gpu" where "g_return x = (\<lambda>s. (Inr x, s))"
definition g_fail :: "gpu_error \<Rightarrow> 'a gpu" where "g_fail e = (\<lambda>s. (Inl e, s))"

definition g_bind :: "'a gpu \<Rightarrow> ('a \<Rightarrow> 'b gpu) \<Rightarrow> 'b gpu" where
  "g_bind m f = (\<lambda>s. case m s of (Inl e, s') \<Rightarrow> (Inl e, s') | (Inr x, s') \<Rightarrow> f x s')"

definition g_do :: "(vk \<Rightarrow> vk) \<Rightarrow> unit gpu" where "g_do f = (\<lambda>s. (Inr (), f s))"

text \<open>\<open>map_err\<close> with a closure that cleans up.\<close>

definition g_cleanup :: "'a gpu \<Rightarrow> (vk \<Rightarrow> vk) \<Rightarrow> 'a gpu" where
  "g_cleanup m f = (\<lambda>s. case m s of (Inl e, s') \<Rightarrow> (Inl e, f s') | r \<Rightarrow> r)"

definition vk_call :: "(string \<Rightarrow> gpu_error) \<Rightarrow> unit gpu" where
  "vk_call err = (\<lambda>s.
     let s' = s\<lparr>calls := Suc (calls s)\<rparr> in
     case driver s (calls s) of Some e \<Rightarrow> (Inl (err e), s') | None \<Rightarrow> (Inr (), s'))"

definition vk_create :: "vk_kind \<Rightarrow> (string \<Rightarrow> gpu_error) \<Rightarrow> nat gpu" where
  "vk_create k err = g_bind (vk_call err)
     (\<lambda>_ s. (Inr (fresh s), s\<lparr>fresh := Suc (fresh s), live := insert (k, fresh s) (live s)\<rparr>))"

definition vk_destroy :: "vk_kind \<Rightarrow> nat \<Rightarrow> vk \<Rightarrow> vk" where
  "vk_destroy k h s =
     (if (k, h) \<in> live s then s\<lparr>live := live s - {(k, h)}\<rparr> else s\<lparr>faults := Suc (faults s)\<rparr>)"

definition record_cmd :: "nat \<Rightarrow> cmd \<Rightarrow> vk \<Rightarrow> vk" where
  "record_cmd cb c s = s\<lparr>cmds := (cmds s)(cb := cmds s cb @ [c])\<rparr>"

definition vk_ok :: "vk \<Rightarrow> bool" where
  "vk_ok s \<longleftrightarrow> (\<forall>(k, h) \<in> live s. h < fresh s)"

definition vk_init :: "(nat \<Rightarrow> string option) \<Rightarrow> vk" where
  "vk_init drv = \<lparr>driver = drv, calls = 0, fresh = 0, live = {}, faults = 0, memory = (\<lambda>_. []), overruns = 0, cmds = (\<lambda>_. []),
     pool_sets = (\<lambda>_. 0), set_writes = (\<lambda>_. []), submitted = [], infos = (\<lambda>_. NoInfo)\<rparr>"

lemma vk_ok_init [simp]: "vk_ok (vk_init drv)"
  by (simp add: vk_ok_def vk_init_def)

named_theorems gpu_simps \<open>symbolic execution of driver calls\<close>

lemma g_simps [simp, gpu_simps]:
  "g_return x s = (Inr x, s)" "g_fail e s = (Inl e, s)" "g_do f s = (Inr (), f s)"
  by (simp_all add: g_return_def g_fail_def g_do_def)

lemma g_bind_simps [gpu_simps]:
  "m s = (Inl e, s') \<Longrightarrow> g_bind m f s = (Inl e, s')"
  "m s = (Inr x, s') \<Longrightarrow> g_bind m f s = f x s'"
  by (simp_all add: g_bind_def)

lemma g_bind_Inr:
  "g_bind m f s = (Inr y, t) \<longleftrightarrow> (\<exists>x s'. m s = (Inr x, s') \<and> f x s' = (Inr y, t))"
  by (auto simp: g_bind_def split: prod.splits sum.splits)

lemma g_bind_Inl:
  "g_bind m f s = (Inl e, t) \<longleftrightarrow> m s = (Inl e, t) \<or> (\<exists>x s'. m s = (Inr x, s') \<and> f x s' = (Inl e, t))"
  by (auto simp: g_bind_def split: prod.splits sum.splits)

lemma g_bind_cases:
  obtains (err) e s' where "m s = (Inl e, s')" "g_bind m f s = (Inl e, s')"
  | (ok) x s' where "m s = (Inr x, s')" "g_bind m f s = f x s'"
proof (cases "m s")
  case (Pair r s')
  then show thesis using err ok by (cases r) (auto simp: g_bind_def)
qed

lemma g_cleanup_Inr [simp]: "g_cleanup m f s = (Inr x, t) \<longleftrightarrow> m s = (Inr x, t)"
  by (auto simp: g_cleanup_def split: prod.splits sum.splits)

lemma g_cleanup_Inl: "g_cleanup m f s = (Inl e, t) \<longleftrightarrow> (\<exists>s'. m s = (Inl e, s') \<and> t = f s')"
  by (auto simp: g_cleanup_def split: prod.splits sum.splits)

lemma vk_call_eq [gpu_simps]:
  "vk_call err s =
     (case driver s (calls s) of
        Some e \<Rightarrow> (Inl (err e), s\<lparr>calls := Suc (calls s)\<rparr>)
      | None \<Rightarrow> (Inr (), s\<lparr>calls := Suc (calls s)\<rparr>))"
  by (simp add: vk_call_def Let_def split: option.split)

lemma vk_create_eq [gpu_simps]:
  "vk_create k err s =
     (case driver s (calls s) of
        Some e \<Rightarrow> (Inl (err e), s\<lparr>calls := Suc (calls s)\<rparr>)
      | None \<Rightarrow> (Inr (fresh s), s\<lparr>calls := Suc (calls s), fresh := Suc (fresh s), live := insert (k, fresh s) (live s)\<rparr>))"
  by (simp add: vk_create_def vk_call_eq g_bind_def split: option.split)

lemma g_cleanup_eq [gpu_simps]:
  "g_cleanup m f s = (case m s of (Inl e, s') \<Rightarrow> (Inl e, f s') | (Inr x, s') \<Rightarrow> (Inr x, s'))"
  by (auto simp: g_cleanup_def split: prod.splits sum.splits)

lemma vk_ok_fresh: "vk_ok s \<Longrightarrow> fresh s \<le> h \<Longrightarrow> (k, h) \<notin> live s"
  by (auto simp: vk_ok_def)

lemma vk_destroy_live [simp]:
  "(k, h) \<in> live s \<Longrightarrow> vk_destroy k h s = s\<lparr>live := live s - {(k, h)}\<rparr>"
  by (simp add: vk_destroy_def)

lemma vk_ok_alt: "vk_ok s \<longleftrightarrow> (\<forall>k h. (k, h) \<in> live s \<longrightarrow> h < fresh s)"
  by (auto simp: vk_ok_def)

lemma vk_ok_live_update [simp]: "vk_ok s \<Longrightarrow> vk_ok (s\<lparr>live := live s - X\<rparr>)"
  by (auto simp: vk_ok_def)

end
