(* ===== verification/Gpu_Context.thy ===== *)
theory Gpu_Context
  imports Gpu_Device
begin

text \<open>
  \<open>crates/sg-gpu/src/context.rs\<close>: choosing a device, creating it with the features the crate
  needs, and choosing a memory type. What the driver reports of a physical device is a record.
\<close>

subsection \<open>What the driver reports\<close>

datatype mem_flag = HOST_VISIBLE | DEVICE_LOCAL | HOST_COHERENT | OtherMemFlag nat

datatype feature =
    StorageBuffer16BitAccess | UniformAndStorageBuffer16BitAccess | ShaderFloat16 | ShaderInt8
  | StorageBuffer8BitAccess | TimelineSemaphore | VulkanMemoryModel | CooperativeMatrix

datatype device_type = INTEGRATED_GPU | DISCRETE_GPU | OtherDeviceType

record physical =
  queue_compute :: "bool list"       \<comment> \<open>per queue family: has the \<open>COMPUTE\<close> flag\<close>
  supported :: "feature set"
  dev_extensions :: "string list option"   \<comment> \<open>\<open>None\<close>: the enumeration failed\<close>
  subgroup_prop :: u32
  ts_period :: u32
  dev_type :: device_type
  mem_types :: "mem_flag set list"

record caps =
  compute_family :: nat
  caps_subgroup :: u32
  caps_ts_period :: u32
  caps_coopmat :: bool

record device_ctx =
  instance_h :: nat
  device_h :: nat
  dc_physical :: physical
  queue_family :: nat
  dc_mem_types :: "mem_flag set list"
  debug_utils :: bool
  timestamp_period :: u32
  subgroup_size :: u32
  cooperative_matrix :: bool

definition debug_utils_ext :: string where "debug_utils_ext = ''VK_EXT_debug_utils''"
definition coopmat_ext :: string where "coopmat_ext = ''VK_KHR_cooperative_matrix''"

subsection \<open>Device selection\<close>

definition required_features :: "feature set" where
  "required_features =
     {StorageBuffer16BitAccess, UniformAndStorageBuffer16BitAccess, ShaderFloat16, ShaderInt8,
      StorageBuffer8BitAccess, TimelineSemaphore}"

text \<open>\<open>position\<close> of the first family with a compute queue.\<close>

fun position_true :: "bool list \<Rightarrow> nat option" where
  "position_true [] = None"
| "position_true (b # bs) = (if b then Some 0 else map_option Suc (position_true bs))"

definition device_has_extension :: "physical \<Rightarrow> string \<Rightarrow> bool" where
  "device_has_extension pd name =
     (case dev_extensions pd of None \<Rightarrow> False | Some es \<Rightarrow> name \<in> set es)"

definition device_caps :: "physical \<Rightarrow> caps option" where
  "device_caps pd =
     (case position_true (queue_compute pd) of
        None \<Rightarrow> None
      | Some family \<Rightarrow>
          if \<not> required_features \<subseteq> supported pd then None
          else Some \<lparr>compute_family = family,
                     caps_subgroup = (if subgroup_prop pd > 0 then subgroup_prop pd else 64),
                     caps_ts_period = ts_period pd,
                     caps_coopmat = device_has_extension pd coopmat_ext \<and>
                       CooperativeMatrix \<in> supported pd \<and> VulkanMemoryModel \<in> supported pd\<rparr>)"

definition rank_of :: "physical \<Rightarrow> nat" where
  "rank_of pd = (case dev_type pd of INTEGRATED_GPU \<Rightarrow> 0 | DISCRETE_GPU \<Rightarrow> 1 | _ \<Rightarrow> 2)"

definition candidates :: "physical list \<Rightarrow> (nat \<times> physical \<times> caps) list" where
  "candidates pds =
     concat (map (\<lambda>pd. case device_caps pd of Some c \<Rightarrow> [(rank_of pd, pd, c)] | None \<Rightarrow> []) pds)"

text \<open>\<open>sort_by_key\<close> is stable; the first of the sorted candidates is taken.\<close>

definition pick_device :: "physical list \<Rightarrow> gpu_error + (physical \<times> caps)" where
  "pick_device pds =
     (case sort_key fst (candidates pds) of
        [] \<Rightarrow> Inl (NoDevice ''f16/16-bit-storage compute GPU'')
      | (_, pd, c) # _ \<Rightarrow> Inr (pd, c))"

text \<open>The features of the \<open>pNext\<close> chain of \<open>create_device\<close>.\<close>

definition requested_features :: "caps \<Rightarrow> feature set" where
  "requested_features c =
     {StorageBuffer16BitAccess, UniformAndStorageBuffer16BitAccess, ShaderFloat16, ShaderInt8,
      StorageBuffer8BitAccess, TimelineSemaphore, VulkanMemoryModel} \<union>
     (if caps_coopmat c then {CooperativeMatrix} else {})"

subsection \<open>GpuContext::new\<close>

text \<open>
  \<open>loader\<close>, \<open>inst_exts\<close> and \<open>pds\<close> are what the system's loader and driver report; the
  fallible calls between them fail as the driver of the state decides.
\<close>

definition instance_has_extension :: "string list \<Rightarrow> string \<Rightarrow> bool gpu" where
  "instance_has_extension inst_exts name =
     g_bind (vk_call (Vk ''enumerate_instance_extension_properties'')) (\<lambda>_. g_return (name \<in> set inst_exts))"

definition gpu_context_new :: "string + unit \<Rightarrow> string list \<Rightarrow> physical list \<Rightarrow> device_ctx gpu" where
  "gpu_context_new loader inst_exts pds =
     (case loader of
        Inl e \<Rightarrow> g_fail (Library e)
      | Inr _ \<Rightarrow>
          g_bind (instance_has_extension inst_exts debug_utils_ext) (\<lambda>want_debug.
          g_bind (vk_create VkInstance (Vk ''create_instance'')) (\<lambda>ins.
          g_bind (vk_call (Vk ''enumerate_physical_devices'')) (\<lambda>_.
          case pick_device pds of
            Inl e \<Rightarrow> g_fail e
          | Inr (pd, c) \<Rightarrow>
              g_bind (vk_create VkDevice (Vk ''create_device'')) (\<lambda>dev.
              g_return \<lparr>instance_h = ins, device_h = dev, dc_physical = pd, queue_family = compute_family c,
                dc_mem_types = mem_types pd, debug_utils = want_debug, timestamp_period = caps_ts_period c,
                subgroup_size = caps_subgroup c, cooperative_matrix = caps_coopmat c\<rparr>)))))"

definition drop_device_ctx :: "device_ctx \<Rightarrow> vk \<Rightarrow> vk" where
  "drop_device_ctx d s =
     vk_destroy VkInstance (instance_h d) (vk_destroy VkDevice (device_h d)
       (snd (vk_call (Vk ''device_wait_idle'') s)))"

subsection \<open>Memory types\<close>

definition mem_type_at :: "u32 \<Rightarrow> mem_flag set \<Rightarrow> bool \<Rightarrow> nat \<times> mem_flag set \<Rightarrow> bool" where
  "mem_type_at type_bits required prefer_coherent = (\<lambda>(i, flags).
     bit type_bits i \<and> required \<subseteq> flags \<and> (HOST_COHERENT \<in> flags) = prefer_coherent)"

definition find_mem_type :: "device_ctx \<Rightarrow> u32 \<Rightarrow> mem_flag set \<Rightarrow> (nat \<times> bool) option" where
  "find_mem_type d type_bits required =
     (case find (mem_type_at type_bits required True) (enumerate 0 (dc_mem_types d)) of
        Some (i, _) \<Rightarrow> Some (i, True)
      | None \<Rightarrow>
          map_option (\<lambda>(i, _). (i, False))
            (find (mem_type_at type_bits required False) (enumerate 0 (dc_mem_types d))))"

subsection \<open>Properties\<close>

lemma position_true_Some: "position_true bs = Some i \<Longrightarrow> i < length bs \<and> bs ! i"
  by (induction bs arbitrary: i) (auto split: if_splits)

lemma device_caps_Some:
  "device_caps pd = Some c \<longleftrightarrow>
     position_true (queue_compute pd) = Some (compute_family c) \<and> required_features \<subseteq> supported pd \<and>
     caps_subgroup c = (if subgroup_prop pd > 0 then subgroup_prop pd else 64) \<and> caps_ts_period c = ts_period pd \<and>
     caps_coopmat c = (device_has_extension pd coopmat_ext \<and> CooperativeMatrix \<in> supported pd \<and>
       VulkanMemoryModel \<in> supported pd)"
  by (cases c) (auto simp: device_caps_def split: option.split)

lemma set_candidates: "(r, pd, c) \<in> set (candidates pds) \<longleftrightarrow> pd \<in> set pds \<and> device_caps pd = Some c \<and> r = rank_of pd"
  by (auto simp: candidates_def split: option.splits)

lemma pick_device_Inr:
  assumes "pick_device pds = Inr (pd, c)"
  shows "pd \<in> set pds" "device_caps pd = Some c"
    "\<And>pd' c'. pd' \<in> set pds \<Longrightarrow> device_caps pd' = Some c' \<Longrightarrow> rank_of pd \<le> rank_of pd'"
proof -
  obtain r rest where sk: "sort_key fst (candidates pds) = (r, pd, c) # rest"
    using assms by (auto simp: pick_device_def split: list.splits prod.splits)
  have m: "(r, pd, c) \<in> set (candidates pds)"
    using sk by (metis list.set_intros(1) set_sort)
  then show "pd \<in> set pds" "device_caps pd = Some c" by (auto simp: set_candidates)
  fix pd' c' assume "pd' \<in> set pds" "device_caps pd' = Some c'"
  then have "(rank_of pd', pd', c') \<in> set ((r, pd, c) # rest)"
    unfolding sk [symmetric] by (simp add: set_candidates)
  moreover have "sorted (map fst ((r, pd, c) # rest))" unfolding sk [symmetric] by simp
  ultimately show "rank_of pd \<le> rank_of pd'" using m by (auto simp: set_candidates)
qed

lemma pick_device_Inl:
  assumes "pick_device pds = Inl e"
  shows "e = NoDevice ''f16/16-bit-storage compute GPU''" "\<forall>pd \<in> set pds. device_caps pd = None"
proof -
  have n: "sort_key fst (candidates pds) = []" "e = NoDevice ''f16/16-bit-storage compute GPU''"
    using assms by (auto simp: pick_device_def split: list.splits prod.splits)
  from n(2) show "e = NoDevice ''f16/16-bit-storage compute GPU''" .
  have "set (candidates pds) = {}" using n(1) by (metis list.set(1) set_sort)
  then show "\<forall>pd \<in> set pds. device_caps pd = None"
    using set_candidates by (metis empty_iff option.exhaust)
qed

text \<open>
  C38: \<open>GpuContext::new\<close> on every path. On success exactly an instance and a device have been
  created and dropping the context destroys both; the device is a reported one with a compute
  queue and every required feature, and none that qualifies has a smaller rank; every feature
  requested from it is supported except possibly the Vulkan memory model. On failure the device
  count is unchanged, and the only object that can be left behind is the instance, when the failure
  comes after its creation.
\<close>

theorem gpu_context_new_spec:
  assumes "vk_ok s"
  shows "case gpu_context_new loader inst_exts pds s of
      (Inr d, t) \<Rightarrow>
        live t = live s \<union> {(VkInstance, instance_h d), (VkDevice, device_h d)} \<and>
        live (drop_device_ctx d t) = live s \<and> faults (drop_device_ctx d t) = faults s \<and>
        dc_physical d \<in> set pds \<and> required_features \<subseteq> supported (dc_physical d) \<and>
        queue_family d < length (queue_compute (dc_physical d)) \<and> queue_compute (dc_physical d) ! queue_family d \<and>
        (\<forall>pd \<in> set pds. device_caps pd \<noteq> None \<longrightarrow> rank_of (dc_physical d) \<le> rank_of pd) \<and>
        (\<forall>c. device_caps (dc_physical d) = Some c \<longrightarrow>
           requested_features c \<subseteq> insert VulkanMemoryModel (supported (dc_physical d))) \<and>
        (cooperative_matrix d \<longrightarrow> {CooperativeMatrix, VulkanMemoryModel} \<subseteq> supported (dc_physical d))
    | (Inl e, t) \<Rightarrow> faults t = faults s \<and> (live t = live s \<or> (\<exists>h. h \<ge> fresh s \<and> live t = insert (VkInstance, h) (live s)))"
proof (cases "gpu_context_new loader inst_exts pds s")
  case (Pair r t)
  have f: "(k, fresh s) \<notin> live s" "(k, Suc (fresh s)) \<notin> live s" for k
    using vk_ok_fresh [OF assms] by auto
  show ?thesis
  proof (cases r)
    case (Inl e)
    then have "faults t = faults s \<and> (live t = live s \<or> live t = insert (VkInstance, fresh s) (live s))"
      using Pair unfolding gpu_context_new_def instance_has_extension_def
      by (cases "pick_device pds")
         (auto simp: g_bind_def vk_create_eq vk_call_eq split: sum.splits option.splits prod.splits)
    then show ?thesis unfolding Pair Inl by auto
  next
    case (Inr d)
    obtain pd c where p: "pick_device pds = Inr (pd, c)"
      using Pair Inr by (cases "pick_device pds") (auto simp: gpu_context_new_def g_bind_Inr split: sum.splits prod.splits)
    note pk = pick_device_Inr [OF p]
    have d: "instance_h d = fresh s" "device_h d = Suc (fresh s)" "dc_physical d = pd" "queue_family d = compute_family c"
      "cooperative_matrix d = caps_coopmat c"
      "live t = insert (VkDevice, Suc (fresh s)) (insert (VkInstance, fresh s) (live s))" "faults t = faults s"
      using Pair Inr p
      by (auto simp: gpu_context_new_def instance_has_extension_def g_bind_def vk_create_eq vk_call_eq
          split: sum.splits option.splits prod.splits)
    have dr: "live (drop_device_ctx d t) = live s" "faults (drop_device_ctx d t) = faults s"
      using d f by (auto simp: drop_device_ctx_def vk_call_eq split: option.split)
    note cp = pk(2) [unfolded device_caps_Some]
    have rank: "\<forall>pd' \<in> set pds. device_caps pd' \<noteq> None \<longrightarrow> rank_of pd \<le> rank_of pd'"
      using pk(3) by blast
    have req: "requested_features c \<subseteq> insert VulkanMemoryModel (supported pd)"
      using cp unfolding requested_features_def required_features_def by (cases "caps_coopmat c") auto
    have sup: "required_features \<subseteq> supported pd" using cp by blast
    have cm: "caps_coopmat c \<longrightarrow> {CooperativeMatrix, VulkanMemoryModel} \<subseteq> supported pd" using cp by simp
    have lv: "live t = live s \<union> {(VkInstance, fresh s), (VkDevice, Suc (fresh s))}" using d(6) by auto
    have qf: "compute_family c < length (queue_compute pd)" "queue_compute pd ! compute_family c"
      using cp position_true_Some by blast+
    show ?thesis
      unfolding Pair Inr prod.case sum.case d(1-5)
      using dr lv sup qf rank req cm pk(1,2) by simp
  qed
qed

definition sample_physical :: physical where
  "sample_physical = \<lparr>queue_compute = [False, True], supported = required_features, dev_extensions = None,
     subgroup_prop = 0, ts_period = 1, dev_type = DISCRETE_GPU, mem_types = []\<rparr>"

theorem gpu_context_new_spec_witness:
  "case gpu_context_new (Inr ()) [] [sample_physical] (vk_init (\<lambda>_. None)) of
     (Inr d, t) \<Rightarrow> live (drop_device_ctx d t) = {} \<and> dc_physical d = sample_physical
   | (Inl e, t) \<Rightarrow> False"
proof -
  have "\<exists>d t. gpu_context_new (Inr ()) [] [sample_physical] (vk_init (\<lambda>_. None)) = (Inr d, t)"
    by (simp add: gpu_context_new_def instance_has_extension_def g_bind_def vk_create_eq vk_call_eq vk_init_def
        pick_device_def candidates_def device_caps_def sample_physical_def)
  then show ?thesis
    using gpu_context_new_spec [where loader = "Inr ()" and inst_exts = "[]" and pds = "[sample_physical]" and s = "vk_init (\<lambda>_. None)", OF vk_ok_init]
    by (auto simp: vk_init_def)
qed

end
