(* ===== verification/Gpu_Buffer.thy ===== *)
theory Gpu_Buffer
  imports Gpu_Context Gguf_Write
begin

text \<open>
  \<open>crates/sg-gpu/src/buffer.rs\<close>: allocation of mapped buffers, views of them, the read and write
  guards, and the bindings of a dispatch. Lengths and offsets are \<open>u64\<close> and wrap, as in a release
  build. An element type \<open>T: Pod\<close> is its size and its byte representation. A view that reaches
  outside the mapping is \<open>None\<close>: the \<open>unsafe\<close> block would read foreign memory.
\<close>

subsection \<open>Element types\<close>

record 'a pod =
  size_of :: nat
  encode :: "'a \<Rightarrow> u8 list"
  decode :: "u8 list \<Rightarrow> 'a"

definition encode_all :: "'a pod \<Rightarrow> 'a list \<Rightarrow> u8 list" where
  "encode_all p xs = concat (map (encode p) xs)"

definition decode_all :: "'a pod \<Rightarrow> u8 list \<Rightarrow> 'a list" where
  "decode_all p bs = map (decode p) (chunks_exact (size_of p) bs)"

definition pod_u32 :: "u32 pod" where
  "pod_u32 = \<lparr>size_of = 4, encode = put_word 4, decode = from_le_bytes\<rparr>"

definition pod_u16 :: "u16 pod" where
  "pod_u16 = \<lparr>size_of = 2, encode = put_word 2, decode = from_le_bytes\<rparr>"

subsection \<open>Buffers\<close>

definition STORAGE_BUFFER :: u32 where "STORAGE_BUFFER = 0x20"
definition TRANSFER_SRC :: u32 where "TRANSFER_SRC = 1"
definition TRANSFER_DST :: u32 where "TRANSFER_DST = 2"
definition usage_empty :: u32 where "usage_empty = 0"
definition usage_or :: "u32 \<Rightarrow> u32 \<Rightarrow> u32" where "usage_or a b = a OR b"

record buffer_inner =
  b_buffer :: nat
  b_memory :: nat
  b_mapped :: nat
  b_size :: u64
  b_coherent :: bool

record buffer =
  inner :: buffer_inner
  b_offset :: u64
  b_len :: u64

text \<open>
  What the driver decides of a buffer: the memory it needs for a size and usage, and the bytes found
  in a fresh allocation.
\<close>

record mem_env =
  mem_reqs :: "u64 \<Rightarrow> u32 \<Rightarrow> u64 \<times> u32"
  junk :: "nat \<Rightarrow> u8"

definition set_memory :: "nat \<Rightarrow> u8 list \<Rightarrow> vk \<Rightarrow> vk" where
  "set_memory m bs s = s\<lparr>memory := (memory s)(m := bs)\<rparr>"

definition alloc_size :: "u64 \<Rightarrow> u64 \<Rightarrow> u64" where
  "alloc_size len elem_size = max (len * elem_size) (max elem_size 1)"

definition free_pair :: "nat \<Rightarrow> nat \<Rightarrow> vk \<Rightarrow> vk" where
  "free_pair bh m s = vk_destroy VkBuffer bh (vk_destroy VkMemory m s)"

definition choose_memory :: "device_ctx \<Rightarrow> u32 \<Rightarrow> (nat \<times> bool) option" where
  "choose_memory d bits =
     (case find_mem_type d bits {HOST_VISIBLE, DEVICE_LOCAL} of
        Some r \<Rightarrow> Some r
      | None \<Rightarrow> find_mem_type d bits {HOST_VISIBLE})"

definition alloc_buffer :: "device_ctx \<Rightarrow> mem_env \<Rightarrow> u64 \<Rightarrow> u64 \<Rightarrow> u32 \<Rightarrow> buffer_inner gpu" where
  "alloc_buffer d env len elem_size usage =
     (let size = alloc_size len elem_size in
      g_bind (vk_create VkBuffer (Vk ''create_buffer'')) (\<lambda>bh.
      case mem_reqs env size usage of (req_size, bits) \<Rightarrow>
      case choose_memory d bits of
        None \<Rightarrow> g_fail (NoDevice ''host-visible memory type'')
      | Some (type_index, coherent) \<Rightarrow>
          g_bind (g_cleanup (vk_create VkMemory (Vk ''allocate_memory'')) (vk_destroy VkBuffer bh)) (\<lambda>m.
          g_bind (g_cleanup (vk_call (Vk ''bind_buffer_memory'')) (free_pair bh m)) (\<lambda>_.
          g_bind (g_cleanup (vk_create VkMapping (Vk ''map_memory'')) (free_pair bh m)) (\<lambda>mapped.
          g_bind (g_do (set_memory m (map (junk env) [0..<unat req_size]))) (\<lambda>_.
          g_return \<lparr>b_buffer = bh, b_memory = m, b_mapped = mapped, b_size = size, b_coherent = coherent\<rparr>))))))"

text \<open>\<open>Drop for BufferInner\<close>, run when the last owner goes.\<close>

definition drop_inner :: "buffer_inner \<Rightarrow> vk \<Rightarrow> vk" where
  "drop_inner b s =
     vk_destroy VkMemory (b_memory b) (vk_destroy VkBuffer (b_buffer b) (vk_destroy VkMapping (b_mapped b) s))"

definition flush :: "buffer_inner \<Rightarrow> unit gpu" where
  "flush b = vk_call (Vk ''flush_mapped_memory_ranges'')"

definition invalidate :: "buffer_inner \<Rightarrow> unit gpu" where
  "invalidate b = vk_call (Vk ''invalidate_mapped_memory_ranges'')"

text \<open>\<open>inner.flush()?\<close> when not coherent; the early return drops \<open>inner\<close>.\<close>

definition flush_new :: "buffer_inner \<Rightarrow> unit gpu" where
  "flush_new b = (if b_coherent b then g_return () else g_cleanup (flush b) (drop_inner b))"

definition whole :: "buffer_inner \<Rightarrow> u64 \<Rightarrow> buffer" where
  "whole b len = \<lparr>inner = b, b_offset = 0, b_len = len\<rparr>"

text \<open>
  Writing bytes through the mapped pointer. The allocation does not grow: a write that does not fit
  into it is counted as an overrun, and what it leaves behind is not described.
\<close>

definition overwrite :: "nat \<Rightarrow> nat \<Rightarrow> u8 list \<Rightarrow> vk \<Rightarrow> vk" where
  "overwrite m at bs s =
     (if at + length bs \<le> length (memory s m)
      then set_memory m (take at (memory s m) @ bs @ drop (at + length bs) (memory s m)) s
      else s\<lparr>overruns := Suc (overruns s)\<rparr>)"

definition new_buffer :: "device_ctx \<Rightarrow> mem_env \<Rightarrow> 'a pod \<Rightarrow> u64 \<Rightarrow> u32 \<Rightarrow> buffer gpu" where
  "new_buffer d env p len usage =
     g_bind (alloc_buffer d env len (of_nat (size_of p)) usage) (\<lambda>b.
     g_bind (g_do (overwrite (b_memory b) 0 (replicate (unat (b_size b)) 0))) (\<lambda>_.
     g_bind (flush_new b) (\<lambda>_. g_return (whole b len))))"

definition buffer_from_iter :: "device_ctx \<Rightarrow> mem_env \<Rightarrow> 'a pod \<Rightarrow> 'a list \<Rightarrow> u32 \<Rightarrow> buffer gpu" where
  "buffer_from_iter d env p xs usage =
     (let len = of_nat (length xs) in
      g_bind (alloc_buffer d env len (of_nat (size_of p)) usage) (\<lambda>b.
      g_bind (g_do (overwrite (b_memory b) 0 (encode_all p xs))) (\<lambda>_.
      g_bind (flush_new b) (\<lambda>_. g_return (whole b len)))))"

subsection \<open>Views\<close>

text \<open>\<open>slice\<close>; \<open>None\<close> is the failed assertion.\<close>

definition slice_buf :: "buffer \<Rightarrow> u64 \<Rightarrow> u64 \<Rightarrow> buffer option" where
  "slice_buf b start stop =
     (if start \<le> stop \<and> stop \<le> b_len b
      then Some (b\<lparr>b_offset := b_offset b + start, b_len := stop - start\<rparr>) else None)"

definition is_empty_buf :: "buffer \<Rightarrow> bool" where
  "is_empty_buf b \<longleftrightarrow> b_len b = 0"

definition byte_offset :: "'a pod \<Rightarrow> buffer \<Rightarrow> u64" where
  "byte_offset p b = b_offset b * of_nat (size_of p)"

text \<open>The slice \<open>from_raw_parts\<close> makes, inside the mapped allocation or not.\<close>

definition view_bytes :: "'a pod \<Rightarrow> buffer \<Rightarrow> vk \<Rightarrow> u8 list option" where
  "view_bytes p b s =
     (let mem = memory s (b_memory (inner b)); at = unat (byte_offset p b); n = unat (b_len b) * size_of p in
      if at + n \<le> length mem then Some (take n (drop at mem)) else None)"

definition read_guard :: "'a pod \<Rightarrow> buffer \<Rightarrow> 'a list option gpu" where
  "read_guard p b =
     g_bind (if b_coherent (inner b) then g_return () else invalidate (inner b)) (\<lambda>_ s.
     (Inr (map_option (decode_all p) (view_bytes p b s)), s))"

text \<open>
  A write guard, what its holder does to the slice (\<open>f\<close>, which keeps the length), and its drop,
  whose flush result is ignored. The result is \<open>None\<close> when the slice is outside the mapping.
\<close>

definition drop_write_guard :: "buffer_inner \<Rightarrow> vk \<Rightarrow> vk" where
  "drop_write_guard b s = (if b_coherent b then s else snd (flush b s))"

definition write_guard :: "'a pod \<Rightarrow> buffer \<Rightarrow> ('a list \<Rightarrow> 'a list) \<Rightarrow> unit option gpu" where
  "write_guard p b f = (\<lambda>s.
     case view_bytes p b s of
       None \<Rightarrow> (Inr None, s)
     | Some bs \<Rightarrow>
         (Inr (Some ()),
          drop_write_guard (inner b)
            (overwrite (b_memory (inner b)) (unat (byte_offset p b)) (encode_all p (f (decode_all p bs))) s)))"

record binding =
  bd_binding :: u32
  bd_keep :: buffer_inner
  bd_offset :: u64
  bd_range :: u64

definition bind_buffer :: "'a pod \<Rightarrow> u32 \<Rightarrow> buffer \<Rightarrow> binding" where
  "bind_buffer p n b =
     (let elem = of_nat (size_of p) in
      \<lparr>bd_binding = n, bd_keep = inner b, bd_offset = b_offset b * elem, bd_range = max (b_len b * elem) elem\<rparr>)"

end
