(* ===== verification/Kernel_Table.thy ===== *)
theory Kernel_Table
  imports Prelude
begin

text \<open>
  The variant table of \<open>crates/sg-gpu/build.rs\<close>: one entry per compute pipeline, with the shader
  source it is compiled from, the specialization constants, the workgroup size, the number of
  storage buffers and the size of the push constants. The table of the source is one constant; it
  is given here in consecutive parts, in the same order.
\<close>

record variant =
  v_name :: string
  v_src :: string
  v_defs :: "(string \<times> nat) list"
  v_workgroup :: "nat list"
  v_bindings :: nat
  v_push_bytes :: nat
  v_subgroup_size :: nat
  v_raw :: bool

definition mk_variant :: "string \<Rightarrow> string \<Rightarrow> (string \<times> nat) list \<Rightarrow> nat list \<Rightarrow> nat \<Rightarrow> nat \<Rightarrow> nat \<Rightarrow> bool \<Rightarrow> variant" where
  "mk_variant n src ds wg b p sg r =
     \<lparr>v_name = n, v_src = src, v_defs = ds, v_workgroup = wg, v_bindings = b, v_push_bytes = p,
      v_subgroup_size = sg, v_raw = r\<rparr>"

lemma mk_variant_simps [simp]:
  "v_name (mk_variant n src ds wg b p sg r) = n" "v_src (mk_variant n src ds wg b p sg r) = src"
  "v_defs (mk_variant n src ds wg b p sg r) = ds" "v_workgroup (mk_variant n src ds wg b p sg r) = wg"
  "v_bindings (mk_variant n src ds wg b p sg r) = b" "v_push_bytes (mk_variant n src ds wg b p sg r) = p"
  "v_subgroup_size (mk_variant n src ds wg b p sg r) = sg" "v_raw (mk_variant n src ds wg b p sg r) = r"
  by (simp_all add: mk_variant_def)

definition variants_1 :: "variant list" where
  "variants_1 =
     [mk_variant ''stub'' ''stub'' [] [64, 1, 1] 1 4 0 False,
      mk_variant ''rmsnorm_5376'' ''rmsnorm'' [(''ROW_LEN'', 5376)] [256, 1, 1] 3 0 0 False,
      mk_variant ''rmsnorm_5376_plus1'' ''rmsnorm'' [(''ROW_LEN'', 5376), (''W_PLUS_ONE'', 1)] [256, 1, 1] 3 0 0 False,
      mk_variant ''rmsnorm_512'' ''rmsnorm'' [(''ROW_LEN'', 512)] [256, 1, 1] 3 0 0 False,
      mk_variant ''rmsnorm_512_plus1'' ''rmsnorm'' [(''ROW_LEN'', 512), (''W_PLUS_ONE'', 1)] [256, 1, 1] 3 0 0 False,
      mk_variant ''rmsnorm_256'' ''rmsnorm'' [(''ROW_LEN'', 256)] [256, 1, 1] 3 0 0 False,
      mk_variant ''rmsnorm_256_plus1'' ''rmsnorm'' [(''ROW_LEN'', 256), (''W_PLUS_ONE'', 1)] [256, 1, 1] 3 0 0 False,
      mk_variant ''rope_sliding_q'' ''rope'' [(''HEAD_DIM'', 256), (''ROT_DIMS'', 256), (''N_HEADS'', 32)] [256, 1, 1] 2 0 0 False,
      mk_variant ''rope_sliding_k'' ''rope'' [(''HEAD_DIM'', 256), (''ROT_DIMS'', 256), (''N_HEADS'', 16)] [256, 1, 1] 2 0 0 False,
      mk_variant ''rope_global_q'' ''rope'' [(''HEAD_DIM'', 512), (''ROT_DIMS'', 128), (''N_HEADS'', 32)] [256, 1, 1] 2 0 0 False,
      mk_variant ''rope_global_k'' ''rope'' [(''HEAD_DIM'', 512), (''ROT_DIMS'', 128), (''N_HEADS'', 4)] [256, 1, 1] 2 0 0 False,
      mk_variant ''geglu'' ''geglu'' [] [256, 1, 1] 3 0 0 False,
      mk_variant ''add_scaled'' ''add_scaled'' [] [256, 1, 1] 3 4 0 False,
      mk_variant ''gemv_q4_0_k5376'' ''gemv_q4_0'' [(''K_DIM'', 5376)] [64, 1, 1] 3 0 0 False]"

definition variants_2 :: "variant list" where
  "variants_2 =
     [mk_variant ''gemv_q4_0_k8192'' ''gemv_q4_0'' [(''K_DIM'', 8192)] [64, 1, 1] 3 0 0 False,
      mk_variant ''gemv_q4_0_k16384'' ''gemv_q4_0'' [(''K_DIM'', 16384)] [64, 1, 1] 3 0 0 False,
      mk_variant ''gemv_q4_0_k21504'' ''gemv_q4_0'' [(''K_DIM'', 21504)] [64, 1, 1] 3 0 0 False,
      mk_variant ''gemv_q4_0_generic'' ''gemv_q4_0'' [(''GENERIC_K'', 1)] [64, 1, 1] 3 4 0 False,
      mk_variant ''mall_probe'' ''mall_probe'' [] [256, 1, 1] 2 8 0 False,
      mk_variant ''kv_append_sliding'' ''kv_append'' [(''ROW_LEN'', 4096), (''RING'', 1024)] [256, 1, 1] 3 0 0 False,
      mk_variant ''kv_append_global'' ''kv_append'' [(''ROW_LEN'', 2048)] [256, 1, 1] 3 0 0 False,
      mk_variant ''kv_quant_q8'' ''kv_quant_q8'' [] [256, 1, 1] 3 0 0 False,
      mk_variant ''kv_append_global_q8'' ''kv_append_global_q8'' [(''ROW_LEN'', 2048)] [256, 1, 1] 4 0 0 False,
      mk_variant ''kv_append_global_v_q8'' ''kv_append_global_v_q8'' [(''N_KV_HEADS'', 4), (''HEAD_DIM'', 512), (''WG_X'', 64)] [64, 1, 1] 4 0 0 False,
      mk_variant ''kv_dequant_q8'' ''kv_dequant_q8'' [] [256, 1, 1] 3 0 0 False,
      mk_variant ''gemv_q6_k_logits'' ''gemv_q6_k_logits'' [(''BLOCKS_PER_ROW'', 21), (''ROW_WORDS'', 1104)] [64, 1, 1] 3 0 0 False]"

definition variants_3 :: "variant list" where
  "variants_3 =
     [mk_variant ''attn_decode_sliding'' ''attn_decode_sliding'' [(''HEAD_DIM'', 256), (''N_KV_HEADS'', 16), (''Q_PER_KV'', 2)] [64, 1, 1] 5 8 0 True,
      mk_variant ''attn_decode_global'' ''attn_decode_global'' [(''HEAD_DIM'', 512), (''N_KV_HEADS'', 4), (''Q_PER_KV'', 8)] [64, 1, 1] 5 8 0 True,
      mk_variant ''attn_decode_global_q8k'' ''attn_decode_global_q8k'' [(''HEAD_DIM'', 512), (''N_KV_HEADS'', 4), (''Q_PER_KV'', 8)] [64, 1, 1] 6 8 0 True,
      mk_variant ''attn_reduce_d256'' ''attn_reduce'' [(''HEAD_DIM'', 256)] [64, 1, 1] 2 4 0 False,
      mk_variant ''attn_reduce_d512'' ''attn_reduce'' [(''HEAD_DIM'', 512)] [64, 1, 1] 2 4 0 False,
      mk_variant ''attn_prefill_sliding'' ''attn_prefill_sliding'' [(''HEAD_DIM'', 256), (''N_KV_HEADS'', 16), (''Q_PER_KV'', 2), (''WINDOW'', 1024)] [64, 1, 1] 5 4 0 True,
      mk_variant ''attn_prefill_sliding_ring'' ''attn_prefill_sliding_ring'' [(''HEAD_DIM'', 256), (''N_KV_HEADS'', 16), (''Q_PER_KV'', 2), (''WINDOW'', 1024), (''RING'', 1024)] [64, 1, 1] 7 4 0 True,
      mk_variant ''attn_prefill_global'' ''attn_prefill_global'' [(''HEAD_DIM'', 512), (''N_KV_HEADS'', 4), (''Q_PER_KV'', 8)] [64, 1, 1] 5 4 0 True,
      mk_variant ''gemm_q4_0_i8_k512_n64'' ''gemm_q4_0_i8'' [(''K_DIM'', 512), (''N_DIM'', 64), (''WG_X'', 64), (''M_TILES'', 1), (''N_TILES'', 1)] [64, 1, 1] 4 0 0 True,
      mk_variant ''gemm_q4_0_i8_k512_n128'' ''gemm_q4_0_i8'' [(''K_DIM'', 512), (''N_DIM'', 128), (''WG_X'', 64), (''M_TILES'', 2), (''N_TILES'', 4)] [64, 1, 1] 4 0 0 True,
      mk_variant ''gemm_q4_0_i8_k5376_n21504'' ''gemm_q4_0_i8'' [(''K_DIM'', 5376), (''N_DIM'', 21504), (''WG_X'', 64), (''M_TILES'', 2), (''N_TILES'', 4)] [64, 1, 1] 4 0 0 True]"

definition variants_4 :: "variant list" where
  "variants_4 =
     [mk_variant ''gemm_q4_0_i8_t22_k512_n128'' ''gemm_q4_0_i8'' [(''K_DIM'', 512), (''N_DIM'', 128), (''WG_X'', 64), (''M_TILES'', 2), (''N_TILES'', 2)] [64, 1, 1] 4 0 0 True,
      mk_variant ''gemm_q4_0_i8_pd2_k512_n128'' ''gemm_q4_0_i8'' [(''K_DIM'', 512), (''N_DIM'', 128), (''WG_X'', 64), (''M_TILES'', 2), (''N_TILES'', 2), (''PREFETCH_DEPTH'', 2)] [64, 1, 1] 4 0 0 True,
      mk_variant ''gemm_q4_0_i8_axpf_k512_n128'' ''gemm_q4_0_i8'' [(''K_DIM'', 512), (''N_DIM'', 128), (''WG_X'', 64), (''M_TILES'', 2), (''N_TILES'', 2), (''AXPF'', 1)] [64, 1, 1] 4 0 0 True,
      mk_variant ''gemm_q4_0_i8_axpf2_k512_n128'' ''gemm_q4_0_i8'' [(''K_DIM'', 512), (''N_DIM'', 128), (''WG_X'', 64), (''M_TILES'', 2), (''N_TILES'', 2), (''AXPF'', 2)] [64, 1, 1] 4 0 0 True,
      mk_variant ''gemm_q4_0_i8_t12_k512_n128'' ''gemm_q4_0_i8'' [(''K_DIM'', 512), (''N_DIM'', 128), (''WG_X'', 64), (''M_TILES'', 1), (''N_TILES'', 2), (''STAGE_BUFS'', 1)] [64, 1, 1] 4 0 0 True,
      mk_variant ''gemm_q4_0_i8_t22_k5376_n21504'' ''gemm_q4_0_i8'' [(''K_DIM'', 5376), (''N_DIM'', 21504), (''WG_X'', 64), (''M_TILES'', 2), (''N_TILES'', 2)] [64, 1, 1] 4 0 0 True,
      mk_variant ''gemm_q4_0_i8_t22_k21504_n5376'' ''gemm_q4_0_i8'' [(''K_DIM'', 21504), (''N_DIM'', 5376), (''WG_X'', 64), (''M_TILES'', 2), (''N_TILES'', 2), (''STAGE_BUFS'', 1)] [64, 1, 1] 4 0 0 True,
      mk_variant ''gemm_q4_0_i8_swz_t22_k5376_n21504'' ''gemm_q4_0_i8'' [(''K_DIM'', 5376), (''N_DIM'', 21504), (''WG_X'', 64), (''M_TILES'', 2), (''N_TILES'', 2), (''SWIZZLE'', 1)] [64, 1, 1] 4 0 0 True]"

definition variants_5 :: "variant list" where
  "variants_5 =
     [mk_variant ''gemm_q4_0_i8_swz_m4n1_k5376_n21504'' ''gemm_q4_0_i8'' [(''K_DIM'', 5376), (''N_DIM'', 21504), (''WG_X'', 64), (''M_TILES'', 4), (''N_TILES'', 1), (''SWIZZLE'', 1), (''BCAST'', 1), (''STAGE_BUFS'', 1)] [64, 1, 1] 4 0 0 True,
      mk_variant ''gemm_q4_0_i8_swz_m4n1_k21504_n5376'' ''gemm_q4_0_i8'' [(''K_DIM'', 21504), (''N_DIM'', 5376), (''WG_X'', 64), (''M_TILES'', 4), (''N_TILES'', 1), (''SWIZZLE'', 1)] [64, 1, 1] 4 0 0 True,
      mk_variant ''gemm_q4_0_i8_swz_m4n1_epi_k21504_n5376'' ''gemm_q4_0_i8'' [(''K_DIM'', 21504), (''N_DIM'', 5376), (''WG_X'', 64), (''M_TILES'', 4), (''N_TILES'', 1), (''SWIZZLE'', 1), (''EPI'', 1)] [64, 1, 1] 4 0 0 True,
      mk_variant ''gemm_q4_0_i8_swz_m4n1_s1_k21504_n5376'' ''gemm_q4_0_i8'' [(''K_DIM'', 21504), (''N_DIM'', 5376), (''WG_X'', 64), (''M_TILES'', 4), (''N_TILES'', 1), (''STAGE_BUFS'', 1), (''SWIZZLE'', 1)] [64, 1, 1] 4 0 0 True,
      mk_variant ''gemm_q4_0_i8_swz_m4n1_pd2_k21504_n5376'' ''gemm_q4_0_i8'' [(''K_DIM'', 21504), (''N_DIM'', 5376), (''WG_X'', 64), (''M_TILES'', 4), (''N_TILES'', 1), (''SWIZZLE'', 1), (''PREFETCH_DEPTH'', 2)] [64, 1, 1] 4 0 0 True,
      mk_variant ''gemm_q4_0_i8_swz_m4n1_pd2_k5376_n21504'' ''gemm_q4_0_i8'' [(''K_DIM'', 5376), (''N_DIM'', 21504), (''WG_X'', 64), (''M_TILES'', 4), (''N_TILES'', 1), (''SWIZZLE'', 1), (''BCAST'', 1), (''STAGE_BUFS'', 1), (''PREFETCH_DEPTH'', 2)] [64, 1, 1] 4 0 0 True,
      mk_variant ''gemm_q4_0_i8_swz_m4n1_axpf_k21504_n5376'' ''gemm_q4_0_i8'' [(''K_DIM'', 21504), (''N_DIM'', 5376), (''WG_X'', 64), (''M_TILES'', 4), (''N_TILES'', 1), (''SWIZZLE'', 1), (''AXPF'', 1)] [64, 1, 1] 4 0 0 True]"

definition variants_6 :: "variant list" where
  "variants_6 =
     [mk_variant ''gemm_q4_0_i8_swz_m4n1_axpf_k5376_n21504'' ''gemm_q4_0_i8'' [(''K_DIM'', 5376), (''N_DIM'', 21504), (''WG_X'', 64), (''M_TILES'', 4), (''N_TILES'', 1), (''SWIZZLE'', 1), (''BCAST'', 1), (''STAGE_BUFS'', 1), (''AXPF'', 1)] [64, 1, 1] 4 0 0 True,
      mk_variant ''gemm_q4_0_i8_swz_m4n1_axpf2_k21504_n5376'' ''gemm_q4_0_i8'' [(''K_DIM'', 21504), (''N_DIM'', 5376), (''WG_X'', 64), (''M_TILES'', 4), (''N_TILES'', 1), (''SWIZZLE'', 1), (''AXPF'', 2)] [64, 1, 1] 4 0 0 True,
      mk_variant ''gemm_q4_0_i8_swz_m4n1_axpf2_k5376_n21504'' ''gemm_q4_0_i8'' [(''K_DIM'', 5376), (''N_DIM'', 21504), (''WG_X'', 64), (''M_TILES'', 4), (''N_TILES'', 1), (''SWIZZLE'', 1), (''BCAST'', 1), (''STAGE_BUFS'', 1), (''AXPF'', 2)] [64, 1, 1] 4 0 0 True,
      mk_variant ''gemm_q4_0_i8_basic_k512_n128'' ''gemm_q4_0_i8_basic'' [(''K_DIM'', 512), (''N_DIM'', 128), (''WG_X'', 64)] [64, 1, 1] 4 0 0 True,
      mk_variant ''gemm_q4_0_i8_basic_nowb_k512_n128'' ''gemm_q4_0_i8_basic'' [(''K_DIM'', 512), (''N_DIM'', 128), (''WG_X'', 64), (''BAR_WB'', 0)] [64, 1, 1] 4 0 0 True,
      mk_variant ''gemm_q4_0_i8_basic_noda_k512_n128'' ''gemm_q4_0_i8_basic'' [(''K_DIM'', 512), (''N_DIM'', 128), (''WG_X'', 64), (''BAR_DA'', 0)] [64, 1, 1] 4 0 0 True,
      mk_variant ''gemm_q4_0_i8_basic_nowar_k512_n128'' ''gemm_q4_0_i8_basic'' [(''K_DIM'', 512), (''N_DIM'', 128), (''WG_X'', 64), (''BAR_WAR'', 0)] [64, 1, 1] 4 0 0 True,
      mk_variant ''gemm_q4_0_i8_l2'' ''gemm_q4_0_i8_l2'' [] [64, 1, 1] 4 0 0 True,
      mk_variant ''gemm_q4_0_i8_l2_b2'' ''gemm_q4_0_i8_l2'' [(''BN_SB'', 2)] [64, 1, 1] 4 0 0 True,
      mk_variant ''gemm_q4_0_i8_l2_b4'' ''gemm_q4_0_i8_l2'' [(''BN_SB'', 4)] [64, 1, 1] 4 0 0 True,
      mk_variant ''gemm_q4_0_i8_l2_b8'' ''gemm_q4_0_i8_l2'' [(''BN_SB'', 8)] [64, 1, 1] 4 0 0 True]"

definition variants_7 :: "variant list" where
  "variants_7 =
     [mk_variant ''gemm_q4_0_i8_l2_b4_pf'' ''gemm_q4_0_i8_l2'' [(''BN_SB'', 4), (''PF'', 1)] [64, 1, 1] 4 0 0 True,
      mk_variant ''gemm_q4_0_i8_l2_pf'' ''gemm_q4_0_i8_l2'' [(''PF'', 1)] [64, 1, 1] 4 0 0 True,
      mk_variant ''gemm_q4_0_i8_l2_b4_b2'' ''gemm_q4_0_i8_l2'' [(''BN_SB'', 4), (''B2'', 1)] [64, 1, 1] 4 0 0 True,
      mk_variant ''gemm_q4_0_i8_l2_b4_pf_b2'' ''gemm_q4_0_i8_l2'' [(''BN_SB'', 4), (''PF'', 1), (''B2'', 1)] [64, 1, 1] 4 0 0 True,
      mk_variant ''gemm_q4_0_i8_l2_b4_b2_axp'' ''gemm_q4_0_i8_l2'' [(''BN_SB'', 4), (''B2'', 1), (''AXP_L2'', 1)] [64, 1, 1] 4 0 0 True,
      mk_variant ''gemm_q4_0_i8_l2_b4_b2_axp2'' ''gemm_q4_0_i8_l2'' [(''BN_SB'', 4), (''B2'', 1), (''AXP_L2'', 2)] [64, 1, 1] 4 0 0 True,
      mk_variant ''gemm_q4_0_i8_l2_b4_b2_axp3'' ''gemm_q4_0_i8_l2'' [(''BN_SB'', 4), (''B2'', 1), (''AXP_L2'', 3)] [64, 1, 1] 4 0 0 True,
      mk_variant ''gemm_q4_0_i8_l2_axp4'' ''gemm_q4_0_i8_l2_axp4'' [] [64, 1, 1] 4 0 0 True,
      mk_variant ''gemm_q4_0_i8_l2_axp4_pf'' ''gemm_q4_0_i8_l2_axp4'' [(''WPF'', 1)] [64, 1, 1] 4 0 0 True,
      mk_variant ''gemm_q4_0_i8_l2_b4_b2_pf5'' ''gemm_q4_0_i8_l2'' [(''BN_SB'', 4), (''PF'', 1), (''PFW'', 5), (''B2'', 1)] [64, 1, 1] 4 0 0 True,
      mk_variant ''gemm_q4_0_i8_l2_b4_b2_sf16'' ''gemm_q4_0_i8_l2'' [(''BN_SB'', 4), (''B2'', 1), (''SF16'', 1)] [64, 1, 1] 4 0 0 True,
      mk_variant ''gemm_q4_0_i8_l2_b1_b2'' ''gemm_q4_0_i8_l2'' [(''BN_SB'', 1), (''B2'', 1)] [64, 1, 1] 4 0 0 True,
      mk_variant ''gemm_q4_0_i8_l2_b2_b2'' ''gemm_q4_0_i8_l2'' [(''BN_SB'', 2), (''B2'', 1)] [64, 1, 1] 4 0 0 True]"

definition variants_8 :: "variant list" where
  "variants_8 =
     [mk_variant ''gemm_q4_0_i8_l2_b8_b2'' ''gemm_q4_0_i8_l2'' [(''BN_SB'', 8), (''B2'', 1)] [64, 1, 1] 4 0 0 True,
      mk_variant ''gemm_q4_0_i8_l2_m8'' ''gemm_q4_0_i8_l2'' [(''M_TILES'', 8)] [64, 1, 1] 4 0 0 True,
      mk_variant ''gemm_q4_0_i8_l2_m8_b4'' ''gemm_q4_0_i8_l2'' [(''M_TILES'', 8), (''BN_SB'', 4)] [64, 1, 1] 4 0 0 True,
      mk_variant ''gemm_q4_0_i8_basic_e1_k512_n128'' ''gemm_q4_0_i8_basic'' [(''K_DIM'', 512), (''N_DIM'', 128), (''WG_X'', 64), (''EPI_TILES'', 1)] [64, 1, 1] 4 0 0 True,
      mk_variant ''gemm_q4_0_i8_basic_e1_k21504_n5376'' ''gemm_q4_0_i8_basic'' [(''K_DIM'', 21504), (''N_DIM'', 5376), (''WG_X'', 64), (''EPI_TILES'', 1)] [64, 1, 1] 4 0 0 True,
      mk_variant ''gemm_q4_0_i8_basic_dir_k512_n128'' ''gemm_q4_0_i8_basic'' [(''K_DIM'', 512), (''N_DIM'', 128), (''WG_X'', 64), (''EPI'', 1)] [64, 1, 1] 4 0 0 True,
      mk_variant ''gemm_q4_0_i8_basic_dir_k21504_n5376'' ''gemm_q4_0_i8_basic'' [(''K_DIM'', 21504), (''N_DIM'', 5376), (''WG_X'', 64), (''EPI'', 1)] [64, 1, 1] 4 0 0 True,
      mk_variant ''gemm_q4_0_i8_basic_dir_k5376_n21504'' ''gemm_q4_0_i8_basic'' [(''K_DIM'', 5376), (''N_DIM'', 21504), (''WG_X'', 64), (''EPI'', 1)] [64, 1, 1] 4 0 0 True,
      mk_variant ''gemm_q4_0_i8_basic_k21504_n5376'' ''gemm_q4_0_i8_basic'' [(''K_DIM'', 21504), (''N_DIM'', 5376), (''WG_X'', 64)] [64, 1, 1] 4 0 0 True,
      mk_variant ''gemm_q4_0_i8_basic_nobar_k21504_n5376'' ''gemm_q4_0_i8_basic'' [(''K_DIM'', 21504), (''N_DIM'', 5376), (''WG_X'', 64), (''BAR_WB'', 0), (''BAR_DA'', 0), (''BAR_WAR'', 0)] [64, 1, 1] 4 0 0 True,
      mk_variant ''gemm_q4_0_i8_basic_k5376_n21504'' ''gemm_q4_0_i8_basic'' [(''K_DIM'', 5376), (''N_DIM'', 21504), (''WG_X'', 64)] [64, 1, 1] 4 0 0 True,
      mk_variant ''gemm_q4_0_i8_occ_k21504_n5376'' ''gemm_q4_0_i8_occ'' [(''K_DIM'', 21504), (''N_DIM'', 5376), (''WG_X'', 64), (''SWIZZLE'', 1)] [64, 1, 1] 4 0 0 True]"

definition variants_9 :: "variant list" where
  "variants_9 =
     [mk_variant ''gemm_q4_0_i8_fo'' ''gemm_q4_0_i8_fo'' [(''M_TILES'', 2)] [64, 1, 1] 4 0 0 True,
      mk_variant ''gemm_q4_0_i8_fo_m1'' ''gemm_q4_0_i8_fo'' [(''M_TILES'', 1)] [64, 1, 1] 4 0 0 True,
      mk_variant ''gemm_q4_0_i8_fo_m4'' ''gemm_q4_0_i8_fo'' [(''M_TILES'', 4)] [64, 1, 1] 4 0 0 True,
      mk_variant ''gemm_q4_0_i8_fo_m1_b2'' ''gemm_q4_0_i8_fo'' [(''M_TILES'', 1), (''B2'', 1)] [64, 1, 1] 4 0 0 True,
      mk_variant ''gemm_q4_0_i8_fo_m2_b2'' ''gemm_q4_0_i8_fo'' [(''M_TILES'', 2), (''B2'', 1)] [64, 1, 1] 4 0 0 True,
      mk_variant ''gemm_q4_0_i8_fo_m2_pd1'' ''gemm_q4_0_i8_fo'' [(''M_TILES'', 2), (''PD'', 1)] [64, 1, 1] 4 0 0 True,
      mk_variant ''gemm_q4_0_i8_fo_m2_sxp'' ''gemm_q4_0_i8_fo'' [(''M_TILES'', 2), (''SXP'', 1)] [64, 1, 1] 4 0 0 True,
      mk_variant ''gemm_q4_0_i8_fo_m2_b2_sxp'' ''gemm_q4_0_i8_fo'' [(''M_TILES'', 2), (''B2'', 1), (''SXP'', 1)] [64, 1, 1] 4 0 0 True,
      mk_variant ''gemm_q4_0_i8_fo_m1_b2_sxp'' ''gemm_q4_0_i8_fo'' [(''M_TILES'', 1), (''B2'', 1), (''SXP'', 1)] [64, 1, 1] 4 0 0 True,
      mk_variant ''gemm_q4_0_i8_bb'' ''gemm_q4_0_i8_bb'' [] [64, 1, 1] 4 0 0 True,
      mk_variant ''gemm_q4_0_i8_bb_pf'' ''gemm_q4_0_i8_bb'' [(''PF'', 1)] [64, 1, 1] 4 0 0 True,
      mk_variant ''gemm_q4_0_i8_bb_m4'' ''gemm_q4_0_i8_bb_m4'' [] [64, 1, 1] 4 0 0 True,
      mk_variant ''gemm_q4_0_i8_bb_m4_pf'' ''gemm_q4_0_i8_bb_m4'' [(''PF'', 1)] [64, 1, 1] 4 0 0 True]"

definition variants_10 :: "variant list" where
  "variants_10 =
     [mk_variant ''gemm_q4_0_i8_bb_pfd1'' ''gemm_q4_0_i8_bb_pfd'' [(''PFD'', 1), (''K_DIM'', 21504), (''N_DIM'', 5376)] [64, 1, 1] 4 0 0 True,
      mk_variant ''gemm_q4_0_i8_bb_pfd2'' ''gemm_q4_0_i8_bb_pfd'' [(''PFD'', 2), (''K_DIM'', 21504), (''N_DIM'', 5376)] [64, 1, 1] 4 0 0 True,
      mk_variant ''gemm_q4_0_i8_bb_pfd4'' ''gemm_q4_0_i8_bb_pfd'' [(''PFD'', 4), (''K_DIM'', 21504), (''N_DIM'', 5376)] [64, 1, 1] 4 0 0 True,
      mk_variant ''gemm_q4_0_i8_bb_pfd1_up'' ''gemm_q4_0_i8_bb_pfd'' [(''PFD'', 1), (''K_DIM'', 5376), (''N_DIM'', 21504)] [64, 1, 1] 4 0 0 True,
      mk_variant ''gemm_q4_0_i8_bb_pfd2_up'' ''gemm_q4_0_i8_bb_pfd'' [(''PFD'', 2), (''K_DIM'', 5376), (''N_DIM'', 21504)] [64, 1, 1] 4 0 0 True,
      mk_variant ''gemm_q4_0_i8_bb_pfd4_up'' ''gemm_q4_0_i8_bb_pfd'' [(''PFD'', 4), (''K_DIM'', 5376), (''N_DIM'', 21504)] [64, 1, 1] 4 0 0 True,
      mk_variant ''gemm_q4_0_i8_bb_m4_swz_sb1'' ''gemm_q4_0_i8_bb_m4_swz'' [(''PF'', 0), (''BN_SB'', 1)] [64, 1, 1] 4 0 0 True,
      mk_variant ''gemm_q4_0_i8_bb_m4_swz_sb2'' ''gemm_q4_0_i8_bb_m4_swz'' [(''PF'', 0), (''BN_SB'', 2)] [64, 1, 1] 4 0 0 True,
      mk_variant ''gemm_q4_0_i8_bb_m4_swz_sb4'' ''gemm_q4_0_i8_bb_m4_swz'' [(''PF'', 0), (''BN_SB'', 4)] [64, 1, 1] 4 0 0 True,
      mk_variant ''gemm_q4_0_i8_bb_m4_swz_sb8'' ''gemm_q4_0_i8_bb_m4_swz'' [(''PF'', 0), (''BN_SB'', 8)] [64, 1, 1] 4 0 0 True,
      mk_variant ''gemm_q4_0_i8_bb_m4_split'' ''gemm_q4_0_i8_bb_m4_split'' [(''PF'', 0)] [64, 1, 1] 4 4 0 True,
      mk_variant ''gemm_q4_0_i8_mw_b22_k512_n128'' ''gemm_q4_0_i8_mw'' [(''K_DIM'', 512), (''N_DIM'', 128), (''WG_X'', 256), (''BM_TILES'', 2), (''BN_TILES'', 2)] [256, 1, 1] 4 0 0 True]"

definition variants_11 :: "variant list" where
  "variants_11 =
     [mk_variant ''gemm_q4_0_i8_mw_b41_k512_n128'' ''gemm_q4_0_i8_mw'' [(''K_DIM'', 512), (''N_DIM'', 128), (''WG_X'', 256), (''BM_TILES'', 4), (''BN_TILES'', 1)] [256, 1, 1] 4 0 0 True,
      mk_variant ''gemm_q4_0_i8_mw_b41_k5376_n21504'' ''gemm_q4_0_i8_mw'' [(''K_DIM'', 5376), (''N_DIM'', 21504), (''WG_X'', 256), (''BM_TILES'', 4), (''BN_TILES'', 1), (''SWIZZLE'', 1)] [256, 1, 1] 4 0 0 True,
      mk_variant ''gemm_q4_0_i8_mw_b22_k5376_n21504'' ''gemm_q4_0_i8_mw'' [(''K_DIM'', 5376), (''N_DIM'', 21504), (''WG_X'', 256), (''BM_TILES'', 2), (''BN_TILES'', 2), (''SWIZZLE'', 1)] [256, 1, 1] 4 0 0 True,
      mk_variant ''gemm_q4_0_i8_mw_b42_k5376_n21504'' ''gemm_q4_0_i8_mw'' [(''K_DIM'', 5376), (''N_DIM'', 21504), (''WG_X'', 512), (''BM_TILES'', 4), (''BN_TILES'', 2), (''SWIZZLE'', 1)] [512, 1, 1] 4 0 0 True,
      mk_variant ''gemm_q4_0_i8_mw_b81_k5376_n21504'' ''gemm_q4_0_i8_mw'' [(''K_DIM'', 5376), (''N_DIM'', 21504), (''WG_X'', 512), (''BM_TILES'', 8), (''BN_TILES'', 1), (''SWIZZLE'', 1)] [512, 1, 1] 4 0 0 True,
      mk_variant ''gemm_q4_0_i8_mw_b41_k21504_n5376'' ''gemm_q4_0_i8_mw'' [(''K_DIM'', 21504), (''N_DIM'', 5376), (''WG_X'', 256), (''BM_TILES'', 4), (''BN_TILES'', 1), (''SWIZZLE'', 1)] [256, 1, 1] 4 0 0 True,
      mk_variant ''gemm_q4_0_i8_mw_b22_k21504_n5376'' ''gemm_q4_0_i8_mw'' [(''K_DIM'', 21504), (''N_DIM'', 5376), (''WG_X'', 256), (''BM_TILES'', 2), (''BN_TILES'', 2), (''SWIZZLE'', 1)] [256, 1, 1] 4 0 0 True,
      mk_variant ''gemm_q4_0_i8_mw_b42_k21504_n5376'' ''gemm_q4_0_i8_mw'' [(''K_DIM'', 21504), (''N_DIM'', 5376), (''WG_X'', 512), (''BM_TILES'', 4), (''BN_TILES'', 2), (''SWIZZLE'', 1)] [512, 1, 1] 4 0 0 True]"

definition variants_12 :: "variant list" where
  "variants_12 =
     [mk_variant ''gemm_q4_0_i8_mw_b81_k21504_n5376'' ''gemm_q4_0_i8_mw'' [(''K_DIM'', 21504), (''N_DIM'', 5376), (''WG_X'', 512), (''BM_TILES'', 8), (''BN_TILES'', 1), (''SWIZZLE'', 1)] [512, 1, 1] 4 0 0 True,
      mk_variant ''gemm_q4_0_i8_mw_r2_k512_n128'' ''gemm_q4_0_i8_mw'' [(''K_DIM'', 512), (''N_DIM'', 128), (''WG_X'', 128), (''BM_TILES'', 2), (''BN_TILES'', 1), (''RM'', 2)] [128, 1, 1] 4 0 0 True,
      mk_variant ''gemm_q4_0_i8_mw_r2_k21504_n5376'' ''gemm_q4_0_i8_mw'' [(''K_DIM'', 21504), (''N_DIM'', 5376), (''WG_X'', 128), (''BM_TILES'', 2), (''BN_TILES'', 1), (''RM'', 2), (''SWIZZLE'', 1)] [128, 1, 1] 4 0 0 True,
      mk_variant ''gemm_q4_0_i8_mw_r2_k5376_n21504'' ''gemm_q4_0_i8_mw'' [(''K_DIM'', 5376), (''N_DIM'', 21504), (''WG_X'', 128), (''BM_TILES'', 2), (''BN_TILES'', 1), (''RM'', 2), (''SWIZZLE'', 1)] [128, 1, 1] 4 0 0 True,
      mk_variant ''gemm_q4_0_i8_swz_m4n1_k5376_n8192'' ''gemm_q4_0_i8'' [(''K_DIM'', 5376), (''N_DIM'', 8192), (''WG_X'', 64), (''M_TILES'', 4), (''N_TILES'', 1), (''SWIZZLE'', 1), (''BCAST'', 1), (''STAGE_BUFS'', 1)] [64, 1, 1] 4 0 0 True,
      mk_variant ''gemm_q4_0_i8_swz_m4n1_k5376_n16384'' ''gemm_q4_0_i8'' [(''K_DIM'', 5376), (''N_DIM'', 16384), (''WG_X'', 64), (''M_TILES'', 4), (''N_TILES'', 1), (''SWIZZLE'', 1), (''BCAST'', 1), (''STAGE_BUFS'', 1)] [64, 1, 1] 4 0 0 True,
      mk_variant ''gemm_q4_0_i8_swz_m4n1_k5376_n4096'' ''gemm_q4_0_i8'' [(''K_DIM'', 5376), (''N_DIM'', 4096), (''WG_X'', 64), (''M_TILES'', 4), (''N_TILES'', 1), (''SWIZZLE'', 1), (''BCAST'', 1), (''STAGE_BUFS'', 1)] [64, 1, 1] 4 0 0 True]"

definition variants_13 :: "variant list" where
  "variants_13 =
     [mk_variant ''gemm_q4_0_i8_swz_m4n1_k5376_n2048'' ''gemm_q4_0_i8'' [(''K_DIM'', 5376), (''N_DIM'', 2048), (''WG_X'', 64), (''M_TILES'', 4), (''N_TILES'', 1), (''SWIZZLE'', 1), (''BCAST'', 1), (''STAGE_BUFS'', 1)] [64, 1, 1] 4 0 0 True,
      mk_variant ''gemm_q4_0_i8_swz_m4n1_k8192_n5376'' ''gemm_q4_0_i8'' [(''K_DIM'', 8192), (''N_DIM'', 5376), (''WG_X'', 64), (''M_TILES'', 4), (''N_TILES'', 1), (''SWIZZLE'', 1)] [64, 1, 1] 4 0 0 True,
      mk_variant ''gemm_q4_0_i8_swz_m4n1_k16384_n5376'' ''gemm_q4_0_i8'' [(''K_DIM'', 16384), (''N_DIM'', 5376), (''WG_X'', 64), (''M_TILES'', 4), (''N_TILES'', 1), (''SWIZZLE'', 1)] [64, 1, 1] 4 0 0 True,
      mk_variant ''gemm_q4_0_i8_swz_m4n1_s1_k16384_n5376'' ''gemm_q4_0_i8'' [(''K_DIM'', 16384), (''N_DIM'', 5376), (''WG_X'', 64), (''M_TILES'', 4), (''N_TILES'', 1), (''STAGE_BUFS'', 1), (''SWIZZLE'', 1)] [64, 1, 1] 4 0 0 True,
      mk_variant ''gemm_q4_0_i8_swz_m8n1_k5376_n21504'' ''gemm_q4_0_i8'' [(''K_DIM'', 5376), (''N_DIM'', 21504), (''WG_X'', 64), (''M_TILES'', 8), (''N_TILES'', 1), (''SWIZZLE'', 1)] [64, 1, 1] 4 0 0 True,
      mk_variant ''gemm_q4_0_i8_swz_m4n2_k5376_n21504'' ''gemm_q4_0_i8'' [(''K_DIM'', 5376), (''N_DIM'', 21504), (''WG_X'', 64), (''M_TILES'', 4), (''N_TILES'', 2), (''SWIZZLE'', 1)] [64, 1, 1] 4 0 0 True,
      mk_variant ''gemm_q4_0_i8_swz_t22_k21504_n5376'' ''gemm_q4_0_i8'' [(''K_DIM'', 21504), (''N_DIM'', 5376), (''WG_X'', 64), (''M_TILES'', 2), (''N_TILES'', 2), (''STAGE_BUFS'', 1), (''SWIZZLE'', 1)] [64, 1, 1] 4 0 0 True,
      mk_variant ''gemm_q4_0_i8_swz_t22_k5376_n8192'' ''gemm_q4_0_i8'' [(''K_DIM'', 5376), (''N_DIM'', 8192), (''WG_X'', 64), (''M_TILES'', 2), (''N_TILES'', 2), (''SWIZZLE'', 1)] [64, 1, 1] 4 0 0 True]"

definition variants_14 :: "variant list" where
  "variants_14 =
     [mk_variant ''gemm_q4_0_i8_swz_t22_k5376_n16384'' ''gemm_q4_0_i8'' [(''K_DIM'', 5376), (''N_DIM'', 16384), (''WG_X'', 64), (''M_TILES'', 2), (''N_TILES'', 2), (''SWIZZLE'', 1)] [64, 1, 1] 4 0 0 True,
      mk_variant ''gemm_q4_0_i8_swz_t22_k5376_n4096'' ''gemm_q4_0_i8'' [(''K_DIM'', 5376), (''N_DIM'', 4096), (''WG_X'', 64), (''M_TILES'', 2), (''N_TILES'', 2), (''SWIZZLE'', 1)] [64, 1, 1] 4 0 0 True,
      mk_variant ''gemm_q4_0_i8_swz_t22_k5376_n2048'' ''gemm_q4_0_i8'' [(''K_DIM'', 5376), (''N_DIM'', 2048), (''WG_X'', 64), (''M_TILES'', 2), (''N_TILES'', 2), (''SWIZZLE'', 1)] [64, 1, 1] 4 0 0 True,
      mk_variant ''gemm_q4_0_i8_swz_t22_k8192_n5376'' ''gemm_q4_0_i8'' [(''K_DIM'', 8192), (''N_DIM'', 5376), (''WG_X'', 64), (''M_TILES'', 2), (''N_TILES'', 2), (''STAGE_BUFS'', 1), (''SWIZZLE'', 1)] [64, 1, 1] 4 0 0 True,
      mk_variant ''gemm_q4_0_i8_swz_t22_k16384_n5376'' ''gemm_q4_0_i8'' [(''K_DIM'', 16384), (''N_DIM'', 5376), (''WG_X'', 64), (''M_TILES'', 2), (''N_TILES'', 2), (''STAGE_BUFS'', 1), (''SWIZZLE'', 1)] [64, 1, 1] 4 0 0 True,
      mk_variant ''gemm_q4_0_i8_swz_s2_t22_k8192_n5376'' ''gemm_q4_0_i8'' [(''K_DIM'', 8192), (''N_DIM'', 5376), (''WG_X'', 64), (''M_TILES'', 2), (''N_TILES'', 2), (''STAGE_BUFS'', 2), (''SWIZZLE'', 1)] [64, 1, 1] 4 0 0 True,
      mk_variant ''gemm_q4_0_i8_swz_s2_t22_k16384_n5376'' ''gemm_q4_0_i8'' [(''K_DIM'', 16384), (''N_DIM'', 5376), (''WG_X'', 64), (''M_TILES'', 2), (''N_TILES'', 2), (''STAGE_BUFS'', 2), (''SWIZZLE'', 1)] [64, 1, 1] 4 0 0 True,
      mk_variant ''gemm_q4_0_i8_t12_k5376_n21504'' ''gemm_q4_0_i8'' [(''K_DIM'', 5376), (''N_DIM'', 21504), (''WG_X'', 64), (''M_TILES'', 1), (''N_TILES'', 2)] [64, 1, 1] 4 0 0 True]"

definition variants_15 :: "variant list" where
  "variants_15 =
     [mk_variant ''gemm_q4_0_i8_t44_k512_n256'' ''gemm_q4_0_i8'' [(''K_DIM'', 512), (''N_DIM'', 256), (''WG_X'', 64), (''M_TILES'', 4), (''N_TILES'', 4)] [64, 1, 1] 4 0 0 True,
      mk_variant ''gemm_q4_0_i8_t44_k5376_n21504'' ''gemm_q4_0_i8'' [(''K_DIM'', 5376), (''N_DIM'', 21504), (''WG_X'', 64), (''M_TILES'', 4), (''N_TILES'', 4)] [64, 1, 1] 4 0 0 True,
      mk_variant ''gemm_q4_0_i8_raw_k5376_n21504'' ''gemm_q4_0_i8_raw'' [(''K_DIM'', 5376), (''N_DIM'', 21504), (''WG_X'', 64), (''M_TILES'', 2), (''N_TILES'', 4)] [64, 1, 1] 3 0 0 True,
      mk_variant ''coop_arith_smoke'' ''coop_arith_smoke'' [] [64, 1, 1] 3 0 0 True,
      mk_variant ''coop_bcast_smoke'' ''coop_bcast_smoke'' [] [64, 1, 1] 3 0 0 True,
      mk_variant ''coop_bcast_lds_smoke'' ''coop_bcast_lds_smoke'' [] [64, 1, 1] 3 0 0 True,
      mk_variant ''coop_i8_smoke'' ''coop_i8_smoke'' [] [64, 1, 1] 3 0 0 True,
      mk_variant ''coop_i8_lds_smoke'' ''coop_i8_lds_smoke'' [] [64, 1, 1] 2 0 0 True,
      mk_variant ''attn_prefill_global_flash'' ''attn_prefill_global_flash'' [(''HEAD_DIM'', 512), (''N_KV_HEADS'', 4), (''Q_PER_KV'', 8), (''M_Q'', 16), (''N_K'', 64), (''WG_X'', 64), (''S_STAGE_LEN'', 1024)] [64, 1, 1] 5 4 0 True,
      mk_variant ''attn_prefill_global_flash_sp'' ''attn_prefill_global_flash_sp'' [(''HEAD_DIM'', 512), (''N_KV_HEADS'', 4), (''Q_PER_KV'', 8), (''M_Q'', 16), (''N_K'', 64), (''WG_X'', 64), (''S_STAGE_LEN'', 1024)] [64, 1, 1] 5 4 0 True]"

definition variants_16 :: "variant list" where
  "variants_16 =
     [mk_variant ''attn_prefill_global_flash_sp_q8'' ''attn_prefill_global_flash_sp_q8'' [(''HEAD_DIM'', 512), (''N_KV_HEADS'', 4), (''Q_PER_KV'', 8), (''M_Q'', 16), (''N_K'', 64), (''WG_X'', 64), (''S_STAGE_LEN'', 1024)] [64, 1, 1] 7 4 0 True,
      mk_variant ''attn_prefill_global_flash_sp_iq'' ''attn_prefill_global_flash_sp_iq'' [(''HEAD_DIM'', 512), (''N_KV_HEADS'', 4), (''Q_PER_KV'', 8), (''M_Q'', 16), (''N_K'', 64), (''WG_X'', 64), (''S_STAGE_LEN'', 1024)] [64, 1, 1] 7 4 0 True,
      mk_variant ''attn_prefill_global_flash_sp_ipv'' ''attn_prefill_global_flash_sp_ipv'' [(''HEAD_DIM'', 512), (''N_KV_HEADS'', 4), (''Q_PER_KV'', 8), (''M_Q'', 16), (''N_K'', 64), (''WG_X'', 64), (''S_STAGE_LEN'', 1024), (''P_SCALES_LEN'', 32)] [64, 1, 1] 8 4 0 True,
      mk_variant ''attn_prefill_global_flash_sp_ipv_bcast'' ''attn_prefill_global_flash_sp_ipv_bcast'' [(''HEAD_DIM'', 512), (''N_KV_HEADS'', 4), (''Q_PER_KV'', 8), (''M_Q'', 16), (''N_K'', 64), (''WG_X'', 64), (''S_STAGE_LEN'', 1024), (''P_SCALES_LEN'', 32)] [64, 1, 1] 8 4 0 True,
      mk_variant ''gemm_q4_0_k5376_n8192'' ''gemm_q4_0'' [(''K_DIM'', 5376), (''N_DIM'', 8192), (''M_TILES'', 4), (''N_TILES'', 4), (''B_TILE_LEN'', 4096), (''ACC_LEN'', 16)] [64, 1, 1] 3 0 0 True,
      mk_variant ''gemm_q4_0_k5376_n4096'' ''gemm_q4_0'' [(''K_DIM'', 5376), (''N_DIM'', 4096), (''M_TILES'', 4), (''N_TILES'', 4), (''B_TILE_LEN'', 4096), (''ACC_LEN'', 16)] [64, 1, 1] 3 0 0 True,
      mk_variant ''gemm_q4_0_k8192_n5376'' ''gemm_q4_0'' [(''K_DIM'', 8192), (''N_DIM'', 5376), (''M_TILES'', 4), (''N_TILES'', 4), (''B_TILE_LEN'', 4096), (''ACC_LEN'', 16)] [64, 1, 1] 3 0 0 True]"

definition variants_17 :: "variant list" where
  "variants_17 =
     [mk_variant ''gemm_q4_0_k5376_n16384'' ''gemm_q4_0'' [(''K_DIM'', 5376), (''N_DIM'', 16384), (''M_TILES'', 4), (''N_TILES'', 4), (''B_TILE_LEN'', 4096), (''ACC_LEN'', 16)] [64, 1, 1] 3 0 0 True,
      mk_variant ''gemm_q4_0_k5376_n2048'' ''gemm_q4_0'' [(''K_DIM'', 5376), (''N_DIM'', 2048), (''M_TILES'', 4), (''N_TILES'', 4), (''B_TILE_LEN'', 4096), (''ACC_LEN'', 16)] [64, 1, 1] 3 0 0 True,
      mk_variant ''gemm_q4_0_k16384_n5376'' ''gemm_q4_0'' [(''K_DIM'', 16384), (''N_DIM'', 5376), (''M_TILES'', 4), (''N_TILES'', 4), (''B_TILE_LEN'', 4096), (''ACC_LEN'', 16)] [64, 1, 1] 3 0 0 True,
      mk_variant ''gemm_q4_0_k5376_n21504'' ''gemm_q4_0'' [(''K_DIM'', 5376), (''N_DIM'', 21504), (''M_TILES'', 4), (''N_TILES'', 4), (''B_TILE_LEN'', 4096), (''ACC_LEN'', 16)] [64, 1, 1] 3 0 0 True,
      mk_variant ''gemm_q4_0_swz_k5376_n21504'' ''gemm_q4_0'' [(''K_DIM'', 5376), (''N_DIM'', 21504), (''M_TILES'', 4), (''N_TILES'', 4), (''B_TILE_LEN'', 4096), (''ACC_LEN'', 16), (''SWIZZLE'', 1)] [64, 1, 1] 3 0 0 True,
      mk_variant ''gemm_q4_0_swz_k5376_n8192'' ''gemm_q4_0'' [(''K_DIM'', 5376), (''N_DIM'', 8192), (''M_TILES'', 4), (''N_TILES'', 4), (''B_TILE_LEN'', 4096), (''ACC_LEN'', 16), (''SWIZZLE'', 1)] [64, 1, 1] 3 0 0 True,
      mk_variant ''gemm_q4_0_swz_k5376_n4096'' ''gemm_q4_0'' [(''K_DIM'', 5376), (''N_DIM'', 4096), (''M_TILES'', 4), (''N_TILES'', 4), (''B_TILE_LEN'', 4096), (''ACC_LEN'', 16), (''SWIZZLE'', 1)] [64, 1, 1] 3 0 0 True,
      mk_variant ''gemm_q4_0_swz_k8192_n5376'' ''gemm_q4_0'' [(''K_DIM'', 8192), (''N_DIM'', 5376), (''M_TILES'', 4), (''N_TILES'', 4), (''B_TILE_LEN'', 4096), (''ACC_LEN'', 16), (''SWIZZLE'', 1)] [64, 1, 1] 3 0 0 True]"

definition variants_18 :: "variant list" where
  "variants_18 =
     [mk_variant ''gemm_q4_0_swz_k5376_n16384'' ''gemm_q4_0'' [(''K_DIM'', 5376), (''N_DIM'', 16384), (''M_TILES'', 4), (''N_TILES'', 4), (''B_TILE_LEN'', 4096), (''ACC_LEN'', 16), (''SWIZZLE'', 1)] [64, 1, 1] 3 0 0 True,
      mk_variant ''gemm_q4_0_swz_k5376_n2048'' ''gemm_q4_0'' [(''K_DIM'', 5376), (''N_DIM'', 2048), (''M_TILES'', 4), (''N_TILES'', 4), (''B_TILE_LEN'', 4096), (''ACC_LEN'', 16), (''SWIZZLE'', 1)] [64, 1, 1] 3 0 0 True,
      mk_variant ''gemm_q4_0_swz_k16384_n5376'' ''gemm_q4_0'' [(''K_DIM'', 16384), (''N_DIM'', 5376), (''M_TILES'', 4), (''N_TILES'', 4), (''B_TILE_LEN'', 4096), (''ACC_LEN'', 16), (''SWIZZLE'', 1)] [64, 1, 1] 3 0 0 True,
      mk_variant ''gemm_q4_0_swz_k21504_n5376'' ''gemm_q4_0'' [(''K_DIM'', 21504), (''N_DIM'', 5376), (''M_TILES'', 4), (''N_TILES'', 4), (''B_TILE_LEN'', 4096), (''ACC_LEN'', 16), (''SWIZZLE'', 1)] [64, 1, 1] 3 0 0 True,
      mk_variant ''gemm_q4_0_m2_k5376_n21504'' ''gemm_q4_0'' [(''K_DIM'', 5376), (''N_DIM'', 21504), (''M_TILES'', 2), (''N_TILES'', 4), (''B_TILE_LEN'', 4096), (''ACC_LEN'', 8)] [64, 1, 1] 3 0 0 True,
      mk_variant ''gemm_q4_0_m1_k5376_n21504'' ''gemm_q4_0'' [(''K_DIM'', 5376), (''N_DIM'', 21504), (''M_TILES'', 1), (''N_TILES'', 4), (''B_TILE_LEN'', 4096), (''ACC_LEN'', 4)] [64, 1, 1] 3 0 0 True,
      mk_variant ''gemm_q4_0_k21504_n5376'' ''gemm_q4_0'' [(''K_DIM'', 21504), (''N_DIM'', 5376), (''M_TILES'', 4), (''N_TILES'', 4), (''B_TILE_LEN'', 4096), (''ACC_LEN'', 16)] [64, 1, 1] 3 0 0 True,
      mk_variant ''gemm_st_q4_0_k5376_n8192'' ''gemm_st_q4_0'' [(''K_DIM'', 5376), (''N_DIM'', 8192)] [256, 1, 1] 3 0 0 False,
      mk_variant ''gemm_st_q4_0_k5376_n4096'' ''gemm_st_q4_0'' [(''K_DIM'', 5376), (''N_DIM'', 4096)] [256, 1, 1] 3 0 0 False]"

definition variants_19 :: "variant list" where
  "variants_19 =
     [mk_variant ''gemm_st_q4_0_k8192_n5376'' ''gemm_st_q4_0'' [(''K_DIM'', 8192), (''N_DIM'', 5376)] [256, 1, 1] 3 0 0 False,
      mk_variant ''gemm_st_q4_0_k5376_n16384'' ''gemm_st_q4_0'' [(''K_DIM'', 5376), (''N_DIM'', 16384)] [256, 1, 1] 3 0 0 False,
      mk_variant ''gemm_st_q4_0_k5376_n2048'' ''gemm_st_q4_0'' [(''K_DIM'', 5376), (''N_DIM'', 2048)] [256, 1, 1] 3 0 0 False,
      mk_variant ''gemm_st_q4_0_k16384_n5376'' ''gemm_st_q4_0'' [(''K_DIM'', 16384), (''N_DIM'', 5376)] [256, 1, 1] 3 0 0 False,
      mk_variant ''gemm_st_q4_0_k5376_n21504'' ''gemm_st_q4_0'' [(''K_DIM'', 5376), (''N_DIM'', 21504)] [256, 1, 1] 3 0 0 False,
      mk_variant ''gemm_st_q4_0_k21504_n5376'' ''gemm_st_q4_0'' [(''K_DIM'', 21504), (''N_DIM'', 5376)] [256, 1, 1] 3 0 0 False]"

definition VARIANTS :: "variant list" where
  "VARIANTS =
     variants_1 @ variants_2 @ variants_3 @ variants_4 @ variants_5 @ variants_6 @ variants_7 @ variants_8 @ variants_9 @ variants_10 @ variants_11 @ variants_12 @ variants_13 @ variants_14 @ variants_15 @ variants_16 @ variants_17 @ variants_18 @ variants_19"

lemmas variants_defs = variants_1_def variants_2_def variants_3_def variants_4_def variants_5_def variants_6_def variants_7_def variants_8_def variants_9_def variants_10_def variants_11_def variants_12_def variants_13_def variants_14_def variants_15_def variants_16_def variants_17_def variants_18_def variants_19_def

subsection \<open>The names are unique\<close>

definition name_key :: "string \<Rightarrow> nat" where
  "name_key s = foldl (\<lambda>h c. 256 * h + of_char c) 0 s"

lemma distinct_keys: "distinct (map (\<lambda>v. name_key (v_name v)) VARIANTS)"
  unfolding VARIANTS_def variants_defs
  by (simp add: name_key_def)

lemma distinct_names: "distinct (map v_name VARIANTS)"
proof -
  have "distinct (map name_key (map v_name VARIANTS))"
    using distinct_keys by (simp add: comp_def)
  then show ?thesis unfolding distinct_map by blast
qed

end
