(* ===== verification/Gpu_Kernel.thy ===== *)
theory Gpu_Kernel
  imports Gpu_Context Gguf_Parse Kernel_Table
begin

text \<open>
  \<open>crates/sg-gpu/src/kernel.rs\<close>: the registry \<open>build.rs\<close> generates from the variant table, and
  pipeline creation. The SPIR-V of a variant is the result of the shader compiler, a parameter.
\<close>

subsection \<open>The registry\<close>

record kernel_blob =
  kb_name :: string
  spv :: "u8 list"
  kb_workgroup :: "nat list"
  kb_bindings :: nat
  kb_push_bytes :: nat
  kb_subgroup_size :: nat

text \<open>The entry \<open>main\<close> of \<open>build.rs\<close> writes for a variant; \<open>words\<close> is its compiled code.\<close>

definition blob_of :: "(variant \<Rightarrow> u32 list) \<Rightarrow> variant \<Rightarrow> kernel_blob" where
  "blob_of words v =
     \<lparr>kb_name = v_name v, spv = concat (map (\<lambda>w. map (\<lambda>k. ucast (drop_bit (8 * k) w)) [0, 1, 2, 3]) (words v)),
      kb_workgroup = v_workgroup v, kb_bindings = v_bindings v, kb_push_bytes = v_push_bytes v,
      kb_subgroup_size = v_subgroup_size v\<rparr>"

definition KERNELS :: "(variant \<Rightarrow> u32 list) \<Rightarrow> kernel_blob list" where
  "KERNELS words = map (blob_of words) VARIANTS"

definition find_blob :: "kernel_blob list \<Rightarrow> string \<Rightarrow> kernel_blob option" where
  "find_blob registry name = find (\<lambda>k. kb_name k = name) registry"

subsection \<open>Kernels\<close>

record kernel =
  k_name :: string
  k_workgroup :: "nat list"
  k_pipeline :: nat
  k_pipeline_layout :: nat
  k_set_layout :: nat
  k_shader :: nat

text \<open>\<open>n.div_ceil(self.workgroup[0]) as u32\<close>.\<close>

definition div_ceil :: "nat \<Rightarrow> nat \<Rightarrow> nat" where
  "div_ceil n m = (if n mod m = 0 then n div m else n div m + 1)"

definition groups_for :: "kernel \<Rightarrow> u64 \<Rightarrow> u32 list" where
  "groups_for k n = [of_nat (div_ceil (unat n) (k_workgroup k ! 0)), 1, 1]"

definition set_info :: "nat \<Rightarrow> vk_info \<Rightarrow> vk \<Rightarrow> vk" where
  "set_info h i s = s\<lparr>infos := (infos s)(h := i)\<rparr>"

definition vk_create_from :: "vk_kind \<Rightarrow> vk_info \<Rightarrow> (string \<Rightarrow> gpu_error) \<Rightarrow> nat gpu" where
  "vk_create_from k info err =
     g_bind (vk_create k err) (\<lambda>h. g_bind (g_do (set_info h info)) (\<lambda>_. g_return h))"

definition spv_words :: "kernel_blob \<Rightarrow> u32 list" where
  "spv_words blob = map from_le_bytes (chunks_exact 4 (spv blob))"

definition load_kernel :: "kernel_blob list \<Rightarrow> string \<Rightarrow> kernel gpu" where
  "load_kernel registry name =
     (case find_blob registry name of
        None \<Rightarrow> g_fail (UnknownKernel name)
      | Some blob \<Rightarrow>
          g_bind (vk_create_from VkShaderModule (ModuleCode (spv_words blob)) (Pipeline ''create_shader_module'' name)) (\<lambda>sh.
          g_bind (g_cleanup
              (vk_create_from VkSetLayout (SetBindings [0..<kb_bindings blob]) (Pipeline ''create_descriptor_set_layout'' name))
              (vk_destroy VkShaderModule sh)) (\<lambda>sl.
          g_bind (g_cleanup
              (vk_create_from VkPipelineLayout
                (LayoutOf sl (if kb_push_bytes blob > 0 then Some (of_nat (kb_push_bytes blob)) else None))
                (Pipeline ''create_pipeline_layout'' name))
              (\<lambda>s. vk_destroy VkShaderModule sh (vk_destroy VkSetLayout sl s))) (\<lambda>pl.
          g_bind (g_cleanup
              (vk_create_from VkPipeline (PipelineOf sh pl) (Pipeline ''create_compute_pipelines'' name))
              (\<lambda>s. vk_destroy VkShaderModule sh (vk_destroy VkSetLayout sl (vk_destroy VkPipelineLayout pl s)))) (\<lambda>p.
          g_return \<lparr>k_name = kb_name blob, k_workgroup = kb_workgroup blob, k_pipeline = p,
                    k_pipeline_layout = pl, k_set_layout = sl, k_shader = sh\<rparr>)))))"

definition drop_kernel :: "kernel \<Rightarrow> vk \<Rightarrow> vk" where
  "drop_kernel k s =
     vk_destroy VkShaderModule (k_shader k) (vk_destroy VkSetLayout (k_set_layout k)
       (vk_destroy VkPipelineLayout (k_pipeline_layout k) (vk_destroy VkPipeline (k_pipeline k) s)))"

subsection \<open>Properties\<close>

lemma vk_create_from_eq [gpu_simps]:
  "vk_create_from k info err s =
     (case driver s (calls s) of
        Some e \<Rightarrow> (Inl (err e), s\<lparr>calls := Suc (calls s)\<rparr>)
      | None \<Rightarrow> (Inr (fresh s), s\<lparr>calls := Suc (calls s), fresh := Suc (fresh s), live := insert (k, fresh s) (live s),
           infos := (infos s)(fresh s := info)\<rparr>))"
  by (simp add: vk_create_from_def vk_create_eq g_bind_def set_info_def split: option.split)

lemma find_blob_registry:
  assumes "v \<in> set VARIANTS"
  shows "find_blob (KERNELS words) (v_name v) = Some (blob_of words v)"
proof -
  have "find (\<lambda>k. kb_name k = n) (map (blob_of words) vs) = map_option (blob_of words) (find (\<lambda>w. v_name w = n) vs)" for n vs
    by (induction vs) (simp_all add: blob_of_def)
  moreover have "find (\<lambda>w. v_name w = v_name v) vs = Some v" if "v \<in> set vs" "distinct (map v_name vs)" for vs
    using that by (induction vs) (auto simp: rev_image_eqI)
  ultimately show ?thesis
    unfolding find_blob_def KERNELS_def using assms distinct_names by simp
qed

lemma find_blob_name: "find_blob registry name = Some b \<Longrightarrow> kb_name b = name \<and> b \<in> set registry"
  unfolding find_blob_def find_Some_iff by (auto simp: in_set_conv_nth)

lemma load_kernel_Inr:
  assumes "load_kernel registry name s = (Inr k, t)"
  obtains b where "find_blob registry name = Some b" "k_name k = name" "k_workgroup k = kb_workgroup b"
    "live t = live s \<union> {(VkShaderModule, k_shader k), (VkSetLayout, k_set_layout k),
       (VkPipelineLayout, k_pipeline_layout k), (VkPipeline, k_pipeline k)}"
    "k_shader k = fresh s" "k_set_layout k = Suc (fresh s)" "k_pipeline_layout k = Suc (Suc (fresh s))"
    "k_pipeline k = Suc (Suc (Suc (fresh s)))" "faults t = faults s"
    "infos t (k_set_layout k) = SetBindings [0..<kb_bindings b]"
    "infos t (k_pipeline k) = PipelineOf (k_shader k) (k_pipeline_layout k)"
    "infos t (k_pipeline_layout k) = LayoutOf (k_set_layout k) (if kb_push_bytes b > 0 then Some (of_nat (kb_push_bytes b)) else None)"
    "infos t (k_shader k) = ModuleCode (spv_words b)"
proof (cases "find_blob registry name")
  case None
  then show ?thesis using assms by (simp add: load_kernel_def)
next
  case (Some b)
  show ?thesis
    by (rule that [OF Some])
       (use assms Some find_blob_name [OF Some] in
         \<open>auto simp: load_kernel_def g_bind_def vk_create_from_eq g_cleanup_eq split: option.splits if_splits\<close>)
qed

lemma load_kernel_Inl:
  assumes "vk_ok s" "load_kernel registry name s = (Inl e, t)"
  shows "live t = live s" "faults t = faults s" "fresh s \<le> fresh t"
  using assms(2) vk_ok_fresh [OF assms(1), of "fresh s"] vk_ok_fresh [OF assms(1), of "Suc (fresh s)"]
    vk_ok_fresh [OF assms(1), of "Suc (Suc (fresh s))"]
  by (auto simp: load_kernel_def g_bind_def vk_create_from_eq g_cleanup_eq split: option.splits if_splits)

lemma drop_kernel_loaded:
  assumes "vk_ok s" "load_kernel registry name s = (Inr k, t)"
  shows "live (drop_kernel k t) = live s" "faults (drop_kernel k t) = faults s"
proof -
  have f: "(kd, fresh s) \<notin> live s" "(kd, Suc (fresh s)) \<notin> live s" "(kd, Suc (Suc (fresh s))) \<notin> live s"
    "(kd, Suc (Suc (Suc (fresh s)))) \<notin> live s" for kd
    using vk_ok_fresh [OF assms(1)] by auto
  show "live (drop_kernel k t) = live s" "faults (drop_kernel k t) = faults s"
    by (rule load_kernel_Inr [OF assms(2)]; use f in \<open>auto simp: drop_kernel_def\<close>)+
qed

lemma div_ceil_cover:
  assumes "0 < m"
  shows "n \<le> div_ceil n m * m" "div_ceil n m * m < n + m"
proof -
  define q r where "q = n div m * m" and "r = n mod m"
  have e: "n = q + r" "r < m" using assms by (simp_all add: q_def r_def)
  have d: "div_ceil n m * m = (if r = 0 then q else q + m)"
    by (simp add: div_ceil_def q_def r_def algebra_simps)
  show "n \<le> div_ceil n m * m" "div_ceil n m * m < n + m"
    unfolding d using e assms by (auto split: if_splits)
qed

end
