(* ===== verification/Gpu_Graph.thy ===== *)
theory Gpu_Graph
  imports Gpu_Buffer Gpu_Kernel
begin

text \<open>
  \<open>crates/sg-gpu/src/graph.rs\<close> and \<open>exec.rs\<close>: recording dispatches into a command buffer that is
  submitted many times. A recorder method takes the recorder and the driver state; \<open>None\<close> is a
  panic. A recording closure is any program over the public methods, a list of \<open>rec_op\<close>.
\<close>

subsection \<open>Step state\<close>

record step_state =
  st_pos :: u32
  st_kv_len_sliding :: u32
  st_kv_len_global :: u32
  st_q0 :: u32

definition STEP_WORDS :: u64 where "STEP_WORDS = 4"

definition step_words :: "step_state \<Rightarrow> u32 list" where
  "step_words st = [st_pos st, st_kv_len_sliding st, st_kv_len_global st, st_q0 st]"

text \<open>The four indexed writes through the guard; a shorter view panics.\<close>

definition write_to :: "step_state \<Rightarrow> buffer \<Rightarrow> vk \<Rightarrow> (unit option \<times> vk)" where
  "write_to st b s =
     (if unat (b_len b) < 4 then (None, s)
      else case write_guard pod_u32 b (\<lambda>w. step_words st @ drop 4 w) s of
        (Inr (Some u), t) \<Rightarrow> (Some u, t)
      | (_, t) \<Rightarrow> (None, t))"

subsection \<open>Timers\<close>

record timer =
  t_pool :: nat
  t_period :: u32
  t_count :: u32

definition new_timer :: "device_ctx \<Rightarrow> u32 \<Rightarrow> timer gpu" where
  "new_timer d count =
     g_bind (vk_create VkQueryPool (Vk ''create_query_pool'')) (\<lambda>p.
     g_return \<lparr>t_pool = p, t_period = timestamp_period d, t_count = count\<rparr>)"

definition drop_timer :: "timer \<Rightarrow> vk \<Rightarrow> vk" where
  "drop_timer t = vk_destroy VkQueryPool (t_pool t)"

text \<open>\<open>ticks\<close> is what the queries hold, \<open>scale\<close> the conversion to nanoseconds.\<close>

definition read_ns_prefix :: "(nat \<Rightarrow> u64 list) \<Rightarrow> (u64 \<Rightarrow> u32 \<Rightarrow> 'f) \<Rightarrow> timer \<Rightarrow> u32 \<Rightarrow> 'f list gpu" where
  "read_ns_prefix ticks scale t n =
     g_bind (vk_call (Vk ''get_query_pool_results'')) (\<lambda>_.
     g_return (map (\<lambda>x. scale x (t_period t)) (take (unat n) (ticks (t_pool t)))))"

definition read_ns :: "(nat \<Rightarrow> u64 list) \<Rightarrow> (u64 \<Rightarrow> u32 \<Rightarrow> 'f) \<Rightarrow> timer \<Rightarrow> 'f list gpu" where
  "read_ns ticks scale t = read_ns_prefix ticks scale t (t_count t)"

subsection \<open>Descriptor pools\<close>

definition SETS_PER_POOL :: nat where "SETS_PER_POOL = 256"
definition DESCRIPTORS_PER_SET :: nat where "DESCRIPTORS_PER_SET = 16"

record arena =
  a_pools :: "nat list"
  a_remaining :: nat

definition arena_new :: arena where
  "arena_new = \<lparr>a_pools = [], a_remaining = 0\<rparr>"

type_synonym 'a arena_op = "arena \<Rightarrow> vk \<Rightarrow> ((gpu_error + 'a) \<times> arena \<times> vk) option"

definition add_pool :: "unit arena_op" where
  "add_pool a s =
     (case vk_create VkDescriptorPool (Vk ''create_descriptor_pool'') s of
        (Inl e, t) \<Rightarrow> Some (Inl e, a, t)
      | (Inr p, t) \<Rightarrow> Some (Inr (), a\<lparr>a_pools := a_pools a @ [p], a_remaining := SETS_PER_POOL\<rparr>, t))"

text \<open>\<open>allocate_descriptor_sets\<close> from one pool: the set is a fresh handle, freed with its pool.\<close>

definition alloc_set :: "nat \<Rightarrow> nat gpu" where
  "alloc_set p =
     g_bind (vk_call (Vk ''allocate_descriptor_sets'')) (\<lambda>_ s.
       (Inr (fresh s), s\<lparr>fresh := Suc (fresh s), pool_sets := (pool_sets s)(p := Suc (pool_sets s p))\<rparr>))"

definition arena_allocate :: "nat \<Rightarrow> nat arena_op" where
  "arena_allocate layout a s =
     Option.bind (if a_remaining a = 0 then add_pool a s else Some (Inr (), a, s)) (\<lambda>(r, a', s').
     case r of
       Inl e \<Rightarrow> Some (Inl e, a', s')
     | Inr _ \<Rightarrow>
         if a_pools a' = [] then None
         else (case alloc_set (last (a_pools a')) s' of
             (Inl e, t) \<Rightarrow> Some (Inl e, a', t)
           | (Inr ds, t) \<Rightarrow> Some (Inr ds, a'\<lparr>a_remaining := a_remaining a' - 1\<rparr>, t)))"

definition drop_arena :: "arena \<Rightarrow> vk \<Rightarrow> vk" where
  "drop_arena a s = fold (vk_destroy VkDescriptorPool) (a_pools a) s"

subsection \<open>The recorder\<close>

text \<open>\<open>r_dispatched\<close> is an unbounded counter; the source's wraps after \<open>2 ^ 32\<close> dispatches of one recording.\<close>

record prof =
  pf_timer :: timer
  pf_labels :: "string list"
  pf_auto :: bool

record recorder =
  r_pool :: nat
  r_cb :: nat
  r_arena :: "arena option"
  r_keep :: "buffer_inner list"
  r_dispatched :: nat
  r_finished :: bool
  r_prof :: "prof option"

type_synonym 'a rec_m = "recorder \<Rightarrow> vk \<Rightarrow> ((gpu_error + 'a) \<times> recorder \<times> vk) option"

definition rec_bind :: "'a rec_m \<Rightarrow> ('a \<Rightarrow> 'b rec_m) \<Rightarrow> 'b rec_m" where
  "rec_bind m f r s =
     Option.bind (m r s) (\<lambda>(x, r', s'). case x of Inl e \<Rightarrow> Some (Inl e, r', s') | Inr v \<Rightarrow> f v r' s')"

definition rec_return :: "'a \<Rightarrow> 'a rec_m" where "rec_return x r s = Some (Inr x, r, s)"

definition rec_cmds :: "cmd list \<Rightarrow> unit rec_m" where
  "rec_cmds cs r s = Some (Inr (), r, s\<lparr>cmds := (cmds s)(r_cb r := cmds s (r_cb r) @ cs)\<rparr>)"

definition timestamp :: "timer \<Rightarrow> u32 \<Rightarrow> unit rec_m" where
  "timestamp t i = rec_cmds [WriteTimestamp (t_pool t) i]"

definition reset_timer :: "timer \<Rightarrow> unit rec_m" where
  "reset_timer t = rec_cmds [ResetQueries (t_pool t) (t_count t)]"

definition barrier :: "unit rec_m" where
  "barrier = rec_cmds [Barrier]"

text \<open>\<open>mark\<close> takes the profile out and puts it back only when it succeeds.\<close>

definition mark :: "string \<Rightarrow> unit rec_m" where
  "mark label r s =
     (case r_prof r of
        None \<Rightarrow> Some (Inl (Validation ''mark() outside a profiled recording''), r, s)
      | Some prof \<Rightarrow>
          (let r0 = r\<lparr>r_prof := None\<rparr>; index = of_nat (length (pf_labels prof)) + 1 in
           if index \<ge> t_count (pf_timer prof)
           then Some (Inl (Validation ''profiling timer too small''), r0, s)
           else rec_bind (timestamp (pf_timer prof) index)
             (\<lambda>_ r1 s1. Some (Inr (), r1\<lparr>r_prof := Some (prof\<lparr>pf_labels := pf_labels prof @ [label]\<rparr>)\<rparr>, s1)) r0 s))"

definition dispatch_cmds :: "device_ctx \<Rightarrow> kernel \<Rightarrow> nat \<Rightarrow> u8 list option \<Rightarrow> u32 list \<Rightarrow> cmd list" where
  "dispatch_cmds d k ds push groups =
     (if debug_utils d then [BeginLabel (k_name k)] else []) @
     [BindPipeline (k_pipeline k), BindSet (k_pipeline_layout k) ds] @
     (case push of Some bytes \<Rightarrow> [PushConstants (k_pipeline_layout k) bytes] | None \<Rightarrow> []) @
     [Dispatch groups] @
     (if debug_utils d then [EndLabel] else [])"

definition write_set :: "nat \<Rightarrow> binding list \<Rightarrow> vk \<Rightarrow> vk" where
  "write_set ds writes s =
     s\<lparr>set_writes := (set_writes s)(ds :=
         map (\<lambda>w. (bd_binding w, b_buffer (bd_keep w), bd_offset w, bd_range w)) writes)\<rparr>"

definition in_arena :: "'a arena_op \<Rightarrow> 'a rec_m" where
  "in_arena m r s =
     Option.bind (r_arena r) (\<lambda>a.
     Option.bind (m a s) (\<lambda>(x, a', s'). Some (x, r\<lparr>r_arena := Some a'\<rparr>, s')))"

definition record_dispatch ::
  "device_ctx \<Rightarrow> kernel \<Rightarrow> binding list \<Rightarrow> u8 list option \<Rightarrow> u32 list \<Rightarrow> bool \<Rightarrow> unit rec_m" where
  "record_dispatch d k writes push groups auto_barrier =
     rec_bind (in_arena (arena_allocate (k_set_layout k))) (\<lambda>ds.
     rec_bind (\<lambda>r s. Some (Inr (), r\<lparr>r_keep := r_keep r @ map bd_keep writes\<rparr>, write_set ds writes s)) (\<lambda>_.
     rec_bind (\<lambda>r. rec_cmds (if auto_barrier \<and> r_dispatched r > 0 then [Barrier] else []) r) (\<lambda>_.
     rec_bind (rec_cmds (dispatch_cmds d k ds push groups)) (\<lambda>_.
     rec_bind (\<lambda>r s. Some (Inr (), r\<lparr>r_dispatched := Suc (r_dispatched r)\<rparr>, s)) (\<lambda>_ r.
     case r_prof r of
       Some p \<Rightarrow> if pf_auto p then mark (k_name k) r else rec_return () r
     | None \<Rightarrow> rec_return () r)))))"

definition dispatch :: "device_ctx \<Rightarrow> kernel \<Rightarrow> binding list \<Rightarrow> u8 list option \<Rightarrow> u32 list \<Rightarrow> unit rec_m" where
  "dispatch d k writes push groups = record_dispatch d k writes push groups True"

definition dispatch_overlapping :: "device_ctx \<Rightarrow> kernel \<Rightarrow> binding list \<Rightarrow> u8 list option \<Rightarrow> u32 list \<Rightarrow> unit rec_m" where
  "dispatch_overlapping d k writes push groups = record_dispatch d k writes push groups False"

text \<open>
  A program of public methods, as a recording closure runs them that passes on every error. A closure
  that swallows an error, or that calls \<open>reset_timer\<close> or \<open>timestamp\<close> itself, is not one of these.
\<close>

datatype rec_op =
    OpDispatch kernel "binding list" "u8 list option" "u32 list"
  | OpOverlapping kernel "binding list" "u8 list option" "u32 list"
  | OpBarrier
  | OpMark string
  | OpFail gpu_error

fun run_op :: "device_ctx \<Rightarrow> rec_op \<Rightarrow> unit rec_m" where
  "run_op d (OpDispatch k ws push groups) = dispatch d k ws push groups"
| "run_op d (OpOverlapping k ws push groups) = dispatch_overlapping d k ws push groups"
| "run_op d OpBarrier = barrier"
| "run_op d (OpMark l) = mark l"
| "run_op d (OpFail e) = (\<lambda>r s. Some (Inl e, r, s))"

fun run_ops :: "device_ctx \<Rightarrow> rec_op list \<Rightarrow> unit rec_m" where
  "run_ops d [] = rec_return ()"
| "run_ops d (op # ops) = rec_bind (run_op d op) (\<lambda>_. run_ops d ops)"

subsection \<open>Graphs\<close>

record command_graph =
  g_pool :: nat
  g_cb :: nat
  g_arena :: arena
  g_keep :: "buffer_inner list"

definition drop_graph :: "command_graph \<Rightarrow> vk \<Rightarrow> vk" where
  "drop_graph g s = drop_arena (g_arena g) (vk_destroy VkCommandPool (g_pool g) s)"

text \<open>The recorder's \<open>Drop\<close>, then the drop of its fields.\<close>

definition drop_recorder :: "recorder \<Rightarrow> vk \<Rightarrow> vk" where
  "drop_recorder r s =
     (let s1 = (if r_finished r then s else vk_destroy VkCommandPool (r_pool r) s) in
      case r_arena r of Some a \<Rightarrow> drop_arena a s1 | None \<Rightarrow> s1)"

definition new_handle :: "nat gpu" where
  "new_handle s = (Inr (fresh s), s\<lparr>fresh := Suc (fresh s)\<rparr>)"

definition begin_recorder :: "bool \<Rightarrow> recorder gpu" where
  "begin_recorder one_time =
     g_bind (vk_create VkCommandPool (Vk ''create_command_pool'')) (\<lambda>p.
     g_bind (g_cleanup (vk_call (Vk ''allocate_command_buffers'')) (vk_destroy VkCommandPool p)) (\<lambda>_.
     g_bind new_handle (\<lambda>cb.
     g_bind (g_cleanup (vk_call (Vk ''begin_command_buffer'')) (vk_destroy VkCommandPool p)) (\<lambda>_.
     g_bind (g_do (\<lambda>s. s\<lparr>cmds := (cmds s)(cb := [])\<rparr>)) (\<lambda>_.
     g_return \<lparr>r_pool = p, r_cb = cb, r_arena = Some arena_new, r_keep = [], r_dispatched = 0,
               r_finished = False, r_prof = None\<rparr>)))))"

text \<open>The recorder is consumed: on an error it is dropped, else its parts move into the graph.\<close>

definition finish_recorder :: "recorder \<Rightarrow> vk \<Rightarrow> ((gpu_error + (command_graph \<times> string list)) \<times> vk) option" where
  "finish_recorder r s =
     (let labels = (case r_prof r of Some p \<Rightarrow> pf_labels p | None \<Rightarrow> []); r0 = r\<lparr>r_prof := None\<rparr> in
      case vk_call (Vk ''end_command_buffer'') s of
        (Inl e, t) \<Rightarrow> Some (Inl e, drop_recorder r0 t)
      | (Inr _, t) \<Rightarrow>
          (case r_arena r0 of
             None \<Rightarrow> None
           | Some a \<Rightarrow>
               Some (Inr (\<lparr>g_pool = r_pool r0, g_cb = r_cb r0, g_arena = a, g_keep = r_keep r0\<rparr>, labels),
                     drop_recorder (r0\<lparr>r_finished := True, r_arena := None, r_keep := []\<rparr>) t)))"

definition record_inner :: "unit rec_m \<Rightarrow> vk \<Rightarrow> ((gpu_error + (command_graph \<times> string list)) \<times> vk) option" where
  "record_inner body s =
     (case begin_recorder False s of
        (Inl e, t) \<Rightarrow> Some (Inl e, t)
      | (Inr r, t) \<Rightarrow>
          Option.bind (body r t) (\<lambda>(x, r', t').
          case x of
            Inl e \<Rightarrow> Some (Inl e, drop_recorder r' t')
          | Inr _ \<Rightarrow> finish_recorder r' t'))"

definition record_graph :: "unit rec_m \<Rightarrow> vk \<Rightarrow> ((gpu_error + command_graph) \<times> vk) option" where
  "record_graph body s = map_option (\<lambda>(x, t). (map_sum id fst x, t)) (record_inner body s)"

definition profiled_body :: "timer \<Rightarrow> bool \<Rightarrow> unit rec_m \<Rightarrow> unit rec_m" where
  "profiled_body t auto body =
     rec_bind (reset_timer t) (\<lambda>_.
     rec_bind (timestamp t 0) (\<lambda>_.
     rec_bind (\<lambda>r s. Some (Inr (), r\<lparr>r_prof := Some \<lparr>pf_timer = t, pf_labels = [], pf_auto = auto\<rparr>\<rparr>, s)) (\<lambda>_.
     body)))"

definition record_profiled_inner ::
  "timer \<Rightarrow> bool \<Rightarrow> unit rec_m \<Rightarrow> vk \<Rightarrow> ((gpu_error + (command_graph \<times> string list)) \<times> vk) option" where
  "record_profiled_inner t auto body = record_inner (profiled_body t auto body)"

definition record_graph_profiled ::
  "timer \<Rightarrow> unit rec_m \<Rightarrow> vk \<Rightarrow> ((gpu_error + (command_graph \<times> string list)) \<times> vk) option" where
  "record_graph_profiled t body = record_profiled_inner t True body"

definition record_graph_with_marks ::
  "timer \<Rightarrow> unit rec_m \<Rightarrow> vk \<Rightarrow> ((gpu_error + (command_graph \<times> string list)) \<times> vk) option" where
  "record_graph_with_marks t body = record_profiled_inner t False body"

subsection \<open>Submission\<close>

text \<open>The fence is destroyed whether or not the submission and the wait succeed.\<close>

definition submit_and_wait :: "nat \<Rightarrow> unit gpu" where
  "submit_and_wait cb =
     g_bind (vk_create VkFence (Vk ''create_fence'')) (\<lambda>f s.
     (case g_bind (vk_call (Vk ''queue_submit'')) (\<lambda>_.
            g_bind (g_do (\<lambda>s. s\<lparr>submitted := submitted s @ [cb]\<rparr>)) (\<lambda>_.
            vk_call (Vk ''wait_for_fences''))) s of
        (r, t) \<Rightarrow> (r, vk_destroy VkFence f t)))"

definition submit_blocking :: "command_graph \<Rightarrow> unit gpu" where
  "submit_blocking g = submit_and_wait (g_cb g)"

definition submit_recorder_blocking :: "recorder \<Rightarrow> unit gpu" where
  "submit_recorder_blocking r s =
     (case g_bind (vk_call (Vk ''end_command_buffer'')) (\<lambda>_. submit_and_wait (r_cb r)) s of
        (x, t) \<Rightarrow> (x, drop_recorder r t))"

definition dispatch_blocking ::
  "device_ctx \<Rightarrow> kernel \<Rightarrow> binding list \<Rightarrow> u8 list option \<Rightarrow> u32 list \<Rightarrow> vk \<Rightarrow> ((gpu_error + unit) \<times> vk) option" where
  "dispatch_blocking d k writes push groups s =
     (case begin_recorder True s of
        (Inl e, t) \<Rightarrow> Some (Inl e, t)
      | (Inr r, t) \<Rightarrow>
          Option.bind (dispatch d k writes push groups r t) (\<lambda>(x, r', t').
          case x of
            Inl e \<Rightarrow> Some (Inl e, drop_recorder r' t')
          | Inr _ \<Rightarrow> Some (submit_recorder_blocking r' t')))"

definition new_step_buffer :: "device_ctx \<Rightarrow> mem_env \<Rightarrow> buffer gpu" where
  "new_step_buffer d env = new_buffer d env pod_u32 STEP_WORDS STORAGE_BUFFER"

end
