(* ===== verification/Model_Graph.thy ===== *)
theory Model_Graph
  imports Gpu_Graph Model_Desc
begin

text \<open>
  \<open>crates/sg-model/src/graph.rs\<close>, the recording half: which kernel every dispatch of a decode layer,
  a prefill layer and the LM head runs, what it binds, pushes and how many groups it launches. A
  field of \<open>Kernels\<close>, \<open>Bufs\<close>, \<open>PrefillBufs\<close>, \<open>LayerWeights\<close> and \<open>KvStore\<close> is a name here; the model
  record says which kernel and which buffer it holds. \<open>None\<close> is a panic.
\<close>

subsection \<open>Constants and kernels\<close>

definition SPLITS_SLIDING :: nat where "SPLITS_SLIDING = 16"
definition SPLITS_GLOBAL :: nat where "SPLITS_GLOBAL = 32"
definition PREFILL_SEGMENT_LAYERS :: nat where "PREFILL_SEGMENT_LAYERS = 6"
definition HIDDEN :: nat where "HIDDEN = 5376"
definition FFN :: nat where "FFN = 21504"
definition Q6K_ROW_WORDS :: nat where "Q6K_ROW_WORDS = 1104"

definition one_bits :: u32 where "one_bits = 0x3F800000"

datatype kname =
    K_rms5376 | K_rms512 | K_rms256 | K_rope_sl_q | K_rope_sl_k | K_rope_gl_q
  | K_rope_gl_k | K_gemv5376 | K_gemv8192 | K_gemv16384 | K_gemv21504 | K_geglu
  | K_add | K_append_sl | K_append_gl | K_append_gl_q8 | K_attn_sl | K_attn_gl_q8
  | K_reduce256 | K_reduce512 | K_logits | K_quant_q8 | K_gemm_up_i8 | K_gemm_down_i8
  | K_gemm_q_i8_sl | K_gemm_q_i8_gl | K_gemm_kv_i8_sl | K_gemm_kv_i8_gl | K_gemm_o_i8_sl | K_gemm_o_i8_gl
  | K_prefill_sl | K_prefill_gl_iq

fun kernel_name :: "kname \<Rightarrow> string" where
  "kernel_name K_rms5376 = ''rmsnorm_5376''"
| "kernel_name K_rms512 = ''rmsnorm_512''"
| "kernel_name K_rms256 = ''rmsnorm_256''"
| "kernel_name K_rope_sl_q = ''rope_sliding_q''"
| "kernel_name K_rope_sl_k = ''rope_sliding_k''"
| "kernel_name K_rope_gl_q = ''rope_global_q''"
| "kernel_name K_rope_gl_k = ''rope_global_k''"
| "kernel_name K_gemv5376 = ''gemv_q4_0_k5376''"
| "kernel_name K_gemv8192 = ''gemv_q4_0_k8192''"
| "kernel_name K_gemv16384 = ''gemv_q4_0_k16384''"
| "kernel_name K_gemv21504 = ''gemv_q4_0_k21504''"
| "kernel_name K_geglu = ''geglu''"
| "kernel_name K_add = ''add_scaled''"
| "kernel_name K_append_sl = ''kv_append_sliding''"
| "kernel_name K_append_gl = ''kv_append_global''"
| "kernel_name K_append_gl_q8 = ''kv_append_global_q8''"
| "kernel_name K_attn_sl = ''attn_decode_sliding''"
| "kernel_name K_attn_gl_q8 = ''attn_decode_global_q8k''"
| "kernel_name K_reduce256 = ''attn_reduce_d256''"
| "kernel_name K_reduce512 = ''attn_reduce_d512''"
| "kernel_name K_logits = ''gemv_q6_k_logits''"
| "kernel_name K_quant_q8 = ''kv_quant_q8''"
| "kernel_name K_gemm_up_i8 = ''gemm_q4_0_i8_swz_m4n1_k5376_n21504''"
| "kernel_name K_gemm_down_i8 = ''gemm_q4_0_i8_bb_pfd4''"
| "kernel_name K_gemm_q_i8_sl = ''gemm_q4_0_i8_swz_m4n1_k5376_n8192''"
| "kernel_name K_gemm_q_i8_gl = ''gemm_q4_0_i8_swz_m4n1_k5376_n16384''"
| "kernel_name K_gemm_kv_i8_sl = ''gemm_q4_0_i8_swz_m4n1_k5376_n4096''"
| "kernel_name K_gemm_kv_i8_gl = ''gemm_q4_0_i8_swz_m4n1_k5376_n2048''"
| "kernel_name K_gemm_o_i8_sl = ''gemm_q4_0_i8_swz_m4n1_k8192_n5376''"
| "kernel_name K_gemm_o_i8_gl = ''gemm_q4_0_i8_swz_m4n1_s1_k16384_n5376''"
| "kernel_name K_prefill_sl = ''attn_prefill_sliding_ring''"
| "kernel_name K_prefill_gl_iq = ''attn_prefill_global_flash_sp_iq''"

subsection \<open>Buffers\<close>

text \<open>The activation buffers; \<open>Bufs\<close> and \<open>PrefillBufs\<close> share most field names.\<close>

datatype act =
    A_x | A_xn | A_q_raw_sl | A_q_sl | A_q_raw_gl | A_q_gl | A_kp_sl | A_k_sl | A_vp_sl | A_v_sl
  | A_kp_gl | A_k_gl | A_v_gl | A_attn_sl | A_attn_gl | A_part_sl | A_part_gl | A_o | A_on | A_x2
  | A_fin | A_g | A_u | A_gu | A_f | A_fn2 | A_logits
  | A_fin_i8 | A_fin_scales | A_gu_i8 | A_gu_scales | A_xn_i8 | A_xn_scales | A_ao_i8 | A_ao_scales
  | A_q_i8_gl | A_q_scales_gl | A_cs_sl | A_cs_gl

datatype weight =
    W_attn_norm | W_attn_q_norm | W_attn_k_norm | W_post_attention_norm | W_ffn_norm | W_post_ffw_norm
  | W_attn_q | W_attn_k | W_attn_v | W_attn_output | W_ffn_gate | W_ffn_up | W_ffn_down

datatype bref =
    Act act
  | Pre act
  | Wt weight nat
  | TokenEmbd | OutputNorm | NormOnes
  | KvK nat | KvQuants nat | KvScales nat | KvV nat
  | Step | CsSliding | CsGlobal
  | LogitsAll

text \<open>The element type of a buffer: \<open>u16\<close> for f16, four bytes for \<open>u32\<close> and \<open>f32\<close>.\<close>

fun act_wide :: "act \<Rightarrow> bool" where
  "act_wide a = (a \<in> {A_part_sl, A_part_gl, A_logits, A_fin_i8, A_gu_i8, A_xn_i8, A_ao_i8, A_q_i8_gl, A_cs_sl, A_cs_gl})"

fun wide :: "bref \<Rightarrow> bool" where
  "wide (Act a) = act_wide a"
| "wide (Pre a) = act_wide a"
| "wide (KvK _) = False" | "wide (KvScales _) = False" | "wide (KvV _) = False"
| "wide (Wt _ _) = True" | "wide TokenEmbd = True" | "wide OutputNorm = True" | "wide NormOnes = True"
| "wide (KvQuants _) = True" | "wide Step = True" | "wide CsSliding = True" | "wide CsGlobal = True"
| "wide LogitsAll = True"

text \<open>The lengths \<open>GpuModel::new\<close> allocates; \<open>None\<close> where the struct has no such field.\<close>

definition q_dim_of :: "attn_geometry \<Rightarrow> nat" where "q_dim_of g = 32 * head_dim g"
definition kv_dim_of :: "attn_geometry \<Rightarrow> nat" where "kv_dim_of g = n_kv_heads g * head_dim g"

fun bufs_len :: "model_desc \<Rightarrow> act \<Rightarrow> nat option" where
  "bufs_len d A_x = Some HIDDEN" | "bufs_len d A_xn = Some HIDDEN"
| "bufs_len d A_q_raw_sl = Some (q_dim_of (sliding d))" | "bufs_len d A_q_sl = Some (q_dim_of (sliding d))"
| "bufs_len d A_q_raw_gl = Some (q_dim_of (global d))" | "bufs_len d A_q_gl = Some (q_dim_of (global d))"
| "bufs_len d A_kp_sl = Some (kv_dim_of (sliding d))" | "bufs_len d A_k_sl = Some (kv_dim_of (sliding d))"
| "bufs_len d A_vp_sl = Some (kv_dim_of (sliding d))" | "bufs_len d A_v_sl = Some (kv_dim_of (sliding d))"
| "bufs_len d A_kp_gl = Some (kv_dim_of (global d))" | "bufs_len d A_k_gl = Some (kv_dim_of (global d))"
| "bufs_len d A_v_gl = Some (kv_dim_of (global d))"
| "bufs_len d A_attn_sl = Some (q_dim_of (sliding d))" | "bufs_len d A_attn_gl = Some (q_dim_of (global d))"
| "bufs_len d A_part_sl = Some (32 * SPLITS_SLIDING * (head_dim (sliding d) + 2))"
| "bufs_len d A_part_gl = Some (32 * SPLITS_GLOBAL * (head_dim (global d) + 2))"
| "bufs_len d A_o = Some HIDDEN" | "bufs_len d A_on = Some HIDDEN" | "bufs_len d A_x2 = Some HIDDEN"
| "bufs_len d A_fin = Some HIDDEN" | "bufs_len d A_g = Some FFN" | "bufs_len d A_u = Some FFN"
| "bufs_len d A_gu = Some FFN" | "bufs_len d A_f = Some HIDDEN" | "bufs_len d A_fn2 = Some HIDDEN"
| "bufs_len d A_logits = Some (vocab_size d)"
| "bufs_len d _ = None"

fun prefill_len :: "model_desc \<Rightarrow> nat \<Rightarrow> act \<Rightarrow> nat option" where
  "prefill_len d m A_fin_i8 = Some (m * HIDDEN div 4)" | "prefill_len d m A_fin_scales = Some (m * HIDDEN div 32)"
| "prefill_len d m A_gu_i8 = Some (m * FFN div 4)" | "prefill_len d m A_gu_scales = Some (m * FFN div 32)"
| "prefill_len d m A_xn_i8 = Some (m * HIDDEN div 4)" | "prefill_len d m A_xn_scales = Some (m * HIDDEN div 32)"
| "prefill_len d m A_ao_i8 = Some (m * q_dim_of (global d) div 4)"
| "prefill_len d m A_ao_scales = Some (m * q_dim_of (global d) div 32)"
| "prefill_len d m A_q_i8_gl = Some (m * q_dim_of (global d) div 4)"
| "prefill_len d m A_q_scales_gl = Some (m * q_dim_of (global d) div 32)"
| "prefill_len d m A_cs_sl = Some (m * head_dim (sliding d) div 2 * 2)"
| "prefill_len d m A_cs_gl = Some (m * head_dim (global d) div 8 * 2)"
| "prefill_len d m A_part_sl = None" | "prefill_len d m A_part_gl = None" | "prefill_len d m A_logits = None"
| "prefill_len d m a = map_option ((*) m) (bufs_len d a)"

text \<open>The KV store of a layer: a ring of f16 keys, or a linear store of quantized keys.\<close>

fun kv_len :: "model_desc \<Rightarrow> nat \<Rightarrow> layer_kind \<Rightarrow> bref \<Rightarrow> nat option" where
  "kv_len d cap Sliding (KvK _) = Some (sliding_window d * kv_dim_of (sliding d))"
| "kv_len d cap Sliding (KvV _) = Some (sliding_window d * kv_dim_of (sliding d))"
| "kv_len d cap Global (KvQuants _) = Some (cap * kv_dim_of (global d) div 4)"
| "kv_len d cap Global (KvScales _) = Some (cap * kv_dim_of (global d) div 32)"
| "kv_len d cap Global (KvV _) = Some (cap * kv_dim_of (global d))"
| "kv_len d cap _ _ = None"

subsection \<open>The model\<close>

record layer_weights =
  lw_kind :: layer_kind
  layer_output_scale :: f32

record graph_model =
  gm_ctx :: device_ctx
  gm_desc :: model_desc
  gm_layers :: "layer_weights list"
  gm_kernel :: "kname \<Rightarrow> kernel"
  gm_buf :: "bref \<Rightarrow> buffer option"

text \<open>A dispatch before its buffers are looked up: a binding may be a slice of a buffer.\<close>

record mop =
  op_kernel :: kname
  op_binds :: "(nat \<times> bref \<times> (nat \<times> nat) option) list"
  op_push :: "u32 list option"
  op_groups :: "u32 list"

abbreviation bnd :: "nat \<Rightarrow> bref \<Rightarrow> nat \<times> bref \<times> (nat \<times> nat) option" where
  "bnd i b \<equiv> (i, b, None)"

definition mk_op :: "kname \<Rightarrow> (nat \<times> bref \<times> (nat \<times> nat) option) list \<Rightarrow> u32 list option \<Rightarrow> u32 list \<Rightarrow> mop" where
  "mk_op k bs p gs = \<lparr>op_kernel = k, op_binds = bs, op_push = p, op_groups = gs\<rparr>"

definition rms :: "kname \<Rightarrow> bref \<Rightarrow> bref \<Rightarrow> bref \<Rightarrow> nat \<Rightarrow> mop" where
  "rms k x w y rows = mk_op k [bnd 0 x, bnd 1 w, bnd 2 y] None [of_nat rows, 1, 1]"

definition grid :: "graph_model \<Rightarrow> kname \<Rightarrow> nat \<Rightarrow> u32 list" where
  "grid m k n = groups_for (gm_kernel m k) (of_nat n)"

definition len_of :: "graph_model \<Rightarrow> bref \<Rightarrow> nat" where
  "len_of m b = (case gm_buf m b of Some x \<Rightarrow> unat (b_len x) | None \<Rightarrow> 0)"

definition geometry :: "graph_model \<Rightarrow> layer_kind \<Rightarrow> attn_geometry" where
  "geometry m k = (case k of Sliding \<Rightarrow> sliding (gm_desc m) | Global \<Rightarrow> global (gm_desc m))"

subsection \<open>A decode layer\<close>

text \<open>The norm, the projections, the head norms and the rotary embedding of a decode layer.\<close>

definition decode_proj ::
  "graph_model \<Rightarrow> nat \<Rightarrow> bool \<Rightarrow> nat \<Rightarrow> nat \<Rightarrow> bref \<Rightarrow> bref \<Rightarrow> bref \<Rightarrow> bref \<Rightarrow> bref \<Rightarrow> mop list" where
  "decode_proj m i is_sl hdim n_kv q_raw q kp k v =
     (let q_dim = 32 * hdim;
          kv_dim = n_kv * hdim;
          (rms_hd, rope_q, rope_k) =
            (if is_sl then (K_rms256, K_rope_sl_q, K_rope_sl_k) else (K_rms512, K_rope_gl_q, K_rope_gl_k));
          cs = (if is_sl then CsSliding else CsGlobal);
          has_v = (gm_buf m (Wt W_attn_v i) \<noteq> None);
          vp = (if has_v then Act A_vp_sl else kp);
          live_pairs = (if is_sl then hdim div 2 else hdim div 8)
      in
        [rms K_rms5376 (Act A_x) (Wt W_attn_norm i) (Act A_xn) 1,
         mk_op K_gemv5376 [bnd 0 (Wt W_attn_q i), bnd 1 (Act A_xn), bnd 2 q_raw] None [of_nat q_dim, 1, 1],
         mk_op K_gemv5376 [bnd 0 (Wt W_attn_k i), bnd 1 (Act A_xn), bnd 2 kp] None [of_nat kv_dim, 1, 1]] @
        (if has_v
         then [mk_op K_gemv5376 [bnd 0 (Wt W_attn_v i), bnd 1 (Act A_xn), bnd 2 (Act A_vp_sl)] None [of_nat kv_dim, 1, 1]]
         else []) @
        [rms rms_hd q_raw (Wt W_attn_q_norm i) q 32,
         rms rms_hd kp (Wt W_attn_k_norm i) k n_kv,
         rms rms_hd vp NormOnes v n_kv,
         mk_op rope_q [bnd 0 q, bnd 1 cs] None (grid m rope_q (32 * live_pairs)),
         mk_op rope_k [bnd 0 k, bnd 1 cs] None (grid m rope_k (n_kv * live_pairs))])"

text \<open>The appends to the stores and the split attention over them.\<close>

definition decode_attn :: "graph_model \<Rightarrow> nat \<Rightarrow> bool \<Rightarrow> nat \<Rightarrow> nat \<Rightarrow> bref \<Rightarrow> bref \<Rightarrow> bref \<Rightarrow> mop list" where
  "decode_attn m i is_sl hdim n_kv q k v =
     (let kv_dim = n_kv * hdim;
          (red_k, part, attn_out, n_splits) =
            (if is_sl then (K_reduce256, Act A_part_sl, Act A_attn_sl, SPLITS_SLIDING)
             else (K_reduce512, Act A_part_gl, Act A_attn_gl, SPLITS_GLOBAL))
      in
        (if is_sl
         then [mk_op K_append_sl [bnd 0 k, bnd 1 (KvK i), bnd 2 Step] None (grid m K_append_sl kv_dim),
               mk_op K_append_sl [bnd 0 v, bnd 1 (KvV i), bnd 2 Step] None (grid m K_append_sl kv_dim)]
         else [mk_op K_append_gl_q8 [bnd 0 k, bnd 1 (KvScales i), bnd 2 (KvQuants i), bnd 3 Step] None
                 (grid m K_append_gl_q8 (kv_dim div 32)),
               mk_op K_append_gl [bnd 0 v, bnd 1 (KvV i), bnd 2 Step] None (grid m K_append_gl kv_dim)]) @
        [if is_sl
         then mk_op K_attn_sl [bnd 0 q, bnd 1 (KvK i), bnd 2 (KvV i), bnd 3 part, bnd 4 Step]
                (Some [of_nat n_splits, one_bits]) [of_nat n_kv, of_nat n_splits, 1]
         else mk_op K_attn_gl_q8 [bnd 0 q, bnd 1 (KvQuants i), bnd 2 (KvScales i), bnd 3 (KvV i), bnd 4 part, bnd 5 Step]
                (Some [of_nat n_splits, one_bits]) [of_nat n_kv, of_nat n_splits, 1],
         mk_op red_k [bnd 0 part, bnd 1 attn_out] (Some [of_nat n_splits]) [32, 1, 1]])"

text \<open>The output projection with the first residual, and the feed-forward block with the second.\<close>

definition decode_out :: "graph_model \<Rightarrow> nat \<Rightarrow> bool \<Rightarrow> mop list" where
  "decode_out m i is_sl =
     (let wo_gemv = (if is_sl then K_gemv8192 else K_gemv16384);
          attn_out = (if is_sl then Act A_attn_sl else Act A_attn_gl)
      in
        [mk_op wo_gemv [bnd 0 (Wt W_attn_output i), bnd 1 attn_out, bnd 2 (Act A_o)] None [of_nat HIDDEN, 1, 1],
         rms K_rms5376 (Act A_o) (Wt W_post_attention_norm i) (Act A_on) 1,
         mk_op K_add [bnd 0 (Act A_x), bnd 1 (Act A_on), bnd 2 (Act A_x2)] (Some [one_bits]) (grid m K_add HIDDEN)])"

definition decode_ffn :: "graph_model \<Rightarrow> nat \<Rightarrow> f32 \<Rightarrow> mop list" where
  "decode_ffn m i scale =
     [rms K_rms5376 (Act A_x2) (Wt W_ffn_norm i) (Act A_fin) 1,
      mk_op K_gemv5376 [bnd 0 (Wt W_ffn_gate i), bnd 1 (Act A_fin), bnd 2 (Act A_g)] None [of_nat FFN, 1, 1],
      mk_op K_gemv5376 [bnd 0 (Wt W_ffn_up i), bnd 1 (Act A_fin), bnd 2 (Act A_u)] None [of_nat FFN, 1, 1],
      mk_op K_geglu [bnd 0 (Act A_g), bnd 1 (Act A_u), bnd 2 (Act A_gu)] None (grid m K_geglu FFN),
      mk_op K_gemv21504 [bnd 0 (Wt W_ffn_down i), bnd 1 (Act A_gu), bnd 2 (Act A_f)] None [of_nat HIDDEN, 1, 1],
      rms K_rms5376 (Act A_f) (Wt W_post_ffw_norm i) (Act A_fn2) 1,
      mk_op K_add [bnd 0 (Act A_x2), bnd 1 (Act A_fn2), bnd 2 (Act A_x)] (Some [scale]) (grid m K_add HIDDEN)]"

definition record_layer :: "graph_model \<Rightarrow> nat \<Rightarrow> mop list option" where
  "record_layer m i =
     (if i \<ge> length (gm_layers m) then None else
      let lw = gm_layers m ! i;
          is_sl = (lw_kind lw = Sliding);
          hdim = head_dim (geometry m (lw_kind lw));
          n_kv = n_kv_heads (geometry m (lw_kind lw));
          (q_raw, q, kp, k, v) =
            (if is_sl then (Act A_q_raw_sl, Act A_q_sl, Act A_kp_sl, Act A_k_sl, Act A_v_sl)
             else (Act A_q_raw_gl, Act A_q_gl, Act A_kp_gl, Act A_k_gl, Act A_v_gl))
      in Some (decode_proj m i is_sl hdim n_kv q_raw q kp k v @ decode_attn m i is_sl hdim n_kv q k v @
               decode_out m i is_sl @ decode_ffn m i (layer_output_scale lw)))"

lemmas record_layer_defs = record_layer_def decode_proj_def decode_attn_def decode_out_def decode_ffn_def

definition record_logits :: "graph_model \<Rightarrow> mop list" where
  "record_logits m =
     [rms K_rms5376 (Act A_x) OutputNorm (Act A_xn) 1,
      mk_op K_logits [bnd 0 TokenEmbd, bnd 1 (Act A_xn), bnd 2 (Act A_logits)] None [of_nat (vocab_size (gm_desc m)), 1, 1]]"

subsection \<open>A prefill layer\<close>

definition do_appends :: "graph_model \<Rightarrow> nat \<Rightarrow> bool \<Rightarrow> bref \<Rightarrow> bref \<Rightarrow> nat \<Rightarrow> mop list" where
  "do_appends m i is_sl k v real =
     (if is_sl
      then [mk_op K_append_sl [(0, k, Some (0, real)), bnd 1 (KvK i), bnd 2 Step] None (grid m K_append_sl real),
            mk_op K_append_sl [(0, v, Some (0, real)), bnd 1 (KvV i), bnd 2 Step] None (grid m K_append_sl real)]
      else [mk_op K_append_gl_q8 [(0, k, Some (0, real)), bnd 1 (KvScales i), bnd 2 (KvQuants i), bnd 3 Step] None
              (grid m K_append_gl_q8 (real div 32)),
            mk_op K_append_gl [(0, v, Some (0, real)), bnd 1 (KvV i), bnd 2 Step] None (grid m K_append_gl real)])"

definition prefill_proj ::
  "graph_model \<Rightarrow> nat \<Rightarrow> bool \<Rightarrow> nat \<Rightarrow> nat \<Rightarrow> bref \<Rightarrow> bref \<Rightarrow> bref \<Rightarrow> bref \<Rightarrow> bref \<Rightarrow> nat \<Rightarrow> mop list" where
  "prefill_proj m i is_sl hdim n_kv q_raw q kp k v m_pad =
     (let q_dim = 32 * hdim;
          kv_dim = n_kv * hdim;
          (rms_hd, rope_q, rope_k, cs) =
            (if is_sl then (K_rms256, K_rope_sl_q, K_rope_sl_k, Pre A_cs_sl)
             else (K_rms512, K_rope_gl_q, K_rope_gl_k, Pre A_cs_gl));
          (gq, gkv) = (if is_sl then (K_gemm_q_i8_sl, K_gemm_kv_i8_sl) else (K_gemm_q_i8_gl, K_gemm_kv_i8_gl));
          mg2 = of_nat (m_pad div 64);
          has_v = (gm_buf m (Wt W_attn_v i) \<noteq> None);
          vp = (if has_v then Pre A_vp_sl else kp);
          live_pairs = (if is_sl then hdim div 2 else hdim div 8)
      in
        [rms K_rms5376 (Pre A_x) (Wt W_attn_norm i) (Pre A_xn) m_pad,
         mk_op K_quant_q8 [bnd 0 (Pre A_xn), bnd 1 (Pre A_xn_scales), bnd 2 (Pre A_xn_i8)] None
           (grid m K_quant_q8 (m_pad * HIDDEN div 32)),
         mk_op gq [bnd 0 (Wt W_attn_q i), bnd 1 (Pre A_xn_i8), bnd 2 (Pre A_xn_scales), bnd 3 q_raw] None
           [mg2, of_nat (q_dim div 16), 1],
         mk_op gkv [bnd 0 (Wt W_attn_k i), bnd 1 (Pre A_xn_i8), bnd 2 (Pre A_xn_scales), bnd 3 kp] None
           [mg2, of_nat (kv_dim div 16), 1]] @
        (if has_v
         then [mk_op gkv [bnd 0 (Wt W_attn_v i), bnd 1 (Pre A_xn_i8), bnd 2 (Pre A_xn_scales), bnd 3 (Pre A_vp_sl)] None
                 [mg2, of_nat (kv_dim div 16), 1]]
         else []) @
        [rms rms_hd q_raw (Wt W_attn_q_norm i) q (m_pad * 32),
         rms rms_hd kp (Wt W_attn_k_norm i) k (m_pad * n_kv),
         rms rms_hd vp NormOnes v (m_pad * n_kv),
         mk_op rope_q [bnd 0 q, bnd 1 cs] None (grid m rope_q (m_pad * 32 * live_pairs)),
         mk_op rope_k [bnd 0 k, bnd 1 cs] None (grid m rope_k (m_pad * n_kv * live_pairs))])"

text \<open>Sliding layers attend over ring and chunk before they append, global layers after.\<close>

definition prefill_attn :: "graph_model \<Rightarrow> nat \<Rightarrow> bool \<Rightarrow> nat \<Rightarrow> nat \<Rightarrow> bref \<Rightarrow> bref \<Rightarrow> bref \<Rightarrow> nat \<Rightarrow> nat \<Rightarrow> mop list" where
  "prefill_attn m i is_sl hdim n_kv q k v m_pad n_real =
     (let q_dim = 32 * hdim;
          real = n_real * (n_kv * hdim);
          attn_out = (if is_sl then Pre A_attn_sl else Pre A_attn_gl)
      in
        if is_sl
        then mk_op K_prefill_sl [bnd 0 q, bnd 1 (KvK i), bnd 2 (KvV i), bnd 3 k, bnd 4 v, bnd 5 attn_out, bnd 6 Step]
               (Some [one_bits]) [of_nat n_kv, of_nat m_pad, 1] #
             do_appends m i is_sl k v real
        else do_appends m i is_sl k v real @
             [mk_op K_quant_q8 [bnd 0 q, bnd 1 (Pre A_q_scales_gl), bnd 2 (Pre A_q_i8_gl)] None
                (grid m K_quant_q8 (m_pad * q_dim div 32)),
              mk_op K_prefill_gl_iq
                [bnd 0 (Pre A_q_i8_gl), bnd 1 (Pre A_q_scales_gl), bnd 2 (KvQuants i), bnd 3 (KvScales i),
                 bnd 4 (KvV i), bnd 5 attn_out, bnd 6 Step]
                (Some [one_bits]) [32, of_nat (m_pad div 16), 1]])"

definition prefill_out :: "graph_model \<Rightarrow> nat \<Rightarrow> bool \<Rightarrow> nat \<Rightarrow> nat \<Rightarrow> mop list" where
  "prefill_out m i is_sl hdim m_pad =
     (let q_dim = 32 * hdim;
          attn_out = (if is_sl then Pre A_attn_sl else Pre A_attn_gl);
          go = (if is_sl then K_gemm_o_i8_sl else K_gemm_o_i8_gl);
          mg2 = of_nat (m_pad div 64)
      in
        [mk_op K_quant_q8 [bnd 0 attn_out, bnd 1 (Pre A_ao_scales), bnd 2 (Pre A_ao_i8)] None
           (grid m K_quant_q8 (m_pad * q_dim div 32)),
         mk_op go [bnd 0 (Wt W_attn_output i), bnd 1 (Pre A_ao_i8), bnd 2 (Pre A_ao_scales), bnd 3 (Pre A_o)] None
           [mg2, of_nat (HIDDEN div 16), 1],
         rms K_rms5376 (Pre A_o) (Wt W_post_attention_norm i) (Pre A_on) m_pad,
         mk_op K_add [bnd 0 (Pre A_x), bnd 1 (Pre A_on), bnd 2 (Pre A_x2)] (Some [one_bits])
           (grid m K_add (len_of m (Pre A_x2)))])"

definition prefill_ffn :: "graph_model \<Rightarrow> nat \<Rightarrow> f32 \<Rightarrow> nat \<Rightarrow> mop list" where
  "prefill_ffn m i scale m_pad =
     (let mg2 = of_nat (m_pad div 64) in
        [rms K_rms5376 (Pre A_x2) (Wt W_ffn_norm i) (Pre A_fin) m_pad,
         mk_op K_quant_q8 [bnd 0 (Pre A_fin), bnd 1 (Pre A_fin_scales), bnd 2 (Pre A_fin_i8)] None
           (grid m K_quant_q8 (m_pad * HIDDEN div 32)),
         mk_op K_gemm_up_i8 [bnd 0 (Wt W_ffn_gate i), bnd 1 (Pre A_fin_i8), bnd 2 (Pre A_fin_scales), bnd 3 (Pre A_g)]
           None [mg2, of_nat (FFN div 16), 1],
         mk_op K_gemm_up_i8 [bnd 0 (Wt W_ffn_up i), bnd 1 (Pre A_fin_i8), bnd 2 (Pre A_fin_scales), bnd 3 (Pre A_u)]
           None [mg2, of_nat (FFN div 16), 1],
         mk_op K_geglu [bnd 0 (Pre A_g), bnd 1 (Pre A_u), bnd 2 (Pre A_gu)] None (grid m K_geglu (len_of m (Pre A_gu))),
         mk_op K_quant_q8 [bnd 0 (Pre A_gu), bnd 1 (Pre A_gu_scales), bnd 2 (Pre A_gu_i8)] None
           (grid m K_quant_q8 (m_pad * FFN div 32)),
         mk_op K_gemm_down_i8 [bnd 0 (Wt W_ffn_down i), bnd 1 (Pre A_gu_i8), bnd 2 (Pre A_gu_scales), bnd 3 (Pre A_f)]
           None [mg2, of_nat (HIDDEN div 16), 1],
         rms K_rms5376 (Pre A_f) (Wt W_post_ffw_norm i) (Pre A_fn2) m_pad,
         mk_op K_add [bnd 0 (Pre A_x2), bnd 1 (Pre A_fn2), bnd 2 (Pre A_x)] (Some [scale])
           (grid m K_add (len_of m (Pre A_x)))])"

definition record_prefill_layer :: "graph_model \<Rightarrow> nat \<Rightarrow> nat \<Rightarrow> nat \<Rightarrow> mop list option" where
  "record_prefill_layer m i m_pad n_real =
     (if i \<ge> length (gm_layers m) then None else
      let lw = gm_layers m ! i;
          is_sl = (lw_kind lw = Sliding);
          hdim = head_dim (geometry m (lw_kind lw));
          n_kv = n_kv_heads (geometry m (lw_kind lw));
          (q_raw, q, kp, k, v) =
            (if is_sl then (Pre A_q_raw_sl, Pre A_q_sl, Pre A_kp_sl, Pre A_k_sl, Pre A_v_sl)
             else (Pre A_q_raw_gl, Pre A_q_gl, Pre A_kp_gl, Pre A_k_gl, Pre A_v_gl))
      in Some (prefill_proj m i is_sl hdim n_kv q_raw q kp k v m_pad @
               prefill_attn m i is_sl hdim n_kv q k v m_pad n_real @
               prefill_out m i is_sl hdim m_pad @ prefill_ffn m i (layer_output_scale lw) m_pad))"

lemmas record_prefill_layer_defs = record_prefill_layer_def prefill_proj_def prefill_attn_def prefill_out_def
  prefill_ffn_def do_appends_def

definition record_prefill_logits :: "graph_model \<Rightarrow> nat \<Rightarrow> mop list option" where
  "record_prefill_logits m n_real =
     (if n_real = 0 then None else Some
       [mk_op K_rms5376 [(0, Pre A_x, Some ((n_real - 1) * HIDDEN, n_real * HIDDEN)), bnd 1 OutputNorm, bnd 2 (Act A_xn)]
          None [1, 1, 1],
        mk_op K_logits [bnd 0 TokenEmbd, bnd 1 (Act A_xn), bnd 2 (Act A_logits)] None
          [of_nat (vocab_size (gm_desc m)), 1, 1]])"

subsection \<open>Recording\<close>

text \<open>\<open>buf(n, b)\<close> and the \<open>expect\<close> of an optional field.\<close>

definition bind_ref :: "graph_model \<Rightarrow> nat \<times> bref \<times> (nat \<times> nat) option \<Rightarrow> binding option" where
  "bind_ref m = (\<lambda>(i, b, sl).
     Option.bind (gm_buf m b) (\<lambda>x.
     Option.bind (case sl of None \<Rightarrow> Some x | Some (lo, hi) \<Rightarrow> slice_buf x (of_nat lo) (of_nat hi)) (\<lambda>y.
     Some (if wide b then bind_buffer pod_u32 (of_nat i) y else bind_buffer pod_u16 (of_nat i) y))))"

text \<open>
  The bindings of an operation. \<open>record_ops\<close> looks up those of all operations before it records the
  first, where the source looks them up one by one: a missing buffer or a slice out of range is then a
  panic before any driver call. On a built model there is neither.
\<close>

definition realize :: "graph_model \<Rightarrow> mop \<Rightarrow> rec_op option" where
  "realize m op =
     Option.bind (those (map (bind_ref m) (op_binds op))) (\<lambda>bs.
     Some (OpDispatch (gm_kernel m (op_kernel op)) bs
       (map_option (\<lambda>ws. concat (map (put_word 4) ws)) (op_push op)) (op_groups op)))"

fun concat_opt :: "'a list option list \<Rightarrow> 'a list option" where
  "concat_opt [] = Some []"
| "concat_opt (x # xs) = Option.bind x (\<lambda>a. Option.bind (concat_opt xs) (\<lambda>b. Some (a @ b)))"

definition record_ops :: "graph_model \<Rightarrow> mop list option \<Rightarrow> vk \<Rightarrow> ((gpu_error + command_graph) \<times> vk) option" where
  "record_ops m ops s =
     Option.bind ops (\<lambda>xs. Option.bind (those (map (realize m) xs)) (\<lambda>rs. record_graph (run_ops (gm_ctx m) rs) s))"

definition decode_ops :: "graph_model \<Rightarrow> nat list \<Rightarrow> bool \<Rightarrow> mop list option" where
  "decode_ops m layers with_logits =
     concat_opt (map (record_layer m) layers @ (if with_logits then [Some (record_logits m)] else []))"

definition record_decode :: "graph_model \<Rightarrow> nat list \<Rightarrow> bool \<Rightarrow> vk \<Rightarrow> ((gpu_error + command_graph) \<times> vk) option" where
  "record_decode m layers with_logits = record_ops m (decode_ops m layers with_logits)"

definition prefill_layer_ops :: "graph_model \<Rightarrow> nat list \<Rightarrow> nat \<Rightarrow> nat \<Rightarrow> mop list option" where
  "prefill_layer_ops m layers m_pad n_real = concat_opt (map (\<lambda>i. record_prefill_layer m i m_pad n_real) layers)"

definition record_prefill_layers ::
  "graph_model \<Rightarrow> nat list \<Rightarrow> nat \<Rightarrow> nat \<Rightarrow> vk \<Rightarrow> ((gpu_error + command_graph) \<times> vk) option" where
  "record_prefill_layers m layers m_pad n_real = record_ops m (prefill_layer_ops m layers m_pad n_real)"

datatype logits_mode = LogitsNone | LogitsLast

definition segment_ops :: "graph_model \<Rightarrow> nat \<Rightarrow> nat \<Rightarrow> nat \<Rightarrow> nat \<Rightarrow> logits_mode \<Rightarrow> mop list option" where
  "segment_ops m start stop m_pad n_real mode =
     concat_opt (map (\<lambda>i. record_prefill_layer m i m_pad n_real) [start..<stop] @
       (if mode = LogitsLast \<and> stop = n_layers (gm_desc m) then [record_prefill_logits m n_real] else []))"

text \<open>The segments are dropped when a later one fails.\<close>

function record_segments ::
  "graph_model \<Rightarrow> nat \<Rightarrow> nat \<Rightarrow> logits_mode \<Rightarrow> nat \<Rightarrow> command_graph list \<Rightarrow> vk \<Rightarrow> ((gpu_error + command_graph list) \<times> vk) option" where
  "record_segments m m_pad n_real mode start segments s =
     (if start < n_layers (gm_desc m)
      then let stop = min (start + PREFILL_SEGMENT_LAYERS) (n_layers (gm_desc m)) in
           Option.bind (record_ops m (segment_ops m start stop m_pad n_real mode) s) (\<lambda>(r, t).
           case r of
             Inl e \<Rightarrow> Some (Inl e, fold drop_graph segments t)
           | Inr g \<Rightarrow> record_segments m m_pad n_real mode stop (segments @ [g]) t)
      else Some (Inr segments, s))"
  by pat_completeness auto

termination
  by (relation "measure (\<lambda>(m, _, _, _, start, _, _). n_layers (gm_desc m) - start)")
    (auto simp: PREFILL_SEGMENT_LAYERS_def min_def)

declare record_segments.simps [simp del]

definition record_prefill ::
  "graph_model \<Rightarrow> nat \<Rightarrow> nat \<Rightarrow> logits_mode \<Rightarrow> vk \<Rightarrow> ((gpu_error + command_graph list) \<times> vk) option" where
  "record_prefill m m_pad n_real mode = record_segments m m_pad n_real mode 0 []"

end
