(* ===== verification/Weight_Upload.thy ===== *)
theory Weight_Upload
  imports Model_Graph Reference
begin

text \<open>
  \<open>crates/sg-model/src/weights.rs\<close>: the tensors of a GGUF file become GPU buffers, one each. The
  buffers that are fields of \<open>LayerWeights\<close> and \<open>GpuWeights\<close> are listed under the names the graph
  model knows them by. A value of type \<open>'a up\<close> is a step of \<open>GpuWeights::upload\<close>: it is given the
  buffers made so far, newest first, which an early return drops, and the driver; \<open>None\<close> is a panic.
  (Drops only touch the set of live objects, so their order is immaterial.)
\<close>

datatype upload_error =
    UploadGpu gpu_error
  | UploadModel ref_error
  | UploadBadTensor string ggml_type ggml_type

type_synonym held = "(bref \<times> buffer) list"
type_synonym 'a up = "held \<Rightarrow> vk \<Rightarrow> ((upload_error + 'a \<times> held) \<times> vk) option"

definition drop_held :: "held \<Rightarrow> vk \<Rightarrow> vk" where
  "drop_held bs s = fold (\<lambda>(t, b). drop_inner (inner b)) bs s"

definition up_return :: "'a \<Rightarrow> 'a up" where
  "up_return x bs s = Some (Inr (x, bs), s)"

definition up_fail :: "upload_error \<Rightarrow> 'a up" where
  "up_fail e bs s = Some (Inl e, drop_held bs s)"

definition up_panic :: "'a up" where
  "up_panic bs s = None"

definition up_bind :: "'a up \<Rightarrow> ('a \<Rightarrow> 'b up) \<Rightarrow> 'b up" where
  "up_bind m f bs s =
     Option.bind (m bs s) (\<lambda>(r, t). case r of Inl e \<Rightarrow> Some (Inl e, t) | Inr (x, cs) \<Rightarrow> f x cs t)"

definition up_keep :: "bref \<Rightarrow> buffer gpu \<Rightarrow> unit up" where
  "up_keep tag g bs s =
     (case g s of
        (Inl e, t) \<Rightarrow> Some (Inl (UploadGpu e), drop_held bs t)
      | (Inr b, t) \<Rightarrow> Some (Inr ((), (tag, b) # bs), t))"

fun up_each :: "('a \<Rightarrow> unit up) \<Rightarrow> 'a list \<Rightarrow> unit up" where
  "up_each f [] = up_return ()"
| "up_each f (x # xs) = up_bind (f x) (\<lambda>_. up_each f xs)"

subsection \<open>Tensors\<close>

definition tensor_bytes :: "gguf \<Rightarrow> string \<Rightarrow> ggml_type \<Rightarrow> u8 list up" where
  "tensor_bytes g name ty =
     (case tensor g name of
        None \<Rightarrow> up_fail (UploadModel (MissingTensor name))
      | Some info \<Rightarrow>
          if dtype info \<noteq> ty then up_fail (UploadBadTensor name (dtype info) ty)
          else case data_of g info of None \<Rightarrow> up_panic | Some bytes \<Rightarrow> up_return bytes)"

definition words :: "device_ctx \<Rightarrow> mem_env \<Rightarrow> gguf \<Rightarrow> bref \<Rightarrow> string \<Rightarrow> unit up" where
  "words d env g tag name =
     up_bind (tensor_bytes g name Q4_0) (\<lambda>bytes.
     up_keep tag (buffer_from_iter d env pod_u32 (vec_from_le 4 bytes) STORAGE_BUFFER))"

definition f32s :: "device_ctx \<Rightarrow> mem_env \<Rightarrow> gguf \<Rightarrow> bref \<Rightarrow> string \<Rightarrow> unit up" where
  "f32s d env g tag name =
     up_bind (tensor_bytes g name F32) (\<lambda>bytes.
     up_keep tag (buffer_from_iter d env pod_u32 (vec_from_le 4 bytes) STORAGE_BUFFER))"

text \<open>The loop over the rows; \<open>None\<close> is a slice out of range.\<close>

fun pack_rows :: "u8 list \<Rightarrow> nat \<Rightarrow> nat \<Rightarrow> nat list \<Rightarrow> u8 list \<Rightarrow> u8 list option" where
  "pack_rows src row_bytes stride [] packed = Some packed"
| "pack_rows src row_bytes stride (r # rs) packed =
     (if r * stride + row_bytes \<le> length packed \<and> r * row_bytes + row_bytes \<le> length src
      then pack_rows src row_bytes stride rs
        (take (r * stride) packed @ take row_bytes (drop (r * row_bytes) src) @ drop (r * stride + row_bytes) packed)
      else None)"

definition upload_q6k_repacked :: "device_ctx \<Rightarrow> mem_env \<Rightarrow> gguf \<Rightarrow> model_desc \<Rightarrow> unit up" where
  "upload_q6k_repacked d env g desc =
     up_bind (tensor_bytes g ''token_embd.weight'' Q6_K) (\<lambda>src.
     let row_blocks = hidden_size desc div qk6_k;
         row_bytes = row_blocks * block_q6_k_size;
         stride = Q6K_ROW_WORDS * 4
     in case pack_rows src row_bytes stride [0..<vocab_size desc] (replicate (vocab_size desc * stride) 0) of
          None \<Rightarrow> up_panic
        | Some packed \<Rightarrow> up_keep TokenEmbd (buffer_from_iter d env pod_u32 (vec_from_le 4 packed) STORAGE_BUFFER))"

subsection \<open>Upload\<close>

fun weight_name :: "weight \<Rightarrow> string" where
  "weight_name W_attn_norm = ''attn_norm''" | "weight_name W_attn_q_norm = ''attn_q_norm''"
| "weight_name W_attn_k_norm = ''attn_k_norm''" | "weight_name W_post_attention_norm = ''post_attention_norm''"
| "weight_name W_ffn_norm = ''ffn_norm''" | "weight_name W_post_ffw_norm = ''post_ffw_norm''"
| "weight_name W_attn_q = ''attn_q''" | "weight_name W_attn_k = ''attn_k''" | "weight_name W_attn_v = ''attn_v''"
| "weight_name W_attn_output = ''attn_output''" | "weight_name W_ffn_gate = ''ffn_gate''"
| "weight_name W_ffn_up = ''ffn_up''" | "weight_name W_ffn_down = ''ffn_down''"

definition upload_layer :: "device_ctx \<Rightarrow> mem_env \<Rightarrow> gguf \<Rightarrow> nat \<Rightarrow> layer_kind \<Rightarrow> layer_weights up" where
  "upload_layer d env g i kind =
     (let norm = (\<lambda>w. f32s d env g (Wt w i) (blk_name i (weight_name w)));
          matrix = (\<lambda>w. words d env g (Wt w i) (blk_name i (weight_name w))) in
      up_bind (tensor_bytes g (blk_name i ''layer_output_scale'') F32) (\<lambda>scale_bytes.
      up_bind (up_each norm [W_attn_norm, W_attn_q_norm, W_attn_k_norm, W_post_attention_norm, W_ffn_norm, W_post_ffw_norm]) (\<lambda>_.
      up_bind (up_each matrix [W_attn_q, W_attn_k]) (\<lambda>_.
      up_bind (case kind of Sliding \<Rightarrow> matrix W_attn_v | Global \<Rightarrow> up_return ()) (\<lambda>_.
      up_bind (up_each matrix [W_attn_output, W_ffn_gate, W_ffn_up, W_ffn_down]) (\<lambda>_.
      if length scale_bytes < 4 then up_panic
      else up_return \<lparr>lw_kind = kind, layer_output_scale = from_le_bytes (take 4 scale_bytes)\<rparr>))))))"

fun upload_layers :: "device_ctx \<Rightarrow> mem_env \<Rightarrow> gguf \<Rightarrow> nat \<Rightarrow> layer_kind list \<Rightarrow> layer_weights list up" where
  "upload_layers d env g i [] = up_return []"
| "upload_layers d env g i (kind # kinds) =
     up_bind (upload_layer d env g i kind) (\<lambda>lw.
     up_bind (upload_layers d env g (Suc i) kinds) (\<lambda>lws. up_return (lw # lws)))"

record gpu_weights =
  gw_layers :: "layer_weights list"
  gw_buffers :: held
  gw_rope_factors :: "f32 list"

definition upload_parts :: "device_ctx \<Rightarrow> mem_env \<Rightarrow> gguf \<Rightarrow> model_desc \<Rightarrow> (layer_weights list \<times> f32 list) up" where
  "upload_parts d env g desc =
     up_bind (upload_layers d env g 0 (layer_kinds desc)) (\<lambda>layers.
     up_bind (upload_q6k_repacked d env g desc) (\<lambda>_.
     up_bind (f32s d env g OutputNorm ''output_norm.weight'') (\<lambda>_.
     up_bind (up_keep NormOnes (buffer_from_iter d env pod_u32 (replicate 512 0x3F800000) STORAGE_BUFFER)) (\<lambda>_.
     up_bind (tensor_bytes g ''rope_freqs.weight'' F32) (\<lambda>bytes.
     up_return (layers, vec_from_le 4 bytes))))))"

text \<open>Fields are dropped in the order of their declaration, which is the order they were made in.\<close>

definition upload :: "device_ctx \<Rightarrow> mem_env \<Rightarrow> gguf \<Rightarrow> model_desc \<Rightarrow> vk \<Rightarrow> ((upload_error + gpu_weights) \<times> vk) option" where
  "upload d env g desc s =
     map_option (\<lambda>(r, t). (case r of
         Inl e \<Rightarrow> Inl e
       | Inr ((layers, factors), held) \<Rightarrow> Inr \<lparr>gw_layers = layers, gw_buffers = rev held, gw_rope_factors = factors\<rparr>, t))
       (upload_parts d env g desc [] s)"

definition drop_weights :: "gpu_weights \<Rightarrow> vk \<Rightarrow> vk" where
  "drop_weights w = drop_held (gw_buffers w)"

end
