(* ===== verification/Model_Run.thy ===== *)
theory Model_Run
  imports Model_Graph Quant
begin

text \<open>
  \<open>crates/sg-model/src/graph.rs\<close>, the driving half, and \<open>rope.rs\<close>: what the CPU stages for a token
  or a chunk, and the prefill and decode calls over recorded graphs. The float arithmetic and what
  the device computes while a graph runs are parameters. \<open>None\<close> is a panic.
\<close>

subsection \<open>What the host and the device compute\<close>

record 'f host =
  h_floats :: "'f f32_ops"
  h_scale :: 'f                     \<comment> \<open>\<open>(HIDDEN as f32).sqrt()\<close>\<close>
  h_to_f16 :: "'f \<Rightarrow> u16"          \<comment> \<open>\<open>f16::from_f32(v).to_bits()\<close>\<close>
  h_zero :: 'f
  h_angle :: "u32 \<Rightarrow> nat \<Rightarrow> nat \<Rightarrow> f32 \<Rightarrow> f32 option \<Rightarrow> f32 \<times> f32"
    \<comment> \<open>\<open>(cos, sin)\<close> of a position, pair, head dimension, theta and factor\<close>
  h_gguf :: gguf
  h_address :: "string \<Rightarrow> nat"      \<comment> \<open>where a tensor lies in memory\<close>
  h_factors :: "f32 list"           \<comment> \<open>\<open>rope_freqs.weight\<close>\<close>
  h_execute :: "nat \<Rightarrow> (nat \<Rightarrow> u8 list) \<Rightarrow> nat \<Rightarrow> u8 list"
    \<comment> \<open>the memory after a command buffer has run\<close>

subsection \<open>Rotary tables\<close>

definition table_row :: "'f host \<Rightarrow> nat \<Rightarrow> f32 \<Rightarrow> f32 list option \<Rightarrow> u32 \<Rightarrow> f32 list" where
  "table_row h hdim theta factors p =
     concat (map (\<lambda>i. let (c, s) = h_angle h p i hdim theta (map_option (\<lambda>f. f ! i) factors) in [c, s]) [0..<hdim div 2])"

definition cos_sin_table :: "'f host \<Rightarrow> u32 list \<Rightarrow> nat \<Rightarrow> f32 \<Rightarrow> f32 list option \<Rightarrow> f32 list option" where
  "cos_sin_table h positions hdim theta factors =
     (if (case factors of Some f \<Rightarrow> length f \<noteq> hdim div 2 | None \<Rightarrow> False) then None
      else Some (concat (map (table_row h hdim theta factors) positions)))"

subsection \<open>Staging\<close>

definition embed_row :: "'f host \<Rightarrow> u32 \<Rightarrow> 'f list option" where
  "embed_row h token =
     Option.bind (tensor (h_gguf h) ''token_embd.weight'') (\<lambda>info.
     Option.bind (data_of (h_gguf h) info) (\<lambda>bytes.
     let row_blocks = HIDDEN div qk6_k;
         row_bytes = row_blocks * block_q6_k_size;
         at = unat token * row_bytes
     in if length bytes < at + row_bytes then None
        else Option.bind (blocks_from_bytes_q6_k (h_address h ''token_embd.weight'' + at) (take row_bytes (drop at bytes))) (\<lambda>r.
          case r of
            Inl e \<Rightarrow> None
          | Inr blocks \<Rightarrow>
              Some (concat (map (\<lambda>b. map (\<lambda>v. f32_mul (h_floats h) v (h_scale h))
                (dequantize_q6_k (h_floats h) b (replicate qk6_k (h_zero h)))) blocks)))))"

definition embed_bits :: "'f host \<Rightarrow> u32 \<Rightarrow> u16 list option" where
  "embed_bits h token = map_option (map (h_to_f16 h)) (embed_row h token)"

type_synonym 'a step_m = "vk \<Rightarrow> ((gpu_error + 'a) \<times> vk) option"

definition st_bind :: "'a step_m \<Rightarrow> ('a \<Rightarrow> 'b step_m) \<Rightarrow> 'b step_m" where
  "st_bind m f s = Option.bind (m s) (\<lambda>(r, t). case r of Inl e \<Rightarrow> Some (Inl e, t) | Inr x \<Rightarrow> f x t)"

definition st_return :: "'a \<Rightarrow> 'a step_m" where "st_return x s = Some (Inr x, s)"

definition st_unwrap :: "'a option \<Rightarrow> 'a step_m" where
  "st_unwrap x s = map_option (\<lambda>y. (Inr y, s)) x"

text \<open>Writing \<open>xs\<close> at an index of a buffer, through a write guard.\<close>

definition write_at :: "'a pod \<Rightarrow> buffer option \<Rightarrow> nat \<Rightarrow> 'a list \<Rightarrow> unit step_m" where
  "write_at p b at xs s =
     Option.bind b (\<lambda>x.
     if unat (b_len x) < at + length xs then None
     else case write_guard p x (\<lambda>w. take at w @ xs @ drop (at + length xs) w) s of
            (Inl e, t) \<Rightarrow> Some (Inl e, t)
          | (Inr None, t) \<Rightarrow> None
          | (Inr (Some u), t) \<Rightarrow> Some (Inr (), t))"

text \<open>\<open>copy_from_slice\<close> over the whole view.\<close>

definition write_whole :: "buffer option \<Rightarrow> f32 list \<Rightarrow> unit step_m" where
  "write_whole b xs s =
     Option.bind b (\<lambda>x. if unat (b_len x) \<noteq> length xs then None else write_at pod_u32 b 0 xs s)"

definition write_step :: "graph_model \<Rightarrow> step_state \<Rightarrow> unit step_m" where
  "write_step m st s =
     Option.bind (gm_buf m Step) (\<lambda>x. case write_to st x s of (None, t) \<Rightarrow> None | (Some u, t) \<Rightarrow> Some (Inr (), t))"

definition live_global :: "graph_model \<Rightarrow> nat" where
  "live_global m = head_dim (global (gm_desc m)) div 8 * 2"

definition stage_token :: "'f host \<Rightarrow> graph_model \<Rightarrow> u32 \<Rightarrow> u32 \<Rightarrow> unit step_m" where
  "stage_token h m at token =
     st_bind (st_unwrap (embed_bits h token)) (\<lambda>row.
     st_bind (write_at pod_u16 (gm_buf m (Act A_x)) 0 (take (len_of m (Act A_x)) row)) (\<lambda>_.
     st_bind (write_step m
       \<lparr>st_pos = at, st_kv_len_sliding = min (at + 1) (of_nat (sliding_window (gm_desc m))), st_kv_len_global = at + 1, st_q0 = 0\<rparr>) (\<lambda>_.
     st_bind (st_unwrap (cos_sin_table h [at] (head_dim (sliding (gm_desc m))) (rope_theta (sliding (gm_desc m))) None)) (\<lambda>sl.
     st_bind (write_whole (gm_buf m CsSliding) sl) (\<lambda>_.
     st_bind (st_unwrap (cos_sin_table h [at] (head_dim (global (gm_desc m))) (rope_theta (global (gm_desc m))) (Some (h_factors h)))) (\<lambda>gl.
     if length gl < live_global m then (\<lambda>s. None)
     else write_whole (gm_buf m CsGlobal) (take (live_global m) gl)))))))"

fun write_rows :: "'f host \<Rightarrow> graph_model \<Rightarrow> nat \<Rightarrow> u32 list \<Rightarrow> unit step_m" where
  "write_rows h m t [] = st_return ()"
| "write_rows h m t (tok # toks) =
     st_bind (st_unwrap (embed_bits h tok)) (\<lambda>row.
     st_bind (\<lambda>s. if len_of m (Pre A_x) < t * HIDDEN + HIDDEN then None
                  else write_at pod_u16 (gm_buf m (Pre A_x)) (t * HIDDEN) (take HIDDEN row) s) (\<lambda>_.
     write_rows h m (t + 1) toks))"

definition chunk_positions :: "u32 \<Rightarrow> nat \<Rightarrow> u32 list" where
  "chunk_positions at n = map (\<lambda>i. at + of_nat i) [0..<n]"

definition live_rows :: "nat \<Rightarrow> nat \<Rightarrow> f32 list \<Rightarrow> f32 list" where
  "live_rows full keep table = concat (map (take keep) (chunks_exact full table))"

definition stage_prefill_chunk :: "'f host \<Rightarrow> graph_model \<Rightarrow> u32 \<Rightarrow> u32 list \<Rightarrow> unit step_m" where
  "stage_prefill_chunk h m at tokens =
     st_bind (write_rows h m 0 tokens) (\<lambda>_.
     st_bind (write_step m \<lparr>st_pos = at, st_kv_len_sliding = 0, st_kv_len_global = 0, st_q0 = at\<rparr>) (\<lambda>_.
     let positions = chunk_positions at (length tokens) in
     st_bind (st_unwrap (cos_sin_table h positions (head_dim (sliding (gm_desc m))) (rope_theta (sliding (gm_desc m))) None)) (\<lambda>sl.
     st_bind (write_at pod_u32 (gm_buf m (Pre A_cs_sl)) 0 sl) (\<lambda>_.
     st_bind (st_unwrap (cos_sin_table h positions (head_dim (global (gm_desc m))) (rope_theta (global (gm_desc m))) (Some (h_factors h)))) (\<lambda>gl.
     write_at pod_u32 (gm_buf m (Pre A_cs_gl)) 0
       (live_rows (head_dim (global (gm_desc m)) div 2 * 2) (live_global m) gl))))))"

subsection \<open>Driving\<close>

text \<open>The fields of \<open>GpuModel\<close> that change, with the driver state.\<close>

record run_state =
  rs_pos :: u32
  prefill_graphs :: "nat \<times> nat \<times> logits_mode \<Rightarrow> command_graph list option"
  rs_vk :: vk

record 'f gpu_model =
  gp_host :: "'f host"
  gp_graph :: graph_model
  max_chunk :: nat
  global_cap :: nat

type_synonym 'a run_m = "run_state \<Rightarrow> ((gpu_error + 'a) \<times> run_state) option"

definition rn_bind :: "'a run_m \<Rightarrow> ('a \<Rightarrow> 'b run_m) \<Rightarrow> 'b run_m" where
  "rn_bind m f s = Option.bind (m s) (\<lambda>(r, t). case r of Inl e \<Rightarrow> Some (Inl e, t) | Inr x \<Rightarrow> f x t)"

definition rn_return :: "'a \<Rightarrow> 'a run_m" where "rn_return x s = Some (Inr x, s)"

definition on_vk :: "'a step_m \<Rightarrow> 'a run_m" where
  "on_vk m s = map_option (\<lambda>(r, t). (r, s\<lparr>rs_vk := t\<rparr>)) (m (rs_vk s))"

definition submit :: "'f gpu_model \<Rightarrow> command_graph \<Rightarrow> unit step_m" where
  "submit g graph s =
     (case submit_blocking graph s of
        (Inl e, t) \<Rightarrow> Some (Inl e, t)
      | (Inr _, t) \<Rightarrow> Some (Inr (), t\<lparr>memory := h_execute (gp_host g) (g_cb graph) (memory t)\<rparr>))"

fun submit_all :: "'f gpu_model \<Rightarrow> command_graph list \<Rightarrow> unit step_m" where
  "submit_all g [] = st_return ()"
| "submit_all g (x # xs) = st_bind (submit g x) (\<lambda>_. submit_all g xs)"

definition advance_by :: "nat \<Rightarrow> unit run_m" where
  "advance_by n s = Some (Inr (), s\<lparr>rs_pos := rs_pos s + of_nat n\<rparr>)"

definition model_reset :: "run_state \<Rightarrow> run_state" where
  "model_reset s = s\<lparr>rs_pos := 0\<rparr>"

definition cached_prefill :: "'f gpu_model \<Rightarrow> nat \<Rightarrow> nat \<Rightarrow> logits_mode \<Rightarrow> command_graph list run_m" where
  "cached_prefill g m_pad n_real mode s =
     (case prefill_graphs s (m_pad, n_real, mode) of
        Some gs \<Rightarrow> Some (Inr gs, s)
      | None \<Rightarrow>
          rn_bind (on_vk (record_prefill (gp_graph g) m_pad n_real mode))
            (\<lambda>gs t. Some (Inr gs, t\<lparr>prefill_graphs := (prefill_graphs t)((m_pad, n_real, mode) \<mapsto> gs)\<rparr>)) s)"

definition next_multiple_64 :: "nat \<Rightarrow> nat" where
  "next_multiple_64 n = (if n mod 64 = 0 then n else n + (64 - n mod 64))"

definition prefill_chunk :: "'f gpu_model \<Rightarrow> logits_mode \<Rightarrow> u32 list \<Rightarrow> unit run_m" where
  "prefill_chunk g mode chunk =
     (let n_real = length chunk; m_pad = next_multiple_64 n_real in
      rn_bind (cached_prefill g m_pad n_real mode) (\<lambda>gs.
      rn_bind (\<lambda>s. on_vk (stage_prefill_chunk (gp_host g) (gp_graph g) (rs_pos s) chunk) s) (\<lambda>_.
      rn_bind (on_vk (submit_all g gs)) (\<lambda>_.
      advance_by n_real))))"

text \<open>\<open>tokens.chunks(max_chunk)\<close>.\<close>

fun chunks_of :: "nat \<Rightarrow> 'a list \<Rightarrow> 'a list list" where
  "chunks_of n [] = []"
| "chunks_of n (x # xs) = (if n = 0 then [] else take n (x # xs) # chunks_of n (drop n (x # xs)))"

fun prefill_chunks :: "'f gpu_model \<Rightarrow> nat \<Rightarrow> nat \<Rightarrow> u32 list list \<Rightarrow> unit run_m" where
  "prefill_chunks g n_chunks ci [] = rn_return ()"
| "prefill_chunks g n_chunks ci (chunk # rest) =
     rn_bind (prefill_chunk g (if ci = n_chunks - 1 then LogitsLast else LogitsNone) chunk) (\<lambda>_.
     prefill_chunks g n_chunks (ci + 1) rest)"

text \<open>The message of an error, and the errors of \<open>read\<close> as the model reports them.\<close>

fun gpu_error_text :: "gpu_error \<Rightarrow> string" where
  "gpu_error_text (Library e) = ''Vulkan library unavailable: '' @ e"
| "gpu_error_text (Vk call e) = ''Vulkan: '' @ call @ '': '' @ e"
| "gpu_error_text (NoDevice what) = ''no suitable GPU (need '' @ what @ '')''"
| "gpu_error_text (UnknownKernel name) = ''unknown kernel `'' @ name @ ''`''"
| "gpu_error_text (Pipeline call name e) = ''pipeline: '' @ call @ '' '' @ name @ '': '' @ e"
| "gpu_error_text (Validation e) = e"

definition read_all :: "'a pod \<Rightarrow> buffer \<Rightarrow> 'a list step_m" where
  "read_all p b s =
     (case read_guard p b s of
        (Inl e, t) \<Rightarrow> Some (Inl (Validation (gpu_error_text e)), t)
      | (Inr None, t) \<Rightarrow> None
      | (Inr (Some xs), t) \<Rightarrow> Some (Inr xs, t))"

definition read_logits :: "graph_model \<Rightarrow> f32 list step_m" where
  "read_logits m = st_bind (st_unwrap (gm_buf m (Act A_logits))) (read_all pod_u32)"

definition prefill :: "'f gpu_model \<Rightarrow> u32 list \<Rightarrow> f32 list run_m" where
  "prefill g tokens s =
     (if tokens = [] \<or> global_cap g < unat (rs_pos s) + length tokens \<or> max_chunk g = 0 then None
      else rn_bind (prefill_chunks g (div_ceil (length tokens) (max_chunk g)) 0 (chunks_of (max_chunk g) tokens))
        (\<lambda>_. on_vk (read_logits (gp_graph g))) s)"

fun plain_chunks :: "'f gpu_model \<Rightarrow> u32 list list \<Rightarrow> unit run_m" where
  "plain_chunks g [] = rn_return ()"
| "plain_chunks g (chunk # rest) = rn_bind (prefill_chunk g LogitsNone chunk) (\<lambda>_. plain_chunks g rest)"

definition prefill_plain :: "'f gpu_model \<Rightarrow> u32 list \<Rightarrow> unit run_m" where
  "prefill_plain g tokens s =
     (if max_chunk g = 0 then None else plain_chunks g (chunks_of (max_chunk g) tokens) s)"

definition decode_step :: "'f gpu_model \<Rightarrow> command_graph \<Rightarrow> u32 \<Rightarrow> f32 list run_m" where
  "decode_step g graph token =
     rn_bind (\<lambda>s. on_vk (stage_token (gp_host g) (gp_graph g) (rs_pos s) token) s) (\<lambda>_.
     rn_bind (on_vk (submit g graph)) (\<lambda>_.
     rn_bind (advance_by 1) (\<lambda>_.
     on_vk (read_logits (gp_graph g)))))"

subsection \<open>Positions\<close>

lemma on_vk_pos: "on_vk m s = Some (r, t) \<Longrightarrow> rs_pos t = rs_pos s"
  by (auto simp: on_vk_def)

lemma rn_bind_Some:
  assumes "rn_bind m f s = Some (r, t)"
  obtains (err) e where "m s = Some (Inl e, t)" "r = Inl e"
  | (ok) x u where "m s = Some (Inr x, u)" "f x u = Some (r, t)"
  using assms by (auto simp: rn_bind_def split: sum.splits Option.bind_splits)

lemma cached_prefill_pos: "cached_prefill g mp n mode s = Some (r, t) \<Longrightarrow> rs_pos t = rs_pos s"
  by (auto simp: cached_prefill_def split: option.splits elim!: rn_bind_Some dest!: on_vk_pos)

lemma prefill_chunk_pos:
  assumes "prefill_chunk g mode chunk s = Some (r, t)"
  shows "rs_pos t = (case r of Inl e \<Rightarrow> rs_pos s | Inr _ \<Rightarrow> rs_pos s + of_nat (length chunk))"
  using assms unfolding prefill_chunk_def Let_def
  by (auto elim!: rn_bind_Some dest!: on_vk_pos cached_prefill_pos simp: advance_by_def)

lemma chunks_of_concat: "0 < n \<Longrightarrow> concat (chunks_of n xs) = xs"
  by (induction n xs rule: chunks_of.induct) auto

lemma prefill_chunks_pos:
  "prefill_chunks g n ci cs s = Some (r, t) \<Longrightarrow>
   (\<exists>k \<le> length cs. rs_pos t = rs_pos s + of_nat (length (concat (take k cs))) \<and> (\<forall>u. r = Inr u \<longrightarrow> k = length cs))"
proof (induction cs arbitrary: ci s)
  case (Cons c cs)
  from Cons.prems have "rn_bind (prefill_chunk g (if ci = n - 1 then LogitsLast else LogitsNone) c)
      (\<lambda>_. prefill_chunks g n (ci + 1) cs) s = Some (r, t)" by simp
  then show ?case
  proof (cases rule: rn_bind_Some)
    case (err e)
    from prefill_chunk_pos [OF err(1)] err(2) show ?thesis by (intro exI [of _ 0]) simp
  next
    case (ok x u)
    from Cons.IH [OF ok(2)] obtain k where k: "k \<le> length cs"
      "rs_pos t = rs_pos u + of_nat (length (concat (take k cs)))" "\<forall>v. r = Inr v \<longrightarrow> k = length cs" by blast
    have "rs_pos u = rs_pos s + of_nat (length c)" using prefill_chunk_pos [OF ok(1)] by simp
    then show ?thesis using k by (intro exI [of _ "Suc k"]) (simp add: add.assoc)
  qed
qed (auto simp: rn_return_def)

lemma prefill_pos:
  assumes "prefill g ts s = Some (r, t)"
  shows "\<exists>k \<le> length (chunks_of (max_chunk g) ts).
    rs_pos t = rs_pos s + of_nat (length (concat (take k (chunks_of (max_chunk g) ts)))) \<and>
    (\<forall>l. r = Inr l \<longrightarrow> k = length (chunks_of (max_chunk g) ts))"
proof -
  have "rn_bind (prefill_chunks g (div_ceil (length ts) (max_chunk g)) 0 (chunks_of (max_chunk g) ts))
      (\<lambda>_. on_vk (read_logits (gp_graph g))) s = Some (r, t)"
    using assms by (simp add: prefill_def split: if_splits)
  then show ?thesis
  proof (cases rule: rn_bind_Some)
    case (err e)
    from prefill_chunks_pos [OF err(1)] err(2) show ?thesis by blast
  next
    case (ok x u)
    from prefill_chunks_pos [OF ok(1)] on_vk_pos [OF ok(2)] show ?thesis by auto
  qed
qed

lemma decode_step_pos:
  assumes "decode_step g graph tok s = Some (r, t)"
  shows "rs_pos t = rs_pos s + 1 \<or> (\<exists>e. r = Inl e) \<and> rs_pos t = rs_pos s"
  using assms unfolding decode_step_def
  by (auto elim!: rn_bind_Some dest!: on_vk_pos simp: advance_by_def)

end
