(* ===== verification/Model_New.thy ===== *)
theory Model_New
  imports Weight_Upload Model_Run
begin

text \<open>
  \<open>crates/sg-model/src/graph.rs\<close>, \<open>GpuModel::new\<close>: after the weights, every buffer and kernel of the
  model is made in the order of the constructor. An early return drops what has been made so far.
\<close>

datatype item = NewBuffer bref nat | LoadKernel kname | NewStep

datatype piece = Buf bref buffer | Kern kname kernel

fun drop_piece :: "piece \<Rightarrow> vk \<Rightarrow> vk" where
  "drop_piece (Buf t b) = drop_inner (inner b)"
| "drop_piece (Kern t k) = drop_kernel k"

definition drop_pieces :: "piece list \<Rightarrow> vk \<Rightarrow> vk" where
  "drop_pieces ps s = fold drop_piece ps s"

definition g_map :: "('a \<Rightarrow> 'b) \<Rightarrow> 'a gpu \<Rightarrow> 'b gpu" where
  "g_map f m = g_bind m (\<lambda>x. g_return (f x))"

fun acquire :: "device_ctx \<Rightarrow> mem_env \<Rightarrow> kernel_blob list \<Rightarrow> item \<Rightarrow> piece gpu" where
  "acquire d env reg (NewBuffer b n) = g_map (Buf b)
     (if wide b then new_buffer d env pod_u32 (of_nat n) STORAGE_BUFFER else new_buffer d env pod_u16 (of_nat n) STORAGE_BUFFER)"
| "acquire d env reg (LoadKernel k) = g_map (Kern k) (load_kernel reg (kernel_name k))"
| "acquire d env reg NewStep = g_map (Buf Step) (new_step_buffer d env)"

fun acquire_all :: "device_ctx \<Rightarrow> mem_env \<Rightarrow> kernel_blob list \<Rightarrow> item list \<Rightarrow> piece list \<Rightarrow> vk \<Rightarrow> (upload_error + piece list) \<times> vk" where
  "acquire_all d env reg [] ps s = (Inr ps, s)"
| "acquire_all d env reg (x # xs) ps s =
     (case acquire d env reg x s of
        (Inl e, t) \<Rightarrow> (Inl (UploadGpu e), drop_pieces ps t)
      | (Inr p, t) \<Rightarrow> acquire_all d env reg xs (p # ps) t)"

subsection \<open>What the constructor makes\<close>

definition bufs_fields :: "act list" where
  "bufs_fields = [A_x, A_xn, A_q_raw_sl, A_q_sl, A_q_raw_gl, A_q_gl, A_kp_sl, A_k_sl, A_vp_sl, A_v_sl, A_kp_gl, A_k_gl, A_v_gl,
     A_attn_sl, A_attn_gl, A_part_sl, A_part_gl, A_o, A_on, A_x2, A_fin, A_g, A_u, A_gu, A_f, A_fn2, A_logits]"

definition prefill_fields :: "act list" where
  "prefill_fields = [A_x, A_xn, A_q_raw_sl, A_q_sl, A_q_raw_gl, A_q_gl, A_kp_sl, A_k_sl, A_vp_sl, A_v_sl, A_kp_gl, A_k_gl, A_v_gl,
     A_attn_sl, A_attn_gl, A_o, A_on, A_x2, A_fin, A_g, A_u, A_gu, A_f, A_fn2, A_fin_i8, A_fin_scales, A_gu_i8, A_gu_scales,
     A_xn_i8, A_xn_scales, A_ao_i8, A_ao_scales, A_q_i8_gl, A_q_scales_gl, A_cs_sl, A_cs_gl]"

definition kernel_fields :: "kname list" where
  "kernel_fields = [K_rms5376, K_rms512, K_rms256, K_rope_sl_q, K_rope_sl_k, K_rope_gl_q, K_rope_gl_k, K_gemv5376, K_gemv8192,
     K_gemv16384, K_gemv21504, K_geglu, K_add, K_append_sl, K_append_gl, K_append_gl_q8, K_attn_sl, K_attn_gl_q8, K_reduce256,
     K_reduce512, K_logits, K_quant_q8, K_gemm_up_i8, K_gemm_down_i8, K_gemm_q_i8_sl, K_gemm_q_i8_gl, K_gemm_kv_i8_sl,
     K_gemm_kv_i8_gl, K_gemm_o_i8_sl, K_gemm_o_i8_gl, K_prefill_sl, K_prefill_gl_iq]"

definition kv_stores :: "layer_kind \<Rightarrow> nat \<Rightarrow> bref list" where
  "kv_stores kind i = (case kind of Sliding \<Rightarrow> [KvK i, KvV i] | Global \<Rightarrow> [KvQuants i, KvScales i, KvV i])"

definition sized :: "(bref \<Rightarrow> nat option) \<Rightarrow> bref list \<Rightarrow> item list" where
  "sized len bs = map (\<lambda>b. NewBuffer b (the (len b))) bs"

fun kv_items :: "model_desc \<Rightarrow> nat \<Rightarrow> nat \<Rightarrow> layer_kind list \<Rightarrow> item list" where
  "kv_items desc cap i [] = []"
| "kv_items desc cap i (kind # kinds) = sized (kv_len desc cap kind) (kv_stores kind i) @ kv_items desc cap (Suc i) kinds"

definition model_items :: "model_desc \<Rightarrow> nat \<Rightarrow> nat \<Rightarrow> item list" where
  "model_items desc cap chunk =
     map (\<lambda>a. NewBuffer (Act a) (the (bufs_len desc a))) bufs_fields @
     map (\<lambda>a. NewBuffer (Pre a) (the (prefill_len desc chunk a))) prefill_fields @
     kv_items desc cap 0 (layer_kinds desc) @
     map LoadKernel kernel_fields @
     [NewBuffer CsSliding (head_dim (sliding desc) div 2 * 2), NewBuffer CsGlobal (head_dim (global desc) div 8 * 2), NewStep]"

subsection \<open>The model\<close>

fun buffers_in :: "piece list \<Rightarrow> (bref \<times> buffer) list" where
  "buffers_in [] = []"
| "buffers_in (Buf t b # ps) = (t, b) # buffers_in ps"
| "buffers_in (Kern t k # ps) = buffers_in ps"

fun kernels_in :: "piece list \<Rightarrow> (kname \<times> kernel) list" where
  "kernels_in [] = []"
| "kernels_in (Kern t k # ps) = (t, k) # kernels_in ps"
| "kernels_in (Buf t b # ps) = kernels_in ps"

definition graph_of :: "device_ctx \<Rightarrow> model_desc \<Rightarrow> gpu_weights \<Rightarrow> piece list \<Rightarrow> graph_model" where
  "graph_of d desc w ps =
     \<lparr>gm_ctx = d, gm_desc = desc, gm_layers = gw_layers w, gm_kernel = the \<circ> map_of (kernels_in ps), gm_buf = map_of (buffers_in ps)\<rparr>"

definition gpu_model_new :: "device_ctx \<Rightarrow> mem_env \<Rightarrow> kernel_blob list \<Rightarrow> 'f host \<Rightarrow> gguf \<Rightarrow> nat \<Rightarrow> nat \<Rightarrow> vk \<Rightarrow>
    (upload_error \<times> vk + 'f gpu_model \<times> run_state) option" where
  "gpu_model_new d env reg h g cap want s =
     (let chunk = next_multiple_64 want in
      case from_gguf g of
        Inl issues \<Rightarrow> Some (Inl (UploadModel (RefBadTensor ''<model>'' (NotTheModel issues)), s))
      | Inr desc \<Rightarrow>
          (case upload d env g desc s of
             None \<Rightarrow> None
           | Some (Inl e, t) \<Rightarrow> Some (Inl (e, t))
           | Some (Inr w, t) \<Rightarrow>
               (case acquire_all d env reg (model_items desc cap chunk) (map (\<lambda>(b, x). Buf b x) (gw_buffers w)) t of
                  (Inl e, u) \<Rightarrow> Some (Inl (e, u))
                | (Inr ps, u) \<Rightarrow>
                    Some (Inr (\<lparr>gp_host = h\<lparr>h_gguf := g, h_factors := gw_rope_factors w\<rparr>, gp_graph = graph_of d desc w ps,
                                max_chunk = chunk, global_cap = cap\<rparr>,
                               \<lparr>rs_pos = 0, prefill_graphs = (\<lambda>_. None), rs_vk = u\<rparr>)))))"

end
