(* ===== verification/Gpu_Buffer_Props.thy ===== *)
theory Gpu_Buffer_Props
  imports Gpu_Buffer
begin

text \<open>
  What the buffers of \<open>Gpu_Buffer\<close> promise: a view behaves as a list of elements, no access made
  through one leaves its allocation, and an allocation that fails gives back what it took.
\<close>

subsection \<open>Element types\<close>

locale pod_type =
  fixes p :: "'a pod"
  assumes size_pos: "0 < size_of p"
    and size_small: "size_of p < 2 ^ 64"
    and length_encode: "length (encode p x) = size_of p"
    and decode_encode: "decode p (encode p x) = x"
begin

lemma length_encode_all: "length (encode_all p xs) = length xs * size_of p"
  by (induction xs) (simp_all add: encode_all_def length_encode)

lemma encode_all_append: "encode_all p (xs @ ys) = encode_all p xs @ encode_all p ys"
  by (simp add: encode_all_def)

lemma encode_all_Cons: "encode_all p (x # xs) = encode p x @ encode_all p xs"
  by (simp add: encode_all_def)

lemma decode_encode_all: "decode_all p (encode_all p xs) = xs"
proof (induction xs)
  case Nil
  then show ?case using size_pos by (simp add: decode_all_def encode_all_def chunks_exact.simps)
next
  case (Cons x xs)
  have "chunks_exact (size_of p) (encode_all p (x # xs)) = encode p x # chunks_exact (size_of p) (encode_all p xs)"
    unfolding encode_all_Cons using size_pos by (subst chunks_exact.simps) (simp add: length_encode)
  then show ?case using Cons by (simp add: decode_all_def decode_encode)
qed

lemma drop_encode_all: "drop (n * size_of p) (encode_all p xs) = encode_all p (drop n xs)"
proof (induction xs arbitrary: n)
  case Nil
  then show ?case by (simp add: encode_all_def)
next
  case (Cons x xs)
  then show ?case by (cases n) (simp_all add: encode_all_Cons length_encode drop_append add.commute)
qed

lemma take_encode_all: "take (n * size_of p) (encode_all p xs) = encode_all p (take n xs)"
proof (induction xs arbitrary: n)
  case Nil
  then show ?case by (simp add: encode_all_def)
next
  case (Cons x xs)
  then show ?case
    by (cases n) (simp_all add: encode_all_Cons encode_all_def length_encode take_append)
qed

end

interpretation u32s: pod_type pod_u32
  by unfold_locales (simp_all add: pod_u32_def from_le_put_word)

interpretation u16s: pod_type pod_u16
  by unfold_locales (simp_all add: pod_u16_def from_le_put_word)

subsection \<open>A view as a list\<close>

definition holds :: "'a pod \<Rightarrow> buffer \<Rightarrow> vk \<Rightarrow> 'a list \<Rightarrow> bool" where
  "holds p b s xs \<longleftrightarrow>
     length xs = unat (b_len b) \<and>
     (unat (b_offset b) + length xs) * size_of p < 2 ^ 64 \<and>
     (unat (b_offset b) + length xs) * size_of p \<le> unat (b_size (inner b)) \<and>
     (unat (b_offset b) + length xs) * size_of p \<le> length (memory s (b_memory (inner b))) \<and>
     take (length xs * size_of p) (drop (unat (b_offset b) * size_of p) (memory s (b_memory (inner b)))) =
       encode_all p xs"

lemma unat_mult_small: "unat (a :: u64) * n < 2 ^ 64 \<Longrightarrow> n < 2 ^ 64 \<Longrightarrow> unat (a * of_nat n) = unat a * n"
  by (simp add: unat_word_ariths unat_of_nat_u64)

lemma slice_buf_Some:
  assumes "slice_buf b i j = Some b'"
  shows "unat i \<le> unat j" "unat j \<le> unat (b_len b)" "inner b' = inner b"
    "b_offset b' = b_offset b + i" "unat (b_len b') = unat j - unat i"
  using assms by (auto simp: slice_buf_def word_le_nat_alt unat_sub split: if_splits)

lemma drop_write_guard_simps [simp]:
  "memory (drop_write_guard b s) = memory s" "overruns (drop_write_guard b s) = overruns s" "live (drop_write_guard b s) = live s"
  "cmds (drop_write_guard b s) = cmds s" "faults (drop_write_guard b s) = faults s"
  by (simp_all add: drop_write_guard_def flush_def vk_call_eq split: option.split)

context pod_type
begin

lemma holds_byte_offset:
  assumes "holds p b s xs"
  shows "unat (byte_offset p b) = unat (b_offset b) * size_of p"
  unfolding byte_offset_def
proof (rule unat_mult_small [OF _ size_small])
  have "unat (b_offset b) * size_of p \<le> (unat (b_offset b) + length xs) * size_of p" by simp
  then show "unat (b_offset b) * size_of p < 2 ^ 64" using assms unfolding holds_def by linarith
qed

lemma holds_view:
  assumes "holds p b s xs"
  shows "view_bytes p b s = Some (encode_all p xs)"
proof -
  have "unat (b_offset b) * size_of p + length xs * size_of p \<le> length (memory s (b_memory (inner b)))"
    using assms unfolding holds_def add_mult_distrib by (elim conjE) simp
  then show ?thesis
    using assms unfolding view_bytes_def Let_def holds_byte_offset [OF assms] holds_def
    by (elim conjE) simp
qed

lemma holds_slice_offset:
  assumes "holds p b s xs" "slice_buf b i j = Some b'"
  shows "unat (b_offset b') = unat (b_offset b) + unat i"
proof -
  note sl = slice_buf_Some [OF assms(2)]
  have h: "length xs = unat (b_len b)" "(unat (b_offset b) + length xs) * size_of p < 2 ^ 64"
    using assms(1) by (auto simp: holds_def)
  have "unat (b_offset b) + length xs < 2 ^ 64"
    using h(2) size_pos by (metis le_less_trans mult.right_neutral mult_le_mono2 less_eq_Suc_le One_nat_def)
  then show ?thesis using sl h(1) by (simp add: unat_word_ariths)
qed

lemma holds_slice:
  assumes "holds p b s xs" "slice_buf b i j = Some b'"
  shows "holds p b' s (take (unat j - unat i) (drop (unat i) xs))"
proof -
  note sl = slice_buf_Some [OF assms(2)]
  have h: "length xs = unat (b_len b)" "(unat (b_offset b) + length xs) * size_of p < 2 ^ 64"
    "(unat (b_offset b) + length xs) * size_of p \<le> length (memory s (b_memory (inner b)))"
    "(unat (b_offset b) + length xs) * size_of p \<le> unat (b_size (inner b))"
    "take (length xs * size_of p) (drop (unat (b_offset b) * size_of p) (memory s (b_memory (inner b)))) = encode_all p xs"
    using assms(1) by (auto simp: holds_def)
  have o: "unat (b_offset b') = unat (b_offset b) + unat i" by (rule holds_slice_offset [OF assms])
  let ?m = "memory s (b_memory (inner b))"
  have ln: "length (take (unat j - unat i) (drop (unat i) xs)) = unat j - unat i"
    using sl(1,2) h(1) by simp
  have le: "(unat (b_offset b) + unat i + (unat j - unat i)) * size_of p \<le> (unat (b_offset b) + length xs) * size_of p"
    using sl(1,2) h(1) by simp
  have "encode_all p (take (unat j - unat i) (drop (unat i) xs)) =
      take ((unat j - unat i) * size_of p) (drop (unat i * size_of p)
        (take (length xs * size_of p) (drop (unat (b_offset b) * size_of p) ?m)))"
    unfolding h(5) drop_encode_all take_encode_all ..
  also have "\<dots> = take ((unat j - unat i) * size_of p) (drop ((unat (b_offset b) + unat i) * size_of p) ?m)"
  proof -
    have "(unat j - unat i) * size_of p \<le> length xs * size_of p - unat i * size_of p"
      using sl(1,2) h(1) by (simp add: diff_le_mono flip: diff_mult_distrib)
    then show ?thesis by (simp add: drop_take min.absorb1 algebra_simps)
  qed
  finally show ?thesis
    unfolding holds_def ln sl(3,5) o using le_less_trans [OF le h(2)] order_trans [OF le h(3)] order_trans [OF le h(4)] by simp
qed

lemma holds_read:
  assumes "holds p b s xs"
  shows "\<exists>r t. read_guard p b s = (r, t) \<and> memory t = memory s \<and> live t = live s \<and> (r = Inr (Some xs) \<or> (\<exists>e. r = Inl e))"
  using holds_view [OF assms]
  by (auto simp: read_guard_def g_bind_def invalidate_def vk_call_eq view_bytes_def Let_def decode_encode_all
      split: option.splits)

lemma holds_write:
  assumes "holds p b s xs" "slice_buf b i j = Some b'"
    and "\<And>ys. length (f ys) = length ys" and "write_guard p b' f s = (r, t)"
  shows "r = Inr (Some ())" "live t = live s" "overruns t = overruns s"
    "\<And>m. m \<noteq> b_memory (inner b) \<Longrightarrow> memory t m = memory s m"
    "holds p b t (take (unat i) xs @ f (take (unat j - unat i) (drop (unat i) xs)) @ drop (unat j) xs)"
proof -
  note sl = slice_buf_Some [OF assms(2)]
  note hs = holds_slice [OF assms(1,2)]
  note vw = holds_view [OF hs]
  let ?ys = "take (unat j - unat i) (drop (unat i) xs)"
  let ?zs = "take (unat i) xs @ f ?ys @ drop (unat j) xs"
  let ?m = "memory s (b_memory (inner b))"
  let ?o = "unat (b_offset b) * size_of p"
  have h: "length xs = unat (b_len b)" "(unat (b_offset b) + length xs) * size_of p < 2 ^ 64"
    "(unat (b_offset b) + length xs) * size_of p \<le> length ?m"
    "take (length xs * size_of p) (drop ?o ?m) = encode_all p xs"
    "(unat (b_offset b) + length xs) * size_of p \<le> unat (b_size (inner b))"
    using assms(1) by (auto simp: holds_def)
  have ly: "length (f ?ys) = unat j - unat i" using assms(3) sl(1,2) h(1) by simp
  have lz: "length ?zs = length xs" using ly sl(1,2) h(1) by simp
  have "unat (byte_offset p b') = unat (b_offset b') * size_of p" by (rule holds_byte_offset [OF hs])
  then have o: "unat (byte_offset p b') = ?o + unat i * size_of p"
    unfolding holds_slice_offset [OF assms(1,2)] by (simp only: add_mult_distrib)
  let ?new = "take (?o + unat i * size_of p) ?m @ encode_all p (f ?ys) @ drop (?o + unat i * size_of p + length (encode_all p (f ?ys))) ?m"
  have le: "?o + unat i * size_of p \<le> length ?m" "?o + unat j * size_of p \<le> length ?m"
    "?o + unat i * size_of p + length (encode_all p (f ?ys)) = ?o + unat j * size_of p"
  proof -
    have "unat i * size_of p \<le> length xs * size_of p" "unat j * size_of p \<le> length xs * size_of p"
      using sl(1,2) h(1) by (intro mult_le_mono1; simp)+
    then show "?o + unat i * size_of p \<le> length ?m" "?o + unat j * size_of p \<le> length ?m"
      using h(3) unfolding add_mult_distrib by linarith+
    show "?o + unat i * size_of p + length (encode_all p (f ?ys)) = ?o + unat j * size_of p"
      unfolding length_encode_all ly using sl(1) by (metis add.assoc add_mult_distrib le_add_diff_inverse)
  qed
  have t: "r = Inr (Some ())" "live t = live s" "overruns t = overruns s" "memory t = (memory s)(b_memory (inner b) := ?new)"
  proof -
    have "(r, t) = (Inr (Some ()), drop_write_guard (inner b') (overwrite (b_memory (inner b'))
        (unat (byte_offset p b')) (encode_all p (f ?ys)) s))"
      unfolding assms(4) [symmetric] write_guard_def vw by (simp only: option.case decode_encode_all)
    then show "r = Inr (Some ())" "live t = live s" "overruns t = overruns s" "memory t = (memory s)(b_memory (inner b) := ?new)"
      unfolding sl(3) o overwrite_def le(3) using le(2) by (simp_all add: set_memory_def)
  qed
  show "r = Inr (Some ())" "live t = live s" "overruns t = overruns s" by fact+
  show "memory t m = memory s m" if "m \<noteq> b_memory (inner b)" for m using that t(4) by simp
  have ln: "length ?new = length ?m" using le by simp
  have m: "?m = take ?o ?m @ encode_all p xs @ drop (?o + length xs * size_of p) ?m"
    unfolding h(4) [symmetric] by (simp add: add.commute flip: drop_drop)
  have "?new = take ?o ?m @ encode_all p ?zs @ drop (?o + length xs * size_of p) ?m"
  proof -
    have "take (?o + unat i * size_of p) ?m = take ?o ?m @ take (unat i * size_of p) (take (length xs * size_of p) (drop ?o ?m))"
      using sl(1,2) h(1) by (simp add: take_add min.absorb1)
    also have "\<dots> = take ?o ?m @ encode_all p (take (unat i) xs)" unfolding h(4) take_encode_all ..
    finally have a: "take (?o + unat i * size_of p) ?m = take ?o ?m @ encode_all p (take (unat i) xs)" .
    have "drop (?o + unat j * size_of p) ?m = drop (unat j * size_of p) (drop ?o ?m)" by (simp add: add.commute)
    also have "drop ?o ?m = encode_all p xs @ drop (?o + length xs * size_of p) ?m"
      unfolding h(4) [symmetric] by (simp add: add.commute flip: drop_drop)
    also have "drop (unat j * size_of p) \<dots> = encode_all p (drop (unat j) xs) @ drop (?o + length xs * size_of p) ?m"
      using sl(2) h(1) by (simp add: drop_encode_all length_encode_all)
    finally have b: "drop (?o + unat j * size_of p) ?m = \<dots>" .
    show ?thesis unfolding le(3) a b by (simp add: encode_all_append)
  qed
  then have "take (length xs * size_of p) (drop ?o ?new) = encode_all p ?zs"
    using le(1) lz by (simp add: length_encode_all)
  then show "holds p b t ?zs"
    unfolding holds_def lz t(4) using h(1-3,5) ln by simp
qed

end

subsection \<open>Allocation\<close>

lemma alloc_buffer_Inr:
  assumes "alloc_buffer d env len es usage s = (Inr b, t)"
  shows "b = \<lparr>b_buffer = fresh s, b_memory = Suc (fresh s), b_mapped = Suc (Suc (fresh s)),
              b_size = alloc_size len es, b_coherent = b_coherent b\<rparr>"
    "live t = live s \<union> {(VkBuffer, fresh s), (VkMemory, Suc (fresh s)), (VkMapping, Suc (Suc (fresh s)))}"
    "faults t = faults s"
    "memory t = (memory s)(Suc (fresh s) := map (junk env) [0..<unat (fst (mem_reqs env (alloc_size len es) usage))])"
    "fresh t = Suc (Suc (Suc (fresh s)))" "driver t = driver s" "cmds t = cmds s"
  using assms
  by (auto simp: alloc_buffer_def Let_def g_bind_def vk_create_eq vk_call_eq g_cleanup_eq set_memory_def
      split: prod.splits sum.splits option.splits)

lemma alloc_buffer_overruns:
  assumes "alloc_buffer d env len es usage s = (Inr b, t)"
  shows "overruns t = overruns s"
  using assms
  by (auto simp: alloc_buffer_def Let_def g_bind_def vk_create_eq vk_call_eq g_cleanup_eq set_memory_def
      split: prod.splits sum.splits option.splits)

lemma alloc_buffer_Inl:
  assumes "vk_ok s" "alloc_buffer d env len es usage s = (Inl e, t)"
  shows "faults t = faults s"
    "live t = live s \<or> (e = NoDevice ''host-visible memory type'' \<and> live t = insert (VkBuffer, fresh s) (live s) \<and>
       choose_memory d (snd (mem_reqs env (alloc_size len es) usage)) = None)"
    "fresh s \<le> fresh t"
  using assms(2) vk_ok_fresh [OF assms(1), of "fresh s"] vk_ok_fresh [OF assms(1), of "Suc (fresh s)"]
  by (auto simp: alloc_buffer_def Let_def g_bind_def vk_create_eq vk_call_eq g_cleanup_eq set_memory_def free_pair_def
      split: prod.splits sum.splits option.splits)

lemma drop_inner_alloc:
  assumes "vk_ok s"
    "live t = live s \<union> {(VkBuffer, fresh s), (VkMemory, Suc (fresh s)), (VkMapping, Suc (Suc (fresh s)))}"
    "faults t = faults s" "b_buffer b = fresh s" "b_memory b = Suc (fresh s)" "b_mapped b = Suc (Suc (fresh s))"
  shows "live (drop_inner b t) = live s" "faults (drop_inner b t) = faults s"
  using assms vk_ok_fresh [OF assms(1), of "fresh s"] vk_ok_fresh [OF assms(1), of "Suc (fresh s)"]
    vk_ok_fresh [OF assms(1), of "Suc (Suc (fresh s))"]
  by (auto simp: drop_inner_def)

text \<open>Both constructors allocate, fill the mapping, and flush if the memory is not coherent.\<close>

definition alloc_filled :: "device_ctx \<Rightarrow> mem_env \<Rightarrow> u64 \<Rightarrow> u64 \<Rightarrow> u32 \<Rightarrow> (buffer_inner \<Rightarrow> u8 list) \<Rightarrow> buffer gpu" where
  "alloc_filled d env len es usage bytes =
     g_bind (alloc_buffer d env len es usage) (\<lambda>b.
     g_bind (g_do (overwrite (b_memory b) 0 (bytes b))) (\<lambda>_.
     g_bind (flush_new b) (\<lambda>_. g_return (whole b len))))"

lemma new_buffer_filled:
  "new_buffer d env p len usage =
     alloc_filled d env len (of_nat (size_of p)) usage (\<lambda>b. replicate (unat (b_size b)) 0)"
  by (simp add: new_buffer_def alloc_filled_def)

lemma buffer_from_iter_filled:
  "buffer_from_iter d env p xs usage =
     alloc_filled d env (of_nat (length xs)) (of_nat (size_of p)) usage (\<lambda>_. encode_all p xs)"
  by (simp add: buffer_from_iter_def alloc_filled_def Let_def)

lemma alloc_filled_Inr:
  assumes "alloc_filled d env len es usage bytes s = (Inr b, t)"
  obtains i where "b = whole i len" "b_size i = alloc_size len es" "b_memory i = Suc (fresh s)"
    "b_buffer i = fresh s" "b_mapped i = Suc (Suc (fresh s))"
    "live t = live s \<union> {(VkBuffer, fresh s), (VkMemory, Suc (fresh s)), (VkMapping, Suc (Suc (fresh s)))}"
    "faults t = faults s" "fresh t = fresh s + 3" "driver t = driver s" "cmds t = cmds s"
    "\<And>m. m \<noteq> Suc (fresh s) \<Longrightarrow> memory t m = memory s m"
    "length (memory t (Suc (fresh s))) = unat (fst (mem_reqs env (alloc_size len es) usage))"
    "length (bytes i) \<le> unat (fst (mem_reqs env (alloc_size len es) usage)) \<Longrightarrow>
       overruns t = overruns s \<and> take (length (bytes i)) (memory t (Suc (fresh s))) = bytes i"
proof -
  obtain i s1 where a: "alloc_buffer d env len es usage s = (Inr i, s1)" "b = whole i len"
    "flush_new i (overwrite (b_memory i) 0 (bytes i) s1) = (Inr (), t)"
    using assms by (auto simp: alloc_filled_def g_bind_Inr)
  note al = alloc_buffer_Inr [OF a(1)]
  have i: "b_size i = alloc_size len es" "b_memory i = Suc (fresh s)" "b_buffer i = fresh s" "b_mapped i = Suc (Suc (fresh s))"
    by (subst al(1), simp)+
  have t: "live t = live s1" "faults t = faults s1" "fresh t = fresh s1" "driver t = driver s1" "cmds t = cmds s1"
    "memory t = memory (overwrite (b_memory i) 0 (bytes i) s1)" "overruns t = overruns (overwrite (b_memory i) 0 (bytes i) s1)"
    using a(3) by (auto simp: flush_new_def flush_def overwrite_def set_memory_def vk_call_eq split: if_splits option.splits)
  show ?thesis
    by (rule that [OF a(2) i(1-4)])
      (use t al(2-7) alloc_buffer_overruns [OF a(1)] i(2) in \<open>auto simp: overwrite_def set_memory_def split: if_splits\<close>)
qed

lemma alloc_filled_Inl:
  assumes "vk_ok s" "alloc_filled d env len es usage bytes s = (Inl e, t)"
  shows "faults t = faults s"
    "live t = live s \<or> (e = NoDevice ''host-visible memory type'' \<and> live t = insert (VkBuffer, fresh s) (live s))"
proof -
  have "faults t = faults s \<and> (live t = live s \<or>
      (e = NoDevice ''host-visible memory type'' \<and> live t = insert (VkBuffer, fresh s) (live s)))"
  proof (cases "alloc_buffer d env len es usage s")
    case (Pair r s1)
    show ?thesis
    proof (cases r)
      case (Inl e')
      then show ?thesis using assms Pair alloc_buffer_Inl [OF assms(1)] by (fastforce simp: alloc_filled_def g_bind_def)
    next
      case (Inr i)
      note al = alloc_buffer_Inr [OF Pair [unfolded Inr]]
      have i: "b_buffer i = fresh s" "b_memory i = Suc (fresh s)" "b_mapped i = Suc (Suc (fresh s))"
        by (subst al(1), simp)+
      define s2 where "s2 = overwrite (b_memory i) 0 (bytes i) s1"
      have s2: "live s2 = live s1" "faults s2 = faults s1" by (simp_all add: s2_def overwrite_def set_memory_def)
      obtain n where "t = drop_inner i (s2\<lparr>calls := n\<rparr>)"
        using assms(2) Pair Inr
        by (auto simp: alloc_filled_def g_bind_def flush_new_def flush_def vk_call_eq g_cleanup_eq s2_def
            split: if_splits option.splits prod.splits sum.splits)
      then show ?thesis
        using drop_inner_alloc [OF assms(1), of "s2\<lparr>calls := n\<rparr>" i] i al(2,3) s2 by simp
    qed
  qed
  then show "faults t = faults s"
    "live t = live s \<or> (e = NoDevice ''host-visible memory type'' \<and> live t = insert (VkBuffer, fresh s) (live s))"
    by blast+
qed

lemma alloc_filled_drop:
  assumes "vk_ok s" "alloc_filled d env len es usage bytes s = (Inr b, t)"
  shows "live (drop_inner (inner b) t) = live s" "faults (drop_inner (inner b) t) = faults s"
  using alloc_filled_Inr [OF assms(2)] drop_inner_alloc [OF assms(1), of t]
  by (metis whole_def buffer.select_convs(1))+

text \<open>The driver never asks for less memory than the size of the buffer.\<close>

definition reqs_cover :: "mem_env \<Rightarrow> bool" where
  "reqs_cover env \<longleftrightarrow> (\<forall>size usage. size \<le> fst (mem_reqs env size usage))"

lemma unat_alloc_size:
  "unat len * n < 2 ^ 64 \<Longrightarrow> n < 2 ^ 64 \<Longrightarrow> unat len * n \<le> unat (alloc_size len (of_nat n))"
  using unat_mult_small [of len n]
  by (auto simp: alloc_size_def max_def word_le_nat_alt)

context pod_type
begin

lemma filled_holds:
  assumes "alloc_filled d env (of_nat (length xs)) (of_nat (size_of p)) usage bytes s = (Inr b, t)"
    and "reqs_cover env" and fits: "length xs * size_of p < 2 ^ 64"
    and "\<And>i. take (length xs * size_of p) (bytes i) = encode_all p xs"
    and "\<And>i. b_size i = alloc_size (of_nat (length xs)) (of_nat (size_of p)) \<Longrightarrow> length (bytes i) \<le> unat (b_size i)"
  shows "holds p b t xs" "overruns t = overruns s"
proof -
  let ?size = "alloc_size (of_nat (length xs)) (of_nat (size_of p))"
  have l: "length xs < 2 ^ 64"
    using fits size_pos by (metis le_less_trans mult.right_neutral mult_le_mono2 less_eq_Suc_le One_nat_def)
  have u: "unat (of_nat (length xs) :: u64) = length xs" by (rule unat_of_nat_u64 [OF l])
  have size: "length xs * size_of p \<le> unat ?size"
    using unat_alloc_size [of "of_nat (length xs)" "size_of p"] fits size_small by (simp add: u)
  have cover: "unat ?size \<le> unat (fst (mem_reqs env ?size usage))"
    using assms(2) by (simp add: reqs_cover_def word_le_nat_alt)
  obtain i where b: "b = whole i (of_nat (length xs))" "b_size i = ?size" "b_memory i = Suc (fresh s)"
    and len: "length (memory t (Suc (fresh s))) = unat (fst (mem_reqs env ?size usage))"
    and m: "length (bytes i) \<le> unat (fst (mem_reqs env ?size usage)) \<Longrightarrow>
       overruns t = overruns s \<and> take (length (bytes i)) (memory t (Suc (fresh s))) = bytes i"
    by (rule alloc_filled_Inr [OF assms(1)]) simp
  have lb: "length xs * size_of p \<le> length (bytes i)" "length (bytes i) \<le> unat ?size"
  proof -
    show "length (bytes i) \<le> unat ?size" using assms(5) [OF b(2)] b(2) by simp
    have "length (take (length xs * size_of p) (bytes i)) = length xs * size_of p"
      by (simp only: assms(4) length_encode_all)
    then show "length xs * size_of p \<le> length (bytes i)" by simp
  qed
  have mm: "overruns t = overruns s" "take (length (bytes i)) (memory t (Suc (fresh s))) = bytes i"
    using m lb(2) cover by simp_all
  have "take (length xs * size_of p) (memory t (Suc (fresh s))) = take (length xs * size_of p) (bytes i)"
    using arg_cong [OF mm(2), of "take (length xs * size_of p)"] lb(1) by (simp add: min.absorb1)
  moreover have "length xs * size_of p \<le> length (memory t (Suc (fresh s)))" using len size cover by simp
  ultimately show "holds p b t xs"
    unfolding holds_def using b u fits size assms(4) [of i] by (simp add: whole_def)
  show "overruns t = overruns s" by (rule mm(1))
qed

lemma buffer_from_iter_holds:
  assumes "buffer_from_iter d env p xs usage s = (Inr b, t)" "reqs_cover env" "length xs * size_of p < 2 ^ 64"
  shows "holds p b t xs" "overruns t = overruns s" "unat (b_size (inner b)) \<le> length (memory t (b_memory (inner b)))"
proof -
  show "unat (b_size (inner b)) \<le> length (memory t (b_memory (inner b)))"
    by (rule alloc_filled_Inr [OF assms(1) [unfolded buffer_from_iter_filled]])
      (use assms(2) in \<open>simp add: whole_def reqs_cover_def word_le_nat_alt\<close>)
  have l: "length xs < 2 ^ 64"
    using assms(3) size_pos by (metis le_less_trans mult.right_neutral mult_le_mono2 less_eq_Suc_le One_nat_def)
  have "length xs * size_of p \<le> unat (alloc_size (of_nat (length xs)) (of_nat (size_of p)))"
    using unat_alloc_size [of "of_nat (length xs)" "size_of p"] assms(3) size_small by (simp add: unat_of_nat_u64 [OF l])
  then show "holds p b t xs" "overruns t = overruns s"
    using filled_holds [OF assms(1) [unfolded buffer_from_iter_filled] assms(2,3)] by (simp_all add: length_encode_all)
qed

end

subsection \<open>Properties\<close>

definition sample_ctx :: device_ctx where
  "sample_ctx = \<lparr>instance_h = 0, device_h = 1,
     dc_physical = \<lparr>queue_compute = [True], supported = required_features, dev_extensions = Some [], subgroup_prop = 64,
       ts_period = 0, dev_type = INTEGRATED_GPU, mem_types = [{HOST_VISIBLE}, {HOST_VISIBLE, DEVICE_LOCAL, HOST_COHERENT}]\<rparr>,
     queue_family = 0, dc_mem_types = [{HOST_VISIBLE}, {HOST_VISIBLE, DEVICE_LOCAL, HOST_COHERENT}], debug_utils = False,
     timestamp_period = 0, subgroup_size = 64, cooperative_matrix = False\<rparr>"

definition sample_env :: mem_env where
  "sample_env = \<lparr>mem_reqs = (\<lambda>size usage. (max size 16, 3)), junk = (\<lambda>_. 0xFF)\<rparr>"

definition sample_run :: "(gpu_error + buffer) \<times> vk" where
  "sample_run = buffer_from_iter sample_ctx sample_env pod_u32 [10, 20, 30] STORAGE_BUFFER (vk_init (\<lambda>_. None))"

definition sample_buf :: buffer where "sample_buf = projr (fst sample_run)"
definition sample_view :: buffer where "sample_view = the (slice_buf sample_buf 1 3)"

lemma sample_env_cover: "reqs_cover sample_env"
  by (simp add: reqs_cover_def sample_env_def)

lemma sample_choice: "choose_memory sample_ctx 3 = Some (1, True)"
  by (simp add: choose_memory_def find_mem_type_def sample_ctx_def mem_type_at_def bit_numeral_word_iff)

lemma sample_runs:
  "buffer_from_iter sample_ctx sample_env pod_u32 [10, 20, 30] STORAGE_BUFFER (vk_init (\<lambda>_. None)) =
     (Inr sample_buf, snd sample_run)"
  "slice_buf sample_buf 1 3 = Some sample_view"
  by (simp_all add: sample_buf_def sample_view_def sample_run_def buffer_from_iter_def alloc_buffer_def Let_def g_bind_def
      vk_create_eq vk_call_eq g_cleanup_eq sample_choice flush_new_def whole_def slice_buf_def sample_env_def vk_init_def)

text \<open>
  C30: What allocation takes it gives back. A constructor that succeeds has created one buffer, one
  allocation and one mapping, and dropping the buffer destroys exactly these, each once. One that
  fails, at whichever driver call, leaves nothing behind - except that a driver with no host-visible
  memory type for the buffer leaves the \<open>VkBuffer\<close> that \<open>alloc_buffer\<close> had created.
\<close>

theorem buffer_resources:
  assumes "vk_ok s" and "run = new_buffer d env p len usage \<or> run = buffer_from_iter d env p xs usage"
  shows "case run s of
      (Inr b, t) \<Rightarrow> live (drop_inner (inner b) t) = live s \<and> faults (drop_inner (inner b) t) = faults s
    | (Inl e, t) \<Rightarrow> faults t = faults s \<and>
        (live t = live s \<or>
         (e = NoDevice ''host-visible memory type'' \<and> live t = insert (VkBuffer, fresh s) (live s)))"
proof -
  obtain len' es bytes where "run = alloc_filled d env len' es usage bytes"
    using assms(2) new_buffer_filled buffer_from_iter_filled by metis
  then show ?thesis
    using alloc_filled_drop [OF assms(1)] alloc_filled_Inl [OF assms(1)]
    by (auto split: prod.split sum.split)
qed

theorem buffer_resources_witness:
  "live (drop_inner (inner sample_buf) (snd sample_run)) = {}"
  using buffer_resources [of "vk_init (\<lambda>_. None)" "buffer_from_iter sample_ctx sample_env pod_u32 [10, 20, 30] STORAGE_BUFFER"
      sample_ctx sample_env pod_u32 0 STORAGE_BUFFER "[10, 20, 30]"]
  by (simp add: sample_runs(1)) (simp add: vk_init_def)

text \<open>
  C29: A view is a list. A buffer made from the elements \<open>xs\<close> reads back as \<open>xs\<close>; the slice
  \<open>i..j\<close> of it reads as that part of \<open>xs\<close>, and a write through the slice replaces that part and
  nothing else. Neither the constructor nor the guard writes past the allocation, which does not grow, and
  the bytes of every slice lie inside the buffer the driver was asked for, provided the byte size does not
  wrap around.
\<close>

theorem buffer_views_are_lists:
  fixes xs :: "u32 list"
  assumes "buffer_from_iter d env pod_u32 xs usage s = (Inr b, t)" "reqs_cover env" "length xs * 4 < 2 ^ 64"
    and "slice_buf b i j = Some w" and "\<And>ys. length (f ys) = length ys"
  shows "overruns t = overruns s \<and>
    unat (byte_offset pod_u32 w) + unat (b_len w) * 4 \<le> unat (b_size (inner w)) \<and>
    unat (b_size (inner w)) \<le> length (memory t (b_memory (inner w))) \<and>
    fst (read_guard pod_u32 b t) \<in> {Inr (Some xs)} \<union> range Inl \<and>
    fst (read_guard pod_u32 w t) \<in> {Inr (Some (take (unat j - unat i) (drop (unat i) xs)))} \<union> range Inl \<and>
    fst (write_guard pod_u32 w f t) = Inr (Some ()) \<and>
    overruns (snd (write_guard pod_u32 w f t)) = overruns t \<and>
    fst (read_guard pod_u32 b (snd (write_guard pod_u32 w f t))) \<in>
      {Inr (Some (take (unat i) xs @ f (take (unat j - unat i) (drop (unat i) xs)) @ drop (unat j) xs))} \<union> range Inl"
proof -
  note made = u32s.buffer_from_iter_holds [OF assms(1,2)]
  have fits: "length xs * size_of pod_u32 < 2 ^ 64" using assms(3) by (simp add: pod_u32_def)
  have h: "holds pod_u32 b t xs" by (rule made(1) [OF fits])
  note hs = u32s.holds_slice [OF h assms(4)]
  obtain r t' where w: "write_guard pod_u32 w f t = (r, t')" by (cases "write_guard pod_u32 w f t")
  note wr = u32s.holds_write [OF h assms(4,5) w]
  have "(unat (b_offset w) + unat (b_len w)) * 4 \<le> unat (b_size (inner w))"
    using hs by (simp add: holds_def pod_u32_def)
  moreover have "unat (byte_offset pod_u32 w) = unat (b_offset w) * 4"
    using u32s.holds_byte_offset [OF hs] by (simp add: pod_u32_def)
  ultimately have "unat (byte_offset pod_u32 w) + unat (b_len w) * 4 \<le> unat (b_size (inner w))"
    by (simp add: add_mult_distrib)
  then show ?thesis
    using u32s.holds_read [OF h] u32s.holds_read [OF hs] u32s.holds_read [OF wr(5)] w wr(1,3) made(2,3) [OF fits]
      slice_buf_Some(3) [OF assms(4)]
    by auto
qed

theorem buffer_views_are_lists_witness:
  "overruns (snd sample_run) = 0 \<and>
   fst (read_guard pod_u32 sample_view (snd sample_run)) \<in> {Inr (Some [20, 30])} \<union> range Inl \<and>
   fst (read_guard pod_u32 sample_buf (snd (write_guard pod_u32 sample_view rev (snd sample_run)))) \<in>
     {Inr (Some [10, 30, 20])} \<union> range Inl"
  using buffer_views_are_lists [OF sample_runs(1) sample_env_cover _ sample_runs(2), of rev]
  by (simp add: vk_init_def)

text \<open>
  C34: A binding names a range of its own buffer: for a view with at least one element, offset and range of
  the descriptor stay inside the size the \<open>VkBuffer\<close> was created with, and that inside the allocation the
  driver bound to it, which keeps the size it was made with.
\<close>

theorem binding_in_range:
  fixes xs :: "u32 list"
  assumes "buffer_from_iter d env pod_u32 xs usage s = (Inr b, t)" "reqs_cover env" "length xs * 4 < 2 ^ 64"
    and "slice_buf b i j = Some w" and "i < j"
  shows "bd_keep (bind_buffer pod_u32 n w) = inner b \<and>
    unat (bd_offset (bind_buffer pod_u32 n w)) + unat (bd_range (bind_buffer pod_u32 n w)) \<le> unat (b_size (inner b)) \<and>
    unat (b_size (inner b)) \<le> length (memory t (b_memory (inner b))) \<and>
    length (memory t (b_memory (inner b))) = unat (fst (mem_reqs env (b_size (inner b)) usage)) \<and> overruns t = overruns s"
proof -
  note made = u32s.buffer_from_iter_holds [OF assms(1,2)]
  have fits: "length xs * size_of pod_u32 < 2 ^ 64" using assms(3) by (simp add: pod_u32_def)
  have h: "holds pod_u32 w t (take (unat j - unat i) (drop (unat i) xs))"
    by (rule u32s.holds_slice [OF made(1) [OF fits] assms(4)])
  note sl = slice_buf_Some [OF assms(4)]
  have len: "unat (b_len w) = unat j - unat i" "0 < unat j - unat i"
    using sl assms(5) by (auto simp: word_less_nat_alt)
  have hh: "(unat (b_offset w) + unat (b_len w)) * 4 < 2 ^ 64"
    "(unat (b_offset w) + unat (b_len w)) * 4 \<le> unat (b_size (inner w))"
    using h by (auto simp: holds_def pod_u32_def)
  have "unat (b_offset w * of_nat 4) = unat (b_offset w) * 4" "unat (b_len w * of_nat 4) = unat (b_len w) * 4"
    using hh(1) by (intro unat_mult_small; simp)+
  then have "unat (bd_offset (bind_buffer pod_u32 n w)) = unat (b_offset w) * 4"
    "unat (bd_range (bind_buffer pod_u32 n w)) = unat (b_len w) * 4"
    using len by (auto simp: bind_buffer_def pod_u32_def Let_def max_def word_le_nat_alt)
  moreover have "length (memory t (b_memory (inner b))) = unat (fst (mem_reqs env (b_size (inner b)) usage))"
    by (rule alloc_filled_Inr [OF assms(1) [unfolded buffer_from_iter_filled]]) (simp add: whole_def)
  ultimately show ?thesis
    using hh(2) sl(3) made(2,3) [OF fits] by (simp add: bind_buffer_def Let_def algebra_simps)
qed

theorem binding_in_range_witness:
  "unat (bd_offset (bind_buffer pod_u32 2 sample_view)) + unat (bd_range (bind_buffer pod_u32 2 sample_view)) \<le> unat (b_size (inner sample_buf)) \<and>
   unat (b_size (inner sample_buf)) \<le> length (memory (snd sample_run) (b_memory (inner sample_buf)))"
  using binding_in_range [OF sample_runs(1) sample_env_cover _ sample_runs(2), of 2] by simp

text \<open>A length whose byte size wraps gets a buffer of one element, and every access to the rest is foreign memory.\<close>

lemma alloc_size_wraps: "alloc_size (2 ^ 62) 4 = 4"
  by (simp add: alloc_size_def)

end
