(* ===== verification/Gpu_Graph_Props.thy ===== *)
theory Gpu_Graph_Props
  imports Gpu_Graph Gpu_Buffer_Props
begin

text \<open>
  What recording promises: nothing is leaked or freed twice whichever driver call fails, the command
  buffer of a graph holds the program's dispatches with a barrier between dependent ones, and the
  timestamps of a profiled recording are those the labels speak of.
\<close>

subsection \<open>Descriptor pools\<close>

definition pool_objs :: "nat list \<Rightarrow> (vk_kind \<times> nat) set" where
  "pool_objs ps = (\<lambda>p. (VkDescriptorPool, p)) ` set ps"

definition arena_inv :: "(vk_kind \<times> nat) set \<Rightarrow> arena \<Rightarrow> vk \<Rightarrow> bool" where
  "arena_inv base a s \<longleftrightarrow>
     live s = base \<union> pool_objs (a_pools a) \<and> base \<inter> pool_objs (a_pools a) = {} \<and> distinct (a_pools a) \<and>
     vk_ok s \<and> (\<forall>p \<in> set (a_pools a). pool_sets s p \<le> SETS_PER_POOL) \<and>
     (\<forall>p \<ge> fresh s. pool_sets s p = 0) \<and>
     (if a_pools a = [] then a_remaining a = 0 else pool_sets s (last (a_pools a)) + a_remaining a = SETS_PER_POOL)"

lemma arena_pool_old:
  assumes "arena_inv base a s" "p \<in> set (a_pools a)"
  shows "p < fresh s"
proof -
  have "(VkDescriptorPool, p) \<in> live s" using assms by (simp add: arena_inv_def pool_objs_def)
  then show ?thesis using assms(1) vk_ok_fresh by (metis arena_inv_def not_le)
qed

lemma add_pool_ok:
  assumes "arena_inv base a s" "a_remaining a = 0"
  obtains x a' s' where "add_pool a s = Some (x, a', s')" "arena_inv base a' s'" "fresh s \<le> fresh s'"
    "cmds s' = cmds s" "set_writes s' = set_writes s" "faults s' = faults s"
    "x = Inr () \<longrightarrow> a_pools a' \<noteq> [] \<and> a_remaining a' = SETS_PER_POOL"
proof (cases "driver s (calls s)")
  case (Some e)
  show ?thesis
    by (rule that [of "Inl (Vk ''create_descriptor_pool'' e)" a "s\<lparr>calls := Suc (calls s)\<rparr>"])
       (use assms Some in \<open>auto simp: add_pool_def vk_create_eq arena_inv_def vk_ok_alt\<close>)
next
  case None
  let ?s = "s\<lparr>calls := Suc (calls s), fresh := Suc (fresh s), live := insert (VkDescriptorPool, fresh s) (live s)\<rparr>"
  let ?a = "a\<lparr>a_pools := a_pools a @ [fresh s], a_remaining := SETS_PER_POOL\<rparr>"
  have f: "fresh s \<notin> set (a_pools a)" "(VkDescriptorPool, fresh s) \<notin> base"
    using assms(1) vk_ok_fresh [of s "fresh s" VkDescriptorPool] by (auto simp: arena_inv_def pool_objs_def)
  have inv: "arena_inv base ?a ?s"
    using assms f arena_pool_old [OF assms(1)]
    by (fastforce simp: arena_inv_def pool_objs_def vk_ok_alt less_Suc_eq)
  show ?thesis
    by (rule that [of "Inr ()" ?a ?s]) (use None inv in \<open>auto simp: add_pool_def vk_create_eq\<close>)
qed

lemma alloc_set_ok:
  assumes "arena_inv base a s" "0 < a_remaining a" "alloc_set (last (a_pools a)) s = (x, t)"
  shows "arena_inv base (case x of Inl _ \<Rightarrow> a | Inr _ \<Rightarrow> a\<lparr>a_remaining := a_remaining a - 1\<rparr>) t"
    "fresh s \<le> fresh t" "cmds t = cmds s" "set_writes t = set_writes s" "faults t = faults s"
    "\<And>h. x = Inr h \<Longrightarrow> h = fresh s \<and> fresh t = Suc (fresh s)"
proof -
  have ne: "a_pools a \<noteq> []" using assms(1,2) by (auto simp: arena_inv_def split: if_splits)
  have lf: "last (a_pools a) < fresh s"
    using arena_pool_old [OF assms(1)] ne by simp
  show "fresh s \<le> fresh t" "cmds t = cmds s" "set_writes t = set_writes s" "faults t = faults s"
    "\<And>h. x = Inr h \<Longrightarrow> h = fresh s \<and> fresh t = Suc (fresh s)"
    using assms(3) by (auto simp: alloc_set_def g_bind_def vk_call_eq split: option.splits)
  show "arena_inv base (case x of Inl _ \<Rightarrow> a | Inr _ \<Rightarrow> a\<lparr>a_remaining := a_remaining a - 1\<rparr>) t"
    using assms ne lf by (auto simp: alloc_set_def g_bind_def vk_call_eq arena_inv_def vk_ok_alt less_Suc_eq split: option.splits)
qed

lemma arena_allocate_ok:
  assumes "arena_inv base a s"
  obtains x a' s' where "arena_allocate layout a s = Some (x, a', s')" "arena_inv base a' s'" "fresh s \<le> fresh s'"
    "cmds s' = cmds s" "set_writes s' = set_writes s" "faults s' = faults s"
    "\<And>h. x = Inr h \<Longrightarrow> fresh s \<le> h \<and> h < fresh s'"
proof -
  obtain x1 a1 s1 where a1: "(if a_remaining a = 0 then add_pool a s else Some (Inr (), a, s)) = Some (x1, a1, s1)"
    "arena_inv base a1 s1" "fresh s \<le> fresh s1" "cmds s1 = cmds s" "set_writes s1 = set_writes s" "faults s1 = faults s"
    "x1 = Inr () \<Longrightarrow> a_pools a1 \<noteq> [] \<and> 0 < a_remaining a1"
  proof (cases "a_remaining a = 0")
    case True
    obtain x a1 s1 where "add_pool a s = Some (x, a1, s1)" "arena_inv base a1 s1" "fresh s \<le> fresh s1"
      "cmds s1 = cmds s" "set_writes s1 = set_writes s" "faults s1 = faults s"
      "x = Inr () \<longrightarrow> a_pools a1 \<noteq> [] \<and> a_remaining a1 = SETS_PER_POOL"
      by (rule add_pool_ok [OF assms True]) blast
    then show ?thesis using that [of x a1 s1] True by (simp add: SETS_PER_POOL_def)
  next
    case False
    then have "a_pools a \<noteq> []" using assms by (auto simp: arena_inv_def split: if_splits)
    then show ?thesis using that [of "Inr ()" a s] assms False by simp
  qed
  show ?thesis
  proof (cases x1)
    case (Inl e)
    show ?thesis
      by (rule that [of "Inl e" a1 s1]) (use a1 Inl in \<open>auto simp: arena_allocate_def\<close>)
  next
    case (Inr u)
    then have ne: "a_pools a1 \<noteq> []" "0 < a_remaining a1" using a1(7) by auto
    obtain x t where al: "alloc_set (last (a_pools a1)) s1 = (x, t)" by (cases "alloc_set (last (a_pools a1)) s1")
    note ok = alloc_set_ok [OF a1(2) ne(2) al]
    show ?thesis
      by (rule that [of x "case x of Inl _ \<Rightarrow> a1 | Inr _ \<Rightarrow> a1\<lparr>a_remaining := a_remaining a1 - 1\<rparr>" t])
         (use a1 Inr ne al ok in \<open>auto simp: arena_allocate_def split: sum.splits\<close>)
  qed
qed

lemma drop_pools:
  assumes "live s = base \<union> pool_objs ps" "base \<inter> pool_objs ps = {}" "distinct ps"
  shows "live (fold (vk_destroy VkDescriptorPool) ps s) = base"
    "faults (fold (vk_destroy VkDescriptorPool) ps s) = faults s"
proof -
  have "live (fold (vk_destroy VkDescriptorPool) ps s) = base \<and> faults (fold (vk_destroy VkDescriptorPool) ps s) = faults s"
    using assms
  proof (induction ps arbitrary: s)
    case (Cons p ps)
    let ?s = "s\<lparr>live := live s - {(VkDescriptorPool, p)}\<rparr>"
    have "live ?s = base \<union> pool_objs ps" using Cons.prems by (auto simp: pool_objs_def)
    moreover have "(VkDescriptorPool, p) \<in> live s" using Cons.prems(1) by (simp add: pool_objs_def)
    moreover have "base \<inter> pool_objs ps = {}" using Cons.prems(2) by (auto simp: pool_objs_def)
    ultimately show ?case using Cons.IH [of ?s] Cons.prems(3) by simp
  qed (simp add: pool_objs_def)
  then show "live (fold (vk_destroy VkDescriptorPool) ps s) = base"
    "faults (fold (vk_destroy VkDescriptorPool) ps s) = faults s" by blast+
qed

subsection \<open>Recording keeps its resources\<close>

definition rec_inv :: "(vk_kind \<times> nat) set \<Rightarrow> nat \<Rightarrow> recorder \<Rightarrow> vk \<Rightarrow> bool" where
  "rec_inv base f0 r s \<longleftrightarrow>
     \<not> r_finished r \<and> (VkCommandPool, r_pool r) \<notin> base \<and> faults s = f0 \<and> r_cb r < fresh s \<and>
     (\<exists>a. r_arena r = Some a \<and> arena_inv (insert (VkCommandPool, r_pool r) base) a s)"

lemma rec_inv_drop:
  assumes "rec_inv base f0 r s"
  shows "live (drop_recorder r s) = base" "faults (drop_recorder r s) = f0"
proof -
  obtain a where a: "r_arena r = Some a" "arena_inv (insert (VkCommandPool, r_pool r) base) a s"
    using assms by (auto simp: rec_inv_def)
  have "(VkCommandPool, r_pool r) \<in> live s" using a(2) by (auto simp: arena_inv_def)
  then have d: "vk_destroy VkCommandPool (r_pool r) s = s\<lparr>live := live s - {(VkCommandPool, r_pool r)}\<rparr>" by simp
  have l: "live s - {(VkCommandPool, r_pool r)} = base \<union> pool_objs (a_pools a)"
    using a(2) assms by (auto simp: arena_inv_def pool_objs_def rec_inv_def)
  have dj: "base \<inter> pool_objs (a_pools a) = {}" "distinct (a_pools a)" using a(2) by (auto simp: arena_inv_def)
  show "live (drop_recorder r s) = base" "faults (drop_recorder r s) = f0"
    using assms a(1) drop_pools [of "s\<lparr>live := live s - {(VkCommandPool, r_pool r)}\<rparr>" base "a_pools a"] l dj
    by (auto simp: drop_recorder_def rec_inv_def drop_arena_def d)
qed

text \<open>
  A recorder operation \<open>keeps\<close> when it never panics and, whatever it returns, its state satisfies
  the invariant, the pool and command buffer are the same, and handles only grow.
\<close>

definition keeps :: "'a rec_m \<Rightarrow> bool" where
  "keeps m \<longleftrightarrow> (\<forall>base f0 r s. rec_inv base f0 r s \<longrightarrow>
     (\<exists>x r' s'. m r s = Some (x, r', s') \<and> rec_inv base f0 r' s' \<and> r_pool r' = r_pool r \<and> r_cb r' = r_cb r \<and>
        fresh s \<le> fresh s' \<and> (\<forall>c. c \<noteq> r_cb r \<longrightarrow> cmds s' c = cmds s c)))"

lemma keepsI:
  assumes "\<And>base f0 r s. rec_inv base f0 r s \<Longrightarrow>
     \<exists>x r' s'. m r s = Some (x, r', s') \<and> rec_inv base f0 r' s' \<and> r_pool r' = r_pool r \<and> r_cb r' = r_cb r \<and>
        fresh s \<le> fresh s' \<and> (\<forall>c. c \<noteq> r_cb r \<longrightarrow> cmds s' c = cmds s c)"
  shows "keeps m"
  unfolding keeps_def using assms by blast

lemma keepsE:
  assumes "keeps m" "rec_inv base f0 r s"
  obtains x r' s' where "m r s = Some (x, r', s')" "rec_inv base f0 r' s'" "r_pool r' = r_pool r" "r_cb r' = r_cb r"
    "fresh s \<le> fresh s'" "\<And>c. c \<noteq> r_cb r \<Longrightarrow> cmds s' c = cmds s c"
  using assms unfolding keeps_def by blast

lemma keeps_bind [intro]:
  assumes "keeps m" "\<And>x. keeps (f x)"
  shows "keeps (rec_bind m f)"
proof (rule keepsI)
  fix base f0 r s assume inv: "rec_inv base f0 r s"
  obtain x r1 s1 where m: "m r s = Some (x, r1, s1)" "rec_inv base f0 r1 s1" "r_pool r1 = r_pool r" "r_cb r1 = r_cb r"
    "fresh s \<le> fresh s1" "\<And>c. c \<noteq> r_cb r \<Longrightarrow> cmds s1 c = cmds s c"
    by (rule keepsE [OF assms(1) inv]) blast
  show "\<exists>x r' s'. rec_bind m f r s = Some (x, r', s') \<and> rec_inv base f0 r' s' \<and> r_pool r' = r_pool r \<and> r_cb r' = r_cb r \<and>
        fresh s \<le> fresh s' \<and> (\<forall>c. c \<noteq> r_cb r \<longrightarrow> cmds s' c = cmds s c)"
  proof (cases x)
    case (Inl e)
    then show ?thesis using m by (auto simp: rec_bind_def)
  next
    case (Inr v)
    obtain y r2 s2 where "f v r1 s1 = Some (y, r2, s2)" "rec_inv base f0 r2 s2" "r_pool r2 = r_pool r1" "r_cb r2 = r_cb r1"
      "fresh s1 \<le> fresh s2" "\<And>c. c \<noteq> r_cb r1 \<Longrightarrow> cmds s2 c = cmds s1 c"
      by (rule keepsE [OF assms(2) m(2)]) blast
    then show ?thesis using m Inr by (auto simp: rec_bind_def)
  qed
qed

lemma rec_inv_cmds [simp]:
  "rec_inv base f0 r (s\<lparr>cmds := c\<rparr>) = rec_inv base f0 r s"
  "rec_inv base f0 r (s\<lparr>set_writes := w\<rparr>) = rec_inv base f0 r s"
  "rec_inv base f0 r (s\<lparr>calls := n\<rparr>) = rec_inv base f0 r s"
  by (simp_all add: rec_inv_def arena_inv_def vk_ok_alt)

lemma rec_inv_recorder [simp]:
  "rec_inv base f0 (r\<lparr>r_prof := p\<rparr>) s = rec_inv base f0 r s"
  "rec_inv base f0 (r\<lparr>r_keep := k\<rparr>) s = rec_inv base f0 r s"
  "rec_inv base f0 (r\<lparr>r_dispatched := n\<rparr>) s = rec_inv base f0 r s"
  by (simp_all add: rec_inv_def)

lemma keeps_cmds [intro, simp]: "keeps (rec_cmds cs)"
  by (rule keepsI) (simp add: rec_cmds_def)

lemma keeps_return [intro, simp]: "keeps (rec_return x)"
  by (rule keepsI) (simp add: rec_return_def)

lemma keeps_read: "(\<And>r. keeps (f r)) \<Longrightarrow> keeps (\<lambda>r. f r r)"
  unfolding keeps_def by blast

lemma keeps_mark [intro, simp]: "keeps (mark label)"
  by (rule keepsI)
     (auto simp: mark_def rec_bind_def timestamp_def rec_cmds_def Let_def split: option.splits)

lemma keeps_in_arena [intro, simp]: "keeps (in_arena (arena_allocate layout))"
proof (rule keepsI)
  fix base f0 r s assume inv: "rec_inv base f0 r s"
  then obtain a where a: "r_arena r = Some a" "arena_inv (insert (VkCommandPool, r_pool r) base) a s"
    by (auto simp: rec_inv_def)
  show "\<exists>x r' s'. in_arena (arena_allocate layout) r s = Some (x, r', s') \<and> rec_inv base f0 r' s' \<and>
      r_pool r' = r_pool r \<and> r_cb r' = r_cb r \<and> fresh s \<le> fresh s' \<and> (\<forall>c. c \<noteq> r_cb r \<longrightarrow> cmds s' c = cmds s c)"
    by (rule arena_allocate_ok [OF a(2), of layout]) (use inv a(1) in \<open>auto simp: in_arena_def rec_inv_def\<close>)
qed

lemma keeps_record_dispatch [intro, simp]: "keeps (record_dispatch d k ws push groups b)"
proof -
  have w: "keeps (\<lambda>r s. Some (Inr (), r\<lparr>r_keep := r_keep r @ kp\<rparr>, write_set ds ws s))" for kp ds
    by (rule keepsI) (simp add: write_set_def)
  have c: "keeps (\<lambda>r s. Some (Inr (), r\<lparr>r_dispatched := Suc (r_dispatched r)\<rparr>, s))"
    by (rule keepsI) simp
  have p: "keeps (\<lambda>r. case r_prof r of Some p \<Rightarrow> if pf_auto p then mark (k_name k) r else rec_return () r | None \<Rightarrow> rec_return () r)"
  proof -
    have "keeps (\<lambda>r'. case r_prof r of Some p \<Rightarrow> if pf_auto p then mark (k_name k) r' else rec_return () r' | None \<Rightarrow> rec_return () r')" for r
      by (cases "r_prof r"; cases "pf_auto (the (r_prof r))") simp_all
    from keeps_read [OF this] show ?thesis .
  qed
  have b: "keeps (\<lambda>r. rec_cmds (if b \<and> r_dispatched r > 0 then [Barrier] else []) r)"
    by (rule keeps_read) simp
  show ?thesis
    unfolding record_dispatch_def by (intro keeps_bind keeps_in_arena w b c p keeps_cmds)
qed

lemma keeps_run_op: "keeps (run_op d op)"
  by (cases op) (auto simp: dispatch_def dispatch_overlapping_def barrier_def intro: keepsI)

lemma keeps_run_ops: "keeps (run_ops d ops)"
  by (induction ops) (auto intro: keeps_run_op)

lemma keeps_profiled: "keeps m \<Longrightarrow> keeps (profiled_body t auto m)"
  unfolding profiled_body_def reset_timer_def timestamp_def
  by (intro keeps_bind keeps_cmds) (auto intro!: keepsI)

lemma begin_recorder_Inr:
  assumes "begin_recorder one_time s = (Inr r, t)" "vk_ok s" "\<forall>p \<ge> fresh s. pool_sets s p = 0"
  shows "rec_inv (live s) (faults s) r t" "r_cb r = Suc (fresh s)" "cmds t = (cmds s)(r_cb r := [])" "r_dispatched r = 0"
    "r_keep r = []" "r_prof r = None" "set_writes t = set_writes s" "fresh t = Suc (Suc (fresh s))"
proof -
  have f: "(VkCommandPool, fresh s) \<notin> live s" using vk_ok_fresh [OF assms(2)] by simp
  have r: "r_arena r = Some arena_new" "r_pool r = fresh s" "\<not> r_finished r" "faults t = faults s"
    "live t = insert (VkCommandPool, fresh s) (live s)" "pool_sets t = pool_sets s"
    and more: "r_cb r = Suc (fresh s)" "cmds t = (cmds s)(r_cb r := [])" "r_dispatched r = 0"
    "r_keep r = []" "r_prof r = None" "set_writes t = set_writes s" "fresh t = Suc (Suc (fresh s))"
    using assms(1)
    by (auto simp: begin_recorder_def g_bind_def vk_create_eq vk_call_eq g_cleanup_eq new_handle_def split: option.splits)
  have "arena_inv (insert (VkCommandPool, r_pool r) (live s)) arena_new t"
    using r more(7) assms(2,3) by (auto simp: arena_inv_def arena_new_def pool_objs_def vk_ok_alt less_Suc_eq)
  then show "rec_inv (live s) (faults s) r t" using r more f by (auto simp: rec_inv_def)
  show "r_cb r = Suc (fresh s)" "cmds t = (cmds s)(r_cb r := [])" "r_dispatched r = 0"
    "r_keep r = []" "r_prof r = None" "set_writes t = set_writes s" "fresh t = Suc (Suc (fresh s))"
    by (fact more)+
qed

lemma begin_recorder_Inl:
  assumes "begin_recorder one_time s = (Inl e, t)" "vk_ok s"
  shows "live t = live s" "faults t = faults s"
  using assms vk_ok_fresh [OF assms(2), of "fresh s"]
  by (auto simp: begin_recorder_def g_bind_def vk_create_eq vk_call_eq g_cleanup_eq new_handle_def split: option.splits)

lemma finish_recorder_ok:
  assumes "rec_inv base f0 r s"
  obtains e t where "finish_recorder r s = Some (Inl e, t)" "live t = base" "faults t = f0"
  | g labels t where "finish_recorder r s = Some (Inr (g, labels), t)" "live (drop_graph g t) = base" "faults (drop_graph g t) = f0"
      "g_cb g = r_cb r" "g_keep g = r_keep r" "cmds t = cmds s" "set_writes t = set_writes s"
      "labels = (case r_prof r of Some p \<Rightarrow> pf_labels p | None \<Rightarrow> [])" "r_arena r = Some (g_arena g)" "pool_sets t = pool_sets s"
proof (cases "driver s (calls s)")
  case (Some e)
  let ?s = "s\<lparr>calls := Suc (calls s)\<rparr>"
  have "rec_inv base f0 (r\<lparr>r_prof := None\<rparr>) ?s"
    using assms by simp
  from rec_inv_drop [OF this] show ?thesis
    by (intro that(1) [of "Vk ''end_command_buffer'' e" "drop_recorder (r\<lparr>r_prof := None\<rparr>) ?s"])
       (use Some in \<open>simp_all add: finish_recorder_def vk_call_eq Let_def\<close>)
next
  case None
  let ?s = "s\<lparr>calls := Suc (calls s)\<rparr>"
  obtain a where a: "r_arena r = Some a" "arena_inv (insert (VkCommandPool, r_pool r) base) a s"
    using assms by (auto simp: rec_inv_def)
  let ?g = "\<lparr>g_pool = r_pool r, g_cb = r_cb r, g_arena = a, g_keep = r_keep r\<rparr>"
  have "(VkCommandPool, r_pool r) \<in> live s" using a(2) by (auto simp: arena_inv_def)
  then have d: "vk_destroy VkCommandPool (r_pool r) ?s = ?s\<lparr>live := live s - {(VkCommandPool, r_pool r)}\<rparr>" by simp
  have l: "live s - {(VkCommandPool, r_pool r)} = base \<union> pool_objs (a_pools a)"
    using a(2) assms by (auto simp: arena_inv_def pool_objs_def rec_inv_def)
  have dj: "base \<inter> pool_objs (a_pools a) = {}" "distinct (a_pools a)" using a(2) by (auto simp: arena_inv_def)
  have dr: "live (drop_graph ?g ?s) = base" "faults (drop_graph ?g ?s) = f0"
    using drop_pools [of "?s\<lparr>live := live s - {(VkCommandPool, r_pool r)}\<rparr>" base "a_pools a"] l dj assms
    by (auto simp: drop_graph_def drop_arena_def d rec_inv_def)
  show ?thesis
    by (rule that(2) [of ?g "case r_prof r of Some p \<Rightarrow> pf_labels p | None \<Rightarrow> []" ?s])
       (use None a(1) dr in \<open>simp_all add: finish_recorder_def vk_call_eq Let_def drop_recorder_def\<close>)
qed

text \<open>The whole recording, for any closure that keeps the invariant.\<close>

lemma record_inner_resources:
  assumes "vk_ok s" "\<forall>p \<ge> fresh s. pool_sets s p = 0" "keeps body"
  obtains e t where "record_inner body s = Some (Inl e, t)" "live t = live s" "faults t = faults s"
  | r0 t0 r1 t1 g labels t where "begin_recorder False s = (Inr r0, t0)" "body r0 t0 = Some (Inr (), r1, t1)"
      "finish_recorder r1 t1 = Some (Inr (g, labels), t)" "record_inner body s = Some (Inr (g, labels), t)"
      "rec_inv (live s) (faults s) r1 t1" "r_cb r1 = r_cb r0"
proof (cases "begin_recorder False s")
  case (Pair x t0)
  show ?thesis
  proof (cases x)
    case (Inl e)
    then show ?thesis
      using that(1) [of e t0] begin_recorder_Inl [OF Pair [unfolded Inl] assms(1)] Pair by (simp add: record_inner_def)
  next
    case (Inr r0)
    note bg = begin_recorder_Inr [OF Pair [unfolded Inr] assms(1,2)]
    obtain y r1 t1 where b: "body r0 t0 = Some (y, r1, t1)" "rec_inv (live s) (faults s) r1 t1" "r_cb r1 = r_cb r0"
      by (rule keepsE [OF assms(3) bg(1)]) blast
    show ?thesis
    proof (cases y)
      case (Inl e)
      then show ?thesis
        using that(1) [of e "drop_recorder r1 t1"] rec_inv_drop [OF b(2)] b(1) Pair Inr by (simp add: record_inner_def)
    next
      case y: (Inr u)
      have eq: "record_inner body s = finish_recorder r1 t1"
        using b(1) Pair Inr y by (simp add: record_inner_def)
      show ?thesis
      proof (rule finish_recorder_ok [OF b(2)])
        fix e t assume "finish_recorder r1 t1 = Some (Inl e, t)" "live t = live s" "faults t = faults s"
        then show thesis using that(1) [of e t] eq by simp
      next
        fix g labels t assume "finish_recorder r1 t1 = Some (Inr (g, labels), t)"
        then show thesis using that(2) [OF Pair [unfolded Inr] _ _ _ b(2,3)] b(1) y eq by simp
      qed
    qed
  qed
qed

subsection \<open>The commands of a recording\<close>

fun ops_cmds :: "device_ctx \<Rightarrow> nat \<Rightarrow> rec_op list \<Rightarrow> nat list \<Rightarrow> cmd list" where
  "ops_cmds d n (OpDispatch k ws push groups # ops) (x # xs) =
     (if n > 0 then [Barrier] else []) @ dispatch_cmds d k x push groups @ ops_cmds d (Suc n) ops xs"
| "ops_cmds d n (OpOverlapping k ws push groups # ops) (x # xs) =
     dispatch_cmds d k x push groups @ ops_cmds d (Suc n) ops xs"
| "ops_cmds d n (OpBarrier # ops) xs = Barrier # ops_cmds d n ops xs"
| "ops_cmds d n ops xs = []"

fun op_writes :: "rec_op \<Rightarrow> binding list list" where
  "op_writes (OpDispatch k ws push groups) = [ws]"
| "op_writes (OpOverlapping k ws push groups) = [ws]"
| "op_writes op = []"

definition ops_writes :: "rec_op list \<Rightarrow> binding list list" where
  "ops_writes ops = concat (map op_writes ops)"

definition set_holds :: "vk \<Rightarrow> nat \<Rightarrow> binding list \<Rightarrow> bool" where
  "set_holds s x ws \<longleftrightarrow> set_writes s x = map (\<lambda>w. (bd_binding w, b_buffer (bd_keep w), bd_offset w, bd_range w)) ws"

text \<open>One dispatch outside a profiled recording.\<close>

lemma record_dispatch_ok:
  assumes "rec_inv base f0 r s" "r_prof r = None"
    "record_dispatch d k ws push groups b r s = Some (Inr (), r', s')"
  obtains x where "cmds s' (r_cb r) = cmds s (r_cb r) @ (if b \<and> r_dispatched r > 0 then [Barrier] else []) @ dispatch_cmds d k x push groups"
    "r_dispatched r' = Suc (r_dispatched r)" "r_keep r' = r_keep r @ map bd_keep ws" "r_prof r' = None"
    "fresh s \<le> x" "x < fresh s'" "set_holds s' x ws" "\<And>y. y \<noteq> x \<Longrightarrow> set_writes s' y = set_writes s y"
proof -
  obtain a where a: "r_arena r = Some a" "arena_inv (insert (VkCommandPool, r_pool r) base) a s"
    using assms(1) by (auto simp: rec_inv_def)
  obtain y a1 s1 where al: "arena_allocate (k_set_layout k) a s = Some (y, a1, s1)" "cmds s1 = cmds s"
    "set_writes s1 = set_writes s" "\<forall>h. y = Inr h \<longrightarrow> fresh s \<le> h \<and> h < fresh s1"
    by (rule arena_allocate_ok [OF a(2)]) blast
  obtain x where x: "y = Inr x"
    using assms(3) al(1) a(1) by (cases y) (auto simp: record_dispatch_def rec_bind_def in_arena_def)
  show ?thesis
    by (rule that [of x])
       (use assms(2,3) al a(1) x in \<open>auto simp: record_dispatch_def rec_bind_def in_arena_def rec_cmds_def write_set_def
          set_holds_def rec_return_def\<close>)
qed

definition ran :: "device_ctx \<Rightarrow> nat \<Rightarrow> rec_op list \<Rightarrow> recorder \<Rightarrow> vk \<Rightarrow> recorder \<Rightarrow> vk \<Rightarrow> nat list \<Rightarrow> bool" where
  "ran d n ops r s r' s' xs \<longleftrightarrow>
     cmds s' (r_cb r) = cmds s (r_cb r) @ ops_cmds d n ops xs \<and>
     length xs = length (ops_writes ops) \<and> distinct xs \<and> set xs \<subseteq> {fresh s..<fresh s'} \<and>
     list_all2 (set_holds s') xs (ops_writes ops) \<and> r_keep r' = r_keep r @ map bd_keep (concat (ops_writes ops)) \<and>
     (\<forall>y. y \<notin> set xs \<longrightarrow> set_writes s' y = set_writes s y) \<and> r_prof r' = None"

lemma ran_dispatch:
  assumes "run_op d op r s = Some (Inr (), r1, s1)" "op_writes op = [ws]" "rec_inv base f0 r s" "r_prof r = None"
    "run_op d op = record_dispatch d k ws push groups b" "r_cb r1 = r_cb r" "fresh s1 \<le> fresh s'"
    "\<And>xs. ran d (Suc (r_dispatched r)) ops r1 s1 r' s' xs \<Longrightarrow> r_dispatched r1 = Suc (r_dispatched r) \<Longrightarrow> True"
    "r_dispatched r1 = Suc (r_dispatched r) \<Longrightarrow> r_prof r1 = None \<Longrightarrow> \<exists>xs. ran d (r_dispatched r1) ops r1 s1 r' s' xs"
    "\<And>x xs. ops_cmds d (r_dispatched r) (op # ops) (x # xs) =
       (if b \<and> r_dispatched r > 0 then [Barrier] else []) @ dispatch_cmds d k x push groups @ ops_cmds d (Suc (r_dispatched r)) ops xs"
  shows "\<exists>xs. ran d (r_dispatched r) (op # ops) r s r' s' xs"
proof -
  have run: "record_dispatch d k ws push groups b r s = Some (Inr (), r1, s1)" using assms(1,5) by simp
  obtain x where x: "cmds s1 (r_cb r) = cmds s (r_cb r) @ (if b \<and> r_dispatched r > 0 then [Barrier] else []) @ dispatch_cmds d k x push groups"
    "r_dispatched r1 = Suc (r_dispatched r)" "r_keep r1 = r_keep r @ map bd_keep ws" "r_prof r1 = None"
    "fresh s \<le> x" "x < fresh s1" "set_holds s1 x ws" "\<And>y. y \<noteq> x \<Longrightarrow> set_writes s1 y = set_writes s y"
    by (rule record_dispatch_ok [OF assms(3,4) run]) blast
  obtain xs where xs: "ran d (r_dispatched r1) ops r1 s1 r' s' xs" using assms(9) [OF x(2,4)] by blast
  have nx: "x \<notin> set xs" using xs x(6) by (auto simp: ran_def)
  have h: "set_holds s' x ws" using x(7) xs nx by (simp add: ran_def set_holds_def)
  have "ran d (r_dispatched r) (op # ops) r s r' s' (x # xs)"
    unfolding ran_def
  proof (intro conjI)
    show "cmds s' (r_cb r) = cmds s (r_cb r) @ ops_cmds d (r_dispatched r) (op # ops) (x # xs)"
      unfolding assms(10) using xs x(1,2) assms(6) by (simp add: ran_def)
    show "set (x # xs) \<subseteq> {fresh s..<fresh s'}"
      using xs x(5,6) assms(7) by (fastforce simp: ran_def)
    show "\<forall>y. y \<notin> set (x # xs) \<longrightarrow> set_writes s' y = set_writes s y"
      using xs x(8) by (auto simp: ran_def)
  qed (use xs nx h x(3,4) assms(2) in \<open>auto simp: ran_def ops_writes_def\<close>)
  then show ?thesis by blast
qed

lemma run_ops_ran:
  assumes "rec_inv base f0 r s" "r_prof r = None" "run_ops d ops r s = Some (Inr (), r', s')"
  shows "\<exists>xs. ran d (r_dispatched r) ops r s r' s' xs"
  using assms
proof (induction ops arbitrary: r s)
  case Nil
  then show ?case by (auto simp: ran_def rec_return_def ops_writes_def)
next
  case (Cons op ops)
  obtain y r1 s1 where o: "run_op d op r s = Some (y, r1, s1)" "rec_inv base f0 r1 s1" "r_cb r1 = r_cb r"
    by (rule keepsE [OF keeps_run_op Cons.prems(1), of d op]) blast
  have y: "y = Inr ()" and rest: "run_ops d ops r1 s1 = Some (Inr (), r', s')"
    using Cons.prems(3) o(1) by (auto simp: rec_bind_def split: sum.splits)
  obtain z r2 s2 where "run_ops d ops r1 s1 = Some (z, r2, s2)" "fresh s1 \<le> fresh s2"
    by (rule keepsE [OF keeps_run_ops o(2), of d ops]) blast
  then have fr: "fresh s1 \<le> fresh s'" using rest by simp
  have ih: "r_prof r1 = None \<Longrightarrow> \<exists>xs. ran d (r_dispatched r1) ops r1 s1 r' s' xs"
    by (rule Cons.IH [OF o(2) _ rest])
  note o1 = o(1) [unfolded y]
  show ?case
  proof (cases op)
    case (OpDispatch k ws push groups)
    show ?thesis
      by (rule ran_dispatch [where k = k and ws = ws and push = push and groups = groups and b = True,
            OF o1 _ Cons.prems(1,2) _ o(3) fr]) (use OpDispatch ih in \<open>auto simp: dispatch_def\<close>)
  next
    case (OpOverlapping k ws push groups)
    show ?thesis
      by (rule ran_dispatch [where k = k and ws = ws and push = push and groups = groups and b = False,
            OF o1 _ Cons.prems(1,2) _ o(3) fr]) (use OpOverlapping ih in \<open>auto simp: dispatch_overlapping_def\<close>)
  next
    case OpBarrier
    then have r1: "r1 = r" "s1 = s\<lparr>cmds := (cmds s)(r_cb r := cmds s (r_cb r) @ [Barrier])\<rparr>"
      using o1 by (auto simp: barrier_def rec_cmds_def)
    then obtain xs where "ran d (r_dispatched r) ops r s1 r' s' xs" using ih Cons.prems(2) by auto
    then have "ran d (r_dispatched r) (op # ops) r s r' s' xs"
      unfolding OpBarrier r1 by (simp add: ran_def ops_writes_def)
    then show ?thesis by blast
  next
    case (OpMark l)
    then show ?thesis using o1 Cons.prems(2) by (simp add: mark_def)
  next
    case (OpFail e)
    then show ?thesis using o1 by simp
  qed
qed

subsection \<open>Properties\<close>

text \<open>A command list in which every dispatch comes after a barrier since the one before it.\<close>

fun ordered_cmds :: "bool \<Rightarrow> cmd list \<Rightarrow> bool" where
  "ordered_cmds dirty [] = True"
| "ordered_cmds dirty (Dispatch g # cs) = (\<not> dirty \<and> ordered_cmds True cs)"
| "ordered_cmds dirty (Barrier # cs) = ordered_cmds False cs"
| "ordered_cmds dirty (_ # cs) = ordered_cmds dirty cs"

lemma ordered_dispatch:
  "ordered_cmds dirty (dispatch_cmds d k x push groups @ cs) \<longleftrightarrow> \<not> dirty \<and> ordered_cmds True cs"
  by (simp add: dispatch_cmds_def split: option.split)

definition plain_op :: "rec_op \<Rightarrow> bool" where
  "plain_op op = (case op of OpOverlapping _ _ _ _ \<Rightarrow> False | _ \<Rightarrow> True)"

lemma ordered_ops:
  "list_all plain_op ops \<Longrightarrow> (dirty \<longrightarrow> 0 < n) \<Longrightarrow> ordered_cmds dirty (ops_cmds d n ops xs)"
  by (induction d n ops xs arbitrary: dirty rule: ops_cmds.induct) (auto simp: ordered_dispatch plain_op_def)

definition recordable :: "vk \<Rightarrow> bool" where
  "recordable s \<longleftrightarrow> vk_ok s \<and> (\<forall>p \<ge> fresh s. pool_sets s p = 0)"

lemma record_graph_ok:
  assumes "recordable s" "record_graph (run_ops d ops) s = Some (Inr g, t)"
  shows "\<exists>xs. cmds t (g_cb g) = ops_cmds d 0 ops xs \<and> distinct xs \<and> list_all2 (set_holds t) xs (ops_writes ops)"
    "g_keep g = map bd_keep (concat (ops_writes ops))" "live (drop_graph g t) = live s" "faults (drop_graph g t) = faults s"
    "\<forall>p \<in> set (a_pools (g_arena g)). pool_sets t p \<le> SETS_PER_POOL"
proof -
  obtain y where y: "record_inner (run_ops d ops) s = Some (y, t)" "map_sum id fst y = Inr g"
    using assms(2) by (auto simp: record_graph_def)
  then obtain labels where ri: "record_inner (run_ops d ops) s = Some (Inr (g, labels), t)"
    by (cases y) auto
  have s: "vk_ok s" "\<forall>p \<ge> fresh s. pool_sets s p = 0" using assms(1) by (auto simp: recordable_def)
  obtain r0 t0 r1 t1 where r: "begin_recorder False s = (Inr r0, t0)" "run_ops d ops r0 t0 = Some (Inr (), r1, t1)"
    "finish_recorder r1 t1 = Some (Inr (g, labels), t)" "rec_inv (live s) (faults s) r1 t1" "r_cb r1 = r_cb r0"
    by (rule record_inner_resources [OF s keeps_run_ops, of d ops]) (use ri in auto)
  note bg = begin_recorder_Inr [OF r(1) s]
  obtain xs where xs: "ran d (r_dispatched r0) ops r0 t0 r1 t1 xs"
    using run_ops_ran [OF bg(1) bg(6) r(2)] by blast
  have f: "live (drop_graph g t) = live s" "faults (drop_graph g t) = faults s" "g_cb g = r_cb r1" "g_keep g = r_keep r1"
    "cmds t = cmds t1" "set_writes t = set_writes t1" "r_arena r1 = Some (g_arena g)" "pool_sets t = pool_sets t1"
    by (rule finish_recorder_ok [OF r(4)]; use r(3) in simp)+
  show "live (drop_graph g t) = live s" "faults (drop_graph g t) = faults s" using f by blast+
  show "g_keep g = map bd_keep (concat (ops_writes ops))" using xs f(4) bg(5) by (simp add: ran_def)
  have "set_holds t = set_holds t1" by (intro ext) (simp add: set_holds_def f(6))
  then have "cmds t (g_cb g) = ops_cmds d 0 ops xs" "distinct xs" "list_all2 (set_holds t) xs (ops_writes ops)"
    using xs bg(3,4) f(3,5) r(5) by (simp_all add: ran_def)
  then show "\<exists>xs. cmds t (g_cb g) = ops_cmds d 0 ops xs \<and> distinct xs \<and> list_all2 (set_holds t) xs (ops_writes ops)"
    by blast
  show "\<forall>p \<in> set (a_pools (g_arena g)). pool_sets t p \<le> SETS_PER_POOL"
    using r(4) f(7,8) by (auto simp: rec_inv_def arena_inv_def)
qed

definition sample_kernel :: kernel where
  "sample_kernel = \<lparr>k_name = ''geglu'', k_workgroup = [256, 1, 1], k_pipeline = 100, k_pipeline_layout = 101,
     k_set_layout = 102, k_shader = 103\<rparr>"

definition sample_ops :: "rec_op list" where
  "sample_ops =
     [OpDispatch sample_kernel [bind_buffer pod_u32 0 sample_buf] None [1, 1, 1],
      OpDispatch sample_kernel [bind_buffer pod_u32 0 sample_view] (Some [7]) [2, 1, 1]]"

abbreviation quiet :: vk where "quiet \<equiv> vk_init (\<lambda>_. None)"

lemma recordable_quiet: "recordable quiet"
  by (simp add: recordable_def) (simp add: vk_init_def)

lemmas run_simps = record_inner_def begin_recorder_def g_bind_def vk_create_eq vk_call_eq g_cleanup_eq
  new_handle_def rec_bind_def record_dispatch_def dispatch_def in_arena_def arena_allocate_def add_pool_def alloc_set_def
  arena_new_def rec_cmds_def rec_return_def write_set_def finish_recorder_def profiled_body_def reset_timer_def
  timestamp_def mark_def

lemma sample_recording: "\<exists>g t. record_graph (run_ops sample_ctx sample_ops) quiet = Some (Inr g, t)"
  unfolding sample_ops_def record_graph_def by (simp add: run_simps vk_init_def SETS_PER_POOL_def)

text \<open>
  C35: What a recorded graph executes. For every program of dispatches and barriers, the command
  buffer of the graph is exactly the program's dispatches in order, each binding its kernel and a
  descriptor set of its own that holds its bindings; if no dispatch is marked as overlapping, a
  barrier separates every dispatch from the one before. Every bound buffer is kept alive by the
  graph, and no descriptor pool gives out more sets than it was created for.
\<close>

theorem recorded_graph_runs_program:
  assumes "recordable s" "record_graph (run_ops d ops) s = Some (Inr g, t)"
  shows "(\<exists>xs. cmds t (g_cb g) = ops_cmds d 0 ops xs \<and> distinct xs \<and> list_all2 (set_holds t) xs (ops_writes ops)) \<and>
    (list_all plain_op ops \<longrightarrow> ordered_cmds False (cmds t (g_cb g))) \<and>
    g_keep g = map bd_keep (concat (ops_writes ops)) \<and>
    (\<forall>p \<in> set (a_pools (g_arena g)). pool_sets t p \<le> SETS_PER_POOL)"
  using record_graph_ok [OF assms] ordered_ops [of ops False 0 d] by auto

theorem recorded_graph_runs_program_witness:
  "\<exists>g t. record_graph (run_ops sample_ctx sample_ops) quiet = Some (Inr g, t) \<and> ordered_cmds False (cmds t (g_cb g))"
proof -
  have "list_all plain_op sample_ops" by (simp add: sample_ops_def plain_op_def)
  then show ?thesis
    using sample_recording recorded_graph_runs_program [OF recordable_quiet, of sample_ctx sample_ops] by blast
qed

text \<open>
  C36: No recording leaks. Whatever the closure does and whichever driver call fails, a failed
  recording, profiled or not, leaves exactly the objects there were, a finished one is given back
  completely by dropping the graph, nothing is destroyed twice, and no call panics.
\<close>

theorem recording_resources:
  assumes "recordable s" and "body = run_ops d ops \<or> body = profiled_body tm auto (run_ops d ops)"
  shows "case record_inner body s of
      Some (Inl e, t) \<Rightarrow> live t = live s \<and> faults t = faults s
    | Some (Inr (g, labels), t) \<Rightarrow> live (drop_graph g t) = live s \<and> faults (drop_graph g t) = faults s
    | None \<Rightarrow> False"
proof -
  have s: "vk_ok s" "\<forall>p \<ge> fresh s. pool_sets s p = 0" using assms(1) by (auto simp: recordable_def)
  have k: "keeps body" using assms(2) keeps_run_ops keeps_profiled by metis
  show ?thesis
  proof (rule record_inner_resources [OF s k])
    fix e t assume "record_inner body s = Some (Inl e, t)" "live t = live s" "faults t = faults s"
    then show ?thesis by simp
  next
    fix r0 t0 r1 t1 g labels t
    assume r: "finish_recorder r1 t1 = Some (Inr (g, labels), t)" "record_inner body s = Some (Inr (g, labels), t)"
      "rec_inv (live s) (faults s) r1 t1"
    show ?thesis by (rule finish_recorder_ok [OF r(3)]) (use r in auto)
  qed
qed

theorem recording_resources_witness:
  "case record_inner (run_ops sample_ctx (sample_ops @ [OpFail (Validation ''x'')])) quiet of
      Some (Inl e, t) \<Rightarrow> live t = {} \<and> faults t = 0
    | Some (Inr (g, labels), t) \<Rightarrow> live (drop_graph g t) = {} \<and> faults (drop_graph g t) = 0
    | None \<Rightarrow> False"
proof -
  have "live quiet = {}" "faults quiet = 0" by (simp_all add: vk_init_def)
  then show ?thesis
    using recording_resources [OF recordable_quiet disjI1 [OF refl], of sample_ctx "sample_ops @ [OpFail (Validation ''x'')]"]
    by (simp only:)
qed

subsection \<open>Profiled recordings\<close>

fun stamps :: "cmd list \<Rightarrow> (nat \<times> u32) list" where
  "stamps [] = []"
| "stamps (WriteTimestamp p i # cs) = (p, i) # stamps cs"
| "stamps (_ # cs) = stamps cs"

lemma stamps_append [simp]: "stamps (xs @ ys) = stamps xs @ stamps ys"
  by (induction xs rule: stamps.induct) simp_all

lemma stamps_dispatch [simp]: "stamps (dispatch_cmds d k x push groups) = []"
  by (simp add: dispatch_cmds_def split: option.split)

fun op_labels :: "bool \<Rightarrow> rec_op \<Rightarrow> string list" where
  "op_labels auto (OpDispatch k ws push groups) = (if auto then [k_name k] else [])"
| "op_labels auto (OpOverlapping k ws push groups) = (if auto then [k_name k] else [])"
| "op_labels auto (OpMark l) = [l]"
| "op_labels auto op = []"

text \<open>The profile of the recorder and the timestamps already written agree.\<close>

definition prof_inv :: "timer \<Rightarrow> bool \<Rightarrow> string list \<Rightarrow> recorder \<Rightarrow> vk \<Rightarrow> bool" where
  "prof_inv tm auto labels r s \<longleftrightarrow>
     r_prof r = Some \<lparr>pf_timer = tm, pf_labels = labels, pf_auto = auto\<rparr> \<and> length labels < unat (t_count tm) \<and>
     stamps (cmds s (r_cb r)) = map (\<lambda>i. (t_pool tm, of_nat i)) [0..<Suc (length labels)]"

lemma mark_prof:
  assumes "prof_inv tm auto labels r s" "mark l r s = Some (Inr (), r', s')"
  shows "prof_inv tm auto (labels @ [l]) r' s'"
proof -
  have p: "r_prof r = Some \<lparr>pf_timer = tm, pf_labels = labels, pf_auto = auto\<rparr>" "length labels < unat (t_count tm)"
    using assms(1) by (auto simp: prof_inv_def)
  have c: "unat (t_count tm) < 2 ^ 32" by (rule order_less_le_trans [OF unsigned_less]) simp
  have "length labels < 2 ^ 32" using p(2) c by simp
  then have u: "unat (of_nat (length labels) :: u32) = length labels" by (simp add: unat_of_nat)
  have lt: "(of_nat (length labels) :: u32) + 1 < t_count tm"
    using assms(2) p(1) by (auto simp: mark_def Let_def split: if_splits)
  have "length labels + 1 < 2 ^ 32" using p(2) c by simp
  then have "unat ((of_nat (length labels) :: u32) + 1) = Suc (length labels)"
    using u by (simp add: unat_word_ariths)
  then have "Suc (length labels) < unat (t_count tm)" using lt by (simp add: word_less_nat_alt)
  moreover have nle: "\<not> t_count tm \<le> of_nat (length labels) + 1" using lt by simp
  have "r' = r\<lparr>r_prof := Some \<lparr>pf_timer = tm, pf_labels = labels @ [l], pf_auto = auto\<rparr>\<rparr>"
    "s' = s\<lparr>cmds := (cmds s)(r_cb r := cmds s (r_cb r) @ [WriteTimestamp (t_pool tm) (of_nat (length labels) + 1)])\<rparr>"
    using assms(2) p(1) nle by (simp_all add: mark_def Let_def rec_bind_def timestamp_def rec_cmds_def)
  ultimately show ?thesis
    using assms(1) by (simp add: prof_inv_def add.commute)
qed

lemma record_dispatch_split:
  assumes "record_dispatch d k ws push groups b r s = Some (Inr (), r', s')" "rec_inv base f0 r s"
  obtains r1 s1 where "r_prof r1 = r_prof r" "r_cb r1 = r_cb r" "stamps (cmds s1 (r_cb r)) = stamps (cmds s (r_cb r))"
    "(case r_prof r of Some p \<Rightarrow> if pf_auto p then mark (k_name k) r1 else rec_return () r1 | None \<Rightarrow> rec_return () r1) s1 =
       Some (Inr (), r', s')"
proof -
  obtain a where a: "r_arena r = Some a" "arena_inv (insert (VkCommandPool, r_pool r) base) a s"
    using assms(2) by (auto simp: rec_inv_def)
  obtain y a1 s1 where al: "arena_allocate (k_set_layout k) a s = Some (y, a1, s1)" "cmds s1 = cmds s"
    by (rule arena_allocate_ok [OF a(2)]) blast
  obtain x where x: "y = Inr x"
    using assms(1) al(1) a(1) by (cases y) (auto simp: record_dispatch_def rec_bind_def in_arena_def)
  define bs where "bs = (if b \<and> r_dispatched r > 0 then [Barrier] else [])"
  have sb: "stamps bs = []" by (simp add: bs_def)
  let ?r = "r\<lparr>r_arena := Some a1, r_keep := r_keep r @ map bd_keep ws, r_dispatched := Suc (r_dispatched r)\<rparr>"
  let ?s = "(write_set x ws s1)\<lparr>cmds := (cmds s1)(r_cb r := cmds s1 (r_cb r) @ bs @ dispatch_cmds d k x push groups)\<rparr>"
  show ?thesis
    by (rule that [of ?r ?s])
       (use assms(1) al a(1) x sb in \<open>simp_all add: record_dispatch_def rec_bind_def in_arena_def rec_cmds_def write_set_def
          flip: bs_def cong del: option.case_cong_weak if_weak_cong\<close>)
qed

lemma run_op_prof:
  assumes "prof_inv tm auto labels r s" "rec_inv base f0 r s" "run_op d op r s = Some (Inr (), r', s')"
  shows "prof_inv tm auto (labels @ op_labels auto op) r' s'"
proof -
  have disp: "prof_inv tm auto (labels @ (if auto then [k_name k] else [])) r' s'"
    if run: "record_dispatch d k ws push groups b r s = Some (Inr (), r', s')" for k ws push groups b
  proof -
    obtain r1 s1 where r1: "r_prof r1 = r_prof r" "r_cb r1 = r_cb r" "stamps (cmds s1 (r_cb r)) = stamps (cmds s (r_cb r))"
      "(case r_prof r of Some p \<Rightarrow> if pf_auto p then mark (k_name k) r1 else rec_return () r1 | None \<Rightarrow> rec_return () r1) s1 =
         Some (Inr (), r', s')"
      by (rule record_dispatch_split [OF run assms(2)])
    have inv: "prof_inv tm auto labels r1 s1" using assms(1) r1 by (simp add: prof_inv_def)
    show ?thesis
    proof (cases auto)
      case True
      then have "mark (k_name k) r1 s1 = Some (Inr (), r', s')" using r1(4) assms(1) by (simp add: prof_inv_def)
      then show ?thesis using mark_prof [OF inv] True by simp
    next
      case False
      then show ?thesis using r1(4) assms(1) inv by (simp add: prof_inv_def rec_return_def)
    qed
  qed
  show ?thesis
  proof (cases op)
    case (OpMark l)
    then show ?thesis using mark_prof [OF assms(1)] assms(3) by simp
  next
    case OpBarrier
    then show ?thesis using assms(1,3) by (auto simp: barrier_def rec_cmds_def prof_inv_def)
  qed (use assms(3) disp in \<open>auto simp: dispatch_def dispatch_overlapping_def\<close>)
qed

lemma run_ops_prof:
  "prof_inv tm auto labels r s \<Longrightarrow> rec_inv base f0 r s \<Longrightarrow> run_ops d ops r s = Some (Inr (), r', s') \<Longrightarrow>
   prof_inv tm auto (labels @ concat (map (op_labels auto) ops)) r' s'"
proof (induction ops arbitrary: r s labels)
  case Nil
  then show ?case by (simp add: rec_return_def)
next
  case (Cons op ops)
  obtain y r1 s1 where o: "run_op d op r s = Some (y, r1, s1)" "rec_inv base f0 r1 s1"
    by (rule keepsE [OF keeps_run_op Cons.prems(2), of d op]) blast
  have y: "y = Inr ()" and rest: "run_ops d ops r1 s1 = Some (Inr (), r', s')"
    using Cons.prems(3) o(1) by (auto simp: rec_bind_def split: sum.splits)
  show ?case
    using Cons.IH [OF run_op_prof [OF Cons.prems(1,2) o(1) [unfolded y]] o(2) rest] by simp
qed

text \<open>
  C37: The labels of a profiled recording. If the timer has at least one query, a finished recording
  writes the timestamps 0, 1, ..., n of the timer in this order, one more than it has labels, all
  of them queries the pool has, and the labels are, in order, the kernels of the dispatches (when
  every dispatch is stamped) and the explicit marks: interval \<open>i\<close> is the work before label \<open>i\<close>.
\<close>

theorem profiled_labels:
  assumes "recordable s" "0 < t_count tm"
    and "record_profiled_inner tm auto (run_ops d ops) s = Some (Inr (g, labels), t)"
  shows "stamps (cmds t (g_cb g)) = map (\<lambda>i. (t_pool tm, of_nat i)) [0..<Suc (length labels)] \<and>
    length labels < unat (t_count tm) \<and> labels = concat (map (op_labels auto) ops)"
proof -
  have s: "vk_ok s" "\<forall>p \<ge> fresh s. pool_sets s p = 0" using assms(1) by (auto simp: recordable_def)
  obtain r0 t0 r1 t1 where r: "begin_recorder False s = (Inr r0, t0)" "profiled_body tm auto (run_ops d ops) r0 t0 = Some (Inr (), r1, t1)"
    "finish_recorder r1 t1 = Some (Inr (g, labels), t)" "rec_inv (live s) (faults s) r1 t1" "r_cb r1 = r_cb r0"
    by (rule record_inner_resources [OF s keeps_profiled [OF keeps_run_ops], of tm auto d ops])
       (use assms(3) in \<open>auto simp: record_profiled_inner_def\<close>)
  note bg = begin_recorder_Inr [OF r(1) s]
  let ?r = "r0\<lparr>r_prof := Some \<lparr>pf_timer = tm, pf_labels = [], pf_auto = auto\<rparr>\<rparr>"
  let ?t = "t0\<lparr>cmds := (cmds t0)(r_cb r0 := [ResetQueries (t_pool tm) (t_count tm), WriteTimestamp (t_pool tm) 0])\<rparr>"
  have run: "run_ops d ops ?r ?t = Some (Inr (), r1, t1)"
    using r(2) bg(3) by (simp add: profiled_body_def rec_bind_def reset_timer_def timestamp_def rec_cmds_def)
  have "prof_inv tm auto [] ?r ?t" using assms(2) by (simp add: prof_inv_def word_less_nat_alt)
  from run_ops_prof [OF this _ run] bg(1)
  have inv: "prof_inv tm auto (concat (map (op_labels auto) ops)) r1 t1" by simp
  have f: "g_cb g = r_cb r1" "cmds t = cmds t1" "labels = (case r_prof r1 of Some p \<Rightarrow> pf_labels p | None \<Rightarrow> [])"
    by (rule finish_recorder_ok [OF r(4)]; use r(3) in simp)+
  have "labels = concat (map (op_labels auto) ops)" using inv f(3) by (simp add: prof_inv_def)
  then show ?thesis using inv f by (simp add: prof_inv_def)
qed

definition sample_timer :: timer where
  "sample_timer = \<lparr>t_pool = 50, t_period = 1, t_count = 8\<rparr>"

lemma sample_profile:
  "\<exists>g labels t. record_profiled_inner sample_timer True (run_ops sample_ctx sample_ops) quiet = Some (Inr (g, labels), t)"
  unfolding sample_ops_def record_profiled_inner_def
  by (simp add: run_simps sample_timer_def vk_init_def SETS_PER_POOL_def Let_def word_le_nat_alt)

theorem profiled_labels_witness:
  "\<exists>g t. record_profiled_inner sample_timer True (run_ops sample_ctx sample_ops) quiet = Some (Inr (g, [''geglu'', ''geglu'']), t)"
proof -
  obtain g labels t where r: "record_profiled_inner sample_timer True (run_ops sample_ctx sample_ops) quiet = Some (Inr (g, labels), t)"
    using sample_profile by blast
  have "labels = concat (map (op_labels True) sample_ops)"
    using profiled_labels [OF recordable_quiet _ r] by (simp add: sample_timer_def)
  then show ?thesis using r by (simp add: sample_ops_def sample_kernel_def)
qed

end
