(* ===== verification/Model_Graph_Props.thy ===== *)
theory Model_Graph_Props
  imports Model_Graph Gpu_Graph_Props
begin

text \<open>
  What the recorded dispatches satisfy: each one matches the entry its kernel has in the variant
  table (binding slots, push constants, and the shape the variant is specialized for), and a decode
  step depends on no scratch buffer left over from an earlier one.
\<close>

subsection \<open>The variants the model loads\<close>

fun variant_of :: "kname \<Rightarrow> variant" where
  "variant_of K_rms5376 = mk_variant ''rmsnorm_5376'' ''rmsnorm'' [(''ROW_LEN'', 5376)] [256, 1, 1] 3 0 0 False"
| "variant_of K_rms512 = mk_variant ''rmsnorm_512'' ''rmsnorm'' [(''ROW_LEN'', 512)] [256, 1, 1] 3 0 0 False"
| "variant_of K_rms256 = mk_variant ''rmsnorm_256'' ''rmsnorm'' [(''ROW_LEN'', 256)] [256, 1, 1] 3 0 0 False"
| "variant_of K_rope_sl_q = mk_variant ''rope_sliding_q'' ''rope'' [(''HEAD_DIM'', 256), (''ROT_DIMS'', 256), (''N_HEADS'', 32)] [256, 1, 1] 2 0 0 False"
| "variant_of K_rope_sl_k = mk_variant ''rope_sliding_k'' ''rope'' [(''HEAD_DIM'', 256), (''ROT_DIMS'', 256), (''N_HEADS'', 16)] [256, 1, 1] 2 0 0 False"
| "variant_of K_rope_gl_q = mk_variant ''rope_global_q'' ''rope'' [(''HEAD_DIM'', 512), (''ROT_DIMS'', 128), (''N_HEADS'', 32)] [256, 1, 1] 2 0 0 False"
| "variant_of K_rope_gl_k = mk_variant ''rope_global_k'' ''rope'' [(''HEAD_DIM'', 512), (''ROT_DIMS'', 128), (''N_HEADS'', 4)] [256, 1, 1] 2 0 0 False"
| "variant_of K_gemv5376 = mk_variant ''gemv_q4_0_k5376'' ''gemv_q4_0'' [(''K_DIM'', 5376)] [64, 1, 1] 3 0 0 False"
| "variant_of K_gemv8192 = mk_variant ''gemv_q4_0_k8192'' ''gemv_q4_0'' [(''K_DIM'', 8192)] [64, 1, 1] 3 0 0 False"
| "variant_of K_gemv16384 = mk_variant ''gemv_q4_0_k16384'' ''gemv_q4_0'' [(''K_DIM'', 16384)] [64, 1, 1] 3 0 0 False"
| "variant_of K_gemv21504 = mk_variant ''gemv_q4_0_k21504'' ''gemv_q4_0'' [(''K_DIM'', 21504)] [64, 1, 1] 3 0 0 False"
| "variant_of K_geglu = mk_variant ''geglu'' ''geglu'' [] [256, 1, 1] 3 0 0 False"
| "variant_of K_add = mk_variant ''add_scaled'' ''add_scaled'' [] [256, 1, 1] 3 4 0 False"
| "variant_of K_append_sl = mk_variant ''kv_append_sliding'' ''kv_append'' [(''ROW_LEN'', 4096), (''RING'', 1024)] [256, 1, 1] 3 0 0 False"
| "variant_of K_append_gl = mk_variant ''kv_append_global'' ''kv_append'' [(''ROW_LEN'', 2048)] [256, 1, 1] 3 0 0 False"
| "variant_of K_append_gl_q8 = mk_variant ''kv_append_global_q8'' ''kv_append_global_q8'' [(''ROW_LEN'', 2048)] [256, 1, 1] 4 0 0 False"
| "variant_of K_attn_sl = mk_variant ''attn_decode_sliding'' ''attn_decode_sliding'' [(''HEAD_DIM'', 256), (''N_KV_HEADS'', 16), (''Q_PER_KV'', 2)] [64, 1, 1] 5 8 0 True"
| "variant_of K_attn_gl_q8 = mk_variant ''attn_decode_global_q8k'' ''attn_decode_global_q8k'' [(''HEAD_DIM'', 512), (''N_KV_HEADS'', 4), (''Q_PER_KV'', 8)] [64, 1, 1] 6 8 0 True"
| "variant_of K_reduce256 = mk_variant ''attn_reduce_d256'' ''attn_reduce'' [(''HEAD_DIM'', 256)] [64, 1, 1] 2 4 0 False"
| "variant_of K_reduce512 = mk_variant ''attn_reduce_d512'' ''attn_reduce'' [(''HEAD_DIM'', 512)] [64, 1, 1] 2 4 0 False"
| "variant_of K_logits = mk_variant ''gemv_q6_k_logits'' ''gemv_q6_k_logits'' [(''BLOCKS_PER_ROW'', 21), (''ROW_WORDS'', 1104)] [64, 1, 1] 3 0 0 False"
| "variant_of K_quant_q8 = mk_variant ''kv_quant_q8'' ''kv_quant_q8'' [] [256, 1, 1] 3 0 0 False"
| "variant_of K_gemm_up_i8 = mk_variant ''gemm_q4_0_i8_swz_m4n1_k5376_n21504'' ''gemm_q4_0_i8'' [(''K_DIM'', 5376), (''N_DIM'', 21504), (''WG_X'', 64), (''M_TILES'', 4), (''N_TILES'', 1), (''SWIZZLE'', 1), (''BCAST'', 1), (''STAGE_BUFS'', 1)] [64, 1, 1] 4 0 0 True"
| "variant_of K_gemm_down_i8 = mk_variant ''gemm_q4_0_i8_bb_pfd4'' ''gemm_q4_0_i8_bb_pfd'' [(''PFD'', 4), (''K_DIM'', 21504), (''N_DIM'', 5376)] [64, 1, 1] 4 0 0 True"
| "variant_of K_gemm_q_i8_sl = mk_variant ''gemm_q4_0_i8_swz_m4n1_k5376_n8192'' ''gemm_q4_0_i8'' [(''K_DIM'', 5376), (''N_DIM'', 8192), (''WG_X'', 64), (''M_TILES'', 4), (''N_TILES'', 1), (''SWIZZLE'', 1), (''BCAST'', 1), (''STAGE_BUFS'', 1)] [64, 1, 1] 4 0 0 True"
| "variant_of K_gemm_q_i8_gl = mk_variant ''gemm_q4_0_i8_swz_m4n1_k5376_n16384'' ''gemm_q4_0_i8'' [(''K_DIM'', 5376), (''N_DIM'', 16384), (''WG_X'', 64), (''M_TILES'', 4), (''N_TILES'', 1), (''SWIZZLE'', 1), (''BCAST'', 1), (''STAGE_BUFS'', 1)] [64, 1, 1] 4 0 0 True"
| "variant_of K_gemm_kv_i8_sl = mk_variant ''gemm_q4_0_i8_swz_m4n1_k5376_n4096'' ''gemm_q4_0_i8'' [(''K_DIM'', 5376), (''N_DIM'', 4096), (''WG_X'', 64), (''M_TILES'', 4), (''N_TILES'', 1), (''SWIZZLE'', 1), (''BCAST'', 1), (''STAGE_BUFS'', 1)] [64, 1, 1] 4 0 0 True"
| "variant_of K_gemm_kv_i8_gl = mk_variant ''gemm_q4_0_i8_swz_m4n1_k5376_n2048'' ''gemm_q4_0_i8'' [(''K_DIM'', 5376), (''N_DIM'', 2048), (''WG_X'', 64), (''M_TILES'', 4), (''N_TILES'', 1), (''SWIZZLE'', 1), (''BCAST'', 1), (''STAGE_BUFS'', 1)] [64, 1, 1] 4 0 0 True"
| "variant_of K_gemm_o_i8_sl = mk_variant ''gemm_q4_0_i8_swz_m4n1_k8192_n5376'' ''gemm_q4_0_i8'' [(''K_DIM'', 8192), (''N_DIM'', 5376), (''WG_X'', 64), (''M_TILES'', 4), (''N_TILES'', 1), (''SWIZZLE'', 1)] [64, 1, 1] 4 0 0 True"
| "variant_of K_gemm_o_i8_gl = mk_variant ''gemm_q4_0_i8_swz_m4n1_s1_k16384_n5376'' ''gemm_q4_0_i8'' [(''K_DIM'', 16384), (''N_DIM'', 5376), (''WG_X'', 64), (''M_TILES'', 4), (''N_TILES'', 1), (''STAGE_BUFS'', 1), (''SWIZZLE'', 1)] [64, 1, 1] 4 0 0 True"
| "variant_of K_prefill_sl = mk_variant ''attn_prefill_sliding_ring'' ''attn_prefill_sliding_ring'' [(''HEAD_DIM'', 256), (''N_KV_HEADS'', 16), (''Q_PER_KV'', 2), (''WINDOW'', 1024), (''RING'', 1024)] [64, 1, 1] 7 4 0 True"
| "variant_of K_prefill_gl_iq = mk_variant ''attn_prefill_global_flash_sp_iq'' ''attn_prefill_global_flash_sp_iq'' [(''HEAD_DIM'', 512), (''N_KV_HEADS'', 4), (''Q_PER_KV'', 8), (''M_Q'', 16), (''N_K'', 64), (''WG_X'', 64), (''S_STAGE_LEN'', 1024)] [64, 1, 1] 7 4 0 True"

named_theorems table_defs

declare variants_1_def [table_defs] variants_2_def [table_defs] variants_3_def [table_defs]
  variants_5_def [table_defs] variants_10_def [table_defs] variants_12_def [table_defs]
  variants_13_def [table_defs] variants_16_def [table_defs]

lemma in_table:
  "v \<in> set variants_1 \<Longrightarrow> v \<in> set VARIANTS" "v \<in> set variants_2 \<Longrightarrow> v \<in> set VARIANTS"
  "v \<in> set variants_3 \<Longrightarrow> v \<in> set VARIANTS" "v \<in> set variants_5 \<Longrightarrow> v \<in> set VARIANTS"
  "v \<in> set variants_10 \<Longrightarrow> v \<in> set VARIANTS" "v \<in> set variants_12 \<Longrightarrow> v \<in> set VARIANTS"
  "v \<in> set variants_13 \<Longrightarrow> v \<in> set VARIANTS" "v \<in> set variants_16 \<Longrightarrow> v \<in> set VARIANTS"
  by (simp_all add: VARIANTS_def)

lemma variant_listed_1:
  "variant_of K_rms5376 \<in> set variants_1" "variant_of K_rms512 \<in> set variants_1" "variant_of K_rms256 \<in> set variants_1" "variant_of K_rope_sl_q \<in> set variants_1" "variant_of K_rope_sl_k \<in> set variants_1" "variant_of K_rope_gl_q \<in> set variants_1" "variant_of K_rope_gl_k \<in> set variants_1" "variant_of K_gemv5376 \<in> set variants_1" "variant_of K_geglu \<in> set variants_1" "variant_of K_add \<in> set variants_1"
  by (simp_all only: variant_of.simps variants_1_def list.set insert_iff simp_thms)

lemma variant_listed_2:
  "variant_of K_gemv8192 \<in> set variants_2" "variant_of K_gemv16384 \<in> set variants_2" "variant_of K_gemv21504 \<in> set variants_2" "variant_of K_append_sl \<in> set variants_2" "variant_of K_append_gl \<in> set variants_2" "variant_of K_append_gl_q8 \<in> set variants_2" "variant_of K_logits \<in> set variants_2" "variant_of K_quant_q8 \<in> set variants_2"
  by (simp_all only: variant_of.simps variants_2_def list.set insert_iff simp_thms)

lemma variant_listed_3:
  "variant_of K_attn_sl \<in> set variants_3" "variant_of K_attn_gl_q8 \<in> set variants_3" "variant_of K_reduce256 \<in> set variants_3" "variant_of K_reduce512 \<in> set variants_3" "variant_of K_prefill_sl \<in> set variants_3"
  by (simp_all only: variant_of.simps variants_3_def list.set insert_iff simp_thms)

lemma variant_listed_5:
  "variant_of K_gemm_up_i8 \<in> set variants_5"
  by (simp_all only: variant_of.simps variants_5_def list.set insert_iff simp_thms)

lemma variant_listed_10:
  "variant_of K_gemm_down_i8 \<in> set variants_10"
  by (simp_all only: variant_of.simps variants_10_def list.set insert_iff simp_thms)

lemma variant_listed_12:
  "variant_of K_gemm_q_i8_sl \<in> set variants_12" "variant_of K_gemm_q_i8_gl \<in> set variants_12" "variant_of K_gemm_kv_i8_sl \<in> set variants_12"
  by (simp_all only: variant_of.simps variants_12_def list.set insert_iff simp_thms)

lemma variant_listed_13:
  "variant_of K_gemm_kv_i8_gl \<in> set variants_13" "variant_of K_gemm_o_i8_sl \<in> set variants_13" "variant_of K_gemm_o_i8_gl \<in> set variants_13"
  by (simp_all only: variant_of.simps variants_13_def list.set insert_iff simp_thms)

lemma variant_listed_16:
  "variant_of K_prefill_gl_iq \<in> set variants_16"
  by (simp_all only: variant_of.simps variants_16_def list.set insert_iff simp_thms)

lemma variant_listed: "variant_of k \<in> set VARIANTS"
  by (cases k) (simp_all only: variant_listed_1 [THEN in_table(1)] variant_listed_2 [THEN in_table(2)] variant_listed_3 [THEN in_table(3)] variant_listed_5 [THEN in_table(4)] variant_listed_10 [THEN in_table(5)] variant_listed_12 [THEN in_table(6)] variant_listed_13 [THEN in_table(7)] variant_listed_16 [THEN in_table(8)])

lemma variant_named: "v_name (variant_of k) = kernel_name k"
  by (cases k) simp_all

subsection \<open>What a kernel expects of a dispatch\<close>

text \<open>
  The lengths the shaders of \<open>crates/sg-gpu/shaders\<close> index with, in terms of the constants of the
  variant: \<open>ns\<close> are the element counts of the bindings, \<open>gs\<close> the groups launched, \<open>ps\<close> the pushed
  words. The activations have room for \<open>cap\<close> tokens; the first \<open>rows\<close> are computed and the first
  \<open>real\<close> are appended to the store.
\<close>

definition const_of :: "variant \<Rightarrow> string \<Rightarrow> nat" where
  "const_of v c = (case map_of (v_defs v) c of Some n \<Rightarrow> n | None \<Rightarrow> 0)"

fun shape_rmsnorm :: "variant \<Rightarrow> nat \<Rightarrow> nat \<Rightarrow> nat list \<Rightarrow> nat list \<Rightarrow> bool" where
  "shape_rmsnorm v rows cap ns gs \<longleftrightarrow>
     gs ! 0 * const_of v ''ROW_LEN'' * cap = rows * ns ! 0 \<and> const_of v ''ROW_LEN'' \<le> ns ! 1 \<and> ns ! 0 \<le> ns ! 2"

fun shape_gemv :: "variant \<Rightarrow> nat list \<Rightarrow> nat list \<Rightarrow> bool" where
  "shape_gemv v ns gs \<longleftrightarrow>
     (let k = const_of v ''K_DIM'' in
      k mod 64 = 0 \<and> ns ! 0 = gs ! 0 * (k div 64 * 9) \<and> ns ! 1 = k \<and> ns ! 2 = gs ! 0)"

fun shape_logits :: "variant \<Rightarrow> nat list \<Rightarrow> nat list \<Rightarrow> bool" where
  "shape_logits v ns gs \<longleftrightarrow>
     ns ! 0 = gs ! 0 * const_of v ''ROW_WORDS'' \<and> 210 * const_of v ''BLOCKS_PER_ROW'' \<le> 4 * const_of v ''ROW_WORDS'' \<and>
     ns ! 1 = 256 * const_of v ''BLOCKS_PER_ROW'' \<and> ns ! 2 = gs ! 0"

fun shape_rope :: "variant \<Rightarrow> nat \<Rightarrow> nat \<Rightarrow> nat list \<Rightarrow> nat list \<Rightarrow> bool" where
  "shape_rope v rows cap ns gs \<longleftrightarrow>
     ns ! 0 = cap * const_of v ''N_HEADS'' * const_of v ''HEAD_DIM'' \<and> ns ! 1 = cap * const_of v ''ROT_DIMS'' \<and>
     rows * const_of v ''N_HEADS'' * (const_of v ''ROT_DIMS'' div 2) \<le> gs ! 0 * v_workgroup v ! 0"

fun shape_elementwise :: "variant \<Rightarrow> nat list \<Rightarrow> nat list \<Rightarrow> bool" where
  "shape_elementwise v ns gs \<longleftrightarrow>
     ns ! 1 = ns ! 0 \<and> ns ! 2 = ns ! 0 \<and> ns ! 0 \<le> gs ! 0 * v_workgroup v ! 0"

fun shape_append :: "variant \<Rightarrow> nat \<Rightarrow> nat list \<Rightarrow> nat list \<Rightarrow> bool" where
  "shape_append v real ns gs \<longleftrightarrow>
     ns ! 0 = real * const_of v ''ROW_LEN'' \<and> ns ! 0 \<le> gs ! 0 * v_workgroup v ! 0 \<and>
     ns ! 1 mod const_of v ''ROW_LEN'' = 0 \<and>
     (const_of v ''RING'' \<noteq> 0 \<longrightarrow> ns ! 1 = const_of v ''RING'' * const_of v ''ROW_LEN'') \<and> ns ! 2 = 4"

fun shape_append_q8 :: "variant \<Rightarrow> nat \<Rightarrow> nat list \<Rightarrow> nat list \<Rightarrow> bool" where
  "shape_append_q8 v real ns gs \<longleftrightarrow>
     ns ! 0 = real * const_of v ''ROW_LEN'' \<and> ns ! 0 \<le> 32 * (gs ! 0 * v_workgroup v ! 0) \<and>
     32 * ns ! 1 mod const_of v ''ROW_LEN'' = 0 \<and> ns ! 2 = 8 * ns ! 1 \<and> ns ! 3 = 4"

fun shape_quant :: "variant \<Rightarrow> nat \<Rightarrow> nat \<Rightarrow> nat list \<Rightarrow> nat list \<Rightarrow> bool" where
  "shape_quant v rows cap ns gs \<longleftrightarrow>
     ns ! 0 \<le> 32 * ns ! 1 \<and> ns ! 0 \<le> 4 * ns ! 2 \<and> rows * ns ! 0 \<le> cap * (32 * (gs ! 0 * v_workgroup v ! 0))"

fun shape_gemm :: "variant \<Rightarrow> nat \<Rightarrow> nat list \<Rightarrow> nat list \<Rightarrow> bool" where
  "shape_gemm v rows ns gs \<longleftrightarrow>
     (let k = const_of v ''K_DIM''; n = const_of v ''N_DIM'' in
      k mod 64 = 0 \<and> ns ! 0 = n * (k div 64 * 9) \<and> rows * k \<le> 4 * ns ! 1 \<and> rows * (k div 32) \<le> ns ! 2 \<and>
      rows * n \<le> ns ! 3 \<and> gs ! 0 * 64 = rows \<and> gs ! 1 * 16 = n)"

fun shape_attn_decode :: "variant \<Rightarrow> nat \<Rightarrow> nat \<Rightarrow> nat \<Rightarrow> nat list \<Rightarrow> nat list \<Rightarrow> nat list \<Rightarrow> bool" where
  "shape_attn_decode v kq part step ns gs ps \<longleftrightarrow>
     (let h = const_of v ''N_KV_HEADS'' * const_of v ''Q_PER_KV''; row = const_of v ''N_KV_HEADS'' * const_of v ''HEAD_DIM'' in
      ns ! 0 = h * const_of v ''HEAD_DIM'' \<and> kq * ns ! 1 = ns ! (part - 1) \<and> ns ! 1 * kq mod row = 0 \<and>
      gs ! 0 = const_of v ''N_KV_HEADS'' \<and> gs ! 1 = ps ! 0 \<and>
      ns ! part = h * ps ! 0 * (const_of v ''HEAD_DIM'' + 2) \<and> ns ! step = 4)"

fun shape_reduce :: "variant \<Rightarrow> nat list \<Rightarrow> nat list \<Rightarrow> nat list \<Rightarrow> bool" where
  "shape_reduce v ns gs ps \<longleftrightarrow>
     ns ! 0 = gs ! 0 * ps ! 0 * (const_of v ''HEAD_DIM'' + 2) \<and> ns ! 1 = gs ! 0 * const_of v ''HEAD_DIM''"

fun shape_prefill_ring :: "variant \<Rightarrow> nat \<Rightarrow> nat \<Rightarrow> nat list \<Rightarrow> nat list \<Rightarrow> bool" where
  "shape_prefill_ring v rows cap ns gs \<longleftrightarrow>
     (let kv = const_of v ''N_KV_HEADS'' * const_of v ''HEAD_DIM''; q = const_of v ''Q_PER_KV'' * kv in
      ns ! 0 = cap * q \<and> ns ! 1 = const_of v ''RING'' * kv \<and> ns ! 2 = const_of v ''RING'' * kv \<and>
      ns ! 3 = cap * kv \<and> ns ! 4 = cap * kv \<and> ns ! 5 = cap * q \<and> ns ! 6 = 4 \<and>
      gs ! 0 = const_of v ''N_KV_HEADS'' \<and> gs ! 1 = rows)"

fun shape_prefill_flash :: "variant \<Rightarrow> nat \<Rightarrow> nat \<Rightarrow> nat list \<Rightarrow> nat list \<Rightarrow> bool" where
  "shape_prefill_flash v rows cap ns gs \<longleftrightarrow>
     (let kv = const_of v ''N_KV_HEADS'' * const_of v ''HEAD_DIM''; q = const_of v ''Q_PER_KV'' * kv in
      4 * ns ! 0 = cap * q \<and> 32 * ns ! 1 = cap * q \<and> 4 * ns ! 2 = ns ! 4 \<and> 32 * ns ! 3 = ns ! 4 \<and>
      ns ! 4 mod kv = 0 \<and> ns ! 5 = cap * q \<and> ns ! 6 = 4 \<and>
      gs ! 0 = const_of v ''N_KV_HEADS'' * const_of v ''Q_PER_KV'' \<and> gs ! 1 * const_of v ''M_Q'' = rows)"

record extent =
  x_rows :: nat
  x_real :: nat
  x_cap :: nat

definition fits :: "variant \<Rightarrow> extent \<Rightarrow> nat list \<Rightarrow> nat list \<Rightarrow> nat list \<Rightarrow> bool" where
  "fits v x ns gs ps \<longleftrightarrow>
     (if v_src v = ''rmsnorm'' then shape_rmsnorm v (x_rows x) (x_cap x) ns gs
      else if v_src v = ''gemv_q4_0'' then shape_gemv v ns gs
      else if v_src v = ''gemv_q6_k_logits'' then shape_logits v ns gs
      else if v_src v = ''rope'' then shape_rope v (x_rows x) (x_cap x) ns gs
      else if v_src v = ''geglu'' \<or> v_src v = ''add_scaled'' then shape_elementwise v ns gs
      else if v_src v = ''kv_append'' then shape_append v (x_real x) ns gs
      else if v_src v = ''kv_append_global_q8'' then shape_append_q8 v (x_real x) ns gs
      else if v_src v = ''kv_quant_q8'' then shape_quant v (x_rows x) (x_cap x) ns gs
      else if v_src v = ''gemm_q4_0_i8'' \<or> v_src v = ''gemm_q4_0_i8_bb_pfd'' then shape_gemm v (x_rows x) ns gs
      else if v_src v = ''attn_decode_sliding'' then shape_attn_decode v 1 3 4 ns gs ps \<and> ns ! 1 = ns ! 2
      else if v_src v = ''attn_decode_global_q8k'' then shape_attn_decode v 4 4 5 ns gs ps \<and> 32 * ns ! 2 = ns ! 3
      else if v_src v = ''attn_reduce'' then shape_reduce v ns gs ps
      else if v_src v = ''attn_prefill_sliding_ring'' then shape_prefill_ring v (x_rows x) (x_cap x) ns gs
      else v_src v = ''attn_prefill_global_flash_sp_iq'' \<and> shape_prefill_flash v (x_rows x) (x_cap x) ns gs)"

text \<open>The element count of a binding; \<open>None\<close> if it cannot be bound.\<close>

definition bound_len :: "graph_model \<Rightarrow> nat \<times> bref \<times> (nat \<times> nat) option \<Rightarrow> nat option" where
  "bound_len m = (\<lambda>(i, b, sl).
     Option.bind (gm_buf m b) (\<lambda>x.
     case sl of
       None \<Rightarrow> Some (unat (b_len x))
     | Some (lo, hi) \<Rightarrow> if lo \<le> hi \<and> hi \<le> unat (b_len x) then Some (hi - lo) else None))"

definition conforms :: "graph_model \<Rightarrow> extent \<Rightarrow> mop \<Rightarrow> bool" where
  "conforms m x op \<longleftrightarrow>
     (let v = variant_of (op_kernel op); ps = (case op_push op of Some ws \<Rightarrow> ws | None \<Rightarrow> []) in
      map fst (op_binds op) = [0..<v_bindings v] \<and> 4 * length ps = v_push_bytes v \<and>
      (case those (map (bound_len m) (op_binds op)) of
         Some ns \<Rightarrow> fits v x ns (map unat (op_groups op)) (map unat ps)
       | None \<Rightarrow> False))"

subsection \<open>The model as it is built\<close>

text \<open>The sizes of the uploaded weights: Q4_0 matrices as words, f32 vectors as they are.\<close>

definition q4_words :: "nat \<Rightarrow> nat \<Rightarrow> nat" where "q4_words k n = n * (k div 64 * 9)"

fun weight_len :: "layer_kind \<Rightarrow> weight \<Rightarrow> nat option" where
  "weight_len k W_attn_norm = Some x_hidden" | "weight_len k W_post_attention_norm = Some x_hidden"
| "weight_len k W_ffn_norm = Some x_hidden" | "weight_len k W_post_ffw_norm = Some x_hidden"
| "weight_len k W_attn_q_norm = Some (head_dim_of k)" | "weight_len k W_attn_k_norm = Some (head_dim_of k)"
| "weight_len k W_attn_q = Some (q4_words x_hidden (x_n_q_heads * head_dim_of k))"
| "weight_len k W_attn_k = Some (q4_words x_hidden (kv_heads_of k * head_dim_of k))"
| "weight_len Sliding W_attn_v = Some (q4_words x_hidden (kv_heads_of Sliding * head_dim_of Sliding))"
| "weight_len Global W_attn_v = None"
| "weight_len k W_attn_output = Some (q4_words (x_n_q_heads * head_dim_of k) x_hidden)"
| "weight_len k W_ffn_gate = Some (q4_words x_hidden x_ffn)" | "weight_len k W_ffn_up = Some (q4_words x_hidden x_ffn)"
| "weight_len k W_ffn_down = Some (q4_words x_ffn x_hidden)"

fun model_len :: "nat \<Rightarrow> nat \<Rightarrow> bref \<Rightarrow> nat option" where
  "model_len cap chunk (Act a) = bufs_len the_model a"
| "model_len cap chunk (Pre a) = prefill_len the_model chunk a"
| "model_len cap chunk (Wt w i) = (if i < x_n_layers then weight_len (layer_kind i) w else None)"
| "model_len cap chunk TokenEmbd = Some (x_vocab * Q6K_ROW_WORDS)"
| "model_len cap chunk OutputNorm = Some x_hidden"
| "model_len cap chunk NormOnes = Some 512"
| "model_len cap chunk (KvK i) = (if i < x_n_layers then kv_len the_model cap (layer_kind i) (KvK i) else None)"
| "model_len cap chunk (KvQuants i) = (if i < x_n_layers then kv_len the_model cap (layer_kind i) (KvQuants i) else None)"
| "model_len cap chunk (KvScales i) = (if i < x_n_layers then kv_len the_model cap (layer_kind i) (KvScales i) else None)"
| "model_len cap chunk (KvV i) = (if i < x_n_layers then kv_len the_model cap (layer_kind i) (KvV i) else None)"
| "model_len cap chunk Step = Some (unat STEP_WORDS)"
| "model_len cap chunk CsSliding = Some (head_dim (sliding the_model) div 2 * 2)"
| "model_len cap chunk CsGlobal = Some (head_dim (global the_model) div 8 * 2)"
| "model_len cap chunk LogitsAll = None"

definition built :: "graph_model \<Rightarrow> nat \<Rightarrow> nat \<Rightarrow> bool" where
  "built m cap chunk \<longleftrightarrow>
     gm_desc m = the_model \<and> map lw_kind (gm_layers m) = layer_kinds the_model \<and>
     (\<forall>k. k_workgroup (gm_kernel m k) = v_workgroup (variant_of k)) \<and>
     (\<forall>b. map_option (\<lambda>x. unat (b_len x)) (gm_buf m b) = model_len cap chunk b)"

lemma built_bound:
  assumes "built m cap chunk"
  shows "bound_len m (i, b, None) = model_len cap chunk b"
    "bound_len m (i, b, Some (lo, hi)) =
       (case model_len cap chunk b of Some n \<Rightarrow> if lo \<le> hi \<and> hi \<le> n then Some (hi - lo) else None | None \<Rightarrow> None)"
proof -
  have e: "model_len cap chunk b = map_option (\<lambda>x. unat (b_len x)) (gm_buf m b)" using assms by (simp add: built_def)
  show "bound_len m (i, b, None) = model_len cap chunk b"
    "bound_len m (i, b, Some (lo, hi)) =
       (case model_len cap chunk b of Some n \<Rightarrow> if lo \<le> hi \<and> hi \<le> n then Some (hi - lo) else None | None \<Rightarrow> None)"
    unfolding e by (cases "gm_buf m b"; simp add: bound_len_def)+
qed

lemma built_simps:
  assumes "built m cap chunk"
  shows "gm_desc m = the_model" "length (gm_layers m) = x_n_layers"
    "i < x_n_layers \<Longrightarrow> lw_kind (gm_layers m ! i) = layer_kind i"
    "k_workgroup (gm_kernel m k) = v_workgroup (variant_of k)"
    "gm_buf m b = None \<longleftrightarrow> model_len cap chunk b = None"
    "len_of m b = (case model_len cap chunk b of Some n \<Rightarrow> n | None \<Rightarrow> 0)"
proof -
  have d: "gm_desc m = the_model" and l: "map lw_kind (gm_layers m) = layer_kinds the_model"
    and w: "k_workgroup (gm_kernel m k) = v_workgroup (variant_of k)"
    and b: "map_option (\<lambda>x. unat (b_len x)) (gm_buf m b) = model_len cap chunk b"
    using assms by (auto simp: built_def)
  show "gm_desc m = the_model" "k_workgroup (gm_kernel m k) = v_workgroup (variant_of k)" by (fact d w)+
  have n: "length (map lw_kind (gm_layers m)) = x_n_layers" unfolding l by (simp add: the_model_def)
  then show "length (gm_layers m) = x_n_layers" by simp
  show "lw_kind (gm_layers m ! i) = layer_kind i" if "i < x_n_layers"
  proof -
    have "map lw_kind (gm_layers m) ! i = layer_kind i" unfolding l using that by (simp add: the_model_def)
    then show ?thesis using that n by simp
  qed
  show "gm_buf m b = None \<longleftrightarrow> model_len cap chunk b = None" "len_of m b = (case model_len cap chunk b of Some n \<Rightarrow> n | None \<Rightarrow> 0)"
    unfolding b [symmetric] by (auto simp: len_of_def split: option.split)
qed

subsection \<open>Decode dispatches fit\<close>

lemma the_model_sizes:
  "head_dim (sliding the_model) = 256" "head_dim (global the_model) = 512"
  "n_kv_heads (sliding the_model) = 16" "n_kv_heads (global the_model) = 4"
  "vocab_size the_model = 262144" "sliding_window the_model = 1024" "n_layers the_model = 60"
  by (simp_all add: the_model_def x_sliding_head_dim_def x_global_head_dim_def x_sliding_kv_heads_def
      x_global_kv_heads_def x_vocab_def x_sliding_window_def x_n_layers_def)

lemmas model_sizes = the_model_sizes HIDDEN_def FFN_def SPLITS_SLIDING_def SPLITS_GLOBAL_def q_dim_of_def kv_dim_of_def
  x_hidden_def x_ffn_def x_vocab_def x_n_q_heads_def x_n_layers_def Q6K_ROW_WORDS_def q4_words_def
  head_dim_of_def kv_heads_of_def x_sliding_head_dim_def x_global_head_dim_def x_sliding_kv_heads_def
  x_global_kv_heads_def STEP_WORDS_def

lemma grid_eq: "grid m k n = [of_nat (div_ceil (unat (of_nat n :: u64)) (k_workgroup (gm_kernel m k) ! 0)), 1, 1]"
  by (simp add: grid_def groups_for_def)

definition decode_extent :: extent where
  "decode_extent = \<lparr>x_rows = 1, x_real = 1, x_cap = 1\<rparr>"

lemma slots:
  "[0, Suc 0] = [0..<2]" "[0, Suc 0, 2] = [0..<3]" "[0, Suc 0, 2, 3] = [0..<4]" "[0, Suc 0, 2, 3, 4] = [0..<5]"
  "[0, Suc 0, 2, 3, 4, 5] = [0..<6]" "[0, Suc 0, 2, 3, 4, 5, 6] = [0..<7]"
  by (simp_all add: upt_rec)

lemmas conform_simps = geometry_def model_sizes Let_def conforms_def mk_op_def rms_def fits_def const_of_def slots

lemma decode_layer_fits:
  assumes "built m cap chunk" "i < x_n_layers"
  shows "\<exists>ops. record_layer m i = Some ops \<and> list_all (conforms m decode_extent) ops"
proof -
  note b = built_simps [OF assms(1)] built_bound [OF assms(1)]
  have i: "i < 60" using assms(2) by (simp add: x_n_layers_def)
  show ?thesis
  proof (cases "layer_kind i")
    case Sliding
    then show ?thesis
      using i by (simp add: record_layer_defs b conform_simps grid_eq div_ceil_def decode_extent_def)
  next
    case Global
    then show ?thesis
      using i by (simp add: record_layer_defs b conform_simps grid_eq div_ceil_def decode_extent_def)
  qed
qed

lemma decode_logits_fit:
  assumes "built m cap chunk"
  shows "list_all (conforms m decode_extent) (record_logits m)"
  by (simp add: record_logits_def built_simps [OF assms] built_bound [OF assms] conform_simps decode_extent_def)

subsection \<open>Prefill dispatches fit\<close>

lemma unat_u64: "n < 2 ^ LENGTH(64) \<Longrightarrow> unat (of_nat n :: u64) = n"
  by (simp add: unat_of_nat)

lemma unat_u32: "n < 4294967296 \<Longrightarrow> unat (of_nat n :: u32) = n"
  by (simp add: unat_of_nat)

lemma unat_u32_times: "numeral k * n < 4294967296 \<Longrightarrow> unat (numeral k * of_nat n :: u32) = numeral k * n"
  using unat_u32 [of "numeral k * n"] by simp

lemma div_ceil_le:
  assumes "0 < m"
  shows "div_ceil n m \<le> n"
proof -
  have "n div m \<le> n div m * m" using assms by simp
  moreover have "n div m * m + n mod m = n" by simp
  ultimately have "n div m + n mod m \<le> n" by linarith
  then show ?thesis by (simp add: div_ceil_def)
qed

lemma div_ceil_ge: "a * m \<le> n \<Longrightarrow> 0 < m \<Longrightarrow> a \<le> div_ceil n m"
  using div_ceil_cover(1) [of m n] by (metis le_trans mult_le_cancel2)

lemma grid_covers:
  assumes "n < 4294967296" "0 < k_workgroup (gm_kernel m k) ! 0"
  shows "map unat (grid m k n) = [div_ceil n (k_workgroup (gm_kernel m k) ! 0), 1, 1]"
  using assms div_ceil_le [OF assms(2), of n] by (simp add: grid_eq unat_of_nat)

lemma prefill_layer_fits:
  assumes "built m cap (64 * c)" "i < x_n_layers" "0 < n_real" "n_real \<le> 64 * j" "j \<le> c" "c \<le> 1024"
  shows "\<exists>ops. record_prefill_layer m i (64 * j) n_real = Some ops \<and>
    list_all (conforms m \<lparr>x_rows = 64 * j, x_real = n_real, x_cap = 64 * c\<rparr>) ops"
proof -
  note b = built_simps [OF assms(1)] built_bound [OF assms(1)]
  have i: "i < 60" using assms(2) by (simp add: x_n_layers_def)
  show ?thesis
  proof (cases "layer_kind i")
    case Sliding
    then show ?thesis
      using i assms(3-) by (simp add: record_prefill_layer_defs b conform_simps grid_covers unat_u32
          unat_u32_times div_ceil_ge)
  next
    case Global
    then show ?thesis
      using i assms(3-) div_ceil_cover(1) [of 256 "64 * n_real"] by (simp add: record_prefill_layer_defs b conform_simps grid_covers unat_u32
          unat_u32_times div_ceil_ge)
  qed
qed

lemma prefill_logits_fit:
  assumes "built m cap (64 * c)" "0 < n_real" "n_real \<le> 64 * c"
  shows "\<exists>ops. record_prefill_logits m n_real = Some ops \<and> list_all (conforms m decode_extent) ops"
proof -
  obtain r where r: "n_real = Suc r" using assms(2) by (cases n_real) auto
  show ?thesis
    using assms(3) by (simp add: r record_prefill_logits_def built_simps [OF assms(1)] built_bound [OF assms(1)] conform_simps
        decode_extent_def)
qed

subsection \<open>A conforming dispatch can be recorded\<close>

lemma those_some: "list_all (\<lambda>x. f x \<noteq> None) xs \<Longrightarrow> \<exists>ys. those (map f xs) = Some ys"
  by (induction xs) auto

lemma those_None: "those (map f xs) = Some ys \<Longrightarrow> list_all (\<lambda>x. f x \<noteq> None) xs"
  by (induction xs arbitrary: ys) (auto split: option.splits)

lemma bound_bind:
  assumes "bound_len m b \<noteq> None"
  shows "bind_ref m b \<noteq> None"
proof -
  obtain i r sl where b: "b = (i, r, sl)" by (cases b)
  obtain x where x: "gm_buf m r = Some x" using assms by (cases "gm_buf m r") (auto simp: b bound_len_def)
  have "slice_buf x (of_nat lo) (of_nat hi) \<noteq> None" if "lo \<le> hi" "hi \<le> unat (b_len x)" for lo hi
  proof -
    have small: "n < 2 ^ LENGTH(64)" if "n \<le> unat (b_len x)" for n
      using that unsigned_less [of "b_len x"] by (rule le_less_trans)
    have "unat (of_nat lo :: u64) = lo" "unat (of_nat hi :: u64) = hi"
      using small that by (auto simp: unat_u64)
    then show ?thesis using that by (simp add: slice_buf_def word_le_nat_alt)
  qed
  note slice = this
  show ?thesis
  proof (cases sl)
    case (Some w)
    obtain lo hi where w: "w = (lo, hi)" by (cases w)
    have "lo \<le> hi" "hi \<le> unat (b_len x)"
      using assms x by (auto simp: b Some w bound_len_def split: if_splits)
    then show ?thesis using slice [of lo hi] x by (auto simp: b Some w bind_ref_def)
  qed (simp add: b x bind_ref_def)
qed

lemma conforms_realize:
  assumes "conforms m x op"
  shows "realize m op \<noteq> None"
proof -
  obtain ns where "those (map (bound_len m) (op_binds op)) = Some ns"
    using assms unfolding conforms_def Let_def by (auto split: option.splits)
  from those_None [OF this] have "list_all (\<lambda>b. bind_ref m b \<noteq> None) (op_binds op)"
    using bound_bind by (auto simp: list_all_iff)
  from those_some [OF this] show ?thesis by (auto simp: realize_def)
qed

lemma conforms_realize_all:
  assumes "list_all (conforms m x) ops"
  shows "\<exists>rs. those (map (realize m) ops) = Some rs"
  by (rule those_some) (use assms in \<open>auto simp: list_all_iff dest: conforms_realize\<close>)

subsection \<open>The claim\<close>

text \<open>
  C4: Every dispatch fits its kernel. For a model built with room for \<open>cap\<close> tokens in the global
  stores and prefill chunks of \<open>64 * c\<close> rows, every layer and the LM head can be recorded, for
  decoding and for a prefill of any number of real rows in any padded length up to the chunk
  capacity, and each recorded dispatch binds exactly the slots its kernel's entry of the registry
  declares, pushes exactly the declared bytes, and its buffers and its grid have the sizes the
  shader is specialized for.
\<close>

theorem dispatches_fit_kernels:
  fixes words :: "variant \<Rightarrow> u32 list"
  assumes "built m cap (64 * c)" "c \<le> 1024"
  shows "(\<forall>k. find_blob (KERNELS words) (kernel_name k) = Some (blob_of words (variant_of k))) \<and>
    (\<forall>i < x_n_layers. \<exists>ops. record_layer m i = Some ops \<and> list_all (conforms m decode_extent) ops) \<and>
    list_all (conforms m decode_extent) (record_logits m) \<and>
    (\<forall>i < x_n_layers. \<forall>n j. 0 < n \<and> n \<le> 64 * j \<and> j \<le> c \<longrightarrow>
      (\<exists>ops. record_prefill_layer m i (64 * j) n = Some ops \<and>
        list_all (conforms m \<lparr>x_rows = 64 * j, x_real = n, x_cap = 64 * c\<rparr>) ops) \<and>
      (\<exists>ops. record_prefill_logits m n = Some ops \<and> list_all (conforms m decode_extent) ops))"
proof (intro conjI allI impI)
  show "find_blob (KERNELS words) (kernel_name k) = Some (blob_of words (variant_of k))" for k
    using find_blob_registry [OF variant_listed [of k], of words] by (simp add: variant_named)
  show "list_all (conforms m decode_extent) (record_logits m)" by (rule decode_logits_fit [OF assms(1)])
next
  fix i assume "i < x_n_layers"
  then show "\<exists>ops. record_layer m i = Some ops \<and> list_all (conforms m decode_extent) ops"
    by (rule decode_layer_fits [OF assms(1)])
next
  fix i n j assume i: "i < x_n_layers" and n: "0 < n \<and> n \<le> 64 * j \<and> j \<le> c"
  show "\<exists>ops. record_prefill_layer m i (64 * j) n = Some ops \<and>
      list_all (conforms m \<lparr>x_rows = 64 * j, x_real = n, x_cap = 64 * c\<rparr>) ops"
    using prefill_layer_fits [OF assms(1) i _ _ _ assms(2)] n by blast
  show "\<exists>ops. record_prefill_logits m n = Some ops \<and> list_all (conforms m decode_extent) ops"
    using n by (intro prefill_logits_fit [OF assms(1)]) auto
qed

definition sample_model :: graph_model where
  "sample_model =
     \<lparr>gm_ctx = sample_ctx, gm_desc = the_model,
      gm_layers = map (\<lambda>i. \<lparr>lw_kind = layer_kind i, layer_output_scale = one_bits\<rparr>) [0..<x_n_layers],
      gm_kernel = (\<lambda>k. sample_kernel\<lparr>k_name := kernel_name k, k_workgroup := v_workgroup (variant_of k)\<rparr>),
      gm_buf = (\<lambda>b. map_option (\<lambda>n. \<lparr>inner = \<lparr>b_buffer = 1, b_memory = 2, b_mapped = 3, b_size = of_nat n, b_coherent = True\<rparr>,
                  b_offset = 0, b_len = of_nat n\<rparr>) (model_len 1024 64 b))\<rparr>"

lemma sample_sizes: "model_len 1024 64 b = Some n \<Longrightarrow> n < 2 ^ LENGTH(64)"
proof -
  have act: "bufs_len the_model a = Some n \<Longrightarrow> n < 2 ^ LENGTH(64)" for a by (cases a) (auto simp: model_sizes)
  have pre: "prefill_len the_model 64 a = Some n \<Longrightarrow> n < 2 ^ LENGTH(64)" for a by (cases a) (auto simp: model_sizes)
  have weight: "weight_len k w = Some n \<Longrightarrow> n < 2 ^ LENGTH(64)" for k w by (cases k; cases w) (auto simp: model_sizes)
  have kv: "kv_len the_model 1024 k b = Some n \<Longrightarrow> n < 2 ^ LENGTH(64)" for k b
    by (cases k; cases b) (auto simp: model_sizes)
  show "model_len 1024 64 b = Some n \<Longrightarrow> n < 2 ^ LENGTH(64)"
    by (cases b) (auto simp: model_sizes split: if_splits dest: act pre weight kv)
qed

lemma sample_built: "built sample_model 1024 (64 * 1)"
proof -
  have "map_option (\<lambda>x. unat (b_len x)) (gm_buf sample_model b) = model_len 1024 64 b" for b
    using sample_sizes [of b] by (cases "model_len 1024 64 b") (simp_all add: sample_model_def unat_u64)
  then show ?thesis by (simp add: built_def sample_model_def the_model_def comp_def)
qed

theorem dispatches_fit_kernels_witness:
  "(\<exists>ops. record_layer sample_model 5 = Some ops \<and> list_all (conforms sample_model decode_extent) ops) \<and>
   (\<exists>ops. record_prefill_layer sample_model 5 (64 * 1) 17 = Some ops \<and>
      list_all (conforms sample_model \<lparr>x_rows = 64 * 1, x_real = 17, x_cap = 64 * 1\<rparr>) ops)"
proof -
  have i: "(5::nat) < x_n_layers" by (simp add: x_n_layers_def)
  have c: "(1::nat) \<le> 1024" by simp
  note d = dispatches_fit_kernels [OF sample_built c, of "\<lambda>v. []", THEN conjunct2]
  show ?thesis
    using d [THEN conjunct1, rule_format, OF i]
      d [THEN conjunct2, THEN conjunct2, rule_format, OF i, of 17 1] by simp
qed

end
