(* ===== verification/Weight_Upload_Props.thy ===== *)
theory Weight_Upload_Props
  imports Weight_Upload Reference_Rows Desc_Props Gpu_Buffer_Props Model_Graph_Props "HOL-Library.Multiset"
begin

text \<open>
  Uploading the weights of a validated file: no step panics or misses a tensor, the buffers hold the
  words of the file at the lengths the graph model assumes, and a driver error leaves nothing behind.
\<close>

subsection \<open>Dropping what is held\<close>

definition handles :: "buffer \<Rightarrow> (vk_kind \<times> nat) list" where
  "handles b = [(VkMapping, b_mapped (inner b)), (VkBuffer, b_buffer (inner b)), (VkMemory, b_memory (inner b))]"

definition held_handles :: "held \<Rightarrow> (vk_kind \<times> nat) list" where
  "held_handles bs = concat (map (\<lambda>(t, b). handles b) bs)"

definition destroys :: "(vk_kind \<times> nat) list \<Rightarrow> vk \<Rightarrow> vk" where
  "destroys hs s = fold (\<lambda>(k, h). vk_destroy k h) hs s"

lemma destroys_live:
  assumes "distinct hs" and "set hs \<subseteq> live s"
  shows "live (destroys hs s) = live s - set hs" and "faults (destroys hs s) = faults s"
proof -
  have "live (destroys hs s) = live s - set hs \<and> faults (destroys hs s) = faults s" using assms
  proof (induction hs arbitrary: s)
    case (Cons x hs)
    obtain k h where x: "x = (k, h)" by (cases x)
    let ?s = "s\<lparr>live := live s - {(k, h)}\<rparr>"
    have "set hs \<subseteq> live ?s" using Cons.prems x by auto
    moreover have "destroys (x # hs) s = destroys hs ?s" using Cons.prems x by (simp add: destroys_def)
    ultimately show ?case using Cons.IH [of ?s] Cons.prems(1) x by auto
  qed (simp add: destroys_def)
  then show "live (destroys hs s) = live s - set hs" "faults (destroys hs s) = faults s" by simp_all
qed

lemma drop_held_destroys: "drop_held bs s = destroys (held_handles bs) s"
  by (induction bs arbitrary: s) (auto simp: drop_held_def destroys_def held_handles_def handles_def drop_inner_def)

lemma distinct_rev_handles: "distinct (held_handles (rev bs)) \<longleftrightarrow> distinct (held_handles bs)"
proof -
  have "mset (held_handles (rev bs)) = mset (held_handles bs)"
    by (induction bs) (auto simp: held_handles_def)
  then show ?thesis by (rule mset_eq_imp_distinct_iff)
qed

lemma set_rev_handles: "set (held_handles (rev bs)) = set (held_handles bs)"
  by (auto simp: held_handles_def)

subsection \<open>Steps\<close>

text \<open>What holds between steps: the state differs from the first by the objects of the held buffers.\<close>

definition up_inv :: "vk \<Rightarrow> held \<Rightarrow> vk \<Rightarrow> (bref \<times> u32 list) list \<Rightarrow> bool" where
  "up_inv s0 bs s C \<longleftrightarrow> vk_ok s \<and> driver s = driver s0 \<and> faults s = faults s0 \<and> live s = live s0 \<union> set (held_handles bs) \<and>
     set (held_handles bs) \<inter> live s0 = {} \<and> distinct (held_handles bs) \<and>
     list_all2 (\<lambda>(t, b) (t', xs). t = t' \<and> holds pod_u32 b s xs) bs C"

definition failed :: "vk \<Rightarrow> upload_error \<Rightarrow> vk \<Rightarrow> bool" where
  "failed s0 e t \<longleftrightarrow> (\<exists>ge. e = UploadGpu ge \<and> faults t = faults s0 \<and>
     ((\<forall>n. driver s0 n = None) \<longrightarrow> ge = NoDevice ''host-visible memory type'') \<and>
     (live t = live s0 \<or> (ge = NoDevice ''host-visible memory type'' \<and> (\<exists>h. live t = insert (VkBuffer, h) (live s0)))))"

definition up_ok :: "vk \<Rightarrow> 'a up \<Rightarrow> (bref \<times> u32 list) list \<Rightarrow> ('a \<Rightarrow> (bref \<times> u32 list) list \<Rightarrow> bool) \<Rightarrow> bool" where
  "up_ok s0 m C Q \<longleftrightarrow> (\<forall>bs s. up_inv s0 bs s C \<longrightarrow>
     (case m bs s of
        None \<Rightarrow> False
      | Some (Inl e, t) \<Rightarrow> failed s0 e t
      | Some (Inr (x, cs), t) \<Rightarrow> \<exists>C'. up_inv s0 cs t C' \<and> Q x C'))"

lemma up_ok_return: "Q x C \<Longrightarrow> up_ok s0 (up_return x) C Q"
  by (auto simp: up_ok_def up_return_def)

lemma up_ok_bind:
  assumes "up_ok s0 m C R" and "\<And>x C'. R x C' \<Longrightarrow> up_ok s0 (f x) C' Q"
  shows "up_ok s0 (up_bind m f) C Q"
  unfolding up_ok_def
proof (intro allI impI)
  fix bs s assume "up_inv s0 bs s C"
  with assms(1) have m: "case m bs s of None \<Rightarrow> False | Some (Inl e, t) \<Rightarrow> failed s0 e t
      | Some (Inr (x, cs), t) \<Rightarrow> \<exists>C'. up_inv s0 cs t C' \<and> R x C'" by (simp add: up_ok_def)
  then obtain r t where r: "m bs s = Some (r, t)" by (auto split: option.splits)
  show "case up_bind m f bs s of None \<Rightarrow> False | Some (Inl e, t) \<Rightarrow> failed s0 e t
      | Some (Inr (x, cs), t) \<Rightarrow> \<exists>C'. up_inv s0 cs t C' \<and> Q x C'"
  proof (cases r)
    case (Inl e)
    then show ?thesis using m r by (simp add: up_bind_def)
  next
    case (Inr p)
    obtain x cs where p: "p = (x, cs)" by (cases p)
    then obtain C' where "up_inv s0 cs t C'" "R x C'" using m r Inr by auto
    then show ?thesis using assms(2) [of x C'] r Inr p by (simp add: up_bind_def up_ok_def)
  qed
qed

lemma up_okE:
  assumes "up_ok s0 m C Q" and "up_inv s0 bs s C"
  obtains (err) e t where "m bs s = Some (Inl e, t)" "failed s0 e t"
  | (ok) x cs t C' where "m bs s = Some (Inr (x, cs), t)" "up_inv s0 cs t C'" "Q x C'"
proof -
  have m: "case m bs s of None \<Rightarrow> False | Some (Inl e, t) \<Rightarrow> failed s0 e t
      | Some (Inr (x, cs), t) \<Rightarrow> \<exists>C'. up_inv s0 cs t C' \<and> Q x C'" using assms by (simp add: up_ok_def)
  then obtain r t where r: "m bs s = Some (r, t)" by (auto split: option.splits)
  show thesis
  proof (cases r)
    case (Inl e)
    then show ?thesis using m r err by simp
  next
    case (Inr p)
    obtain x cs where "p = (x, cs)" by (cases p)
    then show ?thesis using m r Inr ok by auto
  qed
qed

lemma up_ok_each:
  assumes "\<And>x C. x \<in> set xs \<Longrightarrow> up_ok s0 (f x) C (\<lambda>_ C'. C' = e x # C)"
  shows "up_ok s0 (up_each f xs) C (\<lambda>_ C'. C' = rev (map e xs) @ C)"
  using assms
proof (induction xs arbitrary: C)
  case (Cons x xs)
  have h: "up_ok s0 (f x) C (\<lambda>_ C'. C' = e x # C)" by (rule Cons.prems) simp
  have "up_ok s0 (up_each f xs) (e x # C) (\<lambda>_ C'. C' = rev (map e (x # xs)) @ C)"
    using Cons.IH [OF Cons.prems, of "e x # C"] by simp
  then show ?case unfolding up_each.simps by (intro up_ok_bind [OF h]) simp
qed (simp add: up_ok_return)

lemma holds_memory:
  assumes "holds pod_u32 b s xs" and "memory t (b_memory (inner b)) = memory s (b_memory (inner b))"
  shows "holds pod_u32 b t xs"
  using assms(1) unfolding holds_def assms(2) .

text \<open>Without a failing call, only the lack of a memory type stops an allocation.\<close>

lemma quiet_alloc:
  assumes "\<forall>n. driver s n = None" and "alloc_filled d env len es usage bytes s = (Inl e, t)"
  shows "e = NoDevice ''host-visible memory type''"
  using assms
  by (auto simp: alloc_filled_def alloc_buffer_def flush_new_def flush_def Let_def g_bind_def vk_create_eq vk_call_eq g_cleanup_eq
      set_memory_def overwrite_def split: prod.splits sum.splits option.splits if_splits)

lemma up_ok_keep:
  assumes env: "reqs_cover env" and xs: "length xs * 4 < 2 ^ 64" and Q: "Q () ((tag, xs) # C)"
  shows "up_ok s0 (up_keep tag (buffer_from_iter d env pod_u32 xs STORAGE_BUFFER)) C Q"
  unfolding up_ok_def
proof (intro allI impI)
  fix bs s assume "up_inv s0 bs s C"
  then have drv: "driver s = driver s0" and inv: "vk_ok s" "faults s = faults s0" "live s = live s0 \<union> set (held_handles bs)"
    "set (held_handles bs) \<inter> live s0 = {}" "distinct (held_handles bs)"
    "list_all2 (\<lambda>(t, b) (t', xs). t = t' \<and> holds pod_u32 b s xs) bs C" by (auto simp: up_inv_def)
  have new: "(k, h) \<notin> live s" if "fresh s \<le> h" for k h using vk_ok_fresh [OF inv(1) that] .
  obtain r t where r: "buffer_from_iter d env pod_u32 xs STORAGE_BUFFER s = (r, t)" by fastforce
  show "case up_keep tag (buffer_from_iter d env pod_u32 xs STORAGE_BUFFER) bs s of None \<Rightarrow> False
      | Some (Inl e, t) \<Rightarrow> failed s0 e t | Some (Inr (x, cs), t) \<Rightarrow> \<exists>C'. up_inv s0 cs t C' \<and> Q x C'"
  proof (cases r)
    case (Inl e)
    note f = alloc_filled_Inl [OF inv(1) r [unfolded buffer_from_iter_filled Inl]]
    have nd: "(\<forall>n. driver s0 n = None) \<longrightarrow> e = NoDevice ''host-visible memory type''"
      using quiet_alloc [OF _ r [unfolded buffer_from_iter_filled Inl]] drv by simp
    have "set (held_handles bs) \<subseteq> live t" using f(2) inv(3) by auto
    note dr = destroys_live [OF inv(5) this]
    have "live t = live s \<or> e = NoDevice ''host-visible memory type'' \<and> live t = insert (VkBuffer, fresh s) (live s)" by (rule f(2))
    moreover have "(VkBuffer, fresh s) \<notin> set (held_handles bs)" using new [of "fresh s"] inv(3) by auto
    ultimately have "failed s0 (UploadGpu e) (drop_held bs t)"
      unfolding failed_def drop_held_destroys dr f(1) inv(2) using inv(3,4) nd by auto
    then show ?thesis using r Inl by (simp add: up_keep_def)
  next
    case (Inr b)
    have h: "holds pod_u32 b t xs"
      using u32s.buffer_from_iter_holds [OF r [unfolded Inr] env] xs by (simp add: pod_u32_def)
    obtain i where i: "b = whole i (of_nat (length xs))" "b_memory i = Suc (fresh s)" "b_buffer i = fresh s"
      "b_mapped i = Suc (Suc (fresh s))" "faults t = faults s" "fresh t = fresh s + 3" "driver t = driver s"
      and lv: "live t = live s \<union> {(VkBuffer, fresh s), (VkMemory, Suc (fresh s)), (VkMapping, Suc (Suc (fresh s)))}"
      and mem: "\<And>m. m \<noteq> Suc (fresh s) \<Longrightarrow> memory t m = memory s m"
      by (rule alloc_filled_Inr [OF r [unfolded buffer_from_iter_filled Inr]]) simp
    have hb: "handles b = [(VkMapping, Suc (Suc (fresh s))), (VkBuffer, fresh s), (VkMemory, Suc (fresh s))]"
      using i by (simp add: handles_def whole_def)
    have ok: "vk_ok t" using inv(1) by (auto simp: vk_ok_def lv i(6))
    have hh: "held_handles ((tag, b) # bs) = handles b @ held_handles bs" by (simp add: held_handles_def)
    have dis: "set (handles b) \<inter> live s = {}" using new by (auto simp: hb)
    have old: "holds pod_u32 b' t ys" if "(tag', b') \<in> set bs" "holds pod_u32 b' s ys" for tag' b' ys
    proof (rule holds_memory [OF that(2)])
      have "(VkMemory, b_memory (inner b')) \<in> live s" using that(1) inv(3) by (force simp: held_handles_def handles_def)
      then have "b_memory (inner b') \<noteq> Suc (fresh s)" using new [of "Suc (fresh s)" VkMemory] by auto
      then show "memory t (b_memory (inner b')) = memory s (b_memory (inner b'))" by (rule mem)
    qed
    have "list_all2 (\<lambda>(t', b) (t'', xs). t' = t'' \<and> holds pod_u32 b t xs) bs C"
      by (rule list.rel_mono_strong [OF inv(6)]) (auto dest: old)
    then have "up_inv s0 ((tag, b) # bs) t ((tag, xs) # C)"
      unfolding up_inv_def hh using ok i(5,7) drv inv(2-5) lv h dis hb by (auto simp: Int_Un_distrib)
    then show ?thesis using r Inr Q by (auto simp: up_keep_def)
  qed
qed

subsection \<open>What a validated file gives\<close>

definition file_bytes :: "gguf \<Rightarrow> string \<Rightarrow> u8 list" where
  "file_bytes g name = (case Option.bind (tensor g name) (data_of g) of Some bs \<Rightarrow> bs | None \<Rightarrow> [])"

definition file_words :: "gguf \<Rightarrow> string \<Rightarrow> u32 list" where
  "file_words g name = vec_from_le 4 (file_bytes g name)"

lemma length_words_of: "length (vec_from_le 4 bs :: u32 list) = length bs div 4"
proof (induction "length bs" arbitrary: bs rule: less_induct)
  case less
  show ?case
  proof (cases "length bs < 4")
    case True
    then show ?thesis by (simp add: vec_from_le_def chunks_exact.simps)
  next
    case False
    have "length (vec_from_le 4 (drop 4 bs) :: u32 list) = length (drop 4 bs) div 4" using False by (intro less) simp
    then have "length (vec_from_le 4 bs :: u32 list) = Suc ((length bs - 4) div 4)"
      using False by (simp add: vec_from_le_def chunks_exact.simps [of 4 bs])
    then show ?thesis using False by (simp add: le_div_geq)
  qed
qed

definition valid_file :: "gguf \<Rightarrow> bool" where
  "valid_file g \<longleftrightarrow> (\<exists>bytes. parse bytes = Inr g) \<and> from_gguf g = Inr the_model"

lemma up_ok_bytes:
  assumes v: "valid_file g" and e: "(name, ds, ty) \<in> set expected_tensors" and Q: "Q (file_bytes g name) C"
  shows "up_ok s0 (tensor_bytes g name ty) C Q"
proof -
  obtain bytes where b: "parse bytes = Inr g" "from_gguf g = Inr the_model" using v by (auto simp: valid_file_def)
  obtain t bs where "tensor g name = Some t" "dtype t = ty" "data_of g t = Some bs"
    by (rule expected_in_file [OF b e])
  then show ?thesis using Q by (simp add: tensor_bytes_def file_bytes_def up_ok_return)
qed

lemma length_file_bytes:
  assumes v: "valid_file g" and e: "(name, ds, ty) \<in> set expected_tensors"
  shows "length (file_bytes g name) = tensor_size ds ty" and "tensor_size ds ty \<le> 1156055040"
proof -
  obtain bytes where b: "parse bytes = Inr g" "from_gguf g = Inr the_model" using v by (auto simp: valid_file_def)
  obtain t bs where "tensor g name = Some t" "data_of g t = Some bs" "length bs = tensor_size ds ty"
    by (rule expected_in_file [OF b e])
  then show "length (file_bytes g name) = tensor_size ds ty" by (simp add: file_bytes_def)
  show "tensor_size ds ty \<le> 1156055040"
    using expected_shape [OF e] shapes_good by (auto simp: list_all_iff shape_good_def)
qed

lemma up_ok_tensor:
  assumes v: "valid_file g" and env: "reqs_cover env"
  shows "(name, ds, Q4_0) \<in> set expected_tensors \<Longrightarrow> Q () ((tag, file_words g name) # C) \<Longrightarrow> up_ok s0 (words d env g tag name) C Q"
    and "(name, ds, F32) \<in> set expected_tensors \<Longrightarrow> Q () ((tag, file_words g name) # C) \<Longrightarrow> up_ok s0 (f32s d env g tag name) C Q"
proof -
  have k: "up_ok s0 (up_keep tag (buffer_from_iter d env pod_u32 (vec_from_le 4 (file_bytes g name)) STORAGE_BUFFER)) C Q"
    if "(name, ds, ty) \<in> set expected_tensors" "Q () ((tag, file_words g name) # C)" for ty
  proof (rule up_ok_keep [OF env])
    have "length (file_bytes g name) < 2 ^ 64" using length_file_bytes [OF v that(1)] by simp
    then show "length (vec_from_le 4 (file_bytes g name) :: u32 list) * 4 < 2 ^ 64" unfolding length_words_of by linarith
  qed (use that(2) in \<open>simp add: file_words_def\<close>)
  show "up_ok s0 (words d env g tag name) C Q" if "(name, ds, Q4_0) \<in> set expected_tensors" "Q () ((tag, file_words g name) # C)"
    unfolding words_def
    by (rule up_ok_bind [OF up_ok_bytes [OF v that(1), where Q = "\<lambda>bs C'. bs = file_bytes g name \<and> C' = C"]])
      (use k [OF that] in auto)
  show "up_ok s0 (f32s d env g tag name) C Q" if "(name, ds, F32) \<in> set expected_tensors" "Q () ((tag, file_words g name) # C)"
    unfolding f32s_def
    by (rule up_ok_bind [OF up_ok_bytes [OF v that(1), where Q = "\<lambda>bs C'. bs = file_bytes g name \<and> C' = C"]])
      (use k [OF that] in auto)
qed

subsection \<open>Layers\<close>

definition norms :: "weight list" where
  "norms = [W_attn_norm, W_attn_q_norm, W_attn_k_norm, W_post_attention_norm, W_ffn_norm, W_post_ffw_norm]"

definition matrices :: "layer_kind \<Rightarrow> weight list" where
  "matrices k = [W_attn_q, W_attn_k] @ (case k of Sliding \<Rightarrow> [W_attn_v] | Global \<Rightarrow> []) @
     [W_attn_output, W_ffn_gate, W_ffn_up, W_ffn_down]"

definition weight_words :: "gguf \<Rightarrow> nat \<Rightarrow> weight \<Rightarrow> bref \<times> u32 list" where
  "weight_words g i w = (Wt w i, file_words g (blk_name i (weight_name w)))"

definition layer_contents :: "gguf \<Rightarrow> nat \<Rightarrow> (bref \<times> u32 list) list" where
  "layer_contents g i = map (weight_words g i) (norms @ matrices (layer_kind i))"

definition layer_meta :: "gguf \<Rightarrow> nat \<Rightarrow> layer_weights" where
  "layer_meta g i =
     \<lparr>lw_kind = layer_kind i, layer_output_scale = file_words g (blk_name i ''layer_output_scale'') ! 0\<rparr>"

lemma layer_listed: "i < x_n_layers \<Longrightarrow> t \<in> set (layer_tensors i) \<Longrightarrow> t \<in> set expected_tensors"
  by (auto simp: expected_tensors_def)

lemma norm_expected:
  assumes "i < x_n_layers" and "w \<in> set norms"
  shows "\<exists>k. (blk_name i (weight_name w), [k], F32) \<in> set expected_tensors \<and> weight_len (layer_kind i) w = Some k"
proof -
  have "\<exists>k. (blk_name i (weight_name w), [k], F32) \<in> set (layer_tensors i) \<and> weight_len (layer_kind i) w = Some k"
    using assms(2) by (auto simp: norms_def layer_tensors_def Let_def)
  then show ?thesis using layer_listed [OF assms(1)] by blast
qed

lemma matrix_expected:
  assumes "i < x_n_layers" and "w \<in> set (matrices (layer_kind i))"
  shows "\<exists>ni no. (blk_name i (weight_name w), [ni, no], Q4_0) \<in> set expected_tensors \<and> 64 dvd ni \<and> weight_len (layer_kind i) w = Some (q4_words ni no)"
proof -
  have d: "64 dvd x_hidden" "64 dvd x_ffn" "64 dvd x_n_q_heads * head_dim_of k" for k
    by (cases k; simp add: expect_defs head_dim_of_def)+
  have "\<exists>ni no. (blk_name i (weight_name w), [ni, no], Q4_0) \<in> set (layer_tensors i) \<and> 64 dvd ni \<and> weight_len (layer_kind i) w = Some (q4_words ni no)"
    using assms(2) d by (cases "layer_kind i") (auto simp: matrices_def layer_tensors_def Let_def x_weight_dtype_def blk_name_inj)
  then show ?thesis using layer_listed [OF assms(1)] by blast
qed

lemma up_ok_layer:
  assumes v: "valid_file g" and env: "reqs_cover env" and i: "i < x_n_layers"
  shows "up_ok s0 (upload_layer d env g i (layer_kind i)) C
    (\<lambda>lw C'. lw = layer_meta g i \<and> C' = rev (layer_contents g i) @ C)"
proof -
  have F: "up_ok s0 (f32s d env g (Wt w i) (blk_name i (weight_name w))) C (\<lambda>_ C'. C' = weight_words g i w # C)"
    if "w \<in> set norms" for w C
    using norm_expected [OF i that] up_ok_tensor(2) [OF v env] by (auto simp: weight_words_def)
  have M: "up_ok s0 (words d env g (Wt w i) (blk_name i (weight_name w))) C (\<lambda>_ C'. C' = weight_words g i w # C)"
    if "w \<in> set (matrices (layer_kind i))" for w C
    using matrix_expected [OF i that] up_ok_tensor(1) [OF v env] by (auto simp: weight_words_def)
  have V: "up_ok s0 (case layer_kind i of Sliding \<Rightarrow> words d env g (Wt W_attn_v i) (blk_name i (weight_name W_attn_v)) | Global \<Rightarrow> up_return ()) C
      (\<lambda>_ C'. C' = map (weight_words g i) (case layer_kind i of Sliding \<Rightarrow> [W_attn_v] | Global \<Rightarrow> []) @ C)" for C
    using M [of W_attn_v C] by (cases "layer_kind i") (simp_all add: matrices_def up_ok_return)
  have e: "(blk_name i ''layer_output_scale'', [1], F32) \<in> set expected_tensors"
    using i by (auto simp: expected_tensors_def layer_tensors_def Let_def)
  let ?sb = "file_bytes g (blk_name i ''layer_output_scale'')"
  have sb: "length ?sb = 4" using length_file_bytes(1) [OF v e] by (simp add: tensor_size_def)
  then have sc: "from_le_bytes ?sb = file_words g (blk_name i ''layer_output_scale'') ! 0"
    by (simp add: file_words_def vec_from_le_def chunks_exact.simps)
  show ?thesis
    unfolding upload_layer_def Let_def
    by (rule up_ok_bind [OF up_ok_bytes [OF v e, where Q = "\<lambda>bs C'. bs = ?sb \<and> C' = C"]], simp, elim conjE, hypsubst)
      (rule up_ok_bind [OF up_ok_each [where e = "weight_words g i"]], rule F, simp add: norms_def, hypsubst,
       rule up_ok_bind [OF up_ok_each [where e = "weight_words g i"]], rule M, force simp: matrices_def, hypsubst,
       rule up_ok_bind [OF V], hypsubst,
       rule up_ok_bind [OF up_ok_each [where e = "weight_words g i"]], rule M, force simp: matrices_def, hypsubst,
       cases "layer_kind i",
       simp_all add: sb up_ok_return layer_meta_def sc layer_contents_def norms_def matrices_def)
qed

lemma layers_from: "i + length (kind # kinds) \<le> n \<Longrightarrow> [i..<i + length (kind # kinds)] = i # [Suc i..<Suc i + length kinds]"
  by (simp add: upt_conv_Cons del: upt_Suc)

lemma up_ok_layers:
  assumes v: "valid_file g" and env: "reqs_cover env"
    and "i + length kinds \<le> x_n_layers" and "kinds = map layer_kind [i..<i + length kinds]"
  shows "up_ok s0 (upload_layers d env g i kinds) C
    (\<lambda>lws C'. lws = map (layer_meta g) [i..<i + length kinds] \<and>
      C' = rev (concat (map (layer_contents g) [i..<i + length kinds])) @ C)"
  using assms(3,4)
proof (induction kinds arbitrary: i C)
  case (Cons kind kinds)
  note u = layers_from [OF Cons.prems(1)]
  have k: "kind = layer_kind i" and ks: "kinds = map layer_kind [Suc i..<Suc i + length kinds]"
    using Cons.prems(2) unfolding u by simp_all
  have b: "i < x_n_layers" "Suc i + length kinds \<le> x_n_layers" using Cons.prems(1) by simp_all
  show ?case
    unfolding upload_layers.simps u k
    by (rule up_ok_bind [OF up_ok_layer [OF v env b(1)]], elim conjE, hypsubst,
        rule up_ok_bind [OF Cons.IH [OF b(2) ks]], elim conjE, hypsubst, rule up_ok_return) (simp add: upt_conv_Cons del: upt_Suc)
qed (simp add: up_ok_return)

subsection \<open>The embedding table\<close>

definition embd_row :: "gguf \<Rightarrow> nat \<Rightarrow> u8 list" where
  "embd_row g r = take 4410 (drop (r * 4410) (file_bytes g ''token_embd.weight'')) @ replicate 6 0"

definition embd_words :: "gguf \<Rightarrow> u32 list" where
  "embd_words g = vec_from_le 4 (concat (map (embd_row g) [0..<x_vocab]))"

lemma pack_rows_ok:
  fixes n rb st :: nat and src :: "u8 list"
  defines "row \<equiv> \<lambda>r. take rb (drop (r * rb) src) @ replicate (st - rb) 0"
  assumes st: "rb \<le> st" and src: "n * rb \<le> length src" and "k \<le> n"
  shows "pack_rows src rb st [k..<n] (concat (map row [0..<k]) @ replicate ((n - k) * st) 0) = Some (concat (map row [0..<n]))"
  using assms(4)
proof (induction "n - k" arbitrary: k)
  case 0
  then show ?case by simp
next
  case (Suc j)
  then have k: "k < n" by simp
  have len: "length (concat (map row [0..<k])) = k * st"
  proof -
    have "length (row r) = st" if "r < n" for r
    proof -
      have "Suc r * rb \<le> n * rb" using that by (intro mult_le_mono1) simp
      then show ?thesis using src st by (simp add: row_def)
    qed
    then show ?thesis using k by (subst length_concat_rows [where k = st]) auto
  qed
  have nk: "(n - k) * st = st + (n - Suc k) * st" using k by (metis Suc_diff_Suc mult_Suc)
  have b: "k * st + rb \<le> length (concat (map row [0..<k]) @ replicate ((n - k) * st) 0)"
    using st by (simp add: len nk del: length_concat)
  have s: "k * rb + rb \<le> length src"
  proof -
    have "Suc k * rb \<le> n * rb" using k by (intro mult_le_mono1) simp
    then show ?thesis using src by simp
  qed
  have cut: "take (k * st) (A @ R) = A" "drop (k * st + rb) (A @ R) = drop rb R" if "length A = k * st" for A R :: "u8 list"
    using that by simp_all
  have "drop rb (replicate ((n - k) * st) 0) = replicate (st - rb) 0 @ replicate ((n - Suc k) * st) (0 :: u8)"
    using st unfolding nk by (simp add: replicate_add [symmetric])
  then have "take (k * st) (concat (map row [0..<k]) @ replicate ((n - k) * st) 0) @ take rb (drop (k * rb) src) @
      drop (k * st + rb) (concat (map row [0..<k]) @ replicate ((n - k) * st) 0) =
      concat (map row [0..<Suc k]) @ replicate ((n - Suc k) * st) 0"
    unfolding cut [OF len] by (simp add: row_def)
  moreover have "pack_rows src rb st [Suc k..<n] (concat (map row [0..<Suc k]) @ replicate ((n - Suc k) * st) 0) = Some (concat (map row [0..<n]))"
    using Suc by (intro Suc.hyps(1)) simp_all
  ultimately show ?case
    using b s upt_conv_Cons [OF k] by (simp del: length_append length_concat)
qed

lemma length_embd:
  assumes v: "valid_file g"
  shows "length (embd_words g) = x_vocab * 1104"
proof -
  have e: "(''token_embd.weight'', [x_hidden, x_vocab], Q6_K) \<in> set expected_tensors"
    by (simp add: expected_tensors_def x_embed_dtype_def)
  have src: "x_vocab * 4410 \<le> length (file_bytes g ''token_embd.weight'')"
    unfolding length_file_bytes(1) [OF v e] by (simp add: tensor_size_def expect_defs)
  have "length (concat (map (embd_row g) [0..<x_vocab])) = x_vocab * 4416"
  proof -
    have "length (embd_row g r) = 4416" if "r < x_vocab" for r
    proof -
      have "Suc r * 4410 \<le> x_vocab * 4410" using that by (intro mult_le_mono1) simp
      then show ?thesis using src by (simp add: embd_row_def)
    qed
    then show ?thesis by (subst length_concat_rows [where k = 4416]) auto
  qed
  then show ?thesis by (simp add: embd_words_def length_words_of del: length_concat)
qed

lemma up_ok_embd:
  assumes v: "valid_file g" and env: "reqs_cover env"
  shows "up_ok s0 (upload_q6k_repacked d env g the_model) C (\<lambda>_ C'. C' = (TokenEmbd, embd_words g) # C)"
proof -
  let ?src = "file_bytes g ''token_embd.weight''"
  have e: "(''token_embd.weight'', [x_hidden, x_vocab], Q6_K) \<in> set expected_tensors"
    by (simp add: expected_tensors_def x_embed_dtype_def)
  have sz: "hidden_size the_model div qk6_k * block_q6_k_size = 4410" "Q6K_ROW_WORDS * 4 = 4416" "vocab_size the_model = x_vocab"
    by (simp_all add: the_model_def x_hidden_def qk6_k_def block_q6_k_size_def Q6K_ROW_WORDS_def)
  have src: "x_vocab * 4410 \<le> length ?src"
    unfolding length_file_bytes(1) [OF v e] by (simp add: tensor_size_def expect_defs)
  have rw: "(\<lambda>r. take 4410 (drop (r * 4410) ?src) @ replicate (4416 - 4410) 0) = embd_row g"
    by (rule ext) (simp add: embd_row_def)
  have p: "pack_rows ?src 4410 4416 [0..<x_vocab] (replicate (x_vocab * 4416) 0) = Some (concat (map (embd_row g) [0..<x_vocab]))"
    using pack_rows_ok [of 4410 4416 x_vocab ?src 0] src unfolding rw by simp
  have "up_ok s0 (up_keep TokenEmbd (buffer_from_iter d env pod_u32 (embd_words g) STORAGE_BUFFER)) C (\<lambda>_ C'. C' = (TokenEmbd, embd_words g) # C)"
    by (rule up_ok_keep [OF env]) (simp_all add: length_embd [OF v] x_vocab_def)
  then show ?thesis
    unfolding upload_q6k_repacked_def Let_def sz
    by (intro up_ok_bind [OF up_ok_bytes [OF v e, where Q = "\<lambda>bs C'. bs = ?src \<and> C' = C"]]) (auto simp: p embd_words_def)
qed

subsection \<open>Upload\<close>

definition contents :: "gguf \<Rightarrow> (bref \<times> u32 list) list" where
  "contents g = concat (map (layer_contents g) [0..<x_n_layers]) @
     [(TokenEmbd, embd_words g), (OutputNorm, file_words g ''output_norm.weight''), (NormOnes, replicate 512 0x3F800000)]"

lemma up_ok_parts:
  assumes v: "valid_file g" and env: "reqs_cover env"
  shows "up_ok s0 (upload_parts d env g the_model) []
    (\<lambda>r C'. r = (map (layer_meta g) [0..<x_n_layers], file_words g ''rope_freqs.weight'') \<and> C' = rev (contents g))"
proof -
  have k: "layer_kinds the_model = map layer_kind [0..<x_n_layers]" by (simp add: the_model_def)
  have L: "up_ok s0 (upload_layers d env g 0 (layer_kinds the_model)) []
      (\<lambda>lws C'. lws = map (layer_meta g) [0..<x_n_layers] \<and> C' = rev (concat (map (layer_contents g) [0..<x_n_layers])))"
    using up_ok_layers [OF v env, of 0 "layer_kinds the_model" s0 d "[]"] by (simp add: k)
  have e: "(''output_norm.weight'', [x_hidden], F32) \<in> set expected_tensors"
    "(''rope_freqs.weight'', [x_global_head_dim div 2], F32) \<in> set expected_tensors"
    by (simp_all add: expected_tensors_def)
  show ?thesis
    unfolding upload_parts_def
    by (rule up_ok_bind [OF L], elim conjE, hypsubst,
        rule up_ok_bind [OF up_ok_embd [OF v env]], hypsubst,
        rule up_ok_bind [OF up_ok_tensor(2) [OF v env e(1), where Q = "\<lambda>_ C'. C' = (OutputNorm, file_words g ''output_norm.weight'') #
          (TokenEmbd, embd_words g) # rev (concat (map (layer_contents g) [0..<x_n_layers]))"]], rule refl, hypsubst,
        rule up_ok_bind [OF up_ok_keep [OF env, where Q = "\<lambda>_ C'. C' = rev (contents g)"]], simp, simp add: contents_def, hypsubst,
        rule up_ok_bind [OF up_ok_bytes [OF v e(2), where Q = "\<lambda>bs C'. bs = file_bytes g ''rope_freqs.weight'' \<and> C' = rev (contents g)"]],
        simp, elim conjE, hypsubst, rule up_ok_return) (simp add: file_words_def)
qed

lemma contents_lengths:
  assumes v: "valid_file g" and c: "(tag, xs) \<in> set (contents g)"
  shows "Some (length xs) = model_len cap chunk tag"
proof -
  have len: "length (file_words g name) = tensor_size ds ty div 4" if "(name, ds, ty) \<in> set expected_tensors" for name ds ty
    using length_file_bytes(1) [OF v that] by (simp add: file_words_def length_words_of)
  have norm: "Some (length (file_words g (blk_name i (weight_name w)))) = weight_len (layer_kind i) w"
    if i: "i < x_n_layers" "w \<in> set norms" for i w
    using norm_expected [OF i] len by (auto simp: tensor_size_def)
  have matrix: "Some (length (file_words g (blk_name i (weight_name w)))) = weight_len (layer_kind i) w"
    if i: "i < x_n_layers" "w \<in> set (matrices (layer_kind i))" for i w
  proof -
    obtain ni no where e: "(blk_name i (weight_name w), [ni, no], Q4_0) \<in> set expected_tensors" "64 dvd ni"
      "weight_len (layer_kind i) w = Some (q4_words ni no)" using matrix_expected [OF i] by blast
    then obtain k where "ni = 64 * k" by blast
    then have "ni * no div 32 * 18 div 4 = q4_words ni no" by (simp add: q4_words_def mult.assoc)
    then show ?thesis using len [OF e(1)] e(3) by (simp add: tensor_size_def)
  qed
  have e: "(''output_norm.weight'', [x_hidden], F32) \<in> set expected_tensors" by (simp add: expected_tensors_def)
  have emb: "length (embd_words g) = x_vocab * Q6K_ROW_WORDS"
    by (simp add: length_embd [OF v] Q6K_ROW_WORDS_def)
  show ?thesis
    using c norm matrix emb len [OF e]
    by (auto simp: contents_def layer_contents_def weight_words_def tensor_size_def)
qed

text \<open>
  C8: Uploading the weights of a file that parses and validates never panics, and fails only with an
  error of the driver (or when no memory type is visible to the host), after which everything made so
  far has been destroyed once - but for the \<open>VkBuffer\<close> an allocation without a memory type leaves.
  When it succeeds, the buffers are, layer by layer, the ones the graph model binds, each reads as the
  words of its tensor (the embedding rows padded to the stride of the logits kernel; no V projection
  on global layers) and has the length its kernels assume; layer kinds,
  output scales and rotary factors are those of the file; and dropping the weights destroys exactly
  what was made.
\<close>

theorem upload_weights:
  assumes "parse bytes = Inr g" and "from_gguf g = Inr desc" and "vk_ok s" and "reqs_cover env"
  shows "case upload d env g desc s of
      None \<Rightarrow> False
    | Some (Inl e, t) \<Rightarrow> failed s e t
    | Some (Inr w, t) \<Rightarrow>
        gw_layers w = map (layer_meta g) [0..<x_n_layers] \<and> gw_rope_factors w = file_words g ''rope_freqs.weight'' \<and>
        list_all2 (\<lambda>(tag, b) (tag', xs). tag = tag' \<and> fst (read_guard pod_u32 b t) \<in> {Inr (Some xs)} \<union> range Inl \<and>
          Some (unat (b_len b)) = model_len cap chunk tag) (gw_buffers w) (contents g) \<and>
        live (drop_weights w t) = live s \<and> faults (drop_weights w t) = faults s"
proof -
  have d: "desc = the_model" using assms(2) by (auto simp: from_gguf_def validate_def Let_def split: if_splits)
  then have v: "valid_file g" using assms(1,2) by (auto simp: valid_file_def)
  have inv0: "up_inv s [] s []" using assms(3) by (simp add: up_inv_def held_handles_def)
  show ?thesis
  proof (rule up_okE [OF up_ok_parts [OF v assms(4), where d = d] inv0])
    fix e t assume "upload_parts d env g the_model [] s = Some (Inl e, t)" "failed s e t"
    then show ?thesis by (simp add: upload_def d)
  next
    fix x cs t C'
    assume ok: "upload_parts d env g the_model [] s = Some (Inr (x, cs), t)" "up_inv s cs t C'"
      "x = (map (layer_meta g) [0..<x_n_layers], file_words g ''rope_freqs.weight'') \<and> C' = rev (contents g)"
    have C': "C' = rev (contents g)" and x: "x = (map (layer_meta g) [0..<x_n_layers], file_words g ''rope_freqs.weight'')"
      using ok(3) by simp_all
    have i: "live t = live s \<union> set (held_handles cs)" "set (held_handles cs) \<inter> live s = {}" "distinct (held_handles cs)"
      "faults t = faults s" "list_all2 (\<lambda>(t', b) (t'', xs). t' = t'' \<and> holds pod_u32 b t xs) cs (rev (contents g))"
      using ok(2) unfolding up_inv_def C' by blast+
    have "set (held_handles (rev cs)) \<subseteq> live t" using i(1) by (simp add: set_rev_handles)
    from destroys_live [OF iffD2 [OF distinct_rev_handles i(3)] this]
    have dr: "live (drop_held (rev cs) t) = live s" "faults (drop_held (rev cs) t) = faults s"
      using i(1,2,4) by (auto simp: drop_held_destroys set_rev_handles)
    have "list_all2 (\<lambda>(t', b) (t'', xs). t' = t'' \<and> holds pod_u32 b t xs) (rev cs) (contents g)"
      using i(5) by (metis list_all2_rev rev_rev_ident)
    then have "list_all2 (\<lambda>(tag, b) (tag', xs). tag = tag' \<and> fst (read_guard pod_u32 b t) \<in> {Inr (Some xs)} \<union> range Inl \<and>
        Some (unat (b_len b)) = model_len cap chunk tag) (rev cs) (contents g)"
    proof (rule list.rel_mono_strong)
      fix x y assume y: "y \<in> set (contents g)" and h: "(case x of (t', b) \<Rightarrow> \<lambda>(t'', xs). t' = t'' \<and> holds pod_u32 b t xs) y"
      obtain tag b xs where xy: "x = (tag, b)" "y = (tag, xs)" "holds pod_u32 b t xs" using h by (cases x; cases y) auto
      have "Some (unat (b_len b)) = model_len cap chunk tag"
        using contents_lengths [OF v y [unfolded xy(2)], of cap chunk] xy(3) by (simp add: holds_def)
      then show "(case x of (tag, b) \<Rightarrow> \<lambda>(tag', xs). tag = tag' \<and> fst (read_guard pod_u32 b t) \<in> {Inr (Some xs)} \<union> range Inl \<and>
          Some (unat (b_len b)) = model_len cap chunk tag) y"
        using u32s.holds_read [OF xy(3)] xy(1,2) by auto
    qed
    then show ?thesis using ok(1) dr by (simp add: upload_def d drop_weights_def x)
  qed
qed

theorem upload_weights_witness:
  "case upload sample_ctx sample_env model_gguf the_model (vk_init (\<lambda>_. None)) of
      None \<Rightarrow> False
    | Some (Inl e, t) \<Rightarrow> failed (vk_init (\<lambda>_. None)) e t
    | Some (Inr w, t) \<Rightarrow>
        gw_layers w = map (layer_meta model_gguf) [0..<x_n_layers] \<and> gw_rope_factors w = file_words model_gguf ''rope_freqs.weight'' \<and>
        list_all2 (\<lambda>(tag, b) (tag', xs). tag = tag' \<and> fst (read_guard pod_u32 b t) \<in> {Inr (Some xs)} \<union> range Inl \<and>
          Some (unat (b_len b)) = model_len 1024 64 tag) (gw_buffers w) (contents model_gguf) \<and>
        live (drop_weights w t) = live (vk_init (\<lambda>_. None)) \<and> faults (drop_weights w t) = faults (vk_init (\<lambda>_. None))"
  by (rule upload_weights [OF model_parse(1) model_validates vk_ok_init sample_env_cover])

end
