(* ===== verification/Model_New_Props.thy ===== *)
theory Model_New_Props
  imports Model_New Weight_Upload_Props
begin

text \<open>
  A model made from a validated file is the one the recording assumes (\<open>built\<close>), owns every object
  made on the way exactly once, and an error on the way leaves nothing behind.
\<close>

subsection \<open>The objects of a piece\<close>

definition kernel_handles :: "kernel \<Rightarrow> (vk_kind \<times> nat) list" where
  "kernel_handles k = [(VkPipeline, k_pipeline k), (VkPipelineLayout, k_pipeline_layout k), (VkSetLayout, k_set_layout k),
     (VkShaderModule, k_shader k)]"

fun piece_handles :: "piece \<Rightarrow> (vk_kind \<times> nat) list" where
  "piece_handles (Buf t b) = handles b"
| "piece_handles (Kern t k) = kernel_handles k"

definition all_handles :: "piece list \<Rightarrow> (vk_kind \<times> nat) list" where
  "all_handles ps = concat (map piece_handles ps)"

lemma drop_piece_destroys: "drop_piece p s = destroys (piece_handles p) s"
  by (cases p) (simp_all add: destroys_def handles_def kernel_handles_def drop_inner_def drop_kernel_def)

lemma drop_pieces_destroys: "drop_pieces ps s = destroys (all_handles ps) s"
  by (induction ps arbitrary: s) (simp_all add: drop_pieces_def all_handles_def drop_piece_destroys destroys_def)

lemma held_pieces: "all_handles (map (\<lambda>(t, b). Buf t b) bs) = held_handles bs"
  by (induction bs) (auto simp: all_handles_def held_handles_def)

subsection \<open>Steps\<close>

fun made :: "item \<Rightarrow> piece \<Rightarrow> bool" where
  "made (NewBuffer t n) p \<longleftrightarrow> (\<exists>b. p = Buf t b \<and> unat (b_len b) = n)"
| "made (LoadKernel t) p \<longleftrightarrow> (\<exists>k. p = Kern t k \<and> k_name k = kernel_name t \<and> k_workgroup k = v_workgroup (variant_of t))"
| "made NewStep p \<longleftrightarrow> (\<exists>b. p = Buf Step b \<and> b_len b = STEP_WORDS)"

definition owns :: "vk \<Rightarrow> piece list \<Rightarrow> vk \<Rightarrow> bool" where
  "owns s0 ps s \<longleftrightarrow> vk_ok s \<and> driver s = driver s0 \<and> faults s = faults s0 \<and> live s = live s0 \<union> set (all_handles ps) \<and>
     set (all_handles ps) \<inter> live s0 = {} \<and> distinct (all_handles ps)"

lemma owns_more:
  assumes "owns s0 ps s" and "vk_ok t" "driver t = driver s" "faults t = faults s" "live t = live s \<union> set (piece_handles p)"
    and "distinct (piece_handles p)" "set (piece_handles p) \<inter> live s = {}"
  shows "owns s0 (p # ps) t"
  using assms by (auto simp: owns_def all_handles_def)

lemma owns_fail:
  assumes "owns s0 ps s" "faults t = faults s"
    and "live t = live s \<or> e = NoDevice ''host-visible memory type'' \<and> (\<exists>h. live t = insert (VkBuffer, h) (live s) \<and> (VkBuffer, h) \<notin> live s)"
    and "(\<forall>n. driver s n = None) \<Longrightarrow> e = NoDevice ''host-visible memory type''"
  shows "failed s0 (UploadGpu e) (drop_pieces ps t)"
proof -
  have i: "driver s = driver s0" "faults s = faults s0" "live s = live s0 \<union> set (all_handles ps)"
    "set (all_handles ps) \<inter> live s0 = {}" "distinct (all_handles ps)" using assms(1) by (auto simp: owns_def)
  have "set (all_handles ps) \<subseteq> live t" using assms(3) i(3) by auto
  note dr = destroys_live [OF i(5) this]
  show ?thesis
    unfolding failed_def drop_pieces_destroys dr assms(2) i(2) using assms(3,4) i by auto
qed

lemma owns_drop:
  assumes "owns s0 ps s"
  shows "live (drop_pieces ps s) = live s0" "faults (drop_pieces ps s) = faults s0"
proof -
  have i: "faults s = faults s0" "live s = live s0 \<union> set (all_handles ps)"
    "set (all_handles ps) \<inter> live s0 = {}" "distinct (all_handles ps)" using assms by (auto simp: owns_def)
  have "set (all_handles ps) \<subseteq> live s" using i(2) by auto
  from destroys_live [OF i(4) this] i show "live (drop_pieces ps s) = live s0" "faults (drop_pieces ps s) = faults s0"
    by (auto simp: drop_pieces_destroys)
qed

lemma load_kernel_state:
  assumes "load_kernel registry name s = (Inr k, t)"
  shows "driver t = driver s" "fresh t = fresh s + 4"
  using assms
  by (auto simp: load_kernel_def g_bind_def vk_create_from_eq g_cleanup_eq split: option.splits if_splits)

lemma load_kernel_quiet:
  assumes "\<forall>n. driver s n = None" "find_blob registry name = Some b"
  shows "load_kernel registry name s \<noteq> (Inl e, t)"
  using assms by (auto simp: load_kernel_def g_bind_def vk_create_from_eq g_cleanup_eq split: option.splits)

lemma alloc_step:
  assumes o: "owns s0 ps s" and r: "alloc_filled d env len es usage bytes s = (r, t)"
  shows "case r of Inl e \<Rightarrow> failed s0 (UploadGpu e) (drop_pieces ps t)
    | Inr b \<Rightarrow> b_len b = len \<and> (\<forall>tag. owns s0 (Buf tag b # ps) t)"
proof (cases r)
  case (Inl e)
  have ok: "vk_ok s" using o by (simp add: owns_def)
  note f = alloc_filled_Inl [OF ok r [unfolded Inl]]
  have "failed s0 (UploadGpu e) (drop_pieces ps t)"
  proof (rule owns_fail [OF o f(1)])
    show "live t = live s \<or> e = NoDevice ''host-visible memory type'' \<and> (\<exists>h. live t = insert (VkBuffer, h) (live s) \<and> (VkBuffer, h) \<notin> live s)"
      using f(2) vk_ok_fresh [OF ok, of "fresh s" VkBuffer] by auto
    show "\<forall>n. driver s n = None \<Longrightarrow> e = NoDevice ''host-visible memory type''"
      by (rule quiet_alloc [OF _ r [unfolded Inl]])
  qed
  then show ?thesis using Inl by simp
next
  case (Inr b)
  have ok: "vk_ok s" using o by (simp add: owns_def)
  obtain i where i: "b = whole i len" "b_memory i = Suc (fresh s)" "b_buffer i = fresh s"
    "b_mapped i = Suc (Suc (fresh s))" "faults t = faults s" "fresh t = fresh s + 3" "driver t = driver s"
    and lv: "live t = live s \<union> {(VkBuffer, fresh s), (VkMemory, Suc (fresh s)), (VkMapping, Suc (Suc (fresh s)))}"
    by (rule alloc_filled_Inr [OF r [unfolded Inr]]) simp
  have hb: "piece_handles (Buf tag b) = [(VkMapping, Suc (Suc (fresh s))), (VkBuffer, fresh s), (VkMemory, Suc (fresh s))]" for tag
    using i by (simp add: handles_def whole_def)
  have "vk_ok t" using ok by (auto simp: vk_ok_def lv i(6))
  then have "owns s0 (Buf tag b # ps) t" for tag
    by (intro owns_more [OF o]) (use i(5-7) lv vk_ok_fresh [OF ok] in \<open>auto simp: hb simp del: piece_handles.simps\<close>)
  then show ?thesis using Inr i(1) by (simp add: whole_def)
qed

lemma kernel_step:
  assumes o: "owns s0 ps s" and b: "find_blob reg name = Some blob" and r: "load_kernel reg name s = (r, t)"
  shows "case r of Inl e \<Rightarrow> failed s0 (UploadGpu e) (drop_pieces ps t)
    | Inr k \<Rightarrow> k_name k = name \<and> k_workgroup k = kb_workgroup blob \<and> (\<forall>tag. owns s0 (Kern tag k # ps) t)"
proof (cases r)
  case (Inl e)
  have ok: "vk_ok s" using o by (simp add: owns_def)
  have "failed s0 (UploadGpu e) (drop_pieces ps t)"
    by (rule owns_fail [OF o load_kernel_Inl(2) [OF ok r [unfolded Inl]]])
      (use load_kernel_Inl(1) [OF ok r [unfolded Inl]] load_kernel_quiet [OF _ b] r Inl in auto)
  then show ?thesis using Inl by simp
next
  case (Inr k)
  have ok: "vk_ok s" using o by (simp add: owns_def)
  note st = load_kernel_state [OF r [unfolded Inr]]
  show ?thesis
  proof (rule load_kernel_Inr [OF r [unfolded Inr]])
    fix b' assume k: "find_blob reg name = Some b'" "k_name k = name" "k_workgroup k = kb_workgroup b'"
      "live t = live s \<union> {(VkShaderModule, k_shader k), (VkSetLayout, k_set_layout k), (VkPipelineLayout, k_pipeline_layout k), (VkPipeline, k_pipeline k)}"
      "k_shader k = fresh s" "k_set_layout k = Suc (fresh s)" "k_pipeline_layout k = Suc (Suc (fresh s))"
      "k_pipeline k = Suc (Suc (Suc (fresh s)))" "faults t = faults s"
    have "vk_ok t" using ok k(5-8) st(2) by (auto simp: vk_ok_def k(4))
    then have "owns s0 (Kern tag k # ps) t" for tag
      by (intro owns_more [OF o]) (use k st vk_ok_fresh [OF ok] in \<open>auto simp: kernel_handles_def\<close>)
    then show ?thesis using k(1-3) b Inr by simp
  qed
qed

subsection \<open>All pieces\<close>

definition item_ok :: "item \<Rightarrow> bool" where
  "item_ok it \<longleftrightarrow> (\<forall>b n. it = NewBuffer b n \<longrightarrow> n < 2 ^ 64)"

lemma acquire_step:
  fixes code :: "variant \<Rightarrow> u32 list"
  assumes o: "owns s0 ps s" and ok: "item_ok it" and r: "acquire d env (KERNELS code) it s = (r, t)"
  shows "case r of Inl e \<Rightarrow> failed s0 (UploadGpu e) (drop_pieces ps t) | Inr p \<Rightarrow> owns s0 (p # ps) t \<and> made it p"
proof (cases it)
  case (NewBuffer tag n)
  let ?m = "if wide tag then new_buffer d env pod_u32 (of_nat n) STORAGE_BUFFER else new_buffer d env pod_u16 (of_nat n) STORAGE_BUFFER"
  obtain q u where q: "?m s = (q, u)" by fastforce
  obtain es f where "alloc_filled d env (of_nat n) es STORAGE_BUFFER f s = (q, u)"
    using q by (auto simp: new_buffer_filled split: if_splits)
  note st = alloc_step [OF o this]
  have n: "unat (of_nat n :: u64) = n" using ok NewBuffer by (intro unat_u64) (simp add: item_ok_def)
  show ?thesis using r q st n NewBuffer by (cases q) (auto simp: g_map_def g_bind_def)
next
  case (LoadKernel k)
  obtain q u where q: "load_kernel (KERNELS code) (kernel_name k) s = (q, u)" by fastforce
  have b: "find_blob (KERNELS code) (kernel_name k) = Some (blob_of code (variant_of k))"
    using find_blob_registry [OF variant_listed [of k], of code] by (simp add: variant_named)
  note st = kernel_step [OF o b q]
  show ?thesis using r q st LoadKernel by (cases q) (auto simp: g_map_def g_bind_def blob_of_def)
next
  case NewStep
  obtain q u where q: "new_step_buffer d env s = (q, u)" by fastforce
  note st = alloc_step [OF o q [unfolded new_step_buffer_def new_buffer_filled]]
  show ?thesis using r q st NewStep by (cases q) (auto simp: g_map_def g_bind_def)
qed

lemma acquire_all_made:
  fixes code :: "variant \<Rightarrow> u32 list"
  assumes "owns s0 ps s" "list_all2 made old ps" "list_all item_ok its" "acquire_all d env (KERNELS code) its ps s = (r, t)"
  shows "case r of Inl e \<Rightarrow> failed s0 e t | Inr os \<Rightarrow> owns s0 os t \<and> list_all2 made (rev its @ old) os"
  using assms
proof (induction its arbitrary: ps s old)
  case Nil
  then show ?case by auto
next
  case (Cons it its)
  obtain q u where q: "acquire d env (KERNELS code) it s = (q, u)" by fastforce
  have ok: "item_ok it" using Cons.prems(3) by simp
  note st = acquire_step [OF Cons.prems(1) ok q]
  show ?case
  proof (cases q)
    case (Inl e)
    then show ?thesis using st q Cons.prems(4) by auto
  next
    case (Inr p)
    have "list_all2 made (it # old) (p # ps)" using st Inr Cons.prems(2) by simp
    from Cons.IH [OF _ this _, of u] show ?thesis using st q Inr Cons.prems(3,4) by (cases r) simp_all
  qed
qed

subsection \<open>Looking pieces up\<close>

fun item_len :: "item \<Rightarrow> (bref \<times> nat) list" where
  "item_len (NewBuffer b n) = [(b, n)]"
| "item_len NewStep = [(Step, unat STEP_WORDS)]"
| "item_len (LoadKernel k) = []"

definition item_lens :: "item list \<Rightarrow> (bref \<times> nat) list" where
  "item_lens its = concat (map item_len its)"

lemma item_lens_append [simp]: "item_lens (xs @ ys) = item_lens xs @ item_lens ys"
  by (simp add: item_lens_def)

lemma buffers_made: "list_all2 made its ps \<Longrightarrow> map (\<lambda>(t, b). (t, unat (b_len b))) (buffers_in ps) = item_lens its"
proof (induction rule: list_all2_induct)
  case (Cons it its p ps)
  then show ?case by (cases it) (auto simp: item_lens_def)
qed (simp add: item_lens_def)

lemma kernels_made:
  "list_all2 made its ps \<Longrightarrow> (k, x) \<in> set (kernels_in ps) \<Longrightarrow> k_name x = kernel_name k \<and> k_workgroup x = v_workgroup (variant_of k)"
proof (induction rule: list_all2_induct)
  case (Cons it its p ps)
  then show ?case by (cases it) auto
qed simp

fun item_kernel :: "item \<Rightarrow> kname list" where
  "item_kernel (LoadKernel k) = [k]"
| "item_kernel it = []"

lemma kernels_made_names: "list_all2 made its ps \<Longrightarrow> map fst (kernels_in ps) = concat (map item_kernel its)"
proof (induction rule: list_all2_induct)
  case (Cons it its p ps)
  then show ?case by (cases it) auto
qed simp

lemma map_of_lens: "map_option f (map_of xs k) = map_of (map (\<lambda>(t, b). (t, f b)) xs) k"
  by (induction xs) auto

lemma map_of_table:
  assumes "\<And>b n. (b, n) \<in> set xs \<Longrightarrow> len b = Some n" and "\<And>b. len b \<noteq> None \<Longrightarrow> b \<in> fst ` set xs"
  shows "map_of xs b = len b"
proof (cases "map_of xs b")
  case None
  then show ?thesis using assms(2) [of b] by (cases "len b") (auto simp: map_of_eq_None_iff)
next
  case (Some n)
  then show ?thesis using assms(1) map_of_SomeD by fastforce
qed

subsection \<open>The lengths of the model\<close>

lemma kv_items_lens:
  "i + length kinds \<le> x_n_layers \<Longrightarrow> kinds = map layer_kind [i..<i + length kinds] \<Longrightarrow>
     set (item_lens (kv_items the_model cap i kinds)) =
       {(b, n). \<exists>j \<in> {i..<i + length kinds}. b \<in> set (kv_stores (layer_kind j) j) \<and> n = the (kv_len the_model cap (layer_kind j) b)}"
proof (induction kinds arbitrary: i)
  case (Cons kind kinds)
  note u = layers_from [OF Cons.prems(1)]
  have k: "kind = layer_kind i" and ks: "kinds = map layer_kind [Suc i..<Suc i + length kinds]"
    using Cons.prems(2) unfolding u by simp_all
  have b: "Suc i + length kinds \<le> x_n_layers" using Cons.prems(1) by simp
  have r: "{i..<i + Suc (length kinds)} = insert i {Suc i..<Suc i + length kinds}" by auto
  have h: "item_lens (sized f bs) = map (\<lambda>b. (b, the (f b))) bs" for f bs
    by (induction bs) (simp_all add: item_lens_def sized_def)
  show ?case
    unfolding kv_items.simps item_lens_append set_append length_Cons Cons.IH [OF b ks] r h k by auto
qed (simp add: item_lens_def)

definition weight_items :: "gguf \<Rightarrow> item list" where
  "weight_items g = map (\<lambda>(b, xs). NewBuffer b (length xs)) (contents g)"

lemma item_lens_map: "item_lens (map (\<lambda>x. NewBuffer (f x) (n x)) xs) = map (\<lambda>x. (f x, n x)) xs"
  by (induction xs) (simp_all add: item_lens_def)

lemma weight_lens: "item_lens (weight_items g) = map (\<lambda>x. (fst x, length (snd x))) (contents g)"
  unfolding weight_items_def case_prod_beta item_lens_map ..

lemma acts_listed:
  "bufs_len the_model a \<noteq> None \<longleftrightarrow> a \<in> set bufs_fields" "prefill_len the_model chunk a \<noteq> None \<longleftrightarrow> a \<in> set prefill_fields"
  by (cases a; simp add: bufs_fields_def prefill_fields_def)+

lemma kv_lens:
  "(b, n) \<in> set (item_lens (kv_items the_model cap 0 (layer_kinds the_model))) \<longleftrightarrow>
     (\<exists>j < x_n_layers. b \<in> set (kv_stores (layer_kind j) j) \<and> n = the (kv_len the_model cap (layer_kind j) b))"
  using kv_items_lens [of 0 "layer_kinds the_model" cap] by (auto simp: the_model_def)

lemma model_items_lens:
  "set (item_lens (model_items the_model cap chunk)) =
     (\<lambda>a. (Act a, the (bufs_len the_model a))) ` set bufs_fields \<union>
     (\<lambda>a. (Pre a, the (prefill_len the_model chunk a))) ` set prefill_fields \<union>
     {(b, n). \<exists>j < x_n_layers. b \<in> set (kv_stores (layer_kind j) j) \<and> n = the (kv_len the_model cap (layer_kind j) b)} \<union>
     {(CsSliding, head_dim (sliding the_model) div 2 * 2), (CsGlobal, head_dim (global the_model) div 8 * 2), (Step, unat STEP_WORDS)}"
proof -
  have "item_lens (map LoadKernel ks) = []" for ks by (induction ks) (simp_all add: item_lens_def)
  then show ?thesis
    unfolding model_items_def item_lens_append set_append item_lens_map using kv_lens [of _ _ cap]
    by (auto simp: item_lens_def)
qed

lemma item_len_right:
  assumes v: "valid_file g" and m: "(b, n) \<in> set (item_lens (weight_items g @ model_items the_model cap chunk))"
  shows "model_len cap chunk b = Some n"
proof -
  have w: "model_len cap chunk b = Some n" if "(b, n) \<in> set (item_lens (weight_items g))"
    using that contents_lengths [OF v, of b _ cap chunk] by (auto simp: weight_lens)
  have a: "model_len cap chunk (Act a) = Some (the (bufs_len the_model a))" if "a \<in> set bufs_fields" for a
    using acts_listed(1) [of a] that by auto
  have p: "model_len cap chunk (Pre a) = Some (the (prefill_len the_model chunk a))" if "a \<in> set prefill_fields" for a
    using acts_listed(2) [of chunk a] that by auto
  have k: "model_len cap chunk b = Some (the (kv_len the_model cap (layer_kind j) b))"
    if "j < x_n_layers" "b \<in> set (kv_stores (layer_kind j) j)" for j
    using that by (cases "layer_kind j") (auto simp: kv_stores_def)
  show ?thesis using m w a p k by (auto simp: model_items_lens)
qed

lemma weight_listed:
  assumes "i < x_n_layers" "weight_len (layer_kind i) w \<noteq> None"
  shows "Wt w i \<in> fst ` set (contents g)"
proof -
  have "w \<in> set (norms @ matrices (layer_kind i))"
    using assms(2) by (cases w; cases "layer_kind i") (auto simp: norms_def matrices_def)
  then have "weight_words g i w \<in> set (layer_contents g i)" unfolding layer_contents_def set_map by (rule imageI)
  then have "weight_words g i w \<in> set (contents g)" using assms(1) by (auto simp: contents_def)
  then show ?thesis by (force simp: weight_words_def)
qed

lemma item_len_complete:
  assumes "model_len cap chunk b \<noteq> None"
  shows "b \<in> fst ` set (item_lens (weight_items g @ model_items the_model cap chunk))"
proof -
  have W: "b \<in> fst ` set (contents g) \<Longrightarrow> ?thesis" by (auto simp: weight_lens image_Un image_image)
  have K: "?thesis" if "j < x_n_layers" "b \<in> set (kv_stores (layer_kind j) j)" for j
  proof -
    have "(b, the (kv_len the_model cap (layer_kind j) b)) \<in> set (item_lens (model_items the_model cap chunk))"
      using that by (auto simp: model_items_lens)
    then show ?thesis by (force simp: image_Un)
  qed
  show ?thesis
  proof (cases b)
    case (Act a)
    then show ?thesis using assms acts_listed(1) [of a] by (auto simp: model_items_lens image_Un image_image)
  next
    case (Pre a)
    then show ?thesis using assms acts_listed(2) [of chunk a] by (auto simp: model_items_lens image_Un image_image)
  next
    case (Wt w i)
    then show ?thesis using assms weight_listed W by (auto split: if_splits)
  next
    case (KvK i)
    then show ?thesis using assms K [of i] by (cases "layer_kind i") (auto simp: kv_stores_def split: if_splits)
  next
    case (KvQuants i)
    then show ?thesis using assms K [of i] by (cases "layer_kind i") (auto simp: kv_stores_def split: if_splits)
  next
    case (KvScales i)
    then show ?thesis using assms K [of i] by (cases "layer_kind i") (auto simp: kv_stores_def split: if_splits)
  next
    case (KvV i)
    then show ?thesis using assms K [of i] by (cases "layer_kind i") (auto simp: kv_stores_def split: if_splits)
  qed (use assms W in \<open>auto simp: model_items_lens image_Un contents_def\<close>)
qed

lemma items_ok:
  assumes "chunk \<le> 65536" "cap < 4294967296"
  shows "list_all item_ok (model_items the_model cap chunk)"
proof -
  have small: "n < 2 ^ 64" if h: "(b, n) \<in> set (item_lens (model_items the_model cap chunk))" for b n
  proof -
    have act: "the (bufs_len the_model a) < 2 ^ 64" if "a \<in> set bufs_fields" for a
      using that by (auto simp: bufs_fields_def model_sizes)
    have pre: "the (prefill_len the_model chunk a) < 2 ^ 64" if "a \<in> set prefill_fields" for a
      using that assms(1) by (auto simp: prefill_fields_def model_sizes)
    have kv: "the (kv_len the_model cap k b) < 2 ^ 64" if "b \<in> set (kv_stores k j)" for k b j
      using that assms(2) by (cases k) (auto simp: kv_stores_def model_sizes)
    show ?thesis using h act pre kv by (auto simp: model_items_lens model_sizes)
  qed
  have "item_ok it" if "it \<in> set (model_items the_model cap chunk)" for it
  proof -
    have "n < 2 ^ 64" if "it = NewBuffer b n" for b n
      using small [of b n] \<open>it \<in> _\<close> that by (force simp: item_lens_def)
    then show ?thesis by (simp add: item_ok_def)
  qed
  then show ?thesis by (simp add: list_all_iff)
qed

subsection \<open>Each buffer and kernel is made once\<close>

lemma model_kernels: "concat (map item_kernel (model_items desc cap chunk)) = kernel_fields"
proof -
  have s: "concat (map item_kernel (sized f bs)) = []" for f bs by (induction bs) (simp_all add: sized_def)
  have "concat (map item_kernel (kv_items desc cap i kinds)) = []" for i kinds
    by (induction kinds arbitrary: i) (simp_all add: s)
  moreover have "concat (map item_kernel (map (\<lambda>a. NewBuffer (f a) (n a)) xs)) = []" for f :: "act \<Rightarrow> bref" and n xs
    by (induction xs) simp_all
  moreover have "concat (map item_kernel (map LoadKernel ks)) = ks" for ks by (induction ks) simp_all
  ultimately show ?thesis by (simp add: model_items_def)
qed

lemma weight_kernels: "concat (map item_kernel (weight_items g)) = []"
  by (simp add: weight_items_def case_prod_beta)

lemma kernel_fields_all: "k \<in> set kernel_fields" "distinct kernel_fields"
  by (cases k; simp add: kernel_fields_def) (simp add: kernel_fields_def)

lemma layer_tags: "(b, xs) \<in> set (layer_contents g i) \<Longrightarrow> \<exists>w. b = Wt w i"
  by (auto simp: layer_contents_def weight_words_def)

lemma distinct_layer_tags: "distinct (map fst (concat (map (layer_contents g) [0..<n])))"
proof (induction n)
  case (Suc n)
  have l: "map fst (layer_contents g i) = map (\<lambda>w. Wt w i) (norms @ matrices (layer_kind i))" for i
    by (simp add: layer_contents_def weight_words_def comp_def)
  have "distinct (map fst (layer_contents g n))"
    unfolding l by (cases "layer_kind n") (simp_all add: norms_def matrices_def)
  then show ?case using Suc by (fastforce dest: layer_tags)
qed simp

lemma distinct_contents: "distinct (map fst (contents g))"
  using distinct_layer_tags [of g x_n_layers] by (auto simp: contents_def dest: layer_tags)

lemma sized_lens: "item_lens (sized f bs) = map (\<lambda>b. (b, the (f b))) bs"
  by (induction bs) (simp_all add: item_lens_def sized_def)

lemma kv_tags:
  "(b, n) \<in> set (item_lens (kv_items desc cap i kinds)) \<Longrightarrow> \<exists>j \<ge> i. b \<in> {KvK j, KvV j, KvQuants j, KvScales j}"
proof (induction kinds arbitrary: i)
  case (Cons kind kinds)
  have "b \<in> set (kv_stores kind i) \<or> (b, n) \<in> set (item_lens (kv_items desc cap (Suc i) kinds))"
    using Cons.prems by (auto simp: sized_lens)
  then show ?case
  proof
    assume "b \<in> set (kv_stores kind i)"
    then show ?thesis by (intro exI [of _ i]) (auto simp: kv_stores_def split: layer_kind.splits)
  next
    assume "(b, n) \<in> set (item_lens (kv_items desc cap (Suc i) kinds))"
    from Cons.IH [OF this] show ?thesis using Suc_leD by blast
  qed
qed (simp add: item_lens_def)

lemma distinct_kv: "distinct (map fst (item_lens (kv_items desc cap i kinds)))"
proof (induction kinds arbitrary: i)
  case (Cons kind kinds)
  have "(b, n) \<notin> set (item_lens (kv_items desc cap (Suc i) kinds))" if "b \<in> set (kv_stores kind i)" for b n
    using kv_tags [of b n desc cap "Suc i" kinds] that by (auto simp: kv_stores_def split: layer_kind.splits)
  moreover have "distinct (kv_stores kind i)" by (cases kind) (simp_all add: kv_stores_def)
  ultimately show ?case using Cons by (auto simp: sized_lens comp_def)
qed (simp add: item_lens_def)

lemma contents_tags: "(b, xs) \<in> set (contents g) \<Longrightarrow> b \<in> {TokenEmbd, OutputNorm, NormOnes} \<or> (\<exists>w i. b = Wt w i)"
  by (auto simp: contents_def dest: layer_tags)

lemma distinct_tags: "distinct (map fst (item_lens (weight_items g @ model_items the_model cap chunk)))"
proof -
  have k: "item_lens (map LoadKernel ks) = []" for ks by (induction ks) (simp_all add: item_lens_def)
  have r: "item_lens [NewBuffer b n, NewBuffer b' n', NewStep] = [(b, n), (b', n'), (Step, unat STEP_WORDS)]" for b n b' n'
    by (simp add: item_lens_def)
  have f: "distinct bufs_fields" "distinct prefill_fields" by (simp_all add: bufs_fields_def prefill_fields_def)
  show ?thesis
    unfolding item_lens_append model_items_def item_lens_map k r weight_lens map_append map_map comp_def fst_conv
    using f distinct_contents [of g] distinct_kv [of the_model cap 0 "layer_kinds the_model"]
    by (auto simp: distinct_map inj_on_def dest!: contents_tags kv_tags)
qed

subsection \<open>Memory\<close>

text \<open>Making a piece leaves the memory of the pieces made before alone.\<close>

lemma load_kernel_memory: "load_kernel registry name s = (Inr k, t) \<Longrightarrow> memory t = memory s"
  by (auto simp: load_kernel_def g_bind_def vk_create_from_eq g_cleanup_eq split: option.splits if_splits)

lemma acquire_memory:
  assumes "acquire d env reg it s = (Inr p, t)"
  shows "fresh s \<le> fresh t \<and> (\<forall>m < fresh s. memory t m = memory s m)"
proof -
  have a: "fresh s \<le> fresh u \<and> (\<forall>m < fresh s. memory u m = memory s m)"
    if "alloc_filled d env len es STORAGE_BUFFER f s = (Inr b, u)" for len es f b u
    by (rule alloc_filled_Inr [OF that]) simp
  show ?thesis
  proof (cases it)
    case (NewBuffer tag n)
    then show ?thesis using assms a by (auto simp: g_map_def g_bind_Inr new_buffer_filled split: if_splits)
  next
    case (LoadKernel k)
    then show ?thesis using assms load_kernel_memory load_kernel_state(2) by (fastforce simp: g_map_def g_bind_Inr)
  next
    case NewStep
    then show ?thesis using assms a by (auto simp: g_map_def g_bind_Inr new_step_buffer_def new_buffer_filled)
  qed
qed

lemma acquire_all_memory:
  "acquire_all d env reg its ps s = (Inr os, t) \<Longrightarrow> m < fresh s \<Longrightarrow> memory t m = memory s m"
proof (induction its arbitrary: ps s)
  case (Cons it its)
  obtain q u where q: "acquire d env reg it s = (q, u)" by fastforce
  show ?case
  proof (cases q)
    case (Inl e)
    then show ?thesis using q Cons.prems by simp
  next
    case (Inr p)
    then show ?thesis using acquire_memory [of d env reg it s p u] Cons.IH [of "p # ps" u] q Cons.prems by simp
  qed
qed simp

subsection \<open>The constructor\<close>

text \<open>The objects a model holds.\<close>

definition owned :: "graph_model \<Rightarrow> (vk_kind \<times> nat) set" where
  "owned m = (\<Union>x \<in> {x. \<exists>b. gm_buf m b = Some x}. set (handles x)) \<union> (\<Union>k. set (kernel_handles (gm_kernel m k)))"

lemma upload_outcome:
  assumes v: "valid_file g" and ok: "vk_ok s" and env: "reqs_cover env"
  shows "case upload d env g the_model s of
      None \<Rightarrow> False
    | Some (Inl e, t) \<Rightarrow> failed s e t
    | Some (Inr w, t) \<Rightarrow>
        gw_layers w = map (layer_meta g) [0..<x_n_layers] \<and> gw_rope_factors w = file_words g ''rope_freqs.weight'' \<and>
        owns s (map (\<lambda>(b, x). Buf b x) (gw_buffers w)) t \<and>
        list_all2 (\<lambda>(tag, b) (tag', xs). tag = tag' \<and> holds pod_u32 b t xs) (gw_buffers w) (contents g)"
proof -
  have inv0: "up_inv s [] s []" using ok by (simp add: up_inv_def held_handles_def)
  show ?thesis
  proof (rule up_okE [OF up_ok_parts [OF v env, where d = d] inv0])
    fix e t assume "upload_parts d env g the_model [] s = Some (Inl e, t)" "failed s e t"
    then show ?thesis by (simp add: upload_def)
  next
    fix x cs t C'
    assume r: "upload_parts d env g the_model [] s = Some (Inr (x, cs), t)" and i: "up_inv s cs t C'"
      and x: "x = (map (layer_meta g) [0..<x_n_layers], file_words g ''rope_freqs.weight'') \<and> C' = rev (contents g)"
    have c: "list_all2 (\<lambda>(t', b) (t'', xs). t' = t'' \<and> holds pod_u32 b t xs) (rev cs) (contents g)"
      using i x unfolding up_inv_def by (metis list_all2_rev rev_rev_ident)
    have "owns s (map (\<lambda>(b, x). Buf b x) (rev cs)) t"
      using i unfolding owns_def up_inv_def held_pieces set_rev_handles distinct_rev_handles by blast
    then show ?thesis using r x c by (simp add: upload_def)
  qed
qed

lemma item_lens_rev: "item_lens (rev its) = rev (item_lens its)"
proof (induction its)
  case (Cons it its)
  have "item_lens [it] = rev (item_lens [it])" by (cases it) (simp_all add: item_lens_def)
  then show ?case using Cons item_lens_append [of "[it]" its] by simp
qed (simp add: item_lens_def)

lemma item_kernels_rev: "concat (map item_kernel (rev its)) = rev (concat (map item_kernel its))"
proof (induction its)
  case (Cons it its)
  have "item_kernel it = rev (item_kernel it)" by (cases it) simp_all
  then show ?case using Cons by simp
qed simp

lemma pieces_handles:
  "set (all_handles ps) = (\<Union>(b, x) \<in> set (buffers_in ps). set (handles x)) \<union> (\<Union>(k, x) \<in> set (kernels_in ps). set (kernel_handles x))"
proof (induction ps)
  case (Cons p ps)
  then show ?case by (cases p) (auto simp: all_handles_def)
qed (simp add: all_handles_def)

lemma graph_built:
  fixes m :: graph_model
  assumes v: "valid_file g" and l: "gw_layers w = map (layer_meta g) [0..<x_n_layers]"
    and p: "list_all2 made (rev (model_items the_model cap chunk) @ weight_items g) os"
  shows "built (graph_of d the_model w os) cap chunk"
    and "owned (graph_of d the_model w os) = set (all_handles os)"
    and "(b, x) \<in> set (buffers_in os) \<Longrightarrow> gm_buf (graph_of d the_model w os) b = Some x"
proof -
  let ?m = "graph_of d the_model w os" and ?its = "rev (model_items the_model cap chunk) @ weight_items g"
  have L: "set (item_lens ?its) = set (item_lens (weight_items g @ model_items the_model cap chunk))"
    by (auto simp: item_lens_rev)
  have "distinct (map fst (item_lens ?its))"
    using distinct_tags [of g cap chunk] by (auto simp: item_lens_rev rev_map [symmetric])
  then have db: "distinct (map fst (buffers_in os))"
    unfolding buffers_made [OF p, symmetric] by (simp add: comp_def case_prod_beta)
  have buf: "map_option (\<lambda>x. unat (b_len x)) (gm_buf ?m b) = model_len cap chunk b" for b
    unfolding graph_of_def graph_model.simps map_of_lens buffers_made [OF p]
    by (rule map_of_table) (use L item_len_right [OF v] item_len_complete in blast)+
  have n: "map fst (kernels_in os) = rev kernel_fields"
    unfolding kernels_made_names [OF p] by (simp add: item_kernels_rev model_kernels weight_kernels del: concat_map_singleton)
  have dk: "distinct (map fst (kernels_in os))" unfolding n by (simp add: kernel_fields_all(2))
  have k: "(k, gm_kernel ?m k) \<in> set (kernels_in os)" for k
  proof -
    have "k \<in> fst ` set (kernels_in os)" using kernel_fields_all(1) [of k] arg_cong [OF n, of set] by simp
    then obtain x where "(k, x) \<in> set (kernels_in os)" by auto
    then show ?thesis using map_of_is_SomeI [OF dk] by (simp add: graph_of_def)
  qed
  show "built ?m cap chunk"
    unfolding built_def using buf kernels_made [OF p k]
    by (simp add: graph_of_def l comp_def layer_meta_def the_model_def)
  show bx: "gm_buf ?m b = Some x" if "(b, x) \<in> set (buffers_in os)" for b x
    using map_of_is_SomeI [OF db that] by (simp add: graph_of_def)
  have K: "(k, x) \<in> set (kernels_in os) \<longleftrightarrow> x = gm_kernel ?m k" for k x
    using map_of_is_SomeI [OF dk, of k x] k by (auto simp: graph_of_def)
  have B: "gm_buf ?m b = Some x \<longleftrightarrow> (b, x) \<in> set (buffers_in os)" for b x
    using bx [of b x] by (auto simp: graph_of_def map_of_SomeD)
  show "owned ?m = set (all_handles os)"
    unfolding owned_def pieces_handles B by (force simp: K)
qed

lemma acquire_all_keeps: "acquire_all d env reg its ps s = (Inr os, t) \<Longrightarrow> set ps \<subseteq> set os"
proof (induction its arbitrary: ps s)
  case (Cons it its)
  then show ?case by (fastforce split: prod.splits sum.splits)
qed simp

lemma buffers_in_iff: "(t, b) \<in> set (buffers_in ps) \<longleftrightarrow> Buf t b \<in> set ps"
  by (induction ps rule: buffers_in.induct) auto

lemma next_multiple_64_bounds:
  obtains c where "next_multiple_64 n = 64 * c" "n \<le> 64 * c" "64 * c < n + 64"
proof -
  define q r where "q = n div 64" and "r = n mod 64"
  have n: "n = 64 * q + r" "r < 64" by (simp_all add: q_def r_def)
  have e: "next_multiple_64 n = (if r = 0 then 64 * q else 64 * Suc q)"
    using n by (simp add: next_multiple_64_def r_def [symmetric])
  show thesis
  proof (cases "r = 0")
    case True
    then show ?thesis using that [of q] e n by simp
  next
    case False
    then show ?thesis using that [of "Suc q"] e n by simp
  qed
qed

lemma acquire_model:
  fixes code :: "variant \<Rightarrow> u32 list"
  assumes v: "valid_file g" and c: "chunk \<le> 65536" "cap < 4294967296"
    and w: "gw_layers w = map (layer_meta g) [0..<x_n_layers]"
    and o: "owns s (map (\<lambda>(b, x). Buf b x) (gw_buffers w)) t"
    and h: "list_all2 (\<lambda>(tag, b) (tag', xs). tag = tag' \<and> holds pod_u32 b t xs) (gw_buffers w) (contents g)"
    and r: "acquire_all d env (KERNELS code) (model_items the_model cap chunk) (map (\<lambda>(b, x). Buf b x) (gw_buffers w)) t = (r, u)"
  shows "case r of Inl e \<Rightarrow> failed s e u
    | Inr os \<Rightarrow> built (graph_of d the_model w os) cap chunk \<and>
        list_all (\<lambda>(tag, xs). \<exists>b. gm_buf (graph_of d the_model w os) tag = Some b \<and> holds pod_u32 b u xs) (contents g) \<and>
        live u = live s \<union> owned (graph_of d the_model w os) \<and> owned (graph_of d the_model w os) \<inter> live s = {} \<and> faults u = faults s"
proof -
  have "list_all2 made (weight_items g) (map (\<lambda>(b, x). Buf b x) (gw_buffers w))"
    unfolding weight_items_def list_all2_map1 list_all2_map2 list_all2_conv_all_nth
    using h by (auto simp: list_all2_conv_all_nth holds_def split: prod.splits)
  note a = acquire_all_made [OF o this items_ok [OF c] r]
  show ?thesis
  proof (cases r)
    case (Inl e)
    then show ?thesis using a by simp
  next
    case (Inr os)
    have os: "owns s os u" "list_all2 made (rev (model_items the_model cap chunk) @ weight_items g) os" using a Inr by simp_all
    note b = graph_built [OF v w os(2), where d = d]
    have "\<exists>b. gm_buf (graph_of d the_model w os) tag = Some b \<and> holds pod_u32 b u xs" if c: "(tag, xs) \<in> set (contents g)" for tag xs
    proof -
      obtain x where x: "(tag, x) \<in> set (gw_buffers w)" "holds pod_u32 x t xs"
      proof -
        obtain i where i: "i < length (contents g)" "contents g ! i = (tag, xs)" using c by (auto simp: in_set_conv_nth)
        obtain tag' x where x: "gw_buffers w ! i = (tag', x)" by fastforce
        have n: "i < length (gw_buffers w)" using i(1) list_all2_lengthD [OF h] by simp
        show thesis
          using list_all2_nthD [OF h n] nth_mem [OF n] i(2) x by (intro that [of x]) simp_all
      qed
      have "Buf tag x \<in> set os" using acquire_all_keeps [OF r [unfolded Inr]] x(1) by force
      then have "gm_buf (graph_of d the_model w os) tag = Some x" by (intro b(3)) (simp add: buffers_in_iff)
      moreover have "(VkMemory, b_memory (inner x)) \<in> live t"
        using o x(1) by (force simp: owns_def held_pieces held_handles_def handles_def)
      then have "b_memory (inner x) < fresh t" using o vk_ok_fresh [of t "b_memory (inner x)"] by (force simp: owns_def)
      then have "holds pod_u32 x u xs" by (intro holds_memory [OF x(2)] acquire_all_memory [OF r [unfolded Inr]])
      ultimately show ?thesis by blast
    qed
    then show ?thesis using os(1) b(1,2) Inr by (auto simp: owns_def list_all_iff)
  qed
qed

text \<open>
  C9: \<open>GpuModel::new\<close> on a parsed file never panics. A file that does not validate is reported as such and
  touches nothing; any other failure is the driver's, and everything made by then (weights, activation
  buffers, KV stores, kernels) has been destroyed once. On success the model is the one the recording of
  graphs assumes: a chunk capacity rounded up to a multiple of 64, every buffer at its length, every
  kernel with the workgroup of its entry in the variant table; each weight buffer still reads as its tensor; and the objects alive are
  those alive before together with the ones the model holds.
\<close>

theorem gpu_model_new_built:
  fixes code :: "variant \<Rightarrow> u32 list"
  assumes "parse bytes = Inr g" and "vk_ok s" and "reqs_cover env" and "want \<le> 65536" and "cap < 4294967296"
  shows "case gpu_model_new d env (KERNELS code) h g cap want s of
      None \<Rightarrow> False
    | Some (Inl (e, t)) \<Rightarrow>
        (case from_gguf g of Inl issues \<Rightarrow> t = s \<and> e = UploadModel (RefBadTensor ''<model>'' (NotTheModel issues)) | Inr desc \<Rightarrow> failed s e t)
    | Some (Inr (M, r)) \<Rightarrow>
        (\<exists>c \<le> 1024. max_chunk M = 64 * c \<and> want \<le> 64 * c \<and> 64 * c < want + 64 \<and> built (gp_graph M) cap (64 * c)) \<and>
        global_cap M = cap \<and> rs_pos r = 0 \<and>
        gm_layers (gp_graph M) = map (layer_meta g) [0..<x_n_layers] \<and> h_factors (gp_host M) = file_words g ''rope_freqs.weight'' \<and>
        list_all (\<lambda>(tag, xs). \<exists>b. gm_buf (gp_graph M) tag = Some b \<and> fst (read_guard pod_u32 b (rs_vk r)) \<in> {Inr (Some xs)} \<union> range Inl) (contents g) \<and>
        live (rs_vk r) = live s \<union> owned (gp_graph M) \<and> owned (gp_graph M) \<inter> live s = {} \<and> faults (rs_vk r) = faults s"
proof (cases "from_gguf g")
  case (Inl issues)
  then show ?thesis by (simp add: gpu_model_new_def)
next
  case (Inr desc)
  then have d: "desc = the_model" by (auto simp: from_gguf_def validate_def Let_def split: if_splits)
  then have v: "valid_file g" using assms(1) Inr by (auto simp: valid_file_def)
  obtain c where c: "next_multiple_64 want = 64 * c" "want \<le> 64 * c" "64 * c < want + 64" by (rule next_multiple_64_bounds)
  then have c': "64 * c \<le> 65536" "c \<le> 1024" using assms(4) by simp_all
  note o = upload_outcome [OF v assms(2,3), of d]
  obtain q t where q: "upload d env g the_model s = Some (q, t)" using o by (auto split: option.splits)
  show ?thesis
  proof (cases q)
    case (Inl e)
    then show ?thesis using o q Inr d by (simp add: gpu_model_new_def)
  next
    case w: (Inr w)
    have W: "gw_layers w = map (layer_meta g) [0..<x_n_layers]" "gw_rope_factors w = file_words g ''rope_freqs.weight''"
      "owns s (map (\<lambda>(b, x). Buf b x) (gw_buffers w)) t"
      "list_all2 (\<lambda>(tag, b) (tag', xs). tag = tag' \<and> holds pod_u32 b t xs) (gw_buffers w) (contents g)"
      using o q w by simp_all
    obtain p u where p: "acquire_all d env (KERNELS code) (model_items the_model cap (64 * c)) (map (\<lambda>(b, x). Buf b x) (gw_buffers w)) t = (p, u)"
      by fastforce
    note a = acquire_model [OF v c'(1) assms(5) W(1,3,4) p]
    show ?thesis
    proof (cases p)
      case (Inl e)
      then show ?thesis using a p q w Inr d by (simp add: gpu_model_new_def c(1))
    next
      case os: (Inr os)
      have "list_all (\<lambda>(tag, xs). \<exists>b. gm_buf (graph_of d the_model w os) tag = Some b \<and> fst (read_guard pod_u32 b u) \<in> {Inr (Some xs)} \<union> range Inl) (contents g)"
        using a os u32s.holds_read by (fastforce simp: list_all_iff)
      then show ?thesis using a p q w os W(1,2) Inr d c c' by (auto simp: gpu_model_new_def graph_of_def)
    qed
  qed
qed

theorem gpu_model_new_built_witness:
  "\<forall>h :: nat host.
    case gpu_model_new sample_ctx sample_env (KERNELS (\<lambda>_. [])) h model_gguf 1024 100 (vk_init (\<lambda>_. None)) of
      None \<Rightarrow> False
    | Some (Inl (e, t)) \<Rightarrow>
        (case from_gguf model_gguf of Inl issues \<Rightarrow> t = vk_init (\<lambda>_. None) \<and> e = UploadModel (RefBadTensor ''<model>'' (NotTheModel issues))
         | Inr desc \<Rightarrow> failed (vk_init (\<lambda>_. None)) e t)
    | Some (Inr (M, r)) \<Rightarrow>
        (\<exists>c \<le> 1024. max_chunk M = 64 * c \<and> 100 \<le> 64 * c \<and> 64 * c < 100 + 64 \<and> built (gp_graph M) 1024 (64 * c)) \<and>
        global_cap M = 1024 \<and> rs_pos r = 0 \<and>
        gm_layers (gp_graph M) = map (layer_meta model_gguf) [0..<x_n_layers] \<and> h_factors (gp_host M) = file_words model_gguf ''rope_freqs.weight'' \<and>
        list_all (\<lambda>(tag, xs). \<exists>b. gm_buf (gp_graph M) tag = Some b \<and> fst (read_guard pod_u32 b (rs_vk r)) \<in> {Inr (Some xs)} \<union> range Inl) (contents model_gguf) \<and>
        live (rs_vk r) = live (vk_init (\<lambda>_. None)) \<union> owned (gp_graph M) \<and> owned (gp_graph M) \<inter> live (vk_init (\<lambda>_. None)) = {} \<and>
        faults (rs_vk r) = faults (vk_init (\<lambda>_. None))"
  by (intro allI, rule gpu_model_new_built [OF model_parse(1) vk_ok_init sample_env_cover]) simp_all

end
