(* ===== verification/Graph_Runs.thy ===== *)
theory Graph_Runs
  imports Model_Run Model_Graph_Props
begin

text \<open>
  Recorded graphs over time: which dispatches of the model a command buffer holds, that later
  recordings, submissions and writes leave it alone, and that recording, staging and submitting
  succeed when no driver call fails.
\<close>

subsection \<open>What later calls leave alone\<close>

definition grows :: "vk \<Rightarrow> vk \<Rightarrow> bool" where
  "grows s t \<longleftrightarrow> (recordable s \<longrightarrow> recordable t) \<and> fresh s \<le> fresh t \<and> driver t = driver s \<and>
     (\<forall>h < fresh s. cmds t h = cmds s h \<and> set_writes t h = set_writes s h)"

lemma grows_refl [simp]: "grows s s"
  by (simp add: grows_def)

lemma grows_trans: "grows s t \<Longrightarrow> grows t u \<Longrightarrow> grows s u"
  by (simp add: grows_def)

lemma grows_recordable: "grows s t \<Longrightarrow> recordable s \<Longrightarrow> recordable t"
  by (simp add: grows_def)

text \<open>The command buffer \<open>cb\<close> holds the dispatches of \<open>ops\<close> over the buffers of \<open>m\<close>, and no others.\<close>

definition runs_ops :: "vk \<Rightarrow> graph_model \<Rightarrow> nat \<Rightarrow> mop list \<Rightarrow> bool" where
  "runs_ops s m cb ops \<longleftrightarrow> (\<exists>rs xs. those (map (realize m) ops) = Some rs \<and>
     cmds s cb = ops_cmds (gm_ctx m) 0 rs xs \<and> list_all2 (set_holds s) xs (ops_writes rs) \<and>
     cb < fresh s \<and> (\<forall>x \<in> set xs. x < fresh s))"

lemma runs_ops_grows:
  assumes "runs_ops s m cb ops" "grows s t"
  shows "runs_ops t m cb ops"
proof -
  obtain rs xs where r: "those (map (realize m) ops) = Some rs" "cmds s cb = ops_cmds (gm_ctx m) 0 rs xs"
    "list_all2 (set_holds s) xs (ops_writes rs)" "cb < fresh s" "\<forall>x \<in> set xs. x < fresh s"
    using assms(1) unfolding runs_ops_def by blast
  have "set_holds t x ws = set_holds s x ws" if "x \<in> set xs" for x ws
    using that r(5) assms(2) by (simp add: set_holds_def grows_def)
  then have "list_all2 (set_holds t) xs (ops_writes rs)"
    using r(3) by (metis list.rel_mono_strong)
  moreover have "cmds t cb = ops_cmds (gm_ctx m) 0 rs xs" "cb < fresh t" "\<forall>x \<in> set xs. x < fresh t"
    using r assms(2) by (auto simp: grows_def)
  ultimately show ?thesis using r(1) unfolding runs_ops_def by blast
qed

subsection \<open>Recording\<close>

definition vk_frame :: "vk \<Rightarrow> vk \<Rightarrow> bool" where
  "vk_frame s t \<longleftrightarrow> memory t = memory s \<and> submitted t = submitted s \<and> driver t = driver s \<and> overruns t = overruns s"

lemma vk_frame_refl [simp]: "vk_frame s s"
  by (simp add: vk_frame_def)

lemma vk_frame_trans: "vk_frame s t \<Longrightarrow> vk_frame t u \<Longrightarrow> vk_frame s u"
  by (simp add: vk_frame_def)

lemma arena_allocate_frame: "arena_allocate layout a s = Some (x, a', t) \<Longrightarrow> vk_frame s t"
  by (auto simp: arena_allocate_def add_pool_def alloc_set_def vk_create_eq vk_call_eq g_bind_def vk_frame_def
      split: option.splits sum.splits prod.splits if_splits)

lemma rec_bind_frame:
  assumes "rec_bind m f r s = Some (x, r', t)"
    and "\<And>y r1 s1. m r s = Some (y, r1, s1) \<Longrightarrow> vk_frame s s1"
    and "\<And>y r1 s1. f y r1 s1 = Some (x, r', t) \<Longrightarrow> vk_frame s1 t"
  shows "vk_frame s t"
proof -
  obtain y r1 s1 where m: "m r s = Some (y, r1, s1)" and f: "case y of Inl e \<Rightarrow> s1 = t | Inr v \<Rightarrow> f v r1 s1 = Some (x, r', t)"
    using assms(1) unfolding rec_bind_def by (auto split: Option.bind_splits sum.splits)
  show ?thesis
    using assms(2) [OF m] f by (cases y) (auto dest: assms(3) intro: vk_frame_trans)
qed

lemma rec_cmds_frame: "rec_cmds cs r s = Some (x, r', t) \<Longrightarrow> vk_frame s t"
  by (auto simp: rec_cmds_def vk_frame_def)

lemma mark_frame: "mark label r s = Some (x, r', t) \<Longrightarrow> vk_frame s t"
  by (auto simp: mark_def Let_def timestamp_def rec_bind_def rec_cmds_def vk_frame_def split: option.splits if_splits)

lemma record_dispatch_frame: "record_dispatch d k ws push groups b r s = Some (x, r', t) \<Longrightarrow> vk_frame s t"
  unfolding record_dispatch_def
  by (elim rec_bind_frame)
    (auto simp: in_arena_def write_set_def rec_return_def vk_frame_def [of _ "_\<lparr>set_writes := _\<rparr>"] split: Option.bind_splits option.splits if_splits
      dest: arena_allocate_frame rec_cmds_frame mark_frame)

lemma run_op_frame: "run_op d op r s = Some (x, r', s') \<Longrightarrow> vk_frame s s'"
  by (cases op) (auto simp: dispatch_def dispatch_overlapping_def barrier_def dest: record_dispatch_frame rec_cmds_frame mark_frame)

lemma run_ops_frame: "run_ops d ops r s = Some (x, r', s') \<Longrightarrow> vk_frame s s'"
proof (induction ops arbitrary: r s)
  case (Cons op ops)
  then show ?case
    by (auto simp: rec_bind_def split: Option.bind_splits sum.splits dest!: run_op_frame intro: vk_frame_trans)
qed (simp add: rec_return_def)

lemma begin_recorder_frame: "begin_recorder one s = (Inr r, t) \<Longrightarrow> vk_frame s t"
  by (auto simp: begin_recorder_def g_bind_def vk_create_eq vk_call_eq g_cleanup_eq new_handle_def vk_frame_def split: option.splits)

lemma finish_recorder_calls:
  "finish_recorder r s = Some (Inr g, t) \<Longrightarrow> t = s\<lparr>calls := Suc (calls s)\<rparr>"
  by (auto simp: finish_recorder_def vk_call_eq Let_def drop_recorder_def split: option.splits)

lemma record_graph_runs:
  assumes "recordable s" "record_graph (run_ops d ops) s = Some (Inr g, t)"
  shows "\<exists>xs. cmds t (g_cb g) = ops_cmds d 0 ops xs \<and> list_all2 (set_holds t) xs (ops_writes ops) \<and>
      g_cb g < fresh t \<and> (\<forall>x \<in> set xs. x < fresh t)"
    "grows s t" "vk_frame s t"
proof -
  obtain y where y: "record_inner (run_ops d ops) s = Some (y, t)" "map_sum id fst y = Inr g"
    using assms(2) by (auto simp: record_graph_def)
  then obtain labels where ri: "record_inner (run_ops d ops) s = Some (Inr (g, labels), t)"
    by (cases y) auto
  have s: "vk_ok s" "\<forall>p \<ge> fresh s. pool_sets s p = 0" using assms(1) by (auto simp: recordable_def)
  obtain r0 t0 r1 t1 where r: "begin_recorder False s = (Inr r0, t0)" "run_ops d ops r0 t0 = Some (Inr (), r1, t1)"
    "finish_recorder r1 t1 = Some (Inr (g, labels), t)" "rec_inv (live s) (faults s) r1 t1" "r_cb r1 = r_cb r0"
    by (rule record_inner_resources [OF s keeps_run_ops, of d ops]) (use ri in auto)
  note bg = begin_recorder_Inr [OF r(1) s]
  obtain xs where xs: "ran d (r_dispatched r0) ops r0 t0 r1 t1 xs"
    using run_ops_ran [OF bg(1) bg(6) r(2)] by blast
  obtain z r2 t2 where k: "run_ops d ops r0 t0 = Some (z, r2, t2)" "fresh t0 \<le> fresh t2"
      "\<And>c. c \<noteq> r_cb r0 \<Longrightarrow> cmds t2 c = cmds t0 c"
    by (rule keepsE [OF keeps_run_ops bg(1), of d ops]) blast
  have t2: "t2 = t1" using k(1) r(2) by simp
  have f: "g_cb g = r_cb r1" by (rule finish_recorder_ok [OF r(4)]; use r(3) in simp)
  have t: "t = t1\<lparr>calls := Suc (calls t1)\<rparr>" by (rule finish_recorder_calls [OF r(3)])
  have fr: "fresh s \<le> fresh t" using k(2) bg(8) by (simp add: t t2)
  have "set_holds t = set_holds t1" by (intro ext) (simp add: set_holds_def t)
  then show "\<exists>xs. cmds t (g_cb g) = ops_cmds d 0 ops xs \<and> list_all2 (set_holds t) xs (ops_writes ops) \<and>
      g_cb g < fresh t \<and> (\<forall>x \<in> set xs. x < fresh t)"
    using xs bg(3,4) f r(4,5) by (intro exI [of _ xs]) (auto simp: ran_def t rec_inv_def)
  have "recordable t" using r(4) by (auto simp: rec_inv_def arena_inv_def recordable_def t vk_ok_alt)
  moreover have "driver t = driver s"
    using begin_recorder_frame [OF r(1)] run_ops_frame [OF r(2)] by (simp add: vk_frame_def t)
  moreover have "cmds t h = cmds s h \<and> set_writes t h = set_writes s h" if "h < fresh s" for h
  proof -
    have "h \<noteq> r_cb r0" "h \<notin> set xs" using that bg(2,8) xs by (auto simp: ran_def)
    then show ?thesis using k(3) [of h] xs bg(3,7) by (simp add: ran_def t t2)
  qed
  ultimately show "grows s t" using fr by (simp add: grows_def)
  show "vk_frame s t"
    using vk_frame_trans [OF begin_recorder_frame [OF r(1)] run_ops_frame [OF r(2)]] by (simp add: vk_frame_def t)
qed

lemma record_ops_runs:
  assumes "recordable s" "record_ops m ops s = Some (Inr g, t)"
  shows "\<exists>xs. ops = Some xs \<and> runs_ops t m (g_cb g) xs" "grows s t" "vk_frame s t"
proof -
  obtain xs rs where x: "ops = Some xs" "those (map (realize m) xs) = Some rs" "record_graph (run_ops (gm_ctx m) rs) s = Some (Inr g, t)"
    using assms(2) by (auto simp: record_ops_def split: Option.bind_splits)
  note r = record_graph_runs [OF assms(1) x(3)]
  show "\<exists>xs. ops = Some xs \<and> runs_ops t m (g_cb g) xs" using r(1) x(1,2) unfolding runs_ops_def by blast
  show "grows s t" "vk_frame s t" by (fact r)+
qed

text \<open>The segments of a prefill run all its layers, in order.\<close>

definition segments_run :: "vk \<Rightarrow> graph_model \<Rightarrow> nat \<Rightarrow> nat \<Rightarrow> logits_mode \<Rightarrow> command_graph list \<Rightarrow> bool" where
  "segments_run s m m_pad n mode gs \<longleftrightarrow> (\<exists>opss.
     segment_ops m 0 (n_layers (gm_desc m)) m_pad n mode = Some (concat opss) \<and>
     list_all2 (\<lambda>x ops. runs_ops s m (g_cb x) ops) gs opss)"

lemma runs_list_grows:
  "list_all2 (\<lambda>x ops. runs_ops s m (g_cb x) ops) gs opss \<Longrightarrow> grows s t \<Longrightarrow> list_all2 (\<lambda>x ops. runs_ops t m (g_cb x) ops) gs opss"
  by (erule list_all2_mono) (rule runs_ops_grows)

lemma segments_run_grows: "segments_run s m m_pad n mode gs \<Longrightarrow> grows s t \<Longrightarrow> segments_run t m m_pad n mode gs"
  unfolding segments_run_def by (blast intro: runs_list_grows)

lemma concat_opt_join: "concat_opt (xs @ ys) = Option.bind (concat_opt xs) (\<lambda>a. Option.bind (concat_opt ys) (\<lambda>b. Some (a @ b)))"
  by (induction xs) (auto split: Option.bind_splits)

lemma segment_ops_split:
  assumes "start \<le> stop" "stop < N" "N = n_layers (gm_desc m)"
  shows "segment_ops m start N m_pad n mode =
    Option.bind (segment_ops m start stop m_pad n mode) (\<lambda>a. Option.bind (segment_ops m stop N m_pad n mode) (\<lambda>b. Some (a @ b)))"
proof -
  have "[start..<N] = [start..<stop] @ [stop..<N]" using assms(1,2) upt_add_eq_append [of start stop "N - stop"] by simp
  then show ?thesis using assms(2,3) by (simp add: segment_ops_def flip: concat_opt_join)
qed

lemma record_segments_run:
  assumes "recordable s" "record_segments m m_pad n mode start segments s = Some (Inr gs, t)"
  shows "grows s t \<and> vk_frame s t \<and> (\<exists>hs opss. gs = segments @ hs \<and> list_all2 (\<lambda>x ops. runs_ops t m (g_cb x) ops) hs opss \<and>
    (if start < n_layers (gm_desc m) then segment_ops m start (n_layers (gm_desc m)) m_pad n mode = Some (concat opss) else opss = []))"
  using assms
proof (induction m m_pad n mode start segments s rule: record_segments.induct)
  case (1 m m_pad n mode start segments s)
  let ?N = "n_layers (gm_desc m)"
  let ?stop = "min (start + PREFILL_SEGMENT_LAYERS) ?N"
  show ?case
  proof (cases "start < ?N")
    case False
    then show ?thesis using 1(3) by (simp add: record_segments.simps)
  next
    case True
    from 1(3) True obtain g u where g: "record_ops m (segment_ops m start ?stop m_pad n mode) s = Some (Inr g, u)"
      "record_segments m m_pad n mode ?stop (segments @ [g]) u = Some (Inr gs, t)"
      by (subst (asm) record_segments.simps) (auto simp: Let_def split: Option.bind_splits sum.splits prod.splits)
    note r = record_ops_runs [OF 1(2) g(1)]
    obtain ops where ops: "segment_ops m start ?stop m_pad n mode = Some ops" "runs_ops u m (g_cb g) ops" using r(1) by blast
    note ih = 1(1) [OF True refl g(1) refl refl grows_recordable [OF r(2) 1(2)] g(2)]
    from ih obtain hs opss where h: "gs = segments @ g # hs" "list_all2 (\<lambda>x ops. runs_ops t m (g_cb x) ops) hs opss"
      "if ?stop < ?N then segment_ops m ?stop ?N m_pad n mode = Some (concat opss) else opss = []" by auto
    have "list_all2 (\<lambda>x ops. runs_ops t m (g_cb x) ops) (g # hs) (ops # opss)"
      using h(2) runs_ops_grows [OF ops(2)] ih by simp
    moreover have "segment_ops m start ?N m_pad n mode = Some (concat (ops # opss))"
    proof (cases "?stop < ?N")
      case st: True
      have "start \<le> ?stop" using True by simp
      note sp = segment_ops_split [OF this st refl, of m_pad n mode]
      from h(3) [unfolded if_P [OF st]] show ?thesis unfolding sp ops(1) by simp
    next
      case False
      then have "?stop = ?N" by simp
      with ops(1) h(3) False show ?thesis by simp
    qed
    ultimately show ?thesis
      using True h(1) ih grows_trans [OF r(2)] vk_frame_trans [OF r(3)]
      by (intro conjI exI [of _ "g # hs"] exI [of _ "ops # opss"]) auto
  qed
qed

lemma record_prefill_runs:
  assumes "recordable s" "record_prefill m m_pad n mode s = Some (Inr gs, t)" "0 < n_layers (gm_desc m)"
  shows "segments_run t m m_pad n mode gs" "grows s t" "vk_frame s t"
  using record_segments_run [OF assms(1) assms(2) [unfolded record_prefill_def]] assms(3)
  by (auto simp: segments_run_def)

subsection \<open>Submitting, staging, reading\<close>

lemma submit_Inr:
  assumes "submit g x s = Some (Inr u, t)"
  shows "grows s t" "submitted t = submitted s @ [g_cb x]" "memory t = h_execute (gp_host g) (g_cb x) (memory s)"
    "overruns t = overruns s"
  using assms
  by (auto simp: submit_def submit_blocking_def submit_and_wait_def g_bind_def vk_create_eq vk_call_eq grows_def recordable_def
      vk_ok_alt less_Suc_eq split: option.splits prod.splits sum.splits)

definition touches_memory :: "'a step_m \<Rightarrow> bool" where
  "touches_memory m \<longleftrightarrow> (\<forall>s r t. m s = Some (r, t) \<longrightarrow>
     grows s t \<and> submitted t = submitted s \<and> (\<forall>k. length (memory t k) = length (memory s k)))"

lemma touches_bind [intro]: "touches_memory m \<Longrightarrow> (\<And>x. touches_memory (f x)) \<Longrightarrow> touches_memory (st_bind m f)"
  unfolding touches_memory_def st_bind_def
  by (auto split: Option.bind_splits sum.splits) (metis grows_trans)+

lemma touches_simple [intro, simp]:
  "touches_memory (st_unwrap x)" "touches_memory (st_return y)" "touches_memory (\<lambda>s. None)"
  by (auto simp: touches_memory_def st_unwrap_def st_return_def)

lemma touches_write_at [intro, simp]: "touches_memory (write_at p b n ys)"
  by (auto simp: touches_memory_def write_at_def write_guard_def overwrite_def set_memory_def drop_write_guard_def flush_def
      vk_call_eq grows_def recordable_def vk_ok_alt split: Option.bind_splits option.splits prod.splits sum.splits if_splits)

lemma touches_write_step [intro, simp]: "touches_memory (write_step m st)"
  by (auto simp: touches_memory_def write_step_def write_to_def write_guard_def overwrite_def set_memory_def drop_write_guard_def
      flush_def vk_call_eq grows_def recordable_def vk_ok_alt split: Option.bind_splits option.splits prod.splits sum.splits if_splits)

lemma touches_write_rows [intro, simp]: "touches_memory (write_rows h m n toks)"
proof (induction toks arbitrary: n)
  case (Cons tok toks)
  have "touches_memory (\<lambda>s. if c then None else write_at p b k ys s)" for c p b k and ys :: "u16 list"
    by (cases c) simp_all
  then show ?case using Cons by (auto intro!: touches_bind)
qed simp

lemma touches_stage [intro, simp]: "touches_memory (stage_prefill_chunk h m at toks)"
  unfolding stage_prefill_chunk_def Let_def by (intro touches_bind touches_simple touches_write_at touches_write_step touches_write_rows)

lemma read_all_Inr:
  assumes "read_all p b s = Some (Inr xs, t)"
  shows "grows s t" "submitted t = submitted s" "memory t = memory s" "overruns t = overruns s"
    "\<exists>bs. view_bytes p b t = Some bs \<and> xs = decode_all p bs"
  using assms
  by (auto simp: read_all_def read_guard_def g_bind_def invalidate_def vk_call_eq grows_def recordable_def vk_ok_alt view_bytes_def Let_def
      split: option.splits prod.splits sum.splits if_splits)

lemma alloc_buffer_grows:
  assumes "alloc_buffer d env len es us s = (Inr b, t)"
  shows "grows s t \<and> submitted t = submitted s"
  using assms
  by (auto simp: alloc_buffer_def Let_def g_bind_def vk_create_eq vk_call_eq g_cleanup_eq set_memory_def grows_def recordable_def
      vk_ok_alt less_Suc_eq split: prod.splits sum.splits option.splits)

lemma flush_new_grows: "flush_new b s = (Inr u, t) \<Longrightarrow> grows s t \<and> submitted t = submitted s \<and> memory t = memory s \<and> overruns t = overruns s"
  by (auto simp: flush_new_def flush_def vk_call_eq g_cleanup_eq grows_def recordable_def vk_ok_alt split: option.splits if_splits)

lemma overwrite_grows: "grows s (overwrite m at bs s)" "submitted (overwrite m at bs s) = submitted s"
  by (auto simp: overwrite_def set_memory_def grows_def recordable_def vk_ok_alt)

lemma new_buffer_grows:
  assumes "new_buffer d env p len us s = (Inr b, t)"
  shows "grows s t \<and> submitted t = submitted s"
proof -
  obtain i u where i: "alloc_buffer d env len (of_nat (size_of p)) us s = (Inr i, u)"
    "flush_new i (overwrite (b_memory i) 0 (replicate (unat (b_size i)) 0) u) = (Inr (), t)"
    using assms by (auto simp: new_buffer_def g_bind_Inr)
  show ?thesis
    using alloc_buffer_grows [OF i(1)] flush_new_grows [OF i(2)] overwrite_grows grows_trans by metis
qed

lemma submit_all_Inr:
  assumes "submit_all g xs s = Some (Inr u, t)"
  shows "grows s t \<and> submitted t = submitted s @ map g_cb xs \<and> memory t = fold (h_execute (gp_host g)) (map g_cb xs) (memory s) \<and>
    overruns t = overruns s"
  using assms
proof (induction xs arbitrary: s)
  case (Cons x xs)
  from Cons.prems obtain v where v: "submit g x s = Some (Inr (), v)" "submit_all g xs v = Some (Inr u, t)"
    by (auto simp: st_bind_def split: Option.bind_splits sum.splits)
  show ?case using Cons.IH [OF v(2)] submit_Inr [OF v(1)] by (auto intro: grows_trans)
qed (simp add: st_return_def)

subsection \<open>Without a failing call\<close>

text \<open>\<open>record_graph\<close> and \<open>submit_blocking\<close> only fail when the driver does.\<close>

definition calm :: "vk \<Rightarrow> bool" where
  "calm s \<longleftrightarrow> driver s = (\<lambda>_. None)"

lemma calm_grows: "calm s \<Longrightarrow> grows s t \<Longrightarrow> calm t"
  by (simp add: calm_def grows_def)

lemma record_dispatch_calm:
  assumes "rec_inv base f0 r s" "r_prof r = None" "calm s"
  shows "\<exists>r' s'. record_dispatch d k ws push groups b r s = Some (Inr (), r', s') \<and> calm s' \<and> r_prof r' = None"
proof -
  obtain a where a: "r_arena r = Some a" "arena_inv (insert (VkCommandPool, r_pool r) base) a s"
    using assms(1) by (auto simp: rec_inv_def)
  have "a_remaining a = 0 \<or> a_pools a \<noteq> []" using a(2) by (auto simp: arena_inv_def split: if_splits)
  then obtain ds a' s' where "arena_allocate (k_set_layout k) a s = Some (Inr ds, a', s')" "calm s'"
    using assms(3) by (cases "a_remaining a = 0") (auto simp: run_simps calm_def)
  then show ?thesis
    using a(1) assms(2) by (simp add: record_dispatch_def rec_bind_def in_arena_def rec_cmds_def write_set_def rec_return_def calm_def)
qed

lemma run_ops_calm:
  assumes "list_all (\<lambda>op. \<exists>k ws push groups. op = OpDispatch k ws push groups) ops"
    and "rec_inv base f0 r s" "r_prof r = None" "calm s"
  shows "\<exists>r' s'. run_ops d ops r s = Some (Inr (), r', s') \<and> calm s'"
  using assms
proof (induction ops arbitrary: r s)
  case (Cons op ops)
  then obtain k ws push groups where op: "op = OpDispatch k ws push groups" by auto
  obtain r1 s1 where c: "run_op d op r s = Some (Inr (), r1, s1)" "calm s1" "r_prof r1 = None"
    using record_dispatch_calm [OF Cons.prems(2-4), of d k ws push groups True] by (auto simp: op dispatch_def)
  have "rec_inv base f0 r1 s1" by (rule keepsE [OF keeps_run_op Cons.prems(2), of d op]) (use c(1) in auto)
  from Cons.IH [OF _ this c(3,2)] Cons.prems(1) show ?case using c(1) by (auto simp: rec_bind_def)
qed (simp add: rec_return_def)

lemma record_graph_calm:
  assumes "recordable s" "calm s" "list_all (\<lambda>op. \<exists>k ws push groups. op = OpDispatch k ws push groups) ops"
  shows "\<exists>g t. record_graph (run_ops d ops) s = Some (Inr g, t)"
proof -
  have s: "vk_ok s" "\<forall>p \<ge> fresh s. pool_sets s p = 0" using assms(1) by (auto simp: recordable_def)
  obtain r0 t0 where b: "begin_recorder False s = (Inr r0, t0)" "calm t0"
    using assms(2) by (auto simp: calm_def begin_recorder_def run_simps)
  note bg = begin_recorder_Inr [OF b(1) s]
  obtain r1 t1 where r: "run_ops d ops r0 t0 = Some (Inr (), r1, t1)" "calm t1"
    using run_ops_calm [OF assms(3) bg(1) bg(6) b(2)] by blast
  have "rec_inv (live s) (faults s) r1 t1" by (rule keepsE [OF keeps_run_ops bg(1), of d ops]) (use r(1) in auto)
  then obtain a where "r_arena r1 = Some a" by (auto simp: rec_inv_def)
  then show ?thesis
    using b(1) r by (simp add: record_graph_def record_inner_def finish_recorder_def vk_call_eq calm_def Let_def)
qed

lemma realize_dispatch: "those (map (realize m) ops) = Some rs \<Longrightarrow> list_all (\<lambda>op. \<exists>k ws push groups. op = OpDispatch k ws push groups) rs"
  by (induction ops arbitrary: rs) (auto simp: realize_def split: option.splits Option.bind_splits)

lemma record_ops_calm:
  assumes "recordable s" "calm s" "those (map (realize m) ops) = Some rs"
  shows "\<exists>g t. record_ops m (Some ops) s = Some (Inr g, t)"
  using record_graph_calm [OF assms(1,2) realize_dispatch [OF assms(3)], of "gm_ctx m"] assms(3) by (simp add: record_ops_def)

lemma submit_calm: "calm s \<Longrightarrow> \<exists>t. submit g x s = Some (Inr (), t)"
  by (auto simp: submit_def submit_blocking_def submit_and_wait_def g_bind_def vk_create_eq vk_call_eq calm_def split: prod.split)

lemma submit_all_calm: "calm s \<Longrightarrow> \<exists>t. submit_all g xs s = Some (Inr (), t)"
proof (induction xs arbitrary: s)
  case (Cons x xs)
  obtain u where u: "submit g x s = Some (Inr (), u)" using submit_calm [OF Cons.prems] by blast
  have "calm u" using calm_grows [OF Cons.prems submit_Inr(1) [OF u]] .
  from Cons.IH [OF this] show ?case using u by (simp add: st_bind_def)
qed (simp add: st_return_def)

lemma read_all_calm:
  assumes "calm s" "view_bytes p b s = Some bs"
  shows "\<exists>t. read_all p b s = Some (Inr (decode_all p bs), t)"
  using assms
  by (auto simp: read_all_def read_guard_def g_bind_def invalidate_def vk_call_eq calm_def view_bytes_def Let_def split: if_splits)

lemma concat_opt_all:
  assumes "\<forall>x \<in> set xs. \<exists>ys. x = Some ys \<and> list_all P ys"
  shows "\<exists>zs. concat_opt xs = Some zs \<and> list_all P zs"
  using assms by (induction xs) auto

lemma segment_ops_ok:
  assumes "built m cap (64 * c)" "c \<le> 1024" "0 < n" "n \<le> 64 * j" "j \<le> c" "stop \<le> x_n_layers"
  shows "\<exists>ops rs. segment_ops m start stop (64 * j) n mode = Some ops \<and> those (map (realize m) ops) = Some rs"
proof -
  have n: "n \<le> 64 * c" using assms(4,5) by linarith
  have "\<exists>ops. record_prefill_layer m i (64 * j) n = Some ops \<and> list_all (\<lambda>op. realize m op \<noteq> None) ops"
    if "i \<in> set [start..<stop]" for i
    using prefill_layer_fits [OF assms(1) _ assms(3,4,5,2), of i] that assms(6)
    by (fastforce simp: list_all_iff dest: conforms_realize)
  moreover have "\<exists>ops. record_prefill_logits m n = Some ops \<and> list_all (\<lambda>op. realize m op \<noteq> None) ops"
    using prefill_logits_fit [OF assms(1,3) n] by (fastforce simp: list_all_iff dest: conforms_realize)
  ultimately have "\<exists>ops. segment_ops m start stop (64 * j) n mode = Some ops \<and> list_all (\<lambda>op. realize m op \<noteq> None) ops"
    unfolding segment_ops_def by (intro concat_opt_all) auto
  then show ?thesis by (blast dest: those_some)
qed

lemma record_segments_calm:
  assumes "built m cap (64 * c)" "c \<le> 1024" "0 < n" "n \<le> 64 * j" "j \<le> c" "recordable s" "calm s"
  shows "\<exists>gs t. record_segments m (64 * j) n mode start segments s = Some (Inr gs, t)"
  using assms(6,7)
proof (induction "n_layers (gm_desc m) - start" arbitrary: start segments s rule: less_induct)
  case less
  have N: "n_layers (gm_desc m) = x_n_layers" by (simp add: built_simps(1) [OF assms(1)] the_model_sizes x_n_layers_def)
  let ?stop = "min (start + PREFILL_SEGMENT_LAYERS) (n_layers (gm_desc m))"
  show ?case
  proof (cases "start < n_layers (gm_desc m)")
    case True
    have "?stop \<le> x_n_layers" by (simp add: N)
    from segment_ops_ok [OF assms(1-5) this, of start mode] obtain ops rs where
      o: "segment_ops m start ?stop (64 * j) n mode = Some ops" "those (map (realize m) ops) = Some rs" by blast
    from record_ops_calm [OF less(2,3) o(2)] obtain g t where g: "record_ops m (Some ops) s = Some (Inr g, t)" by blast
    note gr = record_ops_runs(2) [OF less(2) g]
    have "n_layers (gm_desc m) - ?stop < n_layers (gm_desc m) - start" using True by (simp add: PREFILL_SEGMENT_LAYERS_def)
    from less(1) [OF this grows_recordable [OF gr less(2)] calm_grows [OF less(3) gr], of "segments @ [g]"]
    show ?thesis using True o(1) g by (subst record_segments.simps) (simp add: Let_def)
  qed (simp add: record_segments.simps)
qed

end
