(* ===== verification/Staging.thy ===== *)
theory Staging
  imports Model_Run Model_Graph_Props Reference_Props
begin

text \<open>
  What \<open>stage_token\<close> and \<open>stage_prefill_chunk\<close> leave in the device's buffers: the rows of a chunk are
  the rows that decoding its tokens one by one would stage.
\<close>

subsection \<open>Reading and writing a buffer of the model\<close>

definition reads :: "'a pod \<Rightarrow> graph_model \<Rightarrow> bref \<Rightarrow> vk \<Rightarrow> 'a list \<Rightarrow> bool" where
  "reads p m b s xs = (case gm_buf m b of Some x \<Rightarrow> holds p x s xs | None \<Rightarrow> False)"

definition mem_of :: "graph_model \<Rightarrow> bref \<Rightarrow> nat" where
  "mem_of m b = (case gm_buf m b of Some x \<Rightarrow> b_memory (inner x) | None \<Rightarrow> 0)"

text \<open>The same state but for the memories of \<open>ms\<close> (and the calls made by flushing).\<close>

definition only_memory :: "nat set \<Rightarrow> vk \<Rightarrow> vk \<Rightarrow> bool" where
  "only_memory ms s t \<longleftrightarrow> overruns t = overruns s \<and> live t = live s \<and> (\<forall>k. k \<notin> ms \<longrightarrow> memory t k = memory s k)"

abbreviation put_at :: "nat \<Rightarrow> 'a list \<Rightarrow> 'a list \<Rightarrow> 'a list" where
  "put_at n ys xs \<equiv> take n xs @ ys @ drop (n + length ys) xs"

lemma only_memory_refl [simp]: "only_memory ms s s"
  by (simp add: only_memory_def)

lemma only_memory_trans: "only_memory a s t \<Longrightarrow> only_memory b t u \<Longrightarrow> a \<union> b \<subseteq> c \<Longrightarrow> only_memory c s u"
  unfolding only_memory_def by (metis Un_iff subset_iff)

lemma reads_frame:
  "reads p m b s xs \<Longrightarrow> only_memory ms s t \<Longrightarrow> mem_of m b \<notin> ms \<Longrightarrow> reads p m b t xs"
  by (auto simp: reads_def mem_of_def only_memory_def holds_def split: option.splits)

lemma reads_memory: "reads p m b s xs \<Longrightarrow> memory t (mem_of m b) = memory s (mem_of m b) \<Longrightarrow> reads p m b t xs"
  by (auto simp: reads_def mem_of_def holds_def split: option.splits)

lemma reads_length: "reads p m b s xs \<Longrightarrow> length xs = len_of m b"
  by (auto simp: reads_def len_of_def holds_def split: option.splits)

context pod_type
begin

lemma write_at_reads:
  assumes "reads p m b s xs" and "n + length ys \<le> length xs"
  shows "\<exists>t. write_at p (gm_buf m b) n ys s = Some (Inr (), t) \<and> reads p m b t (put_at n ys xs) \<and>
    only_memory {mem_of m b} s t"
proof -
  obtain x where x: "gm_buf m b = Some x" and h: "holds p x s xs"
    using assms(1) by (auto simp: reads_def split: option.splits)
  have len: "length xs = unat (b_len x)" using h by (simp add: holds_def)
  have sl: "slice_buf x 0 (b_len x) = Some x" by (simp add: slice_buf_def)
  let ?f = "\<lambda>w. if length w = length xs then put_at n ys w else w"
  obtain r t where w: "write_guard p x ?f s = (r, t)" by (cases "write_guard p x ?f s")
  have keep: "length (?f w) = length w" for w using assms(2) by simp
  note hw = holds_write [OF h sl keep w]
  have f: "?f xs = put_at n ys xs" by simp
  have "write_guard p x (put_at n ys) s = (r, t)"
    using w unfolding write_guard_def holds_view [OF h] option.case decode_encode_all f .
  then show ?thesis
    using hw assms(2) len by (simp add: write_at_def x reads_def mem_of_def only_memory_def)
qed

end

text \<open>Every byte pattern is a value, so that any allocation that is long enough holds some list.\<close>

locale exact_pod = pod_type +
  assumes encode_decode: "length bs = size_of p \<Longrightarrow> encode p (decode p bs) = bs"
begin

lemma encode_all_onto: "length bs = n * size_of p \<Longrightarrow> \<exists>xs. length xs = n \<and> encode_all p xs = bs"
proof (induction n arbitrary: bs)
  case 0
  then show ?case by (simp add: encode_all_def)
next
  case (Suc n)
  then obtain xs where xs: "length xs = n" "encode_all p xs = drop (size_of p) bs"
    by (metis diff_add_inverse length_drop mult_Suc)
  have "encode p (decode p (take (size_of p) bs)) = take (size_of p) bs" using Suc.prems by (simp add: encode_decode)
  then have "encode_all p (decode p (take (size_of p) bs) # xs) = bs" by (simp add: encode_all_Cons xs(2))
  then show ?case using xs(1) by (metis length_Cons)
qed

lemma fits_holds:
  assumes "(unat (b_offset x) + unat (b_len x)) * size_of p < 2 ^ 64"
    and "(unat (b_offset x) + unat (b_len x)) * size_of p \<le> unat (b_size (inner x))"
    and "(unat (b_offset x) + unat (b_len x)) * size_of p \<le> length (memory t (b_memory (inner x)))"
  shows "\<exists>ys. holds p x t ys"
proof -
  let ?m = "memory t (b_memory (inner x))"
  let ?bs = "take (unat (b_len x) * size_of p) (drop (unat (b_offset x) * size_of p) ?m)"
  have "length ?bs = unat (b_len x) * size_of p" using assms(3) by (simp add: algebra_simps)
  from encode_all_onto [OF this] obtain ys where "length ys = unat (b_len x)" "encode_all p ys = ?bs" by blast
  then show ?thesis using assms unfolding holds_def by (intro exI [of _ ys]) simp
qed

lemma holds_resized:
  assumes "holds p x s xs" "length (memory t (b_memory (inner x))) = length (memory s (b_memory (inner x)))"
  shows "\<exists>ys. holds p x t ys"
  by (rule fits_holds) (use assms in \<open>auto simp: holds_def\<close>)

lemma reads_resized:
  assumes "reads p m b s xs" "\<And>k. length (memory t k) = length (memory s k)"
  shows "\<exists>ys. reads p m b t ys"
  using assms holds_resized unfolding reads_def by (auto split: option.splits)

end

lemma le_nat_bound: "le_nat bs < 256 ^ length bs"
proof (induction bs)
  case (Cons b bs)
  have "unat b < 256" using unsigned_less [of b] by simp
  then show ?case using Cons by (simp add: mult_le_mono2)
qed simp

lemma le_bytes_le_nat: "le_bytes (length bs) (le_nat bs) = bs"
proof (induction bs)
  case (Cons b bs)
  have "unat b < 256" using unsigned_less [of b] by simp
  then show ?case using Cons by simp
qed simp

lemma put_from_le: "LENGTH('a::len) = 8 * k \<Longrightarrow> length bs = k \<Longrightarrow> put_word k (from_le_bytes bs :: 'a word) = bs"
  using le_nat_bound [of bs] le_bytes_le_nat [of bs] by (simp add: put_word_def from_le_bytes_def unat_of_nat power_mult)

interpretation u32x: exact_pod pod_u32
  by unfold_locales (simp add: pod_u32_def put_from_le)

interpretation u16x: exact_pod pod_u16
  by unfold_locales (simp add: pod_u16_def put_from_le)

lemma write_step_at: "write_step m st s = write_at pod_u32 (gm_buf m Step) 0 (step_words st) s"
  by (auto simp: write_step_def write_at_def write_to_def step_words_def write_guard_def numeral_eq_Suc
      split: option.splits Option.bind_splits)

lemma write_whole_at:
  "reads pod_u32 m b s xs \<Longrightarrow> length ys = length xs \<Longrightarrow> write_whole (gm_buf m b) ys s = write_at pod_u32 (gm_buf m b) 0 ys s"
  by (auto simp: write_whole_def reads_def holds_def split: option.splits Option.bind_splits)

lemma st_bind_Inr: "m s = Some (Inr x, t) \<Longrightarrow> st_bind m f s = f x t"
  by (simp add: st_bind_def)

lemma st_unwrap_Some [simp]: "st_unwrap (Some x) s = Some (Inr x, s)"
  by (simp add: st_unwrap_def)

subsection \<open>Embedding rows\<close>

lemma embed_row_ok:
  assumes "parse file = Inr (h_gguf h)" "from_gguf (h_gguf h) = Inr d" "even (h_address h ''token_embd.weight'')"
    and "unat tok < x_vocab"
  shows "\<exists>row. embed_bits h tok = Some row \<and> length row = HIDDEN"
proof -
  have e: "(''token_embd.weight'', [x_hidden, x_vocab], Q6_K) \<in> set expected_tensors"
    by (simp add: expected_tensors_def x_embed_dtype_def)
  obtain t bs where t: "tensor (h_gguf h) ''token_embd.weight'' = Some t" "data_of (h_gguf h) t = Some bs"
    and l: "length bs = x_vocab * 4410"
    using validated_view [OF assms(1,2) e] by (auto simp: tensor_size_def x_hidden_def)
  have "unat tok * 4410 + 4410 \<le> x_vocab * 4410" using assms(4) by linarith
  then have le: "unat tok * 4410 + 4410 \<le> length bs" unfolding l .
  let ?bs = "take 4410 (drop (unat tok * 4410) bs)"
  have lb: "length ?bs = 4410" using le by simp
  let ?row = "concat (map (\<lambda>b. map (\<lambda>v. f32_mul (h_floats h) v (h_scale h))
                (dequantize_q6_k (h_floats h) b (replicate 256 (h_zero h)))) (cast_q6_k_fuel 21 ?bs))"
  have a: "even (h_address h ''token_embd.weight'' + unat tok * 4410)" using assms(3) by simp
  have "embed_row h tok = Some ?row"
    using t le lb a
    by (simp add: embed_row_def Let_def HIDDEN_def qk6_k_def block_q6_k_size_def blocks_from_bytes_q6_k_def x_hidden_def)
  moreover have "length ?row = 21 * 256"
    by (subst length_concat_rows [where k = 256]) (auto simp: length_cast_q6_k)
  ultimately show ?thesis by (simp add: embed_bits_def HIDDEN_def x_hidden_def)
qed

subsection \<open>Rows of a table\<close>

lemma length_table_row: "length (table_row h hdim theta f p) = 2 * (hdim div 2)"
proof -
  have "length (concat (map (\<lambda>i. let (c, s) = h_angle h p i hdim theta (map_option (\<lambda>f. f ! i) f) in [c, s]) xs)) = 2 * length xs" for xs
    by (induction xs) (auto split: prod.split)
  from this [of "[0..<hdim div 2]"] show ?thesis by (simp add: table_row_def)
qed

lemma live_rows_concat:
  assumes "\<forall>r \<in> set rs. length r = full" "0 < full"
  shows "live_rows full keep (concat rs) = concat (map (take keep) rs)"
  using assms(1)
proof (induction rs)
  case (Cons r rs)
  have "chunks_exact full (r @ concat rs) = r # chunks_exact full (concat rs)"
    using Cons.prems assms(2) by (subst chunks_exact.simps) simp
  then show ?case using Cons by (simp add: live_rows_def)
qed (use assms(2) in \<open>simp add: live_rows_def chunks_exact.simps\<close>)

lemma concat_block:
  "\<forall>r \<in> set rs. length r = n \<Longrightarrow> i < length rs \<Longrightarrow> take n (drop (i * n) (concat rs)) = rs ! i"
proof (induction rs arbitrary: i)
  case (Cons r rs)
  then show ?case by (cases i) simp_all
qed simp

lemma length_concat_blocks: "\<forall>r \<in> set rs. length r = n \<Longrightarrow> length (concat rs) = length rs * n"
  by (induction rs) simp_all

lemma concat_prefix_block:
  assumes "\<forall>r \<in> set rs. length r = n" "i < length rs"
  shows "take n (drop (i * n) (concat rs @ ys)) = rs ! i"
proof -
  have "i * n + n \<le> length (concat rs)"
    using length_concat_blocks [OF assms(1)] assms(2) by (metis Suc_leI add.commute mult_Suc mult_le_mono1)
  then show ?thesis using concat_block [OF assms] by (simp del: length_concat)
qed

definition sliding_rows :: "'f host \<Rightarrow> u32 list \<Rightarrow> f32 list list" where
  "sliding_rows h ps = map (table_row h 256 x_sliding_theta None) ps"

definition global_rows :: "'f host \<Rightarrow> u32 list \<Rightarrow> f32 list list" where
  "global_rows h ps = map (\<lambda>p. take 128 (table_row h 512 x_global_theta (Some (h_factors h)) p)) ps"

lemma rotary_rows_length:
  "r \<in> set (sliding_rows h ps) \<Longrightarrow> length r = 256" "r \<in> set (global_rows h ps) \<Longrightarrow> length r = 128"
  "length (concat (sliding_rows h ps)) = length ps * 256" "length (concat (global_rows h ps)) = length ps * 128"
proof -
  show a: "r \<in> set (sliding_rows h ps) \<Longrightarrow> length r = 256" "r \<in> set (global_rows h ps) \<Longrightarrow> length r = 128" for r
    by (auto simp: sliding_rows_def global_rows_def length_table_row)
  have "length (sliding_rows h ps) = length ps" "length (global_rows h ps) = length ps"
    by (simp_all add: sliding_rows_def global_rows_def)
  then show "length (concat (sliding_rows h ps)) = length ps * 256" "length (concat (global_rows h ps)) = length ps * 128"
    using length_concat_blocks [of "sliding_rows h ps" 256] length_concat_blocks [of "global_rows h ps" 128] a by metis+
qed

lemma rope_thetas: "rope_theta (sliding the_model) = x_sliding_theta" "rope_theta (global the_model) = x_global_theta"
  by (simp_all add: the_model_def)

lemma staged_tables:
  assumes "gm_desc m = the_model"
  shows "cos_sin_table h ps (head_dim (sliding (gm_desc m))) (rope_theta (sliding (gm_desc m))) None = Some (concat (sliding_rows h ps))"
    and "length (h_factors h) = 256 \<Longrightarrow> \<exists>gl.
      cos_sin_table h ps (head_dim (global (gm_desc m))) (rope_theta (global (gm_desc m))) (Some (h_factors h)) = Some gl \<and>
      live_rows (head_dim (global (gm_desc m)) div 2 * 2) (live_global m) gl = concat (global_rows h ps) \<and>
      (\<forall>p. ps = [p] \<longrightarrow> length gl = 512 \<and> take (live_global m) gl = concat (global_rows h [p]))"
proof -
  show "cos_sin_table h ps (head_dim (sliding (gm_desc m))) (rope_theta (sliding (gm_desc m))) None = Some (concat (sliding_rows h ps))"
    by (simp add: cos_sin_table_def assms the_model_sizes rope_thetas sliding_rows_def)
  assume f: "length (h_factors h) = 256"
  let ?rs = "map (table_row h 512 x_global_theta (Some (h_factors h))) ps"
  have "live_rows 512 128 (concat ?rs) = concat (map (take 128) ?rs)"
    by (rule live_rows_concat) (auto simp: length_table_row)
  then show "\<exists>gl.
      cos_sin_table h ps (head_dim (global (gm_desc m))) (rope_theta (global (gm_desc m))) (Some (h_factors h)) = Some gl \<and>
      live_rows (head_dim (global (gm_desc m)) div 2 * 2) (live_global m) gl = concat (global_rows h ps) \<and>
      (\<forall>p. ps = [p] \<longrightarrow> length gl = 512 \<and> take (live_global m) gl = concat (global_rows h [p]))"
    using f by (auto simp: cos_sin_table_def assms the_model_sizes rope_thetas live_global_def global_rows_def comp_def length_table_row)
qed

subsection \<open>Staging\<close>

definition staging_bufs :: "bref list" where
  "staging_bufs = [Step, CsSliding, CsGlobal, Act A_x, Pre A_x, Pre A_cs_sl, Pre A_cs_gl]"

text \<open>The staged buffers hold data, each in an allocation of its own.\<close>

definition staging_ready :: "graph_model \<Rightarrow> vk \<Rightarrow> bool" where
  "staging_ready m s \<longleftrightarrow> distinct (map (mem_of m) staging_bufs) \<and>
     (\<forall>b \<in> set staging_bufs. if wide b then \<exists>xs. reads pod_u32 m b s xs else \<exists>xs. reads pod_u16 m b s xs)"

lemma staging_readyD:
  assumes "staging_ready m s"
  shows "\<exists>xs. reads pod_u32 m Step s xs" "\<exists>xs. reads pod_u32 m CsSliding s xs" "\<exists>xs. reads pod_u32 m CsGlobal s xs"
    "\<exists>xs. reads pod_u16 m (Act A_x) s xs" "\<exists>xs. reads pod_u16 m (Pre A_x) s xs"
    "\<exists>xs. reads pod_u32 m (Pre A_cs_sl) s xs" "\<exists>xs. reads pod_u32 m (Pre A_cs_gl) s xs"
  using assms by (simp_all add: staging_ready_def staging_bufs_def)

lemma staging_ready_resized:
  assumes "staging_ready m s" "\<And>k. length (memory t k) = length (memory s k)"
  shows "staging_ready m t"
  using assms(1) u32x.reads_resized [OF _ assms(2)] u16x.reads_resized [OF _ assms(2)]
  unfolding staging_ready_def by meson

lemma staging_ready_memory:
  assumes "staging_ready m s" "\<forall>b \<in> set staging_bufs. memory t (mem_of m b) = memory s (mem_of m b)"
  shows "staging_ready m t"
  using assms unfolding staging_ready_def by (metis reads_memory)

lemma staging_distinct:
  assumes "staging_ready m s"
  shows "distinct [mem_of m Step, mem_of m CsSliding, mem_of m CsGlobal, mem_of m (Act A_x), mem_of m (Pre A_x),
    mem_of m (Pre A_cs_sl), mem_of m (Pre A_cs_gl)]"
  using assms by (simp add: staging_ready_def staging_bufs_def)

lemma staged_lengths:
  assumes "built m cap chunk"
  shows "len_of m Step = 4" "len_of m CsSliding = 256" "len_of m CsGlobal = 128" "len_of m (Act A_x) = HIDDEN"
    "len_of m (Pre A_x) = chunk * HIDDEN" "len_of m (Pre A_cs_sl) = chunk * 256" "len_of m (Pre A_cs_gl) = chunk * 128"
  by (simp_all add: built_simps [OF assms] model_sizes)

lemma write_rows_reads:
  assumes "map (embed_bits h) toks = map Some rs" "\<forall>r \<in> set rs. length r = HIDDEN"
    and "reads pod_u16 m (Pre A_x) s xs" and "(n + length toks) * HIDDEN \<le> length xs"
  shows "\<exists>t. write_rows h m n toks s = Some (Inr (), t) \<and> only_memory {mem_of m (Pre A_x)} s t \<and>
    reads pod_u16 m (Pre A_x) t (take (n * HIDDEN) xs @ concat rs @ drop ((n + length toks) * HIDDEN) xs)"
  using assms
proof (induction toks arbitrary: rs n s xs)
  case Nil
  then show ?case by (simp add: st_return_def)
next
  case (Cons tok toks)
  obtain r rs' where rs: "rs = r # rs'" using Cons.prems(1) by (cases rs) auto
  have e: "embed_bits h tok = Some r" "map (embed_bits h) toks = map Some rs'" and lr: "length r = HIDDEN" "\<forall>r \<in> set rs'. length r = HIDDEN"
    using Cons.prems(1,2) by (auto simp: rs)
  have le: "(Suc n + length toks) * HIDDEN \<le> length xs" "n * HIDDEN + HIDDEN \<le> length xs"
    using Cons.prems(4) by (simp_all add: algebra_simps)
  from u16s.write_at_reads [OF Cons.prems(3), of "n * HIDDEN" r] lr le obtain t where
    t: "write_at pod_u16 (gm_buf m (Pre A_x)) (n * HIDDEN) r s = Some (Inr (), t)"
    "reads pod_u16 m (Pre A_x) t (put_at (n * HIDDEN) r xs)" "only_memory {mem_of m (Pre A_x)} s t" by auto
  have l: "length (put_at (n * HIDDEN) r xs) = length xs" using le lr by simp
  from Cons.IH [OF e(2) lr(2) t(2), of "Suc n"] le(1) obtain u where
    u: "write_rows h m (Suc n) toks t = Some (Inr (), u)" "only_memory {mem_of m (Pre A_x)} t u"
    "reads pod_u16 m (Pre A_x) u (take (Suc n * HIDDEN) (put_at (n * HIDDEN) r xs) @ concat rs' @
       drop ((Suc n + length toks) * HIDDEN) (put_at (n * HIDDEN) r xs))"
    unfolding l by blast
  have "\<not> len_of m (Pre A_x) < n * HIDDEN + HIDDEN" using le(2) reads_length [OF Cons.prems(3)] by simp
  then have "write_rows h m n (tok # toks) s = Some (Inr (), u)"
    using t(1) u(1) by (simp add: st_bind_def e(1) lr(1))
  moreover have "take (Suc n * HIDDEN) (put_at (n * HIDDEN) r xs) = take (n * HIDDEN) xs @ r"
    "drop ((Suc n + length toks) * HIDDEN) (put_at (n * HIDDEN) r xs) = drop ((n + length (tok # toks)) * HIDDEN) xs"
    using le lr by (simp_all add: algebra_simps)
  ultimately show ?case
    using u(2,3) only_memory_trans [OF t(3) u(2)] by (auto simp: rs)
qed

lemma token_staged:
  assumes "built m cap chunk" "staging_ready m s" "length (h_factors h) = 256"
    and "embed_bits h tok = Some row" "length row = HIDDEN"
  shows "\<exists>u. stage_token h m at tok s = Some (Inr (), u) \<and>
    reads pod_u32 m Step u [at, min (at + 1) 1024, at + 1, 0] \<and> reads pod_u16 m (Act A_x) u row \<and>
    reads pod_u32 m CsSliding u (concat (sliding_rows h [at])) \<and> reads pod_u32 m CsGlobal u (concat (global_rows h [at])) \<and>
    only_memory (mem_of m ` {Step, Act A_x, CsSliding, CsGlobal}) s u"
proof -
  note d = staging_distinct [OF assms(2)]
  note len = staged_lengths [OF assms(1)] and desc = built_simps(1) [OF assms(1)]
  let ?sl = "concat (sliding_rows h [at])" and ?gl = "concat (global_rows h [at])"
  have ls: "length ?sl = 256" "length ?gl = 128" using rotary_rows_length(3,4) [of h "[at]"] by simp_all
  obtain x0 x1 x2 x3 where r: "reads pod_u16 m (Act A_x) s x0" "reads pod_u32 m Step s x1"
      "reads pod_u32 m CsSliding s x2" "reads pod_u32 m CsGlobal s x3"
    using staging_readyD [OF assms(2)] by blast
  note l = r [THEN reads_length, unfolded len]
  obtain a where a: "write_at pod_u16 (gm_buf m (Act A_x)) 0 row s = Some (Inr (), a)" "reads pod_u16 m (Act A_x) a row"
      "only_memory {mem_of m (Act A_x)} s a"
    using u16s.write_at_reads [OF r(1), of 0 row] l(1) assms(5) by auto
  let ?st = "[at, min (at + 1) 1024, at + 1, 0]"
  have "reads pod_u32 m Step a x1" using reads_frame [OF r(2) a(3)] d by auto
  from u32s.write_at_reads [OF this, of 0 ?st] l(2) obtain b where
    b: "write_at pod_u32 (gm_buf m Step) 0 ?st a = Some (Inr (), b)" "reads pod_u32 m Step b ?st" "only_memory {mem_of m Step} a b"
    by auto
  have sb: "only_memory {mem_of m (Act A_x), mem_of m Step} s b" by (rule only_memory_trans [OF a(3) b(3)]) simp
  have cs: "reads pod_u32 m CsSliding b x2" using reads_frame [OF r(3) sb] d by auto
  from u32s.write_at_reads [OF this, of 0 ?sl] l(3) ls obtain c where
    c: "write_at pod_u32 (gm_buf m CsSliding) 0 ?sl b = Some (Inr (), c)" "reads pod_u32 m CsSliding c ?sl"
      "only_memory {mem_of m CsSliding} b c" by auto
  have sc: "only_memory {mem_of m (Act A_x), mem_of m Step, mem_of m CsSliding} s c"
    by (rule only_memory_trans [OF sb c(3)]) auto
  have cg: "reads pod_u32 m CsGlobal c x3" using reads_frame [OF r(4) sc] d by auto
  from u32s.write_at_reads [OF this, of 0 ?gl] l(4) ls obtain u where
    u: "write_at pod_u32 (gm_buf m CsGlobal) 0 ?gl c = Some (Inr (), u)" "reads pod_u32 m CsGlobal u ?gl"
      "only_memory {mem_of m CsGlobal} c u" by auto
  have su: "only_memory (mem_of m ` {Step, Act A_x, CsSliding, CsGlobal}) s u"
    by (rule only_memory_trans [OF sc u(3)]) auto
  obtain gl where gl: "cos_sin_table h [at] (head_dim (global (gm_desc m))) (rope_theta (global (gm_desc m))) (Some (h_factors h)) = Some gl"
      "length gl = 512" "take (live_global m) gl = ?gl"
    using staged_tables(2) [OF desc assms(3), of "[at]"] by auto
  have whole: "write_whole (gm_buf m CsSliding) ?sl b = Some (Inr (), c)" "write_whole (gm_buf m CsGlobal) ?gl c = Some (Inr (), u)"
    using c(1) u(1) ls l(3,4) write_whole_at [OF cs] write_whole_at [OF cg] by (simp_all del: length_concat)
  have lg: "live_global m = 128" by (simp add: live_global_def desc the_model_sizes)
  have st: "step_words \<lparr>st_pos = at, st_kv_len_sliding = min (at + 1) (of_nat (sliding_window (gm_desc m))), st_kv_len_global = at + 1, st_q0 = 0\<rparr> = ?st"
    by (simp add: step_words_def desc the_model_sizes)
  have "stage_token h m at tok s = Some (Inr (), u)"
    unfolding stage_token_def assms(4) len(4) staged_tables(1) [OF desc] gl(1)
    using a(1) b(1) whole gl(2,3) lg assms(5)
    by (simp add: st_bind_Inr write_step_at st)
  moreover have "reads pod_u32 m Step u ?st" "reads pod_u16 m (Act A_x) u row" "reads pod_u32 m CsSliding u ?sl"
    using reads_frame [OF reads_frame [OF b(2) c(3)] u(3)]
      reads_frame [OF reads_frame [OF reads_frame [OF a(2) b(3)] c(3)] u(3)] reads_frame [OF c(2) u(3)] d by auto
  ultimately show ?thesis using u(2) su by blast
qed

lemma chunk_staged:
  assumes "built m cap chunk" "staging_ready m s" "length (h_factors h) = 256" "length toks \<le> chunk"
    and "map (embed_bits h) toks = map Some rs" "\<forall>r \<in> set rs. length r = HIDDEN"
  shows "\<exists>t xs sl gl. stage_prefill_chunk h m at toks s = Some (Inr (), t) \<and>
    reads pod_u32 m Step t [at, 0, 0, at] \<and>
    reads pod_u16 m (Pre A_x) t (concat rs @ xs) \<and>
    reads pod_u32 m (Pre A_cs_sl) t (concat (sliding_rows h (chunk_positions at (length toks))) @ sl) \<and>
    reads pod_u32 m (Pre A_cs_gl) t (concat (global_rows h (chunk_positions at (length toks))) @ gl) \<and>
    only_memory (mem_of m ` {Step, Pre A_x, Pre A_cs_sl, Pre A_cs_gl}) s t"
proof -
  note d = staging_distinct [OF assms(2)]
  note len = staged_lengths [OF assms(1)] and desc = built_simps(1) [OF assms(1)]
  let ?ps = "chunk_positions at (length toks)"
  let ?sl = "concat (sliding_rows h ?ps)" and ?gl = "concat (global_rows h ?ps)"
  have lp: "length ?ps = length toks" by (simp add: chunk_positions_def)
  have ls: "length ?sl \<le> chunk * 256" "length ?gl \<le> chunk * 128"
    using rotary_rows_length(3,4) [of h ?ps] assms(4) by (simp_all add: lp)
  obtain x0 x1 x2 x3 where r: "reads pod_u16 m (Pre A_x) s x0" "reads pod_u32 m Step s x1"
      "reads pod_u32 m (Pre A_cs_sl) s x2" "reads pod_u32 m (Pre A_cs_gl) s x3"
    using staging_readyD [OF assms(2)] by blast
  note l = r [THEN reads_length, unfolded len]
  have "(0 + length toks) * HIDDEN \<le> length x0" using assms(4) l(1) by simp
  from write_rows_reads [OF assms(5,6) r(1) this] obtain a where
    a: "write_rows h m 0 toks s = Some (Inr (), a)" "only_memory {mem_of m (Pre A_x)} s a"
      "reads pod_u16 m (Pre A_x) a (concat rs @ drop (length toks * HIDDEN) x0)" by auto
  let ?st = "[at, 0, 0, at]"
  have "reads pod_u32 m Step a x1" using reads_frame [OF r(2) a(2)] d by auto
  from u32s.write_at_reads [OF this, of 0 ?st] l(2) obtain b where
    b: "write_at pod_u32 (gm_buf m Step) 0 ?st a = Some (Inr (), b)" "reads pod_u32 m Step b ?st" "only_memory {mem_of m Step} a b"
    by auto
  have sb: "only_memory {mem_of m (Pre A_x), mem_of m Step} s b" by (rule only_memory_trans [OF a(2) b(3)]) simp
  have "reads pod_u32 m (Pre A_cs_sl) b x2" using reads_frame [OF r(3) sb] d by auto
  from u32s.write_at_reads [OF this, of 0 ?sl] l(3) ls obtain c where
    c: "write_at pod_u32 (gm_buf m (Pre A_cs_sl)) 0 ?sl b = Some (Inr (), c)"
      "reads pod_u32 m (Pre A_cs_sl) c (?sl @ drop (length ?sl) x2)" "only_memory {mem_of m (Pre A_cs_sl)} b c"
    by (auto simp del: length_concat)
  have sc: "only_memory {mem_of m (Pre A_x), mem_of m Step, mem_of m (Pre A_cs_sl)} s c"
    by (rule only_memory_trans [OF sb c(3)]) auto
  have "reads pod_u32 m (Pre A_cs_gl) c x3" using reads_frame [OF r(4) sc] d by auto
  from u32s.write_at_reads [OF this, of 0 ?gl] l(4) ls obtain t where
    t: "write_at pod_u32 (gm_buf m (Pre A_cs_gl)) 0 ?gl c = Some (Inr (), t)"
      "reads pod_u32 m (Pre A_cs_gl) t (?gl @ drop (length ?gl) x3)" "only_memory {mem_of m (Pre A_cs_gl)} c t"
    by (auto simp del: length_concat)
  have su: "only_memory (mem_of m ` {Step, Pre A_x, Pre A_cs_sl, Pre A_cs_gl}) s t"
    by (rule only_memory_trans [OF sc t(3)]) auto
  obtain gl where gl: "cos_sin_table h ?ps (head_dim (global (gm_desc m))) (rope_theta (global (gm_desc m))) (Some (h_factors h)) = Some gl"
      "live_rows (head_dim (global (gm_desc m)) div 2 * 2) (live_global m) gl = ?gl"
    using staged_tables(2) [OF desc assms(3), of ?ps] by blast
  have st: "step_words \<lparr>st_pos = at, st_kv_len_sliding = 0, st_kv_len_global = 0, st_q0 = at\<rparr> = ?st"
    by (simp add: step_words_def)
  have "stage_prefill_chunk h m at toks s = Some (Inr (), t)"
    unfolding stage_prefill_chunk_def Let_def staged_tables(1) [OF desc] gl(1)
    using a(1) b(1) c(1) t(1) gl(2)
    by (simp add: st_bind_Inr write_step_at st)
  moreover have "reads pod_u32 m Step t ?st" "reads pod_u16 m (Pre A_x) t (concat rs @ drop (length toks * HIDDEN) x0)"
    "reads pod_u32 m (Pre A_cs_sl) t (?sl @ drop (length ?sl) x2)"
    using reads_frame [OF reads_frame [OF b(2) c(3)] t(3)]
      reads_frame [OF reads_frame [OF reads_frame [OF a(3) b(3)] c(3)] t(3)] reads_frame [OF c(2) t(3)] d by auto
  ultimately show ?thesis using t(2) su by blast
qed

text \<open>
  C33: Staging a chunk of at most the chunk capacity never fails on a built model and a validated
  file: every write guard stays inside its buffer, nothing but the four staged allocations changes,
  and afterwards the step words hold the position, and row \<open>i\<close> of the hidden state and of both rotary
  tables is what \<open>stage_token\<close>, which does not fail either, leaves for token \<open>i\<close> at position
  \<open>at + i\<close> in the buffers decoding reads. The sliding rows use head dimension 256 and the sliding
  theta, the global rows the first 128 values of dimension 512 with the global theta and the factors.
\<close>

theorem staged_chunk_matches_tokens:
  assumes "built m cap (64 * c)" and "staging_ready m s"
    and "parse file = Inr (h_gguf h)" "from_gguf (h_gguf h) = Inr d" "even (h_address h ''token_embd.weight'')"
    and "length (h_factors h) = 256" and "length toks \<le> 64 * c" "\<forall>tok \<in> set toks. unat tok < x_vocab"
  shows "\<exists>t xs sl gl. stage_prefill_chunk h m at toks s = Some (Inr (), t) \<and>
    only_memory (mem_of m ` {Step, Pre A_x, Pre A_cs_sl, Pre A_cs_gl}) s t \<and>
    reads pod_u32 m Step t [at, 0, 0, at] \<and>
    reads pod_u16 m (Pre A_x) t xs \<and> reads pod_u32 m (Pre A_cs_sl) t sl \<and> reads pod_u32 m (Pre A_cs_gl) t gl \<and>
    (\<forall>i < length toks. let p = at + of_nat i in
       embed_bits h (toks ! i) = Some (take HIDDEN (drop (i * HIDDEN) xs)) \<and>
       take 256 (drop (i * 256) sl) = table_row h 256 x_sliding_theta None p \<and>
       take 128 (drop (i * 128) gl) = take 128 (table_row h 512 x_global_theta (Some (h_factors h)) p) \<and>
       (\<exists>u. stage_token h m p (toks ! i) s = Some (Inr (), u) \<and>
          only_memory (mem_of m ` {Step, Act A_x, CsSliding, CsGlobal}) s u \<and>
          reads pod_u32 m Step u [p, min (p + 1) 1024, p + 1, 0] \<and>
          reads pod_u16 m (Act A_x) u (take HIDDEN (drop (i * HIDDEN) xs)) \<and>
          reads pod_u32 m CsSliding u (take 256 (drop (i * 256) sl)) \<and>
          reads pod_u32 m CsGlobal u (take 128 (drop (i * 128) gl))))"
proof -
  let ?row = "\<lambda>tok. the (embed_bits h tok)"
  let ?ps = "chunk_positions at (length toks)"
  have e: "embed_bits h tok = Some (?row tok)" "length (?row tok) = HIDDEN" if "tok \<in> set toks" for tok
    using embed_row_ok [OF assms(3-5)] assms(8) that by fastforce+
  have rs: "map (embed_bits h) toks = map Some (map ?row toks)" "\<forall>r \<in> set (map ?row toks). length r = HIDDEN"
    using e by auto
  from chunk_staged [OF assms(1,2,6,7) rs, of at] obtain t xs sl gl where
    t: "stage_prefill_chunk h m at toks s = Some (Inr (), t)" "reads pod_u32 m Step t [at, 0, 0, at]"
      "reads pod_u16 m (Pre A_x) t (concat (map ?row toks) @ xs)"
      "reads pod_u32 m (Pre A_cs_sl) t (concat (sliding_rows h ?ps) @ sl)"
      "reads pod_u32 m (Pre A_cs_gl) t (concat (global_rows h ?ps) @ gl)"
      "only_memory (mem_of m ` {Step, Pre A_x, Pre A_cs_sl, Pre A_cs_gl}) s t" by blast
  have row: "take HIDDEN (drop (i * HIDDEN) (concat (map ?row toks) @ xs)) = ?row (toks ! i)"
    "take 256 (drop (i * 256) (concat (sliding_rows h ?ps) @ sl)) = table_row h 256 x_sliding_theta None (at + of_nat i)"
    "take 128 (drop (i * 128) (concat (global_rows h ?ps) @ gl)) =
       take 128 (table_row h 512 x_global_theta (Some (h_factors h)) (at + of_nat i))"
    if "i < length toks" for i
  proof -
    have ps: "length ?ps = length toks" "?ps ! i = at + of_nat i" using that by (simp_all add: chunk_positions_def)
    show "take HIDDEN (drop (i * HIDDEN) (concat (map ?row toks) @ xs)) = ?row (toks ! i)"
      using concat_prefix_block [OF rs(2), of i xs] that by simp
    have l: "i < length (sliding_rows h ?ps)" "i < length (global_rows h ?ps)"
      using that ps(1) by (simp_all add: sliding_rows_def global_rows_def)
    have n: "sliding_rows h ?ps ! i = table_row h 256 x_sliding_theta None (at + of_nat i)"
      "global_rows h ?ps ! i = take 128 (table_row h 512 x_global_theta (Some (h_factors h)) (at + of_nat i))"
      using that ps by (simp_all add: sliding_rows_def global_rows_def)
    show "take 256 (drop (i * 256) (concat (sliding_rows h ?ps) @ sl)) = table_row h 256 x_sliding_theta None (at + of_nat i)"
      unfolding n(1) [symmetric] by (rule concat_prefix_block [OF _ l(1)]) (use rotary_rows_length(1) in blast)
    show "take 128 (drop (i * 128) (concat (global_rows h ?ps) @ gl)) =
       take 128 (table_row h 512 x_global_theta (Some (h_factors h)) (at + of_nat i))"
      unfolding n(2) [symmetric] by (rule concat_prefix_block [OF _ l(2)]) (use rotary_rows_length(2) in blast)
  qed
  have "let p = at + of_nat i in embed_bits h (toks ! i) = Some (?row (toks ! i)) \<and>
      (\<exists>u. stage_token h m p (toks ! i) s = Some (Inr (), u) \<and>
          only_memory (mem_of m ` {Step, Act A_x, CsSliding, CsGlobal}) s u \<and>
          reads pod_u32 m Step u [p, min (p + 1) 1024, p + 1, 0] \<and>
          reads pod_u16 m (Act A_x) u (?row (toks ! i)) \<and>
          reads pod_u32 m CsSliding u (table_row h 256 x_sliding_theta None p) \<and>
          reads pod_u32 m CsGlobal u (take 128 (table_row h 512 x_global_theta (Some (h_factors h)) p)))"
    if "i < length toks" for i
    using e [of "toks ! i"] token_staged [OF assms(1,2,6) e [of "toks ! i"], of "at + of_nat i"] that
    by (auto simp: Let_def sliding_rows_def global_rows_def)
  with t row show ?thesis
    by (intro exI [of _ t] exI [of _ "concat (map ?row toks) @ xs"] exI [of _ "concat (sliding_rows h ?ps) @ sl"]
        exI [of _ "concat (global_rows h ?ps) @ gl"]) (simp add: Let_def)
qed

text \<open>A built model whose staged buffers have memories of their own.\<close>

fun staging_memory :: "bref \<Rightarrow> nat" where
  "staging_memory Step = 1" | "staging_memory CsSliding = 2" | "staging_memory CsGlobal = 3"
| "staging_memory (Act a) = 4" | "staging_memory (Pre A_x) = 5" | "staging_memory (Pre A_cs_sl) = 6"
| "staging_memory _ = 7"

definition staging_model :: graph_model where
  "staging_model = sample_model\<lparr>gm_buf := (\<lambda>b. map_option (\<lambda>n.
     \<lparr>inner = \<lparr>b_buffer = 1, b_memory = staging_memory b, b_mapped = 3, b_size = 1000000, b_coherent = True\<rparr>,
      b_offset = 0, b_len = of_nat n\<rparr>) (model_len 1024 64 b))\<rparr>"

definition staging_state :: vk where
  "staging_state = (vk_init (\<lambda>_. None))\<lparr>memory := (\<lambda>_. replicate 1000000 0)\<rparr>"

lemma staging_built: "built staging_model 1024 (64 * 1)"
proof -
  have "map_option (\<lambda>x. unat (b_len x)) (gm_buf staging_model b) = model_len 1024 64 b" for b
    using sample_sizes [of b] by (cases "model_len 1024 64 b") (simp_all add: staging_model_def unat_u64)
  then show ?thesis by (simp add: built_def staging_model_def sample_model_def the_model_def comp_def)
qed

lemma zero_words: "encode pod_u32 0 = replicate 4 0" "encode pod_u16 0 = replicate 2 0"
  by code_simp+

lemma concat_zeros: "concat (replicate n (replicate k x)) = replicate (n * k) x"
  by (induction n) (simp_all only: replicate_Suc replicate_0 concat.simps mult_Suc mult_0 replicate_add)

lemma encode_zeros: "encode_all pod_u32 (replicate n 0) = replicate (n * 4) 0" "encode_all pod_u16 (replicate n 0) = replicate (n * 2) 0"
  by (simp_all only: encode_all_def map_replicate zero_words concat_zeros)

lemma staging_reads:
  assumes "model_len 1024 64 b = Some n"
  shows "n * 4 \<le> 1000000 \<Longrightarrow> reads pod_u32 staging_model b staging_state (replicate n 0)"
    "n * 2 \<le> 1000000 \<Longrightarrow> reads pod_u16 staging_model b staging_state (replicate n 0)"
proof -
  have sz: "size_of pod_u32 = 4" "size_of pod_u16 = 2" by (simp_all add: pod_u32_def pod_u16_def)
  have l: "unat (of_nat n :: u64) = n" using sample_sizes [OF assms] by (simp add: unat_u64)
  show "n * 4 \<le> 1000000 \<Longrightarrow> reads pod_u32 staging_model b staging_state (replicate n 0)"
    "n * 2 \<le> 1000000 \<Longrightarrow> reads pod_u16 staging_model b staging_state (replicate n 0)"
    by (simp_all add: reads_def holds_def encode_zeros staging_model_def staging_state_def sz assms l min_def)
qed

lemma staging_lens:
  "model_len 1024 64 Step = Some 4" "model_len 1024 64 CsSliding = Some 256" "model_len 1024 64 CsGlobal = Some 128"
  "model_len 1024 64 (Act A_x) = Some 5376" "model_len 1024 64 (Pre A_x) = Some 344064"
  "model_len 1024 64 (Pre A_cs_sl) = Some 16384" "model_len 1024 64 (Pre A_cs_gl) = Some 8192"
  by (simp_all add: model_sizes)

lemma staging_sample_ready: "staging_ready staging_model staging_state"
proof -
  note r = staging_lens [THEN staging_reads(1)] staging_lens [THEN staging_reads(2)]
  have "mem_of staging_model b = staging_memory b" if "b \<in> set staging_bufs" for b
    using that by (auto simp: staging_bufs_def mem_of_def staging_model_def staging_lens)
  then have "map (mem_of staging_model) staging_bufs = [1, 2, 3, 4, 5, 6, 7]"
    by (simp add: staging_bufs_def)
  moreover have "if wide b then \<exists>xs. reads pod_u32 staging_model b staging_state xs
      else \<exists>xs. reads pod_u16 staging_model b staging_state xs" if "b \<in> set staging_bufs" for b
    using that r by (auto simp: staging_bufs_def)
  ultimately show ?thesis by (simp add: staging_ready_def)
qed

text \<open>Tokens 5 and 6 staged together at position 100 of any host with the sample file.\<close>

definition staging_host :: "nat host \<Rightarrow> nat host" where
  "staging_host h = h\<lparr>h_gguf := model_gguf, h_address := (\<lambda>_. 0), h_factors := model_factors\<rparr>"

theorem staged_chunk_matches_tokens_witness:
  "\<forall>h. \<exists>t xs. stage_prefill_chunk (staging_host h) staging_model 100 [5, 6] staging_state = Some (Inr (), t) \<and>
     overruns t = 0 \<and> reads pod_u32 staging_model Step t [100, 0, 0, 100] \<and> reads pod_u16 staging_model (Pre A_x) t xs \<and>
     embed_bits (staging_host h) 6 = Some (take HIDDEN (drop HIDDEN xs)) \<and>
     (\<exists>u. stage_token (staging_host h) staging_model 101 6 staging_state = Some (Inr (), u) \<and>
        reads pod_u32 staging_model Step u [101, 102, 102, 0] \<and>
        reads pod_u16 staging_model (Act A_x) u (take HIDDEN (drop HIDDEN xs)))"
proof
  fix h
  let ?h = "staging_host h"
  have h: "parse model_file = Inr (h_gguf ?h)" "from_gguf (h_gguf ?h) = Inr the_model"
    "even (h_address ?h ''token_embd.weight'')" "length (h_factors ?h) = 256"
    using model_parse(1) model_validates by (simp_all add: staging_host_def model_factors_def)
  have l: "length [5, 6 :: u32] \<le> 64 * 1" "\<forall>tok \<in> set [5, 6 :: u32]. unat tok < x_vocab" by (simp_all add: x_vocab_def)
  obtain t xs sl gl where t: "stage_prefill_chunk ?h staging_model 100 [5, 6] staging_state = Some (Inr (), t)"
      "only_memory (mem_of staging_model ` {Step, Pre A_x, Pre A_cs_sl, Pre A_cs_gl}) staging_state t"
      "reads pod_u32 staging_model Step t [100, 0, 0, 100]" "reads pod_u16 staging_model (Pre A_x) t xs"
    and i: "\<forall>i < length [5, 6 :: u32]. let p = 100 + of_nat i in
       embed_bits ?h ([5, 6] ! i) = Some (take HIDDEN (drop (i * HIDDEN) xs)) \<and>
       take 256 (drop (i * 256) sl) = table_row ?h 256 x_sliding_theta None p \<and>
       take 128 (drop (i * 128) gl) = take 128 (table_row ?h 512 x_global_theta (Some (h_factors ?h)) p) \<and>
       (\<exists>u. stage_token ?h staging_model p ([5, 6] ! i) staging_state = Some (Inr (), u) \<and>
          only_memory (mem_of staging_model ` {Step, Act A_x, CsSliding, CsGlobal}) staging_state u \<and>
          reads pod_u32 staging_model Step u [p, min (p + 1) 1024, p + 1, 0] \<and>
          reads pod_u16 staging_model (Act A_x) u (take HIDDEN (drop (i * HIDDEN) xs)) \<and>
          reads pod_u32 staging_model CsSliding u (take 256 (drop (i * 256) sl)) \<and>
          reads pod_u32 staging_model CsGlobal u (take 128 (drop (i * 128) gl)))"
    using staged_chunk_matches_tokens [OF staging_built staging_sample_ready h l, of 100] by blast
  have "overruns t = 0" using t(2) by (simp add: only_memory_def staging_state_def vk_init_def)
  moreover have p: "(100 :: u32) + of_nat (Suc 0) = 101" "min ((101 :: u32) + 1) 1024 = 102" by simp_all
  note i [rule_format, of "Suc 0", unfolded Let_def p, simplified]
  ultimately show "\<exists>t xs. stage_prefill_chunk ?h staging_model 100 [5, 6] staging_state = Some (Inr (), t) \<and>
     overruns t = 0 \<and> reads pod_u32 staging_model Step t [100, 0, 0, 100] \<and> reads pod_u16 staging_model (Pre A_x) t xs \<and>
     embed_bits ?h 6 = Some (take HIDDEN (drop HIDDEN xs)) \<and>
     (\<exists>u. stage_token ?h staging_model 101 6 staging_state = Some (Inr (), u) \<and>
        reads pod_u32 staging_model Step u [101, 102, 102, 0] \<and>
        reads pod_u16 staging_model (Act A_x) u (take HIDDEN (drop HIDDEN xs)))"
    using t(1,3,4) by blast
qed

end
