(* ===== verification/All_Logits.thy ===== *)
theory All_Logits
  imports Graph_Runs Staging
begin

text \<open>
  \<open>GpuModel::prefill_all_logits\<close> of \<open>crates/sg-model/src/graph.rs\<close>: the logits of every token of a
  text, chunk by chunk, with the LM head run over batches of rows. Its graph caches and its buffer are
  the fields \<open>logits_all\<close>, \<open>norm_all_graphs\<close> and \<open>logits_batch_graphs\<close>. What a run submits is followed
  down to the dispatches in the command buffers, and without a failing call it is shown to return.
\<close>

subsection \<open>Model\<close>

definition LOGITS_BATCH :: nat where "LOGITS_BATCH = 32"

record all_state =
  al_run :: run_state
  logits_all :: "buffer option"
  norm_all_graphs :: "nat \<Rightarrow> command_graph option"
  logits_batch_graphs :: "nat \<times> nat \<Rightarrow> command_graph option"

type_synonym 'a all_m = "all_state \<Rightarrow> ((gpu_error + 'a) \<times> all_state) option"

definition al_bind :: "'a all_m \<Rightarrow> ('a \<Rightarrow> 'b all_m) \<Rightarrow> 'b all_m" where
  "al_bind m f s = Option.bind (m s) (\<lambda>(r, t). case r of Inl e \<Rightarrow> Some (Inl e, t) | Inr x \<Rightarrow> f x t)"

definition al_return :: "'a \<Rightarrow> 'a all_m" where "al_return x s = Some (Inr x, s)"

definition on_run :: "'a run_m \<Rightarrow> 'a all_m" where
  "on_run m s = map_option (\<lambda>(r, t). (r, s\<lparr>al_run := t\<rparr>)) (m (al_run s))"

definition ensure_logits :: "'f gpu_model \<Rightarrow> mem_env \<Rightarrow> unit all_m" where
  "ensure_logits g env s =
     (case logits_all s of
        Some b \<Rightarrow> Some (Inr (), s)
      | None \<Rightarrow>
          (case new_buffer (gm_ctx (gp_graph g)) env pod_u32 (of_nat (max_chunk g * vocab_size (gm_desc (gp_graph g)))) STORAGE_BUFFER
                  (rs_vk (al_run s)) of
             (Inl e, t) \<Rightarrow> Some (Inl e, s\<lparr>al_run := (al_run s)\<lparr>rs_vk := t\<rparr>\<rparr>)
           | (Inr b, t) \<Rightarrow> Some (Inr (), s\<lparr>al_run := (al_run s)\<lparr>rs_vk := t\<rparr>, logits_all := Some b\<rparr>)))"

definition norm_all_op :: "nat \<Rightarrow> mop" where
  "norm_all_op m_pad = rms K_rms5376 (Pre A_x) OutputNorm (Pre A_xn) m_pad"

definition logits_row :: "graph_model \<Rightarrow> nat \<Rightarrow> mop" where
  "logits_row m r =
     (let vocab = vocab_size (gm_desc m) in
      mk_op K_logits [bnd 0 TokenEmbd, (1, Pre A_xn, Some (r * HIDDEN, (r + 1) * HIDDEN)), (2, LogitsAll, Some (r * vocab, (r + 1) * vocab))]
        None [of_nat vocab, 1, 1])"

definition with_all :: "graph_model \<Rightarrow> buffer option \<Rightarrow> graph_model" where
  "with_all m b = m\<lparr>gm_buf := (gm_buf m)(LogitsAll := b)\<rparr>"

definition norm_graph :: "'f gpu_model \<Rightarrow> nat \<Rightarrow> command_graph all_m" where
  "norm_graph g m_pad s =
     (case norm_all_graphs s m_pad of
        Some x \<Rightarrow> Some (Inr x, s)
      | None \<Rightarrow> al_bind (on_run (on_vk (record_ops (gp_graph g) (Some [norm_all_op m_pad]))))
          (\<lambda>x t. Some (Inr x, t\<lparr>norm_all_graphs := (norm_all_graphs t)(m_pad \<mapsto> x)\<rparr>)) s)"

definition batch_graph :: "'f gpu_model \<Rightarrow> nat \<times> nat \<Rightarrow> command_graph all_m" where
  "batch_graph g k s =
     (case logits_batch_graphs s k of
        Some x \<Rightarrow> Some (Inr x, s)
      | None \<Rightarrow> al_bind (on_run (on_vk (record_ops (with_all (gp_graph g) (logits_all s))
            (Some (map (logits_row (gp_graph g)) [fst k..<fst k + snd k])))))
          (\<lambda>x t. Some (Inr x, t\<lparr>logits_batch_graphs := (logits_batch_graphs t)(k \<mapsto> x)\<rparr>)) s)"

text \<open>The batches the loop over \<open>r0\<close> goes through.\<close>

function row_batches :: "nat \<Rightarrow> nat \<Rightarrow> (nat \<times> nat) list" where
  "row_batches r0 n_real =
     (if r0 < n_real
      then let len = min LOGITS_BATCH (n_real - r0) in (r0, len) # row_batches (r0 + len) n_real
      else [])"
  by pat_completeness auto

termination
  by (relation "measure (\<lambda>(r0, n_real). n_real - r0)") (auto simp: LOGITS_BATCH_def)

declare row_batches.simps [simp del]

fun run_batches :: "'f gpu_model \<Rightarrow> (nat \<times> nat) list \<Rightarrow> unit all_m" where
  "run_batches g [] = al_return ()"
| "run_batches g (k # ks) =
     al_bind (batch_graph g k) (\<lambda>x. al_bind (on_run (on_vk (submit g x))) (\<lambda>_. run_batches g ks))"

definition read_rows :: "nat \<Rightarrow> f32 list all_m" where
  "read_rows n s =
     Option.bind (logits_all s) (\<lambda>b.
     al_bind (on_run (on_vk (read_all pod_u32 b))) (\<lambda>xs t. if length xs < n then None else Some (Inr (take n xs), t)) s)"

definition all_chunk :: "'f gpu_model \<Rightarrow> u32 list \<Rightarrow> f32 list all_m" where
  "all_chunk g chunk =
     (let n_real = length chunk in
      al_bind (on_run (prefill_chunk g LogitsNone chunk)) (\<lambda>_.
      al_bind (norm_graph g (next_multiple_64 n_real)) (\<lambda>x.
      al_bind (on_run (on_vk (submit g x))) (\<lambda>_.
      al_bind (run_batches g (row_batches 0 n_real)) (\<lambda>_.
      read_rows (n_real * vocab_size (gm_desc (gp_graph g))))))))"

fun all_chunks :: "'f gpu_model \<Rightarrow> u32 list list \<Rightarrow> f32 list \<Rightarrow> f32 list all_m" where
  "all_chunks g [] out = al_return out"
| "all_chunks g (chunk # rest) out = al_bind (all_chunk g chunk) (\<lambda>rows. all_chunks g rest (out @ rows))"

definition prefill_all_logits :: "'f gpu_model \<Rightarrow> mem_env \<Rightarrow> u32 list \<Rightarrow> f32 list all_m" where
  "prefill_all_logits g env tokens =
     al_bind (ensure_logits g env) (\<lambda>_ s. if max_chunk g = 0 then None else all_chunks g (chunks_of (max_chunk g) tokens) [] s)"

subsection \<open>Profiled recordings and taps\<close>

definition record_prefill_chunk_plain :: "'f gpu_model \<Rightarrow> vk \<Rightarrow> ((gpu_error + command_graph list) \<times> vk) option" where
  "record_prefill_chunk_plain g = record_prefill (gp_graph g) (max_chunk g) (max_chunk g) LogitsNone"

definition record_ops_profiled ::
  "graph_model \<Rightarrow> timer \<Rightarrow> mop list option \<Rightarrow> vk \<Rightarrow> ((gpu_error + command_graph \<times> string list) \<times> vk) option" where
  "record_ops_profiled m timer ops s =
     Option.bind ops (\<lambda>xs. Option.bind (those (map (realize m) xs)) (\<lambda>rs. record_graph_profiled timer (run_ops (gm_ctx m) rs) s))"

definition record_layers_kernel_profiled ::
  "graph_model \<Rightarrow> nat list \<Rightarrow> timer \<Rightarrow> vk \<Rightarrow> ((gpu_error + command_graph \<times> string list) \<times> vk) option" where
  "record_layers_kernel_profiled m layers timer = record_ops_profiled m timer (decode_ops m layers False)"

definition record_prefill_kernel_profiled ::
  "'f gpu_model \<Rightarrow> nat list \<Rightarrow> timer \<Rightarrow> vk \<Rightarrow> ((gpu_error + command_graph \<times> string list) \<times> vk) option" where
  "record_prefill_kernel_profiled g layers timer =
     record_ops_profiled (gp_graph g) timer (prefill_layer_ops (gp_graph g) layers (max_chunk g) (max_chunk g))"

definition prefill_tap_buffer :: "string \<Rightarrow> bool \<Rightarrow> act option" where
  "prefill_tap_buffer name sl =
     (if name = ''attn_norm'' then Some A_xn
      else if name = ''q_rope'' then Some (if sl then A_q_sl else A_q_gl)
      else if name = ''k_rope'' then Some (if sl then A_k_sl else A_k_gl)
      else if name = ''v_norm'' then Some (if sl then A_v_sl else A_v_gl)
      else if name = ''attn'' then Some (if sl then A_attn_sl else A_attn_gl)
      else if name = ''attn_out'' then Some A_o
      else if name = ''post_attn_norm'' then Some A_on
      else if name = ''h_attn'' then Some A_x2
      else if name = ''ffn_norm'' then Some A_fin
      else if name = ''ffn_out'' then Some A_f
      else if name = ''post_ffn_norm'' then Some A_fn2
      else if name = ''layer_out'' then Some A_x
      else None)"

definition read_f16 :: "'f f32_ops \<Rightarrow> graph_model \<Rightarrow> bref \<Rightarrow> 'f list step_m" where
  "read_f16 fo m b =
     st_bind (st_unwrap (gm_buf m b)) (\<lambda>x. st_bind (read_all pod_u16 x) (\<lambda>xs. st_return (map (f16_to_f32 fo) xs)))"

definition read_prefill_tap :: "'f host \<Rightarrow> graph_model \<Rightarrow> string \<Rightarrow> bool \<Rightarrow> 'f list step_m" where
  "read_prefill_tap h m name sl s =
     (case prefill_tap_buffer name sl of
        None \<Rightarrow> Some (Inl (Validation (''unknown tap `'' @ name @ ''`'')), s)
      | Some a \<Rightarrow> read_f16 (h_floats h) m (Pre a) s)"

definition read_prefill_hidden :: "'f host \<Rightarrow> graph_model \<Rightarrow> nat \<Rightarrow> 'f list step_m" where
  "read_prefill_hidden h m n =
     st_bind (read_f16 (h_floats h) m (Pre A_x)) (\<lambda>xs s. if length xs < n * HIDDEN then None else Some (Inr (take (n * HIDDEN) xs), s))"

definition read_hidden :: "'f host \<Rightarrow> graph_model \<Rightarrow> 'f list step_m" where
  "read_hidden h m = read_f16 (h_floats h) m (Act A_x)"

lemma tap_buffers: "built m cap chunk \<Longrightarrow> prefill_tap_buffer name sl = Some a \<Longrightarrow> gm_buf m (Pre a) \<noteq> None"
  by (auto simp: prefill_tap_buffer_def built_simps(5) split: if_splits)

subsection \<open>Every row once\<close>

lemma row_batches_rows: "concat (map (\<lambda>(r, l). [r..<r + l]) (row_batches r0 n)) = [r0..<n]"
proof (induction r0 n rule: row_batches.induct)
  case (1 r0 n)
  show ?case
  proof (cases "r0 < n")
    case True
    have "r0 + min LOGITS_BATCH (n - r0) \<le> n" using True by simp
    then show ?thesis
      using 1 [OF True refl] upt_add_eq_append [of r0 "r0 + min LOGITS_BATCH (n - r0)" "n - (r0 + min LOGITS_BATCH (n - r0))"] True
      by (subst row_batches.simps) (simp add: Let_def del: upt_Suc)
  qed (simp add: row_batches.simps)
qed

lemma row_batches_bound: "(r, l) \<in> set (row_batches r0 n) \<Longrightarrow> r + l \<le> n \<and> 0 < l \<and> l \<le> 32"
proof (induction r0 n rule: row_batches.induct)
  case (1 r0 n)
  have "(r, l) \<in> set (if r0 < n then let len = min LOGITS_BATCH (n - r0) in (r0, len) # row_batches (r0 + len) n else [])"
    using 1(2) row_batches.simps [of r0 n] by simp
  then show ?case using 1(1) [OF _ refl] by (auto simp: Let_def LOGITS_BATCH_def split: if_splits)
qed

subsection \<open>Dispatches\<close>

lemma norm_all_fits:
  assumes "built m cap (64 * c)" "j \<le> c" "c \<le> 1024"
  shows "conforms m \<lparr>x_rows = 64 * j, x_real = n, x_cap = 64 * c\<rparr> (norm_all_op (64 * j))"
  using assms(2,3) by (simp add: norm_all_op_def built_simps [OF assms(1)] built_bound [OF assms(1)] conform_simps unat_u32_times)

lemma logits_row_fits:
  assumes "built m cap (64 * c)" "r < 64 * c" "unat (b_len b) = 64 * c * vocab_size (gm_desc m)"
  shows "conforms (with_all m (Some b)) decode_extent (logits_row m r)"
proof -
  have d: "vocab_size (gm_desc m) = 262144" by (simp add: built_simps [OF assms(1)] the_model_sizes)
  have w: "bound_len (with_all m (Some b)) (i, x, sl) = bound_len m (i, x, sl)" if "x \<noteq> LogitsAll" for i x sl
    using that by (simp add: with_all_def bound_len_def)
  have l: "bound_len (with_all m (Some b)) (i, LogitsAll, Some (lo, hi)) = (if lo \<le> hi \<and> hi \<le> 64 * c * 262144 then Some (hi - lo) else None)" for i lo hi
    using assms(3) d by (simp add: with_all_def bound_len_def)
  have r: "Suc r \<le> 64 * c" using assms(2) by simp
  then have "Suc r * 5376 \<le> 64 * c * 5376" "Suc r * 262144 \<le> 64 * c * 262144" by (intro mult_le_mono1; assumption)+
  then show ?thesis
    by (simp add: logits_row_def d w l built_bound [OF assms(1)] conform_simps decode_extent_def)
qed

subsection \<open>Results\<close>

lemma al_bind_Some:
  assumes "al_bind m f s = Some (Inr y, t)"
  obtains x u where "m s = Some (Inr x, u)" "f x u = Some (Inr y, t)"
  using assms by (auto simp: al_bind_def split: sum.splits Option.bind_splits)

lemma on_run_Some: "on_run m s = Some (r, t) \<Longrightarrow> \<exists>u. m (al_run s) = Some (r, u) \<and> t = s\<lparr>al_run := u\<rparr>"
  by (auto simp: on_run_def)

definition pos_of :: "all_state \<Rightarrow> u32" where "pos_of s = rs_pos (al_run s)"

lemma on_run_pos: "on_run (on_vk m) s = Some (r, t) \<Longrightarrow> pos_of t = pos_of s"
  by (auto simp: pos_of_def dest!: on_run_Some on_vk_pos)

lemma graph_pos:
  "norm_graph g m_pad s = Some (Inr x, t) \<Longrightarrow> pos_of t = pos_of s"
  "batch_graph g k s = Some (Inr x, t) \<Longrightarrow> pos_of t = pos_of s"
  by (auto simp: norm_graph_def batch_graph_def split: option.splits elim!: al_bind_Some dest!: on_run_pos) (simp_all add: pos_of_def)

lemma run_batches_pos: "run_batches g ks s = Some (Inr (), t) \<Longrightarrow> pos_of t = pos_of s"
proof (induction ks arbitrary: s)
  case (Cons k ks)
  from Cons.prems show ?case
    by (auto elim!: al_bind_Some dest!: on_run_pos graph_pos(2) Cons.IH)
qed (simp add: al_return_def)

lemma all_chunk_result:
  assumes "all_chunk g chunk s = Some (Inr rws, t)"
  shows "length rws = length chunk * vocab_size (gm_desc (gp_graph g)) \<and> pos_of t = pos_of s + of_nat (length chunk)"
proof -
  have c: "pos_of u = pos_of s + of_nat (length chunk)" if "on_run (prefill_chunk g LogitsNone chunk) s = Some (Inr x, u)" for x u s
    using that prefill_chunk_pos by (fastforce simp: pos_of_def dest!: on_run_Some)
  have r: "length rws = n \<and> pos_of t = pos_of s" if "read_rows n s = Some (Inr rws, t)" for n s
    using that by (auto simp: read_rows_def split: Option.bind_splits if_splits elim!: al_bind_Some dest!: on_run_pos)
  show ?thesis
    using assms unfolding all_chunk_def Let_def
    by (auto elim!: al_bind_Some dest!: c graph_pos(1) on_run_pos run_batches_pos r)
qed

lemma all_chunks_result:
  "all_chunks g cs out s = Some (Inr xs, t) \<Longrightarrow>
     length xs = length out + length (concat cs) * vocab_size (gm_desc (gp_graph g)) \<and> pos_of t = pos_of s + of_nat (length (concat cs))"
proof (induction cs arbitrary: out s)
  case (Cons c cs)
  from Cons.prems obtain rws u where c: "all_chunk g c s = Some (Inr rws, u)" "all_chunks g cs (out @ rws) u = Some (Inr xs, t)"
    by (auto elim: al_bind_Some)
  show ?case using Cons.IH [OF c(2)] all_chunk_result [OF c(1)] by (simp add: algebra_simps)
qed (simp add: al_return_def)

lemma ensure_logits_result:
  assumes "ensure_logits g env s = Some (Inr u, t)"
  shows "pos_of t = pos_of s"
  using assms by (auto simp: ensure_logits_def pos_of_def split: option.splits prod.splits sum.splits)

lemma ensure_logits_len:
  assumes "ensure_logits g env s = Some (Inr u, t)" "logits_all s = None" "max_chunk g * vocab_size (gm_desc (gp_graph g)) < 2 ^ 64"
  shows "\<exists>b. logits_all t = Some b \<and> unat (b_len b) = max_chunk g * vocab_size (gm_desc (gp_graph g))"
proof -
  have len: "b_len b = n" if "new_buffer d env p n us v = (Inr b, w)" for d p n us v w b
    by (rule alloc_filled_Inr [OF that [unfolded new_buffer_filled]]) (simp add: whole_def)
  show ?thesis
    using assms unfolding ensure_logits_def by (auto split: prod.splits sum.splits dest!: len simp: unat_u64 simp del: of_nat_mult)
qed

subsection \<open>What is submitted\<close>

abbreviation vk_of :: "all_state \<Rightarrow> vk" where "vk_of s \<equiv> rs_vk (al_run s)"

text \<open>The recorded graphs of the three caches run what their keys say.\<close>

definition all_inv :: "'f gpu_model \<Rightarrow> all_state \<Rightarrow> bool" where
  "all_inv g s \<longleftrightarrow> recordable (vk_of s) \<and>
     (\<forall>b. logits_all s = Some b \<longrightarrow> unat (b_len b) = max_chunk g * vocab_size (gm_desc (gp_graph g))) \<and>
     (\<forall>m_pad n mode gs. prefill_graphs (al_run s) (m_pad, n, mode) = Some gs \<longrightarrow>
        segments_run (vk_of s) (gp_graph g) m_pad n mode gs) \<and>
     (\<forall>m_pad x. norm_all_graphs s m_pad = Some x \<longrightarrow> runs_ops (vk_of s) (gp_graph g) (g_cb x) [norm_all_op m_pad]) \<and>
     (\<forall>r l x. logits_batch_graphs s (r, l) = Some x \<longrightarrow> logits_all s \<noteq> None \<and>
        runs_ops (vk_of s) (with_all (gp_graph g) (logits_all s)) (g_cb x) (map (logits_row (gp_graph g)) [r..<r + l]))"

lemma all_inv_grows:
  assumes "all_inv g s" "grows (vk_of s) v"
  shows "all_inv g (s\<lparr>al_run := (al_run s)\<lparr>rs_vk := v, rs_pos := q\<rparr>\<rparr>)" "all_inv g (s\<lparr>al_run := (al_run s)\<lparr>rs_vk := v\<rparr>\<rparr>)"
proof -
  have rec: "recordable v" using assms by (auto simp: all_inv_def grows_def)
  note inv = assms(1) [unfolded all_inv_def]
  show "all_inv g (s\<lparr>al_run := (al_run s)\<lparr>rs_vk := v, rs_pos := q\<rparr>\<rparr>)" "all_inv g (s\<lparr>al_run := (al_run s)\<lparr>rs_vk := v\<rparr>\<rparr>)"
    using rec inv segments_run_grows [OF _ assms(2)] runs_ops_grows [OF _ assms(2)] by (simp_all add: all_inv_def)
qed

lemma on_vk_all: "on_run (on_vk m) s = Some (r, t) \<longleftrightarrow> (\<exists>v. m (vk_of s) = Some (r, v) \<and> t = s\<lparr>al_run := (al_run s)\<lparr>rs_vk := v\<rparr>\<rparr>)"
  by (auto simp: on_run_def on_vk_def)

text \<open>A step of the all-logits loop: only the driver state, the caches and the position move.\<close>

definition al_step :: "'f gpu_model \<Rightarrow> all_state \<Rightarrow> all_state \<Rightarrow> bool" where
  "al_step g s t \<longleftrightarrow> all_inv g t \<and> grows (vk_of s) (vk_of t) \<and> logits_all t = logits_all s"

lemma al_step_trans: "al_step g s t \<Longrightarrow> al_step g t u \<Longrightarrow> al_step g s u"
  by (auto simp: al_step_def intro: grows_trans)

lemma norm_graph_runs:
  assumes "all_inv g s" "norm_graph g m_pad s = Some (Inr x, t)"
  shows "al_step g s t" "vk_frame (vk_of s) (vk_of t)" "runs_ops (vk_of t) (gp_graph g) (g_cb x) [norm_all_op m_pad]" "pos_of t = pos_of s"
proof -
  have "al_step g s t \<and> vk_frame (vk_of s) (vk_of t) \<and> runs_ops (vk_of t) (gp_graph g) (g_cb x) [norm_all_op m_pad]"
  proof (cases "norm_all_graphs s m_pad")
    case (Some y)
    then show ?thesis using assms by (auto simp: norm_graph_def al_step_def all_inv_def)
  next
    case None
    then obtain v where v: "record_ops (gp_graph g) (Some [norm_all_op m_pad]) (vk_of s) = Some (Inr x, v)"
      "t = s\<lparr>al_run := (al_run s)\<lparr>rs_vk := v\<rparr>, norm_all_graphs := (norm_all_graphs s)(m_pad \<mapsto> x)\<rparr>"
      using assms(2) by (auto simp: norm_graph_def on_vk_all elim!: al_bind_Some)
    have "recordable (vk_of s)" using assms(1) by (simp add: all_inv_def)
    note r = record_ops_runs [OF this v(1)]
    have "all_inv g (s\<lparr>al_run := (al_run s)\<lparr>rs_vk := v\<rparr>\<rparr>)" by (rule all_inv_grows(2) [OF assms(1) r(2)])
    then show ?thesis using r v(2) by (auto simp: al_step_def all_inv_def)
  qed
  then show "al_step g s t" "vk_frame (vk_of s) (vk_of t)" "runs_ops (vk_of t) (gp_graph g) (g_cb x) [norm_all_op m_pad]" by blast+
  show "pos_of t = pos_of s" by (rule graph_pos(1) [OF assms(2)])
qed

lemma batch_graph_runs:
  assumes "all_inv g s" "logits_all s \<noteq> None" "batch_graph g (r, l) s = Some (Inr x, t)"
  shows "al_step g s t" "vk_frame (vk_of s) (vk_of t)"
    "runs_ops (vk_of t) (with_all (gp_graph g) (logits_all t)) (g_cb x) (map (logits_row (gp_graph g)) [r..<r + l])"
proof -
  have "al_step g s t \<and> vk_frame (vk_of s) (vk_of t) \<and>
    runs_ops (vk_of t) (with_all (gp_graph g) (logits_all t)) (g_cb x) (map (logits_row (gp_graph g)) [r..<r + l])"
  proof (cases "logits_batch_graphs s (r, l)")
    case (Some y)
    then show ?thesis using assms by (auto simp: batch_graph_def al_step_def all_inv_def)
  next
    case None
    then obtain v where v: "record_ops (with_all (gp_graph g) (logits_all s)) (Some (map (logits_row (gp_graph g)) [r..<r + l])) (vk_of s) =
        Some (Inr x, v)" "t = s\<lparr>al_run := (al_run s)\<lparr>rs_vk := v\<rparr>, logits_batch_graphs := (logits_batch_graphs s)((r, l) \<mapsto> x)\<rparr>"
      using assms(3) by (auto simp: batch_graph_def on_vk_all elim!: al_bind_Some)
    have "recordable (vk_of s)" using assms(1) by (simp add: all_inv_def)
    note r = record_ops_runs [OF this v(1)]
    have "all_inv g (s\<lparr>al_run := (al_run s)\<lparr>rs_vk := v\<rparr>\<rparr>)" by (rule all_inv_grows(2) [OF assms(1) r(2)])
    then show ?thesis using r v(2) assms(2) by (auto simp: al_step_def all_inv_def)
  qed
  then show "al_step g s t" "vk_frame (vk_of s) (vk_of t)"
    "runs_ops (vk_of t) (with_all (gp_graph g) (logits_all t)) (g_cb x) (map (logits_row (gp_graph g)) [r..<r + l])" by blast+
qed

text \<open>Submissions: what was submitted and how the device changed the memory.\<close>

definition ran_cbs :: "'f gpu_model \<Rightarrow> nat list \<Rightarrow> vk \<Rightarrow> vk \<Rightarrow> bool" where
  "ran_cbs g cbs s t \<longleftrightarrow> submitted t = submitted s @ cbs \<and> memory t = fold (h_execute (gp_host g)) cbs (memory s) \<and>
     overruns t = overruns s"

lemma ran_cbs_trans: "ran_cbs g xs s t \<Longrightarrow> ran_cbs g ys t u \<Longrightarrow> ran_cbs g (xs @ ys) s u"
  by (simp add: ran_cbs_def)

lemma ran_cbs_frame: "vk_frame s t \<Longrightarrow> ran_cbs g [] s t"
  by (simp add: ran_cbs_def vk_frame_def)

lemma submit_step:
  assumes "all_inv g s" "on_run (on_vk (submit g x)) s = Some (Inr u, t)"
  shows "al_step g s t" "ran_cbs g [g_cb x] (vk_of s) (vk_of t)"
proof -
  obtain v where v: "submit g x (vk_of s) = Some (Inr u, v)" "t = s\<lparr>al_run := (al_run s)\<lparr>rs_vk := v\<rparr>\<rparr>"
    using assms(2) by (auto simp: on_vk_all)
  note r = submit_Inr [OF v(1)]
  show "al_step g s t" "ran_cbs g [g_cb x] (vk_of s) (vk_of t)"
    using all_inv_grows(2) [OF assms(1) r(1)] r v(2) by (simp_all add: al_step_def ran_cbs_def)
qed

definition batches_run :: "'f gpu_model \<Rightarrow> all_state \<Rightarrow> (nat \<times> nat) list \<Rightarrow> nat list \<Rightarrow> bool" where
  "batches_run g t ks cbs \<longleftrightarrow> list_all2 (\<lambda>(r, l) cb. 0 < l \<and> l \<le> 32 \<and>
     runs_ops (vk_of t) (with_all (gp_graph g) (logits_all t)) cb (map (logits_row (gp_graph g)) [r..<r + l])) ks cbs"

lemma batches_run_step: "batches_run g s ks cbs \<Longrightarrow> al_step g s t \<Longrightarrow> batches_run g t ks cbs"
  unfolding batches_run_def al_step_def by (erule list_all2_mono) (auto intro: runs_ops_grows)

lemma run_batches_ran:
  assumes "all_inv g s" "logits_all s \<noteq> None" "\<forall>(r, l) \<in> set ks. 0 < l \<and> l \<le> 32" "run_batches g ks s = Some (Inr u, t)"
  shows "\<exists>cbs. al_step g s t \<and> ran_cbs g cbs (vk_of s) (vk_of t) \<and> batches_run g t ks cbs"
  using assms
proof (induction ks arbitrary: s)
  case Nil
  then show ?case by (intro exI [of _ "[]"]) (simp add: al_return_def al_step_def ran_cbs_def batches_run_def)
next
  case (Cons k ks)
  obtain r l where k: "k = (r, l)" by (cases k)
  from Cons.prems(4) obtain x a v b where a: "batch_graph g (r, l) s = Some (Inr x, a)"
    and b: "on_run (on_vk (submit g x)) a = Some (Inr v, b)" and rest: "run_batches g ks b = Some (Inr u, t)"
    unfolding k run_batches.simps by (elim al_bind_Some) blast
  note ga = batch_graph_runs [OF Cons.prems(1,2) a]
  have ia: "all_inv g a" "logits_all a \<noteq> None" using ga(1) Cons.prems(2) by (auto simp: al_step_def)
  note sb = submit_step [OF ia(1) b]
  have ib: "all_inv g b" "logits_all b \<noteq> None" using sb(1) ia(2) by (auto simp: al_step_def)
  from Cons.IH [OF ib _ rest] Cons.prems(3) obtain cbs where
    c: "al_step g b t" "ran_cbs g cbs (vk_of b) (vk_of t)" "batches_run g t ks cbs" by auto
  have "batches_run g a [(r, l)] [g_cb x]" using ga(3) Cons.prems(3) k by (simp add: batches_run_def)
  from batches_run_step [OF batches_run_step [OF this sb(1)] c(1)]
  have "batches_run g t (k # ks) (g_cb x # cbs)"
    using c(3) unfolding batches_run_def k list_all2_Cons by blast
  moreover have "ran_cbs g (g_cb x # cbs) (vk_of s) (vk_of t)"
    using ran_cbs_trans [OF ran_cbs_trans [OF ran_cbs_frame [OF ga(2)] sb(2)] c(2)] by simp
  ultimately show ?case using al_step_trans [OF al_step_trans [OF ga(1) sb(1)] c(1)] by blast
qed

lemma cached_prefill_runs:
  assumes "all_inv g s" "cached_prefill g m_pad n mode (al_run s) = Some (Inr gs, a)" "0 < n_layers (gm_desc (gp_graph g))"
  shows "al_step g s (s\<lparr>al_run := a\<rparr>)" "vk_frame (vk_of s) (rs_vk a)" "segments_run (rs_vk a) (gp_graph g) m_pad n mode gs"
    "rs_pos a = pos_of s"
proof -
  have "al_step g s (s\<lparr>al_run := a\<rparr>) \<and> vk_frame (vk_of s) (rs_vk a) \<and> segments_run (rs_vk a) (gp_graph g) m_pad n mode gs"
  proof (cases "prefill_graphs (al_run s) (m_pad, n, mode)")
    case (Some y)
    then show ?thesis using assms by (auto simp: cached_prefill_def al_step_def all_inv_def)
  next
    case None
    then obtain v where v: "record_prefill (gp_graph g) m_pad n mode (vk_of s) = Some (Inr gs, v)"
      "a = (al_run s)\<lparr>rs_vk := v, prefill_graphs := (prefill_graphs (al_run s))((m_pad, n, mode) \<mapsto> gs)\<rparr>"
      using assms(2) by (auto simp: cached_prefill_def on_vk_def rn_bind_def split: Option.bind_splits sum.splits prod.splits)
    have "recordable (vk_of s)" using assms(1) by (simp add: all_inv_def)
    note r = record_prefill_runs [OF this v(1) assms(3)]
    have "all_inv g (s\<lparr>al_run := (al_run s)\<lparr>rs_vk := v\<rparr>\<rparr>)" by (rule all_inv_grows(2) [OF assms(1) r(2)])
    then show ?thesis using r v(2) by (auto simp: al_step_def all_inv_def)
  qed
  then show "al_step g s (s\<lparr>al_run := a\<rparr>)" "vk_frame (vk_of s) (rs_vk a)" "segments_run (rs_vk a) (gp_graph g) m_pad n mode gs" by blast+
  show "rs_pos a = pos_of s" using cached_prefill_pos [OF assms(2)] by (simp add: pos_of_def)
qed

lemma prefill_chunk_ran:
  assumes "all_inv g s" "on_run (prefill_chunk g LogitsNone chunk) s = Some (Inr u, t)" "0 < n_layers (gm_desc (gp_graph g))"
  shows "\<exists>gs v staged. al_step g s t \<and> segments_run (vk_of t) (gp_graph g) (next_multiple_64 (length chunk)) (length chunk) LogitsNone gs \<and>
    vk_frame (vk_of s) v \<and> stage_prefill_chunk (gp_host g) (gp_graph g) (pos_of s) chunk v = Some (Inr (), staged) \<and>
    submitted staged = submitted (vk_of s) \<and> ran_cbs g (map g_cb gs) staged (vk_of t) \<and> pos_of t = pos_of s + of_nat (length chunk)"
proof -
  let ?m = "gp_graph g" and ?p = "next_multiple_64 (length chunk)"
  obtain gs a staged w where a: "cached_prefill g ?p (length chunk) LogitsNone (al_run s) = Some (Inr gs, a)"
    and st: "stage_prefill_chunk (gp_host g) ?m (rs_pos a) chunk (rs_vk a) = Some (Inr (), staged)"
    and w: "submit_all g gs staged = Some (Inr (), w)"
    and t: "t = s\<lparr>al_run := a\<lparr>rs_vk := w, rs_pos := rs_pos a + of_nat (length chunk)\<rparr>\<rparr>"
    using assms(2) by (auto simp: on_run_def prefill_chunk_def Let_def rn_bind_def on_vk_def advance_by_def
        split: Option.bind_splits sum.splits prod.splits)
  note c = cached_prefill_runs [OF assms(1) a assms(3)]
  have gst: "grows (rs_vk a) staged" "submitted staged = submitted (rs_vk a)"
    using touches_stage [of "gp_host g" ?m "rs_pos a" chunk] st by (auto simp: touches_memory_def)
  note sw = submit_all_Inr [OF w]
  have gw: "grows (rs_vk a) w" using grows_trans [OF gst(1)] sw by blast
  have inv: "all_inv g (s\<lparr>al_run := a\<rparr>)" using c(1) by (simp add: al_step_def)
  have "al_step g (s\<lparr>al_run := a\<rparr>) t"
    using all_inv_grows(1) [OF inv, of w "rs_pos a + of_nat (length chunk)"] gw by (simp add: al_step_def t)
  then have "al_step g s t" by (rule al_step_trans [OF c(1)])
  moreover have "segments_run (vk_of t) ?m ?p (length chunk) LogitsNone gs" using segments_run_grows [OF c(3) gw] by (simp add: t)
  ultimately show ?thesis
    using c(2,4) st gst(2) sw
    by (intro exI [of _ gs] exI [of _ "rs_vk a"] exI [of _ staged]) (simp add: t ran_cbs_def pos_of_def vk_frame_def)
qed

text \<open>
  One chunk: after staging, the submissions are the segments of the 60 layers, the norm over all
  rows and the batches of the LM head, whose dispatches together take every row once and in order;
  the rows returned are read from the buffer they wrote, with the memory that execution has left.
\<close>

definition chunk_ran :: "'f gpu_model \<Rightarrow> all_state \<Rightarrow> u32 list \<Rightarrow> f32 list \<Rightarrow> all_state \<Rightarrow> bool" where
  "chunk_ran g s chunk out t \<longleftrightarrow> (\<exists>v staged gs norm ks cbs b bs.
     vk_frame (vk_of s) v \<and> stage_prefill_chunk (gp_host g) (gp_graph g) (pos_of s) chunk v = Some (Inr (), staged) \<and>
     submitted (vk_of t) = submitted (vk_of s) @ map g_cb gs @ [norm] @ cbs \<and>
     memory (vk_of t) = fold (h_execute (gp_host g)) (map g_cb gs @ [norm] @ cbs) (memory staged) \<and>
     segments_run (vk_of t) (gp_graph g) (next_multiple_64 (length chunk)) (length chunk) LogitsNone gs \<and>
     runs_ops (vk_of t) (gp_graph g) norm [norm_all_op (next_multiple_64 (length chunk))] \<and>
     batches_run g t ks cbs \<and> concat (map (\<lambda>(r, l). [r..<r + l]) ks) = [0..<length chunk] \<and>
     logits_all t = Some b \<and> view_bytes pod_u32 b (vk_of t) = Some bs \<and>
     length chunk * x_vocab \<le> length (decode_all pod_u32 bs) \<and> out = take (length chunk * x_vocab) (decode_all pod_u32 bs) \<and>
     pos_of t = pos_of s + of_nat (length chunk))"

lemma all_chunk_ran:
  assumes "all_inv g s" "logits_all s \<noteq> None" "gm_desc (gp_graph g) = the_model" "all_chunk g chunk s = Some (Inr out, t)"
  shows "al_step g s t \<and> chunk_ran g s chunk out t"
proof -
  let ?n = "length chunk"
  have d: "n_layers (gm_desc (gp_graph g)) = 60" "vocab_size (gm_desc (gp_graph g)) = x_vocab"
    using the_model_sizes by (simp_all add: assms(3) x_vocab_def)
  from assms(4) obtain u1 a x b u2 c u3 e where
    a: "on_run (prefill_chunk g LogitsNone chunk) s = Some (Inr u1, a)"
    and b: "norm_graph g (next_multiple_64 ?n) a = Some (Inr x, b)"
    and c: "on_run (on_vk (submit g x)) b = Some (Inr u2, c)"
    and e: "run_batches g (row_batches 0 ?n) c = Some (Inr u3, e)"
    and t: "read_rows (?n * x_vocab) e = Some (Inr out, t)"
    unfolding all_chunk_def Let_def d by (elim al_bind_Some) blast
  from prefill_chunk_ran [OF assms(1) a] d obtain gs v staged where
    p: "al_step g s a" "segments_run (vk_of a) (gp_graph g) (next_multiple_64 ?n) ?n LogitsNone gs" "vk_frame (vk_of s) v"
    "stage_prefill_chunk (gp_host g) (gp_graph g) (pos_of s) chunk v = Some (Inr (), staged)"
    "submitted staged = submitted (vk_of s)" "ran_cbs g (map g_cb gs) staged (vk_of a)" "pos_of a = pos_of s + of_nat ?n" by auto
  have ia: "all_inv g a" using p(1) by (simp add: al_step_def)
  note nb = norm_graph_runs [OF ia b]
  have ib: "all_inv g b" using nb(1) by (simp add: al_step_def)
  note sc = submit_step [OF ib c]
  have ic: "all_inv g c" "logits_all c \<noteq> None" using sc(1) nb(1) p(1) assms(2) by (auto simp: al_step_def)
  have "\<forall>(r, l) \<in> set (row_batches 0 ?n). 0 < l \<and> l \<le> 32" using row_batches_bound by fastforce
  from run_batches_ran [OF ic this e] obtain cbs where
    r: "al_step g c e" "ran_cbs g cbs (vk_of c) (vk_of e)" "batches_run g e (row_batches 0 ?n) cbs" by blast
  obtain lb where lb: "logits_all e = Some lb" using r(1) ic(2) by (auto simp: al_step_def)
  obtain xs w where w: "read_all pod_u32 lb (vk_of e) = Some (Inr xs, w)" "t = e\<lparr>al_run := (al_run e)\<lparr>rs_vk := w\<rparr>\<rparr>"
    "?n * x_vocab \<le> length xs" "out = take (?n * x_vocab) xs"
    using t lb by (auto simp: read_rows_def on_vk_all split: if_splits elim!: al_bind_Some)
  note ra = read_all_Inr [OF w(1)]
  have ie: "all_inv g e" using r(1) by (simp add: al_step_def)
  have et: "al_step g e t" using all_inv_grows(2) [OF ie ra(1)] ra(1) by (simp add: al_step_def w(2))
  obtain bs where bs: "view_bytes pod_u32 lb (vk_of t) = Some bs" "xs = decode_all pod_u32 bs" using ra(5) by (auto simp: w(2))
  have st: "al_step g b t" "al_step g a t" "al_step g c t"
    using al_step_trans [OF sc(1) al_step_trans [OF r(1) et]] al_step_trans [OF nb(1) al_step_trans [OF sc(1) al_step_trans [OF r(1) et]]]
      al_step_trans [OF r(1) et] by blast+
  have runs: "segments_run (vk_of t) (gp_graph g) (next_multiple_64 ?n) ?n LogitsNone gs"
    "runs_ops (vk_of t) (gp_graph g) (g_cb x) [norm_all_op (next_multiple_64 ?n)]" "batches_run g t (row_batches 0 ?n) cbs"
    using segments_run_grows [OF p(2)] runs_ops_grows [OF nb(3)] st batches_run_step [OF r(3) et] by (auto simp: al_step_def)
  have "ran_cbs g (map g_cb gs @ [g_cb x] @ cbs) staged (vk_of e)"
    using ran_cbs_trans [OF p(6) ran_cbs_trans [OF ran_cbs_frame [OF nb(2)] ran_cbs_trans [OF sc(2) r(2)]]] by simp
  then have sub: "submitted (vk_of t) = submitted (vk_of s) @ map g_cb gs @ [g_cb x] @ cbs"
    "memory (vk_of t) = fold (h_execute (gp_host g)) (map g_cb gs @ [g_cb x] @ cbs) (memory staged)"
    using ra(2,3) p(5) by (simp_all add: ran_cbs_def w(2))
  have pos: "pos_of t = pos_of s + of_nat ?n"
    using on_run_pos [OF c] nb(4) run_batches_pos [of g _ c e] e p(7) by (simp add: w(2) pos_of_def)
  have "logits_all t = Some lb" using lb by (simp add: w(2))
  then have "chunk_ran g s chunk out t"
    unfolding chunk_ran_def using p(3,4) sub runs bs w(3,4) pos row_batches_rows [of 0 ?n] by blast
  then show ?thesis using al_step_trans [OF p(1) st(2)] by blast
qed

fun chunks_ran :: "'f gpu_model \<Rightarrow> all_state \<Rightarrow> u32 list list \<Rightarrow> f32 list \<Rightarrow> all_state \<Rightarrow> bool" where
  "chunks_ran g s [] out t \<longleftrightarrow> out = [] \<and> t = s"
| "chunks_ran g s (c # cs) out t \<longleftrightarrow> (\<exists>xs ys u. out = xs @ ys \<and> chunk_ran g s c xs u \<and> chunks_ran g u cs ys t)"

lemma all_chunks_ran:
  assumes "all_inv g s" "logits_all s \<noteq> None" "gm_desc (gp_graph g) = the_model" "all_chunks g cs out s = Some (Inr xs, t)"
  shows "\<exists>ys. xs = out @ ys \<and> chunks_ran g s cs ys t \<and> al_step g s t"
  using assms
proof (induction cs arbitrary: out s)
  case Nil
  then show ?case by (simp add: al_return_def al_step_def)
next
  case (Cons c cs)
  from Cons.prems(4) obtain rws u where c: "all_chunk g c s = Some (Inr rws, u)" "all_chunks g cs (out @ rws) u = Some (Inr xs, t)"
    by (auto elim: al_bind_Some)
  note a = all_chunk_ran [OF Cons.prems(1-3) c(1)]
  have "all_inv g u" "logits_all u \<noteq> None" using a Cons.prems(2) by (auto simp: al_step_def)
  from Cons.IH [OF this Cons.prems(3) c(2)] obtain ys where "xs = out @ rws @ ys" "chunks_ran g u cs ys t" "al_step g u t" by auto
  then show ?case using a al_step_trans by (intro exI [of _ "rws @ ys"]) auto
qed

subsection \<open>Without a failing call the loop returns\<close>

lemma next_multiple: "\<exists>j. next_multiple_64 n = 64 * j \<and> n \<le> 64 * j \<and> (n \<le> 64 * c \<longrightarrow> j \<le> c)"
proof -
  obtain q r where n: "n = 64 * q + r" "r < 64"
    by (metis mult_div_mod_eq mod_less_divisor zero_less_numeral)
  then have m: "n mod 64 = r" by simp
  show ?thesis
  proof (cases "r = 0")
    case True
    then show ?thesis using n m by (intro exI [of _ q]) (simp add: next_multiple_64_def)
  next
    case False
    then show ?thesis using n m by (intro exI [of _ "Suc q"]) (auto simp: next_multiple_64_def)
  qed
qed

definition keeps_sizes :: "'f host \<Rightarrow> bool" where
  "keeps_sizes h \<longleftrightarrow> (\<forall>cb mem k. length (h_execute h cb mem k) = length (mem k))"

lemma fold_sizes: "keeps_sizes h \<Longrightarrow> length (fold (h_execute h) cbs mem k) = length (mem k)"
  by (induction cbs arbitrary: mem) (simp_all add: keeps_sizes_def)

definition same_sizes :: "vk \<Rightarrow> vk \<Rightarrow> bool" where
  "same_sizes s t \<longleftrightarrow> (\<forall>k. length (memory t k) = length (memory s k))"

lemma same_sizes_trans: "same_sizes s t \<Longrightarrow> same_sizes t u \<Longrightarrow> same_sizes s u"
  by (simp add: same_sizes_def)

lemma ran_cbs_sizes: "keeps_sizes (gp_host g) \<Longrightarrow> ran_cbs g cbs s t \<Longrightarrow> same_sizes s t"
  by (simp add: same_sizes_def ran_cbs_def fold_sizes)

lemma vk_frame_sizes: "vk_frame s t \<Longrightarrow> same_sizes s t"
  by (simp add: same_sizes_def vk_frame_def)

text \<open>What staging needs of the host, and the loop of the buffers.\<close>

definition host_ready :: "'f host \<Rightarrow> u8 list \<Rightarrow> bool" where
  "host_ready h file \<longleftrightarrow> keeps_sizes h \<and> parse file = Inr (h_gguf h) \<and> from_gguf (h_gguf h) = Inr the_model \<and>
     even (h_address h ''token_embd.weight'') \<and> length (h_factors h) = 256"

definition loop_ready :: "'f gpu_model \<Rightarrow> all_state \<Rightarrow> bool" where
  "loop_ready g s \<longleftrightarrow> all_inv g s \<and> calm (vk_of s) \<and> staging_ready (gp_graph g) (vk_of s) \<and>
     (\<exists>b xs. logits_all s = Some b \<and> holds pod_u32 b (vk_of s) xs)"

lemma loop_ready_step:
  assumes "loop_ready g s" "al_step g s t" "same_sizes (vk_of s) (vk_of t)"
  shows "loop_ready g t"
proof -
  have l: "length (memory (vk_of t) k) = length (memory (vk_of s) k)" for k using assms(3) by (simp add: same_sizes_def)
  obtain b xs where b: "logits_all s = Some b" "holds pod_u32 b (vk_of s) xs" using assms(1) by (auto simp: loop_ready_def)
  have "\<exists>ys. holds pod_u32 b (vk_of t) ys" by (rule u32x.holds_resized [OF b(2) l])
  then show ?thesis
    using assms(1,2) b(1) staging_ready_resized [OF _ l, of "gp_graph g"] calm_grows [of "vk_of s" "vk_of t"]
    by (auto simp: loop_ready_def al_step_def)
qed

lemma record_prefill_total:
  assumes "built m cap (64 * c)" "c \<le> 1024" "0 < n" "n \<le> 64 * c" "recordable s" "calm s"
  shows "\<exists>gs t. record_prefill m (next_multiple_64 n) n mode s = Some (Inr gs, t)"
proof -
  obtain j where j: "next_multiple_64 n = 64 * j" "n \<le> 64 * j" "j \<le> c" using next_multiple [of n c] assms(4) by blast
  show ?thesis
    unfolding record_prefill_def j(1) using record_segments_calm [OF assms(1-3) j(2,3) assms(5,6)] .
qed

lemma prefill_chunk_total:
  assumes "built (gp_graph g) cap (64 * c)" "c \<le> 1024" "host_ready (gp_host g) file" "loop_ready g s"
    and "chunk \<noteq> []" "length chunk \<le> 64 * c" "\<forall>tok \<in> set chunk. unat tok < x_vocab"
  shows "\<exists>t. on_run (prefill_chunk g LogitsNone chunk) s = Some (Inr (), t) \<and> al_step g s t \<and> same_sizes (vk_of s) (vk_of t)"
proof -
  let ?m = "gp_graph g" and ?n = "length chunk" and ?h = "gp_host g"
  have N: "0 < n_layers (gm_desc ?m)" by (simp add: built_simps(1) [OF assms(1)] the_model_sizes)
  have s: "all_inv g s" "calm (vk_of s)" "staging_ready ?m (vk_of s)" "recordable (vk_of s)"
    using assms(4) by (auto simp: loop_ready_def all_inv_def)
  have h: "keeps_sizes ?h" "parse file = Inr (h_gguf ?h)" "from_gguf (h_gguf ?h) = Inr the_model"
    "even (h_address ?h ''token_embd.weight'')" "length (h_factors ?h) = 256"
    using assms(3) by (auto simp: host_ready_def)
  obtain gs a where a: "cached_prefill g (next_multiple_64 ?n) ?n LogitsNone (al_run s) = Some (Inr gs, a)"
  proof (cases "prefill_graphs (al_run s) (next_multiple_64 ?n, ?n, LogitsNone)")
    case None
    obtain gs v where "record_prefill ?m (next_multiple_64 ?n) ?n LogitsNone (vk_of s) = Some (Inr gs, v)"
      using record_prefill_total [OF assms(1,2) _ assms(6) s(4,2)] assms(5) by blast
    then show ?thesis using that None by (simp add: cached_prefill_def rn_bind_def on_vk_def)
  qed (simp add: that cached_prefill_def)
  note c = cached_prefill_runs [OF s(1) a N]
  have sa: "staging_ready ?m (rs_vk a)" "calm (rs_vk a)"
    using staging_ready_resized [OF s(3), of "rs_vk a"] c(1,2) calm_grows [OF s(2)] by (auto simp: vk_frame_def al_step_def)
  let ?row = "\<lambda>tok. the (embed_bits ?h tok)"
  have e: "embed_bits ?h tok = Some (?row tok)" "length (?row tok) = HIDDEN" if "tok \<in> set chunk" for tok
    using embed_row_ok [OF h(2-4)] assms(7) that by fastforce+
  have rows: "map (embed_bits ?h) chunk = map Some (map ?row chunk)" "\<forall>r \<in> set (map ?row chunk). length r = HIDDEN"
    using e by auto
  obtain w where w: "stage_prefill_chunk ?h ?m (rs_pos a) chunk (rs_vk a) = Some (Inr (), w)"
    using chunk_staged [OF assms(1) sa(1) h(5) assms(6) rows, of "rs_pos a"] by blast
  have gw: "grows (rs_vk a) w" "same_sizes (rs_vk a) w"
    using touches_stage [of ?h ?m "rs_pos a" chunk] w by (auto simp: touches_memory_def same_sizes_def)
  obtain v where v: "submit_all g gs w = Some (Inr (), v)" using submit_all_calm [OF calm_grows [OF sa(2) gw(1)]] by blast
  let ?t = "s\<lparr>al_run := a\<lparr>rs_vk := v, rs_pos := rs_pos a + of_nat ?n\<rparr>\<rparr>"
  have t: "on_run (prefill_chunk g LogitsNone chunk) s = Some (Inr (), ?t)"
    using a w v by (simp add: on_run_def prefill_chunk_def Let_def rn_bind_def on_vk_def advance_by_def)
  have "same_sizes w v" using submit_all_Inr [OF v] h(1) by (simp add: same_sizes_def fold_sizes)
  then have "same_sizes (vk_of s) (vk_of ?t)"
    using same_sizes_trans [OF vk_frame_sizes [OF c(2)] same_sizes_trans [OF gw(2)]] by simp
  moreover have "al_step g s ?t" using prefill_chunk_ran [OF s(1) t N] by blast
  ultimately show ?thesis using t by blast
qed

lemma norm_graph_total:
  assumes "built (gp_graph g) cap (64 * c)" "c \<le> 1024" "n \<le> 64 * c" "all_inv g s" "calm (vk_of s)"
  shows "\<exists>x t. norm_graph g (next_multiple_64 n) s = Some (Inr x, t)"
proof (cases "norm_all_graphs s (next_multiple_64 n)")
  case None
  obtain j where j: "next_multiple_64 n = 64 * j" "j \<le> c" using next_multiple [of n c] assms(3) by blast
  have "realize (gp_graph g) (norm_all_op (next_multiple_64 n)) \<noteq> None"
    unfolding j(1) by (rule conforms_realize [OF norm_all_fits [OF assms(1) j(2) assms(2)]])
  then obtain rs where "those (map (realize (gp_graph g)) [norm_all_op (next_multiple_64 n)]) = Some rs" by auto
  from record_ops_calm [OF _ assms(5) this] assms(4) show ?thesis
    using None by (fastforce simp: all_inv_def norm_graph_def al_bind_def on_run_def on_vk_def)
qed (simp add: norm_graph_def)

lemma batch_graph_total:
  assumes "built (gp_graph g) cap (64 * c)" "max_chunk g = 64 * c" "r + l \<le> 64 * c" "loop_ready g s"
  shows "\<exists>x t. batch_graph g (r, l) s = Some (Inr x, t)"
proof (cases "logits_batch_graphs s (r, l)")
  case None
  obtain b where b: "logits_all s = Some b" "unat (b_len b) = 64 * c * vocab_size (gm_desc (gp_graph g))"
    using assms(2,4) by (auto simp: loop_ready_def all_inv_def)
  have "list_all (conforms (with_all (gp_graph g) (Some b)) decode_extent) (map (logits_row (gp_graph g)) [r..<r + l])"
    using logits_row_fits [OF assms(1) _ b(2)] assms(3) by (auto simp: list_all_iff)
  from conforms_realize_all [OF this] obtain rs where
    "those (map (realize (with_all (gp_graph g) (logits_all s))) (map (logits_row (gp_graph g)) [r..<r + l])) = Some rs"
    unfolding b(1) by blast
  from record_ops_calm [OF _ _ this] assms(4) show ?thesis
    using None by (fastforce simp: loop_ready_def all_inv_def batch_graph_def al_bind_def on_run_def on_vk_def simp del: map_map)
qed (simp add: batch_graph_def)

lemma run_batches_total:
  assumes "built (gp_graph g) cap (64 * c)" "max_chunk g = 64 * c" "keeps_sizes (gp_host g)" "loop_ready g s"
    and "\<forall>(r, l) \<in> set ks. r + l \<le> 64 * c"
  shows "\<exists>t. run_batches g ks s = Some (Inr (), t) \<and> loop_ready g t"
  using assms(4,5)
proof (induction ks arbitrary: s)
  case (Cons k ks)
  obtain r l where k: "k = (r, l)" by (cases k)
  obtain x a where a: "batch_graph g (r, l) s = Some (Inr x, a)"
    using batch_graph_total [OF assms(1,2) _ Cons.prems(1), of r l] Cons.prems(2) k by auto
  have i: "all_inv g s" "logits_all s \<noteq> None" using Cons.prems(1) by (auto simp: loop_ready_def)
  note ga = batch_graph_runs [OF i a]
  have ra: "loop_ready g a" by (rule loop_ready_step [OF Cons.prems(1) ga(1) vk_frame_sizes [OF ga(2)]])
  then obtain v where v: "submit g x (vk_of a) = Some (Inr (), v)" using submit_calm [of "vk_of a" g x] by (auto simp: loop_ready_def)
  let ?b = "a\<lparr>al_run := (al_run a)\<lparr>rs_vk := v\<rparr>\<rparr>"
  have b: "on_run (on_vk (submit g x)) a = Some (Inr (), ?b)" using v by (simp add: on_vk_all)
  have "all_inv g a" using ra by (simp add: loop_ready_def)
  note sb = submit_step [OF this b]
  have "loop_ready g ?b" by (rule loop_ready_step [OF ra sb(1) ran_cbs_sizes [OF assms(3) sb(2)]])
  from Cons.IH [OF this] Cons.prems(2) show ?case
    using a b k by (auto simp: al_bind_def)
qed (simp add: al_return_def)

lemma all_chunk_total:
  assumes "built (gp_graph g) cap (64 * c)" "c \<le> 1024" "max_chunk g = 64 * c" "host_ready (gp_host g) file" "loop_ready g s"
    and "chunk \<noteq> []" "length chunk \<le> 64 * c" "\<forall>tok \<in> set chunk. unat tok < x_vocab"
  shows "\<exists>out t. all_chunk g chunk s = Some (Inr out, t) \<and> loop_ready g t"
proof -
  let ?n = "length chunk"
  have ks: "keeps_sizes (gp_host g)" using assms(4) by (simp add: host_ready_def)
  have d: "vocab_size (gm_desc (gp_graph g)) = x_vocab"
    by (simp add: built_simps(1) [OF assms(1)] the_model_def)
  obtain a where a: "on_run (prefill_chunk g LogitsNone chunk) s = Some (Inr (), a)" "al_step g s a" "same_sizes (vk_of s) (vk_of a)"
    using prefill_chunk_total [OF assms(1,2,4-8)] by blast
  have ra: "loop_ready g a" by (rule loop_ready_step [OF assms(5) a(2,3)])
  then have ia: "all_inv g a" "calm (vk_of a)" by (auto simp: loop_ready_def)
  obtain x b where b: "norm_graph g (next_multiple_64 ?n) a = Some (Inr x, b)"
    using norm_graph_total [OF assms(1,2,7) ia] by blast
  note nb = norm_graph_runs [OF ia(1) b]
  have rb: "loop_ready g b" by (rule loop_ready_step [OF ra nb(1) vk_frame_sizes [OF nb(2)]])
  then obtain v where v: "submit g x (vk_of b) = Some (Inr (), v)" using submit_calm [of "vk_of b" g x] by (auto simp: loop_ready_def)
  let ?c = "b\<lparr>al_run := (al_run b)\<lparr>rs_vk := v\<rparr>\<rparr>"
  have c: "on_run (on_vk (submit g x)) b = Some (Inr (), ?c)" using v by (simp add: on_vk_all)
  have "all_inv g b" using rb by (simp add: loop_ready_def)
  note sc = submit_step [OF this c]
  have rc: "loop_ready g ?c" by (rule loop_ready_step [OF rb sc(1) ran_cbs_sizes [OF ks sc(2)]])
  have "\<forall>(r, l) \<in> set (row_batches 0 ?n). r + l \<le> 64 * c" using row_batches_bound assms(7) by fastforce
  from run_batches_total [OF assms(1,3) ks rc this] obtain e where
    e: "run_batches g (row_batches 0 ?n) ?c = Some (Inr (), e)" "loop_ready g e" by blast
  obtain lb xs where lb: "logits_all e = Some lb" "holds pod_u32 lb (vk_of e) xs" "unat (b_len lb) = 64 * c * x_vocab"
    using e(2) assms(3) d by (auto simp: loop_ready_def all_inv_def)
  have "calm (vk_of e)" using e(2) by (simp add: loop_ready_def)
  from read_all_calm [OF this u32s.holds_view [OF lb(2)]] obtain w where
    w: "read_all pod_u32 lb (vk_of e) = Some (Inr xs, w)" by (auto simp: u32s.decode_encode_all)
  have "?n * x_vocab \<le> 64 * c * x_vocab" using assms(7) by (rule mult_le_mono1)
  then have l: "\<not> length xs < ?n * x_vocab" using lb(2,3) unfolding holds_def by linarith
  let ?t = "e\<lparr>al_run := (al_run e)\<lparr>rs_vk := w\<rparr>\<rparr>"
  have "read_rows (?n * x_vocab) e = Some (Inr (take (?n * x_vocab) xs), ?t)"
    using w l by (simp add: read_rows_def lb(1) al_bind_def on_run_def on_vk_def)
  then have run: "all_chunk g chunk s = Some (Inr (take (?n * x_vocab) xs), ?t)"
    unfolding all_chunk_def Let_def d by (simp add: al_bind_def a(1) b c e(1))
  note ra' = read_all_Inr [OF w]
  have "all_inv g e" using e(2) by (simp add: loop_ready_def)
  then have "al_step g e ?t" using all_inv_grows(2) [OF _ ra'(1)] ra'(1) by (simp add: al_step_def)
  moreover have "same_sizes (vk_of e) (vk_of ?t)" using ra'(3) by (simp add: same_sizes_def)
  ultimately have "loop_ready g ?t" by (rule loop_ready_step [OF e(2)])
  then show ?thesis using run by blast
qed

subsection \<open>The whole text\<close>

lemma ensure_ran:
  assumes "all_inv g s" "ensure_logits g env s = Some (Inr u, t)" "max_chunk g * vocab_size (gm_desc (gp_graph g)) < 2 ^ 64"
  shows "all_inv g t" "logits_all t \<noteq> None" "submitted (vk_of t) = submitted (vk_of s)" "grows (vk_of s) (vk_of t)" "pos_of t = pos_of s"
proof -
  have "all_inv g t \<and> logits_all t \<noteq> None \<and> submitted (vk_of t) = submitted (vk_of s) \<and> grows (vk_of s) (vk_of t)"
  proof (cases "logits_all s")
    case (Some b)
    then show ?thesis using assms(1,2) by (auto simp: ensure_logits_def)
  next
    case None
    then obtain b v where v: "new_buffer (gm_ctx (gp_graph g)) env pod_u32 (of_nat (max_chunk g * vocab_size (gm_desc (gp_graph g)))) STORAGE_BUFFER
        (vk_of s) = (Inr b, v)" "t = s\<lparr>al_run := (al_run s)\<lparr>rs_vk := v\<rparr>, logits_all := Some b\<rparr>"
      using assms(2) by (auto simp: ensure_logits_def split: prod.splits sum.splits)
    have len: "unat (b_len b) = max_chunk g * vocab_size (gm_desc (gp_graph g))"
      using ensure_logits_len [OF assms(2) None assms(3)] by (simp add: v(2))
    note gr = new_buffer_grows [OF v(1)]
    have "all_inv g (s\<lparr>al_run := (al_run s)\<lparr>rs_vk := v\<rparr>\<rparr>)" using all_inv_grows(2) [OF assms(1)] gr by blast
    moreover have "logits_batch_graphs s k = None" for k
      using assms(1) None by (cases k; cases "logits_batch_graphs s k") (auto simp: all_inv_def)
    ultimately show ?thesis using gr len by (simp add: v(2) all_inv_def)
  qed
  then show "all_inv g t" "logits_all t \<noteq> None" "submitted (vk_of t) = submitted (vk_of s)" "grows (vk_of s) (vk_of t)" by blast+
  show "pos_of t = pos_of s" by (rule ensure_logits_result [OF assms(2)])
qed

text \<open>The buffer of the logits is there, or can be allocated beside the buffers the model has.\<close>

definition logits_ready :: "'f gpu_model \<Rightarrow> mem_env \<Rightarrow> all_state \<Rightarrow> bool" where
  "logits_ready g env s \<longleftrightarrow> (case logits_all s of
       Some b \<Rightarrow> \<exists>xs. holds pod_u32 b (vk_of s) xs
     | None \<Rightarrow> reqs_cover env \<and> (\<forall>b \<in> set staging_bufs. mem_of (gp_graph g) b < fresh (vk_of s)) \<and>
         choose_memory (gm_ctx (gp_graph g)) (snd (mem_reqs env (alloc_size (of_nat (max_chunk g * x_vocab)) 4) STORAGE_BUFFER)) \<noteq> None)"

lemma alloc_calm:
  assumes "calm s" "choose_memory d (snd (mem_reqs env (alloc_size len es) us)) \<noteq> None"
  shows "\<exists>b t. alloc_filled d env len es us bytes s = (Inr b, t)"
  using assms
  by (auto simp: calm_def alloc_filled_def alloc_buffer_def flush_new_def flush_def Let_def g_bind_def vk_create_eq vk_call_eq g_cleanup_eq
      set_memory_def overwrite_def split: prod.splits sum.splits option.splits if_splits)

lemma ensure_total:
  assumes "all_inv g s" "calm (vk_of s)" "staging_ready (gp_graph g) (vk_of s)" "logits_ready g env s"
    and "vocab_size (gm_desc (gp_graph g)) = x_vocab" "max_chunk g * x_vocab * 4 < 2 ^ 64"
  shows "\<exists>t. ensure_logits g env s = Some (Inr (), t) \<and> loop_ready g t"
proof (cases "logits_all s")
  case (Some b)
  then show ?thesis using assms(1-4) by (simp add: ensure_logits_def loop_ready_def logits_ready_def)
next
  case None
  let ?n = "max_chunk g * x_vocab" and ?m = "gp_graph g"
  have lr: "reqs_cover env" "\<forall>b \<in> set staging_bufs. mem_of ?m b < fresh (vk_of s)"
    "choose_memory (gm_ctx ?m) (snd (mem_reqs env (alloc_size (of_nat ?n) 4) STORAGE_BUFFER)) \<noteq> None"
    using assms(4) None by (auto simp: logits_ready_def)
  let ?bytes = "\<lambda>b. replicate (unat (b_size b)) (0 :: u8)" and ?xs = "replicate ?n (0 :: u32)"
  have sz: "size_of pod_u32 = 4" by (simp add: pod_u32_def)
  obtain b v where a: "alloc_filled (gm_ctx ?m) env (of_nat ?n) 4 STORAGE_BUFFER ?bytes (vk_of s) = (Inr b, v)"
    using alloc_calm [OF assms(2) lr(3)] by blast
  have nb: "new_buffer (gm_ctx ?m) env pod_u32 (of_nat ?n) STORAGE_BUFFER (vk_of s) = (Inr b, v)"
    using a unfolding new_buffer_filled sz by simp
  let ?t = "s\<lparr>al_run := (al_run s)\<lparr>rs_vk := v\<rparr>, logits_all := Some b\<rparr>"
  have e: "ensure_logits g env s = Some (Inr (), ?t)" using nb None by (simp add: ensure_logits_def assms(5) del: of_nat_mult)
  have n: "?n < 2 ^ 64" using assms(6) by linarith
  note en = ensure_ran [OF assms(1) e, unfolded assms(5), OF n]
  have un: "unat (of_nat ?n :: u64) = ?n" by (rule unat_of_nat_u64 [OF n])
  have "\<exists>xs. holds pod_u32 b v xs"
  proof (rule alloc_filled_Inr [OF a])
    fix i assume i: "b = whole i (of_nat ?n)" "b_size i = alloc_size (of_nat ?n) 4" "b_memory i = Suc (fresh (vk_of s))"
      "length (memory v (Suc (fresh (vk_of s)))) = unat (fst (mem_reqs env (alloc_size (of_nat ?n) 4) STORAGE_BUFFER))"
    have "?n * 4 \<le> unat (alloc_size (of_nat ?n) 4)" using unat_alloc_size [of "of_nat ?n" 4] assms(6) unfolding un by simp
    moreover have "unat (alloc_size (of_nat ?n) 4) \<le> length (memory v (Suc (fresh (vk_of s))))"
      unfolding i(4) using lr(1) by (simp add: reqs_cover_def word_le_nat_alt)
    ultimately show ?thesis
      using i(1-3) assms(6) un by (intro u32x.fits_holds) (simp_all add: whole_def sz del: of_nat_mult)
  qed
  moreover have "staging_ready ?m v"
  proof (rule staging_ready_memory [OF assms(3)], rule ballI)
    fix b assume "b \<in> set staging_bufs"
    then have "mem_of ?m b < fresh (vk_of s)" using lr(2) by blast
    then show "memory v (mem_of ?m b) = memory (vk_of s) (mem_of ?m b)"
      using alloc_filled_Inr [OF a] by (metis Suc_n_not_le_n less_imp_le)
  qed
  ultimately show ?thesis using e en assms(2) calm_grows by (intro exI [of _ ?t]) (auto simp: loop_ready_def)
qed

lemma all_chunks_total:
  assumes "built (gp_graph g) cap (64 * c)" "c \<le> 1024" "max_chunk g = 64 * c" "host_ready (gp_host g) file" "loop_ready g s"
    and "\<forall>chunk \<in> set cs. chunk \<noteq> [] \<and> length chunk \<le> 64 * c \<and> (\<forall>tok \<in> set chunk. unat tok < x_vocab)"
  shows "\<exists>xs t. all_chunks g cs out s = Some (Inr xs, t)"
  using assms(5,6)
proof (induction cs arbitrary: out s)
  case (Cons chunk cs)
  obtain ys u where u: "all_chunk g chunk s = Some (Inr ys, u)" "loop_ready g u"
    using all_chunk_total [OF assms(1-4) Cons.prems(1), of chunk] Cons.prems(2) by auto
  from Cons.IH [OF u(2)] Cons.prems(2) show ?case using u(1) by (simp add: al_bind_def)
qed (simp add: al_return_def)

lemma chunks_of_parts: "0 < n \<Longrightarrow> chunk \<in> set (chunks_of n xs) \<Longrightarrow> chunk \<noteq> [] \<and> length chunk \<le> n \<and> set chunk \<subseteq> set xs"
proof (induction n xs rule: chunks_of.induct)
  case (2 n x xs)
  then have "chunk = take n (x # xs) \<or> chunk \<in> set (chunks_of n (drop n (x # xs)))" by auto
  then show ?case
  proof
    assume "chunk = take n (x # xs)"
    then show ?thesis using 2(2) set_take_subset [of n "x # xs"] by (cases n) auto
  next
    assume "chunk \<in> set (chunks_of n (drop n (x # xs)))"
    from 2(1) [OF _ _ this] 2(2) show ?thesis using set_drop_subset [of n "x # xs"] by auto
  qed
qed simp

text \<open>
  C10: The logits of a whole text. On a built model, with caches that hold what earlier calls
  recorded, a run that returns has worked off the chunks of the text in order: for each it submitted,
  after staging it, the segments of the 60 layers, the norm over the padded rows and the batches of
  the LM head, at most 32 rows a submission; their command buffers hold exactly the dispatches of
  those graphs, every row of the chunk once and in order, row \<open>r\<close> read from row \<open>r\<close> of the normalized
  states and written to row \<open>r\<close> of the logits buffer; and the rows returned are what the device
  left in the logits buffer, a row of the vocabulary's size for each token. Each of these dispatches
  fits its kernel. If no driver call fails, the buffers are in place, executing does not resize
  memory and the tokens are in the vocabulary, the run returns.
\<close>

theorem all_logits_rows:
  assumes "built (gp_graph g) cap (64 * c)" and "0 < c" "c \<le> 1024" and "max_chunk g = 64 * c" and "all_inv g s"
  shows "(\<forall>out t. prefill_all_logits g env tokens s = Some (Inr out, t) \<longrightarrow>
       (\<exists>u. submitted (vk_of u) = submitted (vk_of s) \<and> pos_of u = pos_of s \<and> chunks_ran g u (chunks_of (64 * c) tokens) out t) \<and>
       all_inv g t \<and> length out = length tokens * x_vocab \<and> pos_of t = pos_of s + of_nat (length tokens) \<and>
       (\<forall>j n. j \<le> c \<longrightarrow> conforms (gp_graph g) \<lparr>x_rows = 64 * j, x_real = n, x_cap = 64 * c\<rparr> (norm_all_op (64 * j))) \<and>
       (\<forall>r < 64 * c. conforms (with_all (gp_graph g) (logits_all t)) decode_extent (logits_row (gp_graph g) r) \<and>
          op_binds (logits_row (gp_graph g) r) = [(0, TokenEmbd, None), (1, Pre A_xn, Some (r * HIDDEN, (r + 1) * HIDDEN)),
            (2, LogitsAll, Some (r * x_vocab, (r + 1) * x_vocab))])) \<and>
    (calm (vk_of s) \<and> staging_ready (gp_graph g) (vk_of s) \<and> logits_ready g env s \<and> host_ready (gp_host g) file \<and>
       (\<forall>tok \<in> set tokens. unat tok < x_vocab) \<longrightarrow>
     (\<exists>out t. prefill_all_logits g env tokens s = Some (Inr out, t)))"
proof (intro conjI allI impI)
  have desc: "gm_desc (gp_graph g) = the_model" by (rule built_simps(1) [OF assms(1)])
  have d: "vocab_size (gm_desc (gp_graph g)) = x_vocab" by (simp add: desc the_model_def)
  have big: "max_chunk g * x_vocab * 4 < 2 ^ 64" "max_chunk g * vocab_size (gm_desc (gp_graph g)) < 2 ^ 64"
    using assms(3,4) by (simp_all add: d x_vocab_def)
  show "conforms (gp_graph g) \<lparr>x_rows = 64 * j, x_real = n, x_cap = 64 * c\<rparr> (norm_all_op (64 * j))" if "j \<le> c" for j n
    by (rule norm_all_fits [OF assms(1) that assms(3)])
  fix out t assume "prefill_all_logits g env tokens s = Some (Inr out, t)"
  then obtain x u where e: "ensure_logits g env s = Some (Inr x, u)"
    and a: "all_chunks g (chunks_of (64 * c) tokens) [] u = Some (Inr out, t)"
    using assms(2,4) unfolding prefill_all_logits_def by (auto elim!: al_bind_Some split: if_splits)
  note en = ensure_ran [OF assms(5) e big(2)]
  from all_chunks_ran [OF en(1,2) desc a] have ran: "chunks_ran g u (chunks_of (64 * c) tokens) out t" "al_step g u t" by auto
  then show "\<exists>u. submitted (vk_of u) = submitted (vk_of s) \<and> pos_of u = pos_of s \<and> chunks_ran g u (chunks_of (64 * c) tokens) out t"
    using en(3,5) by blast
  show inv: "all_inv g t" using ran(2) by (simp add: al_step_def)
  have "0 < 64 * c" using assms(2) by simp
  from all_chunks_result [OF a] chunks_of_concat [OF this, of tokens] en(5)
  show "length out = length tokens * x_vocab" "pos_of t = pos_of s + of_nat (length tokens)" by (simp_all add: d)
  obtain b where b: "logits_all t = Some b" using ran(2) en(2) by (auto simp: al_step_def)
  then have "unat (b_len b) = 64 * c * vocab_size (gm_desc (gp_graph g))" using inv assms(4) by (simp add: all_inv_def)
  then show "conforms (with_all (gp_graph g) (logits_all t)) decode_extent (logits_row (gp_graph g) r)" if "r < 64 * c" for r
    unfolding b by (rule logits_row_fits [OF assms(1) that])
  show "op_binds (logits_row (gp_graph g) r) = [(0, TokenEmbd, None), (1, Pre A_xn, Some (r * HIDDEN, (r + 1) * HIDDEN)),
      (2, LogitsAll, Some (r * x_vocab, (r + 1) * x_vocab))]" for r
    by (simp add: logits_row_def mk_op_def d Let_def)
next
  assume r: "calm (vk_of s) \<and> staging_ready (gp_graph g) (vk_of s) \<and> logits_ready g env s \<and> host_ready (gp_host g) file \<and>
    (\<forall>tok \<in> set tokens. unat tok < x_vocab)"
  have d: "vocab_size (gm_desc (gp_graph g)) = x_vocab" by (simp add: built_simps(1) [OF assms(1)] the_model_def)
  have big: "max_chunk g * x_vocab * 4 < 2 ^ 64" using assms(3,4) by (simp add: x_vocab_def)
  obtain u where u: "ensure_logits g env s = Some (Inr (), u)" "loop_ready g u"
    using ensure_total [OF assms(5) _ _ _ d big] r by blast
  have pos: "0 < 64 * c" using assms(2) by simp
  have "\<forall>chunk \<in> set (chunks_of (64 * c) tokens). chunk \<noteq> [] \<and> length chunk \<le> 64 * c \<and> (\<forall>tok \<in> set chunk. unat tok < x_vocab)"
    using chunks_of_parts [OF pos, of _ tokens] r by blast
  then obtain out t where "all_chunks g (chunks_of (64 * c) tokens) [] u = Some (Inr out, t)"
    using all_chunks_total [OF assms(1,3,4) _ u(2)] r by blast
  then show "\<exists>out t. prefill_all_logits g env tokens s = Some (Inr out, t)"
    using u(1) assms(2,4) by (auto simp: prefill_all_logits_def al_bind_def)
qed

definition sample_all :: all_state where
  "sample_all = \<lparr>al_run = \<lparr>rs_pos = 7, prefill_graphs = (\<lambda>_. None), rs_vk = staging_state\<lparr>fresh := 8\<rparr>\<rparr>,
     logits_all = None, norm_all_graphs = (\<lambda>_. None), logits_batch_graphs = (\<lambda>_. None)\<rparr>"

text \<open>A host whose device adds the command buffer's handle to every byte.\<close>

definition sample_scorer :: "nat host \<Rightarrow> nat gpu_model" where
  "sample_scorer h = \<lparr>gp_host = (staging_host h)\<lparr>h_execute := (\<lambda>cb mem k. map (\<lambda>b. b + of_nat cb) (mem k))\<rparr>,
     gp_graph = staging_model, max_chunk = 64, global_cap = 1024\<rparr>"

lemma sample_all_ready:
  "all_inv (sample_scorer h) sample_all" "calm (vk_of sample_all)" "staging_ready staging_model (vk_of sample_all)"
  "logits_ready (sample_scorer h) sample_env sample_all" "host_ready (gp_host (sample_scorer h)) model_file"
proof -
  show "all_inv (sample_scorer h) sample_all"
    by (simp add: all_inv_def sample_all_def recordable_def staging_state_def vk_init_def vk_ok_def)
  show "calm (vk_of sample_all)" by (simp add: calm_def sample_all_def staging_state_def vk_init_def)
  show "staging_ready staging_model (vk_of sample_all)"
    by (rule staging_ready_memory [OF staging_sample_ready]) (simp add: sample_all_def)
  have "mem_of staging_model b < 8" if "b \<in> set staging_bufs" for b
    using that by (auto simp: staging_bufs_def mem_of_def staging_model_def staging_lens)
  moreover have "choose_memory (gm_ctx staging_model) 3 \<noteq> None"
    using sample_choice by (simp add: staging_model_def sample_model_def)
  ultimately show "logits_ready (sample_scorer h) sample_env sample_all"
    using sample_env_cover by (simp add: logits_ready_def sample_all_def sample_scorer_def) (simp add: sample_env_def)
  show "host_ready (gp_host (sample_scorer h)) model_file"
    using model_parse(1) model_validates
    by (simp add: host_ready_def keeps_sizes_def sample_scorer_def staging_host_def model_factors_def)
qed

theorem all_logits_rows_witness:
  "\<forall>h. \<exists>out t u. prefill_all_logits (sample_scorer h) sample_env [5, 6] sample_all = Some (Inr out, t) \<and>
     submitted (vk_of u) = [] \<and> chunk_ran (sample_scorer h) u [5, 6] out t \<and> length out = 2 * x_vocab \<and> pos_of t = 9"
proof
  fix h
  let ?g = "sample_scorer h"
  have b: "built (gp_graph ?g) 1024 (64 * 1)" "(0 :: nat) < 1" "(1 :: nat) \<le> 1024" "max_chunk ?g = 64 * 1"
    using staging_built by (simp_all add: sample_scorer_def)
  note a = all_logits_rows [OF b sample_all_ready(1), of sample_env "[5, 6]" model_file]
  have "gp_graph ?g = staging_model" by (simp add: sample_scorer_def)
  then obtain out t where r: "prefill_all_logits ?g sample_env [5, 6] sample_all = Some (Inr out, t)"
    using a [THEN conjunct2, rule_format] sample_all_ready(2,3) sample_all_ready(4,5) [of h] by (auto simp: x_vocab_def)
  from a [THEN conjunct1, rule_format, OF r] obtain u where
    u: "submitted (vk_of u) = submitted (vk_of sample_all)" "chunks_ran ?g u (chunks_of (64 * 1) [5, 6]) out t"
    "length out = length [5, 6 :: u32] * x_vocab" "pos_of t = pos_of sample_all + of_nat (length [5, 6 :: u32])" by blast
  have "chunk_ran ?g u [5, 6] out t" using u(2) by auto
  then show "\<exists>out t u. prefill_all_logits ?g sample_env [5, 6] sample_all = Some (Inr out, t) \<and>
     submitted (vk_of u) = [] \<and> chunk_ran ?g u [5, 6] out t \<and> length out = 2 * x_vocab \<and> pos_of t = 9"
    using r u(1,3,4) by (intro exI [of _ out] exI [of _ t] exI [of _ u])
      (simp add: sample_all_def staging_state_def vk_init_def pos_of_def)
qed

end
