(* ===== verification/Sampler.thy ===== *)
theory Sampler
  imports Prelude "HOL-Library.Multiset" "HOL-Library.Product_Lexorder"
begin

text \<open>
  \<open>crates/sg-model/src/sampler.rs\<close>: the seeded generator and the draw of one token. Logits are f32
  bit patterns; their total order is the standard library's, the f64 arithmetic is a parameter, and
  so is the quickselect, of which only the documented partition is used.
\<close>

unbundle bit_operations_syntax

subsection \<open>The generator\<close>

type_synonym rng = "u64 \<times> u64 \<times> u64 \<times> u64"

text \<open>\<open>splitmix64\<close>: the state after a step and the word it gives.\<close>

definition mix64 :: "u64 \<Rightarrow> u64" where
  "mix64 x =
     (let z = (x XOR drop_bit 30 x) * 0xBF58476D1CE4E5B9;
          z = (z XOR drop_bit 27 z) * 0x94D049BB133111EB
      in z XOR drop_bit 31 z)"

definition sampler_new :: "u64 \<Rightarrow> rng" where
  "sampler_new seed =
     (let g = 0x9E3779B97F4A7C15;
          x1 = seed + g; x2 = x1 + g; x3 = x2 + g; x4 = x3 + g
      in (mix64 x1, mix64 x2, mix64 x3, mix64 x4))"

definition rotate_left :: "nat \<Rightarrow> u64 \<Rightarrow> u64" where
  "rotate_left n x = push_bit n x OR drop_bit (64 - n) x"

definition next_u64 :: "rng \<Rightarrow> u64 \<times> rng" where
  "next_u64 = (\<lambda>(s0, s1, s2, s3).
     let result = rotate_left 23 (s0 + s3) + s0;
         t = push_bit 17 s1;
         s2 = s2 XOR s0;
         s3 = s3 XOR s1;
         s1 = s1 XOR s2;
         s0 = s0 XOR s3;
         s2 = s2 XOR t;
         s3 = rotate_left 45 s3
     in (result, (s0, s1, s2, s3)))"

record 'd f64_ops =
  d_of_f32 :: "u32 \<Rightarrow> 'd"
  d_of_u64 :: "u64 \<Rightarrow> 'd"
  d_ulp :: 'd                     \<comment> \<open>\<open>1.0 / (1u64 << 53) as f64\<close>\<close>
  d_zero :: 'd
  d_sum0 :: 'd                    \<comment> \<open>where \<open>sum\<close> starts\<close>
  d_add :: "'d \<Rightarrow> 'd \<Rightarrow> 'd"
  d_sub :: "'d \<Rightarrow> 'd \<Rightarrow> 'd"
  d_mul :: "'d \<Rightarrow> 'd \<Rightarrow> 'd"
  d_div :: "'d \<Rightarrow> 'd \<Rightarrow> 'd"
  d_exp :: "'d \<Rightarrow> 'd"
  d_le :: "'d \<Rightarrow> 'd \<Rightarrow> bool"
  f_gt :: "u32 \<Rightarrow> u32 \<Rightarrow> bool"
  f_max :: "u32 \<Rightarrow> u32 \<Rightarrow> u32"
  f_le_zero :: "u32 \<Rightarrow> bool"       \<comment> \<open>\<open>temperature <= 0.0\<close>\<close>
  f_lt_one :: "u32 \<Rightarrow> bool"        \<comment> \<open>\<open>top_p < 1.0\<close>\<close>

definition next_f64 :: "'d f64_ops \<Rightarrow> rng \<Rightarrow> 'd \<times> rng" where
  "next_f64 fo s = (let (x, s') = next_u64 s in (d_mul fo (d_of_u64 fo (drop_bit 11 x)) (d_ulp fo), s'))"

subsection \<open>Candidates\<close>

record sampler_params =
  temperature :: u32
  top_k :: u32
  top_p :: u32

text \<open>\<open>f32::total_cmp\<close> compares these keys as signed integers.\<close>

definition total_key :: "u32 \<Rightarrow> int" where
  "total_key b = sint (b XOR (if bit b 31 then 0x7FFFFFFF else 0))"

definition argmax_step :: "'d f64_ops \<Rightarrow> u32 list \<Rightarrow> nat \<Rightarrow> nat \<Rightarrow> nat" where
  "argmax_step fo logits i best = (if f_gt fo (logits ! i) (logits ! best) then i else best)"

definition argmax :: "'d f64_ops \<Rightarrow> u32 list \<Rightarrow> u32" where
  "argmax fo logits = of_nat (fold (argmax_step fo logits) [0..<length logits] 0)"

text \<open>\<open>select_nth_unstable_by\<close> is a parameter: the slice it leaves.\<close>

type_synonym quickselect = "u32 list \<Rightarrow> nat \<Rightarrow> nat list \<Rightarrow> nat list"

definition select_top :: "quickselect \<Rightarrow> u32 list \<Rightarrow> nat \<Rightarrow> nat list" where
  "select_top qs logits k =
     (let idx = [0..<length logits] in if k < length idx then take k (qs logits k idx) else idx)"

text \<open>Descending by value, then ascending by id: a strict total order, so the sort is determined.\<close>

definition by_value :: "u32 list \<Rightarrow> nat \<Rightarrow> int \<times> nat" where
  "by_value logits a = (- total_key (logits ! a), a)"

definition weights_of :: "'d f64_ops \<Rightarrow> sampler_params \<Rightarrow> u32 list \<Rightarrow> 'd \<Rightarrow> nat list \<Rightarrow> 'd list" where
  "weights_of fo p logits mx ids =
     map (\<lambda>i. d_exp fo (d_div fo (d_sub fo (d_of_f32 fo (logits ! i)) mx) (d_of_f32 fo (temperature p)))) ids"

definition sum_of :: "'d f64_ops \<Rightarrow> 'd list \<Rightarrow> 'd" where
  "sum_of fo xs = fold (\<lambda>x acc. d_add fo acc x) xs (d_sum0 fo)"

definition full_total :: "'d f64_ops \<Rightarrow> sampler_params \<Rightarrow> u32 list \<Rightarrow> 'd option" where
  "full_total fo p logits =
     (if top_k p = 0 \<and> f_lt_one fo (top_p p)
      then Some (sum_of fo (weights_of fo p logits
        (d_of_f32 fo (fold (\<lambda>v m. f_max fo m v) logits 0xFF800000)) [0..<length logits]))
      else None)"

text \<open>The first prefix whose sum reaches the target.\<close>

fun reach :: "'d f64_ops \<Rightarrow> 'd \<Rightarrow> 'd \<Rightarrow> nat \<Rightarrow> 'd list \<Rightarrow> nat option" where
  "reach fo target acc i [] = None"
| "reach fo target acc i (q # qs) =
     (let acc' = d_add fo acc q in if d_le fo target acc' then Some (i + 1) else reach fo target acc' (i + 1) qs)"

text \<open>The first candidate at which the draw is used up.\<close>

fun pick :: "'d f64_ops \<Rightarrow> 'd \<Rightarrow> nat \<Rightarrow> 'd list \<Rightarrow> nat option" where
  "pick fo r i [] = None"
| "pick fo r i (q # qs) = (let r' = d_sub fo r q in if d_le fo r' (d_zero fo) then Some i else pick fo r' (i + 1) qs)"

definition draw :: "'d f64_ops \<Rightarrow> rng \<Rightarrow> nat list \<Rightarrow> 'd list \<Rightarrow> nat \<Rightarrow> (u32 \<times> rng) option" where
  "draw fo s cand probs keep =
     (let total_kept = sum_of fo (take keep probs);
          (u, s') = next_f64 fo s
      in case pick fo (d_mul fo u total_kept) 0 (take keep probs) of
           Some i \<Rightarrow> Some (of_nat (cand ! i), s')
         | None \<Rightarrow> if keep = 0 \<or> length cand < keep then None else Some (of_nat (cand ! (keep - 1)), s'))"

partial_function (option) sample_loop ::
  "'d f64_ops \<Rightarrow> quickselect \<Rightarrow> u32 list \<Rightarrow> sampler_params \<Rightarrow> rng \<Rightarrow> nat \<Rightarrow> (u32 \<times> rng) option" where
  "sample_loop fo qs logits p s k =
     (let cand = sort_key (by_value logits) (select_top qs logits k) in
      if cand = [] then None else
      let probs = weights_of fo p logits (d_of_f32 fo (logits ! (cand ! 0))) cand;
          total = sum_of fo probs;
          target = d_mul fo (d_of_f32 fo (top_p p)) (case full_total fo p logits of Some t \<Rightarrow> t | None \<Rightarrow> total);
          reached = reach fo target (d_zero fo) 0 probs
      in if f_lt_one fo (top_p p) \<and> reached = None \<and> top_k p = 0 \<and> length cand < length logits
         then sample_loop fo qs logits p s (min (k * 4) (length logits))
         else draw fo s cand probs
           (if f_lt_one fo (top_p p) then (case reached of Some n \<Rightarrow> n | None \<Rightarrow> length cand) else length cand))"

definition start_k :: "sampler_params \<Rightarrow> u32 list \<Rightarrow> nat" where
  "start_k p logits = min (if top_k p = 0 then 1024 else min (unat (top_k p)) 1024) (length logits)"

definition sample :: "'d f64_ops \<Rightarrow> quickselect \<Rightarrow> u32 list \<Rightarrow> sampler_params \<Rightarrow> rng \<Rightarrow> (u32 \<times> rng) option" where
  "sample fo qs logits p s =
     (if logits = [] then None
      else if f_le_zero fo (temperature p) then Some (argmax fo logits, s)
      else sample_loop fo qs logits p s (start_k p logits))"

subsection \<open>The generator never stalls\<close>

lemma xorshift_zero:
  assumes "0 < n" "x XOR drop_bit n x = 0"
  shows "x = (0 :: u64)"
proof -
  have "bit x i = bit x (n + i)" for i
    using arg_cong [OF assms(2), of "\<lambda>w. bit w i"] by (simp add: bit_xor_iff bit_drop_bit_eq)
  note once = this
  have step: "bit x i = bit x (i + k * n)" for i k
  proof (induction k)
    case (Suc k)
    note Suc.IH
    also have "bit x (i + k * n) = bit x (n + (i + k * n))" by (rule once)
    also have "n + (i + k * n) = i + Suc k * n" by simp
    finally show ?case .
  qed simp
  have "\<not> bit x i" for i
  proof -
    have "64 \<le> i + 64 * n" using assms(1) by simp
    then have "\<not> bit x (i + 64 * n)" using bit_imp_le_length [of x "i + 64 * n"] by auto
    then show ?thesis using step [of i 64] by simp
  qed
  then show ?thesis by (simp add: bit_eq_iff)
qed

lemma odd_mult_zero:
  assumes "c * d = (1 :: u64)" "x * c = 0"
  shows "x = 0"
proof -
  have "x = x * (c * d)" using assms(1) by simp
  also have "\<dots> = x * c * d" by (simp only: mult.assoc)
  finally show ?thesis using assms(2) by simp
qed

lemma mix64_zero: "mix64 x = 0 \<Longrightarrow> x = 0"
proof -
  assume m: "mix64 x = 0"
  have i1: "0xBF58476D1CE4E5B9 * 0x96de1b173f119089 = (1 :: u64)" by simp
  have i2: "0x94D049BB133111EB * 0x319642b2d24d8ec3 = (1 :: u64)" by simp
  let ?z1 = "(x XOR drop_bit 30 x) * 0xBF58476D1CE4E5B9"
  let ?z2 = "(?z1 XOR drop_bit 27 ?z1) * 0x94D049BB133111EB"
  have "?z2 XOR drop_bit 31 ?z2 = 0" using m by (simp only: mix64_def Let_def)
  from xorshift_zero [OF _ this] have "?z2 = 0" by simp
  from odd_mult_zero [OF i2 this] have "?z1 XOR drop_bit 27 ?z1 = 0" .
  from xorshift_zero [OF _ this] have "?z1 = 0" by simp
  from odd_mult_zero [OF i1 this] have "x XOR drop_bit 30 x = 0" .
  from xorshift_zero [OF _ this] show "x = 0" by simp
qed

lemma sampler_new_nonzero: "sampler_new seed \<noteq> (0, 0, 0, 0)"
proof
  assume "sampler_new seed = (0, 0, 0, 0)"
  then have "mix64 (seed + 0x9E3779B97F4A7C15) = 0" "mix64 (seed + 0x9E3779B97F4A7C15 + 0x9E3779B97F4A7C15) = 0"
    by (simp_all add: sampler_new_def Let_def)
  then have "seed + 0x9E3779B97F4A7C15 = 0" "seed + 0x9E3779B97F4A7C15 + 0x9E3779B97F4A7C15 = 0"
    by (blast dest: mix64_zero)+
  then show False by simp
qed

lemma rotate_left_zero:
  assumes "n < 64" "rotate_left n x = 0"
  shows "x = 0"
proof -
  have bits: "\<not> bit (push_bit n x) i" "\<not> bit (drop_bit (64 - n) x) i" for i
    using arg_cong [OF assms(2), of "\<lambda>w. bit w i"] by (simp_all add: rotate_left_def bit_or_iff)
  have "\<not> bit x i" for i
  proof -
    show ?thesis
    proof (cases "i < 64 - n")
      case True
      show ?thesis using bits(1) [of "n + i"] True by (simp add: bit_push_bit_iff)
    next
      case False
      show ?thesis using bits(2) [of "i - (64 - n)"] False by (simp add: bit_drop_bit_eq)
    qed
  qed
  then show ?thesis by (simp add: bit_eq_iff)
qed

lemma shift_fixpoint:
  assumes "0 < n" "x = push_bit n x"
  shows "x = (0 :: u64)"
proof -
  have step: "bit x i \<Longrightarrow> n \<le> i \<and> bit x (i - n)" for i
    by (subst (asm) assms(2)) (simp add: bit_push_bit_iff)
  have "\<not> bit x i" for i
  proof (induction i rule: less_induct)
    case (less i)
    show ?case using step [of i] less.IH [of "i - n"] assms(1) by (cases "n \<le> i") auto
  qed
  then show ?thesis by (simp add: bit_eq_iff)
qed

lemma xor_zero: "a XOR b = (0 :: u64) \<Longrightarrow> b = a"
proof -
  assume z: "a XOR b = 0"
  have "b = a XOR (a XOR b)" by (simp flip: xor.assoc)
  then show "b = a" by (simp add: z)
qed

lemma next_u64_nonzero:
  assumes "s \<noteq> (0, 0, 0, 0)"
  shows "snd (next_u64 s) \<noteq> (0, 0, 0, 0)"
proof
  assume z: "snd (next_u64 s) = (0, 0, 0, 0)"
  obtain s0 s1 s2 s3 where s: "s = (s0, s1, s2, s3)" by (cases s) auto
  have z: "s0 XOR (s3 XOR s1) = 0" "s1 XOR (s2 XOR s0) = 0" "(s2 XOR s0) XOR push_bit 17 s1 = 0"
    "rotate_left 45 (s3 XOR s1) = 0"
    using z by (simp_all add: s next_u64_def Let_def)
  from rotate_left_zero [OF _ z(4)] have "s3 XOR s1 = 0" by simp
  with z(1) have "s0 = 0" by simp
  with z(2,3) have "s1 XOR s2 = 0" "s2 XOR push_bit 17 s1 = 0" by simp_all
  then have "s2 = s1" "s2 = push_bit 17 s1" by (blast dest: xor_zero)+
  then have "s1 = 0" using shift_fixpoint [of 17 s1] by simp
  with \<open>s0 = 0\<close> \<open>s2 = s1\<close> \<open>s3 XOR s1 = 0\<close> assms show False by (simp add: s)
qed

subsection \<open>Drawing a token\<close>

lemma pick_range: "pick fo r i qs = Some j \<Longrightarrow> i \<le> j \<and> j < i + length qs"
  by (induction fo r i qs rule: pick.induct) (fastforce simp: Let_def split: if_splits)+

lemma reach_range: "reach fo t acc i qs = Some n \<Longrightarrow> i < n \<and> n \<le> i + length qs"
  by (induction fo t acc i qs rule: reach.induct) (fastforce simp: Let_def split: if_splits)+

lemma draw_ok:
  assumes "0 < keep" "keep \<le> length cand" "length probs = length cand"
  shows "\<exists>id \<in> set cand. draw fo s cand probs keep = Some (of_nat id, snd (next_u64 s))"
proof -
  have s': "snd (next_f64 fo s) = snd (next_u64 s)" by (simp add: next_f64_def split: prod.split)
  show ?thesis
  proof (cases "pick fo (d_mul fo (fst (next_f64 fo s)) (sum_of fo (take keep probs))) 0 (take keep probs)")
    case None
    then show ?thesis
      using assms s' by (intro bexI [of _ "cand ! (keep - 1)"]) (auto simp: draw_def Let_def split: prod.split)
  next
    case (Some i)
    then have "i < length cand" using pick_range [OF Some] assms by simp
    then show ?thesis
      using Some s' by (intro bexI [of _ "cand ! i"]) (auto simp: draw_def Let_def split: prod.split)
  qed
qed

text \<open>What \<open>select_nth_unstable_by\<close> documents of the slice it leaves.\<close>

definition partitions :: "quickselect \<Rightarrow> bool" where
  "partitions qs \<longleftrightarrow>
     (\<forall>logits k idx. k < length idx \<longrightarrow>
       mset (qs logits k idx) = mset idx \<and>
       (\<forall>i j. i < k \<and> k \<le> j \<and> j < length idx \<longrightarrow>
          total_key (logits ! (qs logits k idx ! j)) \<le> total_key (logits ! (qs logits k idx ! i))))"

definition above :: "u32 list \<Rightarrow> nat \<Rightarrow> nat set" where
  "above logits i = {j. j < length logits \<and> total_key (logits ! i) < total_key (logits ! j)}"

lemma select_top_ok:
  assumes "partitions qs" "k \<le> length logits"
  shows "length (select_top qs logits k) = k" "set (select_top qs logits k) \<subseteq> {..< length logits}"
    "i \<in> set (select_top qs logits k) \<Longrightarrow> card (above logits i) < k"
proof -
  define r where "r = qs logits k [0..<length logits]"
  have fin: "finite (above logits i)" for i by (simp add: above_def)
  have all: "length (select_top qs logits k) = k \<and> set (select_top qs logits k) \<subseteq> {..< length logits} \<and>
    (\<forall>i \<in> set (select_top qs logits k). card (above logits i) < k)"
  proof (cases "k < length logits")
    case True
    then have m: "mset r = mset [0..<length logits]"
      and o: "\<And>i j. i < k \<Longrightarrow> k \<le> j \<Longrightarrow> j < length logits \<Longrightarrow> total_key (logits ! (r ! j)) \<le> total_key (logits ! (r ! i))"
      using assms(1) by (simp_all add: partitions_def r_def)
    have e: "select_top qs logits k = take k r" using True by (simp add: select_top_def r_def)
    have l: "length r = length logits" using m by (metis diff_zero length_upt size_mset)
    have st: "set r = {..< length logits}" using m by (metis atLeast_upt set_mset_mset)
    have "card (above logits i) < k" if i: "i \<in> set (take k r)" for i
    proof -
      obtain a where a: "i = r ! a" "a < k" using i l True by (auto simp: in_set_conv_nth)
      have "above logits i \<subseteq> set (take k r) - {i}"
      proof
        fix j assume j: "j \<in> above logits i"
        then have "j \<in> set r" using st by (simp add: above_def)
        then obtain b where b: "j = r ! b" "b < length r" by (auto simp: in_set_conv_nth)
        have "b < k" using o [of a b] a b j l by (force simp: above_def)
        then have "j \<in> set (take k r)" using b by (auto simp: in_set_conv_nth)
        then show "j \<in> set (take k r) - {i}" using j by (auto simp: above_def)
      qed
      then have "card (above logits i) \<le> card (set (take k r) - {i})" by (intro card_mono) auto
      also have "\<dots> < card (set (take k r))" using i by (intro psubset_card_mono) auto
      also have "\<dots> \<le> k" using card_length [of "take k r"] by simp
      finally show ?thesis .
    qed
    then show ?thesis using True l st by (auto simp: e dest: in_set_takeD)
  next
    case False
    then have k: "k = length logits" using assms(2) by simp
    have "card (above logits i) < k" if "i < length logits" for i
    proof -
      have "above logits i \<subset> {..< length logits}" using that by (auto simp: above_def)
      from psubset_card_mono [OF _ this] show ?thesis by (simp add: k)
    qed
    then show ?thesis by (auto simp: select_top_def k)
  qed
  then show "length (select_top qs logits k) = k" "set (select_top qs logits k) \<subseteq> {..< length logits}"
    "i \<in> set (select_top qs logits k) \<Longrightarrow> card (above logits i) < k" by blast+
qed

lemma sample_loop_ok:
  assumes "partitions qs" "0 < k" "k \<le> length logits"
  shows "\<exists>id < length logits. sample_loop fo qs logits p s k = Some (of_nat id, snd (next_u64 s)) \<and>
    (top_k p \<noteq> 0 \<longrightarrow> card (above logits id) < k)"
  using assms(2,3)
proof (induction "length logits - k" arbitrary: k rule: less_induct)
  case less
  note sel = select_top_ok [OF assms(1) less.prems(2)]
  define cand where "cand = sort_key (by_value logits) (select_top qs logits k)"
  have l: "length cand = k" and st: "set cand = set (select_top qs logits k)" using sel(1) by (simp_all add: cand_def)
  define probs where "probs = weights_of fo p logits (d_of_f32 fo (logits ! (cand ! 0))) cand"
  have lp: "length probs = length cand" by (simp add: probs_def weights_of_def)
  define target where "target = d_mul fo (d_of_f32 fo (top_p p))
    (case full_total fo p logits of Some t \<Rightarrow> t | None \<Rightarrow> sum_of fo probs)"
  define reached where "reached = reach fo target (d_zero fo) 0 probs"
  define keep where "keep = (if f_lt_one fo (top_p p) then (case reached of Some n \<Rightarrow> n | None \<Rightarrow> length cand) else length cand)"
  have ne: "cand \<noteq> []" using l less.prems(1) by auto
  have step: "sample_loop fo qs logits p s k =
      (if f_lt_one fo (top_p p) \<and> reached = None \<and> top_k p = 0 \<and> length cand < length logits
       then sample_loop fo qs logits p s (min (k * 4) (length logits)) else draw fo s cand probs keep)"
    using ne by (subst sample_loop.simps) (simp add: Let_def keep_def flip: cand_def probs_def target_def reached_def)
  show ?case
  proof (cases "f_lt_one fo (top_p p) \<and> reached = None \<and> top_k p = 0 \<and> length cand < length logits")
    case True
    have "k < min (k * 4) (length logits)" "k < length logits" using True l less.prems(1) by simp_all
    then have "length logits - min (k * 4) (length logits) < length logits - k" by linarith
    moreover have "logits \<noteq> []" using True by auto
    ultimately show ?thesis using less.hyps [of "min (k * 4) (length logits)"] less.prems(1) True by (simp add: step)
  next
    case False
    have keep: "0 < keep" "keep \<le> length cand"
      using ne reach_range [of fo target "d_zero fo" 0 probs] lp
      by (auto simp: keep_def reached_def split: option.split)
    from draw_ok [OF keep lp] obtain id where id: "id \<in> set cand"
      "draw fo s cand probs keep = Some (of_nat id, snd (next_u64 s))" by blast
    then show ?thesis using False sel(2,3) by (intro exI [of _ id]) (auto simp: step st)
  qed
qed

lemma argmax_range: "logits \<noteq> [] \<Longrightarrow> fold (argmax_step fo logits) [0..<length logits] 0 < length logits"
proof -
  assume ne: "logits \<noteq> []"
  have "fold (argmax_step fo logits) xs b < length logits" if "b < length logits" "set xs \<subseteq> {..< length logits}" for xs b
    using that by (induction xs arbitrary: b) (auto simp: argmax_step_def)
  from this [of 0 "[0..<length logits]"] ne
  show "fold (argmax_step fo logits) [0..<length logits] 0 < length logits" by (simp add: lessThan_atLeast0)
qed

text \<open>
  C31: A draw always succeeds and stays inside the distribution. For every nonempty logits vector and
  every state of the generator, whatever the float arithmetic gives (NaN included), \<open>sample\<close>
  terminates without an index panic and returns an id of the vocabulary; it draws exactly one word,
  none when greedy; an active \<open>top_k\<close> returns an id with fewer than \<open>min top_k 1024\<close> larger logits;
  and the generator never reaches its all-zero fixed point, from which it would repeat forever.
\<close>

theorem sample_draws:
  assumes "partitions qs" "logits \<noteq> []" "length logits \<le> 2 ^ 32"
  shows "\<exists>id s'. sample fo qs logits p s = Some (id, s') \<and> unat id < length logits \<and>
    s' = (if f_le_zero fo (temperature p) then s else snd (next_u64 s)) \<and>
    (\<not> f_le_zero fo (temperature p) \<and> top_k p \<noteq> 0 \<longrightarrow> card (above logits (unat id)) < min (unat (top_k p)) 1024) \<and>
    (s \<noteq> (0, 0, 0, 0) \<longrightarrow> s' \<noteq> (0, 0, 0, 0)) \<and> sampler_new seed \<noteq> (0, 0, 0, 0)"
proof -
  have small: "unat (of_nat id :: u32) = id" if "id < length logits" for id
    using that assms(3) by (simp add: unat_of_nat)
  show ?thesis
  proof (cases "f_le_zero fo (temperature p)")
    case True
    then show ?thesis
      using assms(2) argmax_range [OF assms(2), of fo] small [OF argmax_range [OF assms(2)], of fo] sampler_new_nonzero
      by (simp add: sample_def argmax_def)
  next
    case False
    have k: "0 < start_k p logits" "start_k p logits \<le> length logits" "top_k p \<noteq> 0 \<longrightarrow> start_k p logits \<le> min (unat (top_k p)) 1024"
      using assms(2) by (auto simp: start_k_def unat_gt_0 min_def word_neq_0_conv)
    from sample_loop_ok [OF assms(1) k(1,2), of fo p s] obtain id where id: "id < length logits"
      "sample_loop fo qs logits p s (start_k p logits) = Some (of_nat id, snd (next_u64 s))"
      "top_k p \<noteq> 0 \<longrightarrow> card (above logits id) < start_k p logits" by blast
    have "top_k p \<noteq> 0 \<longrightarrow> card (above logits id) < min (unat (top_k p)) 1024" using id(3) k(3) by linarith
    then show ?thesis
      using False id(1,2) assms(2) small [OF id(1)] next_u64_nonzero [of s] sampler_new_nonzero
      by (intro exI [of _ "of_nat id"] exI [of _ "snd (next_u64 s)"]) (auto simp: sample_def)
  qed
qed

definition sample_floats :: "nat f64_ops" where
  "sample_floats =
     \<lparr>d_of_f32 = unat, d_of_u64 = unat, d_ulp = 1, d_zero = 0, d_sum0 = 0, d_add = (+), d_sub = (-), d_mul = (*),
      d_div = (div), d_exp = (\<lambda>x. x), d_le = (\<le>), f_gt = (>), f_max = max, f_le_zero = (\<lambda>x. x = 0),
      f_lt_one = (\<lambda>x. x < 1065353216)\<rparr>"

definition sample_select :: quickselect where
  "sample_select logits k idx = sort_key (by_value logits) idx"

lemma sample_select_partitions: "partitions sample_select"
proof -
  have "total_key (logits ! (sort_key (by_value logits) idx ! j)) \<le> total_key (logits ! (sort_key (by_value logits) idx ! i))"
    if "i < k" "k \<le> j" "j < length idx" for logits k idx i j
  proof -
    have "map (by_value logits) (sort_key (by_value logits) idx) ! i \<le> map (by_value logits) (sort_key (by_value logits) idx) ! j"
      by (rule sorted_nth_mono) (use that in auto)
    then show ?thesis using that by (auto simp: by_value_def less_eq_prod_def)
  qed
  note part = this
  show ?thesis unfolding partitions_def sample_select_def
  proof (intro allI impI conjI)
    fix logits :: "u32 list" and k and idx :: "nat list" and i j assume "i < k \<and> k \<le> j \<and> j < length idx"
    then show "total_key (logits ! (sort_key (by_value logits) idx ! j)) \<le> total_key (logits ! (sort_key (by_value logits) idx ! i))"
      by (intro part [of i k j]) auto
  qed simp
qed

theorem sample_draws_witness:
  "\<exists>id s'. sample sample_floats sample_select [1, 7, 3] \<lparr>temperature = 1065353216, top_k = 2, top_p = 1065353216\<rparr> (sampler_new 7) =
      Some (id, s') \<and> unat id < 3 \<and> s' \<noteq> (0, 0, 0, 0)"
proof -
  have ok: "[1, 7, 3 :: u32] \<noteq> []" "length [1, 7, 3 :: u32] \<le> 2 ^ 32" by simp_all
  note d = sample_draws [OF sample_select_partitions ok, of sample_floats
      "\<lparr>temperature = 1065353216, top_k = 2, top_p = 1065353216\<rparr>" "sampler_new 7" 7]
  from d obtain id s' where "sample sample_floats sample_select [1, 7, 3] \<lparr>temperature = 1065353216, top_k = 2, top_p = 1065353216\<rparr>
      (sampler_new 7) = Some (id, s')" "unat id < length [1, 7, 3 :: u32]"
      "sampler_new 7 \<noteq> (0, 0, 0, 0) \<longrightarrow> s' \<noteq> (0, 0, 0, 0)" "sampler_new 7 \<noteq> (0, 0, 0, 0)"
    by (elim exE conjE) (rule that)
  then show ?thesis by simp
qed

end
