(* ===== verification/Session.thy ===== *)
theory Session
  imports Model_Run Sampler
begin

text \<open>
  \<open>crates/sg-model/src/generate.rs\<close> and \<open>session.rs\<close>: the sample-decode loop, and one resident
  conversation that reuses the prefix of a prompt it already holds. The model is used through four
  operations; their contract is a locale, discharged for the model of \<open>graph.rs\<close>.
\<close>

subsection \<open>The model's operations\<close>

record 's model_ops =
  op_prefill :: "u32 list \<Rightarrow> 's \<Rightarrow> ((gpu_error + f32 list) \<times> 's) option"
  op_decode :: "u32 \<Rightarrow> 's \<Rightarrow> ((gpu_error + f32 list) \<times> 's) option"
  op_reset :: "'s \<Rightarrow> 's"

subsection \<open>Generation\<close>

definition EOS_TOKENS :: "u32 list" where "EOS_TOKENS = [1, 106]"

record gen_params =
  sampling :: sampler_params
  gp_seed :: u64
  max_tokens :: nat

datatype stop_reason = Eos u32 | MaxTokens | Aborted

text \<open>What the sampler needs besides its state, and the caller's callback with its own state.\<close>

record ('d, 'c) caller =
  c_floats :: "'d f64_ops"
  c_select :: quickselect
  on_token :: "'c \<Rightarrow> u32 \<Rightarrow> bool \<times> 'c"

datatype ('s, 'c) outcome =
    Panic
  | Done "gpu_error + (u32 list \<times> stop_reason)" "u32 list" 's 'c
    \<comment> \<open>the result, the history, the model and the callback's state at the return\<close>

text \<open>
  The loop both \<open>GpuModel::generate\<close> and \<open>Session::request\<close> run; \<open>history\<close> is extended after each
  decode (the first ignores it).
\<close>

function generate_loop ::
  "'s model_ops \<Rightarrow> ('d, 'c) caller \<Rightarrow> gen_params \<Rightarrow> f32 list \<Rightarrow> rng \<Rightarrow> u32 list \<Rightarrow> u32 list \<Rightarrow> 's \<Rightarrow> 'c \<Rightarrow> ('s, 'c) outcome" where
  "generate_loop ops c p logits g out history s cb =
     (case sample (c_floats c) (c_select c) logits (sampling p) g of
        None \<Rightarrow> Panic
      | Some (tok, g') \<Rightarrow>
          (let out = out @ [tok]; (continue, cb) = on_token c cb tok in
           if \<not> continue then Done (Inr (out, Aborted)) history s cb
           else if tok \<in> set EOS_TOKENS then Done (Inr (out, Eos tok)) history s cb
           else if length out \<ge> max_tokens p then Done (Inr (out, MaxTokens)) history s cb
           else case op_decode ops tok s of
                  None \<Rightarrow> Panic
                | Some (Inl e, s') \<Rightarrow> Done (Inl e) history s' cb
                | Some (Inr logits', s') \<Rightarrow> generate_loop ops c p logits' g' out (history @ [tok]) s' cb))"
  by pat_completeness auto

termination
  by (relation "measure (\<lambda>(ops, c, p, logits, g, out, _). max_tokens p - length out)") auto

declare generate_loop.simps [simp del]

text \<open>\<open>GpuModel::generate\<close> after its graph is recorded.\<close>

definition generate ::
  "'s model_ops \<Rightarrow> ('d, 'c) caller \<Rightarrow> gen_params \<Rightarrow> u32 list \<Rightarrow> 's \<Rightarrow> 'c \<Rightarrow> ('s, 'c) outcome" where
  "generate ops c p prompt s cb =
     (if prompt = [] then Panic
      else case op_prefill ops prompt s of
             None \<Rightarrow> Panic
           | Some (Inl e, s') \<Rightarrow> Done (Inl e) [] s' cb
           | Some (Inr logits, s') \<Rightarrow> generate_loop ops c p logits (sampler_new (gp_seed p)) [] [] s' cb)"

subsection \<open>Sessions\<close>

fun common_prefix :: "u32 list \<Rightarrow> u32 list \<Rightarrow> nat" where
  "common_prefix (x # xs) (y # ys) = (if x = y then Suc (common_prefix xs ys) else 0)"
| "common_prefix _ _ = 0"

record 's session =
  ses_model :: 's
  ses_history :: "u32 list"

definition session_new :: "'s \<Rightarrow> 's session" where
  "session_new m = \<lparr>ses_model = m, ses_history = []\<rparr>"

definition session_reset :: "'s model_ops \<Rightarrow> 's session \<Rightarrow> 's session" where
  "session_reset ops ses = ses\<lparr>ses_model := op_reset ops (ses_model ses), ses_history := []\<rparr>"

definition reuse :: "'s model_ops \<Rightarrow> u32 list \<Rightarrow> 's session \<Rightarrow> 's session" where
  "reuse ops prompt ses =
     (if common_prefix (ses_history ses) prompt < length (ses_history ses) \<or> length (ses_history ses) \<ge> length prompt
      then session_reset ops ses else ses)"

definition request ::
  "'s model_ops \<Rightarrow> ('d, 'c) caller \<Rightarrow> gen_params \<Rightarrow> u32 list \<Rightarrow> 's session \<Rightarrow> 'c \<Rightarrow> ('s, 'c) outcome" where
  "request ops c p prompt ses cb =
     (if prompt = [] then Panic else
      let ses = reuse ops prompt ses; resume = length (ses_history ses) in
      case op_prefill ops (drop resume prompt) (ses_model ses) of
        None \<Rightarrow> Panic
      | Some (Inl e, s') \<Rightarrow> Done (Inl e) (ses_history ses) s' cb
      | Some (Inr logits, s') \<Rightarrow>
          generate_loop ops c p logits (sampler_new (gp_seed p)) [] (ses_history ses @ drop resume prompt) s' cb)"

subsection \<open>What the loop promises\<close>

text \<open>The contract between a session and its model: where the next position is.\<close>

definition loop_post :: "gen_params \<Rightarrow> u32 list \<Rightarrow> u32 list \<Rightarrow> gpu_error + (u32 list \<times> stop_reason) \<Rightarrow> u32 list \<Rightarrow> u32 \<Rightarrow> bool" where
  "loop_post p out history r h at \<longleftrightarrow>
     (case r of
        Inr (out', reason) \<Rightarrow>
          (\<exists>new. new \<noteq> [] \<and> out' = out @ new \<and> h = history @ butlast new \<and>
             length out' \<le> max (Suc (length out)) (max_tokens p) \<and> set (butlast new) \<inter> set EOS_TOKENS = {} \<and>
             (reason = MaxTokens \<longrightarrow> max_tokens p \<le> length out') \<and>
             (\<forall>t. reason = Eos t \<longrightarrow> t = last new \<and> t \<in> set EOS_TOKENS)) \<and> at = of_nat (length h)
      | Inl e \<Rightarrow> (\<exists>new. h = history @ new) \<and> (at = of_nat (length h) \<or> at = of_nat (length h) + 1))"

lemma loop_post_step:
  assumes "loop_post p (out @ [tok]) (history @ [tok]) r h at" "tok \<notin> set EOS_TOKENS" "Suc (length out) < max_tokens p"
  shows "loop_post p out history r h at"
proof (cases r)
  case (Inr q)
  obtain out' reason where q: "q = (out', reason)" by (cases q)
  obtain new where new: "new \<noteq> []" "out' = (out @ [tok]) @ new" "h = (history @ [tok]) @ butlast new"
    "length out' \<le> max (Suc (length (out @ [tok]))) (max_tokens p)" "set (butlast new) \<inter> set EOS_TOKENS = {}"
    "reason = MaxTokens \<longrightarrow> max_tokens p \<le> length out'" "\<forall>t. reason = Eos t \<longrightarrow> t = last new \<and> t \<in> set EOS_TOKENS"
    "at = of_nat (length h)"
    using assms(1) by (auto simp: loop_post_def Inr q)
  then show ?thesis
    using assms(2,3) by (auto simp: loop_post_def Inr q intro!: exI [of _ "tok # new"])
next
  case (Inl e)
  then show ?thesis using assms(1) by (auto simp: loop_post_def)
qed

definition request_post :: "gen_params \<Rightarrow> u32 list \<Rightarrow> gpu_error + (u32 list \<times> stop_reason) \<Rightarrow> u32 list \<Rightarrow> u32 \<Rightarrow> bool" where
  "request_post p prompt r h at \<longleftrightarrow>
     loop_post p [] prompt r h at \<or>
     (\<exists>e k. r = Inl e \<and> h = take (length h) prompt \<and> length h + k \<le> length prompt \<and> at = of_nat (length h + k))"

lemma common_prefix_le: "common_prefix xs ys \<le> length xs"
  by (induction xs ys rule: common_prefix.induct) auto

lemma common_prefix_take: "length xs \<le> common_prefix xs ys \<Longrightarrow> take (length xs) ys = xs"
  by (induction xs ys rule: common_prefix.induct) (auto split: if_splits)

lemma common_prefix_append: "common_prefix xs (xs @ ys) = length xs"
  by (induction xs) simp_all

lemma reuse_prefix:
  "ses_history (reuse ops prompt ses) = take (length (ses_history (reuse ops prompt ses))) prompt"
  "length (ses_history (reuse ops prompt ses)) \<le> length prompt"
  using common_prefix_take [of "ses_history ses" prompt] by (auto simp: reuse_def session_reset_def not_less)

lemma reuse_kept: "suf \<noteq> [] \<Longrightarrow> prompt = ses_history ses @ suf \<Longrightarrow> reuse ops prompt ses = ses"
  by (simp add: reuse_def common_prefix_append)

lemma loop_step:
  assumes "sample (c_floats c) (c_select c) logits (sampling p) g = Some (tok, g')" "on_token c cb tok = (continue, cb1)"
  shows "generate_loop ops c p logits g out history s cb =
    (if \<not> continue then Done (Inr (out @ [tok], Aborted)) history s cb1
     else if tok \<in> set EOS_TOKENS then Done (Inr (out @ [tok], Eos tok)) history s cb1
     else if max_tokens p \<le> Suc (length out) then Done (Inr (out @ [tok], MaxTokens)) history s cb1
     else case op_decode ops tok s of
            None \<Rightarrow> Panic
          | Some (Inl e, s') \<Rightarrow> Done (Inl e) history s' cb1
          | Some (Inr logits', s') \<Rightarrow> generate_loop ops c p logits' g' (out @ [tok]) (history @ [tok]) s' cb1)"
  by (subst generate_loop.simps) (simp add: assms Let_def)

locale forward_model =
  fixes ops :: "'s model_ops"
    and at :: "'s \<Rightarrow> u32"
  assumes prefill_ok: "op_prefill ops ts s = Some (Inr l, s') \<Longrightarrow> at s' = at s + of_nat (length ts)"
    and prefill_err: "op_prefill ops ts s = Some (Inl e, s') \<Longrightarrow> \<exists>k \<le> length ts. at s' = at s + of_nat k"
    and decode_ok: "op_decode ops t s = Some (Inr l, s') \<Longrightarrow> at s' = at s + 1"
    and decode_err: "op_decode ops t s = Some (Inl e, s') \<Longrightarrow> at s' = at s \<or> at s' = at s + 1"
    and reset_pos: "at (op_reset ops s) = 0"
begin

lemma loop_result:
  assumes "generate_loop ops c p logits g out history s cb = Done r h s' cb'"
    "at s = of_nat (length history)"
  shows "loop_post p out history r h (at s')"
  using assms
proof (induction "max_tokens p - length out" arbitrary: logits g out history s cb rule: less_induct)
  case less
  obtain tok g' where smp: "sample (c_floats c) (c_select c) logits (sampling p) g = Some (tok, g')"
    using less.prems(1) by (subst (asm) generate_loop.simps) (auto split: option.splits)
  obtain continue cb1 where call: "on_token c cb tok = (continue, cb1)" by (cases "on_token c cb tok")
  note run = less.prems(1) [unfolded loop_step [where ops = ops, OF smp call]]
  consider (aborted) "\<not> continue" | (eos) "continue" "tok \<in> set EOS_TOKENS"
    | (full) "continue" "tok \<notin> set EOS_TOKENS" "max_tokens p \<le> Suc (length out)"
    | (more) "continue" "tok \<notin> set EOS_TOKENS" "Suc (length out) < max_tokens p"
    by (meson not_le)
  then show ?case
  proof cases
    case more
    show ?thesis
    proof (cases "op_decode ops tok s")
      case (Some q)
      obtain d s1 where q: "q = (d, s1)" by (cases q)
      show ?thesis
      proof (cases d)
        case (Inl e)
        then show ?thesis using run more Some decode_err [of tok s e s1] less.prems(2) by (auto simp: q loop_post_def)
      next
        case (Inr logits')
        have rec: "generate_loop ops c p logits' g' (out @ [tok]) (history @ [tok]) s1 cb1 = Done r h s' cb'"
          using run more Some by (simp add: q Inr)
        have "at s1 = of_nat (length (history @ [tok]))"
          using decode_ok [of tok s logits' s1] Some less.prems(2) by (simp add: q Inr)
        from less.hyps [OF _ rec this] more
        have "loop_post p (out @ [tok]) (history @ [tok]) r h (at s')" by simp
        then show ?thesis by (rule loop_post_step) (use more in simp_all)
      qed
    qed (use run more in simp)
  qed (use run less.prems(2) in \<open>auto simp: loop_post_def\<close>)
qed

lemma request_result:
  assumes "request ops c p prompt ses cb = Done r h s' cb'"
    "at (ses_model ses) = of_nat (length (ses_history ses))"
  shows "request_post p prompt r h (at s')"
proof -
  let ?ses = "reuse ops prompt ses" and ?n = "length (ses_history (reuse ops prompt ses))"
  have ne: "prompt \<noteq> []" using assms(1) by (auto simp: request_def)
  have kept: "ses_history ?ses = take ?n prompt" "?n \<le> length prompt" by (rule reuse_prefix)+
  have start: "at (ses_model ?ses) = of_nat ?n"
    using assms(2) by (simp add: reuse_def session_reset_def reset_pos)
  show ?thesis
  proof (cases "op_prefill ops (drop ?n prompt) (ses_model ?ses)")
    case (Some q)
    obtain d s1 where q: "q = (d, s1)" by (cases q)
    show ?thesis
    proof (cases d)
      case (Inl e)
      then have d: "r = Inl e" "h = ses_history ?ses" "s' = s1"
        using assms(1) ne Some by (auto simp: request_def Let_def q)
      obtain k where "k \<le> length (drop ?n prompt)" "at s1 = of_nat ?n + of_nat k"
        using prefill_err [of "drop ?n prompt" "ses_model ?ses" e s1] Some start by (auto simp: q Inl)
      then have k: "?n + k \<le> length prompt" "at s1 = of_nat (?n + k)" using kept(2) by simp_all
      have "h = take (length h) prompt" using kept(1) by (simp add: d)
      then show ?thesis using k by (auto simp: request_post_def d intro!: exI [of _ k])
    next
      case (Inr logits)
      have loop: "generate_loop ops c p logits (sampler_new (gp_seed p)) [] (ses_history ?ses @ drop ?n prompt) s1 cb = Done r h s' cb'"
        using assms(1) ne Some by (simp add: request_def Let_def q Inr)
      have h: "ses_history ?ses @ drop ?n prompt = prompt" using kept by (metis append_take_drop_id)
      have "at s1 = of_nat (length prompt)"
        using prefill_ok [of "drop ?n prompt" "ses_model ?ses" logits s1] Some start kept(2)
        by (simp add: q Inr flip: of_nat_add)
      then have "loop_post p [] prompt r h (at s')" using loop unfolding h by (intro loop_result) simp_all
      then show ?thesis by (simp add: request_post_def loop_post_def split: sum.splits)
    qed
  qed (use assms(1) ne in \<open>simp add: request_def Let_def\<close>)
qed

end

end
