(* ===== verification/Session_Props.thy ===== *)
theory Session_Props
  imports Session Graph_Runs
begin

text \<open>
  The positions of a conversation: the contract of the model of \<open>graph.rs\<close> and what a request leaves
  behind on every outcome.
\<close>

subsection \<open>The model keeps the contract\<close>

definition gpu_ops :: "'f gpu_model \<Rightarrow> command_graph \<Rightarrow> run_state model_ops" where
  "gpu_ops g graph = \<lparr>op_prefill = prefill g, op_decode = decode_step g graph, op_reset = model_reset\<rparr>"

lemma concat_take_le: "length (concat (take k xs)) \<le> length (concat xs)"
  by (metis append_take_drop_id concat_append le_add1 length_append)

lemma prefill_chunk_size: "prefill g ts s = Some q \<Longrightarrow> 0 < max_chunk g"
  by (auto simp: prefill_def split: if_splits)

interpretation gpu: forward_model "gpu_ops g graph" rs_pos for g graph
proof
  fix ts s l s' assume "op_prefill (gpu_ops g graph) ts s = Some (Inr l, s')"
  then have r: "prefill g ts s = Some (Inr l, s')" by (simp add: gpu_ops_def)
  from prefill_pos [OF r] chunks_of_concat [OF prefill_chunk_size [OF r], of ts]
  show "rs_pos s' = rs_pos s + of_nat (length ts)" by auto
next
  fix ts s e s' assume "op_prefill (gpu_ops g graph) ts s = Some (Inl e, s')"
  then have r: "prefill g ts s = Some (Inl e, s')" by (simp add: gpu_ops_def)
  from prefill_pos [OF r] concat_take_le chunks_of_concat [OF prefill_chunk_size [OF r], of ts]
  show "\<exists>k \<le> length ts. rs_pos s' = rs_pos s + of_nat k" by metis
next
  fix t s l s' assume "op_decode (gpu_ops g graph) t s = Some (Inr l, s')"
  then show "rs_pos s' = rs_pos s + 1" using decode_step_pos [of g graph t s "Inr l" s'] by (simp add: gpu_ops_def)
next
  fix t s e s' assume "op_decode (gpu_ops g graph) t s = Some (Inl e, s')"
  then show "rs_pos s' = rs_pos s \<or> rs_pos s' = rs_pos s + 1"
    using decode_step_pos [of g graph t s "Inl e" s'] by (auto simp: gpu_ops_def)
next
  fix s show "rs_pos (op_reset (gpu_ops g graph) s) = 0" by (simp add: gpu_ops_def model_reset_def)
qed

text \<open>
  C32: What a request leaves behind. If the history is as long as the model's position, then after a
  request that succeeds it is again, and the history is the prompt followed by every sampled token
  but the last; at most \<open>max_tokens\<close> tokens are sampled (one when it is 0), none but the last is an
  end token, and the stop reason says why. After a failure the history is still a prefix of the
  prompt, or the prompt and the decoded tokens, but the model may be ahead of it. A history that is
  a proper prefix of the prompt is reused.
\<close>

theorem session_request:
  assumes "rs_pos (ses_model ses) = of_nat (length (ses_history ses))"
    and "request (gpu_ops g graph) c p prompt ses cb = Done r h s' cb'"
  shows "request_post p prompt r h (rs_pos s') \<and>
    (\<forall>suf. suf \<noteq> [] \<and> prompt = ses_history ses @ suf \<longrightarrow> reuse (gpu_ops g graph) prompt ses = ses)"
  using gpu.request_result [OF assms(2,1)] reuse_kept by blast

subsection \<open>A request over a lost device\<close>

definition broken :: run_state where
  "broken = \<lparr>rs_pos = 0, prefill_graphs = (\<lambda>_. None), rs_vk = vk_init (\<lambda>_. Some ''lost'')\<rparr>"

definition sample_gpu :: "nat host \<Rightarrow> nat gpu_model" where
  "sample_gpu h = \<lparr>gp_host = h, gp_graph = sample_model, max_chunk = 64, global_cap = 1024\<rparr>"

lemma broken_prefill: "\<exists>e t. prefill (sample_gpu h) [5] broken = Some (Inl e, t)"
proof -
  obtain ops rs where o: "segment_ops sample_model 0 6 64 (Suc 0) LogitsLast = Some ops"
    "those (map (realize sample_model) ops) = Some rs"
    using segment_ops_ok [OF sample_built, of "Suc 0" 1 6 0 LogitsLast] by (auto simp: x_n_layers_def)
  have d: "n_layers (gm_desc sample_model) = 60" by (simp add: sample_model_def the_model_sizes)
  have "\<exists>e t. record_graph body (vk_init (\<lambda>_. Some ''lost'')) = Some (Inl e, t)" for body
    by (simp add: record_graph_def record_inner_def begin_recorder_def gpu_simps vk_init_def)
  then obtain e t where "record_graph (run_ops (gm_ctx sample_model) rs) (vk_init (\<lambda>_. Some ''lost'')) = Some (Inl e, t)"
    by blast
  then have "\<exists>t. record_prefill sample_model 64 (Suc 0) LogitsLast (vk_init (\<lambda>_. Some ''lost'')) = Some (Inl e, t)"
    using o by (subst record_prefill_def, subst record_segments.simps) (simp add: d PREFILL_SEGMENT_LAYERS_def record_ops_def)
  then show ?thesis
    by (auto simp: prefill_def sample_gpu_def broken_def div_ceil_def rn_bind_def prefill_chunk_def next_multiple_64_def
        cached_prefill_def on_vk_def)
qed

theorem session_request_witness:
  "\<forall>h. \<exists>e s'. request (gpu_ops (sample_gpu h) \<lparr>g_pool = 1, g_cb = 2, g_arena = arena_new, g_keep = []\<rparr>)
      \<lparr>c_floats = sample_floats, c_select = sample_select, on_token = (\<lambda>u t. (True, u))\<rparr>
      \<lparr>sampling = \<lparr>temperature = 0, top_k = 0, top_p = 0\<rparr>, gp_seed = 1, max_tokens = 3\<rparr> [5] (session_new broken) () =
      Done (Inl e) [] s' () \<and>
    request_post \<lparr>sampling = \<lparr>temperature = 0, top_k = 0, top_p = 0\<rparr>, gp_seed = 1, max_tokens = 3\<rparr> [5] (Inl e) [] (rs_pos s')"
proof
  fix h
  let ?ops = "gpu_ops (sample_gpu h) \<lparr>g_pool = 1, g_cb = 2, g_arena = arena_new, g_keep = []\<rparr>"
  let ?c = "\<lparr>c_floats = sample_floats, c_select = sample_select, on_token = (\<lambda>u t. (True, u))\<rparr> :: (nat, unit) caller"
  let ?p = "\<lparr>sampling = \<lparr>temperature = 0, top_k = 0, top_p = 0\<rparr>, gp_seed = 1, max_tokens = 3\<rparr>"
  obtain e t where r: "prefill (sample_gpu h) [5] broken = Some (Inl e, t)" using broken_prefill by blast
  have run: "request ?ops ?c ?p [5] (session_new broken) () = Done (Inl e) [] t ()"
    using r by (simp add: request_def reuse_def session_new_def gpu_ops_def Let_def session_reset_def)
  have "rs_pos (ses_model (session_new broken)) = of_nat (length (ses_history (session_new broken)))"
    by (simp add: session_new_def broken_def)
  from session_request [OF this run] run
  show "\<exists>e s'. request ?ops ?c ?p [5] (session_new broken) () = Done (Inl e) [] s' () \<and> request_post ?p [5] (Inl e) [] (rs_pos s')"
    by blast
qed

end
