(* ===== verification/Model_Flow.thy ===== *)
theory Model_Flow
  imports Model_Graph_Props
begin

text \<open>
  What a decode graph computes from what. A memory gives every buffer its contents, a kernel is any
  function from the contents of the bindings it reads to the contents of a binding it writes, and a
  graph runs its dispatches in order (the recorder puts a barrier before each one).
\<close>

subsection \<open>Running dispatches\<close>

text \<open>
  The slots the shaders declare \<open>read_write\<close>, and those among them whose old contents matter: the
  rotary embedding works in place, an append overwrites one slot of a store.
\<close>

fun outputs :: "kname \<Rightarrow> nat list" where
  "outputs K_rope_sl_q = [0]" | "outputs K_rope_sl_k = [0]" | "outputs K_rope_gl_q = [0]" | "outputs K_rope_gl_k = [0]"
| "outputs K_append_sl = [1]" | "outputs K_append_gl = [1]" | "outputs K_append_gl_q8 = [1, 2]"
| "outputs K_attn_sl = [3]" | "outputs K_attn_gl_q8 = [4]" | "outputs K_reduce256 = [1]" | "outputs K_reduce512 = [1]"
| "outputs K_quant_q8 = [1, 2]" | "outputs K_prefill_sl = [5]" | "outputs K_prefill_gl_iq = [5]"
| "outputs K_gemm_up_i8 = [3]" | "outputs K_gemm_down_i8 = [3]" | "outputs K_gemm_q_i8_sl = [3]" | "outputs K_gemm_q_i8_gl = [3]"
| "outputs K_gemm_kv_i8_sl = [3]" | "outputs K_gemm_kv_i8_gl = [3]" | "outputs K_gemm_o_i8_sl = [3]" | "outputs K_gemm_o_i8_gl = [3]"
| "outputs _ = [2]"

definition updates :: "kname \<Rightarrow> bool" where
  "updates k \<longleftrightarrow> k \<in> {K_rope_sl_q, K_rope_sl_k, K_rope_gl_q, K_rope_gl_k, K_append_sl, K_append_gl, K_append_gl_q8}"

type_synonym 'a kernel_sem = "kname \<Rightarrow> nat \<Rightarrow> u32 list option \<Rightarrow> u32 list \<Rightarrow> 'a list \<Rightarrow> 'a"

definition op_reads :: "mop \<Rightarrow> (bref \<times> (nat \<times> nat) option) list" where
  "op_reads op = map snd (filter (\<lambda>(i, _). i \<notin> set (outputs (op_kernel op)) \<or> updates (op_kernel op)) (op_binds op))"

definition op_writes :: "mop \<Rightarrow> (nat \<times> bref) list" where
  "op_writes op = map (\<lambda>(i, b, _). (i, b)) (filter (\<lambda>(i, _). i \<in> set (outputs (op_kernel op))) (op_binds op))"

text \<open>\<open>part\<close> is the contents of a slice.\<close>

definition run_op_mem :: "(nat \<times> nat \<Rightarrow> 'a \<Rightarrow> 'a) \<Rightarrow> 'a kernel_sem \<Rightarrow> mop \<Rightarrow> (bref \<Rightarrow> 'a) \<Rightarrow> bref \<Rightarrow> 'a" where
  "run_op_mem part sem op mem =
     (let xs = map (\<lambda>(b, sl). case sl of None \<Rightarrow> mem b | Some w \<Rightarrow> part w (mem b)) (op_reads op) in
      fold (\<lambda>(i, b) mem'. mem'(b := sem (op_kernel op) i (op_push op) (op_groups op) xs)) (op_writes op) mem)"

definition run_ops_mem :: "(nat \<times> nat \<Rightarrow> 'a \<Rightarrow> 'a) \<Rightarrow> 'a kernel_sem \<Rightarrow> mop list \<Rightarrow> (bref \<Rightarrow> 'a) \<Rightarrow> bref \<Rightarrow> 'a" where
  "run_ops_mem part sem ops mem = fold (run_op_mem part sem) ops mem"

subsection \<open>Definition before use\<close>

text \<open>What a decode step starts from: the hidden state, the stores, the tables and the weights.\<close>

fun fixed :: "bref \<Rightarrow> bool" where
  "fixed (Act a) = False" | "fixed (Pre a) = False"
| "fixed (Wt w i) = True" | "fixed TokenEmbd = True" | "fixed OutputNorm = True" | "fixed NormOnes = True"
| "fixed (KvK i) = False" | "fixed (KvQuants i) = False" | "fixed (KvScales i) = False" | "fixed (KvV i) = False"
| "fixed Step = True" | "fixed CsSliding = True" | "fixed CsGlobal = True" | "fixed LogitsAll = False"

definition store_of :: "nat \<Rightarrow> bref set" where
  "store_of i = {KvK i, KvQuants i, KvScales i, KvV i}"

definition inputs :: "bref set" where
  "inputs = {b. fixed b} \<union> {Act A_x} \<union> (\<Union>i. store_of i)"

fun defined_before_use :: "bref set \<Rightarrow> bref set \<Rightarrow> mop list \<Rightarrow> bool" where
  "defined_before_use known mut [] = True"
| "defined_before_use known mut (op # ops) \<longleftrightarrow>
     fst ` set (op_reads op) \<subseteq> known \<and> snd ` set (op_writes op) \<subseteq> mut \<and>
     defined_before_use (snd ` set (op_writes op) \<union> known) mut ops"

fun written :: "mop list \<Rightarrow> bref set" where
  "written [] = {}"
| "written (op # ops) = snd ` set (op_writes op) \<union> written ops"

definition agree :: "bref set \<Rightarrow> (bref \<Rightarrow> 'a) \<Rightarrow> (bref \<Rightarrow> 'a) \<Rightarrow> bool" where
  "agree bs m1 m2 \<longleftrightarrow> (\<forall>b \<in> bs. m1 b = m2 b)"

lemma fold_write_other:
  "b \<notin> snd ` set ws \<Longrightarrow> fold (\<lambda>(i, b) mem'. mem'(b := f i)) ws mem b = mem b"
  by (induction ws arbitrary: mem) auto

lemma fold_write_agree:
  "agree bs m1 m2 \<Longrightarrow>
   agree (snd ` set ws \<union> bs) (fold (\<lambda>(i, b) mem'. mem'(b := f i)) ws m1) (fold (\<lambda>(i, b) mem'. mem'(b := f i)) ws m2)"
proof (induction ws arbitrary: m1 m2 bs)
  case (Cons w ws)
  obtain i b where w: "w = (i, b)" by (cases w)
  have "agree (insert b bs) (m1(b := f i)) (m2(b := f i))" using Cons.prems by (auto simp: agree_def)
  from Cons.IH [OF this] show ?case by (simp add: w)
qed simp

lemma run_op_agree:
  assumes "agree bs m1 m2" "fst ` set (op_reads op) \<subseteq> bs"
  shows "agree (snd ` set (op_writes op) \<union> bs) (run_op_mem part sem op m1) (run_op_mem part sem op m2)"
proof -
  have "m1 b = m2 b" if "(b, sl) \<in> set (op_reads op)" for b sl
    using that assms by (force simp: agree_def)
  then have e: "map (\<lambda>(b, sl). case sl of None \<Rightarrow> m1 b | Some w \<Rightarrow> part w (m1 b)) (op_reads op) =
      map (\<lambda>(b, sl). case sl of None \<Rightarrow> m2 b | Some w \<Rightarrow> part w (m2 b)) (op_reads op)"
    by (auto split: option.split)
  show ?thesis unfolding run_op_mem_def Let_def e by (rule fold_write_agree [OF assms(1)])
qed

lemma run_op_other: "b \<notin> snd ` set (op_writes op) \<Longrightarrow> run_op_mem part sem op mem b = mem b"
  by (simp add: run_op_mem_def Let_def fold_write_other)

lemma run_ops_agree:
  "agree bs m1 m2 \<Longrightarrow> defined_before_use bs mut ops \<Longrightarrow>
   agree (written ops \<union> bs) (run_ops_mem part sem ops m1) (run_ops_mem part sem ops m2)"
proof (induction ops arbitrary: bs m1 m2)
  case (Cons op ops)
  have "agree (snd ` set (op_writes op) \<union> bs) (run_op_mem part sem op m1) (run_op_mem part sem op m2)"
    using Cons.prems by (intro run_op_agree) auto
  from Cons.IH [OF this] Cons.prems(2) show ?case by (simp add: run_ops_mem_def Un_ac)
qed (simp add: run_ops_mem_def)

lemma run_ops_other:
  "defined_before_use bs mut ops \<Longrightarrow> b \<notin> mut \<Longrightarrow> run_ops_mem part sem ops mem b = mem b"
proof (induction ops arbitrary: bs mem)
  case (Cons op ops)
  then have "b \<notin> snd ` set (op_writes op)" by auto
  then have "run_op_mem part sem op mem b = mem b" by (rule run_op_other)
  then show ?case
    using Cons.IH [of "snd ` set (op_writes op) \<union> bs" "run_op_mem part sem op mem"] Cons.prems by (simp add: run_ops_mem_def)
qed (simp add: run_ops_mem_def)

subsection \<open>Decode layers\<close>

definition scratch :: "bref set" where
  "scratch = range Act"

lemma decode_layer_flow:
  assumes "built m cap chunk" "i < x_n_layers"
  shows "\<exists>ops. record_layer m i = Some ops \<and> defined_before_use inputs (scratch \<union> store_of i) ops"
proof -
  note b = built_simps [OF assms(1)]
  have i: "i < 60" using assms(2) by (simp add: x_n_layers_def)
  show ?thesis
  proof (cases "layer_kind i")
    case Sliding
    then show ?thesis
      using i by (simp add: record_layer_defs b model_sizes Let_def mk_op_def rms_def op_reads_def op_writes_def updates_def
          inputs_def scratch_def store_of_def)
  next
    case Global
    then show ?thesis
      using i by (simp add: record_layer_defs b model_sizes Let_def mk_op_def rms_def op_reads_def op_writes_def updates_def
          inputs_def scratch_def store_of_def)
  qed
qed

lemma decode_logits_flow:
  "defined_before_use inputs scratch (record_logits m)" "Act A_logits \<in> written (record_logits m)"
  by (simp_all add: record_logits_def mk_op_def rms_def op_reads_def op_writes_def updates_def inputs_def scratch_def store_of_def)

lemma concat_opt_append:
  "concat_opt (xs @ ys) = Option.bind (concat_opt xs) (\<lambda>a. Option.bind (concat_opt ys) (\<lambda>b. Some (a @ b)))"
  by (induction xs) (simp_all add: Option.bind_assoc split: Option.bind_splits)

lemma decode_layers_flow:
  assumes "built m cap chunk" "set layers \<subseteq> {..< x_n_layers}"
  shows "\<exists>ops. concat_opt (map (record_layer m) layers) = Some ops \<and>
    (agree inputs m1 m2 \<longrightarrow> agree inputs (run_ops_mem part sem ops m1) (run_ops_mem part sem ops m2)) \<and>
    (\<forall>b. b \<notin> scratch \<union> (\<Union>i \<in> set layers. store_of i) \<longrightarrow> run_ops_mem part sem ops m1 b = m1 b)"
  using assms(2)
proof (induction layers arbitrary: m1 m2)
  case Nil
  show ?case by (simp add: run_ops_mem_def)
next
  case (Cons i layers)
  obtain ops where o: "record_layer m i = Some ops" "defined_before_use inputs (scratch \<union> store_of i) ops"
    using decode_layer_flow [OF assms(1), of i] Cons.prems by auto
  let ?r = "run_ops_mem part sem ops"
  obtain rest where r: "concat_opt (map (record_layer m) layers) = Some rest"
    "agree inputs (?r m1) (?r m2) \<longrightarrow> agree inputs (run_ops_mem part sem rest (?r m1)) (run_ops_mem part sem rest (?r m2))"
    "\<forall>b. b \<notin> scratch \<union> (\<Union>i \<in> set layers. store_of i) \<longrightarrow> run_ops_mem part sem rest (?r m1) b = ?r m1 b"
    using Cons.IH [of "?r m1" "?r m2"] Cons.prems by auto
  have a: "agree inputs (?r m1) (?r m2)" if "agree inputs m1 m2"
    using run_ops_agree [OF that o(2), of part sem] by (simp add: agree_def)
  show ?case
    using o(1) r a run_ops_other [OF o(2), of _ part sem m1] by (simp add: run_ops_mem_def)
qed

text \<open>
  C5: A decode step depends on nothing but its inputs. Whatever the kernels compute, the hidden
  state, the stores and the logits after the recorded graph are determined by the hidden state, the
  stores, the step words, the rotary tables and the weights before it: no value left in a scratch
  buffer by an earlier step or by a prefill is read. The graph changes scratch buffers and the
  stores of its own layers only, so weights, tables and the stores of other layers stay.
\<close>

theorem decode_depends_on_inputs:
  assumes "built m cap chunk" "set layers \<subseteq> {..< x_n_layers}"
  shows "\<exists>ops. decode_ops m layers True = Some ops \<and>
    (agree inputs m1 m2 \<longrightarrow>
       agree (insert (Act A_logits) inputs) (run_ops_mem part sem ops m1) (run_ops_mem part sem ops m2)) \<and>
    (\<forall>b. b \<notin> scratch \<union> (\<Union>i \<in> set layers. store_of i) \<longrightarrow> run_ops_mem part sem ops m1 b = m1 b)"
proof -
  obtain xs where x: "concat_opt (map (record_layer m) layers) = Some xs"
    "agree inputs m1 m2 \<longrightarrow> agree inputs (run_ops_mem part sem xs m1) (run_ops_mem part sem xs m2)"
    "\<forall>b. b \<notin> scratch \<union> (\<Union>i \<in> set layers. store_of i) \<longrightarrow> run_ops_mem part sem xs m1 b = m1 b"
    using decode_layers_flow [OF assms, where part = part and sem = sem and ?m1.0 = m1 and ?m2.0 = m2]
    by (elim exE conjE) (rule that)
  let ?ops = "xs @ record_logits m"
  have "decode_ops m layers True = Some ?ops" by (simp add: decode_ops_def concat_opt_append x(1))
  moreover have "agree (insert (Act A_logits) inputs) (run_ops_mem part sem ?ops m1) (run_ops_mem part sem ?ops m2)"
    if "agree inputs m1 m2"
    using run_ops_agree [OF x(2) [rule_format, OF that] decode_logits_flow(1) [of m], of part sem] decode_logits_flow(2) [of m]
    by (auto simp: agree_def run_ops_mem_def)
  moreover have "run_ops_mem part sem ?ops m1 b = m1 b" if "b \<notin> scratch \<union> (\<Union>i \<in> set layers. store_of i)" for b
    using x(3) that run_ops_other [OF decode_logits_flow(1) [of m], of b part sem] by (simp add: run_ops_mem_def)
  ultimately show ?thesis by (intro exI [of _ ?ops] conjI allI impI) assumption+
qed

theorem decode_depends_on_inputs_witness:
  "\<exists>ops. decode_ops sample_model [0..<60] True = Some ops \<and>
    run_ops_mem (\<lambda>_ x. x) (\<lambda>k i p g xs. sum_list xs) ops (\<lambda>b. if b \<in> inputs then 1 else 2) (Act A_logits) =
    run_ops_mem (\<lambda>_ x. x) (\<lambda>k i p g xs. sum_list xs) ops (\<lambda>b. 1 :: nat) (Act A_logits)"
proof -
  have "set [0..<60] \<subseteq> {..< x_n_layers}" by (auto simp: x_n_layers_def)
  moreover have "agree inputs (\<lambda>b. if b \<in> inputs then 1 else 2) (\<lambda>b. 1 :: nat)" by (simp add: agree_def)
  ultimately show ?thesis
    using decode_depends_on_inputs [OF sample_built, of "[0..<60]" "\<lambda>b. if b \<in> inputs then 1 else 2" "\<lambda>b. 1 :: nat"
        "\<lambda>_ x. x" "\<lambda>k i p g xs. sum_list xs"]
    by (auto simp: agree_def)
qed

end
