(* ===== verification/Spec2Isabelle.thy ===== *)
theory Spec2Isabelle
  imports Gguf_Props Tokenizer_Props Turn_Parser Reference_Chunks Weight_Source Model_New_Props All_Logits Session_Props Model_Flow Staging
begin

text \<open>
  A verification development for super-gemma, an inference engine for one language model: a GGUF
  file is parsed and validated, its weights go to a Vulkan device, the forward pass is recorded as
  command graphs over a table of compiled kernels, a session prefills prompts and samples tokens, and
  a tokenizer with a chat template and a tool-call parser stands at the text end.

  \<^bold>\<open>Conventions.\<close> A Rust \<open>str\<close> is a \<open>string\<close> whose characters are its UTF-8 code units, a byte slice a
  list of \<open>u8\<close>, \<open>usize\<close> a natural number, and integers of a file or of the device keep their width as
  words. \<open>Result\<close> is a sum with the error on the left, a panic is \<open>None\<close> (\<open>Panic\<close> or \<open>Panicked\<close>
  where an outcome type has more cases). f32 and f64 are bit patterns or a type parameter whose
  operations are arguments. Code that is not in the repository is a parameter: the Vulkan driver is
  an arbitrary answer to every fallible call, the kernel's answers to \<open>read_at\<close> are a script, the
  shader compiler, Unicode case mapping, number formatting and the quickselect are functions whose
  documented laws are hypotheses where a property needs one.

  \<^bold>\<open>GGUF\<close> (\<open>crates/sg-gguf\<close>). \<open>Meta\<close> is the insertion-ordered metadata table of \<open>meta.rs\<close> and its typed
  accessors; \<open>Tensor_Table\<close> the element types and block geometry of \<open>tensor.rs\<close>; \<open>Gguf_Parse\<close> the
  cursor, the value and array readers and \<open>Gguf::parse\<close> of \<open>parse.rs\<close>; \<open>Quant\<close> the Q4_0 and Q6_K
  blocks; \<open>Model_Desc\<close> the validation of \<open>desc.rs\<close>; \<open>Weight_Source\<close> the mmap and O_DIRECT loaders of
  \<open>weights.rs\<close>. \<open>Gguf_Correct\<close>, \<open>Gguf_Write\<close>, \<open>Gguf_Props\<close> and \<open>Desc_Props\<close> show that the parser
  inverts a reference serializer, that every tensor of a parsed file lies inside it with the size of
  its shape, that validation accepts exactly the files that agree with the configuration, and that
  the O_DIRECT loader, for every script of short reads and errors, gives the mmap copy or an error
  and needs a bounded number of calls. The array depth bound of the parser is the fuel of the
  readers; running out of it is the parser's own depth error.

  \<^bold>\<open>Text\<close> (\<open>crates/sg-tokenizer\<close>). \<open>Utf8\<close> is \<open>str::from_utf8\<close>; \<open>Vocab\<close>, \<open>Bpe\<close>, \<open>Detok\<close> and \<open>Tokenizer\<close>
  model the files of those names, \<open>Template\<close> over the JSON values of \<open>Json\<close> models \<open>template.rs\<close>, and
  \<open>Tool_Call\<close> with \<open>Turn_Parser\<close> models \<open>toolcall.rs\<close>. The properties: the heap-driven merge loop
  computes plain BPE, decoding inverts encoding, streamed detokenization equals lossy decoding of
  the whole, plain text never yields a control token, the tool-call parser inverts the template, and a
  turn is parsed to its blocks however it was cut into tokens. The parser's fuel is the length of the
  text; it is proved to suffice.

  \<^bold>\<open>Device\<close> (\<open>crates/sg-gpu\<close>). \<open>Gpu_Device\<close> is the driver state: fallible calls, the objects alive, a
  count of wrong destructions, memories and command buffers. \<open>Gpu_Context\<close> is device selection and
  creation, \<open>Gpu_Buffer\<close> buffers, views, guards and bindings, \<open>Kernel_Table\<close> the variant table of
  \<open>build.rs\<close>, \<open>Gpu_Kernel\<close> the generated registry and pipelines, \<open>Gpu_Graph\<close> the descriptor arena, the
  recorder, profiling and submission. A recording closure is a list of recorder operations. Every
  operation accounts for its objects on every failing path, a finished graph executes exactly the
  recorded dispatches with their own descriptor sets and a barrier between any two, and views behave as
  lists of elements. Allocations do not grow: a raw write that leaves one is counted in \<open>overruns\<close>, and
  the properties show that none does. Not covered: closures that swallow an error or reset timers
  themselves, and the wrap of the dispatch counter after \<open>2 ^ 32\<close> dispatches of one recording.

  \<^bold>\<open>Model\<close> (\<open>crates/sg-model\<close>). \<open>Model_Graph\<close> is the recording half of \<open>graph.rs\<close>: the dispatches of a
  decode layer, a prefill layer and the LM head, as data that \<open>realize\<close> turns into recorder
  operations. \<open>Model_Graph_Props\<close> shows that each of them binds, pushes and launches what its kernel
  is specialized for in \<open>Kernel_Table\<close>; the extents the shaders index with are stated there as
  \<open>fits\<close>. \<open>Model_Flow\<close> shows that a decode step reads nothing an earlier step left in a scratch
  buffer. \<open>Model_Run\<close> is the driving half: staging, rotary tables (\<open>rope.rs\<close>), chunked prefill with
  its graph cache, decode steps; \<open>Staging\<close> shows that staging never fails on a built model and a
  validated file, writes only its own buffers, and stages for a chunk, row by row, what staging each
  token alone would. \<open>Graph_Runs\<close> follows recorded graphs over later calls; \<open>All_Logits\<close> adds
  \<open>prefill_all_logits\<close>, the profiled recordings and the read-back of taps, and shows which command
  buffers a scored text submits and what they dispatch: the layers, the norm and every row of a chunk
  through the LM head once. \<open>Sampler\<close> models \<open>sampler.rs\<close> and \<open>Session\<close> models \<open>generate.rs\<close> and
  \<open>session.rs\<close>; \<open>Session_Props\<close> relates the history of a conversation to the model's position on every
  outcome. \<open>Weight_Upload\<close> models \<open>weights.rs\<close> of this crate, and \<open>Weight_Upload_Props\<close> shows that a
  validated file uploads to buffers with the words of its tensors and the lengths \<open>Model_Graph_Props\<close>
  assumes, or fails with everything destroyed. \<open>Model_New\<close> is \<open>GpuModel::new\<close>, a list of buffers and kernels
  made in the constructor's order; \<open>Model_New_Props\<close> shows that it gives the model \<open>built\<close> that the
  properties of \<open>Model_Graph_Props\<close> start from, or fails with everything destroyed.
  \<open>Reference\<close> is the CPU oracle of \<open>reference.rs\<close> with \<open>apply_rope\<close>; \<open>Reference_Rows\<close> shows
  that each stage is a function of a token's row and position, \<open>Reference_Props\<close> that the weights of a
  validated file have the shapes the stages assert, and \<open>Reference_Chunks\<close> that a forward pass never
  panics and that a prompt in pieces is the prompt whole.

  \<^bold>\<open>Interfaces.\<close> A locale states what a client relies on, and is interpreted on the model of the
  code: \<open>min_queue\<close> (the binary heap under the merge loop), \<open>sink\<close> (detokenizers fed piecewise),
  \<open>keyed_table\<close> (metadata), \<open>pod_type\<close> and its extension
  \<open>exact_pod\<close> (buffer elements), \<open>forward_model\<close> (a session over a model).

  \<^bold>\<open>Loops.\<close> Structural recursion or a measure where the loop ends for every input; \<open>partial_function\<close>
  over options where it is a theorem that it ends (the merge loop, the encoding loop, the widening
  loop of the sampler), and then the theorem states the result. Prefill is proved for chunk capacities up to
  65536 rows, within which no grid overflows a 32-bit word.

  \<^bold>\<open>Not modelled.\<close> The shaders (WGSL), beyond the sizes they index with; the text substitution and the
  compiler calls in \<open>compile\<close> of \<open>build.rs\<close>; \<open>file.rs\<close>, which maps a file; \<open>sg-engine\<close>, \<open>sg-cache\<close> and \<open>sg-server\<close>, which hold no logic yet; and the
  tools \<open>sg-bench\<close>, \<open>sg-probe\<close> and \<open>sg-validate\<close>, which print measurements.
\<close>

end
